(* ===== verification/Vcc_Prelude.thy ===== *)
theory Vcc_Prelude
  imports Main "HOL-Library.Word" "HOL-Library.Monad_Syntax"
begin

text \<open>
  Shared vocabulary of the development: the machine integer types of the C++ code, the pieces of
  \<open>std::string\<close> and of the stream library it uses (decimal rendering, padding, searching), and the
  list and option lemmas that the component theories share.

  A C++ \<open>char\<close> is the 8-bit type \<open>char\<close> of HOL, a \<open>std::string\<close> is a \<open>string\<close>, \<open>uint32_t\<close> is
  \<open>u32\<close> and \<open>int64_t\<close> is \<open>i64\<close> (a 64-bit word, read with \<open>sint\<close>). A \<open>size_t\<close> that indexes a
  buffer in memory is a \<open>nat\<close>: it never reaches \<open>2 ^ 64\<close>.
\<close>

type_synonym u32 = "32 word"
type_synonym i64 = "64 word"

named_theorems frame_simps "facts about what an operation leaves unchanged"
named_theorems mono_intros "an operation only extends what was there"


section \<open>Pieces of the string library\<close>

text \<open>The characters that cannot be written in a string literal.\<close>

abbreviation ch_quote :: char where "ch_quote \<equiv> CHR 0x27"
abbreviation ch_dquote :: char where "ch_dquote \<equiv> CHR 0x22"
abbreviation ch_newline :: char where "ch_newline \<equiv> CHR 0x0A"
abbreviation ch_tab :: char where "ch_tab \<equiv> CHR 0x09"
abbreviation ch_return :: char where "ch_return \<equiv> CHR 0x0D"
abbreviation ch_backslash :: char where "ch_backslash \<equiv> CHR 0x5C"
abbreviation ch_escape :: char where "ch_escape \<equiv> CHR 0x1B"
abbreviation ch_nul :: char where "ch_nul \<equiv> CHR 0x00"

definition quoted :: "string \<Rightarrow> string" where
  "quoted s = ch_quote # s @ [ch_quote]"

definition dquoted :: "string \<Rightarrow> string" where
  "dquoted s = ch_dquote # s @ [ch_dquote]"

text \<open>The character classes of \<open><cctype>\<close> in the "C" locale, which the program never changes.\<close>

abbreviation ch_code :: "char \<Rightarrow> nat" where "ch_code c \<equiv> of_char c"

definition isdigit :: "char \<Rightarrow> bool" where
  "isdigit c \<longleftrightarrow> 48 \<le> ch_code c \<and> ch_code c \<le> 57"

definition isalpha :: "char \<Rightarrow> bool" where
  "isalpha c \<longleftrightarrow> (65 \<le> ch_code c \<and> ch_code c \<le> 90) \<or> (97 \<le> ch_code c \<and> ch_code c \<le> 122)"

definition isalnum :: "char \<Rightarrow> bool" where
  "isalnum c \<longleftrightarrow> isalpha c \<or> isdigit c"

definition isxdigit :: "char \<Rightarrow> bool" where
  "isxdigit c \<longleftrightarrow> isdigit c \<or> (65 \<le> ch_code c \<and> ch_code c \<le> 70) \<or> (97 \<le> ch_code c \<and> ch_code c \<le> 102)"

text \<open>\<open>std::to_string\<close> of an unsigned value and of a signed one.\<close>

definition digit_char :: "nat \<Rightarrow> char" where
  "digit_char d = ''0123456789'' ! d"

fun nat_to_string :: "nat \<Rightarrow> string" where
  "nat_to_string n =
     (if n < 10 then [digit_char n]
      else nat_to_string (n div 10) @ [digit_char (n mod 10)])"

declare nat_to_string.simps [simp del]

definition int_to_string :: "int \<Rightarrow> string" where
  "int_to_string i =
     (if i < 0 then CHR ''-'' # nat_to_string (nat (- i)) else nat_to_string (nat i))"

definition u32_to_string :: "u32 \<Rightarrow> string" where
  "u32_to_string w = nat_to_string (unat w)"

definition i64_to_string :: "i64 \<Rightarrow> string" where
  "i64_to_string w = int_to_string (sint w)"

text \<open>\<open>std::setw\<close> with \<open>std::right\<close> and with \<open>std::left\<close>: padding with blanks.\<close>

definition pad_left :: "nat \<Rightarrow> string \<Rightarrow> string" where
  "pad_left w s = replicate (w - length s) (CHR '' '') @ s"

definition pad_right :: "nat \<Rightarrow> string \<Rightarrow> string" where
  "pad_right w s = s @ replicate (w - length s) (CHR '' '')"

text \<open>\<open>std::string::find(c, from)\<close>: the least index at or after \<open>from\<close> that holds \<open>c\<close>.\<close>

primrec find_char :: "char \<Rightarrow> string \<Rightarrow> nat option" where
  "find_char c [] = None"
| "find_char c (x # xs) = (if x = c then Some 0 else map_option Suc (find_char c xs))"

definition find_from :: "char \<Rightarrow> string \<Rightarrow> nat \<Rightarrow> nat option" where
  "find_from c s from = map_option (\<lambda>i. from + i) (find_char c (drop from s))"

text \<open>\<open>std::string::substr(pos, n)\<close> for \<open>pos \<le> size()\<close>.\<close>

definition substr :: "string \<Rightarrow> nat \<Rightarrow> nat \<Rightarrow> string" where
  "substr s from n = take n (drop from s)"


section \<open>Lemmas on the string library\<close>

lemma isdigit_digit_char: "d < 10 \<Longrightarrow> isdigit (digit_char d)"
proof -
  assume "d < 10"
  then have "d \<in> set [0..<10]" by simp
  moreover have "\<forall>d \<in> set [0..<10]. isdigit (digit_char d)" by code_simp
  ultimately show ?thesis by blast
qed

lemma digit_char_inj: "d < 10 \<Longrightarrow> e < 10 \<Longrightarrow> digit_char d = digit_char e \<longleftrightarrow> d = e"
  unfolding digit_char_def by (rule nth_eq_iff_index_eq) auto

lemma nat_to_string_nonempty [simp]: "nat_to_string n \<noteq> []"
  by (subst nat_to_string.simps) simp

lemma nat_to_string_digits: "list_all isdigit (nat_to_string n)"
proof (induction n rule: nat_to_string.induct)
  case (1 n)
  then show ?case
    by (subst nat_to_string.simps) (simp add: isdigit_digit_char)
qed

lemma nat_to_string_single: "(nat_to_string n = [c]) = (n < 10 \<and> c = digit_char n)"
  by (subst nat_to_string.simps) auto

lemma nat_to_string_inj: "nat_to_string m = nat_to_string n \<Longrightarrow> m = n"
proof (induction m arbitrary: n rule: nat_to_string.induct)
  case (1 m)
  show ?case
  proof (cases "m < 10")
    case True
    with "1.prems" have "nat_to_string n = [digit_char m]"
      by (simp add: nat_to_string.simps [of m])
    then have "n < 10" by (simp add: nat_to_string_single)
    with True "1.prems" show ?thesis
      by (simp add: nat_to_string.simps [of m] nat_to_string.simps [of n] digit_char_inj)
  next
    case False
    have "\<not> n < 10"
    proof
      assume "n < 10"
      with "1.prems" have "nat_to_string m = [digit_char n]"
        by (simp add: nat_to_string.simps [of n])
      with False show False by (simp add: nat_to_string_single)
    qed
    with False "1.prems" have eq: "nat_to_string (m div 10) = nat_to_string (n div 10)"
        "digit_char (m mod 10) = digit_char (n mod 10)"
      by (simp_all add: nat_to_string.simps [of m] nat_to_string.simps [of n])
    from "1.IH" [OF False eq(1)] have "m div 10 = n div 10" .
    moreover from eq(2) have "m mod 10 = n mod 10" by (simp add: digit_char_inj)
    ultimately show ?thesis by (metis div_mult_mod_eq)
  qed
qed

lemma length_pad_left: "length (pad_left w s) = max w (length s)"
  by (simp add: pad_left_def)

lemma find_char_Some:
  "find_char c s = Some i \<longleftrightarrow> i < length s \<and> s ! i = c \<and> c \<notin> set (take i s)"
proof (induction s arbitrary: i)
  case Nil
  then show ?case by simp
next
  case (Cons x xs)
  then show ?case by (cases i) auto
qed

lemma find_char_None: "find_char c s = None \<longleftrightarrow> c \<notin> set s"
  by (induction s) auto

lemma find_char_append_notin:
  "c \<notin> set s \<Longrightarrow> find_char c (s @ t) = map_option (\<lambda>i. length s + i) (find_char c t)"
  by (induction s; cases "find_char c t"; auto)

section \<open>Lists and maps\<close>

lemma take_Suc_drop: "i < length xs \<Longrightarrow> drop i xs = xs ! i # drop (Suc i) xs"
  by (rule Cons_nth_drop_Suc [symmetric])

lemma substr_append_next:
  "i \<le> j \<Longrightarrow> j < length s \<Longrightarrow> substr s i (Suc j - i) = substr s i (j - i) @ [s ! j]"
  by (simp add: substr_def Suc_diff_le take_Suc_conv_app_nth)

lemma substr_full: "substr s 0 (length s) = s"
  by (simp add: substr_def)

lemma length_substr: "i + n \<le> length s \<Longrightarrow> length (substr s i n) = n"
  by (simp add: substr_def)

lemma substr_split: "i \<le> j \<Longrightarrow> j \<le> k \<Longrightarrow> substr s i (j - i) @ substr s j (k - j) = substr s i (k - i)"
proof -
  assume ij: "i \<le> j" and jk: "j \<le> k"
  then have "k - i = (j - i) + (k - j)" by simp
  then have "take (k - i) (drop i s) = take (j - i) (drop i s) @ take (k - j) (drop (j - i) (drop i s))"
    by (metis take_add)
  with ij show ?thesis by (simp add: substr_def)
qed

lemma butlast_last_cases: "xs \<noteq> [] \<Longrightarrow> \<exists>ys y. xs = ys @ [y]"
  by (metis append_butlast_last_id)

end
