(* ===== verification/Vcc_Diagnostics.thy ===== *)
theory Vcc_Diagnostics
  imports Vcc_Prelude
begin

text \<open>
  Source positions (\<open>include/vcc/common/SourceLocation.h\<close>) and the diagnostics component
  (\<open>include/vcc/common/Diagnostics.h\<close>, \<open>src/common/Diagnostics.cpp\<close>): the engine that records and
  counts what the phases report, the plain rendering of a diagnostic, and the renderer with its
  source panel. The interface the compiler phases rely on is the locale \<open>diagnostic_sink\<close>, which the
  engine interprets at the end.
\<close>


section \<open>Source locations\<close>

type_synonym FileID = u32

record SourceLocation =
  loc_file :: FileID
  loc_line :: u32
  loc_column :: u32

definition location_isValid :: "SourceLocation \<Rightarrow> bool" where
  "location_isValid l \<longleftrightarrow> loc_line l \<noteq> 0"

definition location_invalid :: SourceLocation where
  "location_invalid = \<lparr>loc_file = 0, loc_line = 0, loc_column = 0\<rparr>"

record SourceRange =
  range_begin :: SourceLocation
  range_end :: SourceLocation

definition range_isValid :: "SourceRange \<Rightarrow> bool" where
  "range_isValid r \<longleftrightarrow> location_isValid (range_begin r) \<and> location_isValid (range_end r)"

definition range_span :: "SourceLocation \<Rightarrow> SourceLocation \<Rightarrow> SourceRange" where
  "range_span b e = \<lparr>range_begin = b, range_end = e\<rparr>"

definition range_at :: "SourceLocation \<Rightarrow> SourceRange" where
  "range_at l = \<lparr>range_begin = l, range_end = l\<rparr>"

text \<open>The default argument \<open>range = {}\<close> of the node constructors.\<close>

definition range_default :: SourceRange where
  "range_default = \<lparr>range_begin = location_invalid, range_end = location_invalid\<rparr>"


section \<open>Diagnostic values\<close>

datatype DiagnosticLevel = LevelNote | LevelWarning | LevelError | LevelFatal

fun diagnosticLevelName :: "DiagnosticLevel \<Rightarrow> string" where
  "diagnosticLevelName LevelNote = ''note''"
| "diagnosticLevelName LevelWarning = ''warning''"
| "diagnosticLevelName LevelError = ''error''"
| "diagnosticLevelName LevelFatal = ''fatal error''"

record Diagnostic =
  diag_level :: DiagnosticLevel
  diag_location :: SourceLocation
  diag_message :: string
  diag_fixIt :: string
  diag_tokenLength :: u32

definition diagnostic_format :: "Diagnostic \<Rightarrow> string \<Rightarrow> string" where
  "diagnostic_format d filePath =
     (if filePath \<noteq> [] then filePath @ '':''
      else if location_isValid (diag_location d) then ''<source>:'' else [])
     @ (if location_isValid (diag_location d)
        then u32_to_string (loc_line (diag_location d)) @ '':''
             @ u32_to_string (loc_column (diag_location d)) @ '': ''
        else [])
     @ diagnosticLevelName (diag_level d) @ '': '' @ diag_message d
     @ (if diag_fixIt d \<noteq> [] then [ch_newline] @ ''  hint: '' @ diag_fixIt d else [])"


section \<open>The engine\<close>

text \<open>
  The optional handler is an arbitrary callback: the model keeps whether one is installed and the
  diagnostics it has been called with, in order.
\<close>

record DiagnosticsEngine =
  eng_diagnostics :: "Diagnostic list"
  eng_handler :: bool
  eng_handled :: "Diagnostic list"
  eng_errorCount :: u32
  eng_warningCount :: u32
  eng_hasFatal :: bool

definition new_engine :: "bool \<Rightarrow> DiagnosticsEngine" where
  "new_engine handler =
     \<lparr>eng_diagnostics = [], eng_handler = handler, eng_handled = [],
      eng_errorCount = 0, eng_warningCount = 0, eng_hasFatal = False\<rparr>"

definition make_diagnostic :: "DiagnosticLevel \<Rightarrow> SourceLocation \<Rightarrow> string \<Rightarrow> Diagnostic" where
  "make_diagnostic level loc msg =
     \<lparr>diag_level = level, diag_location = loc, diag_message = msg, diag_fixIt = [],
      diag_tokenLength = 1\<rparr>"

definition emit :: "DiagnosticLevel \<Rightarrow> SourceLocation \<Rightarrow> string \<Rightarrow> DiagnosticsEngine \<Rightarrow> DiagnosticsEngine" where
  "emit level loc msg e =
     (let d = make_diagnostic level loc msg;
          e1 = e\<lparr>eng_diagnostics := eng_diagnostics e @ [d]\<rparr>;
          e2 = (case level of
                  LevelWarning \<Rightarrow> e1\<lparr>eng_warningCount := eng_warningCount e1 + 1\<rparr>
                | LevelError \<Rightarrow> e1\<lparr>eng_errorCount := eng_errorCount e1 + 1\<rparr>
                | LevelFatal \<Rightarrow> e1\<lparr>eng_errorCount := eng_errorCount e1 + 1, eng_hasFatal := True\<rparr>
                | LevelNote \<Rightarrow> e1)
      in if eng_handler e2 then e2\<lparr>eng_handled := eng_handled e2 @ [d]\<rparr> else e2)"

definition report_note :: "SourceLocation \<Rightarrow> string \<Rightarrow> DiagnosticsEngine \<Rightarrow> DiagnosticsEngine" where
  "report_note loc msg = emit LevelNote loc msg"

definition report_warning :: "SourceLocation \<Rightarrow> string \<Rightarrow> DiagnosticsEngine \<Rightarrow> DiagnosticsEngine" where
  "report_warning loc msg = emit LevelWarning loc msg"

definition report_error :: "SourceLocation \<Rightarrow> string \<Rightarrow> DiagnosticsEngine \<Rightarrow> DiagnosticsEngine" where
  "report_error loc msg = emit LevelError loc msg"

definition report_fatal :: "SourceLocation \<Rightarrow> string \<Rightarrow> DiagnosticsEngine \<Rightarrow> DiagnosticsEngine" where
  "report_fatal loc msg = emit LevelFatal loc msg"

definition hasErrors :: "DiagnosticsEngine \<Rightarrow> bool" where
  "hasErrors e \<longleftrightarrow> eng_errorCount e > 0"

definition hasFatal :: "DiagnosticsEngine \<Rightarrow> bool" where
  "hasFatal e = eng_hasFatal e"

definition errorCount :: "DiagnosticsEngine \<Rightarrow> u32" where
  "errorCount e = eng_errorCount e"

definition warningCount :: "DiagnosticsEngine \<Rightarrow> u32" where
  "warningCount e = eng_warningCount e"

definition engine_reset :: "DiagnosticsEngine \<Rightarrow> DiagnosticsEngine" where
  "engine_reset e = e\<lparr>eng_diagnostics := [], eng_errorCount := 0, eng_warningCount := 0, eng_hasFatal := False\<rparr>"

definition printAll :: "DiagnosticsEngine \<Rightarrow> string \<Rightarrow> string" where
  "printAll e filePath =
     concat (map (\<lambda>d. diagnostic_format d filePath @ [ch_newline]) (eng_diagnostics e))"


section \<open>The renderer\<close>

definition kReset :: string where "kReset = ch_escape # ''[0m''"
definition kBold :: string where "kBold = ch_escape # ''[1m''"
definition kDim :: string where "kDim = ch_escape # ''[2m''"
definition kBoldRed :: string where "kBoldRed = ch_escape # ''[1;31m''"
definition kBoldYellow :: string where "kBoldYellow = ch_escape # ''[1;33m''"
definition kBoldCyan :: string where "kBoldCyan = ch_escape # ''[1;36m''"
definition kBoldGreen :: string where "kBoldGreen = ch_escape # ''[1;32m''"
definition kBoldWhite :: string where "kBoldWhite = ch_escape # ''[1;37m''"

text \<open>The vertical bar U+2502, in UTF-8.\<close>

definition box_bar :: string where "box_bar = [CHR 0xE2, CHR 0x94, CHR 0x82]"

definition levelColor :: "bool \<Rightarrow> DiagnosticLevel \<Rightarrow> string" where
  "levelColor useColor lvl =
     (if \<not> useColor then []
      else case lvl of LevelNote \<Rightarrow> kBoldCyan | LevelWarning \<Rightarrow> kBoldYellow
           | LevelError \<Rightarrow> kBoldRed | LevelFatal \<Rightarrow> kBoldRed)"

function extractLine_loop :: "string \<Rightarrow> u32 \<Rightarrow> u32 \<Rightarrow> nat \<Rightarrow> string" where
  "extractLine_loop source lineNumber line pos =
     (if pos \<le> length source then
        (let nl = (case find_from ch_newline source pos of None \<Rightarrow> length source | Some i \<Rightarrow> i)
         in if line = lineNumber then substr source pos (nl - pos)
            else if nl = length source then []
            else extractLine_loop source lineNumber (line + 1) (nl + 1))
      else [])"
  by pat_completeness auto
termination
  by (relation "measure (\<lambda>(source, lineNumber, line, pos). Suc (length source) - pos)")
    (auto simp: find_from_def find_char_Some split: option.splits)

declare extractLine_loop.simps [simp del]

definition extractLine :: "string \<Rightarrow> u32 \<Rightarrow> string" where
  "extractLine source lineNumber = extractLine_loop source lineNumber 1 0"

text \<open>
  A \<open>DiagnosticSourceLookup\<close> is an optional callback from a file id to the source text and the
  path. The renderer's output is the string it writes.
\<close>

type_synonym SourceLookup = "(FileID \<Rightarrow> string \<times> string) option"

definition render :: "bool \<Rightarrow> SourceLookup \<Rightarrow> Diagnostic \<Rightarrow> string" where
  "render useColor lookup d =
     (let bold = (if useColor then kBold else []);
          dim = (if useColor then kDim else []);
          reset = (if useColor then kReset else []);
          green = (if useColor then kBoldGreen else []);
          white = (if useColor then kBoldWhite else []);
          loc = diag_location d;
          (filePath, sourceText) =
            (case lookup of
               None \<Rightarrow> (''<source>'', [])
             | Some look \<Rightarrow>
                 if loc_file loc \<noteq> 0
                 then (let (src, path) = look (loc_file loc)
                       in (if path \<noteq> [] then path else ''<source>'', src))
                 else (''<source>'', []));
          header =
            white
            @ (if location_isValid loc
               then filePath @ '':'' @ u32_to_string (loc_line loc) @ '':''
                    @ u32_to_string (loc_column loc) @ '':''
               else if filePath \<noteq> ''<source>'' then filePath @ '':'' else [])
            @ reset @ '' ''
            @ levelColor useColor (diag_level d) @ diagnosticLevelName (diag_level d) @ '':'' @ reset
            @ '' '' @ bold @ diag_message d @ reset @ [ch_newline];
          panel =
            (if sourceText \<noteq> [] \<and> location_isValid loc
             then (let lineText = extractLine sourceText (loc_line loc);
                       lineNumStr = u32_to_string (loc_line loc);
                       gutterW = max (length lineNumStr) 4;
                       col = (if loc_column loc > 0 then loc_column loc - 1 else 0);
                       underlineLen = (if diag_tokenLength d > 1 then diag_tokenLength d - 1 else 0)
                   in dim @ pad_left gutterW lineNumStr @ reset @ '' '' @ box_bar @ '' ''
                      @ lineText @ [ch_newline]
                      @ dim @ replicate gutterW (CHR '' '') @ reset @ '' '' @ box_bar @ '' ''
                      @ map (\<lambda>c. if c = ch_tab then ch_tab else CHR '' '') (take (unat col) lineText)
                      @ green @ ''^'' @ replicate (unat underlineLen) (CHR ''~'')
                      @ reset @ [ch_newline])
             else []);
          hint = (if diag_fixIt d \<noteq> [] then ''  hint: '' @ diag_fixIt d @ [ch_newline] else [])
      in header @ panel @ hint)"

definition renderAll :: "bool \<Rightarrow> SourceLookup \<Rightarrow> Diagnostic list \<Rightarrow> string" where
  "renderAll useColor lookup diags = concat (map (render useColor lookup) diags)"

definition printAllPretty :: "DiagnosticsEngine \<Rightarrow> SourceLookup \<Rightarrow> bool \<Rightarrow> string" where
  "printAllPretty e lookup useColor = renderAll useColor lookup (eng_diagnostics e)"


section \<open>The interface the phases use\<close>

text \<open>
  A phase never touches the counters: it reports, and its caller compares counts. \<open>reported\<close> says
  that one sink is another one after some reports; the locale states the two laws a sink promises
  and derives what the phases need from them.
\<close>

definition level_is_error :: "DiagnosticLevel \<Rightarrow> bool" where
  "level_is_error l \<longleftrightarrow> l = LevelError \<or> l = LevelFatal"

definition is_error :: "Diagnostic \<Rightarrow> bool" where
  "is_error d = level_is_error (diag_level d)"

definition reported ::
  "(DiagnosticLevel \<Rightarrow> SourceLocation \<Rightarrow> string \<Rightarrow> 'd \<Rightarrow> 'd) \<Rightarrow> 'd \<Rightarrow> 'd \<Rightarrow> bool" where
  "reported report d d' \<longleftrightarrow> (\<exists>rs. d' = fold (\<lambda>(l, loc, m). report l loc m) rs d)"

lemma is_error_make [simp]: "is_error (make_diagnostic l loc m) = level_is_error l"
  by (simp add: is_error_def make_diagnostic_def)

lemma diag_level_make [simp]: "diag_level (make_diagnostic l loc m) = l"
  by (simp add: make_diagnostic_def)

lemma reported_refl [mono_intros]: "reported report d d"
  unfolding reported_def by (rule exI [where x = "[]"]) simp

lemma reported_trans [trans]:
  assumes "reported report d d'" "reported report d' d''"
  shows "reported report d d''"
proof -
  obtain rs qs where "d' = fold (\<lambda>(l, loc, m). report l loc m) rs d"
    "d'' = fold (\<lambda>(l, loc, m). report l loc m) qs d'"
    using assms by (auto simp: reported_def)
  then have "d'' = fold (\<lambda>(l, loc, m). report l loc m) (rs @ qs) d" by simp
  then show ?thesis unfolding reported_def by blast
qed

lemma reported_step [mono_intros]:
  assumes "reported report d d'"
  shows "reported report d (report l loc m d')"
proof -
  have "reported report d' (report l loc m d')"
    unfolding reported_def by (rule exI [where x = "[(l, loc, m)]"]) simp
  with assms show ?thesis by (rule reported_trans)
qed

lemma reported_induct [consumes 1, case_names refl step]:
  assumes "reported report d d'"
    and "P d"
    and "\<And>l loc m e. reported report d e \<Longrightarrow> P e \<Longrightarrow> P (report l loc m e)"
  shows "P d'"
proof -
  obtain rs where d': "d' = fold (\<lambda>(l, loc, m). report l loc m) rs d"
    using assms(1) by (auto simp: reported_def)
  have "reported report d (fold (\<lambda>(l, loc, m). report l loc m) rs d)
      \<and> P (fold (\<lambda>(l, loc, m). report l loc m) rs d)"
  proof (induction rs rule: rev_induct)
    case Nil
    show ?case using assms(2) by (simp add: reported_refl)
  next
    case (snoc r rs)
    then show ?case by (cases r) (simp add: reported_step assms(3))
  qed
  with d' show ?thesis by simp
qed

locale diagnostic_sink =
  fixes report :: "DiagnosticLevel \<Rightarrow> SourceLocation \<Rightarrow> string \<Rightarrow> 'd \<Rightarrow> 'd"
    and collected :: "'d \<Rightarrow> Diagnostic list"
    and errors :: "'d \<Rightarrow> u32"
  assumes collected_report: "collected (report l loc m d) = collected d @ [make_diagnostic l loc m]"
    and errors_report: "errors (report l loc m d) = errors d + (if level_is_error l then 1 else 0)"
begin

lemma reported_suffix:
  assumes "reported report d d'"
  shows "\<exists>ds. collected d' = collected d @ ds
    \<and> errors d' = errors d + of_nat (length (filter is_error ds))"
  using assms
proof (induction rule: reported_induct)
  case refl
  show ?case by (rule exI [where x = "[]"]) simp
next
  case (step l loc m e)
  then obtain ds where ds: "collected e = collected d @ ds"
    "errors e = errors d + of_nat (length (filter is_error ds))" by blast
  show ?case
    by (rule exI [where x = "ds @ [make_diagnostic l loc m]"])
      (simp add: ds collected_report errors_report)
qed

lemma reported_keeps: "reported report d d' \<Longrightarrow> x \<in> set (collected d) \<Longrightarrow> x \<in> set (collected d')"
  by (auto dest: reported_suffix)

lemma same_count_no_error:
  assumes "reported report d d'" "errors d' = errors d" "length (collected d') < 2 ^ 32"
  shows "\<exists>ds. collected d' = collected d @ ds \<and> (\<forall>x \<in> set ds. \<not> is_error x)"
proof -
  obtain ds where ds: "collected d' = collected d @ ds"
    "errors d' = errors d + of_nat (length (filter is_error ds))"
    using reported_suffix [OF assms(1)] by blast
  let ?n = "length (filter is_error ds)"
  have "?n \<le> length ds" by (rule length_filter_le)
  moreover have "length ds < 2 ^ 32" using ds(1) assms(3) by simp
  ultimately have "?n < 2 ^ 32" by (rule le_less_trans)
  moreover from ds(2) assms(2) have "(of_nat ?n :: u32) = 0" by simp
  then have "?n mod 2 ^ 32 = 0" by (simp add: word_of_nat_eq_0_iff mod_eq_0_iff_dvd)
  ultimately have "?n = 0" by simp
  then have "filter is_error ds = []" by simp
  then have "\<forall>x \<in> set ds. \<not> is_error x" by (simp add: filter_empty_conv)
  with ds(1) show ?thesis by blast
qed

lemma no_error_same_count:
  assumes "reported report d d'" "collected d' = collected d @ ds" "\<forall>x \<in> set ds. \<not> is_error x"
  shows "errors d' = errors d"
proof -
  obtain ds' where ds': "collected d' = collected d @ ds'"
    "errors d' = errors d + of_nat (length (filter is_error ds'))"
    using reported_suffix [OF assms(1)] by blast
  with assms(2) have "ds' = ds" by simp
  with assms(3) have "filter is_error ds' = []" by (simp add: filter_empty_conv)
  with ds'(2) show ?thesis by simp
qed

end

lemma emit_diagnostics [simp]:
  "eng_diagnostics (emit l loc m e) = eng_diagnostics e @ [make_diagnostic l loc m]"
  by (simp add: emit_def Let_def split: DiagnosticLevel.split)

lemma emit_errorCount [simp]:
  "eng_errorCount (emit l loc m e) = eng_errorCount e + (if level_is_error l then 1 else 0)"
  by (simp add: emit_def Let_def level_is_error_def split: DiagnosticLevel.split)

lemma emit_warningCount [simp]:
  "eng_warningCount (emit l loc m e) = eng_warningCount e + (if l = LevelWarning then 1 else 0)"
  by (simp add: emit_def Let_def split: DiagnosticLevel.split)

lemma emit_hasFatal [simp]: "eng_hasFatal (emit l loc m e) = (eng_hasFatal e \<or> l = LevelFatal)"
  by (simp add: emit_def Let_def split: DiagnosticLevel.split)

lemma emit_handler [simp]: "eng_handler (emit l loc m e) = eng_handler e"
  by (simp add: emit_def Let_def split: DiagnosticLevel.split)

lemma emit_handled [simp]:
  "eng_handled (emit l loc m e) = eng_handled e @ (if eng_handler e then [make_diagnostic l loc m] else [])"
  by (simp add: emit_def Let_def split: DiagnosticLevel.split)

interpretation engine: diagnostic_sink emit eng_diagnostics eng_errorCount
  by unfold_locales simp_all

lemma reported_emit_simps [mono_intros]:
  "reported emit d e \<Longrightarrow> reported emit d (report_note loc m e)"
  "reported emit d e \<Longrightarrow> reported emit d (report_warning loc m e)"
  "reported emit d e \<Longrightarrow> reported emit d (report_error loc m e)"
  "reported emit d e \<Longrightarrow> reported emit d (report_fatal loc m e)"
  by (simp_all add: report_note_def report_warning_def report_error_def report_fatal_def reported_step)


section \<open>Consistency of the engine\<close>

text \<open>The counters are the numbers of recorded diagnostics, modulo the width of \<open>uint32_t\<close>.\<close>

definition engine_ok :: "DiagnosticsEngine \<Rightarrow> bool" where
  "engine_ok e \<longleftrightarrow>
     eng_errorCount e = of_nat (length (filter is_error (eng_diagnostics e)))
     \<and> eng_warningCount e =
         of_nat (length (filter (\<lambda>d. diag_level d = LevelWarning) (eng_diagnostics e)))
     \<and> eng_hasFatal e = (\<exists>d \<in> set (eng_diagnostics e). diag_level d = LevelFatal)"

lemma engine_ok_new [simp]: "engine_ok (new_engine h)"
  by (simp add: engine_ok_def new_engine_def)

lemma engine_ok_reset [simp]: "engine_ok (engine_reset e)"
  by (simp add: engine_ok_def engine_reset_def)

lemma engine_ok_emit: "engine_ok e \<Longrightarrow> engine_ok (emit l loc m e)"
  by (cases l) (auto simp: engine_ok_def level_is_error_def)

lemma engine_ok_reported: "reported emit e e' \<Longrightarrow> engine_ok e \<Longrightarrow> engine_ok e'"
  by (induction rule: reported_induct) (auto intro: engine_ok_emit)

lemma hasErrors_iff:
  assumes "engine_ok e" "length (eng_diagnostics e) < 2 ^ 32"
  shows "hasErrors e \<longleftrightarrow> (\<exists>d \<in> set (eng_diagnostics e). is_error d)"
proof -
  have "length (filter is_error (eng_diagnostics e)) < 2 ^ 32"
    using assms(2) length_filter_le [of is_error "eng_diagnostics e"] by linarith
  then have "unat (eng_errorCount e) = length (filter is_error (eng_diagnostics e))"
    using assms(1) by (simp add: engine_ok_def unat_of_nat)
  then have "hasErrors e \<longleftrightarrow> filter is_error (eng_diagnostics e) \<noteq> []"
    by (simp add: hasErrors_def word_gt_0 unat_eq_0 [symmetric])
  then show ?thesis by (simp add: filter_empty_conv)
qed

text \<open>
  C30. Whatever sequence of notes, warnings, errors and fatals is emitted on a fresh engine,
  \<open>hasErrors\<close> answers whether an error or fatal diagnostic was recorded and \<open>hasFatal\<close> whether a
  fatal one was, as long as fewer than \<open>2 ^ 32\<close> diagnostics were emitted (the counter is a
  \<open>uint32_t\<close>).
\<close>

theorem engine_queries_sound:
  assumes "reported emit (new_engine h) e"
    and "length (eng_diagnostics e) < 2 ^ 32"
  shows "(hasErrors e \<longleftrightarrow> (\<exists>d \<in> set (eng_diagnostics e). is_error d))
    \<and> (hasFatal e \<longleftrightarrow> (\<exists>d \<in> set (eng_diagnostics e). diag_level d = LevelFatal))
    \<and> unat (warningCount e) = length (filter (\<lambda>d. diag_level d = LevelWarning) (eng_diagnostics e))"
proof -
  have ok: "engine_ok e" using assms(1) by (rule engine_ok_reported) simp
  have "length (filter (\<lambda>d. diag_level d = LevelWarning) (eng_diagnostics e)) < 2 ^ 32"
    using assms(2) length_filter_le [of "\<lambda>d. diag_level d = LevelWarning" "eng_diagnostics e"] by linarith
  then have "unat (warningCount e)
      = length (filter (\<lambda>d. diag_level d = LevelWarning) (eng_diagnostics e))"
    using ok by (simp add: engine_ok_def unat_of_nat warningCount_def)
  then show ?thesis
    using ok hasErrors_iff [OF ok assms(2)] by (auto simp: hasFatal_def engine_ok_def)
qed

theorem engine_queries_sound_witness:
  "hasErrors (report_error location_invalid ''x'' (report_note location_invalid ''y'' (new_engine False)))
   \<and> \<not> hasFatal (report_error location_invalid ''x'' (report_note location_invalid ''y'' (new_engine False)))"
proof -
  let ?e = "report_error location_invalid ''x'' (report_note location_invalid ''y'' (new_engine False))"
  have r: "reported emit (new_engine False) ?e" by (intro mono_intros)
  have ds: "eng_diagnostics ?e =
      [make_diagnostic LevelNote location_invalid ''y'', make_diagnostic LevelError location_invalid ''x'']"
    by (simp add: report_error_def report_note_def new_engine_def)
  have l: "length (eng_diagnostics ?e) < 2 ^ 32" unfolding ds by simp
  show ?thesis
    using engine_queries_sound [OF r l] unfolding ds
    by (simp add: level_is_error_def)
qed


section \<open>Source lines and carets\<close>

primrec split_lines :: "string \<Rightarrow> string list" where
  "split_lines [] = [[]]"
| "split_lines (c # cs) =
     (if c = ch_newline then [] # split_lines cs
      else (case split_lines cs of [] \<Rightarrow> [[c]] | l # ls \<Rightarrow> (c # l) # ls))"

lemma split_lines_nonempty [simp]: "split_lines s \<noteq> []"
  by (induction s) (auto split: list.splits)

lemma split_lines_find:
  "split_lines s = (case find_char ch_newline s of None \<Rightarrow> [s]
     | Some i \<Rightarrow> take i s # split_lines (drop (Suc i) s))"
proof (induction s)
  case Nil
  then show ?case by simp
next
  case (Cons c cs)
  then show ?case by (cases "find_char ch_newline cs") auto
qed

lemma extractLine_loop_eq:
  assumes "pos \<le> length source"
  shows "extractLine_loop source n line pos =
    (let k = unat (n - line); ls = split_lines (drop pos source)
     in if k < length ls then ls ! k else [])"
  using assms
proof (induction source n line pos rule: extractLine_loop.induct)
  case (1 source n line pos)
  note IH = "1.IH" and pos = "1.prems"
  define ls where "ls = split_lines (drop pos source)"
  show ?case
  proof (cases "find_char ch_newline (drop pos source)")
    case None
    then have ls: "ls = [drop pos source]" by (simp add: ls_def split_lines_find [of "drop pos source"])
    have "n \<noteq> line \<Longrightarrow> unat (n - line) \<noteq> 0" by (simp add: unat_eq_0)
    with None pos show ?thesis
      unfolding ls_def [symmetric]
      by (subst extractLine_loop.simps) (auto simp: ls find_from_def substr_def Let_def)
  next
    case (Some i)
    then have ls: "ls = take i (drop pos source) # split_lines (drop (Suc (pos + i)) source)"
      by (simp add: ls_def split_lines_find [of "drop pos source"] add.commute)
    from Some have i: "pos + i < length source" by (simp add: find_char_Some less_diff_conv add.commute)
    show ?thesis
    proof (cases "line = n")
      case True
      with Some pos i show ?thesis
        unfolding ls_def [symmetric]
        by (subst extractLine_loop.simps) (simp add: ls find_from_def substr_def Let_def)
    next
      case False
      have step: "extractLine_loop source n line pos = extractLine_loop source n (line + 1) (Suc (pos + i))"
        using False Some pos i by (subst extractLine_loop.simps) (simp add: find_from_def Let_def)
      have k: "unat (n - line) = Suc (unat (n - (line + 1)))"
      proof -
        have "n - line \<noteq> 0" using False by simp
        then have "unat (n - line - 1) = unat (n - line) - 1" by (rule unat_minus_one)
        moreover have "unat (n - line) \<noteq> 0" using False by (simp add: unat_eq_0)
        ultimately show ?thesis by (simp add: diff_diff_eq)
      qed
      have "extractLine_loop source n (line + 1) (Suc (pos + i)) =
          (let k = unat (n - (line + 1)); ls = split_lines (drop (Suc (pos + i)) source)
           in if k < length ls then ls ! k else [])"
        using IH [OF pos, of "pos + i"] False Some i by (simp add: find_from_def)
      then show ?thesis
        unfolding ls_def [symmetric] by (simp add: step ls k Let_def)
    qed
  qed
qed

text \<open>
  C31. \<open>extractLine\<close> returns exactly the text of the requested 1-based line (the lines being the
  pieces between newlines, so a text ending in a newline has an empty last line), and the empty
  string for a line that does not exist; line 0 counts as line \<open>2 ^ 32\<close>.
\<close>

theorem extractLine_is_nth_line:
  "extractLine source n =
     (let k = unat (n - 1); ls = split_lines source in if k < length ls then ls ! k else [])"
  by (simp add: extractLine_def extractLine_loop_eq)



end
