(* ===== verification/Vcc_Token.thy ===== *)
theory Vcc_Token
  imports Vcc_Diagnostics
begin

text \<open>
  Tokens (\<open>include/vcc/common/Token.h\<close>, \<open>src/common/Token.cpp\<close>): the kinds in the order the C++ enum
  declares them, which the range tests of the predicates depend on, the two name tables, and the
  keyword table. An enumerator \<open>KwFn\<close> keeps its name; one that is not a keyword gets the prefix \<open>Tk\<close>.
\<close>

datatype KeywordKind =
    FnK | FunK | LetK | VarK | ConstK | IfK
  | EfK | ElK | ElseK | WhileK | ForK | VloopK
  | InK | ReturnK | ImportK | ModuleK | StructK | InterfaceK
  | EnumK | TypeK | TrueK | FalseK | NilK | PubK
  | MutK | SelfK | AsK | BreakK | ContinueK | MatchK
  | ArrayK

datatype OperatorKind =
    PlusO | MinusO | StarO | SlashO | PercentO | EqEqO
  | NotEqO | LtO | GtO | LtEqO | GtEqO | AndAndO
  | OrOrO | BangO | AmpO | PipeO | CaretO | TildeO
  | ShlO | ShrO | EqO | PlusEqO | MinusEqO | StarEqO
  | SlashEqO | PercentEqO | AmpEqO | PipeEqO | CaretEqO

datatype DelimiterKind =
    LParenD | RParenD | LBraceD | RBraceD | LBracketD | RBracketD
  | CommaD | SemicolonD | ColonD | ColonColonD | DotD | DotDotD
  | DotDotDotD | ArrowD | FatArrowD | AtD | HashD | QuestionD

datatype TokenKind =
    TkIntLiteral | TkFloatLiteral | TkStringLiteral | TkCharLiteral | TkIdentifier | Keyword KeywordKind
  | Operator OperatorKind | Delimiter DelimiterKind | TkNewline | TkEof | TkError

abbreviation KwFn :: TokenKind where "KwFn \<equiv> Keyword FnK"
abbreviation KwFun :: TokenKind where "KwFun \<equiv> Keyword FunK"
abbreviation KwLet :: TokenKind where "KwLet \<equiv> Keyword LetK"
abbreviation KwVar :: TokenKind where "KwVar \<equiv> Keyword VarK"
abbreviation KwConst :: TokenKind where "KwConst \<equiv> Keyword ConstK"
abbreviation KwIf :: TokenKind where "KwIf \<equiv> Keyword IfK"
abbreviation KwEf :: TokenKind where "KwEf \<equiv> Keyword EfK"
abbreviation KwEl :: TokenKind where "KwEl \<equiv> Keyword ElK"
abbreviation KwElse :: TokenKind where "KwElse \<equiv> Keyword ElseK"
abbreviation KwWhile :: TokenKind where "KwWhile \<equiv> Keyword WhileK"
abbreviation KwFor :: TokenKind where "KwFor \<equiv> Keyword ForK"
abbreviation KwVloop :: TokenKind where "KwVloop \<equiv> Keyword VloopK"
abbreviation KwIn :: TokenKind where "KwIn \<equiv> Keyword InK"
abbreviation KwReturn :: TokenKind where "KwReturn \<equiv> Keyword ReturnK"
abbreviation KwImport :: TokenKind where "KwImport \<equiv> Keyword ImportK"
abbreviation KwModule :: TokenKind where "KwModule \<equiv> Keyword ModuleK"
abbreviation KwStruct :: TokenKind where "KwStruct \<equiv> Keyword StructK"
abbreviation KwInterface :: TokenKind where "KwInterface \<equiv> Keyword InterfaceK"
abbreviation KwEnum :: TokenKind where "KwEnum \<equiv> Keyword EnumK"
abbreviation KwType :: TokenKind where "KwType \<equiv> Keyword TypeK"
abbreviation KwTrue :: TokenKind where "KwTrue \<equiv> Keyword TrueK"
abbreviation KwFalse :: TokenKind where "KwFalse \<equiv> Keyword FalseK"
abbreviation KwNil :: TokenKind where "KwNil \<equiv> Keyword NilK"
abbreviation KwPub :: TokenKind where "KwPub \<equiv> Keyword PubK"
abbreviation KwMut :: TokenKind where "KwMut \<equiv> Keyword MutK"
abbreviation KwSelf :: TokenKind where "KwSelf \<equiv> Keyword SelfK"
abbreviation KwAs :: TokenKind where "KwAs \<equiv> Keyword AsK"
abbreviation KwBreak :: TokenKind where "KwBreak \<equiv> Keyword BreakK"
abbreviation KwContinue :: TokenKind where "KwContinue \<equiv> Keyword ContinueK"
abbreviation KwMatch :: TokenKind where "KwMatch \<equiv> Keyword MatchK"
abbreviation KwArray :: TokenKind where "KwArray \<equiv> Keyword ArrayK"

abbreviation TkPlus :: TokenKind where "TkPlus \<equiv> Operator PlusO"
abbreviation TkMinus :: TokenKind where "TkMinus \<equiv> Operator MinusO"
abbreviation TkStar :: TokenKind where "TkStar \<equiv> Operator StarO"
abbreviation TkSlash :: TokenKind where "TkSlash \<equiv> Operator SlashO"
abbreviation TkPercent :: TokenKind where "TkPercent \<equiv> Operator PercentO"
abbreviation TkEqEq :: TokenKind where "TkEqEq \<equiv> Operator EqEqO"
abbreviation TkNotEq :: TokenKind where "TkNotEq \<equiv> Operator NotEqO"
abbreviation TkLt :: TokenKind where "TkLt \<equiv> Operator LtO"
abbreviation TkGt :: TokenKind where "TkGt \<equiv> Operator GtO"
abbreviation TkLtEq :: TokenKind where "TkLtEq \<equiv> Operator LtEqO"
abbreviation TkGtEq :: TokenKind where "TkGtEq \<equiv> Operator GtEqO"
abbreviation TkAndAnd :: TokenKind where "TkAndAnd \<equiv> Operator AndAndO"
abbreviation TkOrOr :: TokenKind where "TkOrOr \<equiv> Operator OrOrO"
abbreviation TkBang :: TokenKind where "TkBang \<equiv> Operator BangO"
abbreviation TkAmp :: TokenKind where "TkAmp \<equiv> Operator AmpO"
abbreviation TkPipe :: TokenKind where "TkPipe \<equiv> Operator PipeO"
abbreviation TkCaret :: TokenKind where "TkCaret \<equiv> Operator CaretO"
abbreviation TkTilde :: TokenKind where "TkTilde \<equiv> Operator TildeO"
abbreviation TkShl :: TokenKind where "TkShl \<equiv> Operator ShlO"
abbreviation TkShr :: TokenKind where "TkShr \<equiv> Operator ShrO"
abbreviation TkEq :: TokenKind where "TkEq \<equiv> Operator EqO"
abbreviation TkPlusEq :: TokenKind where "TkPlusEq \<equiv> Operator PlusEqO"
abbreviation TkMinusEq :: TokenKind where "TkMinusEq \<equiv> Operator MinusEqO"
abbreviation TkStarEq :: TokenKind where "TkStarEq \<equiv> Operator StarEqO"
abbreviation TkSlashEq :: TokenKind where "TkSlashEq \<equiv> Operator SlashEqO"
abbreviation TkPercentEq :: TokenKind where "TkPercentEq \<equiv> Operator PercentEqO"
abbreviation TkAmpEq :: TokenKind where "TkAmpEq \<equiv> Operator AmpEqO"
abbreviation TkPipeEq :: TokenKind where "TkPipeEq \<equiv> Operator PipeEqO"
abbreviation TkCaretEq :: TokenKind where "TkCaretEq \<equiv> Operator CaretEqO"

abbreviation TkLParen :: TokenKind where "TkLParen \<equiv> Delimiter LParenD"
abbreviation TkRParen :: TokenKind where "TkRParen \<equiv> Delimiter RParenD"
abbreviation TkLBrace :: TokenKind where "TkLBrace \<equiv> Delimiter LBraceD"
abbreviation TkRBrace :: TokenKind where "TkRBrace \<equiv> Delimiter RBraceD"
abbreviation TkLBracket :: TokenKind where "TkLBracket \<equiv> Delimiter LBracketD"
abbreviation TkRBracket :: TokenKind where "TkRBracket \<equiv> Delimiter RBracketD"
abbreviation TkComma :: TokenKind where "TkComma \<equiv> Delimiter CommaD"
abbreviation TkSemicolon :: TokenKind where "TkSemicolon \<equiv> Delimiter SemicolonD"
abbreviation TkColon :: TokenKind where "TkColon \<equiv> Delimiter ColonD"
abbreviation TkColonColon :: TokenKind where "TkColonColon \<equiv> Delimiter ColonColonD"
abbreviation TkDot :: TokenKind where "TkDot \<equiv> Delimiter DotD"
abbreviation TkDotDot :: TokenKind where "TkDotDot \<equiv> Delimiter DotDotD"
abbreviation TkDotDotDot :: TokenKind where "TkDotDotDot \<equiv> Delimiter DotDotDotD"
abbreviation TkArrow :: TokenKind where "TkArrow \<equiv> Delimiter ArrowD"
abbreviation TkFatArrow :: TokenKind where "TkFatArrow \<equiv> Delimiter FatArrowD"
abbreviation TkAt :: TokenKind where "TkAt \<equiv> Delimiter AtD"
abbreviation TkHash :: TokenKind where "TkHash \<equiv> Delimiter HashD"
abbreviation TkQuestion :: TokenKind where "TkQuestion \<equiv> Delimiter QuestionD"

text \<open>The enumerators in declaration order, and the underlying value of each.\<close>

definition all_token_kinds :: "TokenKind list" where
  "all_token_kinds =
    [TkIntLiteral, TkFloatLiteral, TkStringLiteral, TkCharLiteral, TkIdentifier, KwFn,
     KwFun, KwLet, KwVar, KwConst, KwIf, KwEf,
     KwEl, KwElse, KwWhile, KwFor, KwVloop, KwIn,
     KwReturn, KwImport, KwModule, KwStruct, KwInterface, KwEnum,
     KwType, KwTrue, KwFalse, KwNil, KwPub, KwMut,
     KwSelf, KwAs, KwBreak, KwContinue, KwMatch, KwArray,
     TkPlus, TkMinus, TkStar, TkSlash, TkPercent, TkEqEq,
     TkNotEq, TkLt, TkGt, TkLtEq, TkGtEq, TkAndAnd,
     TkOrOr, TkBang, TkAmp, TkPipe, TkCaret, TkTilde,
     TkShl, TkShr, TkEq, TkPlusEq, TkMinusEq, TkStarEq,
     TkSlashEq, TkPercentEq, TkAmpEq, TkPipeEq, TkCaretEq, TkLParen,
     TkRParen, TkLBrace, TkRBrace, TkLBracket, TkRBracket, TkComma,
     TkSemicolon, TkColon, TkColonColon, TkDot, TkDotDot, TkDotDotDot,
     TkArrow, TkFatArrow, TkAt, TkHash, TkQuestion, TkNewline,
     TkEof, TkError]"

fun kind_value :: "TokenKind \<Rightarrow> nat" where
  "kind_value TkIntLiteral = 0"
| "kind_value TkFloatLiteral = 1"
| "kind_value TkStringLiteral = 2"
| "kind_value TkCharLiteral = 3"
| "kind_value TkIdentifier = 4"
| "kind_value KwFn = 5"
| "kind_value KwFun = 6"
| "kind_value KwLet = 7"
| "kind_value KwVar = 8"
| "kind_value KwConst = 9"
| "kind_value KwIf = 10"
| "kind_value KwEf = 11"
| "kind_value KwEl = 12"
| "kind_value KwElse = 13"
| "kind_value KwWhile = 14"
| "kind_value KwFor = 15"
| "kind_value KwVloop = 16"
| "kind_value KwIn = 17"
| "kind_value KwReturn = 18"
| "kind_value KwImport = 19"
| "kind_value KwModule = 20"
| "kind_value KwStruct = 21"
| "kind_value KwInterface = 22"
| "kind_value KwEnum = 23"
| "kind_value KwType = 24"
| "kind_value KwTrue = 25"
| "kind_value KwFalse = 26"
| "kind_value KwNil = 27"
| "kind_value KwPub = 28"
| "kind_value KwMut = 29"
| "kind_value KwSelf = 30"
| "kind_value KwAs = 31"
| "kind_value KwBreak = 32"
| "kind_value KwContinue = 33"
| "kind_value KwMatch = 34"
| "kind_value KwArray = 35"
| "kind_value TkPlus = 36"
| "kind_value TkMinus = 37"
| "kind_value TkStar = 38"
| "kind_value TkSlash = 39"
| "kind_value TkPercent = 40"
| "kind_value TkEqEq = 41"
| "kind_value TkNotEq = 42"
| "kind_value TkLt = 43"
| "kind_value TkGt = 44"
| "kind_value TkLtEq = 45"
| "kind_value TkGtEq = 46"
| "kind_value TkAndAnd = 47"
| "kind_value TkOrOr = 48"
| "kind_value TkBang = 49"
| "kind_value TkAmp = 50"
| "kind_value TkPipe = 51"
| "kind_value TkCaret = 52"
| "kind_value TkTilde = 53"
| "kind_value TkShl = 54"
| "kind_value TkShr = 55"
| "kind_value TkEq = 56"
| "kind_value TkPlusEq = 57"
| "kind_value TkMinusEq = 58"
| "kind_value TkStarEq = 59"
| "kind_value TkSlashEq = 60"
| "kind_value TkPercentEq = 61"
| "kind_value TkAmpEq = 62"
| "kind_value TkPipeEq = 63"
| "kind_value TkCaretEq = 64"
| "kind_value TkLParen = 65"
| "kind_value TkRParen = 66"
| "kind_value TkLBrace = 67"
| "kind_value TkRBrace = 68"
| "kind_value TkLBracket = 69"
| "kind_value TkRBracket = 70"
| "kind_value TkComma = 71"
| "kind_value TkSemicolon = 72"
| "kind_value TkColon = 73"
| "kind_value TkColonColon = 74"
| "kind_value TkDot = 75"
| "kind_value TkDotDot = 76"
| "kind_value TkDotDotDot = 77"
| "kind_value TkArrow = 78"
| "kind_value TkFatArrow = 79"
| "kind_value TkAt = 80"
| "kind_value TkHash = 81"
| "kind_value TkQuestion = 82"
| "kind_value TkNewline = 83"
| "kind_value TkEof = 84"
| "kind_value TkError = 85"

text \<open>The switch of \<open>tokenKindName\<close> has no case for some keywords; they fall through to the default.\<close>

fun tokenKindName :: "TokenKind \<Rightarrow> string" where
  "tokenKindName TkIntLiteral = ''<int>''"
| "tokenKindName TkFloatLiteral = ''<float>''"
| "tokenKindName TkStringLiteral = ''<string>''"
| "tokenKindName TkCharLiteral = ''<char>''"
| "tokenKindName TkIdentifier = ''<identifier>''"
| "tokenKindName KwFn = quoted ''fn''"
| "tokenKindName KwLet = quoted ''let''"
| "tokenKindName KwVar = quoted ''var''"
| "tokenKindName KwConst = quoted ''const''"
| "tokenKindName KwIf = quoted ''if''"
| "tokenKindName KwElse = quoted ''else''"
| "tokenKindName KwWhile = quoted ''while''"
| "tokenKindName KwFor = quoted ''for''"
| "tokenKindName KwIn = quoted ''in''"
| "tokenKindName KwReturn = quoted ''return''"
| "tokenKindName KwImport = quoted ''import''"
| "tokenKindName KwModule = quoted ''module''"
| "tokenKindName KwStruct = quoted ''struct''"
| "tokenKindName KwInterface = quoted ''interface''"
| "tokenKindName KwEnum = quoted ''enum''"
| "tokenKindName KwType = quoted ''type''"
| "tokenKindName KwTrue = quoted ''true''"
| "tokenKindName KwFalse = quoted ''false''"
| "tokenKindName KwNil = quoted ''nil''"
| "tokenKindName KwPub = quoted ''pub''"
| "tokenKindName KwMut = quoted ''mut''"
| "tokenKindName KwSelf = quoted ''self''"
| "tokenKindName KwAs = quoted ''as''"
| "tokenKindName KwBreak = quoted ''break''"
| "tokenKindName KwContinue = quoted ''continue''"
| "tokenKindName KwMatch = quoted ''match''"
| "tokenKindName TkPlus = quoted ''+''"
| "tokenKindName TkMinus = quoted ''-''"
| "tokenKindName TkStar = quoted ''*''"
| "tokenKindName TkSlash = quoted ''/''"
| "tokenKindName TkPercent = quoted ''%''"
| "tokenKindName TkEqEq = quoted ''==''"
| "tokenKindName TkNotEq = quoted ''!=''"
| "tokenKindName TkLt = quoted ''<''"
| "tokenKindName TkGt = quoted ''>''"
| "tokenKindName TkLtEq = quoted ''<=''"
| "tokenKindName TkGtEq = quoted ''>=''"
| "tokenKindName TkAndAnd = quoted ''&&''"
| "tokenKindName TkOrOr = quoted ''||''"
| "tokenKindName TkBang = quoted ''!''"
| "tokenKindName TkAmp = quoted ''&''"
| "tokenKindName TkPipe = quoted ''|''"
| "tokenKindName TkCaret = quoted ''^''"
| "tokenKindName TkTilde = quoted ''~''"
| "tokenKindName TkShl = quoted ''<<''"
| "tokenKindName TkShr = quoted ''>>''"
| "tokenKindName TkEq = quoted ''=''"
| "tokenKindName TkPlusEq = quoted ''+=''"
| "tokenKindName TkMinusEq = quoted ''-=''"
| "tokenKindName TkStarEq = quoted ''*=''"
| "tokenKindName TkSlashEq = quoted ''/=''"
| "tokenKindName TkPercentEq = quoted ''%=''"
| "tokenKindName TkAmpEq = quoted ''&=''"
| "tokenKindName TkPipeEq = quoted ''|=''"
| "tokenKindName TkCaretEq = quoted ''^=''"
| "tokenKindName TkLParen = quoted ''(''"
| "tokenKindName TkRParen = quoted '')''"
| "tokenKindName TkLBrace = quoted ''{''"
| "tokenKindName TkRBrace = quoted ''}''"
| "tokenKindName TkLBracket = quoted ''[''"
| "tokenKindName TkRBracket = quoted '']''"
| "tokenKindName TkComma = quoted '',''"
| "tokenKindName TkSemicolon = quoted '';''"
| "tokenKindName TkColon = quoted '':''"
| "tokenKindName TkColonColon = quoted ''::''"
| "tokenKindName TkDot = quoted ''.''"
| "tokenKindName TkDotDot = quoted ''..''"
| "tokenKindName TkDotDotDot = quoted ''...''"
| "tokenKindName TkArrow = quoted ''->''"
| "tokenKindName TkFatArrow = quoted ''=>''"
| "tokenKindName TkAt = quoted ''@''"
| "tokenKindName TkHash = quoted ''#''"
| "tokenKindName TkQuestion = quoted ''?''"
| "tokenKindName TkNewline = ''<newline>''"
| "tokenKindName TkEof = ''<eof>''"
| "tokenKindName TkError = ''<error>''"
| "tokenKindName _ = ''<unknown>''"

fun tokenTypeName :: "TokenKind \<Rightarrow> string" where
  "tokenTypeName TkIntLiteral = ''INTEGER''"
| "tokenTypeName TkFloatLiteral = ''FLOAT''"
| "tokenTypeName TkStringLiteral = ''STRING''"
| "tokenTypeName TkCharLiteral = ''CHAR''"
| "tokenTypeName TkIdentifier = ''IDENTIFIER''"
| "tokenTypeName KwFn = ''FN''"
| "tokenTypeName KwFun = ''FUN''"
| "tokenTypeName KwLet = ''LET''"
| "tokenTypeName KwVar = ''VAR''"
| "tokenTypeName KwConst = ''CONST''"
| "tokenTypeName KwIf = ''IF''"
| "tokenTypeName KwEf = ''EF''"
| "tokenTypeName KwEl = ''EL''"
| "tokenTypeName KwElse = ''ELSE''"
| "tokenTypeName KwWhile = ''WHILE''"
| "tokenTypeName KwFor = ''FOR''"
| "tokenTypeName KwIn = ''IN''"
| "tokenTypeName KwReturn = ''RETURN''"
| "tokenTypeName KwImport = ''IMPORT''"
| "tokenTypeName KwModule = ''MODULE''"
| "tokenTypeName KwStruct = ''STRUCT''"
| "tokenTypeName KwInterface = ''INTERFACE''"
| "tokenTypeName KwEnum = ''ENUM''"
| "tokenTypeName KwType = ''TYPE''"
| "tokenTypeName KwTrue = ''TRUE''"
| "tokenTypeName KwFalse = ''FALSE''"
| "tokenTypeName KwNil = ''NIL''"
| "tokenTypeName KwPub = ''PUB''"
| "tokenTypeName KwMut = ''MUT''"
| "tokenTypeName KwSelf = ''SELF''"
| "tokenTypeName KwAs = ''AS''"
| "tokenTypeName KwBreak = ''BREAK''"
| "tokenTypeName KwContinue = ''CONTINUE''"
| "tokenTypeName KwMatch = ''MATCH''"
| "tokenTypeName KwArray = ''ARRAY''"
| "tokenTypeName TkPlus = ''PLUS''"
| "tokenTypeName TkMinus = ''MINUS''"
| "tokenTypeName TkStar = ''STAR''"
| "tokenTypeName TkSlash = ''SLASH''"
| "tokenTypeName TkPercent = ''PERCENT''"
| "tokenTypeName TkEqEq = ''EQEQ''"
| "tokenTypeName TkNotEq = ''BANG_EQ''"
| "tokenTypeName TkLt = ''LT''"
| "tokenTypeName TkGt = ''GT''"
| "tokenTypeName TkLtEq = ''LT_EQ''"
| "tokenTypeName TkGtEq = ''GT_EQ''"
| "tokenTypeName TkAndAnd = ''AND_AND''"
| "tokenTypeName TkOrOr = ''OR_OR''"
| "tokenTypeName TkBang = ''BANG''"
| "tokenTypeName TkAmp = ''AMP''"
| "tokenTypeName TkPipe = ''PIPE''"
| "tokenTypeName TkCaret = ''CARET''"
| "tokenTypeName TkTilde = ''TILDE''"
| "tokenTypeName TkShl = ''SHL''"
| "tokenTypeName TkShr = ''SHR''"
| "tokenTypeName TkEq = ''ASSIGN''"
| "tokenTypeName TkPlusEq = ''PLUS_EQ''"
| "tokenTypeName TkMinusEq = ''MINUS_EQ''"
| "tokenTypeName TkStarEq = ''STAR_EQ''"
| "tokenTypeName TkSlashEq = ''SLASH_EQ''"
| "tokenTypeName TkPercentEq = ''PERCENT_EQ''"
| "tokenTypeName TkAmpEq = ''AMP_EQ''"
| "tokenTypeName TkPipeEq = ''PIPE_EQ''"
| "tokenTypeName TkCaretEq = ''CARET_EQ''"
| "tokenTypeName TkLParen = ''LPAREN''"
| "tokenTypeName TkRParen = ''RPAREN''"
| "tokenTypeName TkLBrace = ''LBRACE''"
| "tokenTypeName TkRBrace = ''RBRACE''"
| "tokenTypeName TkLBracket = ''LBRACKET''"
| "tokenTypeName TkRBracket = ''RBRACKET''"
| "tokenTypeName TkComma = ''COMMA''"
| "tokenTypeName TkSemicolon = ''SEMICOLON''"
| "tokenTypeName TkColon = ''COLON''"
| "tokenTypeName TkColonColon = ''COLON_COLON''"
| "tokenTypeName TkDot = ''DOT''"
| "tokenTypeName TkDotDot = ''DOT_DOT''"
| "tokenTypeName TkDotDotDot = ''ELLIPSIS''"
| "tokenTypeName TkArrow = ''ARROW''"
| "tokenTypeName TkFatArrow = ''FAT_ARROW''"
| "tokenTypeName TkAt = ''AT''"
| "tokenTypeName TkHash = ''HASH''"
| "tokenTypeName TkQuestion = ''QUESTION''"
| "tokenTypeName TkNewline = ''NEWLINE''"
| "tokenTypeName TkEof = ''EOF''"
| "tokenTypeName TkError = ''ERROR''"
| "tokenTypeName _ = ''UNKNOWN''"

text \<open>The keyword table: an unordered map, so only its lookups are visible.\<close>

definition keyword_entries :: "(string \<times> TokenKind) list" where
  "keyword_entries =
    [(''fn'', KwFn),
     (''fun'', KwFun),
     (''let'', KwLet),
     (''var'', KwVar),
     (''const'', KwConst),
     (''if'', KwIf),
     (''ef'', KwEf),
     (''el'', KwEl),
     (''else'', KwElse),
     (''while'', KwWhile),
     (''for'', KwFor),
     (''vloop'', KwVloop),
     (''in'', KwIn),
     (''return'', KwReturn),
     (''import'', KwImport),
     (''module'', KwModule),
     (''struct'', KwStruct),
     (''interface'', KwInterface),
     (''enum'', KwEnum),
     (''type'', KwType),
     (''true'', KwTrue),
     (''false'', KwFalse),
     (''nil'', KwNil),
     (''pub'', KwPub),
     (''mut'', KwMut),
     (''self'', KwSelf),
     (''as'', KwAs),
     (''break'', KwBreak),
     (''continue'', KwContinue),
     (''match'', KwMatch),
     (''array'', KwArray)]"

definition keyword_table :: "string \<rightharpoonup> TokenKind" where
  "keyword_table = map_of keyword_entries"

section \<open>The token value\<close>

record Token =
  tok_kind :: TokenKind
  tok_lexeme :: string
  tok_location :: SourceLocation

definition token_is :: "Token \<Rightarrow> TokenKind \<Rightarrow> bool" where
  "token_is t k \<longleftrightarrow> tok_kind t = k"

definition token_isNot :: "Token \<Rightarrow> TokenKind \<Rightarrow> bool" where
  "token_isNot t k \<longleftrightarrow> tok_kind t \<noteq> k"

definition token_isEof :: "Token \<Rightarrow> bool" where
  "token_isEof t \<longleftrightarrow> tok_kind t = TkEof"

definition token_isError :: "Token \<Rightarrow> bool" where
  "token_isError t \<longleftrightarrow> tok_kind t = TkError"

lemma TokenKind_all:
  "(\<forall>k. P k) \<longleftrightarrow> list_all P all_token_kinds"
proof
  assume "list_all P all_token_kinds"
  then have *: "\<And>k. k \<in> set all_token_kinds \<Longrightarrow> P k" by (simp add: list_all_iff)
  have "k \<in> set all_token_kinds" for k
  proof (cases k)
    case (Keyword x) then show ?thesis by (cases x) (simp_all add: all_token_kinds_def)
  next
    case (Operator x) then show ?thesis by (cases x) (simp_all add: all_token_kinds_def)
  next
    case (Delimiter x) then show ?thesis by (cases x) (simp_all add: all_token_kinds_def)
  qed (simp_all add: all_token_kinds_def)
  with * show "\<forall>k. P k" by blast
qed (simp add: list_all_iff)

lemma all_token_kinds_nth: "all_token_kinds ! kind_value k = k"
proof -
  have "list_all (\<lambda>k. all_token_kinds ! kind_value k = k) all_token_kinds" by code_simp
  then show ?thesis by (simp only: TokenKind_all [symmetric])
qed

lemma kind_value_inj: "kind_value a = kind_value b \<Longrightarrow> a = b"
  by (metis all_token_kinds_nth)

text \<open>The comparison of scoped enumerators is the comparison of their underlying values.\<close>

instantiation TokenKind :: linorder
begin

definition less_eq_TokenKind :: "TokenKind \<Rightarrow> TokenKind \<Rightarrow> bool" where
  "less_eq_TokenKind a b \<longleftrightarrow> kind_value a \<le> kind_value b"

definition less_TokenKind :: "TokenKind \<Rightarrow> TokenKind \<Rightarrow> bool" where
  "less_TokenKind a b \<longleftrightarrow> kind_value a < kind_value b"

instance
  by standard (auto simp: less_eq_TokenKind_def less_TokenKind_def dest: kind_value_inj)

end

definition token_isKeyword :: "Token \<Rightarrow> bool" where
  "token_isKeyword t \<longleftrightarrow> tok_kind t \<ge> KwFn \<and> tok_kind t \<le> KwArray"

definition token_isLiteral :: "Token \<Rightarrow> bool" where
  "token_isLiteral t \<longleftrightarrow> tok_kind t \<ge> TkIntLiteral \<and> tok_kind t \<le> TkCharLiteral"

definition token_isOperator :: "Token \<Rightarrow> bool" where
  "token_isOperator t \<longleftrightarrow> tok_kind t \<ge> TkPlus \<and> tok_kind t \<le> TkCaretEq"


section \<open>Correctness of the tables\<close>

lemma keyword_table_Some: "keyword_table w = Some k \<longleftrightarrow> (w, k) \<in> set keyword_entries"
proof -
  have "distinct (map fst keyword_entries)" by code_simp
  then show ?thesis by (simp add: keyword_table_def)
qed

text \<open>
  The keyword range of the enum and the keyword table agree: a token is a keyword by the range
  test of \<open>isKeyword\<close> exactly when its kind is the kind of some word of the table, and no two words
  of the table share a kind.
\<close>

theorem isKeyword_iff_in_table:
  "(token_isKeyword t \<longleftrightarrow> (\<exists>w. keyword_table w = Some (tok_kind t)))
   \<and> inj_on keyword_table (dom keyword_table)"
proof
  have "list_all (\<lambda>k. k \<in> set (map snd keyword_entries)
      \<longleftrightarrow> kind_value KwFn \<le> kind_value k \<and> kind_value k \<le> kind_value KwArray) all_token_kinds"
    by code_simp
  then have "\<forall>k. k \<in> set (map snd keyword_entries)
      \<longleftrightarrow> kind_value KwFn \<le> kind_value k \<and> kind_value k \<le> kind_value KwArray"
    by (simp only: TokenKind_all)
  then have "tok_kind t \<in> snd ` set keyword_entries \<longleftrightarrow> token_isKeyword t"
    by (simp add: token_isKeyword_def less_eq_TokenKind_def)
  then show "token_isKeyword t \<longleftrightarrow> (\<exists>w. keyword_table w = Some (tok_kind t))"
    by (force simp: keyword_table_Some)
next
  have "distinct (map (kind_value \<circ> snd) keyword_entries)" by code_simp
  then have "inj_on snd (set keyword_entries)"
    by (metis distinct_map inj_on_imageI2 map_map)
  then have inj: "v = w" if "(v, k) \<in> set keyword_entries" "(w, k) \<in> set keyword_entries" for v w k
    using inj_onD [of snd "set keyword_entries" "(v, k)" "(w, k)"] that by simp
  show "inj_on keyword_table (dom keyword_table)"
  proof (rule inj_onI)
    fix v w
    assume "v \<in> dom keyword_table" and eq: "keyword_table v = keyword_table w"
    then obtain k where v: "keyword_table v = Some k" by blast
    with eq have "keyword_table w = Some k" by simp
    with v show "v = w" by (intro inj) (simp_all add: keyword_table_Some)
  qed
qed

end
