(* ===== verification/Vcc_Context.thy ===== *)
theory Vcc_Context
  imports Vcc_Diagnostics
begin

text \<open>
  The compilation context (\<open>include/vcc/common/CompilerContext.h\<close>,
  \<open>src/common/CompilerContext.cpp\<close>) that every phase shares: the options of the command line, the
  diagnostics engine, and the registry of source buffers. A file identifier is the 1-based position
  of its entry, as a \<open>uint32_t\<close>; a filesystem path is the string the program was given.
\<close>

record CompilerOptions =
  opt_inputFiles :: "string list"
  opt_outputFile :: string
  opt_dumpTokens :: bool
  opt_dumpAST :: bool
  opt_dumpIR :: bool
  opt_emitLLVM :: bool
  opt_noCodegen :: bool
  opt_optimizationLevel :: int
  opt_verbose :: bool
  opt_noColor :: bool

definition default_options :: CompilerOptions where
  "default_options =
     \<lparr>opt_inputFiles = [], opt_outputFile = ''a.out'', opt_dumpTokens = False, opt_dumpAST = False,
      opt_dumpIR = False, opt_emitLLVM = False, opt_noCodegen = False, opt_optimizationLevel = 0,
      opt_verbose = False, opt_noColor = False\<rparr>"

record SourceEntry =
  entry_path :: string
  entry_text :: string

record CompilerContext =
  ctx_opts :: CompilerOptions
  ctx_diag :: DiagnosticsEngine
  ctx_sources :: "SourceEntry list"

definition new_context :: "CompilerOptions \<Rightarrow> CompilerContext" where
  "new_context opts = \<lparr>ctx_opts = opts, ctx_diag = new_engine False, ctx_sources = []\<rparr>"

definition addSource :: "string \<Rightarrow> string \<Rightarrow> CompilerContext \<Rightarrow> FileID \<times> CompilerContext" where
  "addSource path text c =
     (let c' = c\<lparr>ctx_sources := ctx_sources c @ [\<lparr>entry_path = path, entry_text = text\<rparr>]\<rparr>
      in (of_nat (length (ctx_sources c')), c'))"

definition sourceText :: "CompilerContext \<Rightarrow> FileID \<Rightarrow> string" where
  "sourceText c i =
     (if i = 0 \<or> i > of_nat (length (ctx_sources c)) then []
      else entry_text (ctx_sources c ! unat (i - 1)))"

definition sourcePath :: "CompilerContext \<Rightarrow> FileID \<Rightarrow> string" where
  "sourcePath c i =
     (if i = 0 \<or> i > of_nat (length (ctx_sources c)) then []
      else entry_path (ctx_sources c ! unat (i - 1)))"

definition sourceCount :: "CompilerContext \<Rightarrow> nat" where
  "sourceCount c = length (ctx_sources c)"

text \<open>\<open>ctx.diagnostics().error(loc, msg)\<close> and \<open>ctx.diagnostics().warning(loc, msg)\<close>.\<close>

definition ctx_error :: "SourceLocation \<Rightarrow> string \<Rightarrow> CompilerContext \<Rightarrow> CompilerContext" where
  "ctx_error loc msg c = c\<lparr>ctx_diag := report_error loc msg (ctx_diag c)\<rparr>"

definition ctx_warning :: "SourceLocation \<Rightarrow> string \<Rightarrow> CompilerContext \<Rightarrow> CompilerContext" where
  "ctx_warning loc msg c = c\<lparr>ctx_diag := report_warning loc msg (ctx_diag c)\<rparr>"

lemma ctx_error_simps [simp]:
  "ctx_sources (ctx_error loc msg c) = ctx_sources c"
  "ctx_opts (ctx_error loc msg c) = ctx_opts c"
  "ctx_diag (ctx_error loc msg c) = report_error loc msg (ctx_diag c)"
  by (simp_all add: ctx_error_def)

lemma ctx_warning_simps [simp]:
  "ctx_sources (ctx_warning loc msg c) = ctx_sources c"
  "ctx_opts (ctx_warning loc msg c) = ctx_opts c"
  "ctx_diag (ctx_warning loc msg c) = report_warning loc msg (ctx_diag c)"
  by (simp_all add: ctx_warning_def)


section \<open>The source registry\<close>

text \<open>
  What the phases rely on, whatever the registry keeps: a text that is added is found under the
  identifier returned, and stays found under it when more are added, as long as there is room.
\<close>

locale source_registry =
  fixes add :: "string \<Rightarrow> string \<Rightarrow> 's \<Rightarrow> 'i \<times> 's"
    and text_of :: "'s \<Rightarrow> 'i \<Rightarrow> string"
    and path_of :: "'s \<Rightarrow> 'i \<Rightarrow> string"
    and known :: "'s \<Rightarrow> 'i \<Rightarrow> bool"
    and room :: "'s \<Rightarrow> nat"
  assumes add_text: "room s > 0 \<Longrightarrow> add p t s = (i, s') \<Longrightarrow> text_of s' i = t"
    and add_path: "room s > 0 \<Longrightarrow> add p t s = (i, s') \<Longrightarrow> path_of s' i = p"
    and add_known: "room s > 0 \<Longrightarrow> add p t s = (i, s') \<Longrightarrow> known s' i \<and> \<not> known s i"
    and add_keeps: "room s > 0 \<Longrightarrow> add p t s = (i, s') \<Longrightarrow> known s j \<Longrightarrow>
      known s' j \<and> text_of s' j = text_of s j \<and> path_of s' j = path_of s j"
    and add_room: "room s > 0 \<Longrightarrow> add p t s = (i, s') \<Longrightarrow> room s = Suc (room s')"
begin

primrec add_all :: "(string \<times> string) list \<Rightarrow> 's \<Rightarrow> 'i list \<times> 's" where
  "add_all [] s = ([], s)"
| "add_all (pt # pts) s =
     (let (i, s1) = add (fst pt) (snd pt) s; (is, s2) = add_all pts s1 in (i # is, s2))"

lemma add_all_keeps:
  "length pts \<le> room s \<Longrightarrow> add_all pts s = (is, s') \<Longrightarrow> known s j \<Longrightarrow>
    known s' j \<and> text_of s' j = text_of s j \<and> path_of s' j = path_of s j"
proof (induction pts arbitrary: s "is" s')
  case Nil
  then show ?case by simp
next
  case (Cons pt pts)
  obtain i s1 where a: "add (fst pt) (snd pt) s = (i, s1)" by fastforce
  obtain is2 s2 where b: "add_all pts s1 = (is2, s2)" by fastforce
  have pos: "room s > 0" using Cons.prems(1) by simp
  have "length pts \<le> room s1" using add_room [OF pos a] Cons.prems(1) by simp
  moreover note k = add_keeps [OF pos a Cons.prems(3)]
  ultimately have "known s2 j \<and> text_of s2 j = text_of s1 j \<and> path_of s2 j = path_of s1 j"
    by (intro Cons.IH [OF _ b]) simp_all
  moreover have "s' = s2" using Cons.prems(2) a b by simp
  ultimately show ?case using k by simp
qed

lemma add_all_found:
  "length pts \<le> room s \<Longrightarrow> add_all pts s = (is, s') \<Longrightarrow>
    map (text_of s') is = map snd pts \<and> map (path_of s') is = map fst pts \<and> distinct is
    \<and> (\<forall>i \<in> set is. \<not> known s i)"
proof (induction pts arbitrary: s "is" s')
  case Nil
  then show ?case by simp
next
  case (Cons pt pts)
  obtain i s1 where a: "add (fst pt) (snd pt) s = (i, s1)" by fastforce
  obtain is2 s2 where b: "add_all pts s1 = (is2, s2)" by fastforce
  have pos: "room s > 0" using Cons.prems(1) by simp
  have len: "length pts \<le> room s1" using add_room [OF pos a] Cons.prems(1) by simp
  have eqs: "is = i # is2" "s' = s2" using Cons.prems(2) a b by simp_all
  have ih: "map (text_of s2) is2 = map snd pts \<and> map (path_of s2) is2 = map fst pts
      \<and> distinct is2 \<and> (\<forall>i \<in> set is2. \<not> known s1 i)"
    by (rule Cons.IH [OF len b])
  have i: "known s1 i" "\<not> known s i" using add_known [OF pos a] by simp_all
  have "text_of s2 i = snd pt" "path_of s2 i = fst pt"
    using add_all_keeps [OF len b i(1)] add_text [OF pos a] add_path [OF pos a] by simp_all
  moreover have "\<not> known s j" if "\<not> known s1 j" for j
    using add_keeps [OF pos a, of j] that by blast
  ultimately show ?case using ih i by (auto simp: eqs)
qed

end

definition known_source :: "CompilerContext \<Rightarrow> FileID \<Rightarrow> bool" where
  "known_source c i \<longleftrightarrow> 0 < unat i \<and> unat i \<le> length (ctx_sources c)"

definition source_room :: "CompilerContext \<Rightarrow> nat" where
  "source_room c = 2 ^ 32 - 1 - length (ctx_sources c)"

lemma source_entry_lookup:
  assumes "length (ctx_sources c) < 2 ^ 32" "known_source c i"
  shows "sourceText c i = entry_text (ctx_sources c ! (unat i - 1))"
    and "sourcePath c i = entry_path (ctx_sources c ! (unat i - 1))"
proof -
  have "i \<noteq> 0" using assms(2) by (auto simp: known_source_def)
  moreover have "\<not> i > of_nat (length (ctx_sources c))"
    using assms by (simp add: known_source_def word_less_nat_alt unat_of_nat)
  moreover have "unat (i - 1) = unat i - 1" using \<open>i \<noteq> 0\<close> by (rule unat_minus_one)
  ultimately show "sourceText c i = entry_text (ctx_sources c ! (unat i - 1))"
    "sourcePath c i = entry_path (ctx_sources c ! (unat i - 1))"
    by (simp_all add: sourceText_def sourcePath_def)
qed

lemma addSource_unat:
  assumes "source_room c > 0" "addSource p t c = (i, c')"
  shows "unat i = Suc (length (ctx_sources c))"
    and "ctx_sources c' = ctx_sources c @ [\<lparr>entry_path = p, entry_text = t\<rparr>]"
proof -
  have "Suc (length (ctx_sources c)) < 2 ^ 32" using assms(1) by (simp add: source_room_def)
  then have "unat (of_nat (Suc (length (ctx_sources c))) :: u32) = Suc (length (ctx_sources c))"
    by (simp add: unat_of_nat del: of_nat_Suc)
  then show "unat i = Suc (length (ctx_sources c))"
    and "ctx_sources c' = ctx_sources c @ [\<lparr>entry_path = p, entry_text = t\<rparr>]"
    using assms(2) by (auto simp: addSource_def Let_def simp del: of_nat_Suc)
qed

interpretation registry: source_registry addSource sourceText sourcePath known_source source_room
proof
  fix c p t i c' j
  assume room: "source_room c > 0" and add: "addSource p t c = (i, c')"
  note [simp] = addSource_unat [OF room add]
  have len: "length (ctx_sources c) < 2 ^ 32" "length (ctx_sources c') < 2 ^ 32"
    using room by (simp_all add: source_room_def)
  have i: "known_source c' i" by (simp add: known_source_def)
  show "sourceText c' i = t" "sourcePath c' i = p"
    by (simp_all add: source_entry_lookup [OF len(2) i])
  show "known_source c' i \<and> \<not> known_source c i" using i by (simp add: known_source_def)
  show "source_room c = Suc (source_room c')" using room by (simp add: source_room_def)
  assume j: "known_source c j"
  then have "known_source c' j" "unat j - 1 < length (ctx_sources c)"
    by (auto simp: known_source_def)
  then show "known_source c' j \<and> sourceText c' j = sourceText c j \<and> sourcePath c' j = sourcePath c j"
    using j by (simp add: source_entry_lookup [OF len(1)] source_entry_lookup [OF len(2)] nth_append)
qed

text \<open>
  Every source added to a fresh context is found again: after adding any list of files (fewer
  than \<open>2 ^ 32\<close>), the identifiers returned are distinct and not 0, and \<open>sourceText\<close> and
  \<open>sourcePath\<close> give the text and the path each was added with.
\<close>

theorem addSource_lookup:
  assumes "length files < 2 ^ 32"
    and "registry.add_all files (new_context opts) = (ids, c)"
  shows "map (sourcePath c) ids = map fst files \<and> map (sourceText c) ids = map snd files
    \<and> distinct ids"
proof -
  have "length files \<le> source_room (new_context opts)"
    using assms(1) by (simp add: source_room_def new_context_def)
  from registry.add_all_found [OF this assms(2)] show ?thesis by simp
qed

theorem addSource_lookup_witness:
  "\<exists>ids c. registry.add_all [(''a.v'', ''x''), (''b.v'', ''y'')] (new_context default_options) = (ids, c)
    \<and> map (sourceText c) ids = [''x'', ''y''] \<and> distinct ids"
proof -
  obtain ids c where e:
    "registry.add_all [(''a.v'', ''x''), (''b.v'', ''y'')] (new_context default_options) = (ids, c)"
    by fastforce
  show ?thesis using addSource_lookup [OF _ e] e by simp
qed

end
