(* ===== verification/Vcc_Lexer.thy ===== *)
theory Vcc_Lexer
  imports Vcc_Token Vcc_Context
begin

text \<open>
  The lexer (\<open>include/vcc/lexer/Lexer.h\<close>, \<open>src/lexer/Lexer.cpp\<close>). A method that consumes
  characters maps a lexer to an optional lexer: \<open>None\<close> is the failed \<open>assert\<close> of \<open>advance\<close>, which
  aborts the process. The buffer is the string view taken at construction; \<open>pos_\<close> indexes it.
  Contents: the operations in the order of the source file; what scanning preserves
  (\<open>scans\<close>); the trivia between tokens and the shapes of lexemes, as specifications of their own;
  and the properties of \<open>nextToken\<close> and \<open>tokenize\<close>.
\<close>

record Lexer =
  lx_ctx :: CompilerContext
  lx_fileId :: FileID
  lx_source :: string
  lx_pos :: nat
  lx_line :: u32
  lx_column :: u32

definition new_lexer :: "CompilerContext \<Rightarrow> FileID \<Rightarrow> Lexer" where
  "new_lexer ctx fileId =
     \<lparr>lx_ctx = ctx, lx_fileId = fileId, lx_source = sourceText ctx fileId, lx_pos = 0,
      lx_line = 1, lx_column = 1\<rparr>"

definition new_lexer_string :: "string \<Rightarrow> string \<Rightarrow> Lexer" where
  "new_lexer_string source filename =
     (let (fileId, ctx) = addSource filename source (new_context default_options)
      in new_lexer ctx fileId)"


section \<open>Character navigation\<close>

definition peek :: "nat \<Rightarrow> Lexer \<Rightarrow> char" where
  "peek offset lx =
     (let idx = lx_pos lx + offset
      in if idx < length (lx_source lx) then lx_source lx ! idx else ch_nul)"

definition advance :: "Lexer \<Rightarrow> (char \<times> Lexer) option" where
  "advance lx =
     (if lx_pos lx < length (lx_source lx) then
        (let ch = lx_source lx ! lx_pos lx;
             lx1 = lx\<lparr>lx_pos := Suc (lx_pos lx)\<rparr>
         in Some (ch, if ch = ch_newline then lx1\<lparr>lx_line := lx_line lx1 + 1, lx_column := 1\<rparr>
                      else lx1\<lparr>lx_column := lx_column lx1 + 1\<rparr>))
      else None)"

text \<open>\<open>advance();\<close> with its result ignored.\<close>

definition skip_char :: "Lexer \<Rightarrow> Lexer option" where
  "skip_char lx = map_option snd (advance lx)"

definition match_char :: "char \<Rightarrow> Lexer \<Rightarrow> (bool \<times> Lexer) option" where
  "match_char expected lx =
     (if lx_pos lx \<ge> length (lx_source lx) \<or> lx_source lx ! lx_pos lx \<noteq> expected then Some (False, lx)
      else do { lx1 \<leftarrow> skip_char lx; Some (True, lx1) })"

lemma advance_progress:
  "advance lx = Some (ch, lx') \<Longrightarrow>
    lx_source lx' = lx_source lx \<and> lx_pos lx' = Suc (lx_pos lx) \<and> lx_pos lx < length (lx_source lx)"
  by (auto simp: advance_def Let_def split: if_splits)

lemma skip_char_progress:
  "skip_char lx = Some lx' \<Longrightarrow>
    lx_source lx' = lx_source lx \<and> lx_pos lx' = Suc (lx_pos lx) \<and> lx_pos lx < length (lx_source lx)"
  by (auto simp: skip_char_def dest: advance_progress)

definition at_end :: "Lexer \<Rightarrow> bool" where
  "at_end lx \<longleftrightarrow> lx_pos lx \<ge> length (lx_source lx)"

definition currentLocation :: "Lexer \<Rightarrow> SourceLocation" where
  "currentLocation lx = \<lparr>loc_file = lx_fileId lx, loc_line = lx_line lx, loc_column = lx_column lx\<rparr>"

text \<open>\<open>ctx_.diagnostics().error(loc, msg)\<close>.\<close>

definition lx_error :: "SourceLocation \<Rightarrow> string \<Rightarrow> Lexer \<Rightarrow> Lexer" where
  "lx_error loc msg lx = lx\<lparr>lx_ctx := ctx_error loc msg (lx_ctx lx)\<rparr>"


text \<open>
  Everything a method of the lexer does is a sequence of two kinds of step: it consumes a character
  or it reports an error. \<open>scans w n lx lx'\<close>: from \<open>lx\<close> to \<open>lx'\<close> the text \<open>w\<close> is consumed and \<open>n\<close>
  errors are reported. What such sequences preserve is proved once.
\<close>

inductive scans :: "string \<Rightarrow> nat \<Rightarrow> Lexer \<Rightarrow> Lexer \<Rightarrow> bool" where
  empty: "scans [] 0 lx lx"
| consume: "advance lx = Some (c, lx1) \<Longrightarrow> scans w n lx1 lx2 \<Longrightarrow> scans (c # w) n lx lx2"
| report: "scans w n (lx_error loc msg lx) lx2 \<Longrightarrow> scans w (Suc n) lx lx2"



lemma lx_error_simps [simp]:
  "lx_source (lx_error loc msg lx) = lx_source lx"
  "lx_pos (lx_error loc msg lx) = lx_pos lx"
  "lx_line (lx_error loc msg lx) = lx_line lx"
  "lx_column (lx_error loc msg lx) = lx_column lx"
  "lx_fileId (lx_error loc msg lx) = lx_fileId lx"
  "lx_ctx (lx_error loc msg lx) = ctx_error loc msg (lx_ctx lx)"
  by (simp_all add: lx_error_def)

lemma scans_source:
  "scans w n lx lx' \<Longrightarrow> lx_source lx' = lx_source lx \<and> lx_fileId lx' = lx_fileId lx
    \<and> lx_pos lx' = lx_pos lx + length w"
  by (induction rule: scans.induct) (auto simp: advance_def Let_def split: if_splits)

lemma scans_trans: "scans v m lx lx1 \<Longrightarrow> scans w n lx1 lx2 \<Longrightarrow> scans (v @ w) (m + n) lx lx2"
  by (induction rule: scans.induct) (auto intro: scans.intros)

lemma scans_snoc:
  "scans w n lx lx1 \<Longrightarrow> advance lx1 = Some (c, lx2) \<Longrightarrow> scans (w @ [c]) n lx lx2"
  using scans_trans [of w n lx lx1 "[c]" 0 lx2] by (auto intro: scans.intros)

lemma scans_error: "scans w n lx lx1 \<Longrightarrow> scans w (Suc n) lx (lx_error loc msg lx1)"
  using scans_trans [of w n lx lx1 "[]" 1] by (auto intro: scans.intros)

lemma scans_text:
  "scans w n lx lx' \<Longrightarrow> drop (lx_pos lx) (lx_source lx) = w @ drop (lx_pos lx') (lx_source lx)"
proof (induction rule: scans.induct)
  case (consume lx c lx1 w n lx2)
  then have "lx_pos lx < length (lx_source lx)" "c = lx_source lx ! lx_pos lx"
    "lx_source lx1 = lx_source lx" "lx_pos lx1 = Suc (lx_pos lx)"
    by (auto simp: advance_def Let_def split: if_splits)
  then show ?case using consume.IH by (simp add: take_Suc_drop)
qed simp_all

lemma skip_char_eq: "skip_char lx = Some lx' \<longleftrightarrow> (\<exists>c. advance lx = Some (c, lx'))"
  by (auto simp: skip_char_def)

lemma scans_progress:
  "scans w n lx lx' \<Longrightarrow> lx_source lx' = lx_source lx \<and> lx_pos lx \<le> lx_pos lx'"
  by (auto dest: scans_source)

text \<open>\<open>while (cond) advance();\<close>, the shape of most loops of the lexer.\<close>

function advanceWhile :: "(Lexer \<Rightarrow> bool) \<Rightarrow> Lexer \<Rightarrow> Lexer option" where
  "advanceWhile cond lx =
     (if cond lx then do { lx1 \<leftarrow> skip_char lx; advanceWhile cond lx1 } else Some lx)"
  by pat_completeness auto
termination
  by (relation "measure (\<lambda>(cond, lx). length (lx_source lx) - lx_pos lx)")
    (auto dest: skip_char_progress)

declare advanceWhile.simps [simp del]

section \<open>Whitespace and comments\<close>

definition skipLineComment :: "Lexer \<Rightarrow> Lexer option" where
  "skipLineComment lx =
     do { lx1 \<leftarrow> skip_char lx;
          lx2 \<leftarrow> skip_char lx1;
          advanceWhile (\<lambda>l. \<not> at_end l \<and> peek 0 l \<noteq> ch_newline) lx2 }"

function blockCommentLoop :: "nat \<Rightarrow> Lexer \<Rightarrow> (nat \<times> Lexer) option" where
  "blockCommentLoop depth lx =
     (if \<not> at_end lx \<and> depth > 0 then
        if peek 0 lx = CHR ''*'' \<and> peek 1 lx = CHR ''/'' then
          do { lx1 \<leftarrow> skip_char lx; lx2 \<leftarrow> skip_char lx1; blockCommentLoop (depth - 1) lx2 }
        else if peek 0 lx = CHR ''/'' \<and> peek 1 lx = CHR ''*'' then
          do { lx1 \<leftarrow> skip_char lx; lx2 \<leftarrow> skip_char lx1; blockCommentLoop (depth + 1) lx2 }
        else do { lx1 \<leftarrow> skip_char lx; blockCommentLoop depth lx1 }
      else Some (depth, lx))"
  by pat_completeness auto
termination
  by (relation "measure (\<lambda>(depth, lx). length (lx_source lx) - lx_pos lx)")
    (auto dest!: skip_char_progress)

declare blockCommentLoop.simps [simp del]

definition skipBlockComment :: "Lexer \<Rightarrow> Lexer option" where
  "skipBlockComment lx =
     (let startLoc = currentLocation lx in
      do { lx1 \<leftarrow> skip_char lx;
           lx2 \<leftarrow> skip_char lx1;
           (depth, lx3) \<leftarrow> blockCommentLoop 1 lx2;
           Some (if depth > 0 then lx_error startLoc ''unterminated block comment'' lx3 else lx3) })"

lemma advanceWhile_progress:
  "advanceWhile cond lx = Some lx' \<Longrightarrow> lx_source lx' = lx_source lx \<and> lx_pos lx \<le> lx_pos lx'"
proof (induction cond lx rule: advanceWhile.induct)
  case (1 cond lx)
  show ?case
  proof (cases "cond lx")
    case True
    with "1.prems" obtain lx1 where s: "skip_char lx = Some lx1" "advanceWhile cond lx1 = Some lx'"
      by (subst (asm) advanceWhile.simps) (auto simp: bind_eq_Some_conv)
    from "1.IH" [OF True s] skip_char_progress [OF s(1)] show ?thesis by simp
  next
    case False
    with "1.prems" show ?thesis by (subst (asm) advanceWhile.simps) simp
  qed
qed

text \<open>The three ways an iteration of the comment loop goes.\<close>

lemma blockCommentLoop_cases:
  assumes "blockCommentLoop d lx = Some (d', lx')"
  obtains (stop) "at_end lx \<or> d = 0" "d' = d" "lx' = lx"
  | (leave) l1 l2 where "\<not> at_end lx" "d > 0" "peek 0 lx = CHR ''*'' \<and> peek 1 lx = CHR ''/''"
      "skip_char lx = Some l1" "skip_char l1 = Some l2" "blockCommentLoop (d - 1) l2 = Some (d', lx')"
  | (nest) l1 l2 where "\<not> at_end lx" "d > 0" "peek 0 lx = CHR ''/'' \<and> peek 1 lx = CHR ''*''"
      "skip_char lx = Some l1" "skip_char l1 = Some l2" "blockCommentLoop (d + 1) l2 = Some (d', lx')"
  | (other) l1 where "\<not> at_end lx" "d > 0"
      "\<not> (peek 0 lx = CHR ''*'' \<and> peek 1 lx = CHR ''/'')"
      "\<not> (peek 0 lx = CHR ''/'' \<and> peek 1 lx = CHR ''*'')"
      "skip_char lx = Some l1" "blockCommentLoop d l1 = Some (d', lx')"
proof -
  let ?a = "peek 0 lx = CHR ''*'' \<and> peek 1 lx = CHR ''/''"
  let ?b = "peek 0 lx = CHR ''/'' \<and> peek 1 lx = CHR ''*''"
  note eq = assms [unfolded blockCommentLoop.simps [of d lx]]
  show ?thesis
  proof (cases "\<not> at_end lx \<and> d > 0")
    case run: True
    show ?thesis
    proof (cases ?a)
      case True
      with eq run show ?thesis by (auto simp: bind_eq_Some_conv intro: leave)
    next
      case False
      show ?thesis
      proof (cases ?b)
        case True
        with eq run show ?thesis by (auto simp: bind_eq_Some_conv intro: nest)
      next
        case b: False
        with eq run False have "Option.bind (skip_char lx) (blockCommentLoop d) = Some (d', lx')"
          by (simp only: if_True if_False simp_thms)
        then obtain l1 where "skip_char lx = Some l1" "blockCommentLoop d l1 = Some (d', lx')"
          by (auto simp: bind_eq_Some_conv)
        then show ?thesis using run False b by (intro other) simp_all
      qed
    qed
  next
    case False
    with eq show ?thesis by (intro stop) auto
  qed
qed

lemma blockCommentLoop_progress:
  "blockCommentLoop d lx = Some (d', lx') \<Longrightarrow> lx_source lx' = lx_source lx \<and> lx_pos lx \<le> lx_pos lx'"
proof (induction "length (lx_source lx) - lx_pos lx" arbitrary: d lx rule: less_induct)
  case less
  from less.prems show ?case
  proof (cases rule: blockCommentLoop_cases)
    case (leave l1 l2)
    then show ?thesis
      using less.hyps [of l2 "d - 1"] skip_char_progress [of lx l1] skip_char_progress [of l1 l2]
      by fastforce
  next
    case (nest l1 l2)
    then show ?thesis
      using less.hyps [of l2 "d + 1"] skip_char_progress [of lx l1] skip_char_progress [of l1 l2]
      by fastforce
  next
    case (other l1)
    then show ?thesis using less.hyps [of l1 d] skip_char_progress [of lx l1] by fastforce
  qed simp
qed

lemma skipComment_progress:
  "skipLineComment lx = Some lx' \<Longrightarrow>
    lx_source lx' = lx_source lx \<and> lx_pos lx < lx_pos lx' \<and> lx_pos lx < length (lx_source lx)"
  "skipBlockComment lx = Some lx' \<Longrightarrow>
    lx_source lx' = lx_source lx \<and> lx_pos lx < lx_pos lx' \<and> lx_pos lx < length (lx_source lx)"
  by (auto simp: skipLineComment_def skipBlockComment_def bind_eq_Some_conv split: if_splits
      dest!: skip_char_progress advanceWhile_progress blockCommentLoop_progress)

function skipWhitespaceAndComments :: "Lexer \<Rightarrow> Lexer option" where
  "skipWhitespaceAndComments lx =
     (if at_end lx then Some lx
      else (let ch = peek 0 lx in
        if ch = CHR '' '' \<or> ch = ch_tab \<or> ch = ch_return \<or> ch = ch_newline then
          do { lx1 \<leftarrow> skip_char lx; skipWhitespaceAndComments lx1 }
        else if ch = CHR ''#'' then
          do { lx1 \<leftarrow> skipLineComment lx; skipWhitespaceAndComments lx1 }
        else if ch = CHR ''/'' \<and> peek 1 lx = CHR ''/'' then
          do { lx1 \<leftarrow> skipLineComment lx; skipWhitespaceAndComments lx1 }
        else if ch = CHR ''/'' \<and> peek 1 lx = CHR ''*'' then
          do { lx1 \<leftarrow> skipBlockComment lx; skipWhitespaceAndComments lx1 }
        else Some lx))"
  by pat_completeness auto
termination
  by (relation "measure (\<lambda>lx. length (lx_source lx) - lx_pos lx)")
    (auto dest!: skip_char_progress skipComment_progress)

declare skipWhitespaceAndComments.simps [simp del]


section \<open>Token factories\<close>

definition makeToken :: "TokenKind \<Rightarrow> nat \<Rightarrow> Lexer \<Rightarrow> Token" where
  "makeToken kind startPos lx =
     \<lparr>tok_kind = kind,
      tok_lexeme = substr (lx_source lx) startPos (lx_pos lx - startPos),
      tok_location = \<lparr>loc_file = lx_fileId lx, loc_line = lx_line lx,
        loc_column = lx_column lx - of_nat (lx_pos lx - startPos)\<rparr>\<rparr>"

definition errorToken :: "string \<Rightarrow> Lexer \<Rightarrow> Token \<times> Lexer" where
  "errorToken message lx =
     (let loc = currentLocation lx in
      (\<lparr>tok_kind = TkError, tok_lexeme = [lx_source lx ! (lx_pos lx - 1)], tok_location = loc\<rparr>,
       lx_error loc message lx))"


section \<open>The sub-lexers\<close>

definition is_ident_char :: "char \<Rightarrow> bool" where
  "is_ident_char c \<longleftrightarrow> isalnum c \<or> c = CHR ''_''"

definition lexIdentifierOrKeyword :: "Lexer \<Rightarrow> (Token \<times> Lexer) option" where
  "lexIdentifierOrKeyword lx =
     (let start = lx_pos lx in
      do { lx1 \<leftarrow> advanceWhile (\<lambda>l. \<not> at_end l \<and> is_ident_char (peek 0 l)) lx;
           Some (case keyword_table (substr (lx_source lx1) start (lx_pos lx1 - start)) of
               Some k \<Rightarrow> (makeToken k start lx1, lx1)
             | None \<Rightarrow> (makeToken TkIdentifier start lx1, lx1)) })"

definition advanceDigits :: "Lexer \<Rightarrow> Lexer option" where
  "advanceDigits = advanceWhile (\<lambda>l. \<not> at_end l \<and> isdigit (peek 0 l))"

text \<open>The part of \<open>lexNumber\<close> after the base prefixes: decimal digits, fraction, exponent.\<close>

definition lexDecimal :: "nat \<Rightarrow> Lexer \<Rightarrow> (Token \<times> Lexer) option" where
  "lexDecimal start lx =
     do { lx1 \<leftarrow> advanceDigits lx;
          (fraction, lx2) \<leftarrow>
            (if peek 0 lx1 = CHR ''.'' \<and> isdigit (peek 1 lx1)
             then do { l \<leftarrow> skip_char lx1; l \<leftarrow> advanceDigits l; Some (True, l) }
             else Some (False, lx1));
          (isFloat, lx3) \<leftarrow>
            (if peek 0 lx2 = CHR ''e'' \<or> peek 0 lx2 = CHR ''E''
             then do { l \<leftarrow> skip_char lx2;
                       l \<leftarrow> (if peek 0 l = CHR ''+'' \<or> peek 0 l = CHR ''-'' then skip_char l else Some l);
                       l \<leftarrow> advanceDigits l;
                       Some (True, l) }
             else Some (fraction, lx2));
          Some (makeToken (if isFloat then TkFloatLiteral else TkIntLiteral) start lx3, lx3) }"

definition lexNumber :: "Lexer \<Rightarrow> (Token \<times> Lexer) option" where
  "lexNumber lx =
     (let start = lx_pos lx;
          int_token = (\<lambda>l. Some (makeToken TkIntLiteral start l, l)) in
      if peek 0 lx = CHR ''0'' then
        do { lx1 \<leftarrow> skip_char lx;
             (if peek 0 lx1 = CHR ''x'' \<or> peek 0 lx1 = CHR ''X'' then
                do { l \<leftarrow> skip_char lx1;
                     l \<leftarrow> advanceWhile (\<lambda>l. \<not> at_end l \<and> isxdigit (peek 0 l)) l;
                     int_token l }
              else if peek 0 lx1 = CHR ''b'' \<or> peek 0 lx1 = CHR ''B'' then
                do { l \<leftarrow> skip_char lx1;
                     l \<leftarrow> advanceWhile (\<lambda>l. peek 0 l = CHR ''0'' \<or> peek 0 l = CHR ''1'') l;
                     int_token l }
              else if peek 0 lx1 = CHR ''o'' \<or> peek 0 lx1 = CHR ''O'' then
                do { l \<leftarrow> skip_char lx1;
                     l \<leftarrow> advanceWhile (\<lambda>l. ch_code (peek 0 l) \<ge> 48 \<and> ch_code (peek 0 l) \<le> 55) l;
                     int_token l }
              else lexDecimal start lx1) }
      else lexDecimal start lx)"

function stringLoop :: "nat \<Rightarrow> SourceLocation \<Rightarrow> Lexer \<Rightarrow> (Token \<times> Lexer) option" where
  "stringLoop start openLoc lx =
     (if \<not> at_end lx then
        do { (ch, lx1) \<leftarrow> advance lx;
             (if ch = ch_dquote then Some (makeToken TkStringLiteral start lx1, lx1)
              else do { lx2 \<leftarrow> (if ch = ch_backslash \<and> \<not> at_end lx1 then skip_char lx1 else Some lx1);
                        (if ch = ch_newline then
                           (let lx3 = lx_error openLoc ''unterminated string literal'' lx2
                            in Some (makeToken TkError start lx3, lx3))
                         else stringLoop start openLoc lx2) }) }
      else (let lx3 = lx_error openLoc ''unterminated string literal'' lx
            in Some (makeToken TkError start lx3, lx3)))"
  by pat_completeness auto
termination
  by (relation "measure (\<lambda>(start, openLoc, lx). length (lx_source lx) - lx_pos lx)")
    (auto dest!: skip_char_progress advance_progress split: if_splits)

declare stringLoop.simps [simp del]

definition lexString :: "Lexer \<Rightarrow> (Token \<times> Lexer) option" where
  "lexString lx = stringLoop (lx_pos lx - 1) (currentLocation lx) lx"

definition lexChar :: "Lexer \<Rightarrow> (Token \<times> Lexer) option" where
  "lexChar lx =
     (let start = lx_pos lx - 1;
          openLoc = currentLocation lx in
      if at_end lx then
        (let lx1 = lx_error openLoc ''unterminated character literal'' lx
         in Some (makeToken TkError start lx1, lx1))
      else
        do { lx1 \<leftarrow> (if peek 0 lx = ch_backslash then skip_char lx else Some lx);
             lx2 \<leftarrow> (if \<not> at_end lx1 then skip_char lx1 else Some lx1);
             (closed, lx3) \<leftarrow> match_char ch_quote lx2;
             (if \<not> closed then
                do { l \<leftarrow> Some (lx_error openLoc
                              ''character literal may only contain one codepoint'' lx3);
                     l \<leftarrow> advanceWhile (\<lambda>l. \<not> at_end l \<and> peek 0 l \<noteq> ch_quote \<and> peek 0 l \<noteq> ch_newline) l;
                     l \<leftarrow> (if \<not> at_end l \<and> peek 0 l = ch_quote then skip_char l else Some l);
                     Some (makeToken TkError start l, l) }
              else Some (makeToken TkCharLiteral start lx3, lx3)) })"


section \<open>Operators and the next token\<close>

text \<open>
  The switch of \<open>nextToken\<close>: for each first character, the second characters it tries in order
  with the kind each gives, and the kind when none matches. The case of \<open>'.'\<close> is nested and stands
  in \<open>lexOperator\<close>.
\<close>

definition operator_cases :: "(char \<times> (char \<times> TokenKind) list \<times> TokenKind) list" where
  "operator_cases =
    [(CHR ''+'', [(CHR ''='', TkPlusEq)], TkPlus),
     (CHR ''-'', [(CHR ''>'', TkArrow), (CHR ''='', TkMinusEq)], TkMinus),
     (CHR ''*'', [(CHR ''='', TkStarEq)], TkStar),
     (CHR ''/'', [(CHR ''='', TkSlashEq)], TkSlash),
     (CHR ''%'', [(CHR ''='', TkPercentEq)], TkPercent),
     (CHR ''&'', [(CHR ''&'', TkAndAnd), (CHR ''='', TkAmpEq)], TkAmp),
     (CHR ''|'', [(CHR ''|'', TkOrOr), (CHR ''='', TkPipeEq)], TkPipe),
     (CHR ''^'', [(CHR ''='', TkCaretEq)], TkCaret),
     (CHR ''~'', [], TkTilde),
     (CHR ''<'', [(CHR ''<'', TkShl), (CHR ''='', TkLtEq)], TkLt),
     (CHR ''>'', [(CHR ''>'', TkShr), (CHR ''='', TkGtEq)], TkGt),
     (CHR ''='', [(CHR ''='', TkEqEq), (CHR ''>'', TkFatArrow)], TkEq),
     (CHR ''!'', [(CHR ''='', TkNotEq)], TkBang),
     (CHR '':'', [(CHR '':'', TkColonColon)], TkColon),
     (CHR ''('', [], TkLParen), (CHR '')'', [], TkRParen),
     (CHR ''{'', [], TkLBrace), (CHR ''}'', [], TkRBrace),
     (CHR ''['', [], TkLBracket), (CHR '']'', [], TkRBracket),
     (CHR '','', [], TkComma), (CHR '';'', [], TkSemicolon), (CHR ''@'', [], TkAt),
     (CHR ''#'', [], TkHash), (CHR ''?'', [], TkQuestion)]"

text \<open>The sequence \<open>if (match(c)) return makeToken(k, start); ... return makeToken(otherwise, start);\<close>.\<close>

primrec matchFirst :: "(char \<times> TokenKind) list \<Rightarrow> TokenKind \<Rightarrow> nat \<Rightarrow> Lexer \<Rightarrow> (Token \<times> Lexer) option" where
  "matchFirst [] otherwise start lx = Some (makeToken otherwise start lx, lx)"
| "matchFirst (ck # cks) otherwise start lx =
     do { (matched, lx1) \<leftarrow> match_char (fst ck) lx;
          (if matched then Some (makeToken (snd ck) start lx1, lx1)
           else matchFirst cks otherwise start lx1) }"

definition lexOperator :: "char \<Rightarrow> nat \<Rightarrow> Lexer \<Rightarrow> (Token \<times> Lexer) option" where
  "lexOperator ch start lx =
     (if ch = CHR ''.'' then
        do { (dot2, lx1) \<leftarrow> match_char (CHR ''.'') lx;
             (if dot2 then matchFirst [(CHR ''.'', TkDotDotDot)] TkDotDot start lx1
              else Some (makeToken TkDot start lx1, lx1)) }
      else (case map_of operator_cases ch of
          Some (alternatives, otherwise) \<Rightarrow> matchFirst alternatives otherwise start lx
        | None \<Rightarrow> Some (errorToken (''unexpected character '' @ quoted [ch]) lx)))"

definition nextToken :: "Lexer \<Rightarrow> (Token \<times> Lexer) option" where
  "nextToken lx0 =
     do { lx \<leftarrow> skipWhitespaceAndComments lx0;
          (if at_end lx then Some (makeToken TkEof (lx_pos lx) lx, lx)
           else
             let start = lx_pos lx in
             do { (ch, lx1) \<leftarrow> advance lx;
                  (let unconsumed = lx1\<lparr>lx_pos := lx_pos lx1 - 1, lx_column := lx_column lx1 - 1\<rparr> in
                   if isalpha ch \<or> ch = CHR ''_'' then lexIdentifierOrKeyword unconsumed
                   else if isdigit ch then lexNumber unconsumed
                   else if ch = ch_dquote then lexString lx1
                   else if ch = ch_quote then lexChar lx1
                   else lexOperator ch start lx1) }) }"

end
