(* ===== verification/Vcc_Lexer_Props.thy ===== *)
theory Vcc_Lexer_Props
  imports Vcc_Lexer
begin

text \<open>
  What the lexer guarantees. The specification side: \<open>trivia\<close>, the text that may stand between two
  tokens, and \<open>lexeme_shape\<close>, the texts a token of each kind may have. The lemmas follow the methods
  bottom up: each sub-lexer succeeds, consumes exactly its lexeme and reports an error exactly when
  it returns an error token. The properties of \<open>nextToken\<close> and \<open>tokenize\<close> are at the end.
\<close>


section \<open>Results that exist\<close>

text \<open>\<open>ensures P r\<close>: the computation does not abort and its result satisfies \<open>P\<close>.\<close>

definition ensures :: "('a \<Rightarrow> bool) \<Rightarrow> 'a option \<Rightarrow> bool" where
  "ensures P r \<longleftrightarrow> (\<exists>x. r = Some x \<and> P x)"

lemma ensures_Some [simp]: "ensures P (Some x) \<longleftrightarrow> P x"
  by (simp add: ensures_def)

lemma ensures_bind:
  "ensures Q m \<Longrightarrow> (\<And>x. Q x \<Longrightarrow> ensures P (f x)) \<Longrightarrow> ensures P (Option.bind m f)"
  by (auto simp: ensures_def)

lemma ensures_weaken: "ensures Q m \<Longrightarrow> (\<And>x. Q x \<Longrightarrow> P x) \<Longrightarrow> ensures P m"
  by (auto simp: ensures_def)

lemma ensures_D: "ensures P m \<Longrightarrow> m = Some x \<Longrightarrow> P x"
  by (simp add: ensures_def)

lemma not_at_end_peek: "peek 0 lx \<noteq> ch_nul \<Longrightarrow> \<not> at_end lx"
  by (auto simp: peek_def at_end_def Let_def split: if_splits)

lemma advance_Some:
  "\<not> at_end lx \<Longrightarrow> \<exists>lx'. advance lx = Some (peek 0 lx, lx')"
  by (auto simp: advance_def at_end_def peek_def Let_def)

lemma skip_ensures:
  assumes "scans w n lx lx1" "\<not> at_end lx1"
  shows "ensures (\<lambda>lx2. scans (w @ [peek 0 lx1]) n lx lx2 \<and> peek 0 lx2 = peek 1 lx1
    \<and> lx_pos lx2 = Suc (lx_pos lx1) \<and> lx_source lx2 = lx_source lx1) (skip_char lx1)"
proof -
  obtain lx2 where a: "advance lx1 = Some (peek 0 lx1, lx2)" using advance_Some [OF assms(2)] by blast
  then have p: "lx_pos lx2 = Suc (lx_pos lx1)" "lx_source lx2 = lx_source lx1"
    by (auto dest: advance_progress)
  then have "peek 0 lx2 = peek 1 lx1" by (simp add: peek_def)
  with scans_snoc [OF assms(1) a] a p show ?thesis by (auto simp: ensures_def skip_char_def)
qed

lemma advanceWhile_ensures:
  assumes "scans w n lx lx1"
  shows "ensures (\<lambda>lx2. \<exists>v. scans (w @ v) n lx lx2 \<and> list_all P v \<and> (at_end lx2 \<or> \<not> P (peek 0 lx2))
      \<and> (\<not> at_end lx1 \<and> P (peek 0 lx1) \<longrightarrow> v \<noteq> [] \<and> hd v = peek 0 lx1))
    (advanceWhile (\<lambda>l. \<not> at_end l \<and> P (peek 0 l)) lx1)"
  using assms
proof (induction "length (lx_source lx1) - lx_pos lx1" arbitrary: w lx1 rule: less_induct)
  case less
  let ?cond = "\<lambda>l. \<not> at_end l \<and> P (peek 0 l)"
  show ?case
  proof (cases "?cond lx1")
    case True
    then obtain lx2 where a: "advance lx1 = Some (peek 0 lx1, lx2)" using advance_Some by blast
    have "scans (w @ [peek 0 lx1]) n lx lx2" by (rule scans_snoc [OF less.prems a])
    moreover have "length (lx_source lx2) - lx_pos lx2 < length (lx_source lx1) - lx_pos lx1"
      using advance_progress [OF a] by auto
    ultimately obtain lx3 v where "advanceWhile ?cond lx2 = Some lx3" "scans (w @ [peek 0 lx1] @ v) n lx lx3"
      "list_all P v" "at_end lx3 \<or> \<not> P (peek 0 lx3)"
      using less.hyps [of lx2 "w @ [peek 0 lx1]"] by (auto simp: ensures_def)
    with True a show ?thesis
      by (subst advanceWhile.simps) (auto simp: ensures_def skip_char_def intro!: exI [of _ "peek 0 lx1 # v"])
  next
    case False
    with less.prems show ?thesis
      by (subst advanceWhile.simps) (auto intro!: exI [of _ "[]"])
  qed
qed

lemma advanceWhile_peek:
  "\<not> P ch_nul \<Longrightarrow> advanceWhile (\<lambda>l. P (peek 0 l)) = advanceWhile (\<lambda>l. \<not> at_end l \<and> P (peek 0 l))"
proof -
  assume "\<not> P ch_nul"
  then have "(\<lambda>l. P (peek 0 l)) = (\<lambda>l. \<not> at_end l \<and> P (peek 0 l))"
    by (auto simp: at_end_def peek_def Let_def)
  then show ?thesis by (rule arg_cong)
qed


section \<open>Shapes of lexemes\<close>

definition int_shape :: "string \<Rightarrow> bool" where
  "int_shape w \<longleftrightarrow>
     (w \<noteq> [] \<and> list_all isdigit w)
     \<or> (take 1 w = ''0'' \<and> (take 2 w = ''0x'' \<or> take 2 w = ''0X'') \<and> list_all isxdigit (drop 2 w))
     \<or> ((take 2 w = ''0b'' \<or> take 2 w = ''0B'') \<and> list_all (\<lambda>c. c = CHR ''0'' \<or> c = CHR ''1'') (drop 2 w))
     \<or> ((take 2 w = ''0o'' \<or> take 2 w = ''0O'')
         \<and> list_all (\<lambda>c. 48 \<le> ch_code c \<and> ch_code c \<le> 55) (drop 2 w))"

definition fraction_shape :: "string \<Rightarrow> bool" where
  "fraction_shape f \<longleftrightarrow> (\<exists>ds. f = CHR ''.'' # ds \<and> ds \<noteq> [] \<and> list_all isdigit ds)"

definition exponent_shape :: "string \<Rightarrow> bool" where
  "exponent_shape e \<longleftrightarrow> (\<exists>x sign ds. e = x # sign @ ds \<and> (x = CHR ''e'' \<or> x = CHR ''E'')
     \<and> (sign = [] \<or> sign = ''+'' \<or> sign = ''-'') \<and> list_all isdigit ds)"

definition float_shape :: "string \<Rightarrow> bool" where
  "float_shape w \<longleftrightarrow> (\<exists>i f e. w = i @ f @ e \<and> i \<noteq> [] \<and> list_all isdigit i
     \<and> (f = [] \<or> fraction_shape f) \<and> (e = [] \<or> exponent_shape e) \<and> (f \<noteq> [] \<or> e \<noteq> []))"

text \<open>What may follow an opening quote, up to and including the closing one.\<close>

inductive string_tail :: "string \<Rightarrow> bool" where
  close: "string_tail [ch_dquote]"
| plain: "c \<noteq> ch_dquote \<Longrightarrow> c \<noteq> ch_backslash \<Longrightarrow> c \<noteq> ch_newline \<Longrightarrow> string_tail w \<Longrightarrow> string_tail (c # w)"
| escape: "string_tail w \<Longrightarrow> string_tail (ch_backslash # c # w)"

definition ident_shape :: "string \<Rightarrow> bool" where
  "ident_shape w \<longleftrightarrow> w \<noteq> [] \<and> (isalpha (hd w) \<or> hd w = CHR ''_'') \<and> list_all is_ident_char w"

fun lexeme_shape :: "TokenKind \<Rightarrow> string \<Rightarrow> bool" where
  "lexeme_shape TkIntLiteral w = int_shape w"
| "lexeme_shape TkFloatLiteral w = float_shape w"
| "lexeme_shape TkStringLiteral w = (\<exists>v. w = ch_dquote # v \<and> string_tail v)"
| "lexeme_shape TkCharLiteral w =
     (\<exists>c. (w = [ch_quote, c, ch_quote] \<and> c \<noteq> ch_backslash) \<or> w = [ch_quote, ch_backslash, c, ch_quote])"
| "lexeme_shape TkIdentifier w = (ident_shape w \<and> keyword_table w = None)"
| "lexeme_shape (Keyword k) w = (ident_shape w \<and> keyword_table w = Some (Keyword k))"
| "lexeme_shape (Operator k) w = (quoted w = tokenKindName (Operator k))"
| "lexeme_shape (Delimiter k) w = (k \<noteq> HashD \<and> quoted w = tokenKindName (Delimiter k))"
| "lexeme_shape TkEof w = (w = [])"
| "lexeme_shape TkError w = (w \<noteq> [])"
| "lexeme_shape TkNewline w = False"

text \<open>
  Scanning a token: from the state \<open>lx\<close> at its first character, the lexer consumes the lexeme \<open>w\<close>,
  of the right shape, and reports an error exactly when the token is an error token.
\<close>

definition token_scan :: "string \<Rightarrow> Lexer \<Rightarrow> Token \<times> Lexer \<Rightarrow> bool" where
  "token_scan w lx r \<longleftrightarrow> (case r of (t, lx') \<Rightarrow>
     scans w (if tok_kind t = TkError then 1 else 0) lx lx'
     \<and> tok_lexeme t = w \<and> lexeme_shape (tok_kind t) w
     \<and> (t = makeToken (tok_kind t) (lx_pos lx) lx'
        \<or> tok_kind t = TkError \<and> length w = 1))"

lemma makeToken_lexeme: "scans w n lx lx' \<Longrightarrow> tok_lexeme (makeToken k (lx_pos lx) lx') = w"
  using scans_text [of w n lx lx'] scans_source [of w n lx lx']
  by (simp add: makeToken_def substr_def)

lemma makeToken_kind [simp]: "tok_kind (makeToken k start lx) = k"
  by (simp add: makeToken_def)

lemma token_scan_make:
  assumes "scans w (if k = TkError then 1 else 0) lx lx'" "lexeme_shape k w" "start = lx_pos lx"
  shows "token_scan w lx (makeToken k start lx', lx')"
  using assms by (auto simp: token_scan_def makeToken_lexeme)


section \<open>Identifiers and numbers\<close>

lemma keyword_table_ident: "keyword_table w = Some k \<Longrightarrow> (\<exists>x. k = Keyword x)"
proof -
  assume "keyword_table w = Some k"
  then have "(w, k) \<in> set keyword_entries" by (simp add: keyword_table_Some)
  moreover have "list_all (\<lambda>p. \<exists>x. snd p = Keyword x) keyword_entries"
    by (simp add: keyword_entries_def)
  ultimately show ?thesis by (force simp: list_all_iff)
qed

lemma lexIdentifierOrKeyword_ensures:
  assumes "\<not> at_end lx" "isalpha (peek 0 lx) \<or> peek 0 lx = CHR ''_''"
  shows "ensures (\<lambda>r. \<exists>w. token_scan w lx r \<and> ident_shape w
      \<and> (at_end (snd r) \<or> \<not> is_ident_char (peek 0 (snd r)))) (lexIdentifierOrKeyword lx)"
  unfolding lexIdentifierOrKeyword_def Let_def
proof (rule ensures_bind [OF advanceWhile_ensures [OF scans.empty]])
  fix lx1
  assume "\<exists>v. scans ([] @ v) 0 lx lx1 \<and> list_all is_ident_char v
    \<and> (at_end lx1 \<or> \<not> is_ident_char (peek 0 lx1))
    \<and> (\<not> at_end lx \<and> is_ident_char (peek 0 lx) \<longrightarrow> v \<noteq> [] \<and> hd v = peek 0 lx)"
  then obtain v where v: "scans v 0 lx lx1" "list_all is_ident_char v"
    "at_end lx1 \<or> \<not> is_ident_char (peek 0 lx1)"
    "\<not> at_end lx \<and> is_ident_char (peek 0 lx) \<longrightarrow> v \<noteq> [] \<and> hd v = peek 0 lx" by auto
  have "is_ident_char (peek 0 lx)" using assms(2) by (auto simp: is_ident_char_def isalnum_def)
  with v assms have shape: "ident_shape v" by (simp add: ident_shape_def)
  have lexeme: "substr (lx_source lx1) (lx_pos lx) (lx_pos lx1 - lx_pos lx) = v"
    using makeToken_lexeme [OF v(1)] by (simp add: makeToken_def)
  show "ensures (\<lambda>r. \<exists>w. token_scan w lx r \<and> ident_shape w
      \<and> (at_end (snd r) \<or> \<not> is_ident_char (peek 0 (snd r))))
    (Some (case keyword_table (substr (lx_source lx1) (lx_pos lx) (lx_pos lx1 - lx_pos lx)) of
             Some k \<Rightarrow> (makeToken k (lx_pos lx) lx1, lx1)
           | None \<Rightarrow> (makeToken TkIdentifier (lx_pos lx) lx1, lx1)))"
  proof (cases "keyword_table v")
    case None
    then have "token_scan v lx (makeToken TkIdentifier (lx_pos lx) lx1, lx1)"
      using v(1) shape by (intro token_scan_make) simp_all
    with None v(3) shape lexeme show ?thesis by (auto simp: lexeme)
  next
    case (Some k)
    then obtain x where k: "k = Keyword x" using keyword_table_ident by blast
    have "token_scan v lx (makeToken k (lx_pos lx) lx1, lx1)"
      using v(1) shape Some k by (intro token_scan_make) simp_all
    with Some v(3) shape lexeme show ?thesis by (auto simp: lexeme)
  qed
qed

lemma advanceDigits_ensures:
  assumes "scans w n lx lx1"
  shows "ensures (\<lambda>lx2. \<exists>v. scans (w @ v) n lx lx2 \<and> list_all isdigit v
      \<and> (isdigit (peek 0 lx1) \<longrightarrow> v \<noteq> [])) (advanceDigits lx1)"
  unfolding advanceDigits_def
proof (rule ensures_weaken [OF advanceWhile_ensures [OF assms, where P = isdigit]])
  have "isdigit (peek 0 lx1) \<Longrightarrow> \<not> at_end lx1"
    by (rule not_at_end_peek) (auto simp: isdigit_def)
  then show "\<exists>v. scans (w @ v) n lx x \<and> list_all isdigit v \<and> (isdigit (peek 0 lx1) \<longrightarrow> v \<noteq> [])"
    if "\<exists>v. scans (w @ v) n lx x \<and> list_all isdigit v \<and> (at_end x \<or> \<not> isdigit (peek 0 x))
      \<and> (\<not> at_end lx1 \<and> isdigit (peek 0 lx1) \<longrightarrow> v \<noteq> [] \<and> hd v = peek 0 lx1)" for x
    using that by auto
qed

text \<open>The optional fraction and the optional exponent of \<open>lexDecimal\<close>.\<close>

lemma fraction_ensures:
  assumes "scans w 0 lx lx1"
  shows "ensures (\<lambda>(fraction, lx2). \<exists>f. scans (w @ f) 0 lx lx2
      \<and> (if fraction then fraction_shape f else f = []))
    (if peek 0 lx1 = CHR ''.'' \<and> isdigit (peek 1 lx1)
     then do { l \<leftarrow> skip_char lx1; l \<leftarrow> advanceDigits l; Some (True, l) }
     else Some (False, lx1))"
proof (cases "peek 0 lx1 = CHR ''.'' \<and> isdigit (peek 1 lx1)")
  case True
  then have "\<not> at_end lx1" by (intro not_at_end_peek) simp
  from True show ?thesis
    apply simp
    apply (rule ensures_bind [OF skip_ensures [OF assms \<open>\<not> at_end lx1\<close>]])
    apply (elim conjE)
    apply (rule ensures_bind [OF advanceDigits_ensures], assumption)
    apply (auto simp: fraction_shape_def)
    done
next
  case False
  then show ?thesis using assms by (auto intro!: exI [of _ "[]"])
qed

lemma exponent_shapeI:
  "x = CHR ''e'' \<or> x = CHR ''E'' \<Longrightarrow> sign = [] \<or> sign = ''+'' \<or> sign = ''-'' \<Longrightarrow> list_all isdigit ds
    \<Longrightarrow> exponent_shape (x # sign @ ds)"
  unfolding exponent_shape_def by blast

lemma exponent_ensures:
  assumes "scans w 0 lx lx1"
  shows "ensures (\<lambda>(isFloat, lx2). \<exists>e. scans (w @ e) 0 lx lx2
      \<and> (if e = [] then isFloat = fraction else isFloat \<and> exponent_shape e))
    (if peek 0 lx1 = CHR ''e'' \<or> peek 0 lx1 = CHR ''E''
     then do { l \<leftarrow> skip_char lx1;
               l \<leftarrow> (if peek 0 l = CHR ''+'' \<or> peek 0 l = CHR ''-'' then skip_char l else Some l);
               l \<leftarrow> advanceDigits l;
               Some (True, l) }
     else Some (fraction, lx1))"
proof (cases "peek 0 lx1 = CHR ''e'' \<or> peek 0 lx1 = CHR ''E''")
  case True
  then have "\<not> at_end lx1" by (intro not_at_end_peek) auto
  have sign: "ensures (\<lambda>l2. \<exists>s. scans (v @ s) 0 lx l2 \<and> (s = [] \<or> s = ''+'' \<or> s = ''-''))
      (if peek 0 l = CHR ''+'' \<or> peek 0 l = CHR ''-'' then skip_char l else Some l)"
    if "scans v 0 lx l" for v l
  proof (cases "peek 0 l = CHR ''+'' \<or> peek 0 l = CHR ''-''")
    case True
    then have "\<not> at_end l" by (intro not_at_end_peek) auto
    have "ensures (\<lambda>l2. \<exists>s. scans (v @ s) 0 lx l2 \<and> (s = [] \<or> s = ''+'' \<or> s = ''-'')) (skip_char l)"
      by (rule ensures_weaken [OF skip_ensures [OF that \<open>\<not> at_end l\<close>]])
        (use True in \<open>auto intro!: exI [of _ "[peek 0 l]"]\<close>)
    with True show ?thesis by auto
  next
    case False
    with that show ?thesis by (auto intro!: exI [of _ "[]"])
  qed
  from True show ?thesis
    apply simp
    apply (rule ensures_bind [OF skip_ensures [OF assms \<open>\<not> at_end lx1\<close>]])
    apply (elim conjE)
    apply (rule ensures_bind [OF sign], assumption)
    apply (elim exE conjE)
    apply (rule ensures_bind [OF advanceDigits_ensures], assumption)
    apply (elim exE conjE)
    subgoal for l l2 s l3 v
      by (simp, intro exI [of _ "peek 0 lx1 # s @ v"]) (simp add: exponent_shapeI)
    done
next
  case False
  then show ?thesis using assms by (auto intro!: exI [of _ "[]"])
qed

lemma lexDecimal_ensures:
  assumes "scans w 0 lx lx1" "list_all isdigit w" "w \<noteq> [] \<or> isdigit (peek 0 lx1)" "start = lx_pos lx"
  shows "ensures (\<lambda>r. \<exists>w. token_scan w lx r \<and> w \<noteq> []) (lexDecimal start lx1)"
  unfolding lexDecimal_def
proof (rule ensures_bind [OF advanceDigits_ensures [OF assms(1)]], elim exE conjE)
  fix lx2 v
  assume lx2: "scans (w @ v) 0 lx lx2" "list_all isdigit v" "isdigit (peek 0 lx1) \<longrightarrow> v \<noteq> []"
  have i: "w @ v \<noteq> []" "list_all isdigit (w @ v)" using assms lx2 by auto
  show "ensures (\<lambda>r. \<exists>w. token_scan w lx r \<and> w \<noteq> [])
   (do { (fraction, lx2) \<leftarrow>
            (if peek 0 lx2 = CHR ''.'' \<and> isdigit (peek 1 lx2)
             then do { l \<leftarrow> skip_char lx2; l \<leftarrow> advanceDigits l; Some (True, l) }
             else Some (False, lx2));
          (isFloat, lx3) \<leftarrow>
            (if peek 0 lx2 = CHR ''e'' \<or> peek 0 lx2 = CHR ''E''
             then do { l \<leftarrow> skip_char lx2;
                       l \<leftarrow> (if peek 0 l = CHR ''+'' \<or> peek 0 l = CHR ''-'' then skip_char l else Some l);
                       l \<leftarrow> advanceDigits l;
                       Some (True, l) }
             else Some (fraction, lx2));
          Some (makeToken (if isFloat then TkFloatLiteral else TkIntLiteral) start lx3, lx3) })"
  proof (rule ensures_bind [OF fraction_ensures [OF lx2(1)]], clarify)
    fix fraction lx3 f
    assume lx3: "scans ((w @ v) @ f) 0 lx lx3" "if fraction then fraction_shape f else f = []"
    show "ensures (\<lambda>r. \<exists>w. token_scan w lx r \<and> w \<noteq> [])
     (do {(isFloat, lx3) \<leftarrow>
            (if peek 0 lx3 = CHR ''e'' \<or> peek 0 lx3 = CHR ''E''
             then do { l \<leftarrow> skip_char lx3;
                       l \<leftarrow> (if peek 0 l = CHR ''+'' \<or> peek 0 l = CHR ''-'' then skip_char l else Some l);
                       l \<leftarrow> advanceDigits l;
                       Some (True, l) }
             else Some (fraction, lx3));
          Some (makeToken (if isFloat then TkFloatLiteral else TkIntLiteral) start lx3, lx3) })"
    proof (rule ensures_bind [OF exponent_ensures [OF lx3(1), where fraction = fraction]], clarify)
      fix isFloat lx4 e
      assume lx4: "scans (((w @ v) @ f) @ e) 0 lx lx4"
        "if e = [] then isFloat = fraction else isFloat \<and> exponent_shape e"
      let ?k = "if isFloat then TkFloatLiteral else TkIntLiteral"
      have "lexeme_shape ?k (((w @ v) @ f) @ e)"
      proof (cases isFloat)
        case True
        with lx3(2) lx4(2) i have "float_shape (((w @ v) @ f) @ e)"
          unfolding float_shape_def
          by (intro exI [of _ "w @ v"] exI [of _ f] exI [of _ e]) (auto simp: fraction_shape_def split: if_splits)
        with True show ?thesis by simp
      next
        case False
        with lx3(2) lx4(2) i show ?thesis by (auto simp: int_shape_def split: if_splits)
      qed
      then have "token_scan (((w @ v) @ f) @ e) lx (makeToken ?k start lx4, lx4)"
        using lx4(1) assms(4) by (intro token_scan_make) auto
      then show "ensures (\<lambda>r. \<exists>w. token_scan w lx r \<and> w \<noteq> []) (Some (makeToken ?k start lx4, lx4))"
        using i(1) by (auto intro!: exI [of _ "((w @ v) @ f) @ e"])
    qed
  qed
qed


text \<open>The three based literals: a prefix of two characters and the digits of the base.\<close>

lemma based_ensures:
  assumes "scans w 0 lx lx1" "\<not> at_end lx1" "start = lx_pos lx"
    and shape: "\<And>v. list_all P v \<Longrightarrow> int_shape ((w @ [peek 0 lx1]) @ v)"
  shows "ensures (\<lambda>r. \<exists>w. token_scan w lx r \<and> w \<noteq> [])
    (do { l \<leftarrow> skip_char lx1;
          l \<leftarrow> advanceWhile (\<lambda>l. \<not> at_end l \<and> P (peek 0 l)) l;
          Some (makeToken TkIntLiteral start l, l) })"
proof (rule ensures_bind [OF skip_ensures [OF assms(1,2)]], elim conjE)
  fix lx2
  assume "scans (w @ [peek 0 lx1]) 0 lx lx2"
  then show "ensures (\<lambda>r. \<exists>w. token_scan w lx r \<and> w \<noteq> [])
    (do { l \<leftarrow> advanceWhile (\<lambda>l. \<not> at_end l \<and> P (peek 0 l)) lx2;
          Some (makeToken TkIntLiteral start l, l) })"
  proof (rule ensures_bind [OF advanceWhile_ensures], elim exE conjE)
    fix lx3 v
    assume "scans ((w @ [peek 0 lx1]) @ v) 0 lx lx3" "list_all P v"
    then have "token_scan ((w @ [peek 0 lx1]) @ v) lx (makeToken TkIntLiteral start lx3, lx3)"
      using shape [of v] assms(3) by (intro token_scan_make) simp_all
    then show "ensures (\<lambda>r. \<exists>w. token_scan w lx r \<and> w \<noteq> [])
      (Some (makeToken TkIntLiteral start lx3, lx3))" by (auto intro!: exI [of _ "(w @ [peek 0 lx1]) @ v"])
  qed
qed

lemma lexNumber_ensures:
  assumes "isdigit (peek 0 lx)"
  shows "ensures (\<lambda>r. \<exists>w. token_scan w lx r \<and> w \<noteq> []) (lexNumber lx)"
proof (cases "peek 0 lx = CHR ''0''")
  case False
  then show ?thesis using assms
    by (simp add: lexNumber_def) (rule lexDecimal_ensures [OF scans.empty], simp_all)
next
  case True
  then have "\<not> at_end lx" by (intro not_at_end_peek) simp
  have oct: "advanceWhile (\<lambda>l. 48 \<le> ch_code (peek 0 l) \<and> ch_code (peek 0 l) \<le> 55)
      = advanceWhile (\<lambda>l. \<not> at_end l \<and> 48 \<le> ch_code (peek 0 l) \<and> ch_code (peek 0 l) \<le> 55)"
    by (rule advanceWhile_peek [where P = "\<lambda>c. 48 \<le> ch_code c \<and> ch_code c \<le> 55"]) simp
  have bin: "advanceWhile (\<lambda>l. peek 0 l = CHR ''0'' \<or> peek 0 l = CHR ''1'')
      = advanceWhile (\<lambda>l. \<not> at_end l \<and> (peek 0 l = CHR ''0'' \<or> peek 0 l = CHR ''1''))"
    by (rule advanceWhile_peek [where P = "\<lambda>c. c = CHR ''0'' \<or> c = CHR ''1''"]) simp
  have peek_end: "\<not> at_end l" if "peek 0 l = c" "c \<noteq> ch_nul" for l c
    using that not_at_end_peek by blast
  show ?thesis
    using True unfolding lexNumber_def Let_def
    apply (simp only: if_True simp_thms)
    apply (rule ensures_bind [OF skip_ensures [OF scans.empty \<open>\<not> at_end lx\<close>]])
    apply (elim conjE)
    subgoal for lx1
    proof -
      assume s: "scans ([] @ [peek 0 lx]) 0 lx lx1" and t: "peek 0 lx = CHR ''0''"
      then have s0: "scans ''0'' 0 lx lx1" by simp
      consider (x) "peek 0 lx1 = CHR ''x'' \<or> peek 0 lx1 = CHR ''X''"
        | (b) "peek 0 lx1 = CHR ''b'' \<or> peek 0 lx1 = CHR ''B''"
        | (o) "peek 0 lx1 = CHR ''o'' \<or> peek 0 lx1 = CHR ''O''"
        | (d) "peek 0 lx1 \<notin> set ''xXbBoO''" by fastforce
      then show ?thesis
      proof cases
        case x
        then have e: "\<not> at_end lx1" by (intro not_at_end_peek) auto
        from x show ?thesis
          by (simp only: if_True)
            (rule based_ensures [OF s0 e refl], auto simp: int_shape_def numeral_2_eq_2)
      next
        case b
        then have e: "\<not> at_end lx1" by (intro not_at_end_peek) auto
        have n: "\<not> (peek 0 lx1 = CHR ''x'' \<or> peek 0 lx1 = CHR ''X'')" using b by auto
        show ?thesis
          by (simp only: n b if_True if_False bin)
            (rule based_ensures [OF s0 e refl], use b in \<open>auto simp: int_shape_def numeral_2_eq_2\<close>)
      next
        case o
        then have e: "\<not> at_end lx1" by (intro not_at_end_peek) auto
        have n: "\<not> (peek 0 lx1 = CHR ''x'' \<or> peek 0 lx1 = CHR ''X'')"
          "\<not> (peek 0 lx1 = CHR ''b'' \<or> peek 0 lx1 = CHR ''B'')" using o by auto
        show ?thesis
          by (simp only: n o if_True if_False oct)
            (rule based_ensures [OF s0 e refl], use o in \<open>auto simp: int_shape_def numeral_2_eq_2\<close>)
      next
        case d
        then have n: "\<not> (peek 0 lx1 = CHR ''x'' \<or> peek 0 lx1 = CHR ''X'')"
          "\<not> (peek 0 lx1 = CHR ''b'' \<or> peek 0 lx1 = CHR ''B'')"
          "\<not> (peek 0 lx1 = CHR ''o'' \<or> peek 0 lx1 = CHR ''O'')" by auto
        show ?thesis
          by (simp only: n if_False) (rule lexDecimal_ensures [OF s0], simp_all add: isdigit_def)
      qed
    qed
    done
qed


section \<open>Strings and characters\<close>

text \<open>Inside a string literal: what has been consumed since the opening quote can be completed.\<close>

definition string_open :: "string \<Rightarrow> bool" where
  "string_open w \<longleftrightarrow> (\<forall>v. string_tail v \<longrightarrow> string_tail (w @ v))"

lemma string_open_simps:
  "string_open []"
  "string_open w \<Longrightarrow> c \<noteq> ch_dquote \<Longrightarrow> c \<noteq> ch_backslash \<Longrightarrow> c \<noteq> ch_newline \<Longrightarrow> string_open (w @ [c])"
  "string_open w \<Longrightarrow> string_open (w @ [ch_backslash, c])"
  "string_open w \<Longrightarrow> string_tail (w @ [ch_dquote])"
  by (simp_all add: string_open_def string_tail.intros)

lemma string_error:
  assumes "scans (ch_dquote # w) 0 lx0 lx" "start = lx_pos lx0"
  shows "token_scan (ch_dquote # w) lx0
    (makeToken TkError start (lx_error loc msg lx), lx_error loc msg lx)"
  using scans_error [OF assms(1)] assms(2) by (intro token_scan_make) simp_all

lemma stringLoop_ensures:
  assumes "scans (ch_dquote # w) 0 lx0 lx" "string_open w" "start = lx_pos lx0"
  shows "ensures (\<lambda>r. \<exists>w. token_scan w lx0 r \<and> w \<noteq> []) (stringLoop start openLoc lx)"
  using assms(1,2)
proof (induction "length (lx_source lx) - lx_pos lx" arbitrary: w lx rule: less_induct)
  case less
  note err = string_error [OF _ assms(3)]
  show ?case
  proof (cases "at_end lx")
    case True
    then show ?thesis
      by (subst stringLoop.simps) (auto simp: Let_def intro: err [OF less.prems(1)])
  next
    case False
    then obtain lx1 where a: "advance lx = Some (peek 0 lx, lx1)" using advance_Some by blast
    let ?c = "peek 0 lx"
    have s1: "scans (ch_dquote # (w @ [?c])) 0 lx0 lx1" using scans_snoc [OF less.prems(1) a] by simp
    have p1: "lx_source lx1 = lx_source lx" "lx_pos lx1 = Suc (lx_pos lx)" "lx_pos lx < length (lx_source lx)"
      using advance_progress [OF a] by auto
    consider (quote) "?c = ch_dquote" | (newline) "?c = ch_newline"
      | (esc) "?c = ch_backslash" "\<not> at_end lx1" | (esc_end) "?c = ch_backslash" "at_end lx1"
      | (plain) "?c \<noteq> ch_dquote" "?c \<noteq> ch_newline" "?c \<noteq> ch_backslash" by blast
    then show ?thesis
    proof cases
      case quote
      have "token_scan (ch_dquote # (w @ [?c])) lx0 (makeToken TkStringLiteral start lx1, lx1)"
        using s1 quote string_open_simps(4) [OF less.prems(2)] assms(3) by (intro token_scan_make) simp_all
      with False a quote show ?thesis by (subst stringLoop.simps) auto
    next
      case newline
      with False a show ?thesis
        by (subst stringLoop.simps) (auto simp: Let_def intro: err [OF s1])
    next
      case esc
      from esc(2) obtain lx2 where b: "advance lx1 = Some (peek 0 lx1, lx2)" using advance_Some by blast
      have "scans (ch_dquote # (w @ [ch_backslash, peek 0 lx1])) 0 lx0 lx2"
        using scans_snoc [OF s1 b] esc(1) by simp
      moreover have "length (lx_source lx2) - lx_pos lx2 < length (lx_source lx) - lx_pos lx"
        using p1 advance_progress [OF b] by auto
      ultimately show ?thesis
        using less.hyps [of lx2 "w @ [ch_backslash, peek 0 lx1]"] False a b esc
          string_open_simps(3) [OF less.prems(2)]
        by (subst stringLoop.simps) (simp add: skip_char_def)
    next
      case esc_end
      have "scans (ch_dquote # (w @ [?c])) 0 lx0 lx1" by (rule s1)
      with False a esc_end show ?thesis
        by (subst stringLoop.simps, simp, subst stringLoop.simps) (auto simp: Let_def intro: err)
    next
      case plain
      then show ?thesis
        using less.hyps [OF _ s1] False a p1 string_open_simps(2) [OF less.prems(2)]
        by (subst stringLoop.simps) simp
    qed
  qed
qed

lemma lexString_ensures:
  assumes "scans [ch_dquote] 0 lx0 lx"
  shows "ensures (\<lambda>r. \<exists>w. token_scan w lx0 r \<and> w \<noteq> []) (lexString lx)"
  using stringLoop_ensures [OF assms string_open_simps(1)] scans_source [OF assms]
  by (simp add: lexString_def)

lemma match_char_ensures:
  assumes "scans w n lx0 lx" "c \<noteq> ch_nul"
  shows "ensures (\<lambda>(matched, lx1). if matched then scans (w @ [c]) n lx0 lx1 \<and> peek 0 lx = c
      else lx1 = lx \<and> peek 0 lx \<noteq> c) (match_char c lx)"
proof (cases "peek 0 lx = c")
  case True
  with assms(2) have "\<not> at_end lx" by (intro not_at_end_peek) simp
  then have "\<not> length (lx_source lx) \<le> lx_pos lx" "lx_source lx ! lx_pos lx = c"
    using True by (auto simp: at_end_def peek_def Let_def)
  then show ?thesis
    unfolding match_char_def
    by simp (rule ensures_bind [OF skip_ensures [OF assms(1) \<open>\<not> at_end lx\<close>]], use True in auto)
next
  case False
  then have "length (lx_source lx) \<le> lx_pos lx \<or> lx_source lx ! lx_pos lx \<noteq> c"
    by (auto simp: peek_def Let_def split: if_splits)
  with False show ?thesis by (simp add: match_char_def)
qed

lemma lexChar_ensures:
  assumes "scans [ch_quote] 0 lx0 lx"
  shows "ensures (\<lambda>r. \<exists>w. token_scan w lx0 r \<and> w \<noteq> []) (lexChar lx)"
proof (cases "at_end lx")
  case True
  have start: "lx_pos lx - 1 = lx_pos lx0" using scans_source [OF assms] by simp
  have "token_scan [ch_quote] lx0 (makeToken TkError (lx_pos lx - 1) (lx_error loc msg lx), lx_error loc msg lx)"
    for loc msg
    using scans_error [OF assms] start by (intro token_scan_make) simp_all
  with True show ?thesis by (auto simp: lexChar_def Let_def)
next
  case False
  have start: "lx_pos lx - 1 = lx_pos lx0" using scans_source [OF assms] by simp
  let ?esc = "if peek 0 lx = ch_backslash then [ch_backslash] else []"
  have A: "ensures (\<lambda>lx1. scans (ch_quote # ?esc) 0 lx0 lx1 \<and> (peek 0 lx \<noteq> ch_backslash \<longrightarrow> lx1 = lx))
      (if peek 0 lx = ch_backslash then skip_char lx else Some lx)"
    using assms ensures_weaken [OF skip_ensures [OF assms False]] by auto
  have B: "ensures (\<lambda>lx2. \<exists>v. scans (ch_quote # ?esc @ v) 0 lx0 lx2
        \<and> (at_end lx1 \<and> v = [] \<and> lx2 = lx1 \<or> \<not> at_end lx1 \<and> v = [peek 0 lx1]))
      (if \<not> at_end lx1 then skip_char lx1 else Some lx1)"
    if "scans (ch_quote # ?esc) 0 lx0 lx1" for lx1
    using that ensures_weaken [OF skip_ensures [OF that]] by (cases "at_end lx1") auto
  have C: "ensures (\<lambda>r. \<exists>w. token_scan w lx0 r \<and> w \<noteq> [])
     (do { l \<leftarrow> Some (lx_error loc msg lx3);
           l \<leftarrow> advanceWhile (\<lambda>l. \<not> at_end l \<and> peek 0 l \<noteq> ch_quote \<and> peek 0 l \<noteq> ch_newline) l;
           l \<leftarrow> (if \<not> at_end l \<and> peek 0 l = ch_quote then skip_char l else Some l);
           Some (makeToken TkError (lx_pos lx - 1) l, l) })"
    if s3: "scans w 0 lx0 lx3" and w: "w \<noteq> []" for lx3 w loc msg
  proof -
    have fin: "ensures (\<lambda>r. \<exists>w. token_scan w lx0 r \<and> w \<noteq> [])
        (do { l \<leftarrow> (if \<not> at_end l \<and> peek 0 l = ch_quote then skip_char l else Some l);
           Some (makeToken TkError (lx_pos lx - 1) l, l) })"
      if s: "scans (w @ v) 1 lx0 l" for l v
    proof -
      have "ensures (\<lambda>l2. \<exists>u. scans ((w @ v) @ u) 1 lx0 l2)
          (if \<not> at_end l \<and> peek 0 l = ch_quote then skip_char l else Some l)"
      proof (cases "\<not> at_end l \<and> peek 0 l = ch_quote")
        case True
        have "ensures (\<lambda>l2. \<exists>u. scans ((w @ v) @ u) 1 lx0 l2) (skip_char l)"
          by (rule ensures_weaken [OF skip_ensures [OF s]]) (use True in blast)+
        with True show ?thesis by simp
      next
        case False
        with s show ?thesis by (auto intro!: exI [of _ "[]"])
      qed
      then show ?thesis
      proof (rule ensures_bind, elim exE)
        fix l2 u
        assume "scans ((w @ v) @ u) 1 lx0 l2"
        then have "token_scan ((w @ v) @ u) lx0 (makeToken TkError (lx_pos lx - 1) l2, l2)"
          using w start by (intro token_scan_make) simp_all
        then show "ensures (\<lambda>r. \<exists>w. token_scan w lx0 r \<and> w \<noteq> [])
            (Some (makeToken TkError (lx_pos lx - 1) l2, l2))"
          using w by (auto intro!: exI [of _ "(w @ v) @ u"])
      qed
    qed
    have "scans w 1 lx0 (lx_error loc msg lx3)" using scans_error [OF s3] by simp
    from ensures_bind [OF advanceWhile_ensures [OF this, where P = "\<lambda>c. c \<noteq> ch_quote \<and> c \<noteq> ch_newline"]]
    show ?thesis using fin by fastforce
  qed
  show ?thesis
    unfolding lexChar_def Let_def
    apply (simp only: False if_False)
    apply (rule ensures_bind [OF A], elim conjE)
    apply (rule ensures_bind [OF B], assumption, elim exE)
    apply (elim conjE)
    apply (rule ensures_bind [OF match_char_ensures], assumption, simp, clarify)
    subgoal premises prems for lx1 lx2 v closed lx3
    proof (cases closed)
      case True
      with prems have s3: "scans ((ch_quote # ?esc @ v) @ [ch_quote]) 0 lx0 lx3" "peek 0 lx2 = ch_quote"
        by simp_all
      have "\<not> at_end lx2" using s3(2) by (intro not_at_end_peek) simp
      with prems have v: "v = [peek 0 lx1]" by auto
      have "lexeme_shape TkCharLiteral ((ch_quote # ?esc @ v) @ [ch_quote])"
        using v prems by (cases "peek 0 lx = ch_backslash") auto
      then have "token_scan ((ch_quote # ?esc @ v) @ [ch_quote]) lx0
          (makeToken TkCharLiteral (lx_pos lx - 1) lx3, lx3)"
        using s3(1) start by (intro token_scan_make) simp_all
      with True show ?thesis by (auto intro!: exI [of _ "(ch_quote # ?esc @ v) @ [ch_quote]"])
    next
      case closed: False
      with prems have "scans (ch_quote # ?esc @ v) 0 lx0 lx3" by simp
      from C [OF this] closed show ?thesis by simp
    qed
    done
qed


section \<open>Operators\<close>

text \<open>A kind and its spelling in the name table; the hash is spelled there but never scanned.\<close>

fun spelled :: "TokenKind \<Rightarrow> string \<Rightarrow> bool" where
  "spelled (Operator k) w = (quoted w = tokenKindName (Operator k))"
| "spelled (Delimiter k) w = (k \<noteq> HashD \<and> quoted w = tokenKindName (Delimiter k))"
| "spelled _ w = False"

lemma spelled_shape: "spelled k w \<Longrightarrow> lexeme_shape k w \<and> k \<noteq> TkError"
  by (cases k) auto

lemma operator_cases_spelled:
  "list_all (\<lambda>(ch, alternatives, otherwise). ch = CHR ''#'' \<or>
     (spelled otherwise [ch] \<and> list_all (\<lambda>(c, k). c \<noteq> ch_nul \<and> spelled k [ch, c]) alternatives))
   operator_cases"
  by code_simp

lemma matchFirst_ensures:
  assumes "scans w 0 lx0 lx" "w \<noteq> []" "start = lx_pos lx0" "spelled otherwise w"
    and "list_all (\<lambda>(c, k). c \<noteq> ch_nul \<and> spelled k (w @ [c])) alternatives"
  shows "ensures (\<lambda>r. \<exists>w. token_scan w lx0 r \<and> w \<noteq> []) (matchFirst alternatives otherwise start lx)"
  using assms(5)
proof (induction alternatives)
  case Nil
  have "token_scan w lx0 (makeToken otherwise start lx, lx)"
    using assms(1,3) spelled_shape [OF assms(4)] by (intro token_scan_make) simp_all
  with assms(2) show ?case by auto
next
  case (Cons ck cks)
  have c: "fst ck \<noteq> ch_nul" and k: "spelled (snd ck) (w @ [fst ck])"
    using Cons.prems by (auto split: prod.splits)
  have ih: "ensures (\<lambda>r. \<exists>w. token_scan w lx0 r \<and> w \<noteq> []) (matchFirst cks otherwise start lx)"
    using Cons by simp
  have hit: "token_scan (w @ [fst ck]) lx0 (makeToken (snd ck) start lx1, lx1)"
    if "scans (w @ [fst ck]) 0 lx0 lx1" for lx1
    using that assms(3) spelled_shape [OF k] by (intro token_scan_make) simp_all
  show ?case
    by (simp, rule ensures_bind [OF match_char_ensures [OF assms(1) c]])
      (auto simp: ih hit intro!: exI [of _ "w @ [fst ck]"])
qed

lemma lexOperator_ensures:
  assumes "scans [ch] 0 lx0 lx" "start = lx_pos lx0" "ch \<noteq> CHR ''#''"
  shows "ensures (\<lambda>r. \<exists>w. token_scan w lx0 r \<and> w \<noteq> []) (lexOperator ch start lx)"
proof (cases "ch = CHR ''.''")
  case True
  have dots: "spelled TkDot ''.''" "spelled TkDotDot ''..''" "spelled TkDotDotDot ''...''" by code_simp+
  have one: "token_scan ''.'' lx0 (makeToken TkDot start lx1, lx1)" if "lx1 = lx" for lx1
    using that True assms(1,2) spelled_shape [OF dots(1)] by (intro token_scan_make) simp_all
  have two: "ensures (\<lambda>r. \<exists>w. token_scan w lx0 r \<and> w \<noteq> [])
      (matchFirst [(CHR ''.'', TkDotDotDot)] TkDotDot start lx1)" if "scans ''..'' 0 lx0 lx1" for lx1
    by (rule matchFirst_ensures [OF that _ assms(2)]) (simp_all add: dots del: spelled.simps)
  show ?thesis
    unfolding lexOperator_def using True assms(1)
    by (simp, intro ensures_bind [OF match_char_ensures [OF assms(1)]])
      (auto simp: two one simp del: matchFirst.simps intro!: exI [of _ "''.''"])
next
  case False
  show ?thesis
  proof (cases "map_of operator_cases ch")
    case None
    have "lx_pos lx = Suc (lx_pos lx0)" "lx_source lx = lx_source lx0"
      using scans_source [OF assms(1)] by simp_all
    moreover have "lx_source lx0 ! lx_pos lx0 = ch"
      using scans_text [OF assms(1)]
      by (metis append_Cons drop_eq_Nil2 hd_drop_conv_nth list.distinct(1) list.sel(1) not_le)
    ultimately have "token_scan [ch] lx0 (errorToken m lx)" for m
      using scans_error [OF assms(1)] by (simp add: token_scan_def errorToken_def Let_def)
    with False None show ?thesis by (auto simp: lexOperator_def)
  next
    case (Some r)
    obtain alternatives otherwise where r: "r = (alternatives, otherwise)" by fastforce
    have "(ch, alternatives, otherwise) \<in> set operator_cases" using Some r by (auto dest: map_of_SomeD)
    with operator_cases_spelled assms(3)
    have "spelled otherwise [ch]" "list_all (\<lambda>(c, k). c \<noteq> ch_nul \<and> spelled k ([ch] @ [c])) alternatives"
      by (fastforce simp: list_all_iff)+
    from matchFirst_ensures [OF assms(1) _ assms(2) this] False Some r show ?thesis
      by (simp add: lexOperator_def)
  qed
qed


section \<open>Trivia\<close>

text \<open>
  \<open>comment_body d w d'\<close>: the text after the opening of a block comment, read at nesting depth \<open>d\<close>,
  ends at depth \<open>d'\<close>: at 0 when its last closing mark has been read, positive at the end of the input.
\<close>

inductive comment_body :: "nat \<Rightarrow> string \<Rightarrow> nat \<Rightarrow> bool" where
  stop: "comment_body d [] d"
| leave: "comment_body d w d' \<Longrightarrow> comment_body (Suc d) (CHR ''*'' # CHR ''/'' # w) d'"
| nest: "comment_body (Suc (Suc d)) w d' \<Longrightarrow> comment_body (Suc d) (CHR ''/'' # CHR ''*'' # w) d'"
| other: "take 2 (c # w) \<noteq> ''*/'' \<Longrightarrow> take 2 (c # w) \<noteq> ''/*'' \<Longrightarrow> comment_body (Suc d) w d'
    \<Longrightarrow> comment_body (Suc d) (c # w) d'"

definition is_space :: "char \<Rightarrow> bool" where
  "is_space c \<longleftrightarrow> c = CHR '' '' \<or> c = ch_tab \<or> c = ch_return \<or> c = ch_newline"

text \<open>
  The text between two tokens. A \<open>#\<close> comment takes the character after the \<open>#\<close>, whatever it is, and
  then the rest of the line.
\<close>

inductive trivia :: "string \<Rightarrow> bool" where
  empty: "trivia []"
| space: "is_space c \<Longrightarrow> trivia w \<Longrightarrow> trivia (c # w)"
| hash: "ch_newline \<notin> set body \<Longrightarrow> trivia w \<Longrightarrow> trivia (CHR ''#'' # c # body @ w)"
| line: "ch_newline \<notin> set body \<Longrightarrow> trivia w \<Longrightarrow> trivia (CHR ''/'' # CHR ''/'' # body @ w)"
| block: "comment_body 1 body 0 \<Longrightarrow> trivia w \<Longrightarrow> trivia (CHR ''/'' # CHR ''*'' # body @ w)"
| unterminated: "comment_body 1 body (Suc d) \<Longrightarrow> trivia (CHR ''/'' # CHR ''*'' # body)"

lemma scans_peek:
  "scans (c # w) n lx lx' \<Longrightarrow> peek 0 lx = c \<and> (\<forall>x v. w = x # v \<longrightarrow> peek 1 lx = x) \<and> \<not> at_end lx"
proof -
  assume "scans (c # w) n lx lx'"
  then have t: "drop (lx_pos lx) (lx_source lx) = c # w @ drop (lx_pos lx') (lx_source lx)"
    by (auto dest: scans_text)
  then have len: "lx_pos lx < length (lx_source lx)"
    by (metis drop_eq_Nil2 list.distinct(1) not_le)
  have nth: "lx_source lx ! (lx_pos lx + i) = (c # w) ! i" "lx_pos lx + i < length (lx_source lx)"
    if "i < length (c # w)" for i
  proof -
    have "lx_source lx ! (lx_pos lx + i) = drop (lx_pos lx) (lx_source lx) ! i"
      using len by (simp add: nth_drop)
    also have "\<dots> = (c # w) ! i" using that by (simp add: t nth_append nth_Cons split: nat.split)
    finally show "lx_source lx ! (lx_pos lx + i) = (c # w) ! i" .
    have "length (c # w) \<le> length (lx_source lx) - lx_pos lx"
      using arg_cong [OF t, of length] by simp
    with that show "lx_pos lx + i < length (lx_source lx)" by simp
  qed
  show ?thesis using nth(1) [of 0] nth [of 1] len by (auto simp: peek_def at_end_def)
qed

lemma blockCommentLoop_ensures:
  "ensures (\<lambda>(d', lx'). \<exists>w. scans w 0 lx lx' \<and> comment_body d w d' \<and> (d' > 0 \<longrightarrow> at_end lx'))
    (blockCommentLoop d lx)"
proof (induction "length (lx_source lx) - lx_pos lx" arbitrary: d lx rule: less_induct)
  case less
  let ?Q = "\<lambda>d lx (d', lx'). \<exists>w. scans w 0 lx lx' \<and> comment_body d w d' \<and> (d' > 0 \<longrightarrow> at_end lx')"
  show ?case
  proof (cases "\<not> at_end lx \<and> d > 0")
    case False
    then show ?thesis
      by (subst blockCommentLoop.simps) (auto intro!: exI [of _ "[]"] scans.empty comment_body.stop)
  next
    case True
    then obtain l1 where a: "advance lx = Some (peek 0 lx, l1)" using advance_Some by blast
    have sk1: "skip_char lx = Some l1" using a by (simp add: skip_char_def)
    have p1: "lx_pos l1 = Suc (lx_pos lx)" "lx_source l1 = lx_source lx" "lx_pos lx < length (lx_source lx)"
      using advance_progress [OF a] by auto
    obtain e where d: "d = Suc e" using True by (cases d) auto
    have two: "\<exists>l2. advance l1 = Some (peek 1 lx, l2) \<and> skip_char l1 = Some l2
        \<and> length (lx_source l2) - lx_pos l2 < length (lx_source lx) - lx_pos lx"
      if "peek 1 lx \<noteq> ch_nul"
    proof -
      have pk: "peek 0 l1 = peek 1 lx" using p1 by (simp add: peek_def)
      with that have "\<not> at_end l1" by (intro not_at_end_peek) simp
      then obtain l2 where b: "advance l1 = Some (peek 1 lx, l2)" using advance_Some pk by force
      with p1 advance_progress [OF b] show ?thesis by (auto simp: skip_char_def)
    qed
    consider (leave) "peek 0 lx = CHR ''*''" "peek 1 lx = CHR ''/''"
      | (nest) "peek 0 lx = CHR ''/''" "peek 1 lx = CHR ''*''"
      | (other) "\<not> (peek 0 lx = CHR ''*'' \<and> peek 1 lx = CHR ''/'')"
          "\<not> (peek 0 lx = CHR ''/'' \<and> peek 1 lx = CHR ''*'')" by blast
    then show ?thesis
    proof cases
      case leave
      from two leave obtain l2 where b: "advance l1 = Some (CHR ''/'', l2)" "skip_char l1 = Some l2"
        "length (lx_source l2) - lx_pos l2 < length (lx_source lx) - lx_pos lx" by auto
      have lift: "?Q d lx r" if "?Q e l2 r" for r
      proof -
        from that obtain d' lx' w where r: "r = (d', lx')" "scans w 0 l2 lx'" "comment_body e w d'"
          "d' > 0 \<longrightarrow> at_end lx'" by (cases r) auto
        have "scans (CHR ''*'' # CHR ''/'' # w) 0 lx lx'"
          using a b(1) r(2) leave by (auto intro: scans.consume)
        with r d show ?thesis by (auto intro!: exI [of _ "CHR ''*'' # CHR ''/'' # w"] comment_body.leave)
      qed
      have "blockCommentLoop d lx = blockCommentLoop e l2"
        using True leave sk1 b(2) d by (subst blockCommentLoop.simps) simp
      with ensures_weaken [OF less.hyps [OF b(3), of e]] lift show ?thesis by simp
    next
      case nest
      from two nest obtain l2 where b: "advance l1 = Some (CHR ''*'', l2)" "skip_char l1 = Some l2"
        "length (lx_source l2) - lx_pos l2 < length (lx_source lx) - lx_pos lx" by auto
      have lift: "?Q d lx r" if "?Q (Suc d) l2 r" for r
      proof -
        from that obtain d' lx' w where r: "r = (d', lx')" "scans w 0 l2 lx'" "comment_body (Suc d) w d'"
          "d' > 0 \<longrightarrow> at_end lx'" by (cases r) auto
        have "scans (CHR ''/'' # CHR ''*'' # w) 0 lx lx'"
          using a b(1) r(2) nest by (auto intro: scans.consume)
        with r d show ?thesis by (auto intro!: exI [of _ "CHR ''/'' # CHR ''*'' # w"] comment_body.nest)
      qed
      have "blockCommentLoop d lx = blockCommentLoop (Suc d) l2"
        using True nest sk1 b(2) d by (subst blockCommentLoop.simps) simp
      with ensures_weaken [OF less.hyps [OF b(3), of "Suc d"]] lift show ?thesis by simp
    next
      case other
      have lift: "?Q d lx r" if "?Q d l1 r" for r
      proof -
        from that obtain d' lx' w where r: "r = (d', lx')" "scans w 0 l1 lx'" "comment_body d w d'"
          "d' > 0 \<longrightarrow> at_end lx'" by (cases r) auto
        have s: "scans (peek 0 lx # w) 0 lx lx'" using a r(2) by (rule scans.consume)
        have "take 2 (peek 0 lx # w) \<noteq> ''*/''" "take 2 (peek 0 lx # w) \<noteq> ''/*''"
          using other scans_peek [OF s] by (cases w; auto simp: numeral_2_eq_2)+
        with s r d show ?thesis
          by (auto intro!: exI [of _ "peek 0 lx # w"] comment_body.other)
      qed
      have "blockCommentLoop d lx = blockCommentLoop d l1"
        using True other sk1 by (subst blockCommentLoop.simps) auto
      moreover have "length (lx_source l1) - lx_pos l1 < length (lx_source lx) - lx_pos lx"
        using p1 by auto
      ultimately show ?thesis using ensures_weaken [OF less.hyps [of l1 d]] lift by simp
    qed
  qed
qed


lemma skipLineComment_ensures:
  assumes "Suc (lx_pos lx) < length (lx_source lx)"
  shows "ensures (\<lambda>lx'. \<exists>body. scans (peek 0 lx # peek 1 lx # body) 0 lx lx' \<and> ch_newline \<notin> set body)
    (skipLineComment lx)"
proof -
  have e: "\<not> at_end lx" using assms by (simp add: at_end_def)
  show ?thesis
    unfolding skipLineComment_def
  proof (rule ensures_bind [OF skip_ensures [OF scans.empty e]], elim conjE)
    fix lx1
    assume l1: "scans ([] @ [peek 0 lx]) 0 lx lx1" "peek 0 lx1 = peek 1 lx"
      "lx_pos lx1 = Suc (lx_pos lx)" "lx_source lx1 = lx_source lx"
    then have "\<not> at_end lx1" using assms by (simp add: at_end_def)
    then show "ensures (\<lambda>lx'. \<exists>body. scans (peek 0 lx # peek 1 lx # body) 0 lx lx' \<and> ch_newline \<notin> set body)
      (do { lx2 \<leftarrow> skip_char lx1;
            advanceWhile (\<lambda>l. \<not> at_end l \<and> peek 0 l \<noteq> ch_newline) lx2 })"
    proof (rule ensures_bind [OF skip_ensures [OF l1(1)]], elim conjE)
      fix lx2
      assume l2: "scans (([] @ [peek 0 lx]) @ [peek 0 lx1]) 0 lx lx2"
      show "ensures (\<lambda>lx'. \<exists>body. scans (peek 0 lx # peek 1 lx # body) 0 lx lx' \<and> ch_newline \<notin> set body)
        (advanceWhile (\<lambda>l. \<not> at_end l \<and> peek 0 l \<noteq> ch_newline) lx2)"
      proof (rule ensures_weaken [OF advanceWhile_ensures [OF l2, where P = "\<lambda>c. c \<noteq> ch_newline"]],
          elim exE conjE)
        fix lx3 v
        assume "scans ((([] @ [peek 0 lx]) @ [peek 0 lx1]) @ v) 0 lx lx3" "list_all (\<lambda>c. c \<noteq> ch_newline) v"
        then show "\<exists>body. scans (peek 0 lx # peek 1 lx # body) 0 lx lx3 \<and> ch_newline \<notin> set body"
          using l1(2) by (intro exI [of _ v]) (auto simp: list_all_iff)
      qed
    qed
  qed
qed

lemma skipBlockComment_ensures:
  assumes "peek 0 lx = CHR ''/''" "peek 1 lx = CHR ''*''"
  shows "ensures (\<lambda>lx'. \<exists>body d. scans (CHR ''/'' # CHR ''*'' # body) (if d > 0 then 1 else 0) lx lx'
      \<and> comment_body 1 body d \<and> (d > 0 \<longrightarrow> at_end lx')) (skipBlockComment lx)"
proof -
  have e: "\<not> at_end lx" using assms by (intro not_at_end_peek) simp
  show ?thesis
    unfolding skipBlockComment_def Let_def
  proof (rule ensures_bind [OF skip_ensures [OF scans.empty e]], elim conjE)
    fix lx1
    assume l1: "scans ([] @ [peek 0 lx]) 0 lx lx1" "peek 0 lx1 = peek 1 lx"
    then have "\<not> at_end lx1" using assms(2) by (intro not_at_end_peek) simp
    then show "ensures (\<lambda>lx'. \<exists>body d. scans (CHR ''/'' # CHR ''*'' # body) (if d > 0 then 1 else 0) lx lx'
      \<and> comment_body 1 body d \<and> (d > 0 \<longrightarrow> at_end lx'))
      (do { lx2 \<leftarrow> skip_char lx1;
            (depth, lx3) \<leftarrow> blockCommentLoop 1 lx2;
            Some (if depth > 0 then lx_error (currentLocation lx) ''unterminated block comment'' lx3
                  else lx3) })"
    proof (rule ensures_bind [OF skip_ensures [OF l1(1)]], elim conjE)
      fix lx2
      assume "scans (([] @ [peek 0 lx]) @ [peek 0 lx1]) 0 lx lx2"
      with assms l1(2) have s2: "scans ''/*'' 0 lx lx2" by simp
      show "ensures (\<lambda>lx'. \<exists>body d. scans (CHR ''/'' # CHR ''*'' # body) (if d > 0 then 1 else 0) lx lx'
        \<and> comment_body 1 body d \<and> (d > 0 \<longrightarrow> at_end lx'))
        (do { (depth, lx3) \<leftarrow> blockCommentLoop 1 lx2;
              Some (if depth > 0 then lx_error (currentLocation lx) ''unterminated block comment'' lx3
                    else lx3) })"
      proof (rule ensures_bind [OF blockCommentLoop_ensures], clarify)
        fix d lx3 w
        assume w: "scans w 0 lx2 lx3" "comment_body 1 w d" "0 < d \<longrightarrow> at_end lx3"
        have s3: "scans (CHR ''/'' # CHR ''*'' # w) 0 lx lx3" using scans_trans [OF s2 w(1)] by simp
        show "ensures (\<lambda>lx'. \<exists>body d. scans (CHR ''/'' # CHR ''*'' # body) (if d > 0 then 1 else 0) lx lx'
            \<and> comment_body 1 body d \<and> (d > 0 \<longrightarrow> at_end lx'))
          (Some (if d > 0 then lx_error (currentLocation lx) ''unterminated block comment'' lx3 else lx3))"
          using s3 scans_error [OF s3] w
          by (auto intro!: exI [of _ w] exI [of _ d] simp: at_end_def)
      qed
    qed
  qed
qed

text \<open>The state at which skipping stops: the next character starts a token, or there is none.\<close>

definition token_starts :: "Lexer \<Rightarrow> bool" where
  "token_starts lx \<longleftrightarrow> \<not> at_end lx \<and> \<not> is_space (peek 0 lx) \<and> peek 0 lx \<noteq> CHR ''#''
     \<and> \<not> (peek 0 lx = CHR ''/'' \<and> (peek 1 lx = CHR ''/'' \<or> peek 1 lx = CHR ''*''))"

definition gap_scan :: "Lexer \<Rightarrow> Lexer \<Rightarrow> bool" where
  "gap_scan lx lx' \<longleftrightarrow> (\<exists>w n. scans w n lx lx' \<and> trivia w \<and> (at_end lx' \<or> token_starts lx')
     \<and> n \<le> 1 \<and> (n = 1 \<longrightarrow> at_end lx'))"

lemma gap_scan_prepend:
  assumes "scans v 0 lx lx1" "\<And>w. trivia w \<Longrightarrow> trivia (v @ w)" "gap_scan lx1 lx'"
  shows "gap_scan lx lx'"
proof -
  from assms(3) obtain w n where w: "scans w n lx1 lx'" "trivia w" "at_end lx' \<or> token_starts lx'"
    "n \<le> 1" "n = 1 \<longrightarrow> at_end lx'" by (auto simp: gap_scan_def)
  have "scans (v @ w) n lx lx'" using scans_trans [OF assms(1) w(1)] by simp
  with w assms(2) show ?thesis unfolding gap_scan_def by blast
qed

lemma skipWhitespaceAndComments_at_end:
  "at_end lx \<Longrightarrow> skipWhitespaceAndComments lx = Some lx"
  by (simp add: skipWhitespaceAndComments.simps)

lemma skipWhitespaceAndComments_spec:
  "ensures (gap_scan lx) (skipWhitespaceAndComments lx)
   \<or> (skipWhitespaceAndComments lx = None \<and> lx_source lx \<noteq> [] \<and> last (lx_source lx) = CHR ''#'')"
proof (induction "length (lx_source lx) - lx_pos lx" arbitrary: lx rule: less_induct)
  case less
  have step: "ensures (gap_scan lx) (skipWhitespaceAndComments lx1)
      \<or> (skipWhitespaceAndComments lx1 = None \<and> lx_source lx \<noteq> [] \<and> last (lx_source lx) = CHR ''#'')"
    if "scans v 0 lx lx1" "v \<noteq> []" "\<not> at_end lx" "\<And>w. trivia w \<Longrightarrow> trivia (v @ w)" for v lx1
  proof -
    have p: "lx_source lx1 = lx_source lx" "lx_pos lx1 = lx_pos lx + length v"
      using scans_source [OF that(1)] by simp_all
    then have "length (lx_source lx1) - lx_pos lx1 < length (lx_source lx) - lx_pos lx"
      using that(2,3) by (cases v) (auto simp: at_end_def)
    from less.hyps [OF this] gap_scan_prepend [OF that(1,4)] p(1) show ?thesis
      by (auto intro: ensures_weaken)
  qed
  consider (fin) "at_end lx" | (space) "\<not> at_end lx" "is_space (peek 0 lx)"
    | (hash) "\<not> at_end lx" "peek 0 lx = CHR ''#''"
    | (line) "\<not> at_end lx" "peek 0 lx = CHR ''/''" "peek 1 lx = CHR ''/''"
    | (block) "\<not> at_end lx" "peek 0 lx = CHR ''/''" "peek 1 lx = CHR ''*''"
    | (token) "token_starts lx" by (auto simp: token_starts_def)
  then show ?case
  proof cases
    case fin
    have "gap_scan lx lx" using fin unfolding gap_scan_def
      by (intro exI [of _ "[]"] exI [of _ 0]) (auto intro: scans.empty trivia.empty)
    with fin show ?thesis by (simp add: skipWhitespaceAndComments_at_end)
  next
    case space
    then obtain l1 where a: "advance lx = Some (peek 0 lx, l1)" using advance_Some by blast
    then have "scans [peek 0 lx] 0 lx l1" by (blast intro: scans.intros)
    from step [OF this] space have
      "ensures (gap_scan lx) (skipWhitespaceAndComments l1)
        \<or> (skipWhitespaceAndComments l1 = None \<and> lx_source lx \<noteq> [] \<and> last (lx_source lx) = CHR ''#'')"
      by (auto intro: trivia.space)
    moreover have "skipWhitespaceAndComments lx = skipWhitespaceAndComments l1"
      using space a by (subst skipWhitespaceAndComments.simps)
        (auto simp: is_space_def skip_char_def Let_def)
    ultimately show ?thesis by simp
  next
    case hash
    have sk: "skipWhitespaceAndComments lx = do { l \<leftarrow> skipLineComment lx; skipWhitespaceAndComments l }"
      using hash by (subst skipWhitespaceAndComments.simps) (auto simp: Let_def)
    show ?thesis
    proof (cases "Suc (lx_pos lx) < length (lx_source lx)")
      case True
      then obtain l1 body where l: "skipLineComment lx = Some l1" "ch_newline \<notin> set body"
        "scans (CHR ''#'' # peek 1 lx # body) 0 lx l1"
        using skipLineComment_ensures [OF True] hash by (auto simp: ensures_def)
      from step [OF l(3) _ hash(1)] trivia.hash [OF l(2)] show ?thesis by (simp add: sk l(1))
    next
      case False
      with hash(1) have len: "length (lx_source lx) = Suc (lx_pos lx)" by (simp add: at_end_def)
      then have ne: "lx_source lx \<noteq> []" by auto
      have last: "last (lx_source lx) = CHR ''#''"
        using hash len by (simp add: last_conv_nth [OF ne] peek_def)
      have "skipLineComment lx = None"
        using len by (simp add: skipLineComment_def skip_char_def advance_def Let_def)
      with ne last sk show ?thesis by simp
    qed
  next
    case line
    have sk: "skipWhitespaceAndComments lx = do { l \<leftarrow> skipLineComment lx; skipWhitespaceAndComments l }"
      using line by (subst skipWhitespaceAndComments.simps) (auto simp: Let_def)
    have "Suc (lx_pos lx) < length (lx_source lx)" using line(3) by (auto simp: peek_def split: if_splits)
    then obtain l1 body where l: "skipLineComment lx = Some l1" "ch_newline \<notin> set body"
      "scans (CHR ''/'' # CHR ''/'' # body) 0 lx l1"
      using skipLineComment_ensures line by (fastforce simp: ensures_def)
    from step [OF l(3) _ line(1)] trivia.line [OF l(2)] show ?thesis by (simp add: sk l(1))
  next
    case block
    have sk: "skipWhitespaceAndComments lx = do { l \<leftarrow> skipBlockComment lx; skipWhitespaceAndComments l }"
      using block by (subst skipWhitespaceAndComments.simps) (auto simp: Let_def)
    from skipBlockComment_ensures [OF block(2,3)] obtain l1 body d where
      l: "skipBlockComment lx = Some l1" "comment_body 1 body d" "d > 0 \<longrightarrow> at_end l1"
        "scans (CHR ''/'' # CHR ''*'' # body) (if d > 0 then 1 else 0) lx l1"
      by (auto simp: ensures_def)
    show ?thesis
    proof (cases d)
      case 0
      with l have "scans (CHR ''/'' # CHR ''*'' # body) 0 lx l1" "comment_body 1 body 0" by simp_all
      from step [OF this(1) _ block(1)] trivia.block [OF this(2)] show ?thesis by (simp add: sk l(1))
    next
      case (Suc e)
      with l have "gap_scan lx l1"
        by (auto simp: gap_scan_def intro!: exI [of _ "CHR ''/'' # CHR ''*'' # body"] trivia.unterminated)
      with l Suc show ?thesis by (simp add: sk skipWhitespaceAndComments_at_end)
    qed
  next
    case token
    then have "gap_scan lx lx" unfolding gap_scan_def
      by (intro exI [of _ "[]"] exI [of _ 0]) (auto intro: scans.empty trivia.empty)
    moreover have "skipWhitespaceAndComments lx = Some lx"
      using token by (subst skipWhitespaceAndComments.simps) (auto simp: token_starts_def is_space_def Let_def)
    ultimately show ?thesis by simp
  qed
qed


section \<open>The next token\<close>

lemma advance_unconsume:
  assumes "advance lx = Some (ch, lx1)" "ch \<noteq> ch_newline"
  shows "lx1\<lparr>lx_pos := lx_pos lx1 - 1, lx_column := lx_column lx1 - 1\<rparr> = lx"
  using assms by (cases lx) (auto simp: advance_def Let_def split: if_splits)

text \<open>
  One call of \<open>nextToken\<close>: a gap of trivia, then the lexeme. An identifier or a keyword extends as
  far as identifier characters go.
\<close>

definition next_scan :: "Lexer \<Rightarrow> Token \<times> Lexer \<Rightarrow> bool" where
  "next_scan lx r \<longleftrightarrow> (\<exists>lx1 w. gap_scan lx lx1 \<and> token_scan w lx1 r
     \<and> (at_end lx1 \<longleftrightarrow> tok_kind (fst r) = TkEof) \<and> (at_end lx1 \<longleftrightarrow> w = [])
     \<and> (ident_shape w \<longrightarrow> at_end (snd r) \<or> \<not> is_ident_char (peek 0 (snd r))))"

lemma shape_Eof: "token_scan w lx r \<Longrightarrow> w \<noteq> [] \<Longrightarrow> tok_kind (fst r) \<noteq> TkEof"
  by (auto simp: token_scan_def split: prod.splits)

lemma nextToken_at_token:
  assumes "token_starts lx" "skipWhitespaceAndComments lx0 = Some lx"
  shows "ensures (\<lambda>r. \<exists>w. token_scan w lx r \<and> w \<noteq> []
      \<and> (ident_shape w \<longrightarrow> at_end (snd r) \<or> \<not> is_ident_char (peek 0 (snd r)))) (nextToken lx0)"
proof -
  have e: "\<not> at_end lx" using assms(1) by (simp add: token_starts_def)
  then obtain lx1 where a: "advance lx = Some (peek 0 lx, lx1)" using advance_Some by blast
  let ?ch = "peek 0 lx"
  let ?Q = "\<lambda>r. \<exists>w. token_scan w lx r \<and> w \<noteq> []
      \<and> (ident_shape w \<longrightarrow> at_end (snd r) \<or> \<not> is_ident_char (peek 0 (snd r)))"
  have nl: "?ch \<noteq> ch_newline" using assms(1) by (simp add: token_starts_def is_space_def)
  have un: "lx1\<lparr>lx_pos := lx_pos lx1 - 1, lx_column := lx_column lx1 - 1\<rparr> = lx"
    by (rule advance_unconsume [OF a nl])
  have s1: "scans [?ch] 0 lx lx1" using a by (blast intro: scans.intros)
  have p: "lx_pos lx = lx_pos lx1 - 1" using scans_source [OF s1] by simp
  have nxt: "nextToken lx0 =
      (if isalpha ?ch \<or> ?ch = CHR ''_'' then lexIdentifierOrKeyword lx
       else if isdigit ?ch then lexNumber lx
       else if ?ch = ch_dquote then lexString lx1
       else if ?ch = ch_quote then lexChar lx1
       else lexOperator ?ch (lx_pos lx) lx1)"
    using e by (simp add: nextToken_def assms(2) a un [unfolded One_nat_def] Let_def)
  have other: "ensures ?Q m"
    if "ensures (\<lambda>r. \<exists>w. token_scan w lx r \<and> w \<noteq> []) m" "\<not> (isalpha ?ch \<or> ?ch = CHR ''_'')" for m
  proof (rule ensures_weaken [OF that(1)], elim exE conjE)
    fix r w
    assume w: "token_scan w lx r" "w \<noteq> []"
    then have "hd w = ?ch" by (cases w) (auto simp: token_scan_def split: prod.splits dest: scans_peek)
    with w that(2) show "?Q r" by (auto simp: ident_shape_def)
  qed
  show ?thesis
  proof (cases "isalpha ?ch \<or> ?ch = CHR ''_''")
    case True
    show ?thesis
      unfolding nxt using True
      by (simp, intro ensures_weaken [OF lexIdentifierOrKeyword_ensures [OF e True]])
        (auto simp: ident_shape_def)
  next
    case False
    have hash: "?ch \<noteq> CHR ''#''" using assms(1) by (simp add: token_starts_def)
    show ?thesis
      using False lexNumber_ensures [of lx] lexString_ensures [of lx lx1] lexChar_ensures [of lx lx1] s1
        lexOperator_ensures [OF s1 refl hash] other
      by (auto simp: nxt)
  qed
qed

lemma nextToken_spec:
  "ensures (next_scan lx) (nextToken lx)
   \<or> (nextToken lx = None \<and> lx_source lx \<noteq> [] \<and> last (lx_source lx) = CHR ''#'')"
proof (cases "skipWhitespaceAndComments lx")
  case None
  with skipWhitespaceAndComments_spec [of lx] show ?thesis by (simp add: nextToken_def ensures_def)
next
  case (Some lx1)
  with skipWhitespaceAndComments_spec [of lx] have gap: "gap_scan lx lx1" by (simp add: ensures_def)
  show ?thesis
  proof (cases "at_end lx1")
    case True
    have "token_scan [] lx1 (makeToken TkEof (lx_pos lx1) lx1, lx1)"
      by (rule token_scan_make) (simp_all add: scans.empty)
    with True gap Some show ?thesis
      by (auto simp: nextToken_def next_scan_def ident_shape_def)
  next
    case False
    with gap have "token_starts lx1" by (auto simp: gap_scan_def)
    from ensures_weaken [OF nextToken_at_token [OF this Some], of "next_scan lx"] show ?thesis
      using gap False by (fastforce simp: next_scan_def dest: shape_Eof)
  qed
qed


section \<open>The token stream\<close>

lemma gap_scan_source:
  "gap_scan lx lx' \<Longrightarrow> lx_source lx' = lx_source lx \<and> lx_fileId lx' = lx_fileId lx \<and> lx_pos lx \<le> lx_pos lx'"
  by (auto simp: gap_scan_def dest: scans_source)

lemma next_scan_progress:
  assumes "next_scan lx (t, lx')"
  shows "lx_source lx' = lx_source lx" "lx_pos lx \<le> lx_pos lx'"
    and "\<not> token_isEof t \<Longrightarrow> lx_pos lx < lx_pos lx' \<and> lx_pos lx < length (lx_source lx)"
proof -
  from assms obtain lx1 w where g: "gap_scan lx lx1" "token_scan w lx1 (t, lx')"
    "at_end lx1 \<longleftrightarrow> tok_kind t = TkEof" "at_end lx1 \<longleftrightarrow> w = []"
    by (auto simp: next_scan_def)
  then have p: "lx_source lx' = lx_source lx1" "lx_pos lx' = lx_pos lx1 + length w"
    by (auto simp: token_scan_def dest: scans_source)
  with gap_scan_source [OF g(1)] show "lx_source lx' = lx_source lx" "lx_pos lx \<le> lx_pos lx'" by auto
  assume "\<not> token_isEof t"
  with g have "w \<noteq> []" "\<not> at_end lx1" by (auto simp: token_isEof_def)
  with p gap_scan_source [OF g(1)] show "lx_pos lx < lx_pos lx' \<and> lx_pos lx < length (lx_source lx)"
    by (cases w) (auto simp: at_end_def)
qed

lemma nextToken_scans: "nextToken lx = Some (t, lx') \<Longrightarrow> next_scan lx (t, lx')"
  using nextToken_spec [of lx] by (simp add: ensures_def)

lemma nextToken_progress:
  assumes "nextToken lx = Some (t, lx')"
  shows "lx_source lx' = lx_source lx" "lx_pos lx \<le> lx_pos lx'"
    and "\<not> token_isEof t \<Longrightarrow> lx_pos lx < lx_pos lx' \<and> lx_pos lx < length (lx_source lx)"
  using next_scan_progress [OF nextToken_scans [OF assms]] by auto

lemma nextToken_decreases:
  "nextToken lx = Some (t, lx') \<Longrightarrow> \<not> token_isEof t \<Longrightarrow>
    length (lx_source lx') - lx_pos lx' < length (lx_source lx) - lx_pos lx"
  using nextToken_progress [of lx t lx'] by auto

text \<open>
  The loop of \<open>Lexer::tokenize\<close>. It stands here because its termination rests on the progress of
  \<open>nextToken\<close>.
\<close>

function tokenize_loop :: "Token list \<Rightarrow> Lexer \<Rightarrow> (Token list \<times> Lexer) option" where
  "tokenize_loop tokens lx =
     do { (tok, lx1) \<leftarrow> nextToken lx;
          (let tokens1 = tokens @ [tok] in
           if token_isEof tok then Some (tokens1, lx1) else tokenize_loop tokens1 lx1) }"
  by pat_completeness auto
termination
  by (relation "measure (\<lambda>(tokens, lx). length (lx_source lx) - lx_pos lx)")
    (auto dest: nextToken_decreases)

declare tokenize_loop.simps [simp del]

definition tokenize :: "Lexer \<Rightarrow> (Token list \<times> Lexer) option" where
  "tokenize lx = tokenize_loop [] lx"

inductive lexes :: "Lexer \<Rightarrow> Token list \<Rightarrow> Lexer \<Rightarrow> bool" where
  eof: "next_scan lx (t, lx') \<Longrightarrow> token_isEof t \<Longrightarrow> lexes lx [t] lx'"
| more: "next_scan lx (t, lx1) \<Longrightarrow> \<not> token_isEof t \<Longrightarrow> lexes lx1 ts lx' \<Longrightarrow> lexes lx (t # ts) lx'"

lemma tokenize_loop_spec:
  "(\<exists>ts lx'. tokenize_loop acc lx = Some (acc @ ts, lx') \<and> lexes lx ts lx')
   \<or> (tokenize_loop acc lx = None \<and> lx_source lx \<noteq> [] \<and> last (lx_source lx) = CHR ''#'')"
proof (induction acc lx rule: tokenize_loop.induct)
  case (1 acc lx)
  show ?case
  proof (cases "nextToken lx")
    case None
    with nextToken_spec [of lx] show ?thesis
      by (subst (1 2) tokenize_loop.simps) (simp add: ensures_def)
  next
    case (Some r)
    obtain t lx1 where r: "r = (t, lx1)" by fastforce
    from Some r nextToken_spec [of lx] have ns: "next_scan lx (t, lx1)" by (simp add: ensures_def)
    have src: "lx_source lx1 = lx_source lx" using nextToken_progress Some r by blast
    show ?thesis
    proof (cases "token_isEof t")
      case True
      then have "tokenize_loop acc lx = Some (acc @ [t], lx1)"
        using Some r by (subst tokenize_loop.simps) simp
      with lexes.eof [OF ns True] show ?thesis by blast
    next
      case False
      then have "tokenize_loop acc lx = tokenize_loop (acc @ [t]) lx1"
        using Some r by (subst tokenize_loop.simps) simp
      moreover have "(\<exists>ts lx'. tokenize_loop (acc @ [t]) lx1 = Some ((acc @ [t]) @ ts, lx') \<and> lexes lx1 ts lx')
          \<or> (tokenize_loop (acc @ [t]) lx1 = None \<and> lx_source lx1 \<noteq> [] \<and> last (lx_source lx1) = CHR ''#'')"
        using "1.IH" [OF Some r [symmetric] refl False] .
      ultimately show ?thesis using src lexes.more [OF ns False] by fastforce
    qed
  qed
qed

lemma tokenize_lexes: "tokenize lx = Some (ts, lx') \<Longrightarrow> lexes lx ts lx'"
  using tokenize_loop_spec [of "[]" lx] by (auto simp: tokenize_def)

lemma lexes_last_eof:
  "lexes lx ts lx' \<Longrightarrow> \<exists>us t. ts = us @ [t] \<and> token_isEof t \<and> list_all (\<lambda>u. \<not> token_isEof u) us"
  by (induction rule: lexes.induct) (auto intro: exI [of _ "_ # _"])

lemma lexes_length:
  "lexes lx ts lx' \<Longrightarrow> length ts \<le> length (lx_source lx) - lx_pos lx + 1"
proof (induction rule: lexes.induct)
  case (more lx t lx1 ts lx')
  with next_scan_progress [OF more(1)] show ?case by auto
qed simp

text \<open>
  C14. The lexer always returns: if the source does not end in a \<open>#\<close>, \<open>tokenize\<close> neither runs forever
  nor trips the assertion of \<open>advance\<close>, and the stream ends with an \<open>Eof\<close> token and has no other.
\<close>

theorem tokenize_total:
  assumes "lx_source lx = [] \<or> last (lx_source lx) \<noteq> CHR ''#''"
  shows "\<exists>us t lx'. tokenize lx = Some (us @ [t], lx') \<and> token_isEof t
    \<and> list_all (\<lambda>u. \<not> token_isEof u) us"
  using tokenize_loop_spec [of "[]" lx] assms lexes_last_eof by (fastforce simp: tokenize_def)

theorem tokenize_total_witness:
  "\<exists>us t lx'. tokenize (new_lexer_string ''let x = 1'' ''a.v'') = Some (us @ [t], lx') \<and> token_isEof t"
  using tokenize_total [of "new_lexer_string ''let x = 1'' ''a.v''"]
  by (auto simp: new_lexer_string_def new_lexer_def addSource_def sourceText_def new_context_def Let_def)


section \<open>Positions\<close>

definition advance_position :: "char \<Rightarrow> u32 \<times> u32 \<Rightarrow> u32 \<times> u32" where
  "advance_position c p = (if c = ch_newline then (fst p + 1, 1) else (fst p, snd p + 1))"

text \<open>The line and column of an offset of the text: what an editor shows there.\<close>

definition location_at :: "FileID \<Rightarrow> string \<Rightarrow> nat \<Rightarrow> SourceLocation" where
  "location_at file src pos =
     (let p = fold advance_position (take pos src) (1, 1)
      in \<lparr>loc_file = file, loc_line = fst p, loc_column = snd p\<rparr>)"

definition lexer_ok :: "Lexer \<Rightarrow> bool" where
  "lexer_ok lx \<longleftrightarrow> lx_pos lx \<le> length (lx_source lx)
     \<and> currentLocation lx = location_at (lx_fileId lx) (lx_source lx) (lx_pos lx)"

lemma lexer_ok_new: "lexer_ok (new_lexer ctx f)"
  by (simp add: lexer_ok_def new_lexer_def currentLocation_def location_at_def)

lemma lexer_ok_error: "lexer_ok lx \<Longrightarrow> lexer_ok (lx_error loc msg lx)"
  by (simp add: lexer_ok_def currentLocation_def)

lemma lexer_ok_advance: "advance lx = Some (c, lx') \<Longrightarrow> lexer_ok lx \<Longrightarrow> lexer_ok lx'"
  by (auto simp: lexer_ok_def advance_def currentLocation_def location_at_def Let_def
      take_Suc_conv_app_nth advance_position_def split: if_splits)

lemma lexer_ok_scans: "scans w n lx lx' \<Longrightarrow> lexer_ok lx \<Longrightarrow> lexer_ok lx'"
  by (induction rule: scans.induct) (auto intro: lexer_ok_advance lexer_ok_error)

lemma lexer_ok_gap: "gap_scan lx lx' \<Longrightarrow> lexer_ok lx \<Longrightarrow> lexer_ok lx'"
  by (auto simp: gap_scan_def intro: lexer_ok_scans)

lemma scans_same_line:
  "scans w n lx lx' \<Longrightarrow> ch_newline \<notin> set w \<Longrightarrow>
    lx_line lx' = lx_line lx \<and> lx_column lx' = lx_column lx + of_nat (length w)"
proof (induction rule: scans.induct)
  case (consume lx c lx1 w n lx2)
  then show ?case by (auto simp: advance_def Let_def algebra_simps split: if_splits)
qed simp_all

lemma makeToken_location:
  assumes "scans w n lx lx'" "ch_newline \<notin> set w" "lexer_ok lx"
  shows "tok_location (makeToken k (lx_pos lx) lx') = location_at (lx_fileId lx) (lx_source lx) (lx_pos lx)"
  using scans_same_line [OF assms(1,2)] scans_source [OF assms(1)] assms(3)
  by (simp add: makeToken_def lexer_ok_def currentLocation_def)

text \<open>
  A decomposition of a text from an offset on into gaps and tokens. A token lies where the text has
  its lexeme; unless it is an error token or contains a newline, its location is that of its first
  character.
\<close>

fun decomposes :: "FileID \<Rightarrow> string \<Rightarrow> nat \<Rightarrow> (string \<times> Token) list \<Rightarrow> bool" where
  "decomposes file src pos [] \<longleftrightarrow> pos = length src"
| "decomposes file src pos ((gap, t) # rest) \<longleftrightarrow>
     trivia gap \<and> substr src pos (length gap) = gap
     \<and> substr src (pos + length gap) (length (tok_lexeme t)) = tok_lexeme t
     \<and> (tok_kind t \<noteq> TkError \<longrightarrow> ch_newline \<notin> set (tok_lexeme t) \<longrightarrow>
          tok_location t = location_at file src (pos + length gap))
     \<and> decomposes file src (pos + length gap + length (tok_lexeme t)) rest"

lemma scans_substr: "scans w n lx lx' \<Longrightarrow> substr (lx_source lx) (lx_pos lx) (length w) = w"
  by (simp add: substr_def scans_text)

lemma next_scan_decomposes:
  assumes "next_scan lx (t, lx')" "lexer_ok lx"
  shows "\<exists>gap. lexer_ok lx' \<and> lx_source lx' = lx_source lx \<and> lx_fileId lx' = lx_fileId lx
    \<and> lx_pos lx' = lx_pos lx + length gap + length (tok_lexeme t)
    \<and> (token_isEof t \<longrightarrow> lx_pos lx' = length (lx_source lx))
    \<and> (\<forall>rest. decomposes (lx_fileId lx) (lx_source lx) (lx_pos lx') rest \<longrightarrow>
         decomposes (lx_fileId lx) (lx_source lx) (lx_pos lx) ((gap, t) # rest))"
proof -
  from assms(1) obtain lx1 w where n: "gap_scan lx lx1" "token_scan w lx1 (t, lx')"
    "at_end lx1 \<longleftrightarrow> tok_kind t = TkEof" "at_end lx1 \<longleftrightarrow> w = []" by (auto simp: next_scan_def)
  from n(1) obtain gap m where g: "scans gap m lx lx1" "trivia gap" by (auto simp: gap_scan_def)
  from n(2) obtain e where t: "scans w e lx1 lx'" "tok_lexeme t = w"
    "t = makeToken (tok_kind t) (lx_pos lx1) lx' \<or> tok_kind t = TkError"
    by (auto simp: token_scan_def)
  have ok1: "lexer_ok lx1" using g(1) assms(2) by (rule lexer_ok_scans)
  then have ok: "lexer_ok lx'" using t(1) by (blast intro: lexer_ok_scans)
  note s = scans_source [OF g(1)] scans_source [OF t(1)]
  have "tok_location t = location_at (lx_fileId lx) (lx_source lx) (lx_pos lx1)"
    if "tok_kind t \<noteq> TkError" "ch_newline \<notin> set (tok_lexeme t)"
    using makeToken_location [OF t(1) _ ok1] t(2,3) that s by metis
  moreover have "token_isEof t \<longrightarrow> lx_pos lx' = length (lx_source lx)"
    using n(3,4) s ok by (auto simp: token_isEof_def at_end_def lexer_ok_def)
  ultimately show ?thesis
    using g(2) scans_substr [OF g(1)] scans_substr [OF t(1)] t(2) s ok
    by (intro exI [of _ gap]) auto
qed

lemma lexes_decomposes:
  assumes "lexes lx ts lx'" "lexer_ok lx"
  shows "\<exists>gaps. length gaps = length ts
    \<and> decomposes (lx_fileId lx) (lx_source lx) (lx_pos lx) (zip gaps ts)"
  using assms
proof (induction rule: lexes.induct)
  case (eof lx t lx')
  from next_scan_decomposes [OF eof(1) eof(3)] eof(2) obtain gap where
    "decomposes (lx_fileId lx) (lx_source lx) (lx_pos lx') [] \<longrightarrow>
     decomposes (lx_fileId lx) (lx_source lx) (lx_pos lx) [(gap, t)]"
    "lx_pos lx' = length (lx_source lx)" by blast
  then show ?case by (intro exI [of _ "[gap]"]) simp
next
  case (more lx t lx1 ts lx')
  from next_scan_decomposes [OF more(1) more(5)] obtain gap where
    g: "lexer_ok lx1" "lx_source lx1 = lx_source lx" "lx_fileId lx1 = lx_fileId lx"
      "\<And>rest. decomposes (lx_fileId lx) (lx_source lx) (lx_pos lx1) rest \<Longrightarrow>
       decomposes (lx_fileId lx) (lx_source lx) (lx_pos lx) ((gap, t) # rest)" by blast
  from more.IH [OF g(1)] obtain gaps where
    "length gaps = length ts" "decomposes (lx_fileId lx) (lx_source lx) (lx_pos lx1) (zip gaps ts)"
    by (auto simp: g)
  then show ?case using g(4) by (intro exI [of _ "gap # gaps"]) simp
qed




section \<open>Lexemes and errors\<close>

text \<open>
  C16. Every token of the stream has a lexeme of the shape of its kind: an identifier is not in the
  keyword table, a keyword is the word the table maps to its kind, an operator or delimiter is the
  spelling the name table gives, a literal has the form of its kind; \<open>Newline\<close> and \<open>Hash\<close> tokens are
  never produced, and only \<open>Eof\<close> has an empty lexeme.
\<close>

theorem tokenize_lexeme_shapes:
  assumes "tokenize lx = Some (ts, lx')" "t \<in> set ts"
  shows "lexeme_shape (tok_kind t) (tok_lexeme t)"
proof -
  have "lexes lx ts lx'" using assms(1) by (rule tokenize_lexes)
  then have "\<forall>t \<in> set ts. lexeme_shape (tok_kind t) (tok_lexeme t)"
    by (induction rule: lexes.induct) (auto simp: next_scan_def token_scan_def)
  with assms(2) show ?thesis by blast
qed

theorem tokenize_lexeme_shapes_witness:
  "\<exists>ts lx'. tokenize (new_lexer_string ''x1 $'' ''a.v'') = Some (ts, lx')
    \<and> map tok_kind ts = [TkIdentifier, TkError, TkEof]
    \<and> (\<forall>t \<in> set ts. lexeme_shape (tok_kind t) (tok_lexeme t))"
proof -
  have "map_option (map tok_kind \<circ> fst) (tokenize (new_lexer_string ''x1 $'' ''a.v''))
      = Some [TkIdentifier, TkError, TkEof]" by code_simp
  then obtain ts lx' where t: "tokenize (new_lexer_string ''x1 $'' ''a.v'') = Some (ts, lx')"
    "map tok_kind ts = [TkIdentifier, TkError, TkEof]" by auto
  from tokenize_lexeme_shapes [OF t(1)] have "\<forall>t \<in> set ts. lexeme_shape (tok_kind t) (tok_lexeme t)" by simp
  with t show ?thesis by (intro exI [of _ ts] exI [of _ lx'] conjI)
qed

lemma isKeyword_kind: "token_isKeyword t \<Longrightarrow> \<exists>x. tok_kind t = Keyword x"
proof -
  have "list_all (\<lambda>k. KwFn \<le> k \<and> k \<le> KwArray \<longrightarrow> (\<exists>x. k = Keyword x)) all_token_kinds"
    by (simp add: all_token_kinds_def less_eq_TokenKind_def)
  then have "\<forall>k. KwFn \<le> k \<and> k \<le> KwArray \<longrightarrow> (\<exists>x. k = Keyword x)" by (simp only: TokenKind_all)
  then show "token_isKeyword t \<Longrightarrow> ?thesis" by (simp add: token_isKeyword_def)
qed

text \<open>
  Maximal munch: a word is never cut short. When \<open>nextToken\<close> returns an identifier or a keyword,
  the next character of the source is not one an identifier may contain.
\<close>

theorem nextToken_maximal_munch:
  assumes "nextToken lx = Some (t, lx')"
    and "tok_kind t = TkIdentifier \<or> token_isKeyword t"
  shows "at_end lx' \<or> \<not> is_ident_char (peek 0 lx')"
proof -
  from assms(1) nextToken_spec [of lx] obtain lx1 w where n: "token_scan w lx1 (t, lx')"
    "ident_shape w \<longrightarrow> at_end lx' \<or> \<not> is_ident_char (peek 0 lx')"
    by (auto simp: ensures_def next_scan_def)
  from assms(2) have "tok_kind t = TkIdentifier \<or> (\<exists>k. tok_kind t = Keyword k)"
    using isKeyword_kind by blast
  with n(1) have "ident_shape w" by (auto simp: token_scan_def)
  with n(2) show ?thesis by blast
qed

theorem nextToken_maximal_munch_witness:
  "\<exists>t lx'. nextToken (new_lexer_string ''letter = 1'' ''a.v'') = Some (t, lx')
    \<and> tok_lexeme t = ''letter'' \<and> (at_end lx' \<or> \<not> is_ident_char (peek 0 lx'))"
proof -
  have "map_option (\<lambda>r. (tok_kind (fst r), tok_lexeme (fst r))) (nextToken (new_lexer_string ''letter = 1'' ''a.v''))
      = Some (TkIdentifier, ''letter'')" by code_simp
  then obtain t lx' where t: "nextToken (new_lexer_string ''letter = 1'' ''a.v'') = Some (t, lx')"
    "tok_kind t = TkIdentifier" "tok_lexeme t = ''letter''" by auto
  with nextToken_maximal_munch [OF t(1)] show ?thesis by blast
qed

definition lexer_diagnostics :: "Lexer \<Rightarrow> Diagnostic list" where
  "lexer_diagnostics lx = eng_diagnostics (ctx_diag (lx_ctx lx))"

lemma scans_diagnostics:
  "scans w n lx lx' \<Longrightarrow> \<exists>ds. lexer_diagnostics lx' = lexer_diagnostics lx @ ds \<and> length ds = n
    \<and> (\<forall>d \<in> set ds. diag_level d = LevelError)"
proof (induction rule: scans.induct)
  case (consume lx c lx1 w n lx2)
  then show ?case by (auto simp: lexer_diagnostics_def advance_def Let_def split: if_splits)
next
  case (report w n loc msg lx lx2)
  then obtain ds where "lexer_diagnostics lx2 = lexer_diagnostics (lx_error loc msg lx) @ ds"
    "length ds = n" "\<forall>d \<in> set ds. diag_level d = LevelError" by blast
  then show ?case
    by (intro exI [of _ "make_diagnostic LevelError loc msg # ds"])
      (simp add: lexer_diagnostics_def report_error_def make_diagnostic_def)
qed simp

lemma lexes_scans:
  assumes "lexes lx ts lx'"
  shows "\<exists>w n k. scans w n lx lx' \<and> n = length (filter token_isError ts) + k \<and> k \<le> 1"
  using assms
proof (induction rule: lexes.induct)
  case (eof lx t lx')
  then obtain lx1 w v m where a: "scans v m lx lx1" "m \<le> 1"
    "scans w (if tok_kind t = TkError then 1 else 0) lx1 lx'"
    by (auto simp: next_scan_def gap_scan_def token_scan_def)
  from scans_trans [OF a(1,3)] eof(2) have "scans (v @ w) m lx lx'" by (simp add: token_isEof_def)
  with eof(2) a(2) show ?case
    by (intro exI [of _ "v @ w"] exI [of _ m]) (simp add: token_isEof_def token_isError_def)
next
  case (more lx t lx1 ts lx')
  then obtain lx0 w v m where a: "scans v m lx lx0" "m \<le> 1" "m = 1 \<longrightarrow> at_end lx0"
    "scans w (if tok_kind t = TkError then 1 else 0) lx0 lx1" "\<not> at_end lx0"
    by (auto simp: next_scan_def gap_scan_def token_scan_def token_isEof_def)
  then have "m = 0" by linarith
  with scans_trans [OF a(1,4)] have s: "scans (v @ w) (if tok_kind t = TkError then 1 else 0) lx lx1" by simp
  from more.IH obtain u k where u: "scans u (length (filter token_isError ts) + k) lx1 lx'" "k \<le> 1" by blast
  have "scans ((v @ w) @ u) (length (filter token_isError (t # ts)) + k) lx lx'"
    using scans_trans [OF s u(1)] by (cases "tok_kind t = TkError") (simp_all add: token_isError_def)
  with u(2) show ?case by blast
qed

lemma scans_reported:
  "scans w n lx lx' \<Longrightarrow> reported emit (ctx_diag (lx_ctx lx)) (ctx_diag (lx_ctx lx'))"
proof (induction rule: scans.induct)
  case (consume lx c lx1 w n lx2)
  then show ?case by (auto simp: advance_def Let_def split: if_splits)
next
  case (report w n loc msg lx lx2)
  have "reported emit (ctx_diag (lx_ctx lx)) (ctx_diag (lx_ctx (lx_error loc msg lx)))"
    by (simp add: lx_error_def mono_intros)
  with report show ?case by (blast intro: reported_trans)
qed (simp add: reported_refl)

text \<open>
  C28. Error tokens and diagnostics correspond: \<open>tokenize\<close> only appends diagnostics, all of level
  error, one for each error token of the stream and at most one more (the comment left open at the
  end of the input).
\<close>

theorem tokenize_errors_reported:
  assumes "tokenize lx = Some (ts, lx')"
  shows "\<exists>ds. lexer_diagnostics lx' = lexer_diagnostics lx @ ds
    \<and> list_all (\<lambda>d. diag_level d = LevelError) ds
    \<and> length (filter token_isError ts) \<le> length ds
    \<and> length ds \<le> length (filter token_isError ts) + 1"
proof -
  from lexes_scans [OF tokenize_lexes [OF assms]] obtain w n k where
    "scans w n lx lx'" "n = length (filter token_isError ts) + k" "k \<le> 1" by blast
  with scans_diagnostics [of w n lx lx'] show ?thesis by (auto simp: list_all_iff)
qed

theorem tokenize_errors_reported_witness:
  "\<exists>ts lx' ds. tokenize (new_lexer_string ''x1 $'' ''a.v'') = Some (ts, lx')
    \<and> lexer_diagnostics lx' = lexer_diagnostics (new_lexer_string ''x1 $'' ''a.v'') @ ds \<and> ds \<noteq> []"
proof -
  have "map_option (length \<circ> filter token_isError \<circ> fst) (tokenize (new_lexer_string ''x1 $'' ''a.v''))
      = Some 1" by code_simp
  then obtain ts lx' where t: "tokenize (new_lexer_string ''x1 $'' ''a.v'') = Some (ts, lx')"
    "length (filter token_isError ts) = 1" by auto
  from tokenize_errors_reported [OF t(1)] t show ?thesis by fastforce
qed






end
