(* ===== verification/Vcc_Lexer_Roundtrip.thy ===== *)
theory Vcc_Lexer_Roundtrip
  imports Vcc_Lexer_Props
begin

text \<open>
  The converse of the lexeme shapes of Vcc_Lexer_Props: a text of the shape of some kind of token, with white space
  or the end of the source after it, is scanned as one token of that kind. So a list of tokens that is written out with
  white space between them is read back as it was. The lemmas follow the methods bottom up, on \<open>unread\<close>,
  the text from the position on.
\<close>


section \<open>The text that is left\<close>

definition unread :: "Lexer \<Rightarrow> string" where
  "unread lx = drop (lx_pos lx) (lx_source lx)"

definition eats :: "string \<Rightarrow> Lexer \<Rightarrow> Lexer \<Rightarrow> bool" where
  "eats w lx lx' \<longleftrightarrow> lx_ctx lx' = lx_ctx lx \<and> lx_source lx' = lx_source lx \<and> lx_pos lx' = lx_pos lx + length w \<and> unread lx = w @ unread lx'"

lemma eats_Nil [simp]: "eats [] lx lx"
  by (simp add: eats_def)

lemma eats_trans: "eats v lx l1 \<Longrightarrow> eats w l1 l2 \<Longrightarrow> eats (v @ w) lx l2"
  by (simp add: eats_def)

lemma eats_unread: "eats w lx lx' \<Longrightarrow> unread lx = w @ s \<Longrightarrow> unread lx' = s"
  by (simp add: eats_def)

lemma at_end_unread: "at_end lx \<longleftrightarrow> unread lx = []"
  by (simp add: at_end_def unread_def)

lemma peek_unread: "unread lx = c # s \<Longrightarrow> peek 0 lx = c" "unread lx = c # d # s \<Longrightarrow> peek 1 lx = d"
  "unread lx = [] \<Longrightarrow> peek k lx = ch_nul" "unread lx = [c] \<Longrightarrow> peek 1 lx = ch_nul"
proof -
  have nth: "lx_pos lx + k < length (lx_source lx)" "lx_source lx ! (lx_pos lx + k) = unread lx ! k" if "k < length (unread lx)" for k
    using that by (auto simp: unread_def)
  show "unread lx = c # s \<Longrightarrow> peek 0 lx = c" "unread lx = c # d # s \<Longrightarrow> peek 1 lx = d"
    using nth [of 0] nth [of 1] by (simp_all add: peek_def)
  have len: "length (unread lx) = length (lx_source lx) - lx_pos lx" by (simp add: unread_def)
  show "peek k lx = ch_nul" if "unread lx = []" using len that by (simp add: peek_def)
  show "peek 1 lx = ch_nul" if "unread lx = [c]" using len that by (simp add: peek_def)
qed

lemma advance_unread:
  assumes "unread lx = c # s"
  shows "\<exists>l. advance lx = Some (c, l) \<and> eats [c] lx l \<and> unread l = s"
proof -
  have "\<not> at_end lx" using assms by (simp add: at_end_unread)
  then obtain l where l: "advance lx = Some (c, l)" using advance_Some peek_unread(1) [OF assms] by metis
  then have "lx_source l = lx_source lx" "lx_pos l = Suc (lx_pos lx)" "lx_ctx l = lx_ctx lx"
    by (auto simp: advance_def Let_def split: if_splits)
  moreover from this have "unread l = s" using assms by (auto simp: unread_def drop_Suc tl_drop [symmetric])
  ultimately show ?thesis using l assms by (simp add: eats_def)
qed

lemma skip_unread:
  assumes "unread lx = c # s"
  shows "\<exists>l. skip_char lx = Some l \<and> eats [c] lx l \<and> unread l = s"
  using advance_unread [OF assms] by (auto simp: skip_char_def)

lemma while_unread:
  assumes "unread lx = w @ s" "list_all P w" "s = [] \<or> \<not> P (hd s)"
  shows "\<exists>l. advanceWhile (\<lambda>l. \<not> at_end l \<and> P (peek 0 l)) lx = Some l \<and> eats w lx l \<and> unread l = s"
  using assms(1,2)
proof (induction w arbitrary: lx)
  case Nil
  then have "\<not> (\<not> at_end lx \<and> P (peek 0 lx))"
    using assms(3) by (cases s) (auto simp: at_end_unread peek_unread)
  then have "advanceWhile (\<lambda>l. \<not> at_end l \<and> P (peek 0 l)) lx = Some lx" by (subst advanceWhile.simps) (simp only: if_False)
  then show ?case using Nil by simp
next
  case (Cons c w)
  from skip_unread [of lx c "w @ s"] Cons.prems obtain l where l: "skip_char lx = Some l" "eats [c] lx l" "unread l = w @ s" by auto
  from Cons.IH [OF l(3)] Cons.prems obtain l' where l': "advanceWhile (\<lambda>l. \<not> at_end l \<and> P (peek 0 l)) l = Some l'"
      "eats w l l'" "unread l' = s" by auto
  have "\<not> at_end lx \<and> P (peek 0 lx)" using Cons.prems by (simp add: at_end_unread peek_unread)
  then show ?case using l l' eats_trans [OF l(2) l'(2)] by (subst advanceWhile.simps) simp
qed

lemma match_unread: "unread lx = c # s \<Longrightarrow> \<exists>l. match_char c lx = Some (True, l) \<and> eats [c] lx l \<and> unread l = s"
  using skip_unread [of lx c s] at_end_unread [of lx] peek_unread(1) [of lx c s]
  by (auto simp: match_char_def at_end_def peek_def)

lemma mismatch_unread: "unread lx = [] \<or> hd (unread lx) \<noteq> c \<Longrightarrow> match_char c lx = Some (False, lx)"
  using at_end_unread [of lx] peek_unread(1) [of lx]
  by (cases "unread lx") (auto simp: match_char_def at_end_def peek_def)


section \<open>One token\<close>

definition boundary :: "string \<Rightarrow> bool" where
  "boundary s \<longleftrightarrow> s = [] \<or> is_space (hd s)"

lemma space_not:
  assumes "is_space c"
  shows "\<not> is_ident_char c" "\<not> isdigit c" "\<not> isxdigit c" "\<not> (48 \<le> ch_code c \<and> ch_code c \<le> 55)"
    "c \<notin> set ''.eExXbBoO+-*/%=&|<>!:01''"
proof -
  have "\<forall>c \<in> set [CHR '' '', ch_tab, ch_return, ch_newline]. \<not> is_ident_char c \<and> \<not> isdigit c \<and> \<not> isxdigit c
    \<and> \<not> (48 \<le> ch_code c \<and> ch_code c \<le> 55) \<and> c \<notin> set ''.eExXbBoO+-*/%=&|<>!:01''" by code_simp
  then show "\<not> is_ident_char c" "\<not> isdigit c" "\<not> isxdigit c" "\<not> (48 \<le> ch_code c \<and> ch_code c \<le> 55)"
    "c \<notin> set ''.eExXbBoO+-*/%=&|<>!:01''"
    using assms by (auto simp: is_space_def)
qed

definition gives :: "TokenKind \<Rightarrow> string \<Rightarrow> Lexer \<Rightarrow> (Token \<times> Lexer) option \<Rightarrow> bool" where
  "gives k w lx r \<longleftrightarrow> (\<exists>t lx'. r = Some (t, lx') \<and> tok_kind t = k \<and> tok_lexeme t = w \<and> eats w lx lx')"

lemma gives_make: "eats w lx l \<Longrightarrow> gives k w lx (Some (makeToken k (lx_pos lx) l, l))"
  by (auto simp: gives_def eats_def makeToken_def substr_def unread_def)

lemma gives_after: "gives k w lx r \<Longrightarrow> r = r' \<Longrightarrow> gives k w lx r'"
  by simp

lemma boundary_not: "boundary s \<Longrightarrow> (\<And>c. is_space c \<Longrightarrow> \<not> P c) \<Longrightarrow> s = [] \<or> \<not> P (hd s)"
  by (auto simp: boundary_def)

lemma ident_gives:
  assumes "unread lx = w @ s" "list_all is_ident_char w" "boundary s"
  shows "gives (case keyword_table w of Some k \<Rightarrow> k | None \<Rightarrow> TkIdentifier) w lx (lexIdentifierOrKeyword lx)"
proof -
  obtain l where l: "advanceWhile (\<lambda>l. \<not> at_end l \<and> is_ident_char (peek 0 l)) lx = Some l" "eats w lx l"
    using while_unread [OF assms(1,2)] boundary_not [OF assms(3)] space_not(1) by blast
  have "substr (lx_source l) (lx_pos lx) (lx_pos l - lx_pos lx) = w" using l(2) by (auto simp: eats_def substr_def unread_def)
  then show ?thesis using l gives_make [OF l(2)]
    by (auto simp: lexIdentifierOrKeyword_def Let_def split: option.split)
qed

lemma digits_unread:
  assumes "unread lx = w @ s" "list_all isdigit w" "s = [] \<or> \<not> isdigit (hd s)"
  shows "\<exists>l. advanceDigits lx = Some l \<and> eats w lx l \<and> unread l = s"
  using while_unread [OF assms] by (simp add: advanceDigits_def)

lemma peek_not: "s = [] \<or> hd s \<noteq> c \<Longrightarrow> unread lx = s \<Longrightarrow> c \<noteq> ch_nul \<Longrightarrow> peek 0 lx \<noteq> c"
  by (cases s) (auto simp: peek_unread)

lemma boundary_peek:
  assumes "boundary s" "unread lx = s" "c \<in> set ''.eExXbBoO+-*/%=&|<>!:01''"
  shows "peek 0 lx \<noteq> c"
proof -
  have "\<forall>c \<in> set ''.eExXbBoO+-*/%=&|<>!:01''. c \<noteq> ch_nul" by code_simp
  with assms(3) have "c \<noteq> ch_nul" by blast
  moreover have "s = [] \<or> hd s \<noteq> c" using assms(1,3) space_not(5) [of "hd s"] by (auto simp: boundary_def)
  ultimately show ?thesis using peek_not assms(2) by blast
qed

text \<open>The fraction and the exponent of a decimal number, each with what follows it.\<close>

lemma fraction_unread:
  assumes "unread lx = f @ s" "f = [] \<or> fraction_shape f" "s = [] \<or> \<not> isdigit (hd s) \<and> hd s \<noteq> CHR ''.''"
  shows "\<exists>l. (if peek 0 lx = CHR ''.'' \<and> isdigit (peek 1 lx)
             then do { l \<leftarrow> skip_char lx; l \<leftarrow> advanceDigits l; Some (True, l) }
             else Some (False, lx)) = Some (f \<noteq> [], l) \<and> eats f lx l \<and> unread l = s"
proof (cases "f = []")
  case True
  then have "peek 0 lx \<noteq> CHR ''.''" using peek_not [of s "CHR ''.''" lx] assms by auto
  then show ?thesis using True assms(1) by simp
next
  case False
  then obtain d ds where f: "f = CHR ''.'' # d # ds" "list_all isdigit (d # ds)"
    using assms(2) by (auto simp: fraction_shape_def neq_Nil_conv)
  obtain l where l: "skip_char lx = Some l" "eats [CHR ''.''] lx l" "unread l = (d # ds) @ s"
    using skip_unread [of lx "CHR ''.''" "d # ds @ s"] assms(1) f(1) by auto
  from digits_unread [OF l(3) f(2)] assms(3) obtain l' where l': "advanceDigits l = Some l'" "eats (d # ds) l l'" "unread l' = s"
    by auto
  have "peek 0 lx = CHR ''.''" "isdigit (peek 1 lx)"
    using peek_unread(1,2) [of lx] assms(1) f by auto
  then show ?thesis using l(1) l' eats_trans [OF l(2) l'(2)] f(1) by simp
qed

lemma exponent_unread:
  assumes "unread lx = e @ s" "e = [] \<or> exponent_shape e" "boundary s"
  shows "\<exists>l. (if peek 0 lx = CHR ''e'' \<or> peek 0 lx = CHR ''E''
             then do { l \<leftarrow> skip_char lx;
                       l \<leftarrow> (if peek 0 l = CHR ''+'' \<or> peek 0 l = CHR ''-'' then skip_char l else Some l);
                       l \<leftarrow> advanceDigits l;
                       Some (True, l) }
             else Some (b, lx)) = Some (b \<or> e \<noteq> [], l) \<and> eats e lx l"
proof (cases "e = []")
  case True
  then have "peek 0 lx \<noteq> CHR ''e'' \<and> peek 0 lx \<noteq> CHR ''E''" using boundary_peek [OF assms(3), of lx] assms(1) by auto
  then show ?thesis using True by simp
next
  case False
  then obtain x sign ds where e: "e = x # sign @ ds" "x = CHR ''e'' \<or> x = CHR ''E''" "sign = [] \<or> sign = ''+'' \<or> sign = ''-''"
      "list_all isdigit ds"
    using assms(2) by (auto simp: exponent_shape_def)
  obtain l where l: "skip_char lx = Some l" "eats [x] lx l" "unread l = sign @ ds @ s"
    using skip_unread [of lx x "sign @ ds @ s"] assms(1) e(1) by auto
  have "\<exists>l2. (if peek 0 l = CHR ''+'' \<or> peek 0 l = CHR ''-'' then skip_char l else Some l) = Some l2 \<and> eats sign l l2 \<and> unread l2 = ds @ s"
  proof (cases "sign = []")
    case True
    have "peek 0 l \<noteq> CHR ''+'' \<and> peek 0 l \<noteq> CHR ''-''"
    proof (cases ds)
      case Nil
      then show ?thesis using boundary_peek [OF assms(3), of l] l(3) True by simp
    next
      case (Cons d ds')
      have "\<not> isdigit (CHR ''+'')" "\<not> isdigit (CHR ''-'')" by code_simp+
      moreover have "isdigit (peek 0 l)" using peek_unread(1) [of l d "ds' @ s"] l(3) True Cons e(4) by simp
      ultimately show ?thesis by metis
    qed
    then show ?thesis using True l(3) by simp
  next
    case False
    then obtain c where c: "sign = [c]" "c = CHR ''+'' \<or> c = CHR ''-''" using e(3) by auto
    then show ?thesis using skip_unread [of l c "ds @ s"] peek_unread(1) [of l c "ds @ s"] l(3) by auto
  qed
  then obtain l2 where l2: "(if peek 0 l = CHR ''+'' \<or> peek 0 l = CHR ''-'' then skip_char l else Some l) = Some l2"
      "eats sign l l2" "unread l2 = ds @ s" by blast
  obtain l3 where l3: "advanceDigits l2 = Some l3" "eats ds l2 l3"
    using digits_unread [OF l2(3) e(4)] boundary_not [OF assms(3)] space_not(2) by blast
  have "peek 0 lx = x" using peek_unread(1) [of lx x] assms(1) e(1) by simp
  then show ?thesis
    using e(1,2) l(1) l2(1) l3(1) eats_trans [OF l(2) eats_trans [OF l2(2) l3(2)]] by auto
qed

lemma decimal_gives:
  assumes "eats v lx lx1" "unread lx1 = d @ f @ e @ s" "list_all isdigit d" "f = [] \<or> fraction_shape f" "e = [] \<or> exponent_shape e"
    and "boundary s"
  shows "gives (if f = [] \<and> e = [] then TkIntLiteral else TkFloatLiteral) (v @ d @ f @ e) lx (lexDecimal (lx_pos lx) lx1)"
proof -
  have heads: "\<not> isdigit (CHR ''.'')" "\<not> isdigit (CHR ''e'')" "\<not> isdigit (CHR ''E'')" by code_simp+
  have e: "e @ s = [] \<or> \<not> isdigit (hd (e @ s)) \<and> hd (e @ s) \<noteq> CHR ''.''"
    using assms(5,6) heads space_not(2,5) [of "hd s"] by (auto simp: exponent_shape_def boundary_def)
  then have f: "f @ e @ s = [] \<or> \<not> isdigit (hd (f @ e @ s))" using assms(4) heads by (auto simp: fraction_shape_def)
  from digits_unread [OF assms(2,3) f] obtain l1 where l1: "advanceDigits lx1 = Some l1" "eats d lx1 l1" "unread l1 = f @ e @ s" by blast
  from fraction_unread [OF l1(3) assms(4) e] obtain l2 where
    l2: "(if peek 0 l1 = CHR ''.'' \<and> isdigit (peek 1 l1)
             then do { l \<leftarrow> skip_char l1; l \<leftarrow> advanceDigits l; Some (True, l) }
             else Some (False, l1)) = Some (f \<noteq> [], l2)" "eats f l1 l2" "unread l2 = e @ s" by blast
  from exponent_unread [OF l2(3) assms(5,6), of "f \<noteq> []"] obtain l3 where
    l3: "(if peek 0 l2 = CHR ''e'' \<or> peek 0 l2 = CHR ''E''
             then do { l \<leftarrow> skip_char l2;
                       l \<leftarrow> (if peek 0 l = CHR ''+'' \<or> peek 0 l = CHR ''-'' then skip_char l else Some l);
                       l \<leftarrow> advanceDigits l;
                       Some (True, l) }
             else Some (f \<noteq> [], l2)) = Some (f \<noteq> [] \<or> e \<noteq> [], l3)" "eats e l2 l3" by blast
  have "lexDecimal (lx_pos lx) lx1 = Some (makeToken (if f = [] \<and> e = [] then TkIntLiteral else TkFloatLiteral) (lx_pos lx) l3, l3)"
    unfolding lexDecimal_def l1(1) Option.bind.simps l2(1) prod.case l3(1) by auto
  then show ?thesis
    using gives_make [OF eats_trans [OF assms(1) eats_trans [OF l1(2) eats_trans [OF l2(2) l3(2)]]]] by auto
qed

lemma number_gives:
  assumes "unread lx = i @ f @ e @ s" "i \<noteq> []" "list_all isdigit i" "f = [] \<or> fraction_shape f" "e = [] \<or> exponent_shape e"
    and "boundary s"
  shows "gives (if f = [] \<and> e = [] then TkIntLiteral else TkFloatLiteral) (i @ f @ e) lx (lexNumber lx)"
proof -
  obtain d ds where i: "i = d # ds" "isdigit d" "list_all isdigit ds" using assms(2,3) by (cases i) auto
  have d: "peek 0 lx = d" using assms(1) i(1) peek_unread(1) [of lx] by simp
  show ?thesis
  proof (cases "d = CHR ''0''")
    case False
    then show ?thesis using decimal_gives [of "[]" lx lx, OF _ _ assms(3-6)] assms(1) d by (simp add: lexNumber_def Let_def)
  next
    case True
    obtain l where l: "skip_char lx = Some l" "eats [d] lx l" "unread l = ds @ f @ e @ s"
      using skip_unread [of lx d] assms(1) i(1) by auto
    have base: "peek 0 l \<notin> set ''xXbBoO''"
    proof (cases "ds @ f @ e")
      case Nil
      then show ?thesis using boundary_peek [OF assms(6), of l] l(3) by auto
    next
      case (Cons c cs)
      have "\<forall>c \<in> set ''xXbBoO''. \<not> isdigit c \<and> c \<noteq> CHR ''.'' \<and> c \<noteq> CHR ''e'' \<and> c \<noteq> CHR ''E''" by code_simp
      moreover have "isdigit c \<or> c = CHR ''.'' \<or> c = CHR ''e'' \<or> c = CHR ''E''"
        using Cons i(3) assms(4,5) by (cases ds; cases f) (auto simp: fraction_shape_def exponent_shape_def)
      moreover have "peek 0 l = c" using peek_unread(1) [of l c "cs @ s"] l(3) Cons by (metis append_Cons append_assoc)
      ultimately show ?thesis by blast
    qed
    have "lexNumber lx = lexDecimal (lx_pos lx) l"
      using d True l(1) base by (simp add: lexNumber_def Let_def)
    then show ?thesis using decimal_gives [OF l(2,3) i(3) assms(4-6)] i(1) by simp
  qed
qed

lemma based_gives:
  assumes "unread lx = CHR ''0'' # x # ds @ s" "boundary s"
    and "x \<in> set ''xX'' \<and> list_all isxdigit ds \<or> x \<in> set ''bB'' \<and> list_all (\<lambda>c. c = CHR ''0'' \<or> c = CHR ''1'') ds
      \<or> x \<in> set ''oO'' \<and> list_all (\<lambda>c. 48 \<le> ch_code c \<and> ch_code c \<le> 55) ds"
  shows "gives TkIntLiteral (CHR ''0'' # x # ds) lx (lexNumber lx)"
proof -
  obtain l1 where l1: "skip_char lx = Some l1" "eats ''0'' lx l1" "unread l1 = x # ds @ s"
    using skip_unread [OF assms(1)] by blast
  obtain l2 where l2: "skip_char l1 = Some l2" "eats [x] l1 l2" "unread l2 = ds @ s"
    using skip_unread [OF l1(3)] by blast
  have peeks: "peek 0 lx = CHR ''0''" "peek 0 l1 = x" using peek_unread(1) [OF assms(1)] peek_unread(1) [OF l1(3)] by simp_all
  have loop: "\<exists>l. advanceWhile (\<lambda>l. \<not> at_end l \<and> P (peek 0 l)) l2 = Some l \<and> eats (CHR ''0'' # x # ds) lx l"
    if "list_all P ds" "\<And>c. is_space c \<Longrightarrow> \<not> P c" for P
    using while_unread [OF l2(3) that(1)] boundary_not [where P = P, OF assms(2) that(2)] eats_trans [OF l1(2) eats_trans [OF l2(2)]]
    by fastforce
  have nul: "\<not> (ch_nul = CHR ''0'' \<or> ch_nul = CHR ''1'')" "\<not> (48 \<le> ch_code ch_nul \<and> ch_code ch_nul \<le> 55)" by code_simp+
  note loops = advanceWhile_peek [where P = "\<lambda>c. c = CHR ''0'' \<or> c = CHR ''1''", OF nul(1)]
    advanceWhile_peek [where P = "\<lambda>c. 48 \<le> ch_code c \<and> ch_code c \<le> 55", OF nul(2)]
  from assms(3) consider (hex) "x \<in> set ''xX''" "list_all isxdigit ds"
    | (bin) "x \<in> set ''bB''" "list_all (\<lambda>c. c = CHR ''0'' \<or> c = CHR ''1'') ds"
    | (oct) "x \<in> set ''oO''" "list_all (\<lambda>c. 48 \<le> ch_code c \<and> ch_code c \<le> 55) ds"
    by blast
  then show ?thesis
  proof cases
    case hex
    from loop [OF hex(2) space_not(3)] obtain l where l: "advanceWhile (\<lambda>l. \<not> at_end l \<and> isxdigit (peek 0 l)) l2 = Some l"
      "eats (CHR ''0'' # x # ds) lx l" by blast
    then show ?thesis using gives_make [OF l(2)] hex(1) peeks l1(1) l2(1) by (auto simp: lexNumber_def Let_def)
  next
    case bin
    have "\<not> (c = CHR ''0'' \<or> c = CHR ''1'')" if "is_space c" for c using space_not(5) [OF that] by auto
    from loop [OF bin(2) this] obtain l where l: "advanceWhile (\<lambda>l. \<not> at_end l \<and> (peek 0 l = CHR ''0'' \<or> peek 0 l = CHR ''1'')) l2 = Some l"
      "eats (CHR ''0'' # x # ds) lx l" by blast
    then show ?thesis using gives_make [OF l(2)] bin(1) peeks l1(1) l2(1) by (auto simp: lexNumber_def Let_def loops)
  next
    case oct
    from loop [OF oct(2) space_not(4)] obtain l where
      l: "advanceWhile (\<lambda>l. \<not> at_end l \<and> (48 \<le> ch_code (peek 0 l) \<and> ch_code (peek 0 l) \<le> 55)) l2 = Some l"
      "eats (CHR ''0'' # x # ds) lx l" by blast
    then show ?thesis using gives_make [OF l(2)] oct(1) peeks l1(1) l2(1) by (auto simp: lexNumber_def Let_def loops)
  qed
qed

lemma int_gives:
  assumes "unread lx = w @ s" "int_shape w" "boundary s"
  shows "gives TkIntLiteral w lx (lexNumber lx)"
proof -
  have two: "\<exists>ds. w = a # b # ds \<and> drop 2 w = ds" if "take 2 w = [a, b]" for a b
    using that by (cases w rule: list.exhaust; cases "tl w") auto
  from assms(2) consider (dec) "w \<noteq> []" "list_all isdigit w"
    | (based) x ds where "w = CHR ''0'' # x # ds" "x \<in> set ''xX'' \<and> list_all isxdigit ds
        \<or> x \<in> set ''bB'' \<and> list_all (\<lambda>c. c = CHR ''0'' \<or> c = CHR ''1'') ds
        \<or> x \<in> set ''oO'' \<and> list_all (\<lambda>c. 48 \<le> ch_code c \<and> ch_code c \<le> 55) ds"
    unfolding int_shape_def using two by fastforce
  then show ?thesis
  proof cases
    case dec
    then show ?thesis using number_gives [of lx w "[]" "[]" s] assms by simp
  next
    case based
    then show ?thesis using based_gives [of lx x ds s] assms by simp
  qed
qed

lemma float_gives:
  assumes "unread lx = w @ s" "float_shape w" "boundary s"
  shows "gives TkFloatLiteral w lx (lexNumber lx)"
proof -
  from assms(2) obtain i f e where w: "w = i @ f @ e" "i \<noteq> []" "list_all isdigit i" "f = [] \<or> fraction_shape f" "e = [] \<or> exponent_shape e"
      "f \<noteq> [] \<or> e \<noteq> []"
    by (auto simp: float_shape_def)
  then show ?thesis using number_gives [of lx i f e s] assms(1,3) by auto
qed

text \<open>The string literal and the character literal start after their opening quote.\<close>

lemma string_gives:
  assumes "string_tail v" "unread l1 = v @ s" "eats u lx l1"
  shows "gives TkStringLiteral (u @ v) lx (stringLoop (lx_pos lx) loc l1)"
  using assms
proof (induction v arbitrary: u l1 rule: string_tail.induct)
  case close
  obtain l where l: "advance l1 = Some (ch_dquote, l)" "eats [ch_dquote] l1 l"
    using advance_unread [of l1 ch_dquote s] close by auto
  have "\<not> at_end l1" using close by (simp add: at_end_unread)
  then have "stringLoop (lx_pos lx) loc l1 = Some (makeToken TkStringLiteral (lx_pos lx) l, l)"
    using l(1) by (subst stringLoop.simps) simp
  then show ?case using gives_make [OF eats_trans [OF close(2) l(2)]] by simp
next
  case (plain c w)
  obtain l where l: "advance l1 = Some (c, l)" "eats [c] l1 l" "unread l = w @ s"
    using advance_unread [of l1 c "w @ s"] plain.prems by auto
  have "\<not> at_end l1" using plain.prems by (simp add: at_end_unread)
  then have "stringLoop (lx_pos lx) loc l1 = stringLoop (lx_pos lx) loc l"
    using l(1) plain.hyps by (subst stringLoop.simps) simp
  then show ?case using plain.IH [OF l(3) eats_trans [OF plain.prems(2) l(2)]] by simp
next
  case (escape w c)
  obtain l where l: "advance l1 = Some (ch_backslash, l)" "eats [ch_backslash] l1 l" "unread l = c # w @ s"
    using advance_unread [of l1 ch_backslash "c # w @ s"] escape.prems by auto
  obtain l' where l': "skip_char l = Some l'" "eats [c] l l'" "unread l' = w @ s" using skip_unread [OF l(3)] by blast
  have "ch_backslash \<noteq> ch_dquote" "ch_backslash \<noteq> ch_newline" by code_simp+
  moreover have "\<not> at_end l1" "\<not> at_end l" using escape.prems l(3) by (simp_all add: at_end_unread)
  ultimately have "stringLoop (lx_pos lx) loc l1 = stringLoop (lx_pos lx) loc l'"
    using l(1) l'(1) by (subst stringLoop.simps) simp
  then show ?case
    using escape.IH [OF l'(3) eats_trans [OF escape.prems(2) eats_trans [OF l(2) l'(2)]]] by simp
qed

lemma char_gives:
  assumes "unread l1 = v @ ch_quote # s" "v = [c] \<and> c \<noteq> ch_backslash \<or> v = [ch_backslash, c]"
    and "eats [ch_quote] lx l1"
  shows "gives TkCharLiteral (ch_quote # v @ [ch_quote]) lx (lexChar l1)"
proof -
  have "\<exists>l2. (if peek 0 l1 = ch_backslash then skip_char l1 else Some l1) = Some l2 \<and> eats (butlast v) l1 l2 \<and> unread l2 = [c] @ ch_quote # s"
    using skip_unread [of l1 ch_backslash "c # ch_quote # s"] peek_unread(1) [of l1] assms(1,2) by auto
  then obtain l2 where l2: "(if peek 0 l1 = ch_backslash then skip_char l1 else Some l1) = Some l2" "eats (butlast v) l1 l2"
      "unread l2 = c # ch_quote # s" by auto
  obtain l3 where l3: "skip_char l2 = Some l3" "eats [c] l2 l3" "unread l3 = ch_quote # s" using skip_unread [OF l2(3)] by blast
  obtain l4 where l4: "match_char ch_quote l3 = Some (True, l4)" "eats [ch_quote] l3 l4" using match_unread [OF l3(3)] by blast
  have ends: "\<not> at_end l1" "\<not> at_end l2" using assms(1,2) l2(3) by (auto simp: at_end_unread)
  have "lx_pos l1 - 1 = lx_pos lx" using assms(3) by (simp add: eats_def)
  then have "lexChar l1 = Some (makeToken TkCharLiteral (lx_pos lx) l4, l4)"
    using ends l2(1) l3(1) l4(1) by (simp add: lexChar_def Let_def)
  moreover have "ch_quote # v @ [ch_quote] = [ch_quote] @ butlast v @ [c] @ [ch_quote]" using assms(2) by auto
  ultimately show ?thesis
    using gives_make [OF eats_trans [OF assms(3) eats_trans [OF l2(2) eats_trans [OF l3(2) l4(2)]]]] by (simp only:)
qed

text \<open>How the switch of \<open>nextToken\<close> finds the spelling of an operator or a delimiter.\<close>

fun in_switch :: "TokenKind \<Rightarrow> string \<Rightarrow> bool" where
  "in_switch k [] = False"
| "in_switch k (c # ds) =
     (if c = CHR ''.'' then ds = [] \<and> k = TkDot \<or> ds = ''.'' \<and> k = TkDotDot \<or> ds = ''..'' \<and> k = TkDotDotDot
      else case map_of operator_cases c of
        Some (alternatives, otherwise) \<Rightarrow> ds = [] \<and> otherwise = k \<or> length ds = 1 \<and> map_of alternatives (hd ds) = Some k
      | None \<Rightarrow> False)"

lemma spelled_in_switch:
  assumes "spelled k w"
  shows "in_switch k w \<and> w \<noteq> [] \<and> hd w \<noteq> CHR ''_'' \<and> hd w \<noteq> ch_dquote \<and> hd w \<noteq> ch_quote \<and> \<not> isalpha (hd w) \<and> \<not> isdigit (hd w)
    \<and> hd w \<noteq> CHR ''#'' \<and> \<not> is_space (hd w) \<and> take 2 w \<noteq> ''//'' \<and> take 2 w \<noteq> ''/*''"
proof -
  let ?ok = "\<lambda>k w. in_switch k w \<and> w \<noteq> [] \<and> hd w \<noteq> CHR ''_'' \<and> hd w \<noteq> ch_dquote \<and> hd w \<noteq> ch_quote
    \<and> \<not> isalpha (hd w) \<and> \<not> isdigit (hd w) \<and> hd w \<noteq> CHR ''#'' \<and> \<not> is_space (hd w) \<and> take 2 w \<noteq> ''//'' \<and> take 2 w \<noteq> ''/*''"
  have all: "list_all (\<lambda>k. case k of Operator _ \<Rightarrow> ?ok k (butlast (tl (tokenKindName k)))
      | Delimiter d \<Rightarrow> d = HashD \<or> ?ok k (butlast (tl (tokenKindName k))) | _ \<Rightarrow> True) all_token_kinds"
    by code_simp
  have "w = butlast (tl (quoted w))" by (simp add: quoted_def)
  then show ?thesis
    using assms TokenKind_all [THEN iffD2, OF all, rule_format, of k] by (cases k) auto
qed

lemma alternatives_known:
  "list_all (\<lambda>(c, alternatives, otherwise). c \<noteq> CHR ''.'' \<and> list_all (\<lambda>(d, k). d \<in> set ''.eExXbBoO+-*/%=&|<>!:01'') alternatives) operator_cases"
  by code_simp

lemma matchFirst_gives:
  assumes "eats u lx l1"
  shows "unread l1 = d # s \<Longrightarrow> map_of alternatives d = Some k \<Longrightarrow> gives k (u @ [d]) lx (matchFirst alternatives otherwise (lx_pos lx) l1)"
    and "boundary (unread l1) \<Longrightarrow> list_all (\<lambda>(d, k). d \<in> set ''.eExXbBoO+-*/%=&|<>!:01'') alternatives \<Longrightarrow>
      gives otherwise u lx (matchFirst alternatives otherwise (lx_pos lx) l1)"
proof (induction alternatives)
  case Nil
  case 2
  then show ?case using gives_make [OF assms] by simp
next
  case (Cons a alternatives)
  obtain c k' where a: "a = (c, k')" by fastforce
  {
    case 1
    show ?case
    proof (cases "c = d")
      case True
      then obtain l where "match_char c l1 = Some (True, l)" "eats [c] l1 l" using match_unread [of l1 c s] 1(1) by auto
      then show ?thesis using gives_make [OF eats_trans [OF assms]] 1(2) a True by auto
    next
      case False
      then have "match_char c l1 = Some (False, l1)" using mismatch_unread [of l1 c] 1(1) by auto
      then show ?thesis using Cons.IH(1) [OF 1(1)] 1(2) a False by simp
    qed
  next
    case 2
    then have "hd (unread l1) \<noteq> c \<or> unread l1 = []" using space_not(5) [of "hd (unread l1)"] a by (auto simp: boundary_def)
    then have "match_char c l1 = Some (False, l1)" using mismatch_unread [of l1 c] by auto
    then show ?case using Cons.IH(2) [OF 2(1)] 2(2) a by simp
  }
qed (simp)

lemma operator_gives:
  assumes "eats [c] lx l1" "unread l1 = ds @ s" "in_switch k (c # ds)" "boundary s"
  shows "gives k (c # ds) lx (lexOperator c (lx_pos lx) l1)"
proof (cases "c = CHR ''.''")
  case True
  have no_dot: "unread l = [] \<or> hd (unread l) \<noteq> CHR ''.''" if "unread l = s" for l
    using assms(4) that space_not(5) [of "hd s"] by (auto simp: boundary_def)
  from True assms(3) consider "ds = []" "k = TkDot" | (two) "ds = ''.''" "k = TkDotDot" | (three) "ds = ''..''" "k = TkDotDotDot" by auto
  then show ?thesis
  proof cases
    case 1
    then show ?thesis using mismatch_unread [OF no_dot] assms(2) gives_make [OF assms(1)] True by (simp add: lexOperator_def)
  next
    case two
    obtain l where l: "match_char (CHR ''.'') l1 = Some (True, l)" "eats ''.'' l1 l" "unread l = s"
      using match_unread [of l1 "CHR ''.''" s] assms(2) two by auto
    then show ?thesis
      using mismatch_unread [OF no_dot [OF l(3)]] gives_make [OF eats_trans [OF assms(1) l(2)]] True two by (simp add: lexOperator_def)
  next
    case three
    obtain l where l: "match_char (CHR ''.'') l1 = Some (True, l)" "eats ''.'' l1 l" "unread l = CHR ''.'' # s"
      using match_unread [of l1 "CHR ''.''" "CHR ''.'' # s"] assms(2) three by auto
    then show ?thesis
      using matchFirst_gives(1) [OF eats_trans [OF assms(1) l(2)] l(3), of "[(CHR ''.'', TkDotDotDot)]" TkDotDotDot TkDotDot] True three
      by (simp add: lexOperator_def)
  qed
next
  case False
  with assms(3) obtain alternatives otherwise where m: "map_of operator_cases c = Some (alternatives, otherwise)"
      "ds = [] \<and> otherwise = k \<or> (\<exists>d. ds = [d] \<and> map_of alternatives d = Some k)"
    by (auto split: option.splits simp: length_Suc_conv)
  have alts: "list_all (\<lambda>(d, k). d \<in> set ''.eExXbBoO+-*/%=&|<>!:01'') alternatives"
    using bspec [OF alternatives_known [unfolded list_all_iff] map_of_SomeD [OF m(1)]] by (simp add: list_all_iff)
  from m(2) show ?thesis
  proof
    assume "ds = [] \<and> otherwise = k"
    then show ?thesis using matchFirst_gives(2) [OF assms(1) _ alts, of k] assms(2,4) m(1) False by (simp add: lexOperator_def)
  next
    assume "\<exists>d. ds = [d] \<and> map_of alternatives d = Some k"
    then obtain d where "ds = [d]" "map_of alternatives d = Some k" by blast
    then show ?thesis using matchFirst_gives(1) [OF assms(1), of d s alternatives k otherwise] assms(2) m(1) False
      by (simp add: lexOperator_def)
  qed
qed


section \<open>From a token to the next\<close>

lemma spaces_skipped:
  assumes "unread lx = g @ s" "list_all is_space g"
    and "s = [] \<or> \<not> is_space (hd s) \<and> hd s \<noteq> CHR ''#'' \<and> take 2 s \<noteq> ''//'' \<and> take 2 s \<noteq> ''/*''"
  shows "\<exists>l. skipWhitespaceAndComments lx = Some l \<and> eats g lx l \<and> unread l = s"
  using assms(1,2)
proof (induction g arbitrary: lx)
  case Nil
  have "skipWhitespaceAndComments lx = Some lx"
  proof (cases s)
    case Nil
    then show ?thesis using Nil.prems by (subst skipWhitespaceAndComments.simps) (simp add: at_end_unread)
  next
    case (Cons c cs)
    then have c: "peek 0 lx = c" "\<not> at_end lx" using Nil.prems peek_unread(1) [of lx c cs] by (simp_all add: at_end_unread)
    have "\<not> (c = CHR ''/'' \<and> (peek 1 lx = CHR ''/'' \<or> peek 1 lx = CHR ''*''))"
    proof (cases cs)
      case Nil
      then have "peek 1 lx = ch_nul" using peek_unread(4) [of lx c] Cons Nil.prems by simp
      then show ?thesis by simp
    next
      case (Cons d ds)
      then show ?thesis using peek_unread(2) [of lx c d ds] assms(3) \<open>s = c # cs\<close> Nil.prems by auto
    qed
    then show ?thesis using c assms(3) Cons
      by (subst skipWhitespaceAndComments.simps) (auto simp: Let_def is_space_def)
  qed
  then show ?case using Nil by simp
next
  case (Cons c g)
  obtain l where l: "skip_char lx = Some l" "eats [c] lx l" "unread l = g @ s" using skip_unread [of lx c "g @ s"] Cons.prems(1) by auto
  from Cons.IH [OF l(3)] Cons.prems(2) obtain l' where l': "skipWhitespaceAndComments l = Some l'" "eats g l l'" "unread l' = s" by auto
  have "peek 0 lx = c" "\<not> at_end lx" "is_space c"
    using peek_unread(1) [of lx c] Cons.prems by (simp_all add: at_end_unread)
  then have "skipWhitespaceAndComments lx = Some l'"
    using l(1) l'(1) by (subst skipWhitespaceAndComments.simps) (auto simp: Let_def is_space_def)
  then show ?case using l' eats_trans [OF l(2) l'(2)] by auto
qed

text \<open>The first characters of the lexemes are disjoint, and none of them starts trivia.\<close>

lemma head_classes:
  "isalpha c \<Longrightarrow> \<not> isdigit c" "isdigit c \<Longrightarrow> \<not> isalpha c \<and> c \<noteq> CHR ''_'' \<and> c \<noteq> ch_dquote \<and> c \<noteq> ch_quote"
  "isalpha c \<or> c = CHR ''_'' \<or> isdigit c \<or> c = ch_dquote \<or> c = ch_quote \<Longrightarrow> \<not> is_space c \<and> c \<noteq> CHR ''#'' \<and> c \<noteq> CHR ''/''"
  "\<not> isalpha ch_dquote" "\<not> isdigit ch_dquote" "\<not> isalpha ch_quote" "\<not> isdigit ch_quote"
proof -
  show "isalpha c \<Longrightarrow> \<not> isdigit c" by (auto simp: isalpha_def isdigit_def)
  have none: "\<forall>c \<in> set [CHR '' '', ch_tab, ch_return, ch_newline, CHR ''#'', CHR ''/'']. \<not> (isalpha c \<or> c = CHR ''_'' \<or> isdigit c \<or> c = ch_dquote \<or> c = ch_quote)"
    "\<forall>c \<in> set [CHR ''_'', ch_dquote, ch_quote]. \<not> isdigit c" by code_simp+
  show "isdigit c \<Longrightarrow> \<not> isalpha c \<and> c \<noteq> CHR ''_'' \<and> c \<noteq> ch_dquote \<and> c \<noteq> ch_quote"
    using none(2) by (auto simp: isalpha_def isdigit_def)
  show "isalpha c \<or> c = CHR ''_'' \<or> isdigit c \<or> c = ch_dquote \<or> c = ch_quote \<Longrightarrow> \<not> is_space c \<and> c \<noteq> CHR ''#'' \<and> c \<noteq> CHR ''/''"
    using none(1) by (auto simp: is_space_def)
qed code_simp+

lemma shape_heads:
  assumes "lexeme_shape k w" "k \<noteq> TkEof" "k \<noteq> TkError"
  shows "w \<noteq> [] \<and> (case k of
      TkIdentifier \<Rightarrow> isalpha (hd w) \<or> hd w = CHR ''_'' | Keyword _ \<Rightarrow> isalpha (hd w) \<or> hd w = CHR ''_''
    | TkIntLiteral \<Rightarrow> isdigit (hd w) | TkFloatLiteral \<Rightarrow> isdigit (hd w)
    | TkStringLiteral \<Rightarrow> hd w = ch_dquote | TkCharLiteral \<Rightarrow> hd w = ch_quote
    | _ \<Rightarrow> spelled k w)"
proof -
  have zero: "isdigit (CHR ''0'')" by code_simp
  have "w \<noteq> [] \<and> isdigit (hd w)" if "int_shape w" for w
  proof -
    have "w \<noteq> [] \<and> hd w = c" if "take (Suc n) w = c # x" for n c x using that by (cases w) auto
    with that zero show ?thesis
      unfolding int_shape_def by (cases w) (auto simp: numeral_2_eq_2)
  qed
  moreover have "w \<noteq> [] \<and> isdigit (hd w)" if "float_shape w" for w
    using that by (auto simp: float_shape_def neq_Nil_conv)
  moreover have "w \<noteq> []" if "spelled k w" using spelled_in_switch [OF that] by blast
  ultimately show ?thesis using assms by (cases k) (auto simp: ident_shape_def)
qed

lemma nextToken_reads:
  assumes "unread lx0 = g @ w @ s" "list_all is_space g" "lexeme_shape k w" "k \<noteq> TkEof" "k \<noteq> TkError" "boundary s"
  shows "\<exists>t lx'. nextToken lx0 = Some (t, lx') \<and> tok_kind t = k \<and> tok_lexeme t = w \<and> unread lx' = s \<and> lx_ctx lx' = lx_ctx lx0"
proof -
  obtain c v where w: "w = c # v" using shape_heads [OF assms(3-5)] by (cases w) auto
  note heads = shape_heads [OF assms(3-5), unfolded w]
  have start: "\<not> is_space c \<and> c \<noteq> CHR ''#'' \<and> take 2 (w @ s) \<noteq> ''//'' \<and> take 2 (w @ s) \<noteq> ''/*''"
  proof (cases "spelled k w")
    case False
    then show ?thesis using heads head_classes(3) [of c] w by (cases k) auto
  next
    case True
    note sp = spelled_in_switch [OF True]
    have "c \<noteq> CHR ''#'' \<and> \<not> is_space c" using sp w by simp
    moreover have "take 2 (w @ s) \<noteq> ''//'' \<and> take 2 (w @ s) \<noteq> ''/*''"
    proof (cases v)
      case Nil
      then show ?thesis using w assms(6) space_not(5) [of "hd s"] by (cases s) (auto simp: boundary_def)
    next
      case (Cons d ds)
      then show ?thesis using sp w by auto
    qed
    ultimately show ?thesis by blast
  qed
  obtain lx where lx: "skipWhitespaceAndComments lx0 = Some lx" "unread lx = w @ s" "lx_ctx lx = lx_ctx lx0"
    using spaces_skipped [OF assms(1,2)] start w by (auto simp: eats_def)
  obtain l1 where l1: "advance lx = Some (c, l1)" "eats [c] lx l1" "unread l1 = v @ s"
    using advance_unread [of lx c "v @ s"] lx(2) w by auto
  have "c \<noteq> ch_newline" using start by (auto simp: is_space_def)
  note un = advance_unconsume [OF l1(1) this]
  have next_token: "nextToken lx0 =
      (if isalpha c \<or> c = CHR ''_'' then lexIdentifierOrKeyword lx
       else if isdigit c then lexNumber lx
       else if c = ch_dquote then lexString l1
       else if c = ch_quote then lexChar l1
       else lexOperator c (lx_pos lx) l1)"
    using lx(2) w by (simp add: nextToken_def lx(1) l1(1) un [unfolded One_nat_def] Let_def at_end_unread)
  have "gives k w lx (nextToken lx0)"
  proof (cases "spelled k w")
    case True
    then have "nextToken lx0 = lexOperator c (lx_pos lx) l1" using spelled_in_switch [OF True] w next_token by simp
    then show ?thesis using operator_gives [OF l1(2,3) _ assms(6)] spelled_in_switch [OF True] w by simp
  next
    case False
    show ?thesis
    proof (cases k)
      case TkIntLiteral
      then show ?thesis using heads int_gives [OF lx(2) _ assms(6)] assms(3) head_classes(2) [of c] next_token by simp
    next
      case TkFloatLiteral
      then show ?thesis using heads float_gives [OF lx(2) _ assms(6)] assms(3) head_classes(2) [of c] next_token by simp
    next
      case TkStringLiteral
      have "lx_pos l1 - 1 = lx_pos lx" using l1(2) by (simp add: eats_def)
      then show ?thesis
        using TkStringLiteral heads assms(3) head_classes(4,5) next_token w string_gives [OF _ l1(3,2)] by (auto simp: lexString_def)
    next
      case TkCharLiteral
      then obtain x where "v = [x, ch_quote] \<and> x \<noteq> ch_backslash \<or> v = [ch_backslash, x, ch_quote]" "c = ch_quote"
        using assms(3) w by auto
      then have v: "v = butlast v @ [ch_quote]" "butlast v = [x] \<and> x \<noteq> ch_backslash \<or> butlast v = [ch_backslash, x]" by auto
      from v(1) l1(3) have "unread l1 = butlast v @ ch_quote # s" by (metis append.assoc append_Cons append_Nil)
      from char_gives [OF this v(2), of lx] l1(2) \<open>c = ch_quote\<close> v(1) have "gives TkCharLiteral w lx (lexChar l1)" by (simp add: w)
      then show ?thesis using TkCharLiteral \<open>c = ch_quote\<close> head_classes(6,7) next_token by simp
    next
      case TkIdentifier
      then show ?thesis using heads assms(3) ident_gives [OF lx(2) _ assms(6)] next_token by (auto simp: ident_shape_def)
    next
      case (Keyword x)
      then show ?thesis using heads assms(3) ident_gives [OF lx(2) _ assms(6)] next_token by (auto simp: ident_shape_def)
    qed (use heads assms(3-5) False w in auto)
  qed
  then obtain t lx' where t: "nextToken lx0 = Some (t, lx')" "tok_kind t = k" "tok_lexeme t = w" "eats w lx lx'"
    by (auto simp: gives_def)
  with eats_unread [OF t(4) lx(2)] lx(3) show ?thesis by (simp add: eats_def)
qed


section \<open>A text and its tokens\<close>

text \<open>
  The texts in which the tokens \<open>ts\<close>, kind and lexeme, stand one after the other with white space between them: none is
  needed before the first and after the last.
\<close>

inductive laid_out :: "(TokenKind \<times> string) list \<Rightarrow> string \<Rightarrow> bool" where
  finish: "list_all is_space g \<Longrightarrow> laid_out [] g"
| token: "list_all is_space g \<Longrightarrow> boundary s \<Longrightarrow> laid_out ts s \<Longrightarrow> laid_out ((k, w) # ts) (g @ w @ s)"

definition spaced :: "(TokenKind \<times> string) list \<Rightarrow> string" where
  "spaced ts = concat (map (\<lambda>(k, w). w @ '' '') ts)"

definition proper :: "TokenKind \<times> string \<Rightarrow> bool" where
  "proper kw \<longleftrightarrow> lexeme_shape (fst kw) (snd kw) \<and> fst kw \<noteq> TkEof \<and> fst kw \<noteq> TkError"

definition kind_lexeme :: "Token \<Rightarrow> TokenKind \<times> string" where
  "kind_lexeme t = (tok_kind t, tok_lexeme t)"

lemma blank_before: "laid_out ts s \<Longrightarrow> laid_out ts (CHR '' '' # s)"
proof (induction rule: laid_out.induct)
  case (finish g)
  then show ?case by (simp add: laid_out.finish is_space_def)
next
  case (token g s ts k w)
  then show ?case using laid_out.token [of "CHR '' '' # g" s ts k w] by (simp add: is_space_def)
qed

lemma spaced_laid_out: "laid_out ts (spaced ts)"
proof (induction ts)
  case Nil
  then show ?case by (simp add: spaced_def laid_out.finish)
next
  case (Cons kw ts)
  obtain k w where kw: "kw = (k, w)" by fastforce
  have "laid_out ((k, w) # ts) ([] @ w @ (CHR '' '' # spaced ts))"
    by (rule laid_out.token) (use blank_before [OF Cons.IH] in \<open>simp_all add: boundary_def is_space_def\<close>)
  then show ?case by (simp add: kw spaced_def)
qed

lemma tokenize_loop_reads:
  assumes "laid_out ts s" "unread lx = s" "list_all proper ts"
  shows "\<exists>toks lx'. tokenize_loop acc lx = Some (acc @ toks, lx') \<and> map kind_lexeme toks = ts @ [(TkEof, [])] \<and> lx_ctx lx' = lx_ctx lx"
  using assms
proof (induction arbitrary: acc lx rule: laid_out.induct)
  case (finish g)
  then obtain l where l: "skipWhitespaceAndComments lx = Some l" "unread l = []" "lx_ctx l = lx_ctx lx"
    using spaces_skipped [of lx g "[]"] by (auto simp: eats_def)
  then have "nextToken lx = Some (makeToken TkEof (lx_pos l) l, l)" by (simp add: nextToken_def at_end_unread)
  then show ?case using l(3)
    by (subst tokenize_loop.simps) (simp add: token_isEof_def kind_lexeme_def makeToken_def substr_def)
next
  case (token g s ts k w)
  from token.prems have "lexeme_shape k w" "k \<noteq> TkEof" "k \<noteq> TkError" "list_all proper ts"
    using proper_def [of "(k, w)"] by simp_all
  from nextToken_reads [OF token.prems(1) token.hyps(1) this(1-3) token.hyps(2)] this(2,4)
  obtain t lx1 where t: "nextToken lx = Some (t, lx1)" "tok_kind t = k" "tok_lexeme t = w" "unread lx1 = s" "lx_ctx lx1 = lx_ctx lx"
      "k \<noteq> TkEof" "list_all proper ts" by auto
  from token.IH [OF t(4,7), of "acc @ [t]"] obtain toks lx' where
    r: "tokenize_loop (acc @ [t]) lx1 = Some ((acc @ [t]) @ toks, lx')" "map kind_lexeme toks = ts @ [(TkEof, [])]" "lx_ctx lx' = lx_ctx lx1"
    by blast
  have "tokenize_loop acc lx = tokenize_loop (acc @ [t]) lx1"
    using t(1,2,6) by (subst tokenize_loop.simps) (simp add: token_isEof_def)
  with r t(2,3,5) show ?case by (intro exI [of _ "t # toks"]) (simp add: kind_lexeme_def [of t])
qed

lemma tokenize_laid_out:
  assumes "laid_out ts (lx_source lx)" "list_all proper ts" "lx_pos lx = 0"
  shows "\<exists>toks lx'. tokenize lx = Some (toks, lx') \<and> map kind_lexeme toks = ts @ [(TkEof, [])] \<and> lx_ctx lx' = lx_ctx lx"
  using tokenize_loop_reads [of ts "lx_source lx" lx "[]"] assms by (simp add: tokenize_def unread_def)

text \<open>
  C11. Scanning inverts writing: a list of tokens, each with a lexeme of the shape of its kind, that is written out with
  white space between them, any amount of it, is scanned as exactly this list, followed by \<open>Eof\<close>, without any diagnostic.
  So the shapes that tokens are known to have are the exact ones: every text of the shape is a token of the kind.
\<close>

theorem tokenize_reads_back:
  assumes "laid_out ts (sourceText ctx i)"
    and "list_all (\<lambda>(k, w). lexeme_shape k w \<and> k \<noteq> TkEof \<and> k \<noteq> TkError) ts"
  shows "\<exists>toks lx. tokenize (new_lexer ctx i) = Some (toks, lx)
    \<and> map (\<lambda>t. (tok_kind t, tok_lexeme t)) toks = ts @ [(TkEof, [])] \<and> lx_ctx lx = ctx"
proof -
  have "list_all proper ts" using assms(2) by (auto simp: list_all_iff proper_def)
  then show ?thesis
    using tokenize_laid_out [of ts "new_lexer ctx i"] assms(1) by (simp add: new_lexer_def kind_lexeme_def [abs_def])
qed

theorem tokenize_reads_back_witness:
  "\<exists>toks lx. tokenize (new_lexer (snd (addSource ''a.v'' ''  let x = 0xff <<   'q' '' (new_context default_options))) 1) = Some (toks, lx)
    \<and> map (\<lambda>t. (tok_kind t, tok_lexeme t)) toks =
      [(KwLet, ''let''), (TkIdentifier, ''x''), (TkEq, ''=''), (TkIntLiteral, ''0xff''), (TkShl, ''<<''),
       (TkCharLiteral, [ch_quote, CHR ''q'', ch_quote]), (TkEof, [])]"
proof -
  let ?ctx = "snd (addSource ''a.v'' ''  let x = 0xff <<   'q' '' (new_context default_options))"
  let ?ts = "[(KwLet, ''let''), (TkIdentifier, ''x''), (TkEq, ''=''), (TkIntLiteral, ''0xff''), (TkShl, ''<<''),
    (TkCharLiteral, [ch_quote, CHR ''q'', ch_quote])]"
  have src: "sourceText ?ctx 1 = ''  '' @ ''let'' @ '' '' @ ''x'' @ '' '' @ ''='' @ '' '' @ ''0xff'' @ '' '' @ ''<<'' @ ''   '' @ [ch_quote, CHR ''q'', ch_quote] @ '' ''"
    by code_simp
  have "laid_out ?ts (sourceText ?ctx 1)"
    unfolding src by (rule laid_out.intros | simp add: is_space_def boundary_def)+
  moreover have "ident_shape ''let''" "keyword_table ''let'' = Some KwLet" "ident_shape ''x''" "keyword_table ''x'' = None" "int_shape ''0xff''"
    "quoted ''='' = tokenKindName TkEq" "quoted ''<<'' = tokenKindName TkShl" by code_simp+
  ultimately show ?thesis using tokenize_reads_back [of ?ts ?ctx 1] by auto
qed

end
