(* ===== verification/Vcc_Ast.thy ===== *)
theory Vcc_Ast
  imports Vcc_Diagnostics
begin

text \<open>
  The abstract syntax tree (\<open>include/vcc/ast/Expressions.h\<close>, \<open>Types.h\<close>, \<open>Statements.h\<close>,
  \<open>Declarations.h\<close>, \<open>src/ast/Expressions.cpp\<close>). A node class is a constructor with the class's
  members in order and its source range last; a pointer that may be null is an option. The class
  hierarchy's virtual \<open>accept\<close> becomes pattern matching. Parameters, fields and variants are
  \<open>Decl\<close> subclasses in the code, but occur only as members of other declarations, and are records
  here. A \<open>double\<close> is its 64-bit pattern, a \<open>char32_t\<close> a 32-bit word.
\<close>

datatype BinaryOp =
    BoAdd | BoSub | BoMul | BoDiv | BoMod
  | BoEq | BoNotEq | BoLt | BoGt | BoLtEq | BoGtEq
  | BoAnd | BoOr
  | BoBitAnd | BoBitOr | BoBitXor
  | BoShl | BoShr

fun binaryOpName :: "BinaryOp \<Rightarrow> string" where
  "binaryOpName BoAdd = ''+''"
| "binaryOpName BoSub = ''-''"
| "binaryOpName BoMul = ''*''"
| "binaryOpName BoDiv = ''/''"
| "binaryOpName BoMod = ''%''"
| "binaryOpName BoEq = ''==''"
| "binaryOpName BoNotEq = ''!=''"
| "binaryOpName BoLt = ''<''"
| "binaryOpName BoGt = ''>''"
| "binaryOpName BoLtEq = ''<=''"
| "binaryOpName BoGtEq = ''>=''"
| "binaryOpName BoAnd = ''&&''"
| "binaryOpName BoOr = ''||''"
| "binaryOpName BoBitAnd = ''&''"
| "binaryOpName BoBitOr = ''|''"
| "binaryOpName BoBitXor = ''^''"
| "binaryOpName BoShl = ''<<''"
| "binaryOpName BoShr = ''>>''"

datatype UnaryOp = UoNeg | UoNot | UoBitNot | UoDeref | UoAddrOf

fun unaryOpName :: "UnaryOp \<Rightarrow> string" where
  "unaryOpName UoNeg = ''-''"
| "unaryOpName UoNot = ''!''"
| "unaryOpName UoBitNot = ''~''"
| "unaryOpName UoDeref = ''*''"
| "unaryOpName UoAddrOf = ''&''"

datatype AssignOp =
    AoAssign | AoAddAssign | AoSubAssign | AoMulAssign | AoDivAssign | AoModAssign
  | AoBitAndAssign | AoBitOrAssign | AoBitXorAssign

datatype TypeNode =
    NamedTypeNode string SourceRange
  | PointerTypeNode TypeNode bool SourceRange
  | SliceTypeNode TypeNode SourceRange
  | ArrayTypeNode TypeNode Expr SourceRange
  | FunctionTypeNode "TypeNode list" "TypeNode option" SourceRange
and Expr =
    BinaryExpr BinaryOp Expr Expr SourceRange
  | UnaryExpr UnaryOp Expr SourceRange
  | AssignExpr AssignOp Expr Expr SourceRange
  | CallExpr Expr "Expr list" SourceRange
  | IndexExpr Expr Expr SourceRange
  | MemberExpr Expr string SourceRange
  | CastExpr Expr TypeNode SourceRange
  | IdentExpr string SourceRange
  | IntLiteralExpr i64 SourceRange
  | FloatLiteralExpr "64 word" SourceRange
  | StringLiteralExpr string SourceRange
  | CharLiteralExpr "32 word" SourceRange
  | BoolLiteralExpr bool SourceRange
  | NilLiteralExpr SourceRange
  | ArrayLiteralExpr "Expr list" SourceRange

fun expr_range :: "Expr \<Rightarrow> SourceRange" where
  "expr_range (BinaryExpr _ _ _ r) = r"
| "expr_range (UnaryExpr _ _ r) = r"
| "expr_range (AssignExpr _ _ _ r) = r"
| "expr_range (CallExpr _ _ r) = r"
| "expr_range (IndexExpr _ _ r) = r"
| "expr_range (MemberExpr _ _ r) = r"
| "expr_range (CastExpr _ _ r) = r"
| "expr_range (IdentExpr _ r) = r"
| "expr_range (IntLiteralExpr _ r) = r"
| "expr_range (FloatLiteralExpr _ r) = r"
| "expr_range (StringLiteralExpr _ r) = r"
| "expr_range (CharLiteralExpr _ r) = r"
| "expr_range (BoolLiteralExpr _ r) = r"
| "expr_range (NilLiteralExpr r) = r"
| "expr_range (ArrayLiteralExpr _ r) = r"

record ParameterDecl =
  param_name :: string
  param_type :: TypeNode
  param_isMut :: bool
  param_range :: SourceRange

record FieldDecl =
  field_name :: string
  field_type :: TypeNode
  field_isPub :: bool
  field_range :: SourceRange

record EnumVariantDecl =
  variant_name :: string
  variant_fields :: "TypeNode list"
  variant_range :: SourceRange

datatype VarKind = VkLet | VkVar | VkConst

datatype Stmt =
    BlockStmt "Stmt list" SourceRange
  | ExprStmt Expr SourceRange
  | DeclStmt Decl SourceRange
  | ReturnStmt "Expr option" SourceRange
  | IfStmt Expr Stmt "Stmt option" SourceRange
  | WhileStmt Expr Stmt SourceRange
  | VloopStmt Expr Stmt SourceRange
  | ForStmt string Expr Stmt SourceRange
  | BreakStmt SourceRange
  | ContinueStmt SourceRange
  | MatchStmt Expr "MatchArm list" SourceRange
and MatchArm =
    MatchArm "Expr option" Stmt
and Decl =
    ModuleDecl string "Decl list" SourceRange
  | ImportDecl string "string option" SourceRange
  | FunctionDecl string "ParameterDecl list" "TypeNode option" "Stmt option" bool SourceRange
  | StructDecl string "FieldDecl list" bool SourceRange
  | EnumDecl string "EnumVariantDecl list" bool SourceRange
  | VarDecl VarKind string "TypeNode option" "Expr option" SourceRange
  | TypeAliasDecl string TypeNode bool SourceRange

primrec arm_pattern :: "MatchArm \<Rightarrow> Expr option" where
  "arm_pattern (MatchArm p _) = p"

primrec arm_body :: "MatchArm \<Rightarrow> Stmt" where
  "arm_body (MatchArm _ b) = b"

fun stmt_range :: "Stmt \<Rightarrow> SourceRange" where
  "stmt_range (BlockStmt _ r) = r"
| "stmt_range (ExprStmt _ r) = r"
| "stmt_range (DeclStmt _ r) = r"
| "stmt_range (ReturnStmt _ r) = r"
| "stmt_range (IfStmt _ _ _ r) = r"
| "stmt_range (WhileStmt _ _ r) = r"
| "stmt_range (VloopStmt _ _ r) = r"
| "stmt_range (ForStmt _ _ _ r) = r"
| "stmt_range (BreakStmt r) = r"
| "stmt_range (ContinueStmt r) = r"
| "stmt_range (MatchStmt _ _ r) = r"

fun decl_range :: "Decl \<Rightarrow> SourceRange" where
  "decl_range (ModuleDecl _ _ r) = r"
| "decl_range (ImportDecl _ _ r) = r"
| "decl_range (FunctionDecl _ _ _ _ _ r) = r"
| "decl_range (StructDecl _ _ _ r) = r"
| "decl_range (EnumDecl _ _ _ r) = r"
| "decl_range (VarDecl _ _ _ _ r) = r"
| "decl_range (TypeAliasDecl _ _ _ r) = r"

text \<open>The virtual \<open>nodeName\<close> of each node class.\<close>

fun type_nodeName :: "TypeNode \<Rightarrow> string" where
  "type_nodeName (NamedTypeNode _ _) = ''NamedTypeNode''"
| "type_nodeName (PointerTypeNode _ _ _) = ''PointerTypeNode''"
| "type_nodeName (SliceTypeNode _ _) = ''SliceTypeNode''"
| "type_nodeName (ArrayTypeNode _ _ _) = ''ArrayTypeNode''"
| "type_nodeName (FunctionTypeNode _ _ _) = ''FunctionTypeNode''"

fun expr_nodeName :: "Expr \<Rightarrow> string" where
  "expr_nodeName (BinaryExpr _ _ _ _) = ''BinaryExpr''"
| "expr_nodeName (UnaryExpr _ _ _) = ''UnaryExpr''"
| "expr_nodeName (AssignExpr _ _ _ _) = ''AssignExpr''"
| "expr_nodeName (CallExpr _ _ _) = ''CallExpr''"
| "expr_nodeName (IndexExpr _ _ _) = ''IndexExpr''"
| "expr_nodeName (MemberExpr _ _ _) = ''MemberExpr''"
| "expr_nodeName (CastExpr _ _ _) = ''CastExpr''"
| "expr_nodeName (IdentExpr _ _) = ''IdentExpr''"
| "expr_nodeName (IntLiteralExpr _ _) = ''IntLiteralExpr''"
| "expr_nodeName (FloatLiteralExpr _ _) = ''FloatLiteralExpr''"
| "expr_nodeName (StringLiteralExpr _ _) = ''StringLiteralExpr''"
| "expr_nodeName (CharLiteralExpr _ _) = ''CharLiteralExpr''"
| "expr_nodeName (BoolLiteralExpr _ _) = ''BoolLiteralExpr''"
| "expr_nodeName (NilLiteralExpr _) = ''NilLiteralExpr''"
| "expr_nodeName (ArrayLiteralExpr _ _) = ''ArrayLiteralExpr''"

fun stmt_nodeName :: "Stmt \<Rightarrow> string" where
  "stmt_nodeName (BlockStmt _ _) = ''BlockStmt''"
| "stmt_nodeName (ExprStmt _ _) = ''ExprStmt''"
| "stmt_nodeName (DeclStmt _ _) = ''DeclStmt''"
| "stmt_nodeName (ReturnStmt _ _) = ''ReturnStmt''"
| "stmt_nodeName (IfStmt _ _ _ _) = ''IfStmt''"
| "stmt_nodeName (WhileStmt _ _ _) = ''WhileStmt''"
| "stmt_nodeName (VloopStmt _ _ _) = ''VloopStmt''"
| "stmt_nodeName (ForStmt _ _ _ _) = ''ForStmt''"
| "stmt_nodeName (BreakStmt _) = ''BreakStmt''"
| "stmt_nodeName (ContinueStmt _) = ''ContinueStmt''"
| "stmt_nodeName (MatchStmt _ _ _) = ''MatchStmt''"

fun decl_nodeName :: "Decl \<Rightarrow> string" where
  "decl_nodeName (ModuleDecl _ _ _) = ''ModuleDecl''"
| "decl_nodeName (ImportDecl _ _ _) = ''ImportDecl''"
| "decl_nodeName (FunctionDecl _ _ _ _ _ _) = ''FunctionDecl''"
| "decl_nodeName (StructDecl _ _ _ _) = ''StructDecl''"
| "decl_nodeName (EnumDecl _ _ _ _) = ''EnumDecl''"
| "decl_nodeName (VarDecl _ _ _ _ _) = ''VarDecl''"
| "decl_nodeName (TypeAliasDecl _ _ _ _) = ''TypeAliasDecl''"

end
