(* ===== verification/Vcc_Numbers.thy ===== *)
theory Vcc_Numbers
  imports Vcc_Prelude
begin

text \<open>
  The conversions of the standard library that the parser applies to literal lexemes:
  \<open>std::stoll(s, nullptr, 0)\<close> and \<open>std::stod(s)\<close>. \<open>None\<close> is the exception they throw
  (\<open>std::invalid_argument\<close> or \<open>std::out_of_range\<close>).

  \<open>stoll\<close> follows C17 7.22.1.4: with base 0 a prefix \<open>0x\<close> means hexadecimal and a leading \<open>0\<close> octal
  (a C library with the C23 extension also accepts \<open>0b\<close>). \<open>stod\<close> covers the decimal form, which is
  all the lexer produces, rounds to the nearest double (ties to even), and throws when the result
  overflows or is subnormal and inexact, the cases in which \<open>strtod\<close> sets \<open>ERANGE\<close>. A double is its
  IEEE 754 bit pattern.
\<close>

definition isspace :: "char \<Rightarrow> bool" where
  "isspace c \<longleftrightarrow> ch_code c = 32 \<or> (9 \<le> ch_code c \<and> ch_code c \<le> 13)"

text \<open>The value of a digit or letter, 36 for any other character.\<close>

definition digit_value :: "char \<Rightarrow> int" where
  "digit_value c =
     (let k = ch_code c in
      int (if 48 \<le> k \<and> k \<le> 57 then k - 48
           else if 65 \<le> k \<and> k \<le> 90 then k - 55
           else if 97 \<le> k \<and> k \<le> 122 then k - 87
           else 36))"

definition digits_value :: "int \<Rightarrow> string \<Rightarrow> int" where
  "digits_value base ds = foldl (\<lambda>acc c. acc * base + digit_value c) 0 ds"

text \<open>An optional sign: whether it was a minus, and the rest.\<close>

fun take_sign :: "string \<Rightarrow> bool \<times> string" where
  "take_sign (c # s) = (if c = CHR ''-'' then (True, s) else if c = CHR ''+'' then (False, s) else (False, c # s))"
| "take_sign [] = (False, [])"

text \<open>The base that base 0 stands for, and the subject without the prefix.\<close>

fun detect_base :: "string \<Rightarrow> int \<times> string" where
  "detect_base (c # x # d # s) =
     (if c = CHR ''0'' \<and> (x = CHR ''x'' \<or> x = CHR ''X'') \<and> isxdigit d then (16, d # s)
      else if c = CHR ''0'' then (8, c # x # d # s) else (10, c # x # d # s))"
| "detect_base (c # s) = (if c = CHR ''0'' then (8, c # s) else (10, c # s))"
| "detect_base [] = (10, [])"

definition stoll :: "string \<Rightarrow> i64 option" where
  "stoll s =
     (let (neg, t) = take_sign (dropWhile isspace s);
          (base, subject) = detect_base t;
          digits = takeWhile (\<lambda>c. digit_value c < base) subject;
          v = (if neg then - digits_value base digits else digits_value base digits)
      in if digits = [] then None
         else if - (2 ^ 63) \<le> v \<and> v < 2 ^ 63 then Some (word_of_int v)
         else None)"


section \<open>Doubles\<close>

function ilog2 :: "int \<Rightarrow> nat" where
  "ilog2 n = (if n < 2 then 0 else Suc (ilog2 (n div 2)))"
  by pat_completeness simp
termination by (relation "measure nat") auto

declare ilog2.simps [simp del]

text \<open>The exponent of the unit in the last place of the double nearest to \<open>num / den\<close>.\<close>

definition ulp_exponent :: "int \<Rightarrow> int \<Rightarrow> int" where
  "ulp_exponent num den =
     (let a = ilog2 num; b = ilog2 den;
          k = (if den * 2 ^ (a - b) \<le> num * 2 ^ (b - a) then int a - int b else int a - int b - 1)
      in max (k - 52) (- 1074))"

text \<open>\<open>num / den\<close> as a fraction of that unit.\<close>

definition scale_num :: "int \<Rightarrow> int \<Rightarrow> int" where
  "scale_num num e = num * 2 ^ nat (- e)"

definition scale_den :: "int \<Rightarrow> int \<Rightarrow> int" where
  "scale_den den e = den * 2 ^ nat e"

definition round_half_even :: "int \<Rightarrow> int \<Rightarrow> int" where
  "round_half_even n d =
     (let q = n div d; r = n mod d in if 2 * r > d \<or> (2 * r = d \<and> odd q) then q + 1 else q)"

definition ratio_to_double :: "int \<Rightarrow> int \<Rightarrow> (64 word) option" where
  "ratio_to_double num den =
     (if num = 0 then Some 0
      else (let e = ulp_exponent num den;
                n = scale_num num e; d = scale_den den e;
                q = round_half_even n d;
                bits = (e + 1074) * 2 ^ 52 + q
            in if 2047 * 2 ^ 52 \<le> bits then None
               else if q < 2 ^ 52 \<and> n mod d \<noteq> 0 then None
               else Some (word_of_int bits)))"

text \<open>The exponent part, if one with a digit follows.\<close>

definition take_exponent :: "string \<Rightarrow> int" where
  "take_exponent s =
     (case s of
        [] \<Rightarrow> 0
      | c # t \<Rightarrow>
          if c = CHR ''e'' \<or> c = CHR ''E'' then
            (let (neg, u) = take_sign t; v = digits_value 10 (takeWhile isdigit u) in if neg then - v else v)
          else 0)"

definition stod :: "string \<Rightarrow> (64 word) option" where
  "stod s =
     (let (neg, t) = take_sign (dropWhile isspace s);
          whole = takeWhile isdigit t;
          t1 = dropWhile isdigit t;
          t2 = (case t1 of c # r \<Rightarrow> if c = CHR ''.'' then r else [] | [] \<Rightarrow> []);
          frac = takeWhile isdigit t2;
          rest = (if t1 \<noteq> [] \<and> hd t1 = CHR ''.'' then dropWhile isdigit t2 else t1);
          m = digits_value 10 (whole @ frac);
          e = take_exponent rest - int (length frac)
      in if whole @ frac = [] then None
         else map_option (\<lambda>w. if neg then w + 2 ^ 63 else w)
                (ratio_to_double (m * 10 ^ nat e) (10 ^ nat (- e))))"


section \<open>Reading back a decimal rendering\<close>

lemma digit_value_digit_char: "d < 10 \<Longrightarrow> digit_value (digit_char d) = int d"
proof -
  assume "d < 10"
  then have "d \<in> set [0..<10]" by simp
  moreover have "\<forall>d \<in> set [0..<10]. digit_value (digit_char d) = int d" by code_simp
  ultimately show ?thesis by blast
qed

lemma digit_char_zero: "d < 10 \<Longrightarrow> digit_char d = CHR ''0'' \<longleftrightarrow> d = 0"
  using digit_char_inj [of d 0] by (simp add: digit_char_def)

lemma digits_value_snoc: "digits_value b (ds @ [c]) = digits_value b ds * b + digit_value c"
  by (simp add: digits_value_def)

lemma digits_value_render: "digits_value 10 (nat_to_string n) = int n"
proof (induction n rule: nat_to_string.induct)
  case (1 n)
  show ?case
  proof (cases "n < 10")
    case True
    then show ?thesis
      by (simp add: nat_to_string.simps [of n] digits_value_def digit_value_digit_char)
  next
    case False
    with "1.IH" show ?thesis
      by (simp add: nat_to_string.simps [of n] digits_value_snoc digit_value_digit_char)
        presburger
  qed
qed

lemma render_head: "hd (nat_to_string n) = CHR ''0'' \<longleftrightarrow> n = 0"
proof (induction n rule: nat_to_string.induct)
  case (1 n)
  then show ?case
    by (cases "n < 10") (simp_all add: nat_to_string.simps [of n] digit_char_zero)
qed

lemma isdigit_digit_value: "isdigit c \<Longrightarrow> 0 \<le> digit_value c \<and> digit_value c < 10"
  by (auto simp: isdigit_def digit_value_def Let_def)

lemma detect_base_decimal: "s \<noteq> [] \<Longrightarrow> hd s \<noteq> CHR ''0'' \<Longrightarrow> detect_base s = (10, s)"
  by (cases s rule: detect_base.cases) auto

lemma isdigit_not_sign: "isdigit c \<Longrightarrow> c \<noteq> CHR ''-'' \<and> c \<noteq> CHR ''+'' \<and> \<not> isspace c"
  by (auto simp: isdigit_def isspace_def)

text \<open>
  A decimal integer literal means the number it spells: \<open>stoll\<close> reads back the decimal rendering
  of every value an \<open>int64_t\<close> holds, and throws on larger ones.
\<close>

theorem stoll_reads_decimal:
  "stoll (nat_to_string n) = (if n < 2 ^ 63 then Some (word_of_nat n) else None)"
proof -
  let ?s = "nat_to_string n"
  have ds: "list_all isdigit ?s" by (rule nat_to_string_digits)
  obtain c t where ct: "?s = c # t" by (cases ?s) auto
  with ds have c: "isdigit c" by simp
  have sign: "take_sign (dropWhile isspace ?s) = (False, ?s)"
    using isdigit_not_sign [OF c] by (simp add: ct)
  have all: "takeWhile (\<lambda>c. digit_value c < 10) ?s = ?s"
    using ds isdigit_digit_value by (auto simp: takeWhile_eq_all_conv list_all_iff)
  show ?thesis
  proof (cases "n = 0")
    case True
    then have "?s = ''0''" by (simp add: nat_to_string.simps digit_char_def)
    then show ?thesis using True sign
      by (simp add: stoll_def digits_value_def digit_value_def isspace_def)
  next
    case False
    then have "hd ?s \<noteq> CHR ''0''" by (simp add: render_head)
    then have "detect_base ?s = (10, ?s)" by (intro detect_base_decimal) simp_all
    then have "stoll ?s = (if int n < 2 ^ 63 then Some (word_of_int (int n)) else None)"
      using sign all by (simp add: stoll_def Let_def digits_value_render del: takeWhile_eq_all_conv)
    moreover have "(int n < 2 ^ 63) = (n < 2 ^ 63)" by (simp flip: of_nat_less_iff)
    ultimately show ?thesis by simp
  qed
qed


end
