(* ===== verification/Vcc_Parser_Base.thy ===== *)
theory Vcc_Parser_Base
  imports Vcc_Token Vcc_Context Vcc_Ast Vcc_Numbers
begin

text \<open>
  The parser's state and token utilities (\<open>include/vcc/parser/Parser.h\<close>, \<open>src/parser/Parser.cpp\<close>).

  A parsing method is a function from a fuel and a parser to a \<open>parse_result\<close>: it returns a value
  and the new state, or it throws (an exception of \<open>stoll\<close> or \<open>stod\<close>; the state is the one at the
  throw), or the fuel ran out. Every call of a parsing method and every iteration of one of its loops
  takes one unit of fuel, so that running out of every fuel is not returning.

  A token stream ends with \<open>Eof\<close>, as the constructor asserts; the position never moves past it.
\<close>

record Parser =
  ps_ctx :: CompilerContext
  ps_tokens :: "Token list"
  ps_pos :: nat

text \<open>The constructor; \<open>None\<close> is its failed assertion.\<close>

definition new_parser :: "CompilerContext \<Rightarrow> Token list \<Rightarrow> Parser option" where
  "new_parser ctx toks =
     (if toks \<noteq> [] \<and> token_isEof (last toks)
      then Some \<lparr>ps_ctx = ctx, ps_tokens = toks, ps_pos = 0\<rparr> else None)"

datatype 'a parse_result = NoFuel | Throw Parser | Parsed 'a Parser

definition andThen :: "'a parse_result \<Rightarrow> ('a \<Rightarrow> Parser \<Rightarrow> 'b parse_result) \<Rightarrow> 'b parse_result" where
  "andThen r f = (case r of NoFuel \<Rightarrow> NoFuel | Throw p \<Rightarrow> Throw p | Parsed x p \<Rightarrow> f x p)"

lemma andThen_simps [simp]:
  "andThen NoFuel f = NoFuel"
  "andThen (Throw p) f = Throw p"
  "andThen (Parsed x p) f = f x p"
  by (simp_all add: andThen_def)


section \<open>Token utilities\<close>

definition current :: "Parser \<Rightarrow> Token" where
  "current p = ps_tokens p ! ps_pos p"

definition ps_peek :: "nat \<Rightarrow> Parser \<Rightarrow> Token" where
  "ps_peek offset p =
     (let idx = ps_pos p + offset in
      if idx < length (ps_tokens p) then ps_tokens p ! idx else last (ps_tokens p))"

definition isAtEnd :: "Parser \<Rightarrow> bool" where
  "isAtEnd p = token_isEof (current p)"

text \<open>The state after \<open>advance()\<close>, and the token it returns.\<close>

definition ps_advance :: "Parser \<Rightarrow> Parser" where
  "ps_advance p = (if isAtEnd p then p else p\<lparr>ps_pos := ps_pos p + 1\<rparr>)"

definition advanced_token :: "Parser \<Rightarrow> Token" where
  "advanced_token p = ps_tokens p ! (ps_pos (ps_advance p) - 1)"

definition ps_check :: "TokenKind \<Rightarrow> Parser \<Rightarrow> bool" where
  "ps_check k p = token_is (current p) k"

text \<open>
  \<open>match(k)\<close>: whether the current token was \<open>k\<close>, and the state after consuming it if so. Where the
  code branches on \<open>match(k)\<close> the definitions below branch on \<open>ps_check k p\<close> and go on with
  \<open>ps_advance p\<close>; where it ignores the answer (an optional token) they use \<open>ps_skip\<close>.
\<close>

definition ps_match :: "TokenKind \<Rightarrow> Parser \<Rightarrow> bool \<times> Parser" where
  "ps_match k p = (if ps_check k p then (True, ps_advance p) else (False, p))"

definition ps_skip :: "TokenKind \<Rightarrow> Parser \<Rightarrow> Parser" where
  "ps_skip k p = snd (ps_match k p)"

definition ps_error :: "SourceLocation \<Rightarrow> string \<Rightarrow> Parser \<Rightarrow> Parser" where
  "ps_error loc msg p = p\<lparr>ps_ctx := ctx_error loc msg (ps_ctx p)\<rparr>"

definition ps_expect :: "TokenKind \<Rightarrow> string \<Rightarrow> Parser \<Rightarrow> Token \<times> Parser" where
  "ps_expect k msg p =
     (if ps_check k p then (advanced_token p, ps_advance p)
      else ((current p)\<lparr>tok_kind := k\<rparr>,
            ps_error (tok_location (current p)) (msg @ '' (got '' @ tokenKindName (tok_kind (current p)) @ '')'') p))"

text \<open>\<open>expect\<close> where only the lexeme, or nothing, of the token is used.\<close>

definition ps_expect_lexeme :: "TokenKind \<Rightarrow> string \<Rightarrow> Parser \<Rightarrow> string \<times> Parser" where
  "ps_expect_lexeme k msg p = (let (t, p1) = ps_expect k msg p in (tok_lexeme t, p1))"

definition ps_require :: "TokenKind \<Rightarrow> string \<Rightarrow> Parser \<Rightarrow> Parser" where
  "ps_require k msg p = snd (ps_expect k msg p)"

definition cur_kind :: "Parser \<Rightarrow> TokenKind" where
  "cur_kind p = tok_kind (current p)"

definition cur_loc :: "Parser \<Rightarrow> SourceLocation" where
  "cur_loc p = tok_location (current p)"

text \<open>
  \<open>synchronize\<close>: its loop advances at each iteration, so the number of tokens left bounds it.
\<close>

definition sync_kinds :: "TokenKind list" where
  "sync_kinds = [KwFn, KwFun, KwStruct, KwEnum, KwLet, KwVar, KwConst, KwReturn, KwIf, KwEf,
     KwMatch, KwWhile, KwVloop, KwFor]"

fun sync_loop :: "nat \<Rightarrow> Parser \<Rightarrow> Parser" where
  "sync_loop 0 p = p"
| "sync_loop (Suc n) p =
     (if isAtEnd p then p
      else if ps_check TkSemicolon p then ps_advance p
      else if cur_kind p \<in> set sync_kinds then p
      else sync_loop n (ps_advance p))"

definition synchronize :: "Parser \<Rightarrow> Parser" where
  "synchronize p = sync_loop (length (ps_tokens p) - ps_pos p) p"

definition parse_recovery :: "Parser \<Rightarrow> Parser" where
  "parse_recovery p = synchronize (ps_error (cur_loc p) ''parse error; attempting recovery'' p)"


section \<open>Operator tables\<close>

fun precedence_of :: "TokenKind \<Rightarrow> nat" where
  "precedence_of TkOrOr = 1"
| "precedence_of TkAndAnd = 2"
| "precedence_of TkPipe = 3"
| "precedence_of TkCaret = 4"
| "precedence_of TkAmp = 5"
| "precedence_of TkEqEq = 6"
| "precedence_of TkNotEq = 6"
| "precedence_of TkLt = 7"
| "precedence_of TkGt = 7"
| "precedence_of TkLtEq = 7"
| "precedence_of TkGtEq = 7"
| "precedence_of TkShl = 8"
| "precedence_of TkShr = 8"
| "precedence_of TkPlus = 9"
| "precedence_of TkMinus = 9"
| "precedence_of TkStar = 10"
| "precedence_of TkSlash = 10"
| "precedence_of TkPercent = 10"
| "precedence_of _ = 0"

definition infixPrecedence :: "Parser \<Rightarrow> nat" where
  "infixPrecedence p = precedence_of (cur_kind p)"

fun tokenToBinaryOp :: "TokenKind \<Rightarrow> BinaryOp" where
  "tokenToBinaryOp TkPlus = BoAdd"
| "tokenToBinaryOp TkMinus = BoSub"
| "tokenToBinaryOp TkStar = BoMul"
| "tokenToBinaryOp TkSlash = BoDiv"
| "tokenToBinaryOp TkPercent = BoMod"
| "tokenToBinaryOp TkEqEq = BoEq"
| "tokenToBinaryOp TkNotEq = BoNotEq"
| "tokenToBinaryOp TkLt = BoLt"
| "tokenToBinaryOp TkGt = BoGt"
| "tokenToBinaryOp TkLtEq = BoLtEq"
| "tokenToBinaryOp TkGtEq = BoGtEq"
| "tokenToBinaryOp TkAndAnd = BoAnd"
| "tokenToBinaryOp TkOrOr = BoOr"
| "tokenToBinaryOp TkAmp = BoBitAnd"
| "tokenToBinaryOp TkPipe = BoBitOr"
| "tokenToBinaryOp TkCaret = BoBitXor"
| "tokenToBinaryOp TkShl = BoShl"
| "tokenToBinaryOp TkShr = BoShr"
| "tokenToBinaryOp _ = BoAdd"

fun tokenToAssignOp :: "TokenKind \<Rightarrow> AssignOp" where
  "tokenToAssignOp TkEq = AoAssign"
| "tokenToAssignOp TkPlusEq = AoAddAssign"
| "tokenToAssignOp TkMinusEq = AoSubAssign"
| "tokenToAssignOp TkStarEq = AoMulAssign"
| "tokenToAssignOp TkSlashEq = AoDivAssign"
| "tokenToAssignOp TkPercentEq = AoModAssign"
| "tokenToAssignOp TkAmpEq = AoBitAndAssign"
| "tokenToAssignOp TkPipeEq = AoBitOrAssign"
| "tokenToAssignOp TkCaretEq = AoBitXorAssign"
| "tokenToAssignOp _ = AoAssign"

definition isAssignOp :: "TokenKind \<Rightarrow> bool" where
  "isAssignOp k \<longleftrightarrow> k \<in> {TkEq, TkPlusEq, TkMinusEq, TkStarEq, TkSlashEq, TkPercentEq, TkAmpEq,
     TkPipeEq, TkCaretEq}"

text \<open>The prefix operators of \<open>parsePrimaryExpr\<close>.\<close>

fun prefixOp :: "TokenKind \<Rightarrow> UnaryOp option" where
  "prefixOp TkMinus = Some UoNeg"
| "prefixOp TkBang = Some UoNot"
| "prefixOp TkTilde = Some UoBitNot"
| "prefixOp TkStar = Some UoDeref"
| "prefixOp TkAmp = Some UoAddrOf"
| "prefixOp _ = None"

end
