(* ===== verification/Vcc_Parser_Expr.thy ===== *)
theory Vcc_Parser_Expr
  imports Vcc_Parser_Base
begin

text \<open>
  Types and expressions (\<open>parseType\<close>, \<open>parseExpr\<close>, \<open>parsePrimaryExpr\<close>, \<open>parsePostfixExpr\<close>,
  \<open>parseCallArgs\<close> of \<open>src/parser/Parser.cpp\<close>): a Pratt parser. The loops of the code are the
  functions \<open>parsePathTail\<close> (qualified names), \<open>parseTypeList\<close> and \<open>parseExprList\<close> (the
  \<open>do { ... } while (match(Comma))\<close> loops), \<open>infixLoop\<close> and \<open>parsePostfixExpr\<close> itself.
\<close>

text \<open>
  The tail of a qualified name, \<open>while (match(sep)) name += text; name += expect(Identifier)\<close>: of an
  import path with dots, and of a type name with \<open>::\<close>.
\<close>

fun parsePathTail :: "TokenKind \<Rightarrow> string \<Rightarrow> string \<Rightarrow> nat \<Rightarrow> string \<Rightarrow> Parser \<Rightarrow> string parse_result" where
  "parsePathTail sep sep_text msg 0 name p = NoFuel"
| "parsePathTail sep sep_text msg (Suc n) name p =
     (if ps_check sep p then
        (let (part, p1) = ps_expect_lexeme TkIdentifier msg (ps_advance p)
         in parsePathTail sep sep_text msg n (name @ sep_text @ part) p1)
      else Parsed name p)"

text \<open>
  The literals other than arrays, identifiers, and the error case, which returns a sentinel and
  skips the bad token. A literal whose conversion throws is not consumed.
\<close>

definition parseAtom :: "Parser \<Rightarrow> Expr parse_result" where
  "parseAtom p =
     (let k = cur_kind p; r = range_at (cur_loc p); s = tok_lexeme (current p) in
      if k = TkIntLiteral then
        (case stoll s of None \<Rightarrow> Throw p | Some v \<Rightarrow> Parsed (IntLiteralExpr v r) (ps_advance p))
      else if k = TkFloatLiteral then
        (case stod s of None \<Rightarrow> Throw p | Some v \<Rightarrow> Parsed (FloatLiteralExpr v r) (ps_advance p))
      else if k = TkStringLiteral then
        Parsed (StringLiteralExpr (if 2 \<le> length s then substr s 1 (length s - 2) else s) r) (ps_advance p)
      else if k = TkCharLiteral then
        Parsed (CharLiteralExpr (if 1 < length s then scast (of_char (s ! 1) :: 8 word) else 0) r) (ps_advance p)
      else if k = KwTrue then Parsed (BoolLiteralExpr True r) (ps_advance p)
      else if k = KwFalse then Parsed (BoolLiteralExpr False r) (ps_advance p)
      else if k = KwNil then Parsed (NilLiteralExpr r) (ps_advance p)
      else if k = TkIdentifier then Parsed (IdentExpr s r) (ps_advance p)
      else Parsed (NilLiteralExpr r)
             (ps_advance (ps_error (cur_loc p) (''expected an expression (got '' @ tokenKindName k @ '')'') p)))"

function (sequential) parseType :: "nat \<Rightarrow> Parser \<Rightarrow> TypeNode parse_result"
  and parseTypeList :: "nat \<Rightarrow> Parser \<Rightarrow> TypeNode list parse_result"
  and parseExpr :: "nat \<Rightarrow> nat \<Rightarrow> Parser \<Rightarrow> Expr parse_result"
  and infixLoop :: "nat \<Rightarrow> nat \<Rightarrow> Expr \<Rightarrow> Parser \<Rightarrow> Expr parse_result"
  and parsePrimaryExpr :: "nat \<Rightarrow> Parser \<Rightarrow> Expr parse_result"
  and parsePostfixExpr :: "nat \<Rightarrow> Expr \<Rightarrow> Parser \<Rightarrow> Expr parse_result"
  and parseCallArgs :: "nat \<Rightarrow> Expr \<Rightarrow> Parser \<Rightarrow> Expr parse_result"
  and parseExprList :: "nat \<Rightarrow> Parser \<Rightarrow> Expr list parse_result" where
  "parseType 0 p = NoFuel"
| "parseType (Suc n) p =
     (let r = range_at (cur_loc p) in
      if ps_check TkStar p then
        (let (isMut, p1) = ps_match KwMut (ps_advance p)
         in andThen (parseType n p1) (\<lambda>inner p2. Parsed (PointerTypeNode inner isMut r) p2))
      else if ps_check TkLBracket p then
        andThen (parseType n (ps_advance p)) (\<lambda>elem p1.
          if ps_check TkSemicolon p1 then
            andThen (parseExpr n 0 (ps_advance p1)) (\<lambda>size p2.
              Parsed (ArrayTypeNode elem size r) (ps_require TkRBracket (''expected '' @ quoted '']'') p2))
          else Parsed (SliceTypeNode elem r) (ps_require TkRBracket (''expected '' @ quoted '']'') p1))
      else if ps_check KwFn p \<or> ps_check KwFun p then
        (let p1 = ps_require TkLParen (''expected '' @ quoted ''('' @ '' in function type'') (ps_advance p) in
         andThen (if ps_check TkRParen p1 then Parsed [] p1 else parseTypeList n p1) (\<lambda>params p2.
           (let p3 = ps_require TkRParen (''expected '' @ quoted '')'' @ '' in function type'') p2 in
            if ps_check TkArrow p3 then
              andThen (parseType n (ps_advance p3)) (\<lambda>ret p4. Parsed (FunctionTypeNode params (Some ret) r) p4)
            else Parsed (FunctionTypeNode params None r) p3)))
      else
        (let (name, p1) = ps_expect_lexeme TkIdentifier ''expected type name'' p in
         andThen (parsePathTail TkColonColon ''::'' ''expected type name component'' n name p1)
           (\<lambda>full p2. Parsed (NamedTypeNode full r) p2)))"
| "parseTypeList 0 p = NoFuel"
| "parseTypeList (Suc n) p =
     andThen (parseType n p) (\<lambda>t p1.
       if ps_check TkComma p1 then
         andThen (parseTypeList n (ps_advance p1)) (\<lambda>ts p2. Parsed (t # ts) p2)
       else Parsed [t] p1)"
| "parseExpr 0 minPrec p = NoFuel"
| "parseExpr (Suc n) minPrec p =
     andThen (parsePrimaryExpr n p) (\<lambda>primary p1.
     andThen (parsePostfixExpr n primary p1) (\<lambda>lhs p2.
       if isAssignOp (cur_kind p2) then
         andThen (parseExpr n 0 (ps_advance p2)) (\<lambda>rhs p3.
           Parsed (AssignExpr (tokenToAssignOp (cur_kind p2)) lhs rhs (range_at (cur_loc p2))) p3)
       else infixLoop n minPrec lhs p2))"
| "infixLoop 0 minPrec lhs p = NoFuel"
| "infixLoop (Suc n) minPrec lhs p =
     (let prec = infixPrecedence p in
      if prec \<le> minPrec then Parsed lhs p
      else andThen (parseExpr n prec (ps_advance p)) (\<lambda>rhs p1.
           andThen (parsePostfixExpr n
               (BinaryExpr (tokenToBinaryOp (cur_kind p)) lhs rhs (range_at (cur_loc p))) p1) (\<lambda>lhs1 p2.
             infixLoop n minPrec lhs1 p2)))"
| "parsePrimaryExpr 0 p = NoFuel"
| "parsePrimaryExpr (Suc n) p =
     (let r = range_at (cur_loc p) in
      case prefixOp (cur_kind p) of
        Some op \<Rightarrow> andThen (parsePrimaryExpr n (ps_advance p)) (\<lambda>operand p1. Parsed (UnaryExpr op operand r) p1)
      | None \<Rightarrow>
          if ps_check TkLParen p then
            andThen (parseExpr n 0 (ps_advance p)) (\<lambda>e p1.
              Parsed e (ps_require TkRParen (''expected '' @ quoted '')'' @ '' after expression'') p1))
          else if ps_check KwArray p then
            (let p1 = ps_require TkLBracket (''expected '' @ quoted ''['' @ '' after '' @ quoted ''array'') (ps_advance p) in
             andThen (if ps_check TkRBracket p1 then Parsed [] p1 else parseExprList n p1) (\<lambda>elems p2.
               Parsed (ArrayLiteralExpr elems r)
                 (ps_require TkRBracket (''expected '' @ quoted '']'' @ '' after array elements'') p2)))
          else parseAtom p)"
| "parsePostfixExpr 0 lhs p = NoFuel"
| "parsePostfixExpr (Suc n) lhs p =
     (let r = range_at (cur_loc p) in
      if ps_check TkLParen p then
        andThen (parseCallArgs n lhs (ps_advance p)) (\<lambda>call p1. parsePostfixExpr n call p1)
      else if ps_check TkLBracket p then
        andThen (parseExpr n 0 (ps_advance p)) (\<lambda>index p1.
          parsePostfixExpr n (IndexExpr lhs index r) (ps_require TkRBracket (''expected '' @ quoted '']'') p1))
      else if ps_check TkDot p then
        (let (member, p1) = ps_expect_lexeme TkIdentifier ''expected field name'' (ps_advance p)
         in parsePostfixExpr n (MemberExpr lhs member r) p1)
      else if ps_check KwAs p then
        andThen (parseType n (ps_advance p)) (\<lambda>targetType p1.
          parsePostfixExpr n (CastExpr lhs targetType r) p1)
      else Parsed lhs p)"
| "parseCallArgs 0 callee p = NoFuel"
| "parseCallArgs (Suc n) callee p =
     andThen (if ps_check TkRParen p then Parsed [] p else parseExprList n p) (\<lambda>args p1.
       Parsed (CallExpr callee args (range_at (cur_loc p)))
         (ps_require TkRParen (''expected '' @ quoted '')'' @ '' after arguments'') p1))"
| "parseExprList 0 p = NoFuel"
| "parseExprList (Suc n) p =
     andThen (parseExpr n 0 p) (\<lambda>e p1.
       if ps_check TkComma p1 then
         andThen (parseExprList n (ps_advance p1)) (\<lambda>es p2. Parsed (e # es) p2)
       else Parsed [e] p1)"

  by pat_completeness auto
termination
  by (relation "measure (\<lambda>x. case x of
       Inl (Inl (Inl (n, _))) \<Rightarrow> n | Inl (Inl (Inr (n, _))) \<Rightarrow> n
     | Inl (Inr (Inl (n, _))) \<Rightarrow> n | Inl (Inr (Inr (n, _))) \<Rightarrow> n
     | Inr (Inl (Inl (n, _))) \<Rightarrow> n | Inr (Inl (Inr (n, _))) \<Rightarrow> n
     | Inr (Inr (Inl (n, _))) \<Rightarrow> n | Inr (Inr (Inr (n, _))) \<Rightarrow> n)") simp_all

declare parsePathTail.simps [simp del]
declare parseType.simps [simp del]
declare parseTypeList.simps [simp del]
declare parseExpr.simps [simp del]
declare infixLoop.simps [simp del]
declare parsePrimaryExpr.simps [simp del]
declare parsePostfixExpr.simps [simp del]
declare parseCallArgs.simps [simp del]
declare parseExprList.simps [simp del]

end
