(* ===== verification/Vcc_Parser_Stmt.thy ===== *)
theory Vcc_Parser_Stmt
  imports Vcc_Parser_Expr
begin

text \<open>
  Statements (\<open>parseStmt\<close>, \<open>parseBlock\<close> and the methods of the compound statements of
  \<open>src/parser/Parser.cpp\<close>). The loops are \<open>blockLoop\<close> and \<open>armsLoop\<close>; \<open>parseBody\<close> is the choice
  between a braced block and a single statement that several methods make, \<open>parseElse\<close> the end of
  \<open>parseIfStmt\<close>.
\<close>

text \<open>The kind of a variable declaration, by its keyword, which is consumed.\<close>

definition parseVarKind :: "Parser \<Rightarrow> VarKind \<times> Parser" where
  "parseVarKind p =
     (if ps_check KwLet p then (VkLet, ps_advance p)
      else if ps_check KwVar p then (VkVar, ps_advance p)
      else if ps_check KwConst p then (VkConst, ps_advance p)
      else (VkLet, p))"

definition parseVarDecl :: "nat \<Rightarrow> Parser \<Rightarrow> Decl parse_result" where
  "parseVarDecl n p =
     (let r = range_at (cur_loc p);
          (vk, p1) = parseVarKind p;
          (name, p2) = ps_expect_lexeme TkIdentifier ''expected variable name'' p1
      in andThen (if ps_check TkColon p2 then andThen (parseType n (ps_advance p2)) (\<lambda>t p3. Parsed (Some t) p3)
                  else Parsed None p2) (\<lambda>type p3.
         andThen (if ps_check TkEq p3 then andThen (parseExpr n 0 (ps_advance p3)) (\<lambda>e p4. Parsed (Some e) p4)
                  else Parsed None p3) (\<lambda>init p4.
         Parsed (VarDecl vk name type init r) (ps_skip TkSemicolon p4))))"

definition parseReturnStmt :: "nat \<Rightarrow> Parser \<Rightarrow> Stmt parse_result" where
  "parseReturnStmt n p =
     andThen (if \<not> ps_check TkSemicolon p \<and> \<not> ps_check TkRBrace p \<and> \<not> isAtEnd p
              then andThen (parseExpr n 0 p) (\<lambda>e p1. Parsed (Some e) p1)
              else Parsed None p) (\<lambda>val p1.
     Parsed (ReturnStmt val (range_at (cur_loc p))) (ps_skip TkSemicolon p1))"

definition is_wildcard :: "Parser \<Rightarrow> bool" where
  "is_wildcard p \<longleftrightarrow> ps_check TkIdentifier p \<and> tok_lexeme (current p) = ''_''"

function (sequential) parseStmt :: "nat \<Rightarrow> Parser \<Rightarrow> Stmt parse_result"
  and parseBlock :: "nat \<Rightarrow> Parser \<Rightarrow> Stmt parse_result"
  and blockLoop :: "nat \<Rightarrow> Parser \<Rightarrow> Stmt list parse_result"
  and parseBody :: "nat \<Rightarrow> Parser \<Rightarrow> Stmt parse_result"
  and parseIfStmt :: "nat \<Rightarrow> Parser \<Rightarrow> Stmt parse_result"
  and parseElse :: "nat \<Rightarrow> Parser \<Rightarrow> Stmt option parse_result"
  and parseWhileStmt :: "nat \<Rightarrow> Parser \<Rightarrow> Stmt parse_result"
  and parseVloopStmt :: "nat \<Rightarrow> Parser \<Rightarrow> Stmt parse_result"
  and parseMatchStmt :: "nat \<Rightarrow> Parser \<Rightarrow> Stmt parse_result"
  and armsLoop :: "nat \<Rightarrow> Parser \<Rightarrow> MatchArm list parse_result"
  and parseForStmt :: "nat \<Rightarrow> Parser \<Rightarrow> Stmt parse_result" where
  "parseStmt 0 p = NoFuel"
| "parseStmt (Suc n) p =
     (let k = cur_kind p; r = range_at (cur_loc p) in
      if k = TkLBrace then parseBlock n p
      else if k = KwIf \<or> k = KwEf then parseIfStmt n (ps_advance p)
      else if k = KwMatch then parseMatchStmt n (ps_advance p)
      else if k = KwWhile then parseWhileStmt n (ps_advance p)
      else if k = KwVloop then parseVloopStmt n (ps_advance p)
      else if k = KwFor then parseForStmt n (ps_advance p)
      else if k = KwReturn then parseReturnStmt n (ps_advance p)
      else if k = KwBreak then Parsed (BreakStmt r) (ps_skip TkSemicolon (ps_advance p))
      else if k = KwContinue then Parsed (ContinueStmt r) (ps_skip TkSemicolon (ps_advance p))
      else if k = KwLet \<or> k = KwVar \<or> k = KwConst then
        andThen (parseVarDecl n p) (\<lambda>d p1. Parsed (DeclStmt d r) p1)
      else andThen (parseExpr n 0 p) (\<lambda>e p1. Parsed (ExprStmt e r) (ps_skip TkSemicolon p1)))"
| "parseBlock 0 p = NoFuel"
| "parseBlock (Suc n) p =
     andThen (blockLoop n (ps_require TkLBrace (''expected '' @ quoted ''{'') p)) (\<lambda>ss p1.
       (let p2 = ps_require TkRBrace (''expected '' @ quoted ''}'') p1
        in Parsed (BlockStmt ss (range_span (cur_loc p) (cur_loc p2))) p2))"
| "blockLoop 0 p = NoFuel"
| "blockLoop (Suc n) p =
     (if \<not> ps_check TkRBrace p \<and> \<not> isAtEnd p then
        andThen (parseStmt n p) (\<lambda>s p1. andThen (blockLoop n p1) (\<lambda>ss p2. Parsed (s # ss) p2))
      else Parsed [] p)"
| "parseBody 0 p = NoFuel"
| "parseBody (Suc n) p = (if ps_check TkLBrace p then parseBlock n p else parseStmt n p)"
| "parseIfStmt 0 p = NoFuel"
| "parseIfStmt (Suc n) p =
     andThen (parseExpr n 0 (ps_skip TkLParen p)) (\<lambda>cond p1.
     andThen (parseBody n (ps_skip TkRParen p1)) (\<lambda>thenS p2.
     andThen (parseElse n p2) (\<lambda>els p3.
     Parsed (IfStmt cond thenS els (range_at (cur_loc p))) p3)))"
| "parseElse 0 p = NoFuel"
| "parseElse (Suc n) p =
     (if ps_check KwEf p \<or> (ps_check KwElse p \<and> tok_kind (ps_peek 1 p) = KwIf) then
        (let p1 = ps_advance p; p2 = (if ps_check KwIf p1 then ps_advance p1 else p1)
         in andThen (parseIfStmt n p2) (\<lambda>s p3. Parsed (Some s) p3))
      else if ps_check KwEl p \<or> ps_check KwElse p then
        andThen (parseBody n (ps_advance p)) (\<lambda>s p1. Parsed (Some s) p1)
      else Parsed None p)"
| "parseWhileStmt 0 p = NoFuel"
| "parseWhileStmt (Suc n) p =
     andThen (parseExpr n 0 p) (\<lambda>cond p1.
     andThen (parseBlock n p1) (\<lambda>body p2.
     Parsed (WhileStmt cond body (range_at (cur_loc p))) p2))"
| "parseVloopStmt 0 p = NoFuel"
| "parseVloopStmt (Suc n) p =
     andThen (parseExpr n 0 (ps_require TkLParen (''expected '' @ quoted ''('' @ '' after '' @ quoted ''vloop'') p)) (\<lambda>cond p1.
       (let p2 = ps_require TkRParen (''expected '' @ quoted '')'' @ '' after vloop condition'') p1 in
        andThen (if ps_check TkLBrace p2 then parseBlock n p2
                 else andThen (parseStmt n p2) (\<lambda>s p3. Parsed (BlockStmt [s] range_default) p3)) (\<lambda>body p3.
        Parsed (VloopStmt cond body (range_at (cur_loc p))) p3)))"
| "parseMatchStmt 0 p = NoFuel"
| "parseMatchStmt (Suc n) p =
     andThen (parseExpr n 0 (ps_skip TkLParen p)) (\<lambda>subject p1.
     andThen (armsLoop n (ps_require TkLBrace (''expected '' @ quoted ''{'' @ '' after match subject'') (ps_skip TkRParen p1))) (\<lambda>arms p2.
     Parsed (MatchStmt subject arms (range_at (cur_loc p)))
       (ps_require TkRBrace (''expected '' @ quoted ''}'' @ '' after match arms'') p2)))"
| "armsLoop 0 p = NoFuel"
| "armsLoop (Suc n) p =
     (if \<not> ps_check TkRBrace p \<and> \<not> isAtEnd p then
        andThen (if is_wildcard p then Parsed None (ps_advance p)
                 else andThen (parseExpr n 0 p) (\<lambda>e p1. Parsed (Some e) p1)) (\<lambda>pattern p1.
        andThen (parseBody n (ps_require TkFatArrow (''expected '' @ quoted ''=>'' @ '' in match arm'') p1)) (\<lambda>body p2.
        andThen (armsLoop n (ps_skip TkComma p2)) (\<lambda>arms p3.
        Parsed (MatchArm pattern body # arms) p3)))
      else Parsed [] p)"
| "parseForStmt 0 p = NoFuel"
| "parseForStmt (Suc n) p =
     (let (var, p1) = ps_expect_lexeme TkIdentifier ''expected loop variable'' p;
          p2 = ps_require KwIn (''expected '' @ quoted ''in'' @ '' in for loop'') p1
      in andThen (parseExpr n 0 p2) (\<lambda>iter p3.
         andThen (parseBlock n p3) (\<lambda>body p4.
         Parsed (ForStmt var iter body (range_at (cur_loc p))) p4)))"
  by pat_completeness auto
termination
  by (relation "measure (\<lambda>x. case x of
       Inl (Inl (Inl (n, _))) \<Rightarrow> n | Inl (Inl (Inr (n, _))) \<Rightarrow> n
     | Inl (Inr (Inl (n, _))) \<Rightarrow> n | Inl (Inr (Inr (Inl (n, _)))) \<Rightarrow> n | Inl (Inr (Inr (Inr (n, _)))) \<Rightarrow> n
     | Inr (Inl (Inl (n, _))) \<Rightarrow> n | Inr (Inl (Inr (Inl (n, _)))) \<Rightarrow> n | Inr (Inl (Inr (Inr (n, _)))) \<Rightarrow> n
     | Inr (Inr (Inl (n, _))) \<Rightarrow> n | Inr (Inr (Inr (Inl (n, _)))) \<Rightarrow> n | Inr (Inr (Inr (Inr (n, _)))) \<Rightarrow> n)") simp_all

declare parseStmt.simps [simp del]
declare parseBlock.simps [simp del]
declare blockLoop.simps [simp del]
declare parseBody.simps [simp del]
declare parseIfStmt.simps [simp del]
declare parseElse.simps [simp del]
declare parseWhileStmt.simps [simp del]
declare parseVloopStmt.simps [simp del]
declare parseMatchStmt.simps [simp del]
declare armsLoop.simps [simp del]
declare parseForStmt.simps [simp del]

end
