(* ===== verification/Vcc_Parser_Decl.thy ===== *)
theory Vcc_Parser_Decl
  imports Vcc_Parser_Stmt
begin

text \<open>
  Declarations and the module (\<open>parse\<close>, \<open>parseTopLevelDecl\<close> and the methods of the declarations in
  \<open>src/parser/Parser.cpp\<close>). \<open>parse\<close> catches what the methods below it throw, reports it and
  synchronizes; it collects the statements outside functions, and in scripting mode a call of each
  function, into a synthetic \<open>main\<close>.
\<close>

definition parseImportDecl :: "nat \<Rightarrow> Parser \<Rightarrow> Decl parse_result" where
  "parseImportDecl n p =
     (let (part, p1) = ps_expect_lexeme TkIdentifier ''expected module path'' p
      in andThen (parsePathTail TkDot ''.'' ''expected module path component'' n part p1) (\<lambda>path p2.
           (let (alias_name, p3) =
                  (if ps_check KwAs p2 then
                     (let (a, p3) = ps_expect_lexeme TkIdentifier ''expected alias name'' (ps_advance p2) in (Some a, p3))
                   else (None, p2))
            in Parsed (ImportDecl path alias_name (range_at (cur_loc p))) (ps_skip TkSemicolon p3))))"

definition parseParam :: "nat \<Rightarrow> Parser \<Rightarrow> ParameterDecl parse_result" where
  "parseParam n p =
     (let (isMut, p1) = ps_match KwMut p;
          (name, p2) = ps_expect_lexeme TkIdentifier ''expected parameter name'' p1;
          p3 = ps_require TkColon (''expected '' @ quoted '':'' @ '' after parameter name'') p2
      in andThen (parseType n p3) (\<lambda>type p4.
           Parsed \<lparr>param_name = name, param_type = type, param_isMut = isMut, param_range = range_at (cur_loc p)\<rparr> p4))"

text \<open>The \<open>do { ... } while (match(Comma) && !check(RParen))\<close> loop of \<open>parseParamList\<close>.\<close>

fun paramLoop :: "nat \<Rightarrow> Parser \<Rightarrow> ParameterDecl list parse_result" where
  "paramLoop 0 p = NoFuel"
| "paramLoop (Suc n) p =
     andThen (parseParam n p) (\<lambda>x p1.
       (let (comma, p2) = ps_match TkComma p1 in
        if comma \<and> \<not> ps_check TkRParen p2 then
          andThen (paramLoop n p2) (\<lambda>xs p3. Parsed (x # xs) p3)
        else Parsed [x] p2))"

definition parseParamList :: "nat \<Rightarrow> Parser \<Rightarrow> ParameterDecl list parse_result" where
  "parseParamList n p = (if ps_check TkRParen p then Parsed [] p else paramLoop n p)"

text \<open>The body of a function without braces: statements up to the next declaration keyword.\<close>

definition decl_boundary :: "TokenKind list" where
  "decl_boundary = [KwFn, KwFun, KwPub, KwStruct, KwEnum, KwType, KwImport, KwModule]"

fun bracelessLoop :: "nat \<Rightarrow> Parser \<Rightarrow> Stmt list parse_result" where
  "bracelessLoop 0 p = NoFuel"
| "bracelessLoop (Suc n) p =
     (if isAtEnd p \<or> cur_kind p \<in> set decl_boundary then Parsed [] p
      else andThen (parseStmt n p) (\<lambda>s p1. andThen (bracelessLoop n p1) (\<lambda>ss p2. Parsed (s # ss) p2)))"

definition parseFunctionDecl :: "nat \<Rightarrow> bool \<Rightarrow> Parser \<Rightarrow> Decl parse_result" where
  "parseFunctionDecl n isPub p =
     (let (name, p1) = ps_expect_lexeme TkIdentifier ''expected function name'' p;
          p2 = ps_require TkLParen (''expected '' @ quoted ''('' @ '' after function name'') p1
      in andThen (parseParamList n p2) (\<lambda>params p3.
           (let p4 = ps_require TkRParen (''expected '' @ quoted '')'' @ '' after parameters'') p3 in
            andThen (if ps_check TkArrow p4 then andThen (parseType n (ps_advance p4)) (\<lambda>t p5. Parsed (Some t) p5)
                     else Parsed None p4) (\<lambda>returnType p5.
            andThen (if ps_check TkLBrace p5 then parseBlock n p5
                     else andThen (bracelessLoop n p5) (\<lambda>ss p6. Parsed (BlockStmt ss range_default) p6)) (\<lambda>body p6.
            Parsed (FunctionDecl name params returnType (Some body) isPub (range_span (cur_loc p) (cur_loc p6))) p6)))))"

fun structLoop :: "nat \<Rightarrow> Parser \<Rightarrow> FieldDecl list parse_result" where
  "structLoop 0 p = NoFuel"
| "structLoop (Suc n) p =
     (if \<not> ps_check TkRBrace p \<and> \<not> isAtEnd p then
        (let (fieldPub, p1) = ps_match KwPub p;
             (fname, p2) = ps_expect_lexeme TkIdentifier ''expected field name'' p1;
             p3 = ps_require TkColon (''expected '' @ quoted '':'' @ '' after field name'') p2
         in andThen (parseType n p3) (\<lambda>ftype p4.
            andThen (structLoop n (ps_skip TkComma p4)) (\<lambda>fs p5.
            Parsed (\<lparr>field_name = fname, field_type = ftype, field_isPub = fieldPub,
                     field_range = range_at (cur_loc p)\<rparr> # fs) p5)))
      else Parsed [] p)"

definition parseStructDecl :: "nat \<Rightarrow> bool \<Rightarrow> Parser \<Rightarrow> Decl parse_result" where
  "parseStructDecl n isPub p =
     (let (name, p1) = ps_expect_lexeme TkIdentifier ''expected struct name'' p;
          p2 = ps_require TkLBrace (''expected '' @ quoted ''{'' @ '' in struct body'') p1
      in andThen (structLoop n p2) (\<lambda>fs p3.
           (let p4 = ps_require TkRBrace (''expected '' @ quoted ''}'' @ '' after struct fields'') p3
            in Parsed (StructDecl name fs isPub (range_span (cur_loc p) (cur_loc p4))) p4)))"

fun enumLoop :: "nat \<Rightarrow> Parser \<Rightarrow> EnumVariantDecl list parse_result" where
  "enumLoop 0 p = NoFuel"
| "enumLoop (Suc n) p =
     (if \<not> ps_check TkRBrace p \<and> \<not> isAtEnd p then
        (let (vname, p1) = ps_expect_lexeme TkIdentifier ''expected variant name'' p
         in andThen (if ps_check TkLParen p1 then
                       andThen (parseTypeList n (ps_advance p1)) (\<lambda>ts p2.
                         Parsed ts (ps_require TkRParen (''expected '' @ quoted '')'' @ '' after variant fields'') p2))
                     else Parsed [] p1) (\<lambda>ts p3.
            andThen (enumLoop n (ps_skip TkComma p3)) (\<lambda>vs p4.
            Parsed (\<lparr>variant_name = vname, variant_fields = ts, variant_range = range_at (cur_loc p)\<rparr> # vs) p4)))
      else Parsed [] p)"

definition parseEnumDecl :: "nat \<Rightarrow> bool \<Rightarrow> Parser \<Rightarrow> Decl parse_result" where
  "parseEnumDecl n isPub p =
     (let (name, p1) = ps_expect_lexeme TkIdentifier ''expected enum name'' p;
          p2 = ps_require TkLBrace (''expected '' @ quoted ''{'' @ '' in enum body'') p1
      in andThen (enumLoop n p2) (\<lambda>vs p3.
           (let p4 = ps_require TkRBrace (''expected '' @ quoted ''}'' @ '' after enum variants'') p3
            in Parsed (EnumDecl name vs isPub (range_span (cur_loc p) (cur_loc p4))) p4)))"

definition parseTypeAliasDecl :: "nat \<Rightarrow> bool \<Rightarrow> Parser \<Rightarrow> Decl parse_result" where
  "parseTypeAliasDecl n isPub p =
     (let (name, p1) = ps_expect_lexeme TkIdentifier ''expected type alias name'' p;
          p2 = ps_require TkEq (''expected '' @ quoted ''='' @ '' in type alias'') p1
      in andThen (parseType n p2) (\<lambda>aliased p3.
           Parsed (TypeAliasDecl name aliased isPub (range_at (cur_loc p))) (ps_skip TkSemicolon p3)))"

text \<open>\<open>None\<close> is the null pointer after an unexpected token.\<close>

definition parseTopLevelDecl :: "nat \<Rightarrow> Parser \<Rightarrow> Decl option parse_result" where
  "parseTopLevelDecl n p0 =
     (let (isPub, p) = ps_match KwPub p0; k = cur_kind p;
          some = (\<lambda>r. andThen r (\<lambda>d p1. Parsed (Some d) p1))
      in if k = KwFn \<or> k = KwFun then some (parseFunctionDecl n isPub (ps_advance p))
         else if k = KwStruct then some (parseStructDecl n isPub (ps_advance p))
         else if k = KwEnum then some (parseEnumDecl n isPub (ps_advance p))
         else if k = KwType then some (parseTypeAliasDecl n isPub (ps_advance p))
         else if k = KwImport then some (parseImportDecl n (ps_advance p))
         else if k = KwLet \<or> k = KwVar \<or> k = KwConst then some (parseVarDecl n p)
         else Parsed None (synchronize (ps_error (cur_loc p) ''expected a top-level declaration'' p)))"


section \<open>The module\<close>

definition decl_keywords :: "TokenKind list" where
  "decl_keywords = [KwFn, KwFun, KwPub, KwStruct, KwEnum, KwType, KwImport, KwModule, KwLet, KwVar, KwConst]"

text \<open>The call that scripting mode adds for a function other than \<open>main\<close>.\<close>

fun auto_call :: "Decl \<Rightarrow> Stmt list" where
  "auto_call (FunctionDecl name _ _ _ _ _) =
     (if name \<noteq> ''main'' then [ExprStmt (CallExpr (IdentExpr name range_default) [] range_default) range_default] else [])"
| "auto_call _ = []"

text \<open>The main loop, with the declarations and the statements of the implicit \<open>main\<close> so far.\<close>

fun moduleLoop :: "nat \<Rightarrow> string \<Rightarrow> Decl list \<Rightarrow> Stmt list \<Rightarrow> Parser \<Rightarrow> (Decl list \<times> Stmt list) parse_result" where
  "moduleLoop 0 moduleName decls implicitMain p = NoFuel"
| "moduleLoop (Suc n) moduleName decls implicitMain p =
     (if isAtEnd p then Parsed (decls, implicitMain) p
      else if cur_kind p \<in> set decl_keywords then
        (case parseTopLevelDecl n p of
           NoFuel \<Rightarrow> NoFuel
         | Throw p1 \<Rightarrow> moduleLoop n moduleName decls implicitMain (parse_recovery p1)
         | Parsed None p1 \<Rightarrow> moduleLoop n moduleName decls implicitMain p1
         | Parsed (Some d) p1 \<Rightarrow>
             moduleLoop n moduleName (decls @ [d])
               (if moduleName = ''main'' \<or> implicitMain \<noteq> [] then implicitMain @ auto_call d else implicitMain) p1)
      else
        (case parseStmt n p of
           NoFuel \<Rightarrow> NoFuel
         | Throw p1 \<Rightarrow> moduleLoop n moduleName decls implicitMain (parse_recovery p1)
         | Parsed s p1 \<Rightarrow> moduleLoop n moduleName decls (implicitMain @ [s]) p1))"

definition implicit_main :: "Stmt list \<Rightarrow> Decl list" where
  "implicit_main ss =
     (if ss \<noteq> [] then [FunctionDecl ''main'' [] None (Some (BlockStmt ss range_default)) True range_default] else [])"

definition parse_module_name :: "Parser \<Rightarrow> string \<times> Parser" where
  "parse_module_name p =
     (if ps_check KwModule p then
        (let (name, p1) = ps_expect_lexeme TkIdentifier ''expected module name'' (ps_advance p)
         in (name, ps_skip TkSemicolon p1))
      else (''<anon>'', p))"

definition parse :: "nat \<Rightarrow> Parser \<Rightarrow> Decl parse_result" where
  "parse n p =
     (let (moduleName, p1) = parse_module_name p
      in andThen (moduleLoop n moduleName [] [] p1) (\<lambda>(decls, implicitMain) p2.
           Parsed (ModuleDecl moduleName (decls @ implicit_main implicitMain) (range_span (cur_loc p) (cur_loc p2))) p2))"

text \<open>The public wrappers.\<close>

definition parseStatement :: "nat \<Rightarrow> Parser \<Rightarrow> Stmt parse_result" where
  "parseStatement n p = parseStmt n p"

definition parseExpression :: "nat \<Rightarrow> nat \<Rightarrow> Parser \<Rightarrow> Expr parse_result" where
  "parseExpression n minPrecedence p = parseExpr n minPrecedence p"

declare paramLoop.simps [simp del]
declare bracelessLoop.simps [simp del]
declare structLoop.simps [simp del]
declare enumLoop.simps [simp del]
declare moduleLoop.simps [simp del]

end
