(* ===== verification/Vcc_Parser_Progress.thy ===== *)
theory Vcc_Parser_Progress
  imports Vcc_Parser_Decl
begin

text \<open>
  What every parsing method keeps, and that it returns. A parser in a good state stays inside its
  token stream; a method only moves forward in it and only appends diagnostics; the methods of
  expressions and statements consume a token whenever there is one. From the tokens left follows a
  bound on the fuel: ten units per token, and a constant for the depth of the calls that consume
  nothing. The loops of struct and enum bodies have no such bound: they do not advance on a token
  that starts no field or variant.
\<close>

section \<open>Moving forward\<close>

definition ps_ok :: "Parser \<Rightarrow> bool" where
  "ps_ok p \<longleftrightarrow> ps_pos p < length (ps_tokens p) \<and> token_isEof (last (ps_tokens p))"

text \<open>The tokens between the position and the final \<open>Eof\<close>.\<close>

definition left :: "Parser \<Rightarrow> nat" where
  "left p = length (ps_tokens p) - 1 - ps_pos p"

definition moved :: "bool \<Rightarrow> Parser \<Rightarrow> Parser \<Rightarrow> bool" where
  "moved strict p p' \<longleftrightarrow>
     ps_tokens p' = ps_tokens p \<and> ps_pos p \<le> ps_pos p' \<and> ps_ok p'
     \<and> (isAtEnd p \<longrightarrow> ps_pos p' = ps_pos p)
     \<and> (strict \<longrightarrow> isAtEnd p \<or> ps_pos p < ps_pos p')
     \<and> reported emit (ctx_diag (ps_ctx p)) (ctx_diag (ps_ctx p'))
     \<and> ctx_sources (ps_ctx p') = ctx_sources (ps_ctx p) \<and> ctx_opts (ps_ctx p') = ctx_opts (ps_ctx p)"

lemma moved_ok: "moved s p p' \<Longrightarrow> ps_ok p'"
  by (simp add: moved_def)

lemma moved_left: "moved s p p' \<Longrightarrow> left p' \<le> left p"
  by (auto simp: moved_def left_def)

lemma moved_strict_left: "moved True p p' \<Longrightarrow> \<not> isAtEnd p \<Longrightarrow> left p' < left p"
  by (auto simp: moved_def left_def ps_ok_def)

lemma moved_refl: "ps_ok p \<Longrightarrow> moved False p p"
  by (simp add: moved_def reported_refl)

lemma moved_weaken: "moved s p p' \<Longrightarrow> (t \<Longrightarrow> s) \<Longrightarrow> moved t p p'"
  by (auto simp: moved_def)

lemma moved_at_end: "moved s p p' \<Longrightarrow> isAtEnd p \<Longrightarrow> isAtEnd p'"
  by (simp add: moved_def isAtEnd_def current_def)

lemma moved_not_at_end: "moved s p p' \<Longrightarrow> \<not> isAtEnd p' \<Longrightarrow> \<not> isAtEnd p"
  by (auto dest: moved_at_end)

lemma moved_trans:
  assumes "moved s p p1" "moved t p1 p2" "u \<Longrightarrow> s \<or> t"
  shows "moved u p p2"
proof -
  have "isAtEnd p \<or> ps_pos p < ps_pos p2" if u
    using moved_not_at_end [OF assms(1)] assms that
    by (cases s) (auto simp: moved_def isAtEnd_def current_def)
  moreover have "ps_pos p2 = ps_pos p" if "isAtEnd p"
    using moved_at_end [OF assms(1) that] assms(1,2) that by (simp add: moved_def)
  ultimately show ?thesis using assms by (auto simp: moved_def intro: reported_trans)
qed


section \<open>Token utilities\<close>

lemma not_at_end_room: "ps_ok p \<Longrightarrow> \<not> isAtEnd p \<Longrightarrow> ps_pos p + 1 < length (ps_tokens p)"
proof (rule ccontr)
  assume ok: "ps_ok p" and ne: "\<not> isAtEnd p" and "\<not> ps_pos p + 1 < length (ps_tokens p)"
  with ok have "ps_pos p = length (ps_tokens p) - 1" "ps_tokens p \<noteq> []" by (auto simp: ps_ok_def)
  then have "current p = last (ps_tokens p)" by (simp add: current_def last_conv_nth)
  with ok ne show False by (simp add: ps_ok_def isAtEnd_def)
qed

lemma left_pos: "ps_ok p \<Longrightarrow> \<not> isAtEnd p \<Longrightarrow> 0 < left p"
  using not_at_end_room [of p] by (simp add: left_def)

lemma moved_advance: "ps_ok p \<Longrightarrow> moved True p (ps_advance p)"
  using not_at_end_room [of p] by (auto simp: ps_advance_def moved_def reported_refl ps_ok_def)

lemma moved_error: "ps_ok p \<Longrightarrow> moved False p (ps_error loc msg p)"
  by (simp add: moved_def ps_error_def ps_ok_def reported_emit_simps reported_refl)

lemma ps_error_simps [simp]:
  "ps_tokens (ps_error loc msg p) = ps_tokens p"
  "ps_pos (ps_error loc msg p) = ps_pos p"
  "isAtEnd (ps_error loc msg p) = isAtEnd p"
  "current (ps_error loc msg p) = current p"
  by (simp_all add: ps_error_def isAtEnd_def current_def)

lemma check_not_at_end: "ps_check k p \<Longrightarrow> k \<noteq> TkEof \<Longrightarrow> \<not> isAtEnd p"
  by (simp add: ps_check_def isAtEnd_def token_is_def token_isEof_def)

lemma cur_kind_at_end: "isAtEnd p = (cur_kind p = TkEof)"
  by (simp add: cur_kind_def isAtEnd_def token_isEof_def)

lemma ps_check_cur_kind: "ps_check k p = (cur_kind p = k)"
  by (simp add: ps_check_def cur_kind_def token_is_def)

lemma moved_skip: "ps_ok p \<Longrightarrow> moved False p (ps_skip k p)"
  by (simp add: ps_skip_def ps_match_def moved_refl moved_weaken [OF moved_advance])

lemma moved_match: "ps_ok p \<Longrightarrow> ps_match k p = (b, p1) \<Longrightarrow> moved b p p1"
  by (auto simp: ps_match_def moved_refl moved_advance split: if_splits)

lemma moved_expect: "ps_ok p \<Longrightarrow> ps_expect k msg p = (t, p1) \<Longrightarrow> moved (ps_check k p) p p1"
  by (auto simp: ps_expect_def moved_error moved_advance split: if_splits)

lemma moved_expect_lexeme: "ps_ok p \<Longrightarrow> ps_expect_lexeme k msg p = (s, p1) \<Longrightarrow> moved (ps_check k p) p p1"
  by (auto simp: ps_expect_lexeme_def split: prod.splits dest: moved_expect)

lemma moved_require: "ps_ok p \<Longrightarrow> moved (ps_check k p) p (ps_require k msg p)"
  by (simp add: ps_require_def moved_expect [of p k msg "fst (ps_expect k msg p)"])


section \<open>Results\<close>

text \<open>
  \<open>outcome s e p r\<close>: the result \<open>r\<close> of a method started in \<open>p\<close> has moved forward (strictly, if
  \<open>s\<close> holds and \<open>p\<close> is not at the end), what it throws it throws at a numeric literal, and if \<open>e\<close>
  holds the fuel was enough.
\<close>

definition outcome :: "bool \<Rightarrow> bool \<Rightarrow> Parser \<Rightarrow> 'a parse_result \<Rightarrow> bool" where
  "outcome s e p r \<longleftrightarrow>
     (case r of
        NoFuel \<Rightarrow> \<not> e
      | Throw p' \<Rightarrow> moved False p p' \<and> cur_kind p' \<in> {TkIntLiteral, TkFloatLiteral}
      | Parsed x p' \<Rightarrow> moved s p p')"

lemma outcome_Parsed: "outcome s e p (Parsed x p') = moved s p p'"
  by (simp add: outcome_def)

lemma outcome_NoFuel: "\<not> e \<Longrightarrow> outcome s e p NoFuel"
  by (simp add: outcome_def)

lemma outcome_weaken: "outcome s e p r \<Longrightarrow> (t \<Longrightarrow> s) \<Longrightarrow> (e' \<Longrightarrow> e) \<Longrightarrow> outcome t e' p r"
  by (auto simp: outcome_def moved_def split: parse_result.splits)

text \<open>
  Composition, always relative to the state \<open>p0\<close> in which the method under consideration started;
  \<open>a\<close> says whether a token was consumed on the way from \<open>p0\<close> to \<open>p\<close>.
\<close>

lemma outcome_tail:
  assumes "moved a p0 p" "outcome s e p r" "e' \<Longrightarrow> e" "u \<Longrightarrow> a \<or> s"
  shows "outcome u e' p0 r"
  using assms(2,3) moved_trans [OF assms(1) _ assms(4)] moved_trans [OF assms(1), of False _ False]
  by (auto simp: outcome_def split: parse_result.splits)

lemma outcome_andThen:
  assumes "moved a p0 p" "outcome s e p r" "e' \<Longrightarrow> e"
    and "\<And>x p1. moved (a \<or> s) p0 p1 \<Longrightarrow> outcome u e' p0 (f x p1)"
  shows "outcome u e' p0 (andThen r f)"
proof (cases r)
  case (Parsed x p1)
  with assms(2) have "moved s p p1" by (simp add: outcome_def)
  from assms(4) [OF moved_trans [OF assms(1) this]] Parsed show ?thesis by simp
next
  case (Throw p1)
  with assms(2) have "moved False p p1" "cur_kind p1 \<in> {TkIntLiteral, TkFloatLiteral}"
    by (simp_all add: outcome_def)
  with moved_trans [OF assms(1) this(1), of False] Throw show ?thesis by (simp add: outcome_def)
qed (use assms(2,3) in \<open>auto simp: outcome_def\<close>)

text \<open>The fuel that suffices: \<open>c\<close> is the depth of the calls that consume nothing.\<close>

definition within :: "nat \<Rightarrow> nat \<Rightarrow> Parser \<Rightarrow> bool" where
  "within c n p \<longleftrightarrow> 10 * left p + c \<le> n"

lemma within_step:
  assumes "within c (Suc n) p0" "moved a p0 p" "d < c \<or> (a \<and> \<not> isAtEnd p0 \<and> d \<le> 9)"
  shows "within d n p"
  using assms moved_left [OF assms(2)] moved_strict_left [of p0 p]
  by (cases "a \<and> \<not> isAtEnd p0") (auto simp: within_def)

lemma not_within_0: "0 < c \<Longrightarrow> \<not> within c 0 p"
  by (simp add: within_def)

text \<open>The steps of a method that are not calls of another method.\<close>

lemma moved_then_advance: "moved a p0 p \<Longrightarrow> moved True p0 (ps_advance p)"
  using moved_trans [OF _ moved_advance [OF moved_ok]] by blast

lemma moved_then_skip: "moved a p0 p \<Longrightarrow> moved a p0 (ps_skip k p)"
  using moved_trans [OF _ moved_skip [OF moved_ok], of a p0 p] by blast

lemma moved_then_require: "moved a p0 p \<Longrightarrow> moved a p0 (ps_require k msg p)"
  using moved_trans [OF _ moved_require [OF moved_ok], of a p0 p] by blast

lemma moved_then_match: "moved a p0 p \<Longrightarrow> ps_match k p = (b, p1) \<Longrightarrow> moved a p0 p1"
  using moved_trans [OF _ moved_match [OF moved_ok], of a p0 p] by blast

lemma moved_then_expect_lexeme: "moved a p0 p \<Longrightarrow> ps_expect_lexeme k msg p = (s, p1) \<Longrightarrow> moved a p0 p1"
  using moved_trans [OF _ moved_expect_lexeme [OF moved_ok], of a p0 p] by blast

lemma require_present: "cur_kind p = k \<Longrightarrow> ps_require k msg p = ps_advance p"
  by (simp add: ps_require_def ps_expect_def ps_check_cur_kind)

lemma moved_then_if: "moved a p0 p \<Longrightarrow> moved a p0 q \<Longrightarrow> moved a p0 (if b then p else q)"
  by simp

lemmas moved_steps = moved_then_if moved_then_advance moved_then_skip moved_then_require

lemma advance_consumes: "ps_ok p \<Longrightarrow> moved True p (ps_advance p)"
  by (rule moved_advance)

lemma precedence_not_at_end: "m < infixPrecedence p \<Longrightarrow> \<not> isAtEnd p"
  by (auto simp: infixPrecedence_def cur_kind_at_end)

lemma assign_not_at_end: "isAssignOp (cur_kind p) \<Longrightarrow> \<not> isAtEnd p"
  by (auto simp: isAssignOp_def cur_kind_at_end)

lemma prefix_not_at_end: "prefixOp (cur_kind p) = Some op \<Longrightarrow> \<not> isAtEnd p"
  by (auto simp: cur_kind_at_end)


section \<open>Expressions and types\<close>

lemma path_outcome:
  assumes "sep \<noteq> TkEof"
  shows "ps_ok p \<Longrightarrow> outcome False (within 1 n p) p (parsePathTail sep sep_text msg n name p)"
proof (induction n arbitrary: name p)
  case 0
  then show ?case by (simp add: parsePathTail.simps outcome_NoFuel not_within_0)
next
  case (Suc n)
  show ?case
  proof (cases "ps_check sep p")
    case True
    then have ne: "\<not> isAtEnd p" using assms by (rule check_not_at_end)
    obtain part p1 where e: "ps_expect_lexeme TkIdentifier msg (ps_advance p) = (part, p1)" by fastforce
    have m: "moved True p p1"
      using moved_then_expect_lexeme [OF moved_advance e] Suc.prems by blast
    from True e show ?thesis
      by (simp add: parsePathTail.simps)
        (rule outcome_tail [OF m Suc.IH [OF moved_ok [OF m]] within_step [OF _ m]]; simp add: ne)
  next
    case False
    with Suc.prems show ?thesis by (simp add: parsePathTail.simps outcome_Parsed moved_refl)
  qed
qed

lemma atom_outcome:
  assumes "ps_ok p"
  shows "outcome True e p (parseAtom p)"
proof -
  have "moved True p (ps_advance (ps_error loc msg p))" for loc msg
    using moved_trans [OF moved_error [OF assms] moved_advance [OF moved_ok [OF moved_error [OF assms]]]] by simp
  then show ?thesis using moved_advance [OF assms] assms
    by (simp add: parseAtom_def Let_def outcome_def moved_refl split: option.splits)
qed

text \<open>
  Calls of a method, whose \<open>outcome\<close> is known for every state, and the control structures of the
  definitions: with these the proof for a method follows its text.
\<close>

lemma outcome_call:
  assumes "\<And>q. ps_ok q \<Longrightarrow> outcome s (within d n q) q (g q)"
    and "moved a p0 p" "d < c \<or> (a \<and> \<not> isAtEnd p0 \<and> d \<le> 9)"
    and "\<And>x p1. moved (a \<or> s) p0 p1 \<Longrightarrow> outcome u (within c (Suc n) p0) p0 (f x p1)"
  shows "outcome u (within c (Suc n) p0) p0 (andThen (g p) f)"
  by (rule outcome_andThen [OF assms(2) assms(1) [OF moved_ok [OF assms(2)]] within_step [OF _ assms(2,3)] assms(4)])

lemma outcome_call_tail:
  assumes "\<And>q. ps_ok q \<Longrightarrow> outcome s (within d n q) q (g q)"
    and "moved a p0 p" "d < c \<or> (a \<and> \<not> isAtEnd p0 \<and> d \<le> 9)" "u \<Longrightarrow> a \<or> s"
  shows "outcome u (within c (Suc n) p0) p0 (g p)"
  using outcome_tail [OF assms(2) assms(1) [OF moved_ok [OF assms(2)]] within_step [OF _ assms(2,3)] assms(4)]
  by blast

lemma outcome_call_when:
  assumes "\<And>q. ps_ok q \<Longrightarrow> G q \<Longrightarrow> outcome s (within d n q) q (g q)" "G p"
    and "moved a p0 p" "d < c \<or> (a \<and> \<not> isAtEnd p0 \<and> d \<le> 9)"
    and "\<And>x p1. moved (a \<or> s) p0 p1 \<Longrightarrow> outcome u (within c (Suc n) p0) p0 (f x p1)"
  shows "outcome u (within c (Suc n) p0) p0 (andThen (g p) f)"
  by (rule outcome_andThen [OF assms(3) assms(1) [OF moved_ok [OF assms(3)] assms(2)] within_step [OF _ assms(3,4)] assms(5)])

lemma outcome_call_tail_when:
  assumes "\<And>q. ps_ok q \<Longrightarrow> G q \<Longrightarrow> outcome s (within d n q) q (g q)" "G p"
    and "moved a p0 p" "d < c \<or> (a \<and> \<not> isAtEnd p0 \<and> d \<le> 9)" "u \<Longrightarrow> a \<or> s"
  shows "outcome u (within c (Suc n) p0) p0 (g p)"
  by (rule outcome_tail [OF assms(3) assms(1) [OF moved_ok [OF assms(3)] assms(2)] within_step [OF _ assms(3,4)] assms(5)])

lemma outcome_if:
  "(b \<Longrightarrow> outcome u e p r) \<Longrightarrow> (\<not> b \<Longrightarrow> outcome u e p r') \<Longrightarrow> outcome u e p (if b then r else r')"
  by simp

lemma outcome_prod:
  "(\<And>x y. z = (x, y) \<Longrightarrow> outcome u e p (f x y)) \<Longrightarrow> outcome u e p (case z of (x, y) \<Rightarrow> f x y)"
  by (simp split: prod.split)

lemma outcome_option:
  "(z = None \<Longrightarrow> outcome u e p r) \<Longrightarrow> (\<And>y. z = Some y \<Longrightarrow> outcome u e p (f y))
    \<Longrightarrow> outcome u e p (case z of None \<Rightarrow> r | Some y \<Rightarrow> f y)"
  by (simp split: option.split)

lemma outcome_Parsed_when: "moved a p p' \<Longrightarrow> (u \<Longrightarrow> a) \<Longrightarrow> outcome u e p (Parsed x p')"
  by (simp add: outcome_Parsed moved_weaken)

lemma outcome_andThen_if:
  "(b \<Longrightarrow> outcome u e p (andThen r f)) \<Longrightarrow> (\<not> b \<Longrightarrow> outcome u e p (andThen r' f))
    \<Longrightarrow> outcome u e p (andThen (if b then r else r') f)"
  by simp

lemma andThen_assoc: "andThen (andThen r f) g = andThen r (\<lambda>x p. andThen (f x p) g)"
  by (cases r) simp_all

lemma outcome_andThen_assoc:
  "outcome u e p (andThen r (\<lambda>x q. andThen (f x q) g)) \<Longrightarrow> outcome u e p (andThen (andThen r f) g)"
  by (simp add: andThen_assoc)

lemma outcome_andThen_Parsed: "outcome u e p (f x q) \<Longrightarrow> outcome u e p (andThen (Parsed x q) f)"
  by simp

lemmas outcome_control = outcome_option outcome_if outcome_andThen_if outcome_andThen_assoc
  outcome_andThen_Parsed outcome_prod outcome_Parsed_when
lemmas moved_via = moved_then_match [rotated] moved_then_expect_lexeme [rotated]
lemmas at_end_dests = check_not_at_end precedence_not_at_end assign_not_at_end prefix_not_at_end moved_not_at_end

lemma expr_outcome:
  shows type_outcome: "ps_ok p \<Longrightarrow> outcome False (within 2 n p) p (parseType n p)"
    and type_list_outcome: "ps_ok p \<Longrightarrow> outcome False (within 3 n p) p (parseTypeList n p)"
    and parseExpr_outcome: "ps_ok p \<Longrightarrow> outcome True (within 2 n p) p (parseExpr n m p)"
    and infix_outcome: "ps_ok p \<Longrightarrow> outcome False (within 1 n p) p (infixLoop n m lhs p)"
    and primary_outcome: "ps_ok p \<Longrightarrow> outcome True (within 1 n p) p (parsePrimaryExpr n p)"
    and postfix_outcome: "ps_ok p \<Longrightarrow> outcome False (within 1 n p) p (parsePostfixExpr n lhs p)"
    and call_args_outcome: "ps_ok p \<Longrightarrow> outcome False (within 4 n p) p (parseCallArgs n lhs p)"
    and expr_list_outcome: "ps_ok p \<Longrightarrow> outcome True (within 3 n p) p (parseExprList n p)"
proof (induction n arbitrary: p m lhs)
  case 0
  {
    case 1 then show ?case by (simp add: parseType.simps outcome_NoFuel not_within_0)
  next
    case 2 then show ?case by (simp add: parseTypeList.simps outcome_NoFuel not_within_0)
  next
    case 3 then show ?case by (simp add: parseExpr.simps outcome_NoFuel not_within_0)
  next
    case 4 then show ?case by (simp add: infixLoop.simps outcome_NoFuel not_within_0)
  next
    case 5 then show ?case by (simp add: parsePrimaryExpr.simps outcome_NoFuel not_within_0)
  next
    case 6 then show ?case by (simp add: parsePostfixExpr.simps outcome_NoFuel not_within_0)
  next
    case 7 then show ?case by (simp add: parseCallArgs.simps outcome_NoFuel not_within_0)
  next
    case 8 then show ?case by (simp add: parseExprList.simps outcome_NoFuel not_within_0)
  }
next
  case (Suc n)
  note calls = outcome_call [where g = "parseType n", OF Suc.IH(1)] outcome_call [where g = "parseTypeList n", OF Suc.IH(2)]
    outcome_call [where g = "parseExpr n k" for k, OF Suc.IH(3)] outcome_call [where g = "infixLoop n k e" for k e, OF Suc.IH(4)]
    outcome_call [where g = "parsePrimaryExpr n", OF Suc.IH(5)] outcome_call [where g = "parsePostfixExpr n e" for e, OF Suc.IH(6)]
    outcome_call [where g = "parseCallArgs n e" for e, OF Suc.IH(7)] outcome_call [where g = "parseExprList n", OF Suc.IH(8)]
  note tails = outcome_call_tail [where g = "infixLoop n k e" for k e, OF Suc.IH(4)]
    outcome_call_tail [where g = "parsePostfixExpr n e" for e, OF Suc.IH(6)]
  note path = outcome_call [where g = "parsePathTail TkColonColon s m n x" for s m x, OF path_outcome]
  note steps = atom_outcome outcome_control calls tails path
  {
    case 1
    note start = moved_refl [OF 1] 1
    show ?case
      unfolding parseType.simps Let_def
      by (rule steps start | assumption | rule moved_steps | erule moved_via | (simp; fail)
        | (auto simp: not_le ps_check_cur_kind cur_kind_at_end dest: at_end_dests; fail)[1])+
  next
    case 2
    note start = moved_refl [OF 2] 2
    show ?case
      unfolding parseTypeList.simps Let_def
      by (rule steps start | assumption | rule moved_steps | erule moved_via | (simp; fail)
        | (auto simp: not_le ps_check_cur_kind cur_kind_at_end dest: at_end_dests; fail)[1])+
  next
    case 3
    note start = moved_refl [OF 3] 3
    show ?case
      unfolding parseExpr.simps Let_def
      by (rule steps start | assumption | rule moved_steps | erule moved_via | (simp; fail)
        | (auto simp: not_le ps_check_cur_kind cur_kind_at_end dest: at_end_dests; fail)[1])+
  next
    case 4
    note start = moved_refl [OF 4] 4
    show ?case
      unfolding infixLoop.simps Let_def
      by (rule steps start | assumption | rule moved_steps | erule moved_via | (simp; fail)
        | (auto simp: not_le ps_check_cur_kind cur_kind_at_end dest: at_end_dests; fail)[1])+
  next
    case 5
    note start = moved_refl [OF 5] 5
    show ?case
      unfolding parsePrimaryExpr.simps Let_def
      by (rule steps start | assumption | rule moved_steps | erule moved_via | (simp; fail)
        | (auto simp: not_le ps_check_cur_kind cur_kind_at_end dest: at_end_dests; fail)[1])+
  next
    case 6
    note start = moved_refl [OF 6] 6
    show ?case
      unfolding parsePostfixExpr.simps Let_def
      by (rule steps start | assumption | rule moved_steps | erule moved_via | (simp; fail)
        | (auto simp: not_le ps_check_cur_kind cur_kind_at_end dest: at_end_dests; fail)[1])+
  next
    case 7
    note start = moved_refl [OF 7] 7
    show ?case
      unfolding parseCallArgs.simps Let_def
      by (rule steps start | assumption | rule moved_steps | erule moved_via | (simp; fail)
        | (auto simp: not_le ps_check_cur_kind cur_kind_at_end dest: at_end_dests; fail)[1])+
  next
    case 8
    note start = moved_refl [OF 8] 8
    show ?case
      unfolding parseExprList.simps Let_def
      by (rule steps start | assumption | rule moved_steps | erule moved_via | (simp; fail)
        | (auto simp: not_le ps_check_cur_kind cur_kind_at_end dest: at_end_dests; fail)[1])+
  }
qed


section \<open>Statements\<close>

lemmas expr_calls =
  outcome_call [where g = "parseType n" for n, OF type_outcome]
  outcome_call [where g = "parseTypeList n" for n, OF type_list_outcome]
  outcome_call [where g = "parseExpr n k" for n k, OF parseExpr_outcome]

lemma moved_var_kind: "parseVarKind p = (vk, p1) \<Longrightarrow> moved a p0 p \<Longrightarrow> moved a p0 p1"
  by (auto simp: parseVarKind_def intro: moved_weaken [OF moved_then_advance] split: if_splits)

lemma moved_var_kind_start:
  "parseVarKind p = (vk, p1) \<Longrightarrow> ps_ok p \<Longrightarrow> cur_kind p \<in> {KwLet, KwVar, KwConst} \<Longrightarrow> moved True p p1"
  by (auto simp: parseVarKind_def ps_check_cur_kind moved_advance split: if_splits)

text \<open>The methods that are not recursive pass their fuel on.\<close>

lemma within_pass: "within (Suc c) (Suc n) p = within c n p"
  by (simp add: within_def)

lemma var_decl_outcome:
  assumes "ps_ok p"
  shows "outcome False (within 2 n p) p (parseVarDecl n p)"
proof -
  note start = moved_refl [OF assms(1)]
  note steps = outcome_control expr_calls
  have "outcome False (within (Suc 2) (Suc n) p) p (parseVarDecl n p)"
    unfolding parseVarDecl_def Let_def
    by (rule steps start | assumption | erule moved_var_kind | rule moved_steps | erule moved_via | (simp; fail))+
  then show ?thesis by (simp only: within_pass)
qed

lemma var_decl_outcome_at:
  assumes "ps_ok p" "cur_kind p \<in> {KwLet, KwVar, KwConst}"
  shows "outcome True (within 2 n p) p (parseVarDecl n p)"
proof -
  note start = moved_refl [OF assms(1)]
  note kw = moved_var_kind_start [OF _ assms]
  note steps = outcome_control expr_calls
  have "outcome True (within (Suc 2) (Suc n) p) p (parseVarDecl n p)"
    unfolding parseVarDecl_def Let_def
    by (rule steps start | assumption | erule kw | rule moved_steps | erule moved_via | (simp; fail))+
  then show ?thesis by (simp only: within_pass)
qed

lemma return_outcome:
  assumes "ps_ok p"
  shows "outcome False (within 2 n p) p (parseReturnStmt n p)"
proof -
  note start = moved_refl [OF assms(1)]
  note steps = outcome_control expr_calls
  have "outcome False (within (Suc 2) (Suc n) p) p (parseReturnStmt n p)"
    unfolding parseReturnStmt_def Let_def
    by (rule steps start | assumption | rule moved_steps | erule moved_via | (simp; fail))+
  then show ?thesis by (simp only: within_pass)
qed

lemma stmt_outcome:
  shows parseStmt_outcome: "ps_ok p \<Longrightarrow> outcome True (within 4 n p) p (parseStmt n p)"
    and block_outcome: "ps_ok p \<Longrightarrow> outcome False (within 6 n p) p (parseBlock n p)"
    and block_loop_outcome: "ps_ok p \<Longrightarrow> outcome False (within 5 n p) p (blockLoop n p)"
    and body_outcome: "ps_ok p \<Longrightarrow> outcome True (within 5 n p) p (parseBody n p)"
    and if_outcome: "ps_ok p \<Longrightarrow> outcome False (within 6 n p) p (parseIfStmt n p)"
    and else_outcome: "ps_ok p \<Longrightarrow> outcome False (within 1 n p) p (parseElse n p)"
    and while_outcome: "ps_ok p \<Longrightarrow> outcome False (within 7 n p) p (parseWhileStmt n p)"
    and vloop_outcome: "ps_ok p \<Longrightarrow> outcome False (within 7 n p) p (parseVloopStmt n p)"
    and match_outcome: "ps_ok p \<Longrightarrow> outcome False (within 7 n p) p (parseMatchStmt n p)"
    and arms_outcome: "ps_ok p \<Longrightarrow> outcome False (within 6 n p) p (armsLoop n p)"
    and for_outcome: "ps_ok p \<Longrightarrow> outcome False (within 7 n p) p (parseForStmt n p)"
    and block_brace_outcome: "ps_ok p \<Longrightarrow> cur_kind p = TkLBrace \<Longrightarrow> outcome True (within 3 n p) p (parseBlock n p)"
proof (induction n arbitrary: p)
  case 0
  {
    case 1 then show ?case by (simp add: parseStmt.simps outcome_NoFuel not_within_0)
  next
    case 2 then show ?case by (simp add: parseBlock.simps outcome_NoFuel not_within_0)
  next
    case 3 then show ?case by (simp add: blockLoop.simps outcome_NoFuel not_within_0)
  next
    case 4 then show ?case by (simp add: parseBody.simps outcome_NoFuel not_within_0)
  next
    case 5 then show ?case by (simp add: parseIfStmt.simps outcome_NoFuel not_within_0)
  next
    case 6 then show ?case by (simp add: parseElse.simps outcome_NoFuel not_within_0)
  next
    case 7 then show ?case by (simp add: parseWhileStmt.simps outcome_NoFuel not_within_0)
  next
    case 8 then show ?case by (simp add: parseVloopStmt.simps outcome_NoFuel not_within_0)
  next
    case 9 then show ?case by (simp add: parseMatchStmt.simps outcome_NoFuel not_within_0)
  next
    case 10 then show ?case by (simp add: armsLoop.simps outcome_NoFuel not_within_0)
  next
    case 11 then show ?case by (simp add: parseForStmt.simps outcome_NoFuel not_within_0)
  next
    case 12 then show ?case by (simp add: parseBlock.simps outcome_NoFuel not_within_0)
  }
next
  case (Suc n)
  note guarded = outcome_call_when [where g = "parseBlock n" and G = "\<lambda>q. cur_kind q = TkLBrace", OF Suc.IH(12)]
    outcome_call_tail_when [where g = "parseBlock n" and G = "\<lambda>q. cur_kind q = TkLBrace", OF Suc.IH(12)]
    outcome_call_when [where g = "parseVarDecl n" and G = "\<lambda>q. cur_kind q \<in> {KwLet, KwVar, KwConst}", OF var_decl_outcome_at]
  note calls = outcome_call [where g = "parseStmt n", OF Suc.IH(1)] outcome_call [where g = "parseBlock n", OF Suc.IH(2)]
    outcome_call [where g = "blockLoop n", OF Suc.IH(3)] outcome_call [where g = "parseBody n", OF Suc.IH(4)]
    outcome_call [where g = "parseIfStmt n", OF Suc.IH(5)] outcome_call [where g = "parseElse n", OF Suc.IH(6)]
    outcome_call [where g = "armsLoop n", OF Suc.IH(10)]
  note calls1 = outcome_call [where g = "parseStmt n", OF Suc.IH(1)]
  note tails = outcome_call_tail [where g = "parseStmt n", OF Suc.IH(1)]
    outcome_call_tail [where g = "parseIfStmt n", OF Suc.IH(5)] outcome_call_tail [where g = "parseWhileStmt n", OF Suc.IH(7)]
    outcome_call_tail [where g = "parseVloopStmt n", OF Suc.IH(8)] outcome_call_tail [where g = "parseMatchStmt n", OF Suc.IH(9)]
    outcome_call_tail [where g = "parseForStmt n", OF Suc.IH(11)] outcome_call_tail [where g = "parseReturnStmt n", OF return_outcome]
  note steps = outcome_control tails expr_calls
  {
    case 1
    note start = moved_refl [OF 1] 1
    show ?case
      unfolding parseStmt.simps Let_def
      by (rule guarded calls1 steps start | assumption | rule moved_steps | erule moved_via | (simp; fail)
        | (auto simp: ps_check_cur_kind cur_kind_at_end dest: at_end_dests; fail)[1])+
  next
    case 2
    note start = moved_refl [OF 2] 2
    show ?case
      unfolding parseBlock.simps Let_def
      by (rule calls steps start | assumption | rule moved_steps | erule moved_via | (simp; fail)
        | (auto simp: ps_check_cur_kind cur_kind_at_end dest: at_end_dests; fail)[1])+
  next
    case 3
    note start = moved_refl [OF 3] 3
    show ?case
      unfolding blockLoop.simps Let_def
      by (rule calls steps start | assumption | rule moved_steps | erule moved_via | (simp; fail)
        | (auto simp: ps_check_cur_kind cur_kind_at_end dest: at_end_dests; fail)[1])+
  next
    case 4
    note start = moved_refl [OF 4] 4
    show ?case
      unfolding parseBody.simps Let_def
      by (rule guarded calls1 steps start | assumption | rule moved_steps | erule moved_via | (simp; fail)
        | (auto simp: ps_check_cur_kind cur_kind_at_end dest: at_end_dests; fail)[1])+
  next
    case 5
    note start = moved_refl [OF 5] 5
    show ?case
      unfolding parseIfStmt.simps Let_def
      by (rule calls steps start | assumption | rule moved_steps | erule moved_via | (simp; fail)
        | (auto simp: ps_check_cur_kind cur_kind_at_end dest: at_end_dests; fail)[1])+
  next
    case 6
    note start = moved_refl [OF 6] 6
    show ?case
      unfolding parseElse.simps Let_def
      by (rule calls steps start | assumption | rule moved_steps | erule moved_via | (simp; fail)
        | (auto simp: ps_check_cur_kind cur_kind_at_end dest: at_end_dests; fail)[1])+
  next
    case 7
    note start = moved_refl [OF 7] 7
    show ?case
      unfolding parseWhileStmt.simps Let_def
      by (rule calls steps start | assumption | rule moved_steps | erule moved_via | (simp; fail)
        | (auto simp: ps_check_cur_kind cur_kind_at_end dest: at_end_dests; fail)[1])+
  next
    case 8
    note start = moved_refl [OF 8] 8
    show ?case
      unfolding parseVloopStmt.simps Let_def
      by (rule guarded calls1 steps start | assumption | rule moved_steps | erule moved_via | (simp; fail)
        | (auto simp: ps_check_cur_kind cur_kind_at_end dest: at_end_dests; fail)[1])+
  next
    case 9
    note start = moved_refl [OF 9] 9
    show ?case
      unfolding parseMatchStmt.simps Let_def
      by (rule calls steps start | assumption | rule moved_steps | erule moved_via | (simp; fail)
        | (auto simp: ps_check_cur_kind cur_kind_at_end dest: at_end_dests; fail)[1])+
  next
    case 10
    note start = moved_refl [OF 10] 10
    show ?case
      unfolding armsLoop.simps Let_def
      by (rule calls steps start | assumption | rule moved_steps | erule moved_via | (simp; fail)
        | (auto simp: ps_check_cur_kind cur_kind_at_end dest: at_end_dests; fail)[1])+
  next
    case 11
    note start = moved_refl [OF 11] 11
    show ?case
      unfolding parseForStmt.simps Let_def
      by (rule calls steps start | assumption | rule moved_steps | erule moved_via | (simp; fail)
        | (auto simp: ps_check_cur_kind cur_kind_at_end dest: at_end_dests; fail)[1])+
  next
    case 12
    note start = moved_refl [OF 12(1)] 12
    show ?case
      unfolding parseBlock.simps Let_def require_present [OF 12(2)]
      by (rule calls steps start | assumption | rule moved_steps | erule moved_via | (simp add: 12(2) cur_kind_at_end; fail)
        | (auto simp: ps_check_cur_kind cur_kind_at_end dest: at_end_dests; fail)[1])+
  }
qed

end
