(* ===== verification/Vcc_Parser_Roundtrip.thy ===== *)
theory Vcc_Parser_Roundtrip
  imports Vcc_Parser_Printer
begin

text \<open>
  The parser reads back what the printer of Vcc_Parser_Printer writes: first the lists, postfix
  forms and assignments, then types, then names and literals, and last the induction over the
  printed tree and the property.
\<close>

section \<open>Argument lists, postfix forms, assignment\<close>

text \<open>Tokens that begin a printed expression or type.\<close>

definition starts :: "ptoken list \<Rightarrow> bool" where
  "starts ts \<longleftrightarrow> ts \<noteq> [] \<and> fst (hd ts) \<notin> {TkRParen, TkRBracket, KwMut}"

lemma starts_simps [simp]:
  "starts ((k, s) # ts) = (k \<notin> {TkRParen, TkRBracket, KwMut})"
  "starts ts \<Longrightarrow> starts (ts @ us)"
  "starts ts \<Longrightarrow> starts (paren b ts)"
  by (auto simp: starts_def paren_def)

lemma print_starts: "starts (print_type t)" "starts (print_expr l e)"
proof (induction t and l e rule: print_type_print_expr.induct)
  case (8 l op e r)
  then show ?case by (cases op) simp_all
qed (simp_all add: Let_def)

lemma starts_cur: "ahead p ts \<Longrightarrow> starts ts \<Longrightarrow> cur_kind p \<notin> {TkRParen, TkRBracket, KwMut}"
  by (cases ts) (auto simp: starts_def dest: ahead_cur)

lemma comma_list_starts: "xs \<noteq> [] \<Longrightarrow> \<forall>x \<in> set xs. starts x \<Longrightarrow> starts (comma_list xs)"
  by (induction xs rule: comma_list.induct) auto

lemma ahead_Cons_simp: "ahead p ((k, s) # ts) \<Longrightarrow> k \<noteq> TkEof \<Longrightarrow> ahead (beyond p) ts"
  by (rule ahead_step(4))

text \<open>An argument list up to its closing token.\<close>

definition reads_args :: "ptoken list \<Rightarrow> Expr list \<Rightarrow> bool" where
  "reads_args ts es \<longleftrightarrow> (if es = [] then ts = [] else starts ts \<and> reads_exprs ts es)"

lemma args_evals:
  assumes "reads_args ts es" "ahead p (ts @ (k, s) # us)" "k \<in> {TkRParen, TkRBracket}"
  shows "\<exists>es'. map strip es' = map strip es
    \<and> evals (\<lambda>n. if ps_check k p then Parsed [] p else parseExprList n p) (Parsed es' (after ts p))"
proof (cases "es = []")
  case True
  with assms have "ps_check k p" by (auto simp: reads_args_def ps_check_cur_kind dest: ahead_cur)
  with True assms(1) show ?thesis by (auto simp: reads_args_def evals_const)
next
  case False
  note as = ahead_appendD [OF assms(2)]
  from False assms(1) have ts: "starts ts" "reads_exprs ts es" by (auto simp: reads_args_def)
  have "cur_kind (after ts p) \<in> {TkRParen, TkRBracket}" using ahead_cur [OF as(2)] assms(3) by auto
  with ts(2) as(1) obtain es' where
    "map strip es' = map strip es" "evals (\<lambda>n. parseExprList n p) (Parsed es' (after ts p))"
    unfolding reads_exprs_def by blast
  moreover have "\<not> ps_check k p" using starts_cur [OF as(1) ts(1)] assms(3) by (auto simp: ps_check_cur_kind)
  ultimately show ?thesis by auto
qed

lemma call_postfix:
  assumes "reads_postfix ts f" "reads_args us args"
  shows "reads_postfix (ts @ (TkLParen, s) # us @ [(TkRParen, s')]) (CallExpr f args r)"
proof (rule postfix_step [OF assms(1)])
  fix p f'
  assume f: "strip f' = strip f" and a: "ahead p ((TkLParen, s) # us @ [(TkRParen, s')])"
  have eof: "TkLParen \<noteq> TkEof" "TkRParen \<noteq> TkEof" by simp_all
  note st = ahead_step [OF a eof(1)]
  note rp = ahead_appendD [OF st(4)]
  from args_evals [OF assms(2) st(4)] obtain args' where
    e: "map strip args' = map strip args"
      "evals (\<lambda>n. if ps_check TkRParen (beyond p) then Parsed [] (beyond p) else parseExprList n (beyond p))
        (Parsed args' (after us (beyond p)))" by auto
  let ?c = "CallExpr f' args' (range_at (cur_loc (beyond p)))" and ?q = "beyond (after us (beyond p))"
  have call: "evals (\<lambda>n. parseCallArgs n f' (beyond p)) (Parsed ?c ?q)"
    by (rule evals_Suc, rule parseCallArgs.simps(2), rule evals_andThen [OF e(2)])
      (simp add: ahead_expect(2) [OF rp(2) eof(2)] evals_const)
  have step: "parsePostfixExpr (Suc n) f' p = andThen (parseCallArgs n f' (beyond p)) (\<lambda>call p1. parsePostfixExpr n call p1)" for n
    unfolding parsePostfixExpr.simps(2) Let_def by (simp add: st ps_check_cur_kind)
  have "evals (\<lambda>n. parsePostfixExpr n f' p) r" if "evals (\<lambda>n. parsePostfixExpr n ?c ?q) r" for r
    by (rule evals_Suc, rule step, rule evals_andThen [OF call]) (rule that)
  with f e(1) show "\<exists>c. strip c = strip (CallExpr f args r) \<and>
      (\<forall>r. evals (\<lambda>n. parsePostfixExpr n c (after (us @ [(TkRParen, s')]) (beyond p))) r
        \<longrightarrow> evals (\<lambda>n. parsePostfixExpr n f' p) r)"
    by (intro exI [of _ ?c]) simp
qed simp

lemma index_postfix:
  assumes "reads_postfix ts e" "reads_expr 0 us i"
  shows "reads_postfix (ts @ (TkLBracket, s) # us @ [(TkRBracket, s')]) (IndexExpr e i r)"
proof (rule postfix_step [OF assms(1)])
  fix p e'
  assume f: "strip e' = strip e" and a: "ahead p ((TkLBracket, s) # us @ [(TkRBracket, s')])"
  have eof: "TkLBracket \<noteq> TkEof" "TkRBracket \<noteq> TkEof" by simp_all
  note st = ahead_step [OF a eof(1)]
  note rp = ahead_appendD [OF st(4)]
  have "ends 0 (cur_kind (after us (beyond p)))" using ahead_cur [OF rp(2)] by (simp add: ends_closing)
  with assms(2) rp(1) obtain i' where
    i: "strip i' = strip i" "evals (\<lambda>n. parseExpr n 0 (beyond p)) (Parsed i' (after us (beyond p)))"
    unfolding reads_expr_def by blast
  let ?c = "IndexExpr e' i' (range_at (cur_loc p))" and ?q = "beyond (after us (beyond p))"
  have step: "parsePostfixExpr (Suc n) e' p = andThen (parseExpr n 0 (beyond p)) (\<lambda>index p1.
      parsePostfixExpr n (IndexExpr e' index (range_at (cur_loc p))) (ps_require TkRBracket (''expected '' @ quoted '']'') p1))" for n
    unfolding parsePostfixExpr.simps(2) Let_def by (simp add: st ps_check_cur_kind)
  have "evals (\<lambda>n. parsePostfixExpr n e' p) r" if "evals (\<lambda>n. parsePostfixExpr n ?c ?q) r" for r
    by (rule evals_Suc, rule step, rule evals_andThen [OF i(2)]) (simp add: ahead_expect(2) [OF rp(2) eof(2)] that)
  with f i(1) show "\<exists>c. strip c = strip (IndexExpr e i r) \<and>
      (\<forall>r. evals (\<lambda>n. parsePostfixExpr n c (after (us @ [(TkRBracket, s')]) (beyond p))) r
        \<longrightarrow> evals (\<lambda>n. parsePostfixExpr n e' p) r)"
    by (intro exI [of _ ?c]) simp
qed simp

lemma member_postfix:
  assumes "reads_postfix ts e"
  shows "reads_postfix (ts @ [(TkDot, s), (TkIdentifier, member)]) (MemberExpr e member r)"
proof (rule postfix_step [OF assms(1)])
  fix p e'
  assume f: "strip e' = strip e" and a: "ahead p ((TkDot, s) # [(TkIdentifier, member)])"
  have eof: "TkDot \<noteq> TkEof" "TkIdentifier \<noteq> TkEof" by simp_all
  note st = ahead_step [OF a eof(1)]
  let ?c = "MemberExpr e' member (range_at (cur_loc p))"
  have step: "parsePostfixExpr (Suc n) e' p = parsePostfixExpr n ?c (beyond (beyond p))" for n
    unfolding parsePostfixExpr.simps(2) Let_def by (simp add: st ps_check_cur_kind ahead_expect(1) [OF st(4) eof(2)])
  have "evals (\<lambda>n. parsePostfixExpr n e' p) r" if "evals (\<lambda>n. parsePostfixExpr n ?c (beyond (beyond p))) r" for r
    by (rule evals_Suc, rule step) (rule that)
  with f show "\<exists>c. strip c = strip (MemberExpr e member r) \<and>
      (\<forall>r. evals (\<lambda>n. parsePostfixExpr n c (after [(TkIdentifier, member)] (beyond p))) r
        \<longrightarrow> evals (\<lambda>n. parsePostfixExpr n e' p) r)"
    by (intro exI [of _ ?c]) simp
qed simp

lemma cast_postfix:
  assumes "reads_postfix ts e" "reads_type us t"
  shows "reads_postfix (ts @ (KwAs, s) # us) (CastExpr e t r)"
proof (rule postfix_step [OF assms(1)])
  fix p e'
  assume f: "strip e' = strip e" and a: "ahead p ((KwAs, s) # us)"
    and k: "cur_kind (after us (beyond p)) \<notin> {TkColonColon, TkArrow}"
  have eof: "KwAs \<noteq> TkEof" by simp
  note st = ahead_step [OF a eof]
  from assms(2) st(4) k obtain t' where
    t: "strip_type t' = strip_type t" "evals (\<lambda>n. parseType n (beyond p)) (Parsed t' (after us (beyond p)))"
    unfolding reads_type_def by blast
  let ?c = "CastExpr e' t' (range_at (cur_loc p))"
  have step: "parsePostfixExpr (Suc n) e' p = andThen (parseType n (beyond p)) (\<lambda>t p1.
      parsePostfixExpr n (CastExpr e' t (range_at (cur_loc p))) p1)" for n
    unfolding parsePostfixExpr.simps(2) Let_def by (simp add: st ps_check_cur_kind)
  have "evals (\<lambda>n. parsePostfixExpr n e' p) r" if "evals (\<lambda>n. parsePostfixExpr n ?c (after us (beyond p))) r" for r
    by (rule evals_Suc, rule step, rule evals_andThen [OF t(2)]) (rule that)
  with f t(1) show "\<exists>c. strip c = strip (CastExpr e t r) \<and>
      (\<forall>r. evals (\<lambda>n. parsePostfixExpr n c (after us (beyond p))) r \<longrightarrow> evals (\<lambda>n. parsePostfixExpr n e' p) r)"
    by (intro exI [of _ ?c]) simp
qed simp

text \<open>Assignments and array literals.\<close>

lemma assign_token_facts:
  "isAssignOp (fst (assign_token op))" "tokenToAssignOp (fst (assign_token op)) = op"
  "fst (assign_token op) \<notin> {TkLParen, TkLBracket, TkDot, KwAs, TkColonColon, TkArrow, TkEof}"
  by (cases op; simp add: isAssignOp_def)+

lemma assign_expr:
  assumes "reads_postfix ts e" "reads_expr 0 us v"
  shows "reads_expr 0 (ts @ assign_token op # us) (AssignExpr op e v r)"
  unfolding reads_expr_def
proof (intro allI impI)
  fix p
  obtain k s where tok: "assign_token op = (k, s)" by fastforce
  note k = assign_token_facts [of op, unfolded tok fst_conv]
  let ?ts = "ts @ (k, s) # us" and ?q = "after ts p"
  assume "ahead p (ts @ assign_token op # us)" "ends 0 (cur_kind (after (ts @ assign_token op # us) p))"
  then have a: "ahead p ?ts" "ends 0 (cur_kind (after ?ts p))" by (simp_all add: tok)
  note as = ahead_appendD [OF a(1)]
  have eof: "k \<noteq> TkEof" using k(3) by auto
  note st = ahead_step [OF as(2) eof]
  have stop: "cur_kind ?q \<notin> {TkLParen, TkLBracket, TkDot, KwAs}" "cur_kind ?q \<notin> {TkColonColon, TkArrow}"
    using k(3) by (auto simp: st(1))
  from assms(1) as(1) stop(2) obtain e' b p1 where
    b: "strip e' = strip e" "evals (\<lambda>n. parsePrimaryExpr n p) (Parsed b p1)"
    and loop: "\<forall>r. evals (\<lambda>n. parsePostfixExpr n e' ?q) r \<longrightarrow> evals (\<lambda>n. parsePostfixExpr n b p1) r"
    unfolding reads_postfix_def by blast
  from assms(2) st(4) a(2) obtain v' where
    v: "strip v' = strip v" "evals (\<lambda>n. parseExpr n 0 (beyond ?q)) (Parsed v' (after us (beyond ?q)))"
    unfolding reads_expr_def by auto
  have post: "evals (\<lambda>n. parsePostfixExpr n b p1) (Parsed e' ?q)"
    using loop postfix_stops [OF stop(1)] by blast
  let ?e = "AssignExpr op e' v' (range_at (cur_loc ?q))"
  have "evals (\<lambda>n. parseExpr n 0 p) (Parsed ?e (after us (beyond ?q)))"
    by (rule evals_Suc, rule parseExpr.simps(2), rule evals_andThen [OF b(2)], rule evals_andThen [OF post])
      (simp add: st k evals_andThen [OF v(2)] evals_const)
  with b(1) v(1) show "\<exists>e'. strip e' = strip (AssignExpr op e v r) \<and>
      evals (\<lambda>n. parseExpr n 0 p) (Parsed e' (after (ts @ assign_token op # us) p))"
    by (intro exI [of _ ?e]) (simp add: tok)
qed

lemma array_primary:
  assumes "reads_args us es"
  shows "reads_primary ((KwArray, s1) # (TkLBracket, s2) # us @ [(TkRBracket, s3)]) (ArrayLiteralExpr es r)"
  unfolding reads_primary_def
proof (intro allI impI)
  fix p
  assume a: "ahead p ((KwArray, s1) # (TkLBracket, s2) # us @ [(TkRBracket, s3)])"
  have eof: "KwArray \<noteq> TkEof" "TkLBracket \<noteq> TkEof" "TkRBracket \<noteq> TkEof" by simp_all
  note st = ahead_step [OF a eof(1)]
  note st2 = ahead_step [OF st(4) eof(2)]
  note rp = ahead_appendD [OF st2(4)]
  let ?q = "beyond (beyond p)"
  from args_evals [OF assms st2(4)] obtain es' where
    e: "map strip es' = map strip es"
      "evals (\<lambda>n. if ps_check TkRBracket ?q then Parsed [] ?q else parseExprList n ?q) (Parsed es' (after us ?q))" by auto
  let ?e = "ArrayLiteralExpr es' (range_at (cur_loc p))"
  have step: "parsePrimaryExpr (Suc n) p =
      andThen (if ps_check TkRBracket ?q then Parsed [] ?q else parseExprList n ?q) (\<lambda>elems p2.
        Parsed (ArrayLiteralExpr elems (range_at (cur_loc p)))
          (ps_require TkRBracket (''expected '' @ quoted '']'' @ '' after array elements'') p2))" for n
    unfolding parsePrimaryExpr.simps(2) Let_def
    by (simp add: st ahead_expect(2) [OF st(4) eof(2)] ps_check_cur_kind)
  have "evals (\<lambda>n. parsePrimaryExpr n p) (Parsed ?e (beyond (after us ?q)))"
    by (rule evals_Suc, rule step, rule evals_andThen [OF e(2)])
      (simp add: ahead_expect(2) [OF rp(2) eof(3)] evals_const)
  with e(1) show "\<exists>e'. strip e' = strip (ArrayLiteralExpr es r) \<and> evals (\<lambda>n. parsePrimaryExpr n p)
      (Parsed e' (after ((KwArray, s1) # (TkLBracket, s2) # us @ [(TkRBracket, s3)]) p))"
    by (intro exI [of _ ?e]) simp
qed


section \<open>Types\<close>

text \<open>Types.\<close>

lemma named_type: "reads_type [(TkIdentifier, name)] (NamedTypeNode name r)"
  unfolding reads_type_def
proof (intro allI impI)
  fix p
  assume a: "ahead p [(TkIdentifier, name)]" "cur_kind (after [(TkIdentifier, name)] p) \<notin> {TkColonColon, TkArrow}"
  have eof: "TkIdentifier \<noteq> TkEof" by simp
  note st = ahead_step [OF a(1) eof]
  have path: "evals (\<lambda>n. parsePathTail TkColonColon x y n name (beyond p)) (Parsed name (beyond p))" for x y
    by (rule evals_Suc, rule parsePathTail.simps(2)) (use a(2) in \<open>simp add: ps_check_cur_kind evals_const\<close>)
  let ?t = "NamedTypeNode name (range_at (cur_loc p))"
  have step: "parseType (Suc n) p =
      andThen (parsePathTail TkColonColon ''::'' ''expected type name component'' n name (beyond p))
        (\<lambda>full p2. Parsed (NamedTypeNode full (range_at (cur_loc p))) p2)" for n
    unfolding parseType.simps(2) Let_def by (simp add: st ps_check_cur_kind ahead_expect(1) [OF a(1) eof])
  have "evals (\<lambda>n. parseType n p) (Parsed ?t (beyond p))"
    by (rule evals_Suc, rule step, rule evals_andThen [OF path]) (rule evals_const)
  then show "\<exists>t'. strip_type t' = strip_type (NamedTypeNode name r) \<and>
      evals (\<lambda>n. parseType n p) (Parsed t' (after [(TkIdentifier, name)] p))"
    by (intro exI [of _ ?t]) simp
qed

lemma pointer_type:
  assumes "reads_type ts t" "starts ts"
  shows "reads_type ((TkStar, s) # (if isMut then [(KwMut, s')] else []) @ ts) (PointerTypeNode t isMut r)"
  unfolding reads_type_def
proof (intro allI impI)
  fix p
  let ?m = "if isMut then [(KwMut, s')] else []"
  let ?ts = "(TkStar, s) # ?m @ ts" and ?q = "after ?m (beyond p)"
  assume a: "ahead p ?ts" "cur_kind (after ?ts p) \<notin> {TkColonColon, TkArrow}"
  have eof: "TkStar \<noteq> TkEof" "KwMut \<noteq> TkEof" by simp_all
  note st = ahead_step [OF a(1) eof(1)]
  note q = ahead_appendD(2) [OF st(4)]
  have mut: "ps_match KwMut (beyond p) = (isMut, ?q)"
  proof (cases isMut)
    case True
    with st(4) have "ahead (beyond p) ((KwMut, s') # ts)" by simp
    from ahead_step [OF this eof(2)] True show ?thesis by (simp add: ps_match_def ps_check_cur_kind)
  next
    case False
    with starts_cur [OF q assms(2)] show ?thesis by (simp add: ps_match_def ps_check_cur_kind)
  qed
  from assms(1) q a(2) obtain t' where
    t: "strip_type t' = strip_type t" "evals (\<lambda>n. parseType n ?q) (Parsed t' (after ts ?q))"
    unfolding reads_type_def by auto
  let ?t = "PointerTypeNode t' isMut (range_at (cur_loc p))"
  have step: "parseType (Suc n) p = andThen (parseType n ?q) (\<lambda>inner p2. Parsed (PointerTypeNode inner isMut (range_at (cur_loc p))) p2)" for n
    unfolding parseType.simps(2) Let_def by (simp add: st ps_check_cur_kind mut)
  have "evals (\<lambda>n. parseType n p) (Parsed ?t (after ts ?q))"
    by (rule evals_Suc, rule step, rule evals_andThen [OF t(2)]) (rule evals_const)
  with t(1) show "\<exists>t'. strip_type t' = strip_type (PointerTypeNode t isMut r) \<and>
      evals (\<lambda>n. parseType n p) (Parsed t' (after ?ts p))"
    by (intro exI [of _ ?t]) simp
qed

lemma slice_type:
  assumes "reads_type ts t"
  shows "reads_type ((TkLBracket, s) # ts @ [(TkRBracket, s')]) (SliceTypeNode t r)"
  unfolding reads_type_def
proof (intro allI impI)
  fix p
  let ?ts = "(TkLBracket, s) # ts @ [(TkRBracket, s')]" and ?q = "after ts (beyond p)"
  assume a: "ahead p ?ts"
  have eof: "TkLBracket \<noteq> TkEof" "TkRBracket \<noteq> TkEof" by simp_all
  note st = ahead_step [OF a eof(1)]
  note rp = ahead_appendD [OF st(4)]
  note q = ahead_step [OF rp(2) eof(2)]
  have "cur_kind ?q \<notin> {TkColonColon, TkArrow}" by (simp add: q(1))
  with assms rp(1) obtain t' where
    t: "strip_type t' = strip_type t" "evals (\<lambda>n. parseType n (beyond p)) (Parsed t' ?q)"
    unfolding reads_type_def by blast
  let ?t = "SliceTypeNode t' (range_at (cur_loc p))"
  have step: "parseType (Suc n) p = andThen (parseType n (beyond p)) (\<lambda>elem p1.
          if ps_check TkSemicolon p1 then
            andThen (parseExpr n 0 (ps_advance p1)) (\<lambda>size p2.
              Parsed (ArrayTypeNode elem size (range_at (cur_loc p))) (ps_require TkRBracket (''expected '' @ quoted '']'') p2))
          else Parsed (SliceTypeNode elem (range_at (cur_loc p))) (ps_require TkRBracket (''expected '' @ quoted '']'') p1))" for n
    unfolding parseType.simps(2) Let_def by (simp add: st ps_check_cur_kind)
  have "evals (\<lambda>n. parseType n p) (Parsed ?t (beyond ?q))"
    by (rule evals_Suc, rule step, rule evals_andThen [OF t(2)])
      (simp add: ps_check_cur_kind q ahead_expect(2) [OF rp(2) eof(2)] evals_const)
  with t(1) show "\<exists>t'. strip_type t' = strip_type (SliceTypeNode t r) \<and>
      evals (\<lambda>n. parseType n p) (Parsed t' (after ?ts p))"
    by (intro exI [of _ ?t]) simp
qed

lemma array_type:
  assumes "reads_type ts t" "reads_expr 0 us e"
  shows "reads_type ((TkLBracket, s) # ts @ (TkSemicolon, s2) # us @ [(TkRBracket, s3)]) (ArrayTypeNode t e r)"
  unfolding reads_type_def
proof (intro allI impI)
  fix p
  let ?ts = "(TkLBracket, s) # ts @ (TkSemicolon, s2) # us @ [(TkRBracket, s3)]" and ?q = "after ts (beyond p)"
  let ?z = "after us (beyond ?q)"
  assume a: "ahead p ?ts"
  have eof: "TkLBracket \<noteq> TkEof" "TkRBracket \<noteq> TkEof" "TkSemicolon \<noteq> TkEof" by simp_all
  note st = ahead_step [OF a eof(1)]
  note rp = ahead_appendD [OF st(4)]
  note q = ahead_step [OF rp(2) eof(3)]
  note up = ahead_appendD [OF q(4)]
  have "cur_kind ?q \<notin> {TkColonColon, TkArrow}" by (simp add: q(1))
  with assms(1) rp(1) obtain t' where
    t: "strip_type t' = strip_type t" "evals (\<lambda>n. parseType n (beyond p)) (Parsed t' ?q)"
    unfolding reads_type_def by blast
  have "ends 0 (cur_kind ?z)" using ahead_cur [OF up(2)] by (simp add: ends_closing)
  with assms(2) up(1) obtain e' where
    e: "strip e' = strip e" "evals (\<lambda>n. parseExpr n 0 (beyond ?q)) (Parsed e' ?z)"
    unfolding reads_expr_def by blast
  let ?t = "ArrayTypeNode t' e' (range_at (cur_loc p))"
  have step: "parseType (Suc n) p = andThen (parseType n (beyond p)) (\<lambda>elem p1.
          if ps_check TkSemicolon p1 then
            andThen (parseExpr n 0 (ps_advance p1)) (\<lambda>size p2.
              Parsed (ArrayTypeNode elem size (range_at (cur_loc p))) (ps_require TkRBracket (''expected '' @ quoted '']'') p2))
          else Parsed (SliceTypeNode elem (range_at (cur_loc p))) (ps_require TkRBracket (''expected '' @ quoted '']'') p1))" for n
    unfolding parseType.simps(2) Let_def by (simp add: st ps_check_cur_kind)
  have inner: "evals (\<lambda>n. andThen (parseExpr n 0 (beyond ?q)) (\<lambda>size p2.
      Parsed (ArrayTypeNode t' size (range_at (cur_loc p))) (ps_require TkRBracket (''expected '' @ quoted '']'') p2)))
      (Parsed ?t (beyond ?z))"
    by (rule evals_andThen [OF e(2)]) (simp add: ahead_expect(2) [OF up(2) eof(2)] evals_const)
  have "evals (\<lambda>n. parseType n p) (Parsed ?t (beyond ?z))"
    by (rule evals_Suc, rule step, rule evals_andThen [OF t(2)])
      (simp only: ps_check_cur_kind q refl if_True inner)
  with t(1) e(1) show "\<exists>t'. strip_type t' = strip_type (ArrayTypeNode t e r) \<and>
      evals (\<lambda>n. parseType n p) (Parsed t' (after ?ts p))"
    by (intro exI [of _ ?t]) simp
qed

definition reads_params :: "ptoken list \<Rightarrow> TypeNode list \<Rightarrow> bool" where
  "reads_params ts es \<longleftrightarrow> (if es = [] then ts = [] else starts ts \<and> reads_types ts es)"

lemma params_evals:
  assumes "reads_params ts es" "ahead p (ts @ (TkRParen, s) # us)"
  shows "\<exists>es'. map strip_type es' = map strip_type es
    \<and> evals (\<lambda>n. if ps_check TkRParen p then Parsed [] p else parseTypeList n p) (Parsed es' (after ts p))"
proof (cases "es = []")
  case True
  with assms have "ps_check TkRParen p" by (auto simp: reads_params_def ps_check_cur_kind dest: ahead_cur)
  with True assms(1) show ?thesis by (auto simp: reads_params_def evals_const)
next
  case False
  note as = ahead_appendD [OF assms(2)]
  from False assms(1) have ts: "starts ts" "reads_types ts es" by (auto simp: reads_params_def)
  have "cur_kind (after ts p) = TkRParen" using ahead_cur [OF as(2)] by auto
  with ts(2) as(1) obtain es' where
    "map strip_type es' = map strip_type es" "evals (\<lambda>n. parseTypeList n p) (Parsed es' (after ts p))"
    unfolding reads_types_def by blast
  moreover have "\<not> ps_check TkRParen p" using starts_cur [OF as(1) ts(1)] by (auto simp: ps_check_cur_kind)
  ultimately show ?thesis by auto
qed

lemma function_type_steps:
  assumes "reads_params us params" "ahead p ((KwFn, s1) # (TkLParen, s2) # us @ (TkRParen, s3) # vs)"
  shows "\<exists>params'. map strip_type params' = map strip_type params \<and>
    (\<forall>r. evals (\<lambda>n. if ps_check TkArrow (beyond (after us (beyond (beyond p)))) then
              andThen (parseType n (ps_advance (beyond (after us (beyond (beyond p))))))
                (\<lambda>ret p4. Parsed (FunctionTypeNode params' (Some ret) (range_at (cur_loc p))) p4)
            else Parsed (FunctionTypeNode params' None (range_at (cur_loc p))) (beyond (after us (beyond (beyond p))))) r
       \<longrightarrow> evals (\<lambda>n. parseType n p) r)"
proof -
  have eof: "KwFn \<noteq> TkEof" "TkLParen \<noteq> TkEof" "TkRParen \<noteq> TkEof" by simp_all
  note st = ahead_step [OF assms(2) eof(1)]
  note st2 = ahead_step [OF st(4) eof(2)]
  note rp = ahead_appendD [OF st2(4)]
  let ?q = "beyond (beyond p)"
  from params_evals [OF assms(1) st2(4)] obtain ps where
    ps: "map strip_type ps = map strip_type params"
      "evals (\<lambda>n. if ps_check TkRParen ?q then Parsed [] ?q else parseTypeList n ?q) (Parsed ps (after us ?q))" by blast
  have step: "parseType (Suc n) p =
      andThen (if ps_check TkRParen ?q then Parsed [] ?q else parseTypeList n ?q) (\<lambda>params p2.
            if ps_check TkArrow (ps_require TkRParen (''expected '' @ quoted '')'' @ '' in function type'') p2) then
              andThen (parseType n (ps_advance (ps_require TkRParen (''expected '' @ quoted '')'' @ '' in function type'') p2)))
                (\<lambda>ret p4. Parsed (FunctionTypeNode params (Some ret) (range_at (cur_loc p))) p4)
            else Parsed (FunctionTypeNode params None (range_at (cur_loc p)))
              (ps_require TkRParen (''expected '' @ quoted '')'' @ '' in function type'') p2))" for n
    unfolding parseType.simps(2) Let_def by (simp add: st ahead_expect(2) [OF st(4) eof(2)] ps_check_cur_kind)
  show ?thesis
  proof (intro exI [of _ ps] conjI ps(1) allI impI)
    fix r
    assume "evals (\<lambda>n. if ps_check TkArrow (beyond (after us ?q)) then
              andThen (parseType n (ps_advance (beyond (after us ?q))))
                (\<lambda>ret p4. Parsed (FunctionTypeNode ps (Some ret) (range_at (cur_loc p))) p4)
            else Parsed (FunctionTypeNode ps None (range_at (cur_loc p))) (beyond (after us ?q))) r"
    then show "evals (\<lambda>n. parseType n p) r"
      by (intro evals_Suc [where g = "\<lambda>n. parseType n p", OF step] evals_andThen [OF ps(2)])
        (simp only: ahead_expect(2) [OF rp(2) eof(3)])
  qed
qed

lemma function_type:
  assumes "reads_params us params" "\<And>t. ret = Some t \<Longrightarrow> reads_type (pr t) t"
  shows "reads_type ((KwFn, s1) # (TkLParen, s2) # us @ (TkRParen, s3)
      # (case ret of None \<Rightarrow> [] | Some t \<Rightarrow> (TkArrow, s4) # pr t)) (FunctionTypeNode params ret r)"
  unfolding reads_type_def
proof (intro allI impI)
  fix p
  let ?vs = "case ret of None \<Rightarrow> [] | Some t \<Rightarrow> (TkArrow, s4) # pr t"
  let ?ts = "(KwFn, s1) # (TkLParen, s2) # us @ (TkRParen, s3) # ?vs"
  let ?q = "beyond (after us (beyond (beyond p)))"
  assume a: "ahead p ?ts" "cur_kind (after ?ts p) \<notin> {TkColonColon, TkArrow}"
  from function_type_steps [OF assms(1) a(1)] obtain ps where
    ps: "map strip_type ps = map strip_type params"
      "\<And>r. evals (\<lambda>n. if ps_check TkArrow ?q then andThen (parseType n (ps_advance ?q))
                (\<lambda>ret p4. Parsed (FunctionTypeNode ps (Some ret) (range_at (cur_loc p))) p4)
            else Parsed (FunctionTypeNode ps None (range_at (cur_loc p))) ?q) r
        \<Longrightarrow> evals (\<lambda>n. parseType n p) r" by blast
  have eof: "KwFn \<noteq> TkEof" "TkLParen \<noteq> TkEof" "TkRParen \<noteq> TkEof" "TkArrow \<noteq> TkEof" by simp_all
  have q: "ahead ?q ?vs"
    using ahead_step(4) [OF ahead_appendD(2) [OF ahead_step(4) [OF ahead_step(4) [OF a(1) eof(1)] eof(2)]] eof(3)] .
  show "\<exists>t'. strip_type t' = strip_type (FunctionTypeNode params ret r) \<and>
      evals (\<lambda>n. parseType n p) (Parsed t' (after ?ts p))"
  proof (cases ret)
    case None
    with a(2) have "\<not> ps_check TkArrow ?q" by (simp add: ps_check_cur_kind)
    then have "evals (\<lambda>n. parseType n p) (Parsed (FunctionTypeNode ps None (range_at (cur_loc p))) ?q)"
      by (intro ps(2)) (simp add: evals_const)
    with ps(1) None show ?thesis by (intro exI [of _ "FunctionTypeNode ps None (range_at (cur_loc p))"]) simp
  next
    case (Some t)
    with q have "ahead ?q ((TkArrow, s4) # pr t)" by simp
    note ar = ahead_step [OF this eof(4)]
    from assms(2) [OF Some] ar(4) a(2) Some obtain t' where
      t: "strip_type t' = strip_type t" "evals (\<lambda>n. parseType n (beyond ?q)) (Parsed t' (after (pr t) (beyond ?q)))"
      unfolding reads_type_def by auto
    have "evals (\<lambda>n. parseType n p) (Parsed (FunctionTypeNode ps (Some t') (range_at (cur_loc p))) (after (pr t) (beyond ?q)))"
      by (intro ps(2)) (simp add: ps_check_cur_kind ar evals_andThen [OF t(2)] evals_const)
    with ps(1) t(1) Some show ?thesis
      by (intro exI [of _ "FunctionTypeNode ps (Some t') (range_at (cur_loc p))"]) simp
  qed
qed


section \<open>Atoms and the whole tree\<close>

text \<open>Names and literals.\<close>

lemma atom_primary:
  assumes "k \<in> {TkIntLiteral, TkStringLiteral, TkCharLiteral, KwTrue, KwFalse, KwNil, TkIdentifier}"
    and "\<And>p. cur_kind p = k \<Longrightarrow> tok_lexeme (current p) = s \<Longrightarrow>
      \<exists>e'. strip e' = strip e \<and> parseAtom p = Parsed e' (ps_advance p)"
  shows "reads_primary [(k, s)] e"
  unfolding reads_primary_def
proof (intro allI impI)
  fix p
  assume a: "ahead p [(k, s)]"
  have eof: "k \<noteq> TkEof" using assms(1) by auto
  note st = ahead_step [OF a eof]
  from assms(2) [OF st(1,2)] obtain e' where e: "strip e' = strip e" "parseAtom p = Parsed e' (ps_advance p)" by blast
  have step: "parsePrimaryExpr (Suc n) p = Parsed e' (beyond p)" for n
    unfolding parsePrimaryExpr.simps(2) Let_def using assms(1) by (auto simp: st ps_check_cur_kind e(2))
  have "evals (\<lambda>n. parsePrimaryExpr n p) (Parsed e' (beyond p))"
    by (rule evals_Suc, rule step, rule evals_const)
  with e(1) show "\<exists>e'. strip e' = strip e \<and> evals (\<lambda>n. parsePrimaryExpr n p) (Parsed e' (after [(k, s)] p))"
    by (intro exI [of _ e']) simp
qed

lemma int_primary: "unat v < 2 ^ 63 \<Longrightarrow> reads_primary [(TkIntLiteral, nat_to_string (unat v))] (IntLiteralExpr v r)"
  by (rule atom_primary) (simp_all add: parseAtom_def Let_def stoll_reads_decimal)

lemma string_primary: "reads_primary [(TkStringLiteral, dquoted s)] (StringLiteralExpr s r)"
  by (rule atom_primary) (simp_all add: parseAtom_def Let_def dquoted_def substr_def)

lemma sint_byte: "n < 128 \<Longrightarrow> sint (of_nat n :: 8 word) = int n"
  by (simp add: sint_uint unsigned_of_nat take_bit_nat_eq_self signed_take_bit_int_eq_self uint_nat)

lemma char_value:
  assumes "unat (c :: 32 word) < 128"
  shows "scast (of_char (char_of (unat c) :: char) :: 8 word) = c"
proof -
  have "of_char (char_of (unat c) :: char) = (of_nat (of_char (char_of (unat c) :: char)) :: 8 word)"
    by (rule of_nat_of_char [symmetric])
  also have "of_char (char_of (unat c) :: char) = unat c mod 256" by simp
  finally have "of_char (char_of (unat c) :: char) = (of_nat (unat c) :: 8 word)" using assms by simp
  moreover have "(scast (of_nat (unat c) :: 8 word) :: 32 word) = c"
    by (simp only: scast_eq sint_byte [OF assms]) simp
  ultimately show ?thesis by simp
qed

lemma char_primary: "unat c < 128 \<Longrightarrow> reads_primary [(TkCharLiteral, quoted [char_of (unat c)])] (CharLiteralExpr c r)"
  by (rule atom_primary) (simp_all add: parseAtom_def Let_def quoted_def char_value)

lemma other_atoms:
  "reads_primary [(TkIdentifier, name)] (IdentExpr name r)"
  "reads_primary [(KwTrue, s)] (BoolLiteralExpr True r)"
  "reads_primary [(KwFalse, s)] (BoolLiteralExpr False r)"
  "reads_primary [(KwNil, s)] (NilLiteralExpr r)"
  by (rule atom_primary; simp add: parseAtom_def Let_def)+

text \<open>All levels, from the level of the expression's own form.\<close>

definition reads_all :: "Expr \<Rightarrow> bool" where
  "reads_all e \<longleftrightarrow> reads_primary (print_expr 12 e) e \<and> reads_postfix (print_expr 11 e) e
     \<and> (\<forall>l. 1 \<le> l \<and> l \<le> 11 \<longrightarrow> reads_infix l (print_expr l e) e) \<and> reads_expr 0 (print_expr 0 e) e"

lemma all_from_expr:
  assumes "\<And>l. print_expr l e = paren (0 < l) ts" "reads_expr 0 ts e"
  shows "reads_all e"
proof -
  have p: "reads_primary (paren True ts) e" using paren_primary [OF assms(2)] by (simp add: paren_def)
  note q = primary_postfix [OF p]
  show ?thesis using p q postfix_infix [OF q] assms(2) by (auto simp: reads_all_def assms(1)) (simp add: paren_def)
qed

lemma all_from_infix:
  assumes "\<And>l. print_expr l e = paren (P < l) ts" "reads_infix P ts e" "1 \<le> P" "P \<le> 10"
  shows "reads_all e"
proof -
  have z: "reads_expr 0 ts e" using infix_expr [OF assms(2)] assms(3) by simp
  have p: "reads_primary (paren True ts) e" using paren_primary [OF z] by (simp add: paren_def)
  note q = primary_postfix [OF p]
  have "reads_infix l (paren (P < l) ts) e" for l
    using postfix_infix [OF q, of l] infix_weaken [OF assms(2), of l] by (cases "P < l") (simp_all add: paren_def)
  moreover have "paren (P < 12) ts = paren True ts" "paren (P < 11) ts = paren True ts" "paren (P < 0) ts = ts"
    using assms(4) by (simp_all add: paren_def)
  ultimately show ?thesis using p q z by (simp add: reads_all_def assms(1))
qed

lemma all_from_postfix:
  assumes "\<And>l. print_expr l e = paren (11 < l) ts" "reads_postfix ts e"
  shows "reads_all e"
proof -
  note i = postfix_infix [OF assms(2)]
  have z: "reads_expr 0 ts e" using infix_expr [OF i [of 1]] by simp
  have "reads_primary (paren True ts) e" using paren_primary [OF z] by (simp add: paren_def)
  with z i assms(2) show ?thesis by (auto simp: reads_all_def assms(1) paren_def)
qed

lemma all_from_primary:
  assumes "\<And>l. print_expr l e = ts" "reads_primary ts e"
  shows "reads_all e"
proof -
  note q = primary_postfix [OF assms(2)]
  note i = postfix_infix [OF q]
  show ?thesis using assms(2) q i infix_expr [OF i [of 1]] by (simp add: reads_all_def assms(1))
qed

lemma reads_args_print: "\<forall>e \<in> set es. reads_all e \<Longrightarrow> reads_args (comma_list (map (print_expr 0) es)) es"
  by (auto simp: reads_args_def print_starts reads_all_def intro!: comma_list_starts expr_list_reads)

lemma reads_params_print: "\<forall>t \<in> set ts. reads_type (print_type t) t \<Longrightarrow> reads_params (comma_list (map print_type ts)) ts"
  by (auto simp: reads_params_def print_starts intro!: comma_list_starts type_list_reads)

lemma print_reads:
  shows "printable_type t \<Longrightarrow> reads_type (print_type t) t" and "printable e \<Longrightarrow> reads_all e"
proof (induction t and e)
  case (PointerTypeNode t isMut r)
  then show ?case using pointer_type [OF _ print_starts(1)] by simp
next
  case (FunctionTypeNode params ret r)
  have "reads_type (print_type t) t" if "ret = Some t" for t
    using FunctionTypeNode that by simp
  moreover have "reads_params (comma_list (map print_type params)) params"
    using FunctionTypeNode by (intro reads_params_print) (simp add: list_all_iff)
  ultimately show ?case using function_type [where pr = print_type and ret = ret] by simp
next
  case (BinaryExpr op a b r)
  let ?P = "precedence_of (binary_kind op)"
  have ab: "reads_all a" "reads_all b" using BinaryExpr by simp_all
  have P: "1 \<le> ?P" "?P \<le> 10" using binary_kind_facts(4,5) [of op] by simp_all
  have "reads_infix ?P (print_expr ?P a) a" using ab(1) P by (simp add: reads_all_def)
  moreover have "reads_infix (?P + 1) (print_expr (?P + 1) b) b" using ab(2) P by (simp add: reads_all_def)
  then have "reads_expr ?P (print_expr (?P + 1) b) b" by (rule infix_expr) simp
  ultimately have "reads_infix ?P (print_expr ?P a @ (binary_kind op, binaryOpName op) # print_expr (?P + 1) b) (BinaryExpr op a b r)"
    by (rule binary_infix [OF refl])
  then show ?case using P by (intro all_from_infix [where P = ?P]) (simp_all add: Let_def)
next
  case (UnaryExpr op e r)
  then have "reads_primary (print_expr 12 e) e" by (simp add: reads_all_def)
  from all_from_primary [OF _ unary_primary [OF this]] show ?case by simp
next
  case (AssignExpr op target v r)
  then have "reads_expr 0 (print_expr 11 target @ assign_token op # print_expr 0 v) (AssignExpr op target v r)"
    by (intro assign_expr) (simp_all add: reads_all_def)
  then show ?case by (intro all_from_expr) simp_all
next
  case (CallExpr f args r)
  then have "reads_postfix (print_expr 11 f) f" by (simp add: reads_all_def)
  moreover have "reads_args (comma_list (map (print_expr 0) args)) args"
    using CallExpr by (intro reads_args_print) (simp add: list_all_iff)
  ultimately show ?case using call_postfix by (intro all_from_postfix) simp_all
next
  case (IndexExpr e i r)
  then have "reads_postfix (print_expr 11 e) e" "reads_expr 0 (print_expr 0 i) i" by (simp_all add: reads_all_def)
  from index_postfix [OF this] show ?case by (intro all_from_postfix) simp_all
next
  case (MemberExpr e member r)
  then have "reads_postfix (print_expr 11 e) e" by (simp add: reads_all_def)
  from member_postfix [OF this] show ?case by (intro all_from_postfix) simp_all
next
  case (CastExpr e t r)
  then have "reads_postfix (print_expr 11 e) e" "reads_type (print_type t) t" by (simp_all add: reads_all_def)
  from cast_postfix [OF this] show ?case by (intro all_from_postfix) simp_all
next
  case (IntLiteralExpr v r)
  then show ?case using int_primary by (intro all_from_primary) simp_all
next
  case (StringLiteralExpr s r)
  then show ?case using string_primary by (intro all_from_primary) simp_all
next
  case (CharLiteralExpr c r)
  then show ?case using char_primary by (intro all_from_primary) simp_all
next
  case (BoolLiteralExpr b r)
  have "reads_all (BoolLiteralExpr True r)" "reads_all (BoolLiteralExpr False r)"
    by (rule all_from_primary [OF _ other_atoms(2)], simp, rule all_from_primary [OF _ other_atoms(3)], simp)
  then show ?case by (cases b) simp_all
next
  case (ArrayLiteralExpr es r)
  have "reads_args (comma_list (map (print_expr 0) es)) es"
    using ArrayLiteralExpr by (intro reads_args_print) (simp add: list_all_iff)
  from all_from_primary [OF _ array_primary [OF this]] show ?case by simp
next
  case (SliceTypeNode t r)
  then show ?case using slice_type by simp
next
  case (ArrayTypeNode t e r)
  then show ?case using array_type by (simp add: reads_all_def)
next
  case (NamedTypeNode name r)
  show ?case using named_type by simp
next
  case (IdentExpr name r)
  show ?case using other_atoms(1) by (intro all_from_primary) simp_all
next
  case (NilLiteralExpr r)
  show ?case using other_atoms(4) by (intro all_from_primary) simp_all
qed simp_all

lemma ahead_parses:
  assumes "printable e" "ahead p (print_expr 0 e)" "ends 0 (cur_kind (after (print_expr 0 e) p))"
  shows "\<exists>e' N. strip e' = strip e
    \<and> (\<forall>n \<ge> N. parseExpression n 0 p = Parsed e' (p\<lparr>ps_pos := ps_pos p + length (print_expr 0 e)\<rparr>))"
proof -
  have "reads_expr 0 (print_expr 0 e) e" using print_reads(2) [OF assms(1)] by (simp add: reads_all_def)
  with assms(2,3) obtain e' where "strip e' = strip e" "evals (\<lambda>n. parseExpr n 0 p) (Parsed e' (after (print_expr 0 e) p))"
    unfolding reads_expr_def by blast
  then show ?thesis by (auto simp: evals_def parseExpression_def after_def forward_def)
qed



end
