(* ===== verification/Vcc_Parser_Statements.thy ===== *)
theory Vcc_Parser_Statements
  imports Vcc_Parser_Roundtrip
begin

text \<open>
  The grammar of statements, as a printer over that of expressions and types; the parser reads a printed statement
  back. The printer writes the optional semicolons and commas and puts the conditions of \<open>if\<close>,
  \<open>vloop\<close> and \<open>match\<close> in parentheses. Equality of trees up to source ranges is defined here, for statements
  and declarations.
\<close>


section \<open>The printer\<close>

definition semi :: ptoken where "semi = (TkSemicolon, '';'')"
definition comma :: ptoken where "comma = (TkComma, '','')"
definition braces :: "ptoken list \<Rightarrow> ptoken list" where "braces ts = (TkLBrace, ''{'') # ts @ [(TkRBrace, ''}'')]"
definition parens :: "ptoken list \<Rightarrow> ptoken list" where "parens ts = (TkLParen, ''('') # ts @ [(TkRParen, '')'')]"
definition name_tok :: "string \<Rightarrow> ptoken" where "name_tok x = (TkIdentifier, x)"

fun var_token :: "VarKind \<Rightarrow> ptoken" where
  "var_token VkLet = (KwLet, ''let'')"
| "var_token VkVar = (KwVar, ''var'')"
| "var_token VkConst = (KwConst, ''const'')"

definition print_opt :: "ptoken \<Rightarrow> ('a \<Rightarrow> ptoken list) \<Rightarrow> 'a option \<Rightarrow> ptoken list" where
  "print_opt t pr x = (case x of None \<Rightarrow> [] | Some y \<Rightarrow> t # pr y)"

fun print_var :: "Decl \<Rightarrow> ptoken list" where
  "print_var (VarDecl vk x type init _) =
     var_token vk # name_tok x # print_opt (TkColon, '':'') print_type type @ print_opt (TkEq, ''='') (print_expr 0) init @ [semi]"
| "print_var _ = []"

fun print_stmt :: "Stmt \<Rightarrow> ptoken list"
  and print_arm :: "MatchArm \<Rightarrow> ptoken list" where
  "print_stmt (BlockStmt ss _) = braces (concat (map print_stmt ss))"
| "print_stmt (ExprStmt e _) = print_expr 0 e @ [semi]"
| "print_stmt (DeclStmt d _) = print_var d"
| "print_stmt (ReturnStmt v _) = (KwReturn, ''return'') # (case v of None \<Rightarrow> [] | Some e \<Rightarrow> print_expr 0 e) @ [semi]"
| "print_stmt (IfStmt c t e _) =
     (KwIf, ''if'') # parens (print_expr 0 c) @ print_stmt t @ (case e of None \<Rightarrow> [] | Some s \<Rightarrow> (KwElse, ''else'') # print_stmt s)"
| "print_stmt (WhileStmt c b _) = (KwWhile, ''while'') # print_expr 0 c @ print_stmt b"
| "print_stmt (VloopStmt c b _) = (KwVloop, ''vloop'') # parens (print_expr 0 c) @ print_stmt b"
| "print_stmt (ForStmt x iter b _) = (KwFor, ''for'') # name_tok x # (KwIn, ''in'') # print_expr 0 iter @ print_stmt b"
| "print_stmt (BreakStmt _) = [(KwBreak, ''break''), semi]"
| "print_stmt (ContinueStmt _) = [(KwContinue, ''continue''), semi]"
| "print_stmt (MatchStmt e arms _) = (KwMatch, ''match'') # parens (print_expr 0 e) @ braces (concat (map print_arm arms))"
| "print_arm (MatchArm pat b) =
     (case pat of None \<Rightarrow> [name_tok ''_''] | Some e \<Rightarrow> print_expr 0 e) @ (TkFatArrow, ''=>'') # print_stmt b @ [comma]"

text \<open>
  What can be printed: loops have blocks as bodies; an \<open>if\<close> without \<open>else\<close> is not the branch of one with
  \<open>else\<close>, which would take it; a pattern does not begin with the wildcard; no declarations but those of variables
  stand among statements.
\<close>

fun open_if :: "Stmt \<Rightarrow> bool" where
  "open_if (IfStmt c t e _) = (case e of None \<Rightarrow> True | Some s \<Rightarrow> open_if s)"
| "open_if _ = False"

fun is_block :: "Stmt \<Rightarrow> bool" where
  "is_block (BlockStmt _ _) = True"
| "is_block _ = False"

definition optionally :: "('a \<Rightarrow> bool) \<Rightarrow> 'a option \<Rightarrow> bool" where
  "optionally P x = (case x of None \<Rightarrow> True | Some y \<Rightarrow> P y)"

fun printable_var :: "Decl \<Rightarrow> bool" where
  "printable_var (VarDecl vk x type init _) = (optionally printable_type type \<and> optionally printable init)"
| "printable_var _ = False"

fun printable_stmt :: "Stmt \<Rightarrow> bool"
  and printable_arm :: "MatchArm \<Rightarrow> bool" where
  "printable_stmt (BlockStmt ss _) = list_all printable_stmt ss"
| "printable_stmt (ExprStmt e _) = printable e"
| "printable_stmt (DeclStmt d _) = printable_var d"
| "printable_stmt (ReturnStmt v _) = optionally printable v"
| "printable_stmt (IfStmt c t e _) =
     (printable c \<and> printable_stmt t \<and> (case e of None \<Rightarrow> True | Some s \<Rightarrow> \<not> open_if t \<and> printable_stmt s))"
| "printable_stmt (WhileStmt c b _) = (printable c \<and> is_block b \<and> printable_stmt b)"
| "printable_stmt (VloopStmt c b _) = (printable c \<and> is_block b \<and> printable_stmt b)"
| "printable_stmt (ForStmt x iter b _) = (printable iter \<and> is_block b \<and> printable_stmt b)"
| "printable_stmt (BreakStmt _) = True"
| "printable_stmt (ContinueStmt _) = True"
| "printable_stmt (MatchStmt e arms _) = (printable e \<and> list_all printable_arm arms)"
| "printable_arm (MatchArm pat b) =
     ((case pat of None \<Rightarrow> True | Some e \<Rightarrow> printable e \<and> hd (print_expr 0 e) \<noteq> name_tok ''_'') \<and> printable_stmt b)"

text \<open>Equality up to source ranges.\<close>

definition strip_param :: "ParameterDecl \<Rightarrow> ParameterDecl" where
  "strip_param p = p\<lparr>param_type := strip_type (param_type p), param_range := range_default\<rparr>"

definition strip_field :: "FieldDecl \<Rightarrow> FieldDecl" where
  "strip_field f = f\<lparr>field_type := strip_type (field_type f), field_range := range_default\<rparr>"

definition strip_variant :: "EnumVariantDecl \<Rightarrow> EnumVariantDecl" where
  "strip_variant v = v\<lparr>variant_fields := map strip_type (variant_fields v), variant_range := range_default\<rparr>"

fun strip_stmt :: "Stmt \<Rightarrow> Stmt"
  and strip_arm :: "MatchArm \<Rightarrow> MatchArm"
  and strip_decl :: "Decl \<Rightarrow> Decl" where
  "strip_stmt (BlockStmt ss _) = BlockStmt (map strip_stmt ss) range_default"
| "strip_stmt (ExprStmt e _) = ExprStmt (strip e) range_default"
| "strip_stmt (DeclStmt d _) = DeclStmt (strip_decl d) range_default"
| "strip_stmt (ReturnStmt v _) = ReturnStmt (map_option strip v) range_default"
| "strip_stmt (IfStmt c t e _) = IfStmt (strip c) (strip_stmt t) (map_option strip_stmt e) range_default"
| "strip_stmt (WhileStmt c b _) = WhileStmt (strip c) (strip_stmt b) range_default"
| "strip_stmt (VloopStmt c b _) = VloopStmt (strip c) (strip_stmt b) range_default"
| "strip_stmt (ForStmt x iter b _) = ForStmt x (strip iter) (strip_stmt b) range_default"
| "strip_stmt (BreakStmt _) = BreakStmt range_default"
| "strip_stmt (ContinueStmt _) = ContinueStmt range_default"
| "strip_stmt (MatchStmt e arms _) = MatchStmt (strip e) (map strip_arm arms) range_default"
| "strip_arm (MatchArm pat b) = MatchArm (map_option strip pat) (strip_stmt b)"
| "strip_decl (ModuleDecl x ds _) = ModuleDecl x (map strip_decl ds) range_default"
| "strip_decl (ImportDecl path a _) = ImportDecl path a range_default"
| "strip_decl (FunctionDecl x ps ret body isPub _) =
     FunctionDecl x (map strip_param ps) (map_option strip_type ret) (map_option strip_stmt body) isPub range_default"
| "strip_decl (StructDecl x fs isPub _) = StructDecl x (map strip_field fs) isPub range_default"
| "strip_decl (EnumDecl x vs isPub _) = EnumDecl x (map strip_variant vs) isPub range_default"
| "strip_decl (VarDecl vk x type init _) = VarDecl vk x (map_option strip_type type) (map_option strip init) range_default"
| "strip_decl (TypeAliasDecl x t isPub _) = TypeAliasDecl x (strip_type t) isPub range_default"


section \<open>Reading ahead\<close>

lemma ends_follow: "k \<in> {TkRParen, TkRBracket, TkComma, TkSemicolon, TkLBrace, TkFatArrow} \<Longrightarrow> ends m k"
  by (auto simp: ends_def isAssignOp_def)

lemma skip_ahead: "ahead p ((k, s) # ts) \<Longrightarrow> k \<noteq> TkEof \<Longrightarrow> ps_skip k p = beyond p"
  by (simp add: ps_skip_def ps_match_def ps_check_cur_kind ahead_step(1,3))

lemma match_ahead: "ahead p ((k, s) # ts) \<Longrightarrow> k \<noteq> TkEof \<Longrightarrow> ps_match k p = (True, beyond p)"
  by (simp add: ps_match_def ps_check_cur_kind ahead_step(1,3))

lemma check_ahead: "ahead p ((k, s) # ts) \<Longrightarrow> ps_check k' p \<longleftrightarrow> k' = k"
  using ahead_cur [of p k s ts] by (auto simp: ps_check_cur_kind)

lemma end_ahead: "ahead p ((k, s) # ts) \<Longrightarrow> isAtEnd p \<longleftrightarrow> k = TkEof"
  using ahead_cur [of p k s ts] by (auto simp: cur_kind_at_end)

lemma evals_unSuc: "(\<And>n. g (Suc n) = h n) \<Longrightarrow> evals g r \<Longrightarrow> evals h r"
  unfolding evals_def by (metis Suc_leD Suc_le_mono)

lemma expr_reads:
  assumes "printable e" "ahead p (print_expr 0 e @ (k, s) # us)" "k \<in> {TkRParen, TkRBracket, TkComma, TkSemicolon, TkLBrace, TkFatArrow}"
  shows "\<exists>e'. strip e' = strip e \<and> evals (\<lambda>n. parseExpr n 0 p) (Parsed e' (after (print_expr 0 e) p))"
proof -
  have "reads_expr 0 (print_expr 0 e) e" using print_reads(2) [OF assms(1)] by (simp add: reads_all_def)
  moreover have "ahead p (print_expr 0 e)" "cur_kind (after (print_expr 0 e) p) = k"
    using ahead_appendD [OF assms(2)] ahead_cur by blast+
  ultimately show ?thesis using ends_follow [OF assms(3)] unfolding reads_expr_def by simp
qed

lemma type_reads:
  assumes "printable_type t" "ahead p (print_type t @ (k, s) # us)" "k \<notin> {TkColonColon, TkArrow}"
  shows "\<exists>t'. strip_type t' = strip_type t \<and> evals (\<lambda>n. parseType n p) (Parsed t' (after (print_type t) p))"
proof -
  have "ahead p (print_type t)" "cur_kind (after (print_type t) p) = k"
    using ahead_appendD [OF assms(2)] ahead_cur by blast+
  then show ?thesis using print_reads(1) [OF assms(1)] assms(3) unfolding reads_type_def by simp
qed

text \<open>The tokens that begin an expression; none of them begins another statement.\<close>

definition expr_start :: "TokenKind \<Rightarrow> bool" where
  "expr_start k \<longleftrightarrow> k \<in> {TkIdentifier, TkIntLiteral, TkFloatLiteral, TkStringLiteral, TkCharLiteral, TkLParen, TkMinus, TkBang,
     TkTilde, TkStar, TkAmp, KwTrue, KwFalse, KwNil, KwArray}"

definition begins :: "ptoken list \<Rightarrow> bool" where
  "begins ts \<longleftrightarrow> ts \<noteq> [] \<and> expr_start (fst (hd ts))"

lemma begins_simps [simp]:
  "begins ((k, s) # ts) = expr_start k" "begins ts \<Longrightarrow> begins (ts @ us)" "begins ts \<Longrightarrow> begins (paren b ts)"
  by (auto simp: begins_def paren_def expr_start_def)

lemma print_expr_begins: "(\<exists>ts. ts = print_type t)" "begins (print_expr l e)"
proof (induction t and l e rule: print_type_print_expr.induct)
  case (8 l op e r)
  then show ?case by (cases op) (simp_all add: expr_start_def)
qed (simp_all add: Let_def expr_start_def)

lemma print_expr_start: "\<exists>k s ts. print_expr l e = (k, s) # ts \<and> expr_start k"
  using print_expr_begins(2) [of l e] by (cases "print_expr l e") (auto simp: begins_def)


section \<open>Statements\<close>

lemma optional_type:
  assumes "optionally printable_type t" "ahead p (print_opt (k0, s0) print_type t @ (k, s) # us)"
    and "k0 \<noteq> TkEof" "k \<noteq> k0" "k \<notin> {TkColonColon, TkArrow}"
  shows "\<exists>t'. map_option strip_type t' = map_option strip_type t
    \<and> evals (\<lambda>n. if ps_check k0 p then andThen (parseType n (ps_advance p)) (\<lambda>t p3. Parsed (Some t) p3) else Parsed None p)
        (Parsed t' (after (print_opt (k0, s0) print_type t) p))"
proof (cases t)
  case None
  then show ?thesis using assms(2,4) check_ahead [of p k s us] by (simp add: print_opt_def evals_const)
next
  case (Some u)
  with assms(2) have a: "ahead p ((k0, s0) # print_type u @ (k, s) # us)" by (simp add: print_opt_def)
  note st = ahead_step [OF a assms(3)]
  obtain u' where u: "strip_type u' = strip_type u" "evals (\<lambda>n. parseType n (beyond p)) (Parsed u' (after (print_type u) (beyond p)))"
    using type_reads [OF _ st(4) assms(5)] assms(1) Some by (auto simp: optionally_def)
  have "evals (\<lambda>n. andThen (parseType n (beyond p)) (\<lambda>t p3. Parsed (Some t) p3)) (Parsed (Some u') (after (print_type u) (beyond p)))"
    by (rule evals_andThen [OF u(2)]) (rule evals_const)
  then show ?thesis using u(1) Some st check_ahead [OF a] by (intro exI [of _ "Some u'"]) (simp add: print_opt_def)
qed

lemma optional_init:
  assumes "optionally printable e" "ahead p (print_opt (TkEq, ''='') (print_expr 0) e @ (TkSemicolon, s) # us)"
  shows "\<exists>e'. map_option strip e' = map_option strip e
    \<and> evals (\<lambda>n. if ps_check TkEq p then andThen (parseExpr n 0 (ps_advance p)) (\<lambda>e p4. Parsed (Some e) p4) else Parsed None p)
        (Parsed e' (after (print_opt (TkEq, ''='') (print_expr 0) e) p))"
proof (cases e)
  case None
  then show ?thesis using assms(2) check_ahead [of p TkSemicolon s us] by (simp add: print_opt_def evals_const)
next
  case (Some u)
  with assms(2) have a: "ahead p ((TkEq, ''='') # print_expr 0 u @ (TkSemicolon, s) # us)" by (simp add: print_opt_def)
  have eof: "TkEq \<noteq> TkEof" by simp
  note st = ahead_step [OF a eof]
  obtain u' where u: "strip u' = strip u" "evals (\<lambda>n. parseExpr n 0 (beyond p)) (Parsed u' (after (print_expr 0 u) (beyond p)))"
    using expr_reads [OF _ st(4)] assms(1) Some by (auto simp: optionally_def)
  have "evals (\<lambda>n. andThen (parseExpr n 0 (beyond p)) (\<lambda>e p4. Parsed (Some e) p4)) (Parsed (Some u') (after (print_expr 0 u) (beyond p)))"
    by (rule evals_andThen [OF u(2)]) (rule evals_const)
  then show ?thesis using u(1) Some st check_ahead [OF a] by (intro exI [of _ "Some u'"]) (simp add: print_opt_def)
qed

lemma var_token_kind: "\<exists>s. var_token vk = (case vk of VkLet \<Rightarrow> KwLet | VkVar \<Rightarrow> KwVar | VkConst \<Rightarrow> KwConst, s)"
  by (cases vk) auto

lemma var_reads:
  assumes "printable_var d" "ahead p (print_var d)"
  shows "\<exists>d'. strip_decl d' = strip_decl d \<and> evals (\<lambda>n. parseVarDecl n p) (Parsed d' (after (print_var d) p))"
proof -
  obtain vk x type init r where d: "d = VarDecl vk x type init r" "optionally printable_type type" "optionally printable init"
    using assms(1) by (cases d) auto
  obtain k s where k: "var_token vk = (k, s)" "k = (case vk of VkLet \<Rightarrow> KwLet | VkVar \<Rightarrow> KwVar | VkConst \<Rightarrow> KwConst)"
    using var_token_kind [of vk] by blast
  let ?type = "print_opt (TkColon, '':'') print_type type" and ?init = "print_opt (TkEq, ''='') (print_expr 0) init"
  have a: "ahead p ((k, s) # (TkIdentifier, x) # ?type @ ?init @ [(TkSemicolon, '';'')])"
    using assms(2) d(1) k(1) by (simp add: name_tok_def semi_def)
  have eof: "k \<noteq> TkEof" "TkIdentifier \<noteq> TkEof" "TkSemicolon \<noteq> TkEof" "TkColon \<noteq> TkEof" using k(2) by (simp_all split: VarKind.split)
  note st = ahead_step [OF a eof(1)]
  note st2 = ahead_step [OF st(4) eof(2)]
  let ?q = "beyond (beyond p)"
  have kind: "parseVarKind p = (vk, beyond p)"
    using check_ahead [OF a] st(3) k(2) by (cases vk) (simp_all add: parseVarKind_def)
  obtain k1 s1 us where next_tok: "?init @ [(TkSemicolon, '';'')] = (k1, s1) # us" "k1 \<noteq> TkColon" "k1 \<notin> {TkColonColon, TkArrow}"
    by (cases init) (auto simp: print_opt_def)
  from optional_type [OF d(2) st2(4) [unfolded next_tok(1)] eof(4) next_tok(2,3)] obtain type' where
    t: "map_option strip_type type' = map_option strip_type type"
      "evals (\<lambda>n. if ps_check TkColon ?q then andThen (parseType n (ps_advance ?q)) (\<lambda>t p3. Parsed (Some t) p3) else Parsed None ?q)
        (Parsed type' (after ?type ?q))" by blast
  note ra = ahead_appendD [OF st2(4)]
  from optional_init [OF d(3) ra(2)] obtain init' where
    i: "map_option strip init' = map_option strip init"
      "evals (\<lambda>n. if ps_check TkEq (after ?type ?q) then andThen (parseExpr n 0 (ps_advance (after ?type ?q))) (\<lambda>e p4. Parsed (Some e) p4)
          else Parsed None (after ?type ?q)) (Parsed init' (after ?init (after ?type ?q)))" by blast
  note rs = ahead_appendD [OF ra(2)]
  let ?d = "VarDecl vk x type' init' (range_at (cur_loc p))"
  have "evals (\<lambda>n. parseVarDecl n p) (Parsed ?d (beyond (after ?init (after ?type ?q))))"
    unfolding parseVarDecl_def Let_def kind prod.case ahead_expect(1) [OF st(4) eof(2)]
    by (rule evals_andThen [OF t(2)], rule evals_andThen [OF i(2)]) (simp add: skip_ahead [OF rs(2) eof(3)] evals_const)
  then show ?thesis using t(1) i(1) d(1) k(1) by (intro exI [of _ ?d]) (simp add: name_tok_def semi_def)
qed

text \<open>
  A token list reads as a statement wherever it stands, except that one that ends in an \<open>if\<close> without \<open>else\<close> must
  not be followed by an \<open>else\<close>.
\<close>

definition reads_stmt :: "ptoken list \<Rightarrow> Stmt \<Rightarrow> bool" where
  "reads_stmt ts s \<longleftrightarrow> (\<forall>p. ahead p ts \<longrightarrow> (open_if s \<longrightarrow> cur_kind (after ts p) \<notin> {KwEf, KwEl, KwElse}) \<longrightarrow>
     (\<exists>s'. strip_stmt s' = strip_stmt s \<and> evals (\<lambda>n. parseStmt n p) (Parsed s' (after ts p))))"

lemma reads_stmtD:
  assumes "reads_stmt ts s" "ahead p (ts @ us)" "open_if s \<Longrightarrow> cur_kind (after ts p) \<notin> {KwEf, KwEl, KwElse}"
  shows "\<exists>s'. strip_stmt s' = strip_stmt s \<and> evals (\<lambda>n. parseStmt n p) (Parsed s' (after ts p))"
  using assms ahead_appendD(1) unfolding reads_stmt_def by blast

lemma body_evals: "evals (\<lambda>n. parseStmt n p) r \<Longrightarrow> evals (\<lambda>n. parseBody n p) r"
proof (cases "cur_kind p = TkLBrace")
  case True
  assume e: "evals (\<lambda>n. parseStmt n p) r"
  have "evals (\<lambda>n. parseBlock n p) r"
    by (rule evals_unSuc [OF _ e]) (simp add: parseStmt.simps True)
  then show ?thesis by (rule evals_Suc [rotated]) (simp add: parseBody.simps ps_check_cur_kind True)
next
  case False
  assume "evals (\<lambda>n. parseStmt n p) r"
  then show ?thesis by (rule evals_Suc [rotated]) (simp add: parseBody.simps ps_check_cur_kind False)
qed

lemma block_evals: "evals (\<lambda>n. parseStmt n p) r \<Longrightarrow> cur_kind p = TkLBrace \<Longrightarrow> evals (\<lambda>n. parseBlock n p) r"
  by (rule evals_unSuc [where g = "\<lambda>n. parseStmt n p"]) (simp_all add: parseStmt.simps)

text \<open>The first token of a printed statement.\<close>

definition stmt_start :: "TokenKind \<Rightarrow> bool" where
  "stmt_start k \<longleftrightarrow> expr_start k \<or> k \<in> {TkLBrace, KwLet, KwVar, KwConst, KwReturn, KwIf, KwWhile, KwVloop, KwFor, KwBreak, KwContinue, KwMatch}"

lemma print_stmt_start: "printable_stmt s \<Longrightarrow> \<exists>k x ts. print_stmt s = (k, x) # ts \<and> stmt_start k"
proof (cases s)
  case (ExprStmt e r)
  then show ?thesis using print_expr_start [of 0 e] by (auto simp: stmt_start_def)
next
  case (DeclStmt d r)
  assume "printable_stmt s"
  then obtain vk x type init r' where "d = VarDecl vk x type init r'" using DeclStmt by (cases d) auto
  then show ?thesis using DeclStmt by (cases vk) (simp_all add: stmt_start_def)
qed (auto simp: stmt_start_def braces_def)

lemma stmt_start_not: "stmt_start k \<Longrightarrow> k \<notin> {TkRBrace, TkEof, KwEf, KwEl, KwElse, TkSemicolon}"
  by (auto simp: stmt_start_def expr_start_def)

lemma block_loop_reads:
  assumes "\<forall>s \<in> set ss. printable_stmt s \<and> reads_stmt (print_stmt s) s" "ahead p (concat (map print_stmt ss) @ (TkRBrace, x) # us)"
  shows "\<exists>ss'. map strip_stmt ss' = map strip_stmt ss \<and> evals (\<lambda>n. blockLoop n p) (Parsed ss' (after (concat (map print_stmt ss)) p))"
  using assms
proof (induction ss arbitrary: p)
  case Nil
  have "blockLoop (Suc n) p = Parsed [] p" for n using Nil(2) check_ahead [of p TkRBrace x us] by (simp add: blockLoop.simps)
  then have "evals (\<lambda>n. blockLoop n p) (Parsed [] p)" by (rule evals_Suc) (rule evals_const)
  then show ?case by simp
next
  case (Cons s ss)
  have s: "printable_stmt s" "reads_stmt (print_stmt s) s" using Cons.prems(1) by simp_all
  have a: "ahead p (print_stmt s @ concat (map print_stmt ss) @ (TkRBrace, x) # us)" using Cons.prems(2) by simp
  note as = ahead_appendD [OF a]
  obtain k y ts where k: "print_stmt s = (k, y) # ts" "stmt_start k" using print_stmt_start [OF s(1)] by blast
  have cur: "cur_kind p = k" using ahead_cur [of p k y] a k(1) by simp
  have follow: "cur_kind (after (print_stmt s) p) \<notin> {KwEf, KwEl, KwElse}"
  proof (cases ss)
    case Nil
    then show ?thesis using ahead_cur [of "after (print_stmt s) p" TkRBrace x us] as(2) by simp
  next
    case (Cons t ss')
    then have "printable_stmt t" using Cons.prems(1) by simp
    then obtain k' y' ts' where "print_stmt t = (k', y') # ts'" "stmt_start k'" using print_stmt_start by blast
    then show ?thesis using ahead_cur [of "after (print_stmt s) p" k' y'] as(2) Cons stmt_start_not [of k'] by simp
  qed
  obtain s' where s': "strip_stmt s' = strip_stmt s" "evals (\<lambda>n. parseStmt n p) (Parsed s' (after (print_stmt s) p))"
    using reads_stmtD [OF s(2) a] follow by blast
  obtain ss' where ss': "map strip_stmt ss' = map strip_stmt ss"
      "evals (\<lambda>n. blockLoop n (after (print_stmt s) p)) (Parsed ss' (after (concat (map print_stmt ss)) (after (print_stmt s) p)))"
    using Cons.IH [OF _ as(2)] Cons.prems(1) by auto
  have "blockLoop (Suc n) p = andThen (parseStmt n p) (\<lambda>s p1. andThen (blockLoop n p1) (\<lambda>ss p2. Parsed (s # ss) p2))" for n
    using cur stmt_start_not [OF k(2)] by (simp add: blockLoop.simps ps_check_cur_kind cur_kind_at_end)
  then have "evals (\<lambda>n. blockLoop n p) (Parsed (s' # ss') (after (concat (map print_stmt ss)) (after (print_stmt s) p)))"
    by (rule evals_Suc) (rule evals_andThen [OF s'(2)], rule evals_andThen [OF ss'(2)], rule evals_const)
  then show ?case using s'(1) ss'(1) by (intro exI [of _ "s' # ss'"]) simp
qed

lemma block_reads:
  assumes "\<forall>s \<in> set ss. printable_stmt s \<and> reads_stmt (print_stmt s) s"
  shows "reads_stmt (braces (concat (map print_stmt ss))) (BlockStmt ss r)"
  unfolding reads_stmt_def
proof (intro allI impI)
  fix p
  let ?ts = "concat (map print_stmt ss)"
  assume "ahead p (braces ?ts)"
  then have a: "ahead p ((TkLBrace, ''{'') # ?ts @ [(TkRBrace, ''}'')])" by (simp add: braces_def)
  have eof: "TkLBrace \<noteq> TkEof" "TkRBrace \<noteq> TkEof" by simp_all
  note st = ahead_step [OF a eof(1)]
  note rb = ahead_appendD [OF st(4)]
  obtain ss' where ss': "map strip_stmt ss' = map strip_stmt ss" "evals (\<lambda>n. blockLoop n (beyond p)) (Parsed ss' (after ?ts (beyond p)))"
    using block_loop_reads [OF assms st(4)] by blast
  let ?q = "beyond (after ?ts (beyond p))"
  let ?s = "BlockStmt ss' (range_span (cur_loc p) (cur_loc ?q))"
  have "parseBlock (Suc n) p = andThen (blockLoop n (beyond p)) (\<lambda>ss p1.
       (let p2 = ps_require TkRBrace (''expected '' @ quoted ''}'') p1
        in Parsed (BlockStmt ss (range_span (cur_loc p) (cur_loc p2))) p2))" for n
    by (simp add: parseBlock.simps ahead_expect(2) [OF a eof(1)])
  then have "evals (\<lambda>n. parseBlock n p) (Parsed ?s ?q)"
    by (rule evals_Suc) (rule evals_andThen [OF ss'(2)], simp add: ahead_expect(2) [OF rb(2) eof(2)] Let_def evals_const)
  then have "evals (\<lambda>n. parseStmt n p) (Parsed ?s ?q)" by (rule evals_Suc [rotated]) (simp add: parseStmt.simps st(1))
  then show "\<exists>s'. strip_stmt s' = strip_stmt (BlockStmt ss r) \<and> evals (\<lambda>n. parseStmt n p) (Parsed s' (after (braces ?ts) p))"
    using ss'(1) by (intro exI [of _ ?s]) (simp add: braces_def)
qed

lemma expr_stmt_reads:
  assumes "printable e"
  shows "reads_stmt (print_expr 0 e @ [semi]) (ExprStmt e r)"
  unfolding reads_stmt_def semi_def
proof (intro allI impI)
  fix p
  assume a: "ahead p (print_expr 0 e @ [(TkSemicolon, '';'')])"
  have eof: "TkSemicolon \<noteq> TkEof" by simp
  note sc = ahead_appendD(2) [OF a]
  obtain e' where e': "strip e' = strip e" "evals (\<lambda>n. parseExpr n 0 p) (Parsed e' (after (print_expr 0 e) p))"
    using expr_reads [OF assms a] by blast
  obtain k x ts where "print_expr 0 e = (k, x) # ts" "expr_start k" using print_expr_start by blast
  then have k: "expr_start (cur_kind p)" using ahead_cur [of p k x] a by simp
  let ?s = "ExprStmt e' (range_at (cur_loc p))"
  have "parseStmt (Suc n) p = andThen (parseExpr n 0 p) (\<lambda>e p1. Parsed (ExprStmt e (range_at (cur_loc p))) (ps_skip TkSemicolon p1))" for n
    using k by (auto simp: parseStmt.simps expr_start_def)
  then have "evals (\<lambda>n. parseStmt n p) (Parsed ?s (beyond (after (print_expr 0 e) p)))"
    by (rule evals_Suc) (rule evals_andThen [OF e'(2)], simp add: skip_ahead [OF sc eof] evals_const)
  then show "\<exists>s'. strip_stmt s' = strip_stmt (ExprStmt e r) \<and>
      evals (\<lambda>n. parseStmt n p) (Parsed s' (after (print_expr 0 e @ [(TkSemicolon, '';'')]) p))"
    using e'(1) by (intro exI [of _ ?s]) simp
qed

lemma return_reads:
  assumes "optionally printable v"
  shows "reads_stmt ((KwReturn, ''return'') # (case v of None \<Rightarrow> [] | Some e \<Rightarrow> print_expr 0 e) @ [semi]) (ReturnStmt v r)"
  unfolding reads_stmt_def semi_def
proof (intro allI impI)
  fix p
  let ?ts = "case v of None \<Rightarrow> [] | Some e \<Rightarrow> print_expr 0 e"
  assume a: "ahead p ((KwReturn, ''return'') # ?ts @ [(TkSemicolon, '';'')])"
  have eof: "KwReturn \<noteq> TkEof" "TkSemicolon \<noteq> TkEof" by simp_all
  note st = ahead_step [OF a eof(1)]
  note sc = ahead_appendD(2) [OF st(4)]
  let ?q = "beyond p"
  have "\<exists>v'. map_option strip v' = map_option strip v \<and> evals (\<lambda>n. if \<not> ps_check TkSemicolon ?q \<and> \<not> ps_check TkRBrace ?q \<and> \<not> isAtEnd ?q
      then andThen (parseExpr n 0 ?q) (\<lambda>e p1. Parsed (Some e) p1) else Parsed None ?q) (Parsed v' (after ?ts ?q))"
  proof (cases v)
    case None
    then show ?thesis using check_ahead [of ?q TkSemicolon "'';''" "[]"] st(4) by (simp add: evals_const)
  next
    case (Some e)
    then obtain e' where e': "strip e' = strip e" "evals (\<lambda>n. parseExpr n 0 ?q) (Parsed e' (after ?ts ?q))"
      using expr_reads [of e ?q TkSemicolon "'';''" "[]"] st(4) assms by (auto simp: optionally_def)
    obtain k x ts where "print_expr 0 e = (k, x) # ts" "expr_start k" using print_expr_start by blast
    then have "expr_start (cur_kind ?q)" using ahead_cur [of ?q k x] st(4) Some by simp
    then have go: "\<not> ps_check TkSemicolon ?q \<and> \<not> ps_check TkRBrace ?q \<and> \<not> isAtEnd ?q"
      by (auto simp: expr_start_def ps_check_cur_kind cur_kind_at_end)
    have "evals (\<lambda>n. andThen (parseExpr n 0 ?q) (\<lambda>e p1. Parsed (Some e) p1)) (Parsed (Some e') (after ?ts ?q))"
      by (rule evals_andThen [OF e'(2)]) (rule evals_const)
    then show ?thesis using go e'(1) Some by (intro exI [of _ "Some e'"]) simp
  qed
  then obtain v' where v': "map_option strip v' = map_option strip v"
      "evals (\<lambda>n. if \<not> ps_check TkSemicolon ?q \<and> \<not> ps_check TkRBrace ?q \<and> \<not> isAtEnd ?q
        then andThen (parseExpr n 0 ?q) (\<lambda>e p1. Parsed (Some e) p1) else Parsed None ?q) (Parsed v' (after ?ts ?q))" by blast
  let ?s = "ReturnStmt v' (range_at (cur_loc ?q))"
  have "evals (\<lambda>n. parseReturnStmt n ?q) (Parsed ?s (beyond (after ?ts ?q)))"
    unfolding parseReturnStmt_def by (rule evals_andThen [OF v'(2)]) (simp add: skip_ahead [OF sc eof(2)] evals_const)
  then have "evals (\<lambda>n. parseStmt n p) (Parsed ?s (beyond (after ?ts ?q)))"
    by (rule evals_Suc [rotated]) (simp add: parseStmt.simps st)
  then show "\<exists>s'. strip_stmt s' = strip_stmt (ReturnStmt v r) \<and>
      evals (\<lambda>n. parseStmt n p) (Parsed s' (after ((KwReturn, ''return'') # ?ts @ [(TkSemicolon, '';'')]) p))"
    using v'(1) by (intro exI [of _ ?s]) simp
qed

lemma jump_reads: "reads_stmt [(KwBreak, ''break''), semi] (BreakStmt r)" "reads_stmt [(KwContinue, ''continue''), semi] (ContinueStmt r)"
proof -
  have eof: "KwBreak \<noteq> TkEof" "KwContinue \<noteq> TkEof" "TkSemicolon \<noteq> TkEof" by simp_all
  show "reads_stmt [(KwBreak, ''break''), semi] (BreakStmt r)"
    unfolding reads_stmt_def semi_def
  proof (intro allI impI)
    fix p
    assume a: "ahead p [(KwBreak, ''break''), (TkSemicolon, '';'')]"
    note st = ahead_step [OF a eof(1)]
    have "evals (\<lambda>n. parseStmt n p) (Parsed (BreakStmt (range_at (cur_loc p))) (beyond (beyond p)))"
      by (rule evals_Suc [where h = "\<lambda>n. Parsed (BreakStmt (range_at (cur_loc p))) (beyond (beyond p))"])
        (simp_all add: parseStmt.simps st skip_ahead [OF st(4) eof(3)] evals_const)
    then show "\<exists>s'. strip_stmt s' = strip_stmt (BreakStmt r) \<and>
        evals (\<lambda>n. parseStmt n p) (Parsed s' (after [(KwBreak, ''break''), (TkSemicolon, '';'')] p))"
      by (intro exI [of _ "BreakStmt (range_at (cur_loc p))"]) simp
  qed
  show "reads_stmt [(KwContinue, ''continue''), semi] (ContinueStmt r)"
    unfolding reads_stmt_def semi_def
  proof (intro allI impI)
    fix p
    assume a: "ahead p [(KwContinue, ''continue''), (TkSemicolon, '';'')]"
    note st = ahead_step [OF a eof(2)]
    have "evals (\<lambda>n. parseStmt n p) (Parsed (ContinueStmt (range_at (cur_loc p))) (beyond (beyond p)))"
      by (rule evals_Suc [where h = "\<lambda>n. Parsed (ContinueStmt (range_at (cur_loc p))) (beyond (beyond p))"])
        (simp_all add: parseStmt.simps st skip_ahead [OF st(4) eof(3)] evals_const)
    then show "\<exists>s'. strip_stmt s' = strip_stmt (ContinueStmt r) \<and>
        evals (\<lambda>n. parseStmt n p) (Parsed s' (after [(KwContinue, ''continue''), (TkSemicolon, '';'')] p))"
      by (intro exI [of _ "ContinueStmt (range_at (cur_loc p))"]) simp
  qed
qed

lemma decl_stmt_reads:
  assumes "printable_var d"
  shows "reads_stmt (print_var d) (DeclStmt d r)"
  unfolding reads_stmt_def
proof (intro allI impI)
  fix p
  assume a: "ahead p (print_var d)"
  obtain d' where d': "strip_decl d' = strip_decl d" "evals (\<lambda>n. parseVarDecl n p) (Parsed d' (after (print_var d) p))"
    using var_reads [OF assms a] by blast
  obtain vk x type init r' where d: "d = VarDecl vk x type init r'" using assms by (cases d) auto
  obtain k s ts where k: "print_var d = (k, s) # ts" "k \<in> {KwLet, KwVar, KwConst}"
    unfolding d by (cases vk) auto
  have cur: "cur_kind p \<in> {KwLet, KwVar, KwConst}" using ahead_cur [of p k s ts] a k by simp
  have "parseStmt (Suc n) p = andThen (parseVarDecl n p) (\<lambda>d p1. Parsed (DeclStmt d (range_at (cur_loc p))) p1)" for n
    using cur by (auto simp: parseStmt.simps)
  then have "evals (\<lambda>n. parseStmt n p) (Parsed (DeclStmt d' (range_at (cur_loc p))) (after (print_var d) p))"
    by (rule evals_Suc) (rule evals_andThen [OF d'(2)], rule evals_const)
  then show "\<exists>s'. strip_stmt s' = strip_stmt (DeclStmt d r) \<and> evals (\<lambda>n. parseStmt n p) (Parsed s' (after (print_var d) p))"
    using d'(1) by (intro exI [of _ "DeclStmt d' (range_at (cur_loc p))"]) simp
qed

lemma paren_cond:
  assumes "printable c" "ahead p (parens (print_expr 0 c) @ us)"
  shows "\<exists>c' p0 p1. strip c' = strip c \<and> ps_skip TkLParen p = p0 \<and> (\<forall>m. ps_require TkLParen m p = p0)
    \<and> evals (\<lambda>n. parseExpr n 0 p0) (Parsed c' p1)
    \<and> ps_skip TkRParen p1 = after (parens (print_expr 0 c)) p \<and> (\<forall>m. ps_require TkRParen m p1 = after (parens (print_expr 0 c)) p)"
proof -
  have a: "ahead p ((TkLParen, ''('') # print_expr 0 c @ (TkRParen, '')'') # us)" using assms(2) by (simp add: parens_def)
  have eof: "TkLParen \<noteq> TkEof" "TkRParen \<noteq> TkEof" by simp_all
  note st = ahead_step [OF a eof(1)]
  note rp = ahead_appendD(2) [OF st(4)]
  obtain c' where "strip c' = strip c" "evals (\<lambda>n. parseExpr n 0 (beyond p)) (Parsed c' (after (print_expr 0 c) (beyond p)))"
    using expr_reads [OF assms(1) st(4)] by blast
  then show ?thesis
    using skip_ahead [OF a eof(1)] skip_ahead [OF rp eof(2)] ahead_expect(2) [OF a eof(1)] ahead_expect(2) [OF rp eof(2)]
    by (intro exI [of _ c'] exI [of _ "beyond p"] exI [of _ "after (print_expr 0 c) (beyond p)"]) (simp add: parens_def)
qed

lemma peek_ahead: "ahead p (x # (k, s) # ts) \<Longrightarrow> tok_kind (ps_peek 1 p) = k"
proof -
  assume "ahead p (x # (k, s) # ts)"
  then obtain rest where r: "map (\<lambda>t. (tok_kind t, tok_lexeme t)) (drop (ps_pos p) (ps_tokens p)) = x # (k, s) # ts @ rest"
    by (auto simp: ahead_def)
  have "length (map (\<lambda>t. (tok_kind t, tok_lexeme t)) (drop (ps_pos p) (ps_tokens p))) = Suc (Suc (length ts + length rest))"
    unfolding r by simp
  then have len: "ps_pos p + 1 < length (ps_tokens p)" "ps_pos p \<le> length (ps_tokens p)" by simp_all
  then have "map (\<lambda>t. (tok_kind t, tok_lexeme t)) (drop (ps_pos p) (ps_tokens p)) ! 1
      = (tok_kind (ps_tokens p ! (ps_pos p + 1)), tok_lexeme (ps_tokens p ! (ps_pos p + 1)))"
    by (simp add: nth_drop)
  with r len show ?thesis by (simp add: ps_peek_def)
qed

lemma else_reads:
  assumes "reads_stmt (print_stmt s) s" "printable_stmt s" "ahead p ((KwElse, ''else'') # print_stmt s)"
    and "open_if s \<Longrightarrow> cur_kind (after (print_stmt s) (beyond p)) \<notin> {KwEf, KwEl, KwElse}"
  shows "\<exists>s'. strip_stmt s' = strip_stmt s \<and> evals (\<lambda>n. parseElse n p) (Parsed (Some s') (after (print_stmt s) (beyond p)))"
proof -
  have eof: "KwElse \<noteq> TkEof" by simp
  note st = ahead_step [OF assms(3) eof]
  obtain s' where s': "strip_stmt s' = strip_stmt s" "evals (\<lambda>n. parseStmt n (beyond p)) (Parsed s' (after (print_stmt s) (beyond p)))"
    using assms(1,4) st(4) unfolding reads_stmt_def by blast
  obtain k x ts where k: "print_stmt s = (k, x) # ts" "stmt_start k" using print_stmt_start [OF assms(2)] by blast
  have k_eof: "k \<noteq> TkEof" using stmt_start_not [OF k(2)] by simp
  note st2 = ahead_step [OF st(4) [unfolded k(1)] k_eof]
  have peek: "tok_kind (ps_peek 1 p) = k" by (rule peek_ahead [OF assms(3) [unfolded k(1)]])
  have "evals (\<lambda>n. parseElse n p) (Parsed (Some s') (after (print_stmt s) (beyond p)))"
  proof (cases "k = KwIf")
    case True
    have inner: "evals (\<lambda>n. parseIfStmt n (beyond (beyond p))) (Parsed s' (after (print_stmt s) (beyond p)))"
      by (rule evals_unSuc [OF _ s'(2)]) (simp add: parseStmt.simps st2 True)
    have "parseElse (Suc n) p = andThen (parseIfStmt n (beyond (beyond p))) (\<lambda>s p3. Parsed (Some s) p3)" for n
      using True peek st st2 by (simp add: parseElse.simps ps_check_cur_kind)
    then show ?thesis by (rule evals_Suc) (rule evals_andThen [OF inner], rule evals_const)
  next
    case False
    have "parseElse (Suc n) p = andThen (parseBody n (beyond p)) (\<lambda>s p1. Parsed (Some s) p1)" for n
      using False peek st by (simp add: parseElse.simps ps_check_cur_kind)
    then show ?thesis by (rule evals_Suc) (rule evals_andThen [OF body_evals [OF s'(2)]], rule evals_const)
  qed
  with s'(1) show ?thesis by blast
qed

lemma no_else:
  assumes "cur_kind p \<notin> {KwEf, KwEl, KwElse}"
  shows "evals (\<lambda>n. parseElse n p) (Parsed None p)"
  by (rule evals_Suc [where h = "\<lambda>n. Parsed None p"]) (use assms in \<open>simp_all add: parseElse.simps ps_check_cur_kind evals_const\<close>)

lemma if_reads:
  assumes "printable c" "reads_stmt (print_stmt t) t" "printable_stmt t"
    and "\<And>s. e = Some s \<Longrightarrow> \<not> open_if t \<and> printable_stmt s \<and> reads_stmt (print_stmt s) s"
  shows "reads_stmt (print_stmt (IfStmt c t e r)) (IfStmt c t e r)"
  unfolding reads_stmt_def print_stmt.simps
proof (intro allI impI)
  fix p
  let ?c = "parens (print_expr 0 c)" and ?e = "case e of None \<Rightarrow> [] | Some s \<Rightarrow> (KwElse, ''else'') # print_stmt s"
  assume a: "ahead p ((KwIf, ''if'') # ?c @ print_stmt t @ ?e)"
    and follow: "open_if (IfStmt c t e r) \<longrightarrow> cur_kind (after ((KwIf, ''if'') # ?c @ print_stmt t @ ?e) p) \<notin> {KwEf, KwEl, KwElse}"
  have eof: "KwIf \<noteq> TkEof" by simp
  note st = ahead_step [OF a eof]
  let ?q = "after ?c (beyond p)"
  note at = ahead_appendD(2) [OF st(4)]
  note ae = ahead_appendD [OF at]
  obtain c' p1 where c': "strip c' = strip c" "evals (\<lambda>n. parseExpr n 0 (ps_skip TkLParen (beyond p))) (Parsed c' p1)" "ps_skip TkRParen p1 = ?q"
    using paren_cond [OF assms(1) st(4)] by auto
  have "open_if t \<Longrightarrow> cur_kind (after (print_stmt t) ?q) \<notin> {KwEf, KwEl, KwElse}"
    using follow assms(4) by (cases e) auto
  from reads_stmtD [OF assms(2) at this] obtain t' where
    t': "strip_stmt t' = strip_stmt t" "evals (\<lambda>n. parseStmt n ?q) (Parsed t' (after (print_stmt t) ?q))" by blast
  let ?q2 = "after (print_stmt t) ?q"
  have "\<exists>e'. map_option strip_stmt e' = map_option strip_stmt e \<and> evals (\<lambda>n. parseElse n ?q2) (Parsed e' (after ?e ?q2))"
  proof (cases e)
    case None
    then show ?thesis using no_else [of ?q2] follow by simp
  next
    case (Some s)
    have "open_if s \<Longrightarrow> cur_kind (after (print_stmt s) (beyond ?q2)) \<notin> {KwEf, KwEl, KwElse}" using follow Some by simp
    from else_reads [OF _ _ _ this] assms(4) [OF Some] ae(2) Some obtain s' where
      "strip_stmt s' = strip_stmt s" "evals (\<lambda>n. parseElse n ?q2) (Parsed (Some s') (after (print_stmt s) (beyond ?q2)))" by auto
    then show ?thesis using Some by (intro exI [of _ "Some s'"]) simp
  qed
  then obtain e' where e': "map_option strip_stmt e' = map_option strip_stmt e" "evals (\<lambda>n. parseElse n ?q2) (Parsed e' (after ?e ?q2))" by blast
  let ?s = "IfStmt c' t' e' (range_at (cur_loc (beyond p)))"
  have "evals (\<lambda>n. parseIfStmt n (beyond p)) (Parsed ?s (after ?e ?q2))"
    by (rule evals_Suc, rule parseIfStmt.simps(2), rule evals_andThen [OF c'(2)], unfold c'(3),
        rule evals_andThen [OF body_evals [OF t'(2)]], rule evals_andThen [OF e'(2)], rule evals_const)
  then have "evals (\<lambda>n. parseStmt n p) (Parsed ?s (after ?e ?q2))" by (rule evals_Suc [rotated]) (simp add: parseStmt.simps st)
  then show "\<exists>s'. strip_stmt s' = strip_stmt (IfStmt c t e r)
      \<and> evals (\<lambda>n. parseStmt n p) (Parsed s' (after ((KwIf, ''if'') # ?c @ print_stmt t @ ?e) p))"
    using c'(1) t'(1) e'(1) by (intro exI [of _ ?s]) simp
qed

text \<open>The loops: their bodies are blocks.\<close>

lemma block_start: "is_block b \<Longrightarrow> \<exists>ts. print_stmt b = (TkLBrace, ''{'') # ts" "is_block b \<Longrightarrow> \<not> open_if b"
  by (cases b; simp add: braces_def)+

lemma block_body:
  assumes "is_block b" "reads_stmt (print_stmt b) b" "ahead p (print_stmt b)"
  shows "\<exists>b'. strip_stmt b' = strip_stmt b \<and> evals (\<lambda>n. parseBlock n p) (Parsed b' (after (print_stmt b) p)) \<and> cur_kind p = TkLBrace"
proof -
  obtain ts where ts: "print_stmt b = (TkLBrace, ''{'') # ts" using block_start(1) [OF assms(1)] by blast
  have "cur_kind p = TkLBrace" using ahead_cur assms(3) ts by metis
  with assms block_start(2) [OF assms(1)] block_evals show ?thesis unfolding reads_stmt_def by blast
qed

lemma while_reads:
  assumes "printable c" "is_block b" "reads_stmt (print_stmt b) b"
  shows "reads_stmt (print_stmt (WhileStmt c b r)) (WhileStmt c b r)"
  unfolding reads_stmt_def print_stmt.simps
proof (intro allI impI)
  fix p
  assume a: "ahead p ((KwWhile, ''while'') # print_expr 0 c @ print_stmt b)"
  have eof: "KwWhile \<noteq> TkEof" by simp
  note st = ahead_step [OF a eof]
  let ?q = "after (print_expr 0 c) (beyond p)"
  obtain ts where ts: "print_stmt b = (TkLBrace, ''{'') # ts" using block_start(1) [OF assms(2)] by blast
  obtain c' where c': "strip c' = strip c" "evals (\<lambda>n. parseExpr n 0 (beyond p)) (Parsed c' ?q)"
    using expr_reads [OF assms(1) st(4) [unfolded ts]] by blast
  obtain b' where b': "strip_stmt b' = strip_stmt b" "evals (\<lambda>n. parseBlock n ?q) (Parsed b' (after (print_stmt b) ?q))"
    using block_body [OF assms(2,3) ahead_appendD(2) [OF st(4)]] by blast
  let ?s = "WhileStmt c' b' (range_at (cur_loc (beyond p)))"
  have "evals (\<lambda>n. parseWhileStmt n (beyond p)) (Parsed ?s (after (print_stmt b) ?q))"
    by (rule evals_Suc, rule parseWhileStmt.simps(2), rule evals_andThen [OF c'(2)], rule evals_andThen [OF b'(2)], rule evals_const)
  then have "evals (\<lambda>n. parseStmt n p) (Parsed ?s (after (print_stmt b) ?q))" by (rule evals_Suc [rotated]) (simp add: parseStmt.simps st)
  then show "\<exists>s'. strip_stmt s' = strip_stmt (WhileStmt c b r)
      \<and> evals (\<lambda>n. parseStmt n p) (Parsed s' (after ((KwWhile, ''while'') # print_expr 0 c @ print_stmt b) p))"
    using c'(1) b'(1) by (intro exI [of _ ?s]) simp
qed

lemma vloop_reads:
  assumes "printable c" "is_block b" "reads_stmt (print_stmt b) b"
  shows "reads_stmt (print_stmt (VloopStmt c b r)) (VloopStmt c b r)"
  unfolding reads_stmt_def print_stmt.simps
proof (intro allI impI)
  fix p
  let ?c = "parens (print_expr 0 c)"
  assume a: "ahead p ((KwVloop, ''vloop'') # ?c @ print_stmt b)"
  have eof: "KwVloop \<noteq> TkEof" by simp
  note st = ahead_step [OF a eof]
  let ?q = "after ?c (beyond p)"
  obtain c' p0 p1 where c': "strip c' = strip c" "\<And>m. ps_require TkLParen m (beyond p) = p0" "evals (\<lambda>n. parseExpr n 0 p0) (Parsed c' p1)"
      "\<And>m. ps_require TkRParen m p1 = ?q"
    using paren_cond [OF assms(1) st(4)] by auto
  obtain b' where b': "strip_stmt b' = strip_stmt b" "evals (\<lambda>n. parseBlock n ?q) (Parsed b' (after (print_stmt b) ?q))" "cur_kind ?q = TkLBrace"
    using block_body [OF assms(2,3) ahead_appendD(2) [OF st(4)]] by blast
  let ?s = "VloopStmt c' b' (range_at (cur_loc (beyond p)))"
  have "evals (\<lambda>n. parseVloopStmt n (beyond p)) (Parsed ?s (after (print_stmt b) ?q))"
    by (rule evals_Suc, rule parseVloopStmt.simps(2), unfold c'(2), rule evals_andThen [OF c'(3)],
        simp add: c'(4) Let_def ps_check_cur_kind b'(3), rule evals_andThen [OF b'(2)], rule evals_const)
  then have "evals (\<lambda>n. parseStmt n p) (Parsed ?s (after (print_stmt b) ?q))" by (rule evals_Suc [rotated]) (simp add: parseStmt.simps st)
  then show "\<exists>s'. strip_stmt s' = strip_stmt (VloopStmt c b r)
      \<and> evals (\<lambda>n. parseStmt n p) (Parsed s' (after ((KwVloop, ''vloop'') # ?c @ print_stmt b) p))"
    using c'(1) b'(1) by (intro exI [of _ ?s]) simp
qed

lemma for_reads:
  assumes "printable c" "is_block b" "reads_stmt (print_stmt b) b"
  shows "reads_stmt (print_stmt (ForStmt x c b r)) (ForStmt x c b r)"
  unfolding reads_stmt_def print_stmt.simps name_tok_def
proof (intro allI impI)
  fix p
  assume a: "ahead p ((KwFor, ''for'') # (TkIdentifier, x) # (KwIn, ''in'') # print_expr 0 c @ print_stmt b)"
  have eof: "KwFor \<noteq> TkEof" "TkIdentifier \<noteq> TkEof" "KwIn \<noteq> TkEof" by simp_all
  note st = ahead_step [OF a eof(1)]
  note st2 = ahead_step [OF st(4) eof(2)]
  note st3 = ahead_step [OF st2(4) eof(3)]
  let ?p = "beyond (beyond (beyond p))"
  let ?q = "after (print_expr 0 c) ?p"
  obtain ts where ts: "print_stmt b = (TkLBrace, ''{'') # ts" using block_start(1) [OF assms(2)] by blast
  obtain c' where c': "strip c' = strip c" "evals (\<lambda>n. parseExpr n 0 ?p) (Parsed c' ?q)"
    using expr_reads [OF assms(1) st3(4) [unfolded ts]] by blast
  obtain b' where b': "strip_stmt b' = strip_stmt b" "evals (\<lambda>n. parseBlock n ?q) (Parsed b' (after (print_stmt b) ?q))"
    using block_body [OF assms(2,3) ahead_appendD(2) [OF st3(4)]] by blast
  let ?s = "ForStmt x c' b' (range_at (cur_loc (beyond p)))"
  have "parseForStmt (Suc n) (beyond p) = andThen (parseExpr n 0 ?p) (\<lambda>iter p3. andThen (parseBlock n p3) (\<lambda>body p4.
      Parsed (ForStmt x iter body (range_at (cur_loc (beyond p)))) p4))" for n
    by (simp add: parseForStmt.simps ahead_expect(1) [OF st(4) eof(2)] ahead_expect(2) [OF st2(4) eof(3)] Let_def)
  then have "evals (\<lambda>n. parseForStmt n (beyond p)) (Parsed ?s (after (print_stmt b) ?q))"
    by (rule evals_Suc) (rule evals_andThen [OF c'(2)], rule evals_andThen [OF b'(2)], rule evals_const)
  then have "evals (\<lambda>n. parseStmt n p) (Parsed ?s (after (print_stmt b) ?q))" by (rule evals_Suc [rotated]) (simp add: parseStmt.simps st)
  then show "\<exists>s'. strip_stmt s' = strip_stmt (ForStmt x c b r) \<and> evals (\<lambda>n. parseStmt n p)
      (Parsed s' (after ((KwFor, ''for'') # (TkIdentifier, x) # (KwIn, ''in'') # print_expr 0 c @ print_stmt b) p))"
    using c'(1) b'(1) by (intro exI [of _ ?s]) simp
qed

text \<open>A pattern, up to the arrow.\<close>

definition print_pattern :: "Expr option \<Rightarrow> ptoken list" where
  "print_pattern pat = (case pat of None \<Rightarrow> [name_tok ''_''] | Some e \<Rightarrow> print_expr 0 e)"

lemma pattern_reads:
  assumes "case pat of None \<Rightarrow> True | Some e \<Rightarrow> printable e \<and> hd (print_expr 0 e) \<noteq> name_tok ''_''"
    and "ahead p (print_pattern pat @ (TkFatArrow, s) # us)"
  shows "\<exists>pat'. map_option strip pat' = map_option strip pat \<and> expr_start (cur_kind p)
    \<and> evals (\<lambda>n. if is_wildcard p then Parsed None (ps_advance p) else andThen (parseExpr n 0 p) (\<lambda>e p1. Parsed (Some e) p1))
        (Parsed pat' (after (print_pattern pat) p))"
proof (cases pat)
  case None
  then have a: "ahead p ((TkIdentifier, ''_'') # (TkFatArrow, s) # us)" using assms(2) by (simp add: print_pattern_def name_tok_def)
  have eof: "TkIdentifier \<noteq> TkEof" by simp
  note st = ahead_step [OF a eof]
  have "is_wildcard p" using st(1,2) by (simp add: is_wildcard_def ps_check_cur_kind)
  then show ?thesis using None st by (simp add: print_pattern_def evals_const expr_start_def)
next
  case (Some e)
  then have e: "printable e" "hd (print_expr 0 e) \<noteq> (TkIdentifier, ''_'')" "ahead p (print_expr 0 e @ (TkFatArrow, s) # us)"
    using assms by (simp_all add: print_pattern_def name_tok_def)
  obtain k x ts where k: "print_expr 0 e = (k, x) # ts" "expr_start k" using print_expr_start by blast
  have cur: "cur_kind p = k" "tok_lexeme (current p) = x" using ahead_cur [of p k x] e(3) k(1) by simp_all
  then have "\<not> is_wildcard p" using e(2) k(1) by (auto simp: is_wildcard_def ps_check_cur_kind)
  moreover obtain e' where e': "strip e' = strip e" "evals (\<lambda>n. parseExpr n 0 p) (Parsed e' (after (print_expr 0 e) p))"
    using expr_reads [OF e(1,3)] by blast
  have "evals (\<lambda>n. andThen (parseExpr n 0 p) (\<lambda>e p1. Parsed (Some e) p1)) (Parsed (Some e') (after (print_expr 0 e) p))"
    by (rule evals_andThen [OF e'(2)]) (rule evals_const)
  ultimately show ?thesis using e'(1) Some cur(1) k(2) by (intro exI [of _ "Some e'"]) (simp add: print_pattern_def)
qed

lemma arms_loop_reads:
  assumes "\<forall>arm \<in> set arms. printable_arm arm \<and> reads_stmt (print_stmt (arm_body arm)) (arm_body arm)"
    and "ahead p (concat (map print_arm arms) @ (TkRBrace, x) # us)"
  shows "\<exists>arms'. map strip_arm arms' = map strip_arm arms \<and> evals (\<lambda>n. armsLoop n p) (Parsed arms' (after (concat (map print_arm arms)) p))"
  using assms
proof (induction arms arbitrary: p)
  case Nil
  have "armsLoop (Suc n) p = Parsed [] p" for n using Nil(2) check_ahead [of p TkRBrace x us] by (simp add: armsLoop.simps)
  then have "evals (\<lambda>n. armsLoop n p) (Parsed [] p)" by (rule evals_Suc) (rule evals_const)
  then show ?case by simp
next
  case (Cons arm arms)
  obtain pat b where arm: "arm = MatchArm pat b" by (cases arm)
  let ?more = "concat (map print_arm arms)"
  have arm_toks: "print_arm arm = print_pattern pat @ (TkFatArrow, ''=>'') # print_stmt b @ [(TkComma, '','')]"
    by (simp add: arm print_pattern_def comma_def)
  have a: "ahead p (print_pattern pat @ (TkFatArrow, ''=>'') # print_stmt b @ (TkComma, '','') # ?more @ (TkRBrace, x) # us)"
    using Cons.prems(2) by (simp add: arm_toks)
  have eof: "TkFatArrow \<noteq> TkEof" "TkComma \<noteq> TkEof" by simp_all
  have pat: "case pat of None \<Rightarrow> True | Some e \<Rightarrow> printable e \<and> hd (print_expr 0 e) \<noteq> name_tok ''_''"
    and b: "reads_stmt (print_stmt b) b" using Cons.prems(1) by (simp_all add: arm)
  let ?pat = "\<lambda>n. if is_wildcard p then Parsed None (ps_advance p) else andThen (parseExpr n 0 p) (\<lambda>e p1. Parsed (Some e) p1)"
  let ?q = "after (print_pattern pat) p"
  obtain pat' where pat': "map_option strip pat' = map_option strip pat" "expr_start (cur_kind p)" "evals ?pat (Parsed pat' ?q)"
    using pattern_reads [OF pat a] by blast
  note fa = ahead_appendD(2) [OF a]
  note st = ahead_step [OF fa eof(1)]
  let ?q1 = "beyond ?q" and ?q2 = "after (print_stmt b) (beyond ?q)"
  note cm = ahead_appendD(2) [OF st(4)]
  have "cur_kind ?q2 \<notin> {KwEf, KwEl, KwElse}" using ahead_cur [OF cm] by simp
  then obtain b' where b': "strip_stmt b' = strip_stmt b" "evals (\<lambda>n. parseStmt n ?q1) (Parsed b' ?q2)"
    using reads_stmtD [OF b st(4)] by blast
  note st2 = ahead_step [OF cm eof(2)]
  obtain arms' where arms': "map strip_arm arms' = map strip_arm arms" "evals (\<lambda>n. armsLoop n (beyond ?q2)) (Parsed arms' (after ?more (beyond ?q2)))"
    using Cons.IH [OF _ st2(4)] Cons.prems(1) by auto
  have start: "\<not> ps_check TkRBrace p \<and> \<not> isAtEnd p" using pat'(2) by (auto simp: expr_start_def ps_check_cur_kind cur_kind_at_end)
  have "armsLoop (Suc n) p = andThen (?pat n) (\<lambda>pattern p1.
        andThen (parseBody n (ps_require TkFatArrow (''expected '' @ quoted ''=>'' @ '' in match arm'') p1)) (\<lambda>body p2.
        andThen (armsLoop n (ps_skip TkComma p2)) (\<lambda>arms p3. Parsed (MatchArm pattern body # arms) p3)))" for n
    using start by (simp add: armsLoop.simps)
  then have "evals (\<lambda>n. armsLoop n p) (Parsed (MatchArm pat' b' # arms') (after ?more (beyond ?q2)))"
    by (rule evals_Suc) (rule evals_andThen [OF pat'(3)], unfold ahead_expect(2) [OF fa eof(1)],
      rule evals_andThen [OF body_evals [OF b'(2)]], unfold skip_ahead [OF cm eof(2)], rule evals_andThen [OF arms'(2)], rule evals_const)
  then show ?case using pat'(1) b'(1) arms'(1) by (intro exI [of _ "MatchArm pat' b' # arms'"]) (simp add: arm_toks, simp add: arm)
qed

lemma match_reads:
  assumes "printable e" "\<forall>arm \<in> set arms. printable_arm arm \<and> reads_stmt (print_stmt (arm_body arm)) (arm_body arm)"
  shows "reads_stmt (print_stmt (MatchStmt e arms r)) (MatchStmt e arms r)"
  unfolding reads_stmt_def print_stmt.simps braces_def
proof (intro allI impI)
  fix p
  let ?e = "parens (print_expr 0 e)" and ?arms = "concat (map print_arm arms)"
  assume a: "ahead p ((KwMatch, ''match'') # ?e @ (TkLBrace, ''{'') # ?arms @ [(TkRBrace, ''}'')])"
  have eof: "KwMatch \<noteq> TkEof" "TkLBrace \<noteq> TkEof" "TkRBrace \<noteq> TkEof" by simp_all
  note st = ahead_step [OF a eof(1)]
  let ?q = "after ?e (beyond p)"
  obtain e' p1 where e': "strip e' = strip e" "evals (\<lambda>n. parseExpr n 0 (ps_skip TkLParen (beyond p))) (Parsed e' p1)" "ps_skip TkRParen p1 = ?q"
    using paren_cond [OF assms(1) st(4)] by auto
  note lb = ahead_appendD(2) [OF st(4)]
  note st2 = ahead_step [OF lb eof(2)]
  obtain arms' where arms': "map strip_arm arms' = map strip_arm arms" "evals (\<lambda>n. armsLoop n (beyond ?q)) (Parsed arms' (after ?arms (beyond ?q)))"
    using arms_loop_reads [OF assms(2) st2(4)] by blast
  note rb = ahead_appendD(2) [OF st2(4)]
  let ?s = "MatchStmt e' arms' (range_at (cur_loc (beyond p)))" and ?stop = "beyond (after ?arms (beyond ?q))"
  have "evals (\<lambda>n. parseMatchStmt n (beyond p)) (Parsed ?s ?stop)"
    by (rule evals_Suc, rule parseMatchStmt.simps(2), rule evals_andThen [OF e'(2)], unfold e'(3) ahead_expect(2) [OF lb eof(2)],
        rule evals_andThen [OF arms'(2)], unfold ahead_expect(2) [OF rb eof(3)], rule evals_const)
  then have "evals (\<lambda>n. parseStmt n p) (Parsed ?s ?stop)" by (rule evals_Suc [rotated]) (simp add: parseStmt.simps st)
  then show "\<exists>s'. strip_stmt s' = strip_stmt (MatchStmt e arms r)
      \<and> evals (\<lambda>n. parseStmt n p) (Parsed s' (after ((KwMatch, ''match'') # ?e @ (TkLBrace, ''{'') # ?arms @ [(TkRBrace, ''}'')]) p))"
    using e'(1) arms'(1) by (intro exI [of _ ?s]) simp
qed

lemma stmt_reads:
  "printable_stmt s \<Longrightarrow> reads_stmt (print_stmt s) s"
  "printable_arm arm \<Longrightarrow> reads_stmt (print_stmt (arm_body arm)) (arm_body arm)"
  "(\<exists>d'. d' = (d :: Decl))"
proof (induction s and arm and d)
  case (BlockStmt ss r)
  then show ?case using block_reads [of ss r] by (simp add: list_all_iff)
next
  case (ExprStmt e r)
  then show ?case using expr_stmt_reads by simp
next
  case (DeclStmt d r)
  then show ?case using decl_stmt_reads by simp
next
  case (ReturnStmt v r)
  then show ?case using return_reads by simp
next
  case (IfStmt c t e r)
  then show ?case by (intro if_reads) auto
next
  case (WhileStmt c b r)
  then show ?case using while_reads by simp
next
  case (VloopStmt c b r)
  then show ?case using vloop_reads by simp
next
  case (ForStmt x c b r)
  then show ?case using for_reads by simp
next
  case (MatchStmt e arms r)
  then show ?case by (intro match_reads) (simp_all add: list_all_iff)
qed (simp_all add: jump_reads)



section \<open>Conditions that begin with a parenthesis\<close>

lemma cut_condition_evals:
  assumes "printable c" "ahead p ((KwIf, ''if'') # parens (print_expr 0 c) @ (TkStar, ''*'') # [(TkIdentifier, x)])"
    and "cur_kind (after ((KwIf, ''if'') # parens (print_expr 0 c) @ (TkStar, ''*'') # [(TkIdentifier, x)]) p) = TkLBrace"
  shows "\<exists>s'. strip_stmt s' = IfStmt (strip c)
      (ExprStmt (UnaryExpr UoDeref (IdentExpr x range_default) range_default) range_default) None range_default
    \<and> evals (\<lambda>n. parseStmt n p) (Parsed s' (after ((KwIf, ''if'') # parens (print_expr 0 c) @ (TkStar, ''*'') # [(TkIdentifier, x)]) p))"
proof -
  let ?e = "UnaryExpr UoDeref (IdentExpr x range_default) range_default"
  have e: "print_expr 0 ?e = [(TkStar, ''*''), (TkIdentifier, x)]" "reads_expr 0 (print_expr 0 ?e) ?e"
    using print_reads(2) [of ?e] by (simp_all add: reads_all_def)
  have eof: "KwIf \<noteq> TkEof" "TkStar \<noteq> TkEof" by simp_all
  note st = ahead_step [OF assms(2) eof(1)]
  let ?q = "after (parens (print_expr 0 c)) (beyond p)"
  obtain c' p1 where c': "strip c' = strip c" "evals (\<lambda>n. parseExpr n 0 (ps_skip TkLParen (beyond p))) (Parsed c' p1)" "ps_skip TkRParen p1 = ?q"
    using paren_cond [OF assms(1) st(4)] by auto
  note at = ahead_appendD(2) [OF st(4)]
  let ?stop = "after [(TkStar, ''*''), (TkIdentifier, x)] ?q"
  have brace: "cur_kind ?stop = TkLBrace" using assms(3) by simp
  have "ends 0 (cur_kind ?stop)" unfolding brace by (simp add: ends_follow)
  then obtain e' where e': "strip e' = strip ?e" "evals (\<lambda>n. parseExpr n 0 ?q) (Parsed e' ?stop)"
    using e(2) at unfolding reads_expr_def e(1) by blast
  let ?t = "ExprStmt e' (range_at (cur_loc ?q))"
  have "cur_kind ?q = TkStar" using ahead_cur [OF at] by simp
  then have "parseStmt (Suc n) ?q = andThen (parseExpr n 0 ?q) (\<lambda>e p1. Parsed (ExprStmt e (range_at (cur_loc ?q))) (ps_skip TkSemicolon p1))" for n
    by (simp add: parseStmt.simps)
  then have body: "evals (\<lambda>n. parseStmt n ?q) (Parsed ?t ?stop)"
    by (rule evals_Suc) (rule evals_andThen [OF e'(2)], simp add: ps_skip_def ps_match_def ps_check_cur_kind brace [simplified] evals_const)
  have none: "evals (\<lambda>n. parseElse n ?stop) (Parsed None ?stop)" by (rule no_else) (simp add: brace [simplified])
  let ?s = "IfStmt c' ?t None (range_at (cur_loc (beyond p)))"
  have "evals (\<lambda>n. parseIfStmt n (beyond p)) (Parsed ?s ?stop)"
    by (rule evals_Suc, rule parseIfStmt.simps(2), rule evals_andThen [OF c'(2)], unfold c'(3),
        rule evals_andThen [OF body_evals [OF body]], rule evals_andThen [OF none], rule evals_const)
  then have "evals (\<lambda>n. parseStmt n p) (Parsed ?s ?stop)" by (rule evals_Suc [rotated]) (simp add: parseStmt.simps st)
  then show ?thesis using c'(1) e'(1) by (intro exI [of _ ?s]) simp
qed



end
