(* ===== verification/Vcc_Parser_Program.thy ===== *)
theory Vcc_Parser_Program
  imports Vcc_Parser_Statements
begin

text \<open>
  The grammar of declarations and modules, as a printer over that of statements: \<open>parse\<close> reads a printed module
  back. Function bodies are printed in braces, the members of structs and enums with a comma each.
\<close>


section \<open>Declarations\<close>

definition print_pub :: "bool \<Rightarrow> ptoken list" where
  "print_pub isPub = (if isPub then [(KwPub, ''pub'')] else [])"

definition print_param :: "ParameterDecl \<Rightarrow> ptoken list" where
  "print_param p = (if param_isMut p then [(KwMut, ''mut'')] else []) @ name_tok (param_name p) # (TkColon, '':'') # print_type (param_type p)"

definition print_field :: "FieldDecl \<Rightarrow> ptoken list" where
  "print_field f = print_pub (field_isPub f) @ name_tok (field_name f) # (TkColon, '':'') # print_type (field_type f) @ [comma]"

definition print_variant :: "EnumVariantDecl \<Rightarrow> ptoken list" where
  "print_variant v = name_tok (variant_name v)
     # (if variant_fields v = [] then [] else parens (comma_list (map print_type (variant_fields v)))) @ [comma]"

text \<open>The components of an import path.\<close>

fun split_dots :: "string \<Rightarrow> string list" where
  "split_dots [] = [[]]"
| "split_dots (c # cs) =
     (if c = CHR ''.'' then [] # split_dots cs
      else case split_dots cs of [] \<Rightarrow> [[c]] | w # ws \<Rightarrow> (c # w) # ws)"

definition print_path_tail :: "string list \<Rightarrow> ptoken list" where
  "print_path_tail ws = concat (map (\<lambda>w. [(TkDot, ''.''), name_tok w]) ws)"

definition print_path :: "string \<Rightarrow> ptoken list" where
  "print_path path = name_tok (hd (split_dots path)) # print_path_tail (tl (split_dots path))"

fun print_decl :: "Decl \<Rightarrow> ptoken list" where
  "print_decl (ImportDecl path a _) =
     (KwImport, ''import'') # print_path path @ print_opt (KwAs, ''as'') (\<lambda>x. [name_tok x]) a @ [semi]"
| "print_decl (FunctionDecl x ps ret body isPub _) =
     print_pub isPub @ (KwFn, ''fn'') # name_tok x # parens (comma_list (map print_param ps))
       @ print_opt (TkArrow, ''->'') print_type ret @ (case body of None \<Rightarrow> [] | Some b \<Rightarrow> print_stmt b)"
| "print_decl (StructDecl x fs isPub _) =
     print_pub isPub @ (KwStruct, ''struct'') # name_tok x # braces (concat (map print_field fs))"
| "print_decl (EnumDecl x vs isPub _) =
     print_pub isPub @ (KwEnum, ''enum'') # name_tok x # braces (concat (map print_variant vs))"
| "print_decl (TypeAliasDecl x t isPub _) =
     print_pub isPub @ (KwType, ''type'') # name_tok x # (TkEq, ''='') # print_type t @ [semi]"
| "print_decl (VarDecl vk x t e r) = print_var (VarDecl vk x t e r)"
| "print_decl (ModuleDecl x ds _) = []"

fun printable_decl :: "Decl \<Rightarrow> bool" where
  "printable_decl (ImportDecl path a _) = True"
| "printable_decl (FunctionDecl x ps ret body isPub _) =
     (list_all (\<lambda>p. printable_type (param_type p)) ps \<and> optionally printable_type ret
      \<and> (case body of None \<Rightarrow> False | Some b \<Rightarrow> is_block b \<and> printable_stmt b))"
| "printable_decl (StructDecl x fs isPub _) = list_all (\<lambda>f. printable_type (field_type f)) fs"
| "printable_decl (EnumDecl x vs isPub _) = list_all (\<lambda>v. list_all printable_type (variant_fields v)) vs"
| "printable_decl (TypeAliasDecl x t isPub _) = printable_type t"
| "printable_decl (VarDecl vk x t e r) = printable_var (VarDecl vk x t e r)"
| "printable_decl (ModuleDecl x ds _) = False"

text \<open>Parameters.\<close>

lemma param_reads:
  assumes "printable_type (param_type x)" "ahead p (print_param x @ (k, s) # us)" "k \<notin> {TkColonColon, TkArrow}"
  shows "\<exists>x'. strip_param x' = strip_param x \<and> evals (\<lambda>n. parseParam n p) (Parsed x' (after (print_param x) p))"
proof -
  let ?mut = "if param_isMut x then [(KwMut, ''mut'')] else []"
  have eof: "KwMut \<noteq> TkEof" "TkIdentifier \<noteq> TkEof" "TkColon \<noteq> TkEof" by simp_all
  have a: "ahead p (?mut @ (TkIdentifier, param_name x) # (TkColon, '':'') # print_type (param_type x) @ (k, s) # us)"
    using assms(2) by (simp add: print_param_def name_tok_def)
  note am = ahead_appendD [OF a]
  let ?q = "after ?mut p"
  have mut: "ps_match KwMut p = (param_isMut x, ?q)"
  proof (cases "param_isMut x")
    case True
    then show ?thesis using match_ahead [of p KwMut] a by simp
  next
    case False
    then show ?thesis using check_ahead [of p TkIdentifier] a by (simp add: ps_match_def)
  qed
  note st = ahead_step [OF am(2) eof(2)]
  note st2 = ahead_step [OF st(4) eof(3)]
  obtain t' where t': "strip_type t' = strip_type (param_type x)"
      "evals (\<lambda>n. parseType n (beyond (beyond ?q))) (Parsed t' (after (print_type (param_type x)) (beyond (beyond ?q))))"
    using type_reads [OF assms(1) st2(4) assms(3)] by blast
  let ?x = "\<lparr>param_name = param_name x, param_type = t', param_isMut = param_isMut x, param_range = range_at (cur_loc p)\<rparr>"
  have "evals (\<lambda>n. parseParam n p) (Parsed ?x (after (print_type (param_type x)) (beyond (beyond ?q))))"
    unfolding parseParam_def mut prod.case Let_def ahead_expect(1) [OF am(2) eof(2)] ahead_expect(2) [OF st(4) eof(3)]
    by (rule evals_andThen [OF t'(2)]) (rule evals_const)
  then show ?thesis using t'(1) by (intro exI [of _ ?x]) (simp add: strip_param_def print_param_def name_tok_def)
qed

lemma print_param_start: "\<exists>k s ts. print_param x = (k, s) # ts \<and> k \<in> {KwMut, TkIdentifier}"
  by (auto simp: print_param_def name_tok_def)

lemma params_loop_reads:
  assumes "xs \<noteq> []" "\<forall>x \<in> set xs. printable_type (param_type x)" "ahead p (comma_list (map print_param xs) @ (TkRParen, s) # us)"
  shows "\<exists>xs'. map strip_param xs' = map strip_param xs \<and> evals (\<lambda>n. paramLoop n p) (Parsed xs' (after (comma_list (map print_param xs)) p))"
  using assms
proof (induction xs arbitrary: p rule: list_nonempty_induct)
  case (single x)
  then have a: "ahead p (print_param x @ (TkRParen, s) # us)" by simp
  obtain x' where x': "strip_param x' = strip_param x" "evals (\<lambda>n. parseParam n p) (Parsed x' (after (print_param x) p))"
    using param_reads [OF _ a] single.prems by auto
  have "\<not> ps_check TkComma (after (print_param x) p)" using check_ahead [OF ahead_appendD(2) [OF a]] by simp
  then have "evals (\<lambda>n. paramLoop n p) (Parsed [x'] (after (print_param x) p))"
    by - (rule evals_Suc, rule paramLoop.simps(2), rule evals_andThen [OF x'(2)], simp add: ps_match_def evals_const)
  then show ?case using x'(1) by (intro exI [of _ "[x']"]) simp
next
  case (cons x xs)
  let ?ts = "comma_list (map print_param xs)"
  have ts: "comma_list (map print_param (x # xs)) = print_param x @ (TkComma, '','') # ?ts" using cons.hyps by (simp add: comma_list_Cons)
  have a: "ahead p (print_param x @ (TkComma, '','') # ?ts @ (TkRParen, s) # us)" using cons.prems(2) unfolding ts by simp
  have eof: "TkComma \<noteq> TkEof" by simp
  let ?q = "after (print_param x) p"
  obtain x' where x': "strip_param x' = strip_param x" "evals (\<lambda>n. parseParam n p) (Parsed x' ?q)"
    using param_reads [OF _ a] cons.prems(1) by auto
  note cm = ahead_appendD(2) [OF a]
  note st = ahead_step [OF cm eof]
  obtain xs' where xs': "map strip_param xs' = map strip_param xs" "evals (\<lambda>n. paramLoop n (beyond ?q)) (Parsed xs' (after ?ts (beyond ?q)))"
    using cons.IH [OF _ st(4)] cons.prems(1) by auto
  obtain y ys where y: "xs = y # ys" using cons.hyps by (cases xs) auto
  obtain k z ws where k: "?ts = (k, z) # ws" "k \<in> {KwMut, TkIdentifier}"
    using print_param_start [of y] y by (cases ys) auto
  have "\<not> ps_check TkRParen (beyond ?q)" using check_ahead [of "beyond ?q" k z] st(4) k by auto
  then have "evals (\<lambda>n. paramLoop n p) (Parsed (x' # xs') (after ?ts (beyond ?q)))"
    by - (rule evals_Suc, rule paramLoop.simps(2), rule evals_andThen [OF x'(2)], simp add: match_ahead [OF cm eof],
      rule evals_andThen [OF xs'(2)], rule evals_const)
  then show ?case using x'(1) xs'(1) unfolding ts by (intro exI [of _ "x' # xs'"]) simp
qed

lemma params_reads:
  assumes "list_all (\<lambda>x. printable_type (param_type x)) xs" "ahead p (comma_list (map print_param xs) @ (TkRParen, s) # us)"
  shows "\<exists>xs'. map strip_param xs' = map strip_param xs
    \<and> evals (\<lambda>n. parseParamList n p) (Parsed xs' (after (comma_list (map print_param xs)) p))"
proof (cases "xs = []")
  case True
  then show ?thesis using check_ahead [of p TkRParen s us] assms(2) by (simp add: parseParamList_def evals_const)
next
  case False
  then obtain y ys where y: "xs = y # ys" by (cases xs) auto
  obtain k z ws where k: "comma_list (map print_param xs) = (k, z) # ws" "k \<in> {KwMut, TkIdentifier}"
    using print_param_start [of y] y by (cases ys) auto
  have "\<not> ps_check TkRParen p" using check_ahead [of p k z] assms(2) k by auto
  then show ?thesis using params_loop_reads [OF False _ assms(2)] assms(1) by (simp add: parseParamList_def list_all_iff)
qed

lemma function_reads:
  assumes "printable_decl (FunctionDecl x ps ret (Some b) isPub r)"
    and "ahead p (name_tok x # parens (comma_list (map print_param ps)) @ print_opt (TkArrow, ''->'') print_type ret @ print_stmt b)"
  shows "\<exists>d'. strip_decl d' = strip_decl (FunctionDecl x ps ret (Some b) isPub r) \<and> evals (\<lambda>n. parseFunctionDecl n isPub p)
    (Parsed d' (after (name_tok x # parens (comma_list (map print_param ps)) @ print_opt (TkArrow, ''->'') print_type ret @ print_stmt b) p))"
proof -
  let ?ps = "comma_list (map print_param ps)" and ?ret = "print_opt (TkArrow, ''->'') print_type ret"
  have ok: "list_all (\<lambda>p. printable_type (param_type p)) ps" "optionally printable_type ret" "is_block b" "printable_stmt b" using assms(1) by simp_all
  have a: "ahead p ((TkIdentifier, x) # (TkLParen, ''('') # ?ps @ (TkRParen, '')'') # ?ret @ print_stmt b)"
    using assms(2) by (simp add: name_tok_def parens_def)
  have eof: "TkIdentifier \<noteq> TkEof" "TkLParen \<noteq> TkEof" "TkRParen \<noteq> TkEof" "TkArrow \<noteq> TkEof" by simp_all
  note st = ahead_step [OF a eof(1)]
  note st2 = ahead_step [OF st(4) eof(2)]
  let ?q = "beyond (beyond p)"
  obtain ps' where ps': "map strip_param ps' = map strip_param ps" "evals (\<lambda>n. parseParamList n ?q) (Parsed ps' (after ?ps ?q))"
    using params_reads [OF ok(1) st2(4)] by blast
  note rp = ahead_appendD(2) [OF st2(4)]
  note st3 = ahead_step [OF rp eof(3)]
  let ?q1 = "beyond (after ?ps ?q)"
  obtain ts where ts: "print_stmt b = (TkLBrace, ''{'') # ts" using block_start(1) [OF ok(3)] by blast
  have "TkLBrace \<noteq> TkArrow" "TkLBrace \<notin> {TkColonColon, TkArrow}" by simp_all
  from optional_type [OF ok(2) st3(4) [unfolded ts] eof(4) this] obtain ret' where
    ret': "map_option strip_type ret' = map_option strip_type ret"
      "evals (\<lambda>n. if ps_check TkArrow ?q1 then andThen (parseType n (ps_advance ?q1)) (\<lambda>t p3. Parsed (Some t) p3) else Parsed None ?q1)
        (Parsed ret' (after ?ret ?q1))" by blast
  obtain b' where b': "strip_stmt b' = strip_stmt b" "evals (\<lambda>n. parseBlock n (after ?ret ?q1)) (Parsed b' (after (print_stmt b) (after ?ret ?q1)))"
      "cur_kind (after ?ret ?q1) = TkLBrace"
    using block_body [OF ok(3) stmt_reads(1) [OF ok(4)] ahead_appendD(2) [OF st3(4)]] by blast
  let ?stop = "after (print_stmt b) (after ?ret ?q1)"
  let ?d = "FunctionDecl x ps' ret' (Some b') isPub (range_span (cur_loc p) (cur_loc ?stop))"
  have body: "evals (\<lambda>n. if ps_check TkLBrace (after ?ret ?q1) then parseBlock n (after ?ret ?q1)
      else andThen (bracelessLoop n (after ?ret ?q1)) (\<lambda>ss p6. Parsed (BlockStmt ss range_default) p6)) (Parsed b' ?stop)"
    using b' by (simp add: ps_check_cur_kind)
  have "evals (\<lambda>n. parseFunctionDecl n isPub p) (Parsed ?d ?stop)"
    unfolding parseFunctionDecl_def Let_def ahead_expect(1) [OF a eof(1)] prod.case ahead_expect(2) [OF st(4) eof(2)]
    by (rule evals_andThen [OF ps'(2)], unfold ahead_expect(2) [OF rp eof(3)], rule evals_andThen [OF ret'(2)],
        rule evals_andThen [OF body], rule evals_const)
  then show ?thesis using ps'(1) ret'(1) b'(1) by (intro exI [of _ ?d]) (simp add: name_tok_def parens_def)
qed

text \<open>The members of structs and enums.\<close>

lemma strip_field_eqs:
  "strip_field \<lparr>field_name = x, field_type = t, field_isPub = b, field_range = r\<rparr> = strip_field f \<longleftrightarrow>
     x = field_name f \<and> strip_type t = strip_type (field_type f) \<and> b = field_isPub f"
  by (cases f) (auto simp: strip_field_def)

lemma strip_variant_eqs:
  "strip_variant \<lparr>variant_name = x, variant_fields = ts, variant_range = r\<rparr> = strip_variant v \<longleftrightarrow>
     x = variant_name v \<and> map strip_type ts = map strip_type (variant_fields v)"
  by (cases v) (auto simp: strip_variant_def)

lemma print_field_start: "\<exists>k s ts. print_field f = (k, s) # ts \<and> k \<in> {KwPub, TkIdentifier}"
  by (auto simp: print_field_def print_pub_def name_tok_def)

lemma struct_loop_reads:
  assumes "\<forall>f \<in> set fs. printable_type (field_type f)" "ahead p (concat (map print_field fs) @ (TkRBrace, x) # us)"
  shows "\<exists>fs'. map strip_field fs' = map strip_field fs \<and> evals (\<lambda>n. structLoop n p) (Parsed fs' (after (concat (map print_field fs)) p))"
  using assms
proof (induction fs arbitrary: p)
  case Nil
  have "structLoop (Suc n) p = Parsed [] p" for n using Nil(2) check_ahead [of p TkRBrace x us] by (simp add: structLoop.simps)
  then have "evals (\<lambda>n. structLoop n p) (Parsed [] p)" by (rule evals_Suc) (rule evals_const)
  then show ?case by simp
next
  case (Cons f fs)
  let ?pub = "print_pub (field_isPub f)" and ?more = "concat (map print_field fs)"
  have a: "ahead p (?pub @ (TkIdentifier, field_name f) # (TkColon, '':'') # print_type (field_type f) @ (TkComma, '','') # ?more @ (TkRBrace, x) # us)"
    using Cons.prems(2) by (simp add: print_field_def [of f] name_tok_def comma_def)
  have eof: "TkIdentifier \<noteq> TkEof" "TkColon \<noteq> TkEof" "TkComma \<noteq> TkEof" "KwPub \<noteq> TkEof" by simp_all
  let ?q = "after ?pub p"
  note ap = ahead_appendD [OF a]
  have pub: "ps_match KwPub p = (field_isPub f, ?q)"
  proof (cases "field_isPub f")
    case True
    then show ?thesis using match_ahead [of p KwPub] a by (simp add: print_pub_def)
  next
    case False
    then show ?thesis using check_ahead [of p TkIdentifier] a by (simp add: ps_match_def print_pub_def)
  qed
  note st = ahead_step [OF ap(2) eof(1)]
  note st2 = ahead_step [OF st(4) eof(2)]
  let ?q1 = "beyond (beyond ?q)"
  obtain t' where t': "strip_type t' = strip_type (field_type f)" "evals (\<lambda>n. parseType n ?q1) (Parsed t' (after (print_type (field_type f)) ?q1))"
    using type_reads [OF _ st2(4)] Cons.prems(1) by auto
  note cm = ahead_appendD(2) [OF st2(4)]
  note st3 = ahead_step [OF cm eof(3)]
  let ?q2 = "beyond (after (print_type (field_type f)) ?q1)"
  obtain fs' where fs': "map strip_field fs' = map strip_field fs" "evals (\<lambda>n. structLoop n ?q2) (Parsed fs' (after ?more ?q2))"
    using Cons.IH [OF _ st3(4)] Cons.prems(1) by auto
  obtain k s ts where k: "print_field f = (k, s) # ts" "k \<in> {KwPub, TkIdentifier}" using print_field_start by blast
  then have "cur_kind p = k" using ahead_cur [of p k s] Cons.prems(2) by simp
  then have start: "\<not> ps_check TkRBrace p \<and> \<not> isAtEnd p" using k(2) by (auto simp: ps_check_cur_kind cur_kind_at_end)
  let ?f = "\<lparr>field_name = field_name f, field_type = t', field_isPub = field_isPub f, field_range = range_at (cur_loc p)\<rparr>"
  have "structLoop (Suc n) p = andThen (parseType n ?q1) (\<lambda>ftype p4. andThen (structLoop n (ps_skip TkComma p4)) (\<lambda>fs p5.
      Parsed (\<lparr>field_name = field_name f, field_type = ftype, field_isPub = field_isPub f, field_range = range_at (cur_loc p)\<rparr> # fs) p5))" for n
    using start by (simp add: structLoop.simps pub ahead_expect(1) [OF ap(2) eof(1)] ahead_expect(2) [OF st(4) eof(2)])
  then have "evals (\<lambda>n. structLoop n p) (Parsed (?f # fs') (after ?more ?q2))"
    by (rule evals_Suc) (rule evals_andThen [OF t'(2)], unfold skip_ahead [OF cm eof(3)], rule evals_andThen [OF fs'(2)], rule evals_const)
  then show ?case using t'(1) fs'(1)
    by (intro exI [of _ "?f # fs'"]) (simp add: print_field_def [of f] strip_field_eqs name_tok_def comma_def)
qed

lemma variant_fields_read:
  assumes "list_all printable_type ts" "ahead p ((if ts = [] then [] else parens (comma_list (map print_type ts))) @ (TkComma, s) # us)"
  shows "\<exists>ts'. map strip_type ts' = map strip_type ts
    \<and> evals (\<lambda>n. if ps_check TkLParen p then andThen (parseTypeList n (ps_advance p)) (\<lambda>ts p2.
          Parsed ts (ps_require TkRParen (''expected '' @ quoted '')'' @ '' after variant fields'') p2)) else Parsed [] p)
        (Parsed ts' (after (if ts = [] then [] else parens (comma_list (map print_type ts))) p))"
proof (cases "ts = []")
  case True
  then show ?thesis using check_ahead [of p TkComma s us] assms(2) by (simp add: evals_const)
next
  case False
  let ?ts = "comma_list (map print_type ts)"
  have a: "ahead p ((TkLParen, ''('') # ?ts @ (TkRParen, '')'') # (TkComma, s) # us)" using assms(2) False by (simp add: parens_def)
  have eof: "TkLParen \<noteq> TkEof" "TkRParen \<noteq> TkEof" by simp_all
  note st = ahead_step [OF a eof(1)]
  note rp = ahead_appendD [OF st(4)]
  have "reads_types ?ts ts" using False assms(1) print_reads(1) by (intro type_list_reads) (auto simp: list_all_iff)
  moreover have "cur_kind (after ?ts (beyond p)) = TkRParen" using ahead_cur [OF rp(2)] by simp
  ultimately obtain ts' where ts': "map strip_type ts' = map strip_type ts" "evals (\<lambda>n. parseTypeList n (beyond p)) (Parsed ts' (after ?ts (beyond p)))"
    using rp(1) unfolding reads_types_def by blast
  have "evals (\<lambda>n. andThen (parseTypeList n (beyond p)) (\<lambda>ts p2.
      Parsed ts (ps_require TkRParen (''expected '' @ quoted '')'' @ '' after variant fields'') p2))) (Parsed ts' (beyond (after ?ts (beyond p))))"
    by (rule evals_andThen [OF ts'(2)], unfold ahead_expect(2) [OF rp(2) eof(2)], rule evals_const)
  then show ?thesis using False ts'(1) check_ahead [OF a] st(3) by (intro exI [of _ ts']) (simp add: parens_def)
qed

lemma enum_loop_reads:
  assumes "\<forall>v \<in> set vs. list_all printable_type (variant_fields v)" "ahead p (concat (map print_variant vs) @ (TkRBrace, x) # us)"
  shows "\<exists>vs'. map strip_variant vs' = map strip_variant vs \<and> evals (\<lambda>n. enumLoop n p) (Parsed vs' (after (concat (map print_variant vs)) p))"
  using assms
proof (induction vs arbitrary: p)
  case Nil
  have "enumLoop (Suc n) p = Parsed [] p" for n using Nil(2) check_ahead [of p TkRBrace x us] by (simp add: enumLoop.simps)
  then have "evals (\<lambda>n. enumLoop n p) (Parsed [] p)" by (rule evals_Suc) (rule evals_const)
  then show ?case by simp
next
  case (Cons v vs)
  let ?ts = "if variant_fields v = [] then [] else parens (comma_list (map print_type (variant_fields v)))"
    and ?more = "concat (map print_variant vs)"
  have a: "ahead p ((TkIdentifier, variant_name v) # ?ts @ (TkComma, '','') # ?more @ (TkRBrace, x) # us)"
    using Cons.prems(2) by (simp add: print_variant_def [of v] name_tok_def comma_def)
  have eof: "TkIdentifier \<noteq> TkEof" "TkComma \<noteq> TkEof" by simp_all
  note st = ahead_step [OF a eof(1)]
  let ?q = "beyond p"
  let ?parse = "\<lambda>n. if ps_check TkLParen ?q then andThen (parseTypeList n (ps_advance ?q)) (\<lambda>ts p2.
      Parsed ts (ps_require TkRParen (''expected '' @ quoted '')'' @ '' after variant fields'') p2)) else Parsed [] ?q"
  have "list_all printable_type (variant_fields v)" using Cons.prems(1) by simp
  from variant_fields_read [OF this st(4)] obtain ts' where
    ts': "map strip_type ts' = map strip_type (variant_fields v)" "evals ?parse (Parsed ts' (after ?ts ?q))" by blast
  note cm = ahead_appendD(2) [OF st(4)]
  note st2 = ahead_step [OF cm eof(2)]
  let ?q2 = "beyond (after ?ts ?q)"
  obtain vs' where vs': "map strip_variant vs' = map strip_variant vs" "evals (\<lambda>n. enumLoop n ?q2) (Parsed vs' (after ?more ?q2))"
    using Cons.IH [OF _ st2(4)] Cons.prems(1) by auto
  have start: "\<not> ps_check TkRBrace p \<and> \<not> isAtEnd p" using check_ahead [OF a] end_ahead [OF a] by simp
  let ?v = "\<lparr>variant_name = variant_name v, variant_fields = ts', variant_range = range_at (cur_loc p)\<rparr>"
  have "enumLoop (Suc n) p = andThen (?parse n) (\<lambda>ts p3. andThen (enumLoop n (ps_skip TkComma p3)) (\<lambda>vs p4.
      Parsed (\<lparr>variant_name = variant_name v, variant_fields = ts, variant_range = range_at (cur_loc p)\<rparr> # vs) p4))" for n
    using start by (simp add: enumLoop.simps ahead_expect(1) [OF a eof(1)])
  then have "evals (\<lambda>n. enumLoop n p) (Parsed (?v # vs') (after ?more ?q2))"
    by (rule evals_Suc) (rule evals_andThen [OF ts'(2)], unfold skip_ahead [OF cm eof(2)], rule evals_andThen [OF vs'(2)], rule evals_const)
  then show ?case using ts'(1) vs'(1)
    by (intro exI [of _ "?v # vs'"]) (simp add: print_variant_def [of v] strip_variant_eqs name_tok_def comma_def)
qed

lemma struct_reads:
  assumes "list_all (\<lambda>f. printable_type (field_type f)) fs" "ahead p (name_tok x # braces (concat (map print_field fs)))"
  shows "\<exists>d'. strip_decl d' = strip_decl (StructDecl x fs isPub r)
    \<and> evals (\<lambda>n. parseStructDecl n isPub p) (Parsed d' (after (name_tok x # braces (concat (map print_field fs))) p))"
proof -
  let ?fs = "concat (map print_field fs)"
  have a: "ahead p ((TkIdentifier, x) # (TkLBrace, ''{'') # ?fs @ [(TkRBrace, ''}'')])" using assms(2) by (simp add: name_tok_def braces_def)
  have eof: "TkIdentifier \<noteq> TkEof" "TkLBrace \<noteq> TkEof" "TkRBrace \<noteq> TkEof" by simp_all
  note st = ahead_step [OF a eof(1)]
  note st2 = ahead_step [OF st(4) eof(2)]
  let ?q = "beyond (beyond p)"
  obtain fs' where fs': "map strip_field fs' = map strip_field fs" "evals (\<lambda>n. structLoop n ?q) (Parsed fs' (after ?fs ?q))"
    using struct_loop_reads [OF _ st2(4)] assms(1) by (auto simp: list_all_iff)
  note rb = ahead_appendD(2) [OF st2(4)]
  let ?d = "StructDecl x fs' isPub (range_span (cur_loc p) (cur_loc (beyond (after ?fs ?q))))"
  have "evals (\<lambda>n. parseStructDecl n isPub p) (Parsed ?d (beyond (after ?fs ?q)))"
    unfolding parseStructDecl_def Let_def ahead_expect(1) [OF a eof(1)] prod.case ahead_expect(2) [OF st(4) eof(2)]
    by (rule evals_andThen [OF fs'(2)], unfold ahead_expect(2) [OF rb eof(3)], rule evals_const)
  then show ?thesis using fs'(1) by (intro exI [of _ ?d]) (simp add: name_tok_def braces_def)
qed

lemma enum_reads:
  assumes "list_all (\<lambda>v. list_all printable_type (variant_fields v)) vs" "ahead p (name_tok x # braces (concat (map print_variant vs)))"
  shows "\<exists>d'. strip_decl d' = strip_decl (EnumDecl x vs isPub r)
    \<and> evals (\<lambda>n. parseEnumDecl n isPub p) (Parsed d' (after (name_tok x # braces (concat (map print_variant vs))) p))"
proof -
  let ?vs = "concat (map print_variant vs)"
  have a: "ahead p ((TkIdentifier, x) # (TkLBrace, ''{'') # ?vs @ [(TkRBrace, ''}'')])" using assms(2) by (simp add: name_tok_def braces_def)
  have eof: "TkIdentifier \<noteq> TkEof" "TkLBrace \<noteq> TkEof" "TkRBrace \<noteq> TkEof" by simp_all
  note st = ahead_step [OF a eof(1)]
  note st2 = ahead_step [OF st(4) eof(2)]
  let ?q = "beyond (beyond p)"
  obtain vs' where vs': "map strip_variant vs' = map strip_variant vs" "evals (\<lambda>n. enumLoop n ?q) (Parsed vs' (after ?vs ?q))"
    using enum_loop_reads [OF _ st2(4)] assms(1) by (auto simp: list_all_iff [of "\<lambda>v. list_all printable_type (variant_fields v)"])
  note rb = ahead_appendD(2) [OF st2(4)]
  let ?d = "EnumDecl x vs' isPub (range_span (cur_loc p) (cur_loc (beyond (after ?vs ?q))))"
  have "evals (\<lambda>n. parseEnumDecl n isPub p) (Parsed ?d (beyond (after ?vs ?q)))"
    unfolding parseEnumDecl_def Let_def ahead_expect(1) [OF a eof(1)] prod.case ahead_expect(2) [OF st(4) eof(2)]
    by (rule evals_andThen [OF vs'(2)], unfold ahead_expect(2) [OF rb eof(3)], rule evals_const)
  then show ?thesis using vs'(1) by (intro exI [of _ ?d]) (simp add: name_tok_def braces_def)
qed

lemma alias_reads:
  assumes "printable_type t" "ahead p (name_tok x # (TkEq, ''='') # print_type t @ [semi])"
  shows "\<exists>d'. strip_decl d' = strip_decl (TypeAliasDecl x t isPub r)
    \<and> evals (\<lambda>n. parseTypeAliasDecl n isPub p) (Parsed d' (after (name_tok x # (TkEq, ''='') # print_type t @ [semi]) p))"
proof -
  have a: "ahead p ((TkIdentifier, x) # (TkEq, ''='') # print_type t @ [(TkSemicolon, '';'')])" using assms(2) by (simp add: name_tok_def semi_def)
  have eof: "TkIdentifier \<noteq> TkEof" "TkEq \<noteq> TkEof" "TkSemicolon \<noteq> TkEof" by simp_all
  note st = ahead_step [OF a eof(1)]
  note st2 = ahead_step [OF st(4) eof(2)]
  let ?q = "beyond (beyond p)"
  obtain t' where t': "strip_type t' = strip_type t" "evals (\<lambda>n. parseType n ?q) (Parsed t' (after (print_type t) ?q))"
    using type_reads [OF assms(1) st2(4)] by auto
  note sc = ahead_appendD(2) [OF st2(4)]
  let ?d = "TypeAliasDecl x t' isPub (range_at (cur_loc p))"
  have "evals (\<lambda>n. parseTypeAliasDecl n isPub p) (Parsed ?d (beyond (after (print_type t) ?q)))"
    unfolding parseTypeAliasDecl_def Let_def ahead_expect(1) [OF a eof(1)] prod.case ahead_expect(2) [OF st(4) eof(2)]
    by (rule evals_andThen [OF t'(2)], unfold skip_ahead [OF sc eof(3)], rule evals_const)
  then show ?thesis using t'(1) by (intro exI [of _ ?d]) (simp add: name_tok_def semi_def)
qed

text \<open>Import paths.\<close>

lemma split_dots_join: "split_dots path \<noteq> [] \<and> foldl (\<lambda>acc w. acc @ ''.'' @ w) (v @ hd (split_dots path)) (tl (split_dots path)) = v @ path"
proof (induction path arbitrary: v)
  case (Cons c cs)
  show ?case
  proof (cases "c = CHR ''.''")
    case True
    obtain w ws where w: "split_dots cs = w # ws" using Cons.IH by (cases "split_dots cs") auto
    then show ?thesis using Cons.IH [of "v @ ''.''"] True by simp
  next
    case False
    obtain w ws where w: "split_dots cs = w # ws" using Cons.IH by (cases "split_dots cs") auto
    then show ?thesis using Cons.IH [of "v @ [c]"] False by simp
  qed
qed simp

lemma path_tail_reads:
  assumes "ahead p (print_path_tail ws @ (k, s) # us)" "k \<noteq> TkDot"
  shows "evals (\<lambda>n. parsePathTail TkDot ''.'' msg n acc p) (Parsed (foldl (\<lambda>acc w. acc @ ''.'' @ w) acc ws) (after (print_path_tail ws) p))"
  using assms(1)
proof (induction ws arbitrary: p acc)
  case Nil
  then have "parsePathTail TkDot ''.'' msg (Suc n) acc p = Parsed acc p" for n
    using check_ahead [of p k s us] assms(2) by (simp add: print_path_tail_def parsePathTail.simps)
  then have "evals (\<lambda>n. parsePathTail TkDot ''.'' msg n acc p) (Parsed acc p)" by (rule evals_Suc) (rule evals_const)
  then show ?case by (simp add: print_path_tail_def)
next
  case (Cons w ws)
  have a: "ahead p ((TkDot, ''.'') # (TkIdentifier, w) # print_path_tail ws @ (k, s) # us)"
    using Cons.prems by (simp add: print_path_tail_def name_tok_def)
  have eof: "TkDot \<noteq> TkEof" "TkIdentifier \<noteq> TkEof" by simp_all
  note st = ahead_step [OF a eof(1)]
  note st2 = ahead_step [OF st(4) eof(2)]
  have "parsePathTail TkDot ''.'' msg (Suc n) acc p = parsePathTail TkDot ''.'' msg n (acc @ ''.'' @ w) (beyond (beyond p))" for n
    using st(3) check_ahead [OF a] ahead_expect(1) [OF st(4) eof(2)] by (simp add: parsePathTail.simps)
  then have "evals (\<lambda>n. parsePathTail TkDot ''.'' msg n acc p)
      (Parsed (foldl (\<lambda>acc w. acc @ ''.'' @ w) (acc @ ''.'' @ w) ws) (after (print_path_tail ws) (beyond (beyond p))))"
    by (rule evals_Suc) (rule Cons.IH [OF st2(4)])
  then show ?case by (simp add: print_path_tail_def name_tok_def)
qed

lemma import_reads:
  assumes "ahead p (print_path path @ print_opt (KwAs, ''as'') (\<lambda>x. [name_tok x]) a @ [semi])"
  shows "\<exists>d'. strip_decl d' = strip_decl (ImportDecl path a r) \<and> evals (\<lambda>n. parseImportDecl n p)
    (Parsed d' (after (print_path path @ print_opt (KwAs, ''as'') (\<lambda>x. [name_tok x]) a @ [semi]) p))"
proof -
  let ?w = "hd (split_dots path)" and ?ws = "tl (split_dots path)" and ?a = "print_opt (KwAs, ''as'') (\<lambda>x. [name_tok x]) a"
  have ah: "ahead p ((TkIdentifier, ?w) # print_path_tail ?ws @ ?a @ [(TkSemicolon, '';'')])"
    using assms by (simp add: print_path_def name_tok_def semi_def)
  have eof: "TkIdentifier \<noteq> TkEof" "TkSemicolon \<noteq> TkEof" "KwAs \<noteq> TkEof" by simp_all
  note st = ahead_step [OF ah eof(1)]
  obtain k s us where k: "?a @ [(TkSemicolon, '';'')] = (k, s) # us" "k \<noteq> TkDot" by (cases a) (auto simp: print_opt_def)
  let ?q = "after (print_path_tail ?ws) (beyond p)"
  have path: "evals (\<lambda>n. parsePathTail TkDot ''.'' ''expected module path component'' n ?w (beyond p)) (Parsed path ?q)"
    using path_tail_reads [OF st(4) [unfolded k(1)] k(2), of "''expected module path component''" ?w] split_dots_join [of path "[]"] by simp
  note aa = ahead_appendD(2) [OF st(4)]
  have alias_read: "(if ps_check KwAs ?q then (let (b, p3) = ps_expect_lexeme TkIdentifier ''expected alias name'' (ps_advance ?q) in (Some b, p3))
      else (None, ?q)) = (a, after ?a ?q)"
  proof (cases a)
    case None
    then show ?thesis using check_ahead [of ?q TkSemicolon "'';''" "[]"] aa by (simp add: print_opt_def)
  next
    case (Some b)
    then have ab: "ahead ?q ((KwAs, ''as'') # (TkIdentifier, b) # [(TkSemicolon, '';'')])" using aa by (simp add: print_opt_def name_tok_def)
    note st2 = ahead_step [OF ab eof(3)]
    show ?thesis using check_ahead [OF ab] st2(3) ahead_expect(1) [OF st2(4) eof(1)] Some by (simp add: print_opt_def name_tok_def)
  qed
  note sc = ahead_appendD(2) [OF aa]
  let ?d = "ImportDecl path a (range_at (cur_loc p))"
  have "evals (\<lambda>n. parseImportDecl n p) (Parsed ?d (beyond (after ?a ?q)))"
    unfolding parseImportDecl_def Let_def ahead_expect(1) [OF ah eof(1)] prod.case
    by (rule evals_andThen [OF path], unfold alias_read [unfolded Let_def] prod.case skip_ahead [OF sc eof(2)], rule evals_const)
  then show ?thesis by (intro exI [of _ ?d]) (simp add: print_path_def name_tok_def semi_def)
qed


section \<open>The module\<close>

definition decl_start :: "TokenKind \<Rightarrow> bool" where
  "decl_start k \<longleftrightarrow> k \<in> {KwImport, KwPub, KwFn, KwStruct, KwEnum, KwType, KwLet, KwVar, KwConst}"

lemma evals_comp: "evals g x \<Longrightarrow> evals (\<lambda>n. f n x) r \<Longrightarrow> evals (\<lambda>n. f n (g n)) r"
proof -
  assume "evals g x" "evals (\<lambda>n. f n x) r"
  then obtain a b where "\<forall>m \<ge> a. g m = x" "\<forall>m \<ge> b. f m x = r" by (auto simp: evals_def)
  then have "\<forall>m \<ge> max a b. f m (g m) = r" by simp
  then show ?thesis unfolding evals_def by blast
qed

text \<open>A declaration after the optional \<open>pub\<close>.\<close>

lemma pub_reads:
  assumes "ahead p (print_pub isPub @ (k, s) # ts)" "k \<noteq> KwPub"
  shows "ps_match KwPub p = (isPub, after (print_pub isPub) p)"
proof (cases isPub)
  case True
  then show ?thesis using match_ahead [of p KwPub] assms(1) by (simp add: print_pub_def)
next
  case False
  then show ?thesis using check_ahead [of p k s ts] assms by (simp add: ps_match_def print_pub_def)
qed

lemma pub_decl:
  assumes "ahead p (print_pub isPub @ (k, s) # ts)" "k \<in> {KwFn, KwStruct, KwEnum, KwType}"
    and "evals (\<lambda>n. (case k of KwFn \<Rightarrow> parseFunctionDecl n isPub | KwStruct \<Rightarrow> parseStructDecl n isPub
      | KwEnum \<Rightarrow> parseEnumDecl n isPub | _ \<Rightarrow> parseTypeAliasDecl n isPub) (beyond (after (print_pub isPub) p)))
      (Parsed d (after ts (beyond (after (print_pub isPub) p))))"
  shows "evals (\<lambda>n. parseTopLevelDecl n p) (Parsed (Some d) (after (print_pub isPub @ (k, s) # ts) p))"
proof -
  have k: "k \<noteq> KwPub" "k \<noteq> TkEof" using assms(2) by auto
  note st = ahead_step [OF ahead_appendD(2) [OF assms(1)] k(2)]
  let ?q = "beyond (after (print_pub isPub) p)"
  have "parseTopLevelDecl n p = andThen ((case k of KwFn \<Rightarrow> parseFunctionDecl n isPub | KwStruct \<Rightarrow> parseStructDecl n isPub
      | KwEnum \<Rightarrow> parseEnumDecl n isPub | _ \<Rightarrow> parseTypeAliasDecl n isPub) ?q) (\<lambda>d p1. Parsed (Some d) p1)" for n
    unfolding parseTopLevelDecl_def pub_reads [OF assms(1) k(1)] Let_def prod.case using assms(2) st by auto
  then have "evals (\<lambda>n. parseTopLevelDecl n p) (Parsed (Some d) (after ts ?q))"
    by (simp only:) (rule evals_andThen [OF assms(3)], rule evals_const)
  then show ?thesis by simp
qed

lemma decl_reads:
  assumes "printable_decl d" "ahead p (print_decl d)"
  shows "\<exists>d'. strip_decl d' = strip_decl d \<and> evals (\<lambda>n. parseTopLevelDecl n p) (Parsed (Some d') (after (print_decl d) p))"
proof (cases d)
  case (ImportDecl path a r)
  let ?ts = "print_path path @ print_opt (KwAs, ''as'') (\<lambda>x. [name_tok x]) a @ [semi]"
  have ah: "ahead p ((KwImport, ''import'') # ?ts)" using assms(2) ImportDecl by simp
  have eof: "KwImport \<noteq> TkEof" by simp
  note st = ahead_step [OF ah eof]
  obtain d' where d': "strip_decl d' = strip_decl (ImportDecl path a r)" "evals (\<lambda>n. parseImportDecl n (beyond p)) (Parsed d' (after ?ts (beyond p)))"
    using import_reads [OF st(4)] by blast
  have "parseTopLevelDecl n p = andThen (parseImportDecl n (beyond p)) (\<lambda>d p1. Parsed (Some d) p1)" for n
    using st check_ahead [OF ah] by (simp add: parseTopLevelDecl_def ps_match_def)
  then have "evals (\<lambda>n. parseTopLevelDecl n p) (Parsed (Some d') (after ?ts (beyond p)))"
    by (simp only:) (rule evals_andThen [OF d'(2)], rule evals_const)
  then show ?thesis using d'(1) ImportDecl by (intro exI [of _ d']) simp
next
  case (FunctionDecl x ps ret body isPub r)
  then obtain b where b: "body = Some b" using assms(1) by (cases body) auto
  let ?ts = "name_tok x # parens (comma_list (map print_param ps)) @ print_opt (TkArrow, ''->'') print_type ret @ print_stmt b"
  have ah: "ahead p (print_pub isPub @ (KwFn, ''fn'') # ?ts)" using assms(2) FunctionDecl b by simp
  have eof: "KwFn \<noteq> TkEof" by simp
  note st = ahead_step [OF ahead_appendD(2) [OF ah] eof]
  have ok: "printable_decl (FunctionDecl x ps ret (Some b) isPub r)" using assms(1) FunctionDecl b by simp
  obtain d' where d': "strip_decl d' = strip_decl d" "evals (\<lambda>n. parseFunctionDecl n isPub (beyond (after (print_pub isPub) p)))
      (Parsed d' (after ?ts (beyond (after (print_pub isPub) p))))"
    using function_reads [OF ok st(4)] FunctionDecl b by blast
  then show ?thesis using pub_decl [OF ah, of d'] FunctionDecl b by auto
next
  case (StructDecl x fs isPub r)
  let ?ts = "name_tok x # braces (concat (map print_field fs))"
  have ah: "ahead p (print_pub isPub @ (KwStruct, ''struct'') # ?ts)" using assms(2) StructDecl by simp
  have eof: "KwStruct \<noteq> TkEof" by simp
  note st = ahead_step [OF ahead_appendD(2) [OF ah] eof]
  have ok: "list_all (\<lambda>f. printable_type (field_type f)) fs" using assms(1) StructDecl by simp
  obtain d' where d': "strip_decl d' = strip_decl d" "evals (\<lambda>n. parseStructDecl n isPub (beyond (after (print_pub isPub) p)))
      (Parsed d' (after ?ts (beyond (after (print_pub isPub) p))))"
    using struct_reads [OF ok st(4)] StructDecl by blast
  then show ?thesis using pub_decl [OF ah, of d'] StructDecl by auto
next
  case (EnumDecl x vs isPub r)
  let ?ts = "name_tok x # braces (concat (map print_variant vs))"
  have ah: "ahead p (print_pub isPub @ (KwEnum, ''enum'') # ?ts)" using assms(2) EnumDecl by simp
  have eof: "KwEnum \<noteq> TkEof" by simp
  note st = ahead_step [OF ahead_appendD(2) [OF ah] eof]
  have ok: "list_all (\<lambda>v. list_all printable_type (variant_fields v)) vs" using assms(1) EnumDecl by simp
  obtain d' where d': "strip_decl d' = strip_decl d" "evals (\<lambda>n. parseEnumDecl n isPub (beyond (after (print_pub isPub) p)))
      (Parsed d' (after ?ts (beyond (after (print_pub isPub) p))))"
    using enum_reads [OF ok st(4)] EnumDecl by blast
  then show ?thesis using pub_decl [OF ah, of d'] EnumDecl by auto
next
  case (TypeAliasDecl x t isPub r)
  let ?ts = "name_tok x # (TkEq, ''='') # print_type t @ [semi]"
  have ah: "ahead p (print_pub isPub @ (KwType, ''type'') # ?ts)" using assms(2) TypeAliasDecl by simp
  have eof: "KwType \<noteq> TkEof" by simp
  note st = ahead_step [OF ahead_appendD(2) [OF ah] eof]
  have ok: "printable_type t" using assms(1) TypeAliasDecl by simp
  obtain d' where d': "strip_decl d' = strip_decl d" "evals (\<lambda>n. parseTypeAliasDecl n isPub (beyond (after (print_pub isPub) p)))
      (Parsed d' (after ?ts (beyond (after (print_pub isPub) p))))"
    using alias_reads [OF ok st(4)] TypeAliasDecl by blast
  then show ?thesis using pub_decl [OF ah, of d'] TypeAliasDecl by auto
next
  case (VarDecl vk x t e r)
  then have ok: "printable_var d" "ahead p (print_var d)" using assms by simp_all
  obtain d' where d': "strip_decl d' = strip_decl d" "evals (\<lambda>n. parseVarDecl n p) (Parsed d' (after (print_var d) p))"
    using var_reads [OF ok] by blast
  obtain k s ts where k: "print_var d = (k, s) # ts" "k \<in> {KwLet, KwVar, KwConst}" unfolding VarDecl by (cases vk) auto
  have cur: "cur_kind p = k" using ahead_cur [of p k s ts] ok(2) k(1) by simp
  have "parseTopLevelDecl n p = andThen (parseVarDecl n p) (\<lambda>d p1. Parsed (Some d) p1)" for n
    using cur k(2) by (auto simp: parseTopLevelDecl_def ps_match_def ps_check_cur_kind)
  then have "evals (\<lambda>n. parseTopLevelDecl n p) (Parsed (Some d') (after (print_var d) p))"
    by (simp only:) (rule evals_andThen [OF d'(2)], rule evals_const)
  then show ?thesis using d'(1) VarDecl by (intro exI [of _ d']) simp
qed (use assms in simp)

lemma print_decl_start: "printable_decl d \<Longrightarrow> \<exists>k s ts. print_decl d = (k, s) # ts \<and> decl_start k"
proof (cases d)
  case (VarDecl vk x t e r)
  then show ?thesis by (cases vk) (simp_all add: decl_start_def)
qed (auto simp: print_pub_def decl_start_def)

text \<open>
  Scripting mode adds a call of each function to an implicit \<open>main\<close>; it is off in a module that is not called
  \<open>main\<close> as long as there are no statements at the top level.
\<close>

definition scripted :: "string \<Rightarrow> Decl list \<Rightarrow> bool" where
  "scripted name ds \<longleftrightarrow> name = ''main'' \<and> list_ex (\<lambda>d. auto_call d \<noteq> []) ds"

lemma auto_call_strip: "strip_decl d' = strip_decl d \<Longrightarrow> auto_call d' = [] \<longleftrightarrow> auto_call d = []"
  by (cases d; cases d') auto

lemma module_loop_reads:
  assumes "list_all printable_decl ds" "\<not> scripted name ds" "ahead p (concat (map print_decl ds))"
    and "cur_kind (after (concat (map print_decl ds)) p) = TkEof"
  shows "\<exists>ds'. map strip_decl ds' = map strip_decl ds
    \<and> evals (\<lambda>n. moduleLoop n name acc [] p) (Parsed (acc @ ds', []) (after (concat (map print_decl ds)) p))"
  using assms
proof (induction ds arbitrary: acc p)
  case Nil
  have "moduleLoop (Suc n) name acc [] p = Parsed (acc, []) p" for n using Nil(4) by (simp add: moduleLoop.simps cur_kind_at_end)
  then have "evals (\<lambda>n. moduleLoop n name acc [] p) (Parsed (acc, []) p)" by (rule evals_Suc) (rule evals_const)
  then show ?case by simp
next
  case (Cons d ds)
  let ?more = "concat (map print_decl ds)"
  have a: "ahead p (print_decl d @ ?more)" using Cons.prems(3) by simp
  note ad = ahead_appendD [OF a]
  have d: "printable_decl d" using Cons.prems(1) by simp
  obtain d' where d': "strip_decl d' = strip_decl d" "evals (\<lambda>n. parseTopLevelDecl n p) (Parsed (Some d') (after (print_decl d) p))"
    using decl_reads [OF d ad(1)] by blast
  obtain k s ts where k: "print_decl d = (k, s) # ts" "decl_start k" using print_decl_start [OF d] by blast
  have cur: "cur_kind p = k" using ahead_cur [of p k s ts] ad(1) k(1) by simp
  have "\<not> scripted name ds" using Cons.prems(2) by (auto simp: scripted_def)
  then obtain ds' where ds': "map strip_decl ds' = map strip_decl ds"
      "evals (\<lambda>n. moduleLoop n name (acc @ [d']) [] (after (print_decl d) p)) (Parsed ((acc @ [d']) @ ds', []) (after ?more (after (print_decl d) p)))"
    using Cons.IH [OF _ _ ad(2), of "acc @ [d']"] Cons.prems(1,4) by auto
  have calls: "(if name = ''main'' \<or> ([] :: Stmt list) \<noteq> [] then [] @ auto_call d' else []) = []"
    using Cons.prems(2) auto_call_strip [OF d'(1)] by (auto simp: scripted_def)
  have "moduleLoop (Suc n) name acc [] p = (case parseTopLevelDecl n p of
           NoFuel \<Rightarrow> NoFuel
         | Throw p1 \<Rightarrow> moduleLoop n name acc [] (parse_recovery p1)
         | Parsed None p1 \<Rightarrow> moduleLoop n name acc [] p1
         | Parsed (Some d) p1 \<Rightarrow> moduleLoop n name (acc @ [d]) (if name = ''main'' \<or> ([] :: Stmt list) \<noteq> [] then [] @ auto_call d else []) p1)" for n
    using cur k(2) by (auto simp: moduleLoop.simps cur_kind_at_end decl_start_def decl_keywords_def)
  then have "evals (\<lambda>n. moduleLoop n name acc [] p) (Parsed ((acc @ [d']) @ ds', []) (after ?more (after (print_decl d) p)))"
    by (rule evals_Suc) (rule evals_comp [OF d'(2)], simp only: parse_result.case option.case calls ds'(2))
  then show ?case using d'(1) ds'(1) by (intro exI [of _ "d' # ds'"]) simp
qed

fun print_program :: "Decl \<Rightarrow> ptoken list" where
  "print_program (ModuleDecl name ds _) =
     (if name = ''<anon>'' then [] else [(KwModule, ''module''), name_tok name, semi]) @ concat (map print_decl ds)"
| "print_program _ = []"

fun printable_program :: "Decl \<Rightarrow> bool" where
  "printable_program (ModuleDecl name ds _) = (list_all printable_decl ds \<and> \<not> scripted name ds)"
| "printable_program _ = False"

lemma program_reads:
  assumes "printable_program m" "ahead p (print_program m)" "cur_kind (after (print_program m) p) = TkEof"
  shows "\<exists>m'. strip_decl m' = strip_decl m \<and> evals (\<lambda>n. parse n p) (Parsed m' (after (print_program m) p))"
proof -
  obtain name ds r where m: "m = ModuleDecl name ds r" "list_all printable_decl ds" "\<not> scripted name ds" using assms(1) by (cases m) auto
  let ?header = "if name = ''<anon>'' then [] else [(KwModule, ''module''), (TkIdentifier, name), (TkSemicolon, '';'')]"
  have a: "ahead p (?header @ concat (map print_decl ds))" "cur_kind (after (?header @ concat (map print_decl ds)) p) = TkEof"
    using assms(2,3) unfolding m(1) print_program.simps name_tok_def semi_def .
  note ah = ahead_appendD [OF a(1)]
  have eof: "KwModule \<noteq> TkEof" "TkIdentifier \<noteq> TkEof" "TkSemicolon \<noteq> TkEof" by simp_all
  have header: "parse_module_name p = (name, after ?header p)"
  proof (cases "name = ''<anon>''")
    case True
    have "cur_kind p \<noteq> KwModule"
    proof (cases ds)
      case Nil
      then show ?thesis using a(2) True by simp
    next
      case (Cons d ds')
      then obtain k s ts where "print_decl d = (k, s) # ts" "decl_start k" using print_decl_start [of d] m(2) by auto
      then show ?thesis using ahead_cur [of p k s] a(1) True Cons by (auto simp: decl_start_def)
    qed
    then show ?thesis using True by (simp add: parse_module_name_def ps_check_cur_kind)
  next
    case False
    then have h: "ahead p ((KwModule, ''module'') # (TkIdentifier, name) # (TkSemicolon, '';'') # concat (map print_decl ds))" using a(1) by simp
    note st = ahead_step [OF h eof(1)]
    note st2 = ahead_step [OF st(4) eof(2)]
    show ?thesis using False check_ahead [OF h] st(3) ahead_expect(1) [OF st(4) eof(2)] skip_ahead [OF st2(4) eof(3)]
      by (simp add: parse_module_name_def)
  qed
  have "cur_kind (after (concat (map print_decl ds)) (after ?header p)) = TkEof" using a(2) by simp
  from module_loop_reads [OF m(2,3) ah(2) this, of "[]"] obtain ds' where
    ds': "map strip_decl ds' = map strip_decl ds"
      "evals (\<lambda>n. moduleLoop n name [] [] (after ?header p)) (Parsed (ds', []) (after (concat (map print_decl ds)) (after ?header p)))" by auto
  let ?stop = "after (concat (map print_decl ds)) (after ?header p)"
  let ?m = "ModuleDecl name ds' (range_span (cur_loc p) (cur_loc ?stop))"
  have "evals (\<lambda>n. parse n p) (Parsed ?m ?stop)"
    unfolding parse_def header Let_def prod.case
    by (rule evals_andThen [OF ds'(2)]) (simp add: implicit_main_def evals_const)
  then show ?thesis using ds'(1) unfolding m(1) print_program.simps name_tok_def semi_def by (intro exI [of _ ?m]) simp
qed
end
