(* ===== verification/Vcc_Text_Roundtrip.thy ===== *)
theory Vcc_Text_Roundtrip
  imports Vcc_Lexer_Roundtrip Vcc_Parser_Program
begin

text \<open>
  The lexer and the parser together: the text of an expression or of a whole module, printed with any layout, reads back
  as the expression or the module.
\<close>


section \<open>Expressions whose tokens can be written\<close>

definition name_ok :: "string \<Rightarrow> bool" where
  "name_ok x \<longleftrightarrow> ident_shape x \<and> keyword_table x = None"

text \<open>Names are identifiers, a string closes where it ends, and a character is not a lone backslash.\<close>

fun spellable_type :: "TypeNode \<Rightarrow> bool"
  and spellable :: "Expr \<Rightarrow> bool" where
  "spellable_type (NamedTypeNode name _) = name_ok name"
| "spellable_type (PointerTypeNode inner isMut _) = spellable_type inner"
| "spellable_type (SliceTypeNode element _) = spellable_type element"
| "spellable_type (ArrayTypeNode element sz _) = (spellable_type element \<and> spellable sz)"
| "spellable_type (FunctionTypeNode params ret _) =
     (list_all spellable_type params \<and> (case ret of None \<Rightarrow> True | Some t \<Rightarrow> spellable_type t))"
| "spellable (BinaryExpr op a b _) = (spellable a \<and> spellable b)"
| "spellable (AssignExpr op target v _) = (spellable target \<and> spellable v)"
| "spellable (UnaryExpr op e _) = spellable e"
| "spellable (CallExpr f args _) = (spellable f \<and> list_all spellable args)"
| "spellable (IndexExpr e i _) = (spellable e \<and> spellable i)"
| "spellable (MemberExpr e member _) = (spellable e \<and> name_ok member)"
| "spellable (CastExpr e t _) = (spellable e \<and> spellable_type t)"
| "spellable (IdentExpr name _) = name_ok name"
| "spellable (FloatLiteralExpr v _) = False"
| "spellable (StringLiteralExpr s _) = string_tail (s @ [ch_dquote])"
| "spellable (CharLiteralExpr c _) = (char_of (unat c) \<noteq> ch_backslash)"
| "spellable (ArrayLiteralExpr es _) = list_all spellable es"
| "spellable _ = True"

lemma proper_names [simp]: "name_ok x \<Longrightarrow> proper (TkIdentifier, x)"
  by (simp add: proper_def name_ok_def)

lemma proper_operators [simp]:
  "proper (binary_kind op, binaryOpName op)" "proper (unary_kind uop, unaryOpName uop)" "proper (assign_token aop)"
proof -
  show "proper (binary_kind op, binaryOpName op)" by (cases op) (simp_all add: proper_def quoted_def)
  show "proper (unary_kind uop, unaryOpName uop)" by (cases uop) (simp_all add: proper_def quoted_def)
  show "proper (assign_token aop)" by (cases aop) (simp_all add: proper_def quoted_def)
qed

lemma proper_delimiters [simp]:
  "proper (TkLParen, ''('')" "proper (TkRParen, '')'')" "proper (TkLBracket, ''['')" "proper (TkRBracket, '']'')"
  "proper (TkComma, '','')" "proper (TkSemicolon, '';'')" "proper (TkDot, ''.'')" "proper (TkArrow, ''->'')" "proper (TkStar, ''*'')"
  by (simp_all add: proper_def quoted_def)

lemma proper_keywords [simp]:
  "proper (KwMut, ''mut'')" "proper (KwFn, ''fn'')" "proper (KwAs, ''as'')" "proper (KwTrue, ''true'')"
  "proper (KwFalse, ''false'')" "proper (KwNil, ''nil'')" "proper (KwArray, ''array'')"
proof -
  have "list_all (\<lambda>(k, w). ident_shape w \<and> keyword_table w = Some k)
    [(KwMut, ''mut''), (KwFn, ''fn''), (KwAs, ''as''), (KwTrue, ''true''), (KwFalse, ''false''), (KwNil, ''nil''), (KwArray, ''array'')]"
    by code_simp
  then show "proper (KwMut, ''mut'')" "proper (KwFn, ''fn'')" "proper (KwAs, ''as'')" "proper (KwTrue, ''true'')"
    "proper (KwFalse, ''false'')" "proper (KwNil, ''nil'')" "proper (KwArray, ''array'')"
    by (simp_all add: proper_def)
qed

lemma proper_literals [simp]:
  "proper (TkIntLiteral, nat_to_string n)"
  "string_tail (s @ [ch_dquote]) \<Longrightarrow> proper (TkStringLiteral, dquoted s)"
  "c \<noteq> ch_backslash \<Longrightarrow> proper (TkCharLiteral, quoted [c])"
proof -
  have "nat_to_string n \<noteq> []" by (subst nat_to_string.simps) simp
  then show "proper (TkIntLiteral, nat_to_string n)" using nat_to_string_digits [of n] by (simp add: proper_def int_shape_def)
qed (simp_all add: proper_def dquoted_def quoted_def)

lemma proper_paren [simp]: "list_all proper (paren b ts) = list_all proper ts"
  by (simp add: paren_def)

lemma proper_comma_list: "(\<And>ts. ts \<in> set tss \<Longrightarrow> list_all proper ts) \<Longrightarrow> list_all proper (comma_list tss)"
  by (induction tss rule: comma_list.induct) simp_all

lemma print_proper:
  "spellable_type t \<Longrightarrow> list_all proper (print_type t)"
  "spellable e \<Longrightarrow> list_all proper (print_expr l e)"
proof (induction t and l e rule: print_type_print_expr.induct)
  case (5 params ret r)
  then show ?case by (auto simp: list_all_iff [of spellable_type] split: option.splits intro!: proper_comma_list)
next
  case (9 l f args r)
  then show ?case by (auto simp: list_all_iff [of spellable] intro!: proper_comma_list)
next
  case (20 l es r)
  then show ?case by (auto simp: list_all_iff [of spellable] intro!: proper_comma_list)
qed (auto simp: Let_def)


section \<open>The round trip\<close>

lemma parser_at_start:
  assumes "map kind_lexeme toks = ts @ [(TkEof, [])]"
  shows "\<exists>p. new_parser ctx toks = Some p \<and> ps_ctx p = ctx \<and> ahead p ts \<and> cur_kind (after ts p) = TkEof"
proof -
  have len: "length toks = Suc (length ts)" using arg_cong [OF assms, of length] by simp
  then have "toks \<noteq> []" by auto
  moreover from this have last: "kind_lexeme (last toks) = (TkEof, [])" using assms last_map [of toks kind_lexeme] by simp
  ultimately have "new_parser ctx toks = Some \<lparr>ps_ctx = ctx, ps_tokens = toks, ps_pos = 0\<rparr>"
    by (simp add: new_parser_def token_isEof_def kind_lexeme_def)
  moreover have "ahead \<lparr>ps_ctx = ctx, ps_tokens = toks, ps_pos = 0\<rparr> ts"
    using assms by (auto simp: ahead_def kind_lexeme_def [abs_def])
  moreover have "cur_kind (after ts \<lparr>ps_ctx = ctx, ps_tokens = toks, ps_pos = 0\<rparr>) = TkEof"
    using last len \<open>toks \<noteq> []\<close> by (simp add: after_def forward_def cur_kind_def current_def kind_lexeme_def last_conv_nth)
  ultimately show ?thesis by (intro exI conjI) auto
qed


text \<open>
  The text of an expression reads back: write down the tokens of the printer with any white space between them, and
  the lexer and the parser, one after the other, give the expression again, up to source ranges, having read
  the text to its end and reported nothing.
\<close>

theorem text_reads_back:
  assumes "printable e" "spellable e" "laid_out (print_expr 0 e) (sourceText ctx i)"
  shows "\<exists>toks lx p e' q N. tokenize (new_lexer ctx i) = Some (toks, lx) \<and> new_parser (lx_ctx lx) toks = Some p
    \<and> strip e' = strip e \<and> (\<forall>n \<ge> N. parseExpression n 0 p = Parsed e' q) \<and> cur_kind q = TkEof \<and> ps_ctx q = ctx"
proof -
  obtain toks lx where t: "tokenize (new_lexer ctx i) = Some (toks, lx)" "map kind_lexeme toks = print_expr 0 e @ [(TkEof, [])]" "lx_ctx lx = ctx"
    using tokenize_laid_out [of "print_expr 0 e" "new_lexer ctx i"] assms(3) print_proper(2) [OF assms(2), of 0] by (auto simp: new_lexer_def)
  from parser_at_start [OF t(2)] obtain p where p: "new_parser ctx toks = Some p" "ps_ctx p = ctx" "ahead p (print_expr 0 e)"
      "cur_kind (after (print_expr 0 e) p) = TkEof" by blast
  have "ends 0 (cur_kind (after (print_expr 0 e) p))" unfolding p(4) by (simp add: ends_def isAssignOp_def)
  from ahead_parses [OF assms(1) p(3) this] obtain e' N where
    e': "strip e' = strip e" "\<forall>n \<ge> N. parseExpression n 0 p = Parsed e' (p\<lparr>ps_pos := ps_pos p + length (print_expr 0 e)\<rparr>)" by blast
  have "p\<lparr>ps_pos := ps_pos p + length (print_expr 0 e)\<rparr> = after (print_expr 0 e) p" by (simp add: after_def forward_def)
  moreover have "ps_ctx (after (print_expr 0 e) p) = ctx" using p(2) by (simp add: after_def forward_def)
  ultimately show ?thesis using t p(1,4) e' by metis
qed

theorem text_reads_back_witness:
  "\<exists>toks lx p e' q N. tokenize (new_lexer (snd (addSource ''a.v'' ''- f ( a )   +  1'' (new_context default_options))) 1) = Some (toks, lx)
    \<and> new_parser (lx_ctx lx) toks = Some p \<and> parseExpression N 0 p = Parsed e' q
    \<and> strip e' = BinaryExpr BoAdd (CallExpr (UnaryExpr UoNeg (IdentExpr ''f'' range_default) range_default)
        [IdentExpr ''a'' range_default] range_default) (IntLiteralExpr 1 range_default) range_default"
proof -
  let ?ctx = "snd (addSource ''a.v'' ''- f ( a )   +  1'' (new_context default_options))"
  let ?e = "BinaryExpr BoAdd (CallExpr (UnaryExpr UoNeg (IdentExpr ''f'' range_default) range_default)
    [IdentExpr ''a'' range_default] range_default) (IntLiteralExpr 1 range_default) range_default"
  have printed: "print_expr 0 ?e = [(TkMinus, ''-''), (TkIdentifier, ''f''), (TkLParen, ''(''), (TkIdentifier, ''a''),
      (TkRParen, '')''), (TkPlus, ''+''), (TkIntLiteral, ''1'')]"
    by (simp add: paren_def nat_to_string.simps digit_char_def char_of_def)
  have src: "sourceText ?ctx 1 = [] @ ''-'' @ '' '' @ ''f'' @ '' '' @ ''('' @ '' '' @ ''a'' @ '' '' @ '')'' @ ''   '' @ ''+'' @ ''  '' @ ''1'' @ []"
    by code_simp
  have "laid_out (print_expr 0 ?e) (sourceText ?ctx 1)"
    unfolding src printed by (rule laid_out.intros | simp add: is_space_def boundary_def)+
  moreover have "name_ok ''f''" "name_ok ''a''" by code_simp+
  ultimately show ?thesis using text_reads_back [of ?e ?ctx 1] by fastforce
qed


text \<open>
  C4. The text of a program reads back: write down the tokens of the printer for a module, imports, functions with their
  statements, structs, enums, type aliases and variables, with any white space between them; the lexer and the
  parser, one after the other, give the module again, up to source ranges, and report nothing. Names must be identifiers
  and strings must close where they end, so that every printed token has a lexeme of the shape of its kind.
\<close>

theorem program_reads_back:
  assumes "printable_program m" "laid_out (print_program m) (sourceText ctx i)"
    and "list_all (\<lambda>(k, w). lexeme_shape k w \<and> k \<noteq> TkEof \<and> k \<noteq> TkError) (print_program m)"
  shows "\<exists>toks lx p m' q N. tokenize (new_lexer ctx i) = Some (toks, lx) \<and> new_parser (lx_ctx lx) toks = Some p
    \<and> strip_decl m' = strip_decl m \<and> (\<forall>n \<ge> N. parse n p = Parsed m' q) \<and> ps_ctx q = ctx"
proof -
  have "list_all proper (print_program m)" using assms(3) by (auto simp: list_all_iff proper_def)
  then obtain toks lx where t: "tokenize (new_lexer ctx i) = Some (toks, lx)" "map kind_lexeme toks = print_program m @ [(TkEof, [])]" "lx_ctx lx = ctx"
    using tokenize_laid_out [of "print_program m" "new_lexer ctx i"] assms(2) by (auto simp: new_lexer_def)
  from parser_at_start [OF t(2)] obtain p where p: "new_parser ctx toks = Some p" "ps_ctx p = ctx" "ahead p (print_program m)"
      "cur_kind (after (print_program m) p) = TkEof" by blast
  from program_reads [OF assms(1) p(3,4)] obtain m' where "strip_decl m' = strip_decl m" "evals (\<lambda>n. parse n p) (Parsed m' (after (print_program m) p))"
    by blast
  then obtain N where m': "strip_decl m' = strip_decl m" "\<forall>n \<ge> N. parse n p = Parsed m' (after (print_program m) p)"
    by (auto simp: evals_def)
  have "ps_ctx (after (print_program m) p) = ctx" using p(2) by (simp add: after_def forward_def)
  with m' t p(1) show ?thesis by metis
qed


theorem program_reads_back_witness:
  "\<exists>toks lx p m' q N. tokenize (new_lexer (snd (addSource ''a.v'' ''module demo ; fn inc ( n : i64 ) { return n  +  1 ; }''
        (new_context default_options))) 1) = Some (toks, lx)
    \<and> new_parser (lx_ctx lx) toks = Some p \<and> parse N p = Parsed m' q
    \<and> strip_decl m' = ModuleDecl ''demo'' [FunctionDecl ''inc''
        [\<lparr>param_name = ''n'', param_type = NamedTypeNode ''i64'' range_default, param_isMut = False, param_range = range_default\<rparr>] None
        (Some (BlockStmt [ReturnStmt (Some (BinaryExpr BoAdd (IdentExpr ''n'' range_default) (IntLiteralExpr 1 range_default) range_default))
          range_default] range_default)) False range_default] range_default"
proof -
  let ?ctx = "snd (addSource ''a.v'' ''module demo ; fn inc ( n : i64 ) { return n  +  1 ; }'' (new_context default_options))"
  let ?m = "ModuleDecl ''demo'' [FunctionDecl ''inc''
        [\<lparr>param_name = ''n'', param_type = NamedTypeNode ''i64'' range_default, param_isMut = False, param_range = range_default\<rparr>] None
        (Some (BlockStmt [ReturnStmt (Some (BinaryExpr BoAdd (IdentExpr ''n'' range_default) (IntLiteralExpr 1 range_default) range_default))
          range_default] range_default)) False range_default] range_default"
  have printed: "print_program ?m = [(KwModule, ''module''), (TkIdentifier, ''demo''), (TkSemicolon, '';''), (KwFn, ''fn''),
      (TkIdentifier, ''inc''), (TkLParen, ''(''), (TkIdentifier, ''n''), (TkColon, '':''), (TkIdentifier, ''i64''), (TkRParen, '')''),
      (TkLBrace, ''{''), (KwReturn, ''return''), (TkIdentifier, ''n''), (TkPlus, ''+''), (TkIntLiteral, ''1''), (TkSemicolon, '';''), (TkRBrace, ''}'')]"
    by (simp add: print_pub_def print_opt_def parens_def braces_def print_param_def name_tok_def semi_def paren_def Let_def
        nat_to_string.simps digit_char_def char_of_def)
  have src: "sourceText ?ctx 1 = [] @ ''module'' @ '' '' @ ''demo'' @ '' '' @ '';'' @ '' '' @ ''fn'' @ '' '' @ ''inc'' @ '' '' @ ''('' @ '' '' @ ''n'' @ '' '' @ '':''
      @ '' '' @ ''i64'' @ '' '' @ '')'' @ '' '' @ ''{'' @ '' '' @ ''return'' @ '' '' @ ''n'' @ ''  '' @ ''+'' @ ''  '' @ ''1'' @ '' '' @ '';'' @ '' '' @ ''}'' @ []"
    by code_simp
  have "laid_out (print_program ?m) (sourceText ?ctx 1)"
    unfolding src printed by (rule laid_out.intros | simp add: is_space_def boundary_def)+
  moreover have "list_all (\<lambda>(k, w). ident_shape w \<and> keyword_table w = Some k) [(KwModule, ''module''), (KwFn, ''fn''), (KwReturn, ''return'')]"
    "list_all (\<lambda>w. ident_shape w \<and> keyword_table w = None) [''demo'', ''inc'', ''n'', ''i64'']" "int_shape ''1''"
    by code_simp+
  then have "list_all (\<lambda>(k, w). lexeme_shape k w \<and> k \<noteq> TkEof \<and> k \<noteq> TkError) (print_program ?m)"
    unfolding printed by (simp add: quoted_def)
  moreover have "printable_program ?m" by (simp add: scripted_def optionally_def)
  ultimately obtain toks lx p m' q N where r: "tokenize (new_lexer ?ctx 1) = Some (toks, lx)" "new_parser (lx_ctx lx) toks = Some p"
      "strip_decl m' = strip_decl ?m" "\<forall>n \<ge> N. parse n p = Parsed m' q"
    using program_reads_back [of ?m ?ctx 1] by blast
  have "strip_decl ?m = ?m" by (simp add: strip_param_def)
  with r show ?thesis by (intro exI [of _ toks] exI [of _ lx] exI [of _ p] exI [of _ m'] exI [of _ q] exI [of _ N]) simp
qed

end
