(* ===== verification/Vcc_Parser_Module.thy ===== *)
theory Vcc_Parser_Module
  imports Vcc_Parser_Progress
begin

text \<open>
  Progress and termination of the declarations and of \<open>parse\<close>, and what the struct and enum loops
  do on a token they cannot consume.
\<close>

section \<open>Synchronization\<close>

lemma sync_loop_moved:
  "ps_ok p \<Longrightarrow> moved False p (sync_loop n p)"
proof (induction n arbitrary: p)
  case 0
  then show ?case by (simp add: moved_refl)
next
  case (Suc n)
  have "moved False p (ps_advance p)" using Suc.prems by (blast intro: moved_weaken moved_advance)
  moreover have "moved False p (sync_loop n (ps_advance p))"
    using moved_trans [OF moved_advance [OF Suc.prems] Suc.IH [OF moved_ok [OF moved_advance [OF Suc.prems]]]] by blast
  ultimately show ?case using Suc.prems by (simp add: moved_refl)
qed

lemma sync_loop_strict:
  assumes "ps_ok p" "cur_kind p \<notin> set sync_kinds" "0 < n"
  shows "moved True p (sync_loop n p)"
proof -
  obtain k where n: "n = Suc k" using assms(3) by (cases n) auto
  have adv: "moved True p (ps_advance p)" by (rule moved_advance [OF assms(1)])
  have "moved True p (sync_loop k (ps_advance p))"
    by (rule moved_trans [OF adv sync_loop_moved [OF moved_ok [OF adv]]]) simp
  moreover have "moved True p p" if "isAtEnd p" using that assms(1) by (simp add: moved_def reported_refl)
  ultimately show ?thesis using assms(2) adv by (simp add: n)
qed

lemma synchronize_moved: "moved a p0 p \<Longrightarrow> moved a p0 (synchronize p)"
  using moved_trans [OF _ sync_loop_moved [OF moved_ok]] unfolding synchronize_def by blast

lemma synchronize_strict:
  assumes "ps_ok p" "cur_kind p \<notin> set sync_kinds"
  shows "moved True p (synchronize p)"
  using assms unfolding synchronize_def by (intro sync_loop_strict) (simp_all add: ps_ok_def)

lemma moved_then_error: "moved a p0 p \<Longrightarrow> moved a p0 (ps_error loc msg p)"
  using moved_trans [OF _ moved_error [OF moved_ok]] by blast

lemma cur_kind_error [simp]: "cur_kind (ps_error loc msg p) = cur_kind p"
  by (simp add: cur_kind_def)

text \<open>An exception is thrown at a numeric literal, so recovery consumes it.\<close>

lemma recovery_moved:
  assumes "ps_ok p" "cur_kind p \<in> {TkIntLiteral, TkFloatLiteral}"
  shows "moved True p (parse_recovery p)"
proof -
  let ?q = "ps_error (cur_loc p) ''parse error; attempting recovery'' p"
  have e: "moved False p ?q" by (rule moved_error [OF assms(1)])
  have "moved True ?q (synchronize ?q)"
    using assms(2) by (intro synchronize_strict moved_ok [OF e]) (auto simp: sync_kinds_def)
  from moved_trans [OF e this, of True] show ?thesis by (simp add: parse_recovery_def)
qed


section \<open>Declarations\<close>

lemma moved_match_present: "ps_match k p = (b, p1) \<Longrightarrow> moved a p0 p \<Longrightarrow> b \<Longrightarrow> moved True p0 p1"
  by (auto simp: ps_match_def intro: moved_then_advance split: if_splits)

lemma param_outcome: 
  assumes "ps_ok p"
  shows "outcome False (within 2 n p) p (parseParam n p)"
proof -
  note start = moved_refl [OF assms(1)]
  have "outcome False (within (Suc 2) (Suc n) p) p (parseParam n p)"
    unfolding parseParam_def Let_def
    by (rule outcome_control expr_calls start | assumption | rule moved_steps | erule moved_via | (simp; fail))+
  then show ?thesis by (simp only: within_pass)
qed

lemma param_loop_outcome: "ps_ok p \<Longrightarrow> outcome False (within 3 n p) p (paramLoop n p)"
proof (induction n arbitrary: p)
  case 0
  then show ?case by (simp add: paramLoop.simps outcome_NoFuel not_within_0)
next
  case (Suc n)
  note start = moved_refl [OF Suc.prems] Suc.prems
  note steps = outcome_control outcome_call [where g = "parseParam n", OF param_outcome]
    outcome_call [where g = "paramLoop n", OF Suc.IH]
  have comma: "\<not> isAtEnd p0" if "moved a p0 q" "ps_match TkComma q = (b, q1)" "b" for a p0 q b q1
    using that by (auto simp: ps_match_def dest: moved_not_at_end check_not_at_end split: if_splits)
  show ?case
    unfolding paramLoop.simps Let_def
    by (rule steps start | assumption | rule moved_steps
        | (erule (1) moved_match_present, (simp; fail)) | erule moved_via | (simp; fail) | (auto dest: comma; fail)[1])+
qed

lemma param_list_outcome: "ps_ok p \<Longrightarrow> outcome False (within 3 n p) p (parseParamList n p)"
  by (simp add: parseParamList_def outcome_Parsed moved_refl param_loop_outcome)

lemma braceless_outcome: "ps_ok p \<Longrightarrow> outcome False (within 5 n p) p (bracelessLoop n p)"
proof (induction n arbitrary: p)
  case 0
  then show ?case by (simp add: bracelessLoop.simps outcome_NoFuel not_within_0)
next
  case (Suc n)
  note start = moved_refl [OF Suc.prems] Suc.prems
  note steps = outcome_control outcome_call [where g = "parseStmt n", OF parseStmt_outcome]
    outcome_call [where g = "bracelessLoop n", OF Suc.IH]
  show ?case
    unfolding bracelessLoop.simps Let_def
    by (rule steps start | assumption | (simp; fail))+
qed

lemma function_outcome:
  assumes "ps_ok p"
  shows "outcome False (within 5 n p) p (parseFunctionDecl n isPub p)"
proof -
  note start = moved_refl [OF assms(1)]
  note steps = outcome_control expr_calls outcome_call [where g = "parseParamList n", OF param_list_outcome]
    outcome_call_when [where g = "parseBlock n" and G = "\<lambda>q. cur_kind q = TkLBrace", OF block_brace_outcome]
    outcome_call [where g = "bracelessLoop n", OF braceless_outcome]
  have "outcome False (within (Suc 5) (Suc n) p) p (parseFunctionDecl n isPub p)"
    unfolding parseFunctionDecl_def Let_def
    by (rule steps start | assumption | rule moved_steps | erule moved_via | (simp add: ps_check_cur_kind; fail))+
  then show ?thesis by (simp only: within_pass)
qed

lemma import_outcome:
  assumes "ps_ok p"
  shows "outcome False (within 1 n p) p (parseImportDecl n p)"
proof -
  note start = moved_refl [OF assms(1)]
  note steps = outcome_control outcome_call [where g = "parsePathTail TkDot s m n x" for s m x, OF path_outcome]
  have opt: "moved a p0 q1"
    if "(if b then case ps_expect_lexeme k msg (ps_advance q) of (x, q1) \<Rightarrow> (Some x, q1) else (None, q)) = (y, q1)"
      "moved a p0 q" for a p0 q q1 b k msg y
    using that moved_then_expect_lexeme [OF moved_weaken [OF moved_then_advance [OF that(2)]]]
    by (auto split: if_splits prod.splits)
  have "outcome False (within (Suc 1) (Suc n) p) p (parseImportDecl n p)"
    unfolding parseImportDecl_def Let_def
    by (rule steps start | assumption | rule moved_steps | erule opt | erule moved_via | (simp; fail))+
  then show ?thesis by (simp only: within_pass)
qed

lemma alias_outcome:
  assumes "ps_ok p"
  shows "outcome False (within 2 n p) p (parseTypeAliasDecl n isPub p)"
proof -
  note start = moved_refl [OF assms(1)]
  have "outcome False (within (Suc 2) (Suc n) p) p (parseTypeAliasDecl n isPub p)"
    unfolding parseTypeAliasDecl_def Let_def
    by (rule outcome_control expr_calls start | assumption | rule moved_steps | erule moved_via | (simp; fail))+
  then show ?thesis by (simp only: within_pass)
qed

text \<open>Bodies of structs and enums: they move forward, but the fuel may not suffice.\<close>

lemma outcome_call_unbounded:
  assumes "\<And>q. ps_ok q \<Longrightarrow> outcome s (e q) q (g q)" "moved a p0 p"
    and "\<And>x p1. moved (a \<or> s) p0 p1 \<Longrightarrow> outcome u False p0 (f x p1)"
  shows "outcome u False p0 (andThen (g p) f)"
  by (rule outcome_andThen [OF assms(2) assms(1) [OF moved_ok [OF assms(2)]] _ assms(3)]) simp

lemma struct_loop_outcome: "ps_ok p \<Longrightarrow> outcome False False p (structLoop n p)"
proof (induction n arbitrary: p)
  case 0
  then show ?case by (simp add: structLoop.simps outcome_NoFuel)
next
  case (Suc n)
  note start = moved_refl [OF Suc.prems] Suc.prems
  note steps = outcome_control outcome_call_unbounded [where g = "parseType n", OF type_outcome]
    outcome_call_unbounded [where g = "structLoop n", OF Suc.IH]
  show ?case
    unfolding structLoop.simps Let_def
    by (rule steps start | assumption | rule moved_steps | erule moved_via | (simp; fail))+
qed

lemma enum_loop_outcome: "ps_ok p \<Longrightarrow> outcome False False p (enumLoop n p)"
proof (induction n arbitrary: p)
  case 0
  then show ?case by (simp add: enumLoop.simps outcome_NoFuel)
next
  case (Suc n)
  note start = moved_refl [OF Suc.prems] Suc.prems
  note steps = outcome_control outcome_call_unbounded [where g = "parseTypeList n", OF type_list_outcome]
    outcome_call_unbounded [where g = "enumLoop n", OF Suc.IH]
  show ?case
    unfolding enumLoop.simps Let_def
    by (rule steps start | assumption | rule moved_steps | erule moved_via | (simp; fail))+
qed

lemma struct_outcome:
  assumes "ps_ok p"
  shows "outcome False False p (parseStructDecl n isPub p)"
proof -
  note start = moved_refl [OF assms(1)]
  note steps = outcome_control outcome_call_unbounded [where g = "structLoop n", OF struct_loop_outcome]
  show ?thesis
    unfolding parseStructDecl_def Let_def
    by (rule steps start | assumption | rule moved_steps | erule moved_via | (simp; fail))+
qed

lemma enum_outcome:
  assumes "ps_ok p"
  shows "outcome False False p (parseEnumDecl n isPub p)"
proof -
  note start = moved_refl [OF assms(1)]
  note steps = outcome_control outcome_call_unbounded [where g = "enumLoop n", OF enum_loop_outcome]
  show ?thesis
    unfolding parseEnumDecl_def Let_def
    by (rule steps start | assumption | rule moved_steps | erule moved_via | (simp; fail))+
qed


section \<open>The module\<close>

text \<open>Token streams without struct and enum declarations.\<close>

definition aggregate_free :: "Parser \<Rightarrow> bool" where
  "aggregate_free p \<longleftrightarrow> (\<forall>t \<in> set (ps_tokens p). tok_kind t \<noteq> KwStruct \<and> tok_kind t \<noteq> KwEnum)"

lemma aggregate_free_moved: "moved a p q \<Longrightarrow> aggregate_free q = aggregate_free p"
  by (simp add: moved_def aggregate_free_def)

lemma aggregate_free_cur:
  "ps_ok p \<Longrightarrow> aggregate_free p \<Longrightarrow> cur_kind p \<noteq> KwStruct \<and> cur_kind p \<noteq> KwEnum"
  by (simp add: aggregate_free_def ps_ok_def cur_kind_def current_def)

lemma outcome_some:
  "outcome s e p r \<Longrightarrow> outcome s e p (andThen r (\<lambda>x p1. Parsed (Some x) p1))"
  by (cases r) (simp_all add: outcome_def)

lemma top_level_outcome:
  assumes ok: "ps_ok p0" and kw: "cur_kind p0 \<in> set decl_keywords"
  shows "outcome True (within 5 n p0 \<and> aggregate_free p0) p0 (parseTopLevelDecl n p0)"
proof -
  obtain isPub p where m: "ps_match KwPub p0 = (isPub, p)" by fastforce
  have mv: "moved isPub p0 p" by (rule moved_match [OF ok m])
  have same: "p = p0" if "\<not> isPub" using m that by (auto simp: ps_match_def split: if_splits)
  have adv: "moved True p0 (ps_advance p)" by (rule moved_then_advance [OF mv])
  have w: "within c n p0 \<Longrightarrow> moved a p0 q \<Longrightarrow> within c n q" for c a q
    using moved_left [of a p0 q] by (simp add: within_def)
  have agg: "\<not> aggregate_free p0" if "cur_kind p = KwStruct \<or> cur_kind p = KwEnum"
    using that aggregate_free_cur [OF moved_ok [OF mv]] aggregate_free_moved [OF mv] by auto
  have call: "outcome True (within 5 n p0 \<and> aggregate_free p0) p0 (g (ps_advance p))"
    if "\<And>q. ps_ok q \<Longrightarrow> outcome False (within c n q) q (g q)" "c \<le> 5" for g :: "Parser \<Rightarrow> Decl parse_result" and c
    by (rule outcome_tail [OF adv that(1) [OF moved_ok [OF adv]]])
      (use w [OF _ adv] that(2) in \<open>auto simp: within_def\<close>)
  have call': "outcome True (within 5 n p0 \<and> aggregate_free p0) p0 (g (ps_advance p))"
    if "\<And>q. ps_ok q \<Longrightarrow> outcome False False q (g q)" "\<not> aggregate_free p0" for g :: "Parser \<Rightarrow> Decl parse_result"
    by (rule outcome_tail [OF adv that(1) [OF moved_ok [OF adv]]]) (use that(2) in simp_all)
  have var: "outcome True (within 5 n p0 \<and> aggregate_free p0) p0 (parseVarDecl n p)"
    if "cur_kind p \<in> {KwLet, KwVar, KwConst}"
    by (rule outcome_tail [OF mv var_decl_outcome_at [OF moved_ok [OF mv] that]])
      (use moved_left [OF mv] in \<open>auto simp: within_def\<close>)
  have bad: "moved True p0 (synchronize (ps_error (cur_loc p) ''expected a top-level declaration'' p))"
    if "cur_kind p \<notin> {KwFn, KwFun, KwStruct, KwEnum, KwType, KwImport, KwLet, KwVar, KwConst}"
  proof (cases isPub)
    case True
    with mv show ?thesis by (intro synchronize_moved moved_then_error) simp
  next
    case False
    then have "cur_kind p = KwModule"
      using that kw m same by (auto simp: decl_keywords_def ps_match_def ps_check_cur_kind split: if_splits)
    then have "moved True (ps_error l s p) (synchronize (ps_error l s p))" for l s
      by (intro synchronize_strict moved_ok [OF moved_then_error [OF mv]]) (simp add: sync_kinds_def)
    from moved_trans [OF moved_then_error [OF mv] this] show ?thesis by simp
  qed
  have calls: "outcome True (within 5 n p0 \<and> aggregate_free p0) p0 (parseFunctionDecl n isPub (ps_advance p))"
    "outcome True (within 5 n p0 \<and> aggregate_free p0) p0 (parseTypeAliasDecl n isPub (ps_advance p))"
    "outcome True (within 5 n p0 \<and> aggregate_free p0) p0 (parseImportDecl n (ps_advance p))"
    by (rule call [OF function_outcome] call [OF alias_outcome] call [OF import_outcome]; simp)+
  show ?thesis
    unfolding parseTopLevelDecl_def m Let_def prod.case
    using bad
    by (auto intro!: outcome_if outcome_some calls call' struct_outcome enum_outcome var agg simp: outcome_Parsed)
qed

text \<open>The main loop catches what its calls throw, and ends only at the end of the stream.\<close>

lemma module_loop_outcome:
  "ps_ok p \<Longrightarrow>
     (case moduleLoop n name ds ss p of
        NoFuel \<Rightarrow> \<not> (within 6 n p \<and> aggregate_free p)
      | Throw q \<Rightarrow> False
      | Parsed x q \<Rightarrow> moved False p q \<and> isAtEnd q)"
proof (induction n arbitrary: ds ss p)
  case 0
  then show ?case by (simp add: moduleLoop.simps not_within_0)
next
  case (Suc n)
  let ?e = "within 6 (Suc n) p \<and> aggregate_free p"
  have rest: "case moduleLoop n name ds' ss' p1 of
        NoFuel \<Rightarrow> \<not> ?e | Throw q \<Rightarrow> False | Parsed x q \<Rightarrow> moved False p q \<and> isAtEnd q"
    if "moved True p p1" "\<not> isAtEnd p" for p1 ds' ss'
  proof -
    have "within 6 n p1 \<and> aggregate_free p1" if ?e
      using that \<open>\<not> isAtEnd p\<close> within_step [OF _ \<open>moved True p p1\<close>, of 6 n 6] aggregate_free_moved [OF \<open>moved True p p1\<close>]
      by simp
    with Suc.IH [OF moved_ok [OF that(1)], of ds' ss'] moved_trans [OF that(1), of False _ False]
    show ?thesis by (auto split: parse_result.splits)
  qed
  have recovery: "moved True p (parse_recovery p1)"
    if "moved False p p1" "cur_kind p1 \<in> {TkIntLiteral, TkFloatLiteral}" for p1
    using moved_trans [OF that(1) recovery_moved [OF moved_ok [OF that(1)] that(2)]] by simp
  show ?case
  proof (cases "isAtEnd p")
    case True
    with Suc.prems show ?thesis by (simp add: moduleLoop.simps moved_refl)
  next
    case False
    have w: "within 5 n p" if ?e using that by (simp add: within_def)
    show ?thesis
    proof (cases "cur_kind p \<in> set decl_keywords")
      case True
      from top_level_outcome [OF Suc.prems True, of n] show ?thesis
      proof (cases "parseTopLevelDecl n p")
        case NoFuel
        with top_level_outcome [OF Suc.prems True, of n] w False True show ?thesis
          by (auto simp: moduleLoop.simps outcome_def)
      next
        case (Throw p1)
        with top_level_outcome [OF Suc.prems True, of n] have "moved True p (parse_recovery p1)"
          by (intro recovery) (simp_all add: outcome_def)
        from rest [OF this False] Throw False True show ?thesis by (simp add: moduleLoop.simps)
      next
        case (Parsed d p1)
        with top_level_outcome [OF Suc.prems True, of n] have "moved True p p1" by (simp add: outcome_def)
        from rest [OF this False] Parsed False True show ?thesis by (cases d) (simp_all add: moduleLoop.simps)
      qed
    next
      case kw: False
      have w4: "within 4 n p" if ?e using that by (simp add: within_def)
      show ?thesis
      proof (cases "parseStmt n p")
        case NoFuel
        with parseStmt_outcome [OF Suc.prems, of n] w4 False kw show ?thesis
          by (auto simp: moduleLoop.simps outcome_def)
      next
        case (Throw p1)
        with parseStmt_outcome [OF Suc.prems, of n] have "moved True p (parse_recovery p1)"
          by (intro recovery) (simp_all add: outcome_def)
        from rest [OF this False] Throw False kw show ?thesis by (simp add: moduleLoop.simps)
      next
        case (Parsed s p1)
        with parseStmt_outcome [OF Suc.prems, of n] have "moved True p p1" by (simp add: outcome_def)
        from rest [OF this False] Parsed False kw show ?thesis by (simp add: moduleLoop.simps)
      qed
    qed
  qed
qed

lemma module_name_moved: "parse_module_name p = (name, p1) \<Longrightarrow> ps_ok p \<Longrightarrow> moved False p p1"
  using moved_then_expect_lexeme [OF moved_weaken [OF moved_advance, of p False]]
  by (auto simp: parse_module_name_def moved_refl split: if_splits prod.splits intro!: moved_then_skip)

section \<open>Parsing always ends without struct and enum declarations\<close>

lemma parse_outcome:
  assumes "new_parser ctx toks = Some p" "\<forall>t \<in> set toks. tok_kind t \<noteq> KwStruct \<and> tok_kind t \<noteq> KwEnum"
    and "10 * length toks + 6 \<le> n"
  shows "\<exists>m p'. parse n p = Parsed m p' \<and> moved False p p' \<and> isAtEnd p'"
proof -
  have ok: "ps_ok p" and p: "ps_tokens p = toks" "ps_ctx p = ctx"
    using assms(1) by (auto simp: new_parser_def ps_ok_def split: if_splits)
  obtain name p1 where n: "parse_module_name p = (name, p1)" by fastforce
  have m1: "moved False p p1" by (rule module_name_moved [OF n ok])
  have "aggregate_free p1" using assms(2) aggregate_free_moved [OF m1] by (simp add: aggregate_free_def p)
  moreover have "within 6 n p1"
    using assms(3) moved_left [OF m1] by (simp add: within_def left_def p)
  ultimately obtain x p2 where r: "moduleLoop n name [] [] p1 = Parsed x p2" "moved False p1 p2" "isAtEnd p2"
    using module_loop_outcome [OF moved_ok [OF m1], of n name "[]" "[]"] by (auto split: parse_result.splits)
  have "moved False p p2" by (rule moved_trans [OF m1 r(2)]) simp
  with r show ?thesis by (cases x) (auto simp: parse_def n)
qed

text \<open>
  C5. The parser returns on every input that declares no struct or enum: from a constructed parser,
  with fuel for ten units per token and six more, \<open>parse\<close> returns a module (whatever the methods
  below it throw is caught), has read the whole token stream, stays inside it, and only appends
  diagnostics.
\<close>

theorem parse_returns:
  assumes "new_parser ctx toks = Some p" "\<forall>t \<in> set toks. tok_kind t \<noteq> KwStruct \<and> tok_kind t \<noteq> KwEnum"
    and "10 * length toks + 6 \<le> n"
  shows "\<exists>m p'. parse n p = Parsed m p' \<and> ps_tokens p' = toks \<and> ps_pos p' < length toks \<and> isAtEnd p'
    \<and> reported emit (ctx_diag ctx) (ctx_diag (ps_ctx p'))"
proof -
  have "ps_tokens p = toks" "ps_ctx p = ctx" using assms(1) by (auto simp: new_parser_def split: if_splits)
  with parse_outcome [OF assms] show ?thesis by (auto simp: moved_def ps_ok_def)
qed

theorem parse_returns_witness:
  "\<exists>p m p'. new_parser (new_context default_options)
      [\<lparr>tok_kind = TkIntLiteral, tok_lexeme = ''99999999999999999999'', tok_location = location_invalid\<rparr>,
       \<lparr>tok_kind = TkEof, tok_lexeme = [], tok_location = location_invalid\<rparr>] = Some p
    \<and> parse 26 p = Parsed m p' \<and> isAtEnd p'"
proof -
  let ?toks = "[\<lparr>tok_kind = TkIntLiteral, tok_lexeme = ''99999999999999999999'', tok_location = location_invalid\<rparr>,
       \<lparr>tok_kind = TkEof, tok_lexeme = [], tok_location = location_invalid\<rparr>]"
  obtain p where p: "new_parser (new_context default_options) ?toks = Some p"
    by (simp add: new_parser_def token_isEof_def)
  from parse_returns [OF p, of 26] p show ?thesis by auto
qed


section \<open>The loops that do not advance\<close>

text \<open>\<open>p\<close> and \<open>q\<close> differ in the diagnostics only.\<close>

definition stuck :: "Parser \<Rightarrow> Parser \<Rightarrow> bool" where
  "stuck p q \<longleftrightarrow> ps_tokens q = ps_tokens p \<and> ps_pos q = ps_pos p"

lemma stuck_simps [simp]:
  "stuck p p"
  "stuck p (ps_error loc msg q) = stuck p q"
  by (simp_all add: stuck_def)

lemma stuck_cur: "stuck p q \<Longrightarrow> cur_kind q = cur_kind p"
  by (simp add: stuck_def cur_kind_def current_def)

lemma stuck_expect: "stuck p q \<Longrightarrow> cur_kind p \<noteq> k \<Longrightarrow> ps_expect_lexeme k msg q = (s, q1) \<Longrightarrow> stuck p q1"
  by (auto simp: ps_expect_lexeme_def ps_expect_def ps_check_cur_kind stuck_cur split: if_splits)

lemma stuck_require: "stuck p q \<Longrightarrow> cur_kind p \<noteq> k \<Longrightarrow> stuck p (ps_require k msg q)"
  by (simp add: ps_require_def ps_expect_def ps_check_cur_kind stuck_cur)

lemma stuck_match: "stuck p q \<Longrightarrow> cur_kind p \<noteq> k \<Longrightarrow> ps_match k q = (False, q)"
  by (simp add: ps_match_def ps_check_cur_kind stuck_cur)

lemma stuck_skip: "stuck p q \<Longrightarrow> cur_kind p \<noteq> k \<Longrightarrow> ps_skip k q = q"
  by (simp add: ps_skip_def stuck_match)

text \<open>The tokens on which a struct body, or an enum body, makes progress.\<close>

definition field_kinds :: "TokenKind list" where
  "field_kinds = [KwPub, TkIdentifier, TkColon, TkComma, TkStar, TkLBracket, KwFn, KwFun, TkColonColon, TkRBrace, TkEof]"

definition variant_kinds :: "TokenKind list" where
  "variant_kinds = [TkIdentifier, TkLParen, TkComma, TkRBrace, TkEof]"

lemma stuck_type:
  assumes "stuck p q" "cur_kind p \<notin> set field_kinds"
  shows "parseType n q = NoFuel \<or> (\<exists>t q1. parseType n q = Parsed t q1 \<and> stuck p q1)"
proof (cases n)
  case 0
  then show ?thesis by (simp add: parseType.simps)
next
  case (Suc m)
  obtain s q1 where e: "ps_expect_lexeme TkIdentifier ''expected type name'' q = (s, q1)" by fastforce
  have st: "stuck p q1" using stuck_expect [OF assms(1) _ e] assms(2) by (simp add: field_kinds_def)
  have "parsePathTail TkColonColon a b m s q1 \<in> {NoFuel, Parsed s q1}" for a b
    using assms(2) stuck_cur [OF st] by (cases m) (auto simp: parsePathTail.simps ps_check_cur_kind field_kinds_def)
  then consider "parsePathTail TkColonColon ''::'' ''expected type name component'' m s q1 = NoFuel"
    | "parsePathTail TkColonColon ''::'' ''expected type name component'' m s q1 = Parsed s q1" by blast
  then show ?thesis
    using st e assms(2) stuck_cur [OF assms(1)]
    by cases (simp_all add: Suc parseType.simps ps_check_cur_kind field_kinds_def)
qed

lemma struct_loop_stuck:
  "stuck p q \<Longrightarrow> cur_kind p \<notin> set field_kinds \<Longrightarrow> structLoop n q = NoFuel"
proof (induction n arbitrary: q)
  case 0
  then show ?case by (simp add: structLoop.simps)
next
  case (Suc n)
  obtain s q2 where e: "ps_expect_lexeme TkIdentifier ''expected field name'' q = (s, q2)" by fastforce
  have st: "stuck p q2" using stuck_expect [OF Suc.prems(1) _ e] Suc.prems(2) by (simp add: field_kinds_def)
  let ?q3 = "ps_require TkColon (''expected '' @ quoted '':'' @ '' after field name'') q2"
  have st3: "stuck p ?q3" using stuck_require [OF st] Suc.prems(2) by (simp add: field_kinds_def)
  have cur: "cur_kind q = cur_kind p" by (rule stuck_cur [OF Suc.prems(1)])
  have m: "ps_match KwPub q = (False, q)" using stuck_match [OF Suc.prems(1)] Suc.prems(2) by (simp add: field_kinds_def)
  show ?case
  proof (cases "parseType n ?q3 = NoFuel")
    case True
    with m e cur Suc.prems(2) show ?thesis
      by (simp add: structLoop.simps ps_check_cur_kind cur_kind_at_end field_kinds_def)
  next
    case False
    with stuck_type [OF st3 Suc.prems(2), of n] obtain t q4 where t: "parseType n ?q3 = Parsed t q4" "stuck p q4" by blast
    have "ps_skip TkComma q4 = q4" using stuck_skip [OF t(2)] Suc.prems(2) by (simp add: field_kinds_def)
    with m e cur t Suc.IH [OF t(2) Suc.prems(2)] Suc.prems(2) show ?thesis
      by (simp add: structLoop.simps ps_check_cur_kind cur_kind_at_end field_kinds_def)
  qed
qed

lemma enum_loop_stuck:
  "stuck p q \<Longrightarrow> cur_kind p \<notin> set variant_kinds \<Longrightarrow> enumLoop n q = NoFuel"
proof (induction n arbitrary: q)
  case 0
  then show ?case by (simp add: enumLoop.simps)
next
  case (Suc n)
  obtain s q1 where e: "ps_expect_lexeme TkIdentifier ''expected variant name'' q = (s, q1)" by fastforce
  have st: "stuck p q1" using stuck_expect [OF Suc.prems(1) _ e] Suc.prems(2) by (simp add: variant_kinds_def)
  have "ps_skip TkComma q1 = q1" using stuck_skip [OF st] Suc.prems(2) by (simp add: variant_kinds_def)
  with e stuck_cur [OF Suc.prems(1)] stuck_cur [OF st] Suc.IH [OF st Suc.prems(2)] Suc.prems(2) show ?case
    by (simp add: enumLoop.simps ps_check_cur_kind cur_kind_at_end variant_kinds_def)
qed

text \<open>
  C34. A struct body that meets a token other than a field's parts, its closing brace and the end of
  input never returns, whatever the fuel, and so does an enum body on a token that starts no
  variant: the loops report an error and stay where they are.
\<close>

theorem aggregate_bodies_diverge:
  "(cur_kind p \<notin> set field_kinds \<longrightarrow> structLoop n p = NoFuel)
   \<and> (cur_kind p \<notin> set variant_kinds \<longrightarrow> enumLoop n p = NoFuel)"
  using struct_loop_stuck [of p p] enum_loop_stuck [of p p] by simp

theorem aggregate_bodies_diverge_witness:
  "\<forall>n. parse n \<lparr>ps_ctx = new_context default_options, ps_tokens =
       [\<lparr>tok_kind = KwStruct, tok_lexeme = ''struct'', tok_location = location_invalid\<rparr>,
        \<lparr>tok_kind = TkIdentifier, tok_lexeme = ''S'', tok_location = location_invalid\<rparr>,
        \<lparr>tok_kind = TkLBrace, tok_lexeme = ''{'', tok_location = location_invalid\<rparr>,
        \<lparr>tok_kind = TkIntLiteral, tok_lexeme = ''1'', tok_location = location_invalid\<rparr>,
        \<lparr>tok_kind = TkRBrace, tok_lexeme = ''}'', tok_location = location_invalid\<rparr>,
        \<lparr>tok_kind = TkEof, tok_lexeme = [], tok_location = location_invalid\<rparr>], ps_pos = 0\<rparr> = NoFuel"
proof
  fix n
  let ?t = "\<lambda>k s. \<lparr>tok_kind = k, tok_lexeme = s, tok_location = location_invalid\<rparr>"
  let ?p = "\<lambda>i. \<lparr>ps_ctx = new_context default_options, ps_tokens =
       [?t KwStruct ''struct'', ?t TkIdentifier ''S'', ?t TkLBrace ''{'', ?t TkIntLiteral ''1'',
        ?t TkRBrace ''}'', ?t TkEof []], ps_pos = i\<rparr>"
  have "cur_kind (?p 3) \<notin> set field_kinds" by (simp add: cur_kind_def current_def field_kinds_def)
  with aggregate_bodies_diverge [of "?p 3"] have loop: "structLoop m (?p 3) = NoFuel" for m by blast
  note eval = ps_check_cur_kind cur_kind_def current_def ps_match_def ps_expect_lexeme_def ps_expect_def
    ps_require_def ps_advance_def advanced_token_def isAtEnd_def token_isEof_def numeral_2_eq_2 numeral_3_eq_3
  have "parseStructDecl m False (?p 1) = NoFuel" for m
    using loop [of m] by (simp add: parseStructDecl_def eval)
  then have "parseTopLevelDecl m (?p 0) = NoFuel" for m
    by (simp add: parseTopLevelDecl_def eval)
  then have "moduleLoop m name ds ss (?p 0) = NoFuel" for m name ds ss
    by (cases m) (simp_all add: moduleLoop.simps eval decl_keywords_def)
  then show "parse n (?p 0) = NoFuel"
    by (simp add: parse_def parse_module_name_def eval)
qed

end

