(* ===== verification/Vcc_Parser_Fuel.thy ===== *)
theory Vcc_Parser_Fuel
  imports Vcc_Parser_Module
begin

text \<open>
  The fuel is only a bound: a result that is reached with some fuel is the result with every larger
  one. \<open>less_defined r r'\<close> says that \<open>r\<close> is \<open>r'\<close> or ran out of fuel; every method is monotone for it.
\<close>

definition less_defined :: "'a parse_result \<Rightarrow> 'a parse_result \<Rightarrow> bool" where
  "less_defined r r' \<longleftrightarrow> r = NoFuel \<or> r = r'"

lemma less_defined_refl: "less_defined r r"
  by (simp add: less_defined_def)

lemma less_defined_NoFuel: "less_defined NoFuel r"
  by (simp add: less_defined_def)

lemma less_defined_andThen:
  "less_defined r r' \<Longrightarrow> (\<And>x p. less_defined (f x p) (f' x p)) \<Longrightarrow> less_defined (andThen r f) (andThen r' f')"
  using less_defined_def [of r r'] by (cases r) (auto simp: less_defined_NoFuel less_defined_refl)

lemma less_defined_if:
  "(b \<Longrightarrow> less_defined r r') \<Longrightarrow> (\<not> b \<Longrightarrow> less_defined s s')
    \<Longrightarrow> less_defined (if b then r else s) (if b then r' else s')"
  by simp

lemma less_defined_prod:
  "(\<And>x y. less_defined (f x y) (f' x y)) \<Longrightarrow> less_defined (case z of (x, y) \<Rightarrow> f x y) (case z of (x, y) \<Rightarrow> f' x y)"
  by (cases z) simp

lemma less_defined_option:
  "less_defined r r' \<Longrightarrow> (\<And>x. less_defined (f x) (f' x))
    \<Longrightarrow> less_defined (case z of None \<Rightarrow> r | Some x \<Rightarrow> f x) (case z of None \<Rightarrow> r' | Some x \<Rightarrow> f' x)"
  by (cases z) simp_all

lemma less_defined_result:
  assumes "less_defined r r'" "\<And>p. less_defined (f p) (f' p)" "\<And>x p. less_defined (g x p) (g' x p)"
  shows "less_defined (case r of NoFuel \<Rightarrow> NoFuel | Throw p \<Rightarrow> f p | Parsed x p \<Rightarrow> g x p)
    (case r' of NoFuel \<Rightarrow> NoFuel | Throw p \<Rightarrow> f' p | Parsed x p \<Rightarrow> g' x p)"
  using assms(2,3) assms(1) [unfolded less_defined_def]
  by (cases r) (auto simp: less_defined_NoFuel)

lemmas less_defined_control = less_defined_andThen less_defined_if less_defined_prod less_defined_option
  less_defined_result less_defined_refl

lemma path_mono: "less_defined (parsePathTail sep t m n x p) (parsePathTail sep t m (Suc n) x p)"
proof (induction n arbitrary: x p)
  case 0
  then show ?case by (simp add: parsePathTail.simps(1) less_defined_NoFuel)
next
  case (Suc n)
  show ?case
    unfolding parsePathTail.simps(2) [of _ _ _ n] Let_def
      unfolding parsePathTail.simps(2) [of _ _ _ "Suc n"] Let_def
    by (rule Suc less_defined_control)+
qed

lemma expr_mono:
  "less_defined (parseType n p) (parseType (Suc n) p)"
  "less_defined (parseTypeList n p) (parseTypeList (Suc n) p)"
  "less_defined (parseExpr n m p) (parseExpr (Suc n) m p)"
  "less_defined (infixLoop n m lhs p) (infixLoop (Suc n) m lhs p)"
  "less_defined (parsePrimaryExpr n p) (parsePrimaryExpr (Suc n) p)"
  "less_defined (parsePostfixExpr n lhs p) (parsePostfixExpr (Suc n) lhs p)"
  "less_defined (parseCallArgs n lhs p) (parseCallArgs (Suc n) lhs p)"
  "less_defined (parseExprList n p) (parseExprList (Suc n) p)"
proof (induction n arbitrary: p m lhs)
  case 0
  {
    case 1 show ?case by (simp add: parseType.simps(1) less_defined_NoFuel)
  next
    case 2 show ?case by (simp add: parseTypeList.simps(1) less_defined_NoFuel)
  next
    case 3 show ?case by (simp add: parseExpr.simps(1) less_defined_NoFuel)
  next
    case 4 show ?case by (simp add: infixLoop.simps(1) less_defined_NoFuel)
  next
    case 5 show ?case by (simp add: parsePrimaryExpr.simps(1) less_defined_NoFuel)
  next
    case 6 show ?case by (simp add: parsePostfixExpr.simps(1) less_defined_NoFuel)
  next
    case 7 show ?case by (simp add: parseCallArgs.simps(1) less_defined_NoFuel)
  next
    case 8 show ?case by (simp add: parseExprList.simps(1) less_defined_NoFuel)
  }
next
  case (Suc n)
  {
    case 1 show ?case
      unfolding parseType.simps(2) [of n] Let_def
      unfolding parseType.simps(2) [of "Suc n"] Let_def
      by (rule Suc path_mono less_defined_control)+
  next
    case 2 show ?case
      unfolding parseTypeList.simps(2) [of n] Let_def
      unfolding parseTypeList.simps(2) [of "Suc n"] Let_def
      by (rule Suc less_defined_control)+
  next
    case 3 show ?case
      unfolding parseExpr.simps(2) [of n] Let_def
      unfolding parseExpr.simps(2) [of "Suc n"] Let_def
      by (rule Suc less_defined_control)+
  next
    case 4 show ?case
      unfolding infixLoop.simps(2) [of n] Let_def
      unfolding infixLoop.simps(2) [of "Suc n"] Let_def
      by (rule Suc less_defined_control)+
  next
    case 5 show ?case
      unfolding parsePrimaryExpr.simps(2) [of n] Let_def
      unfolding parsePrimaryExpr.simps(2) [of "Suc n"] Let_def
      by (rule Suc less_defined_control)+
  next
    case 6 show ?case
      unfolding parsePostfixExpr.simps(2) [of n] Let_def
      unfolding parsePostfixExpr.simps(2) [of "Suc n"] Let_def
      by (rule Suc less_defined_control)+
  next
    case 7 show ?case
      unfolding parseCallArgs.simps(2) [of n] Let_def
      unfolding parseCallArgs.simps(2) [of "Suc n"] Let_def
      by (rule Suc less_defined_control)+
  next
    case 8 show ?case
      unfolding parseExprList.simps(2) [of n] Let_def
      unfolding parseExprList.simps(2) [of "Suc n"] Let_def
      by (rule Suc less_defined_control)+
  }
qed

lemmas expr_monos = path_mono expr_mono

lemma var_decl_mono: "less_defined (parseVarDecl n p) (parseVarDecl (Suc n) p)"
  unfolding parseVarDecl_def Let_def
  by (rule expr_monos less_defined_control)+

lemma return_mono: "less_defined (parseReturnStmt n p) (parseReturnStmt (Suc n) p)"
  unfolding parseReturnStmt_def Let_def
  by (rule expr_monos less_defined_control)+

lemma stmt_mono:
  "less_defined (parseStmt n p) (parseStmt (Suc n) p)"
  "less_defined (parseBlock n p) (parseBlock (Suc n) p)"
  "less_defined (blockLoop n p) (blockLoop (Suc n) p)"
  "less_defined (parseBody n p) (parseBody (Suc n) p)"
  "less_defined (parseIfStmt n p) (parseIfStmt (Suc n) p)"
  "less_defined (parseElse n p) (parseElse (Suc n) p)"
  "less_defined (parseWhileStmt n p) (parseWhileStmt (Suc n) p)"
  "less_defined (parseVloopStmt n p) (parseVloopStmt (Suc n) p)"
  "less_defined (parseMatchStmt n p) (parseMatchStmt (Suc n) p)"
  "less_defined (armsLoop n p) (armsLoop (Suc n) p)"
  "less_defined (parseForStmt n p) (parseForStmt (Suc n) p)"
proof (induction n arbitrary: p)
  case 0
  {
    case 1 show ?case by (simp add: parseStmt.simps(1) less_defined_NoFuel)
  next
    case 2 show ?case by (simp add: parseBlock.simps(1) less_defined_NoFuel)
  next
    case 3 show ?case by (simp add: blockLoop.simps(1) less_defined_NoFuel)
  next
    case 4 show ?case by (simp add: parseBody.simps(1) less_defined_NoFuel)
  next
    case 5 show ?case by (simp add: parseIfStmt.simps(1) less_defined_NoFuel)
  next
    case 6 show ?case by (simp add: parseElse.simps(1) less_defined_NoFuel)
  next
    case 7 show ?case by (simp add: parseWhileStmt.simps(1) less_defined_NoFuel)
  next
    case 8 show ?case by (simp add: parseVloopStmt.simps(1) less_defined_NoFuel)
  next
    case 9 show ?case by (simp add: parseMatchStmt.simps(1) less_defined_NoFuel)
  next
    case 10 show ?case by (simp add: armsLoop.simps(1) less_defined_NoFuel)
  next
    case 11 show ?case by (simp add: parseForStmt.simps(1) less_defined_NoFuel)
  }
next
  case (Suc n)
  {
    case 1 show ?case
      unfolding parseStmt.simps(2) [of n] Let_def
      unfolding parseStmt.simps(2) [of "Suc n"] Let_def
      by (rule Suc expr_monos var_decl_mono return_mono less_defined_control)+
  next
    case 2 show ?case
      unfolding parseBlock.simps(2) [of n] Let_def
      unfolding parseBlock.simps(2) [of "Suc n"] Let_def
      by (rule Suc expr_monos var_decl_mono return_mono less_defined_control)+
  next
    case 3 show ?case
      unfolding blockLoop.simps(2) [of n] Let_def
      unfolding blockLoop.simps(2) [of "Suc n"] Let_def
      by (rule Suc expr_monos var_decl_mono return_mono less_defined_control)+
  next
    case 4 show ?case
      unfolding parseBody.simps(2) [of n] Let_def
      unfolding parseBody.simps(2) [of "Suc n"] Let_def
      by (rule Suc expr_monos var_decl_mono return_mono less_defined_control)+
  next
    case 5 show ?case
      unfolding parseIfStmt.simps(2) [of n] Let_def
      unfolding parseIfStmt.simps(2) [of "Suc n"] Let_def
      by (rule Suc expr_monos var_decl_mono return_mono less_defined_control)+
  next
    case 6 show ?case
      unfolding parseElse.simps(2) [of n] Let_def
      unfolding parseElse.simps(2) [of "Suc n"] Let_def
      by (rule Suc expr_monos var_decl_mono return_mono less_defined_control)+
  next
    case 7 show ?case
      unfolding parseWhileStmt.simps(2) [of n] Let_def
      unfolding parseWhileStmt.simps(2) [of "Suc n"] Let_def
      by (rule Suc expr_monos var_decl_mono return_mono less_defined_control)+
  next
    case 8 show ?case
      unfolding parseVloopStmt.simps(2) [of n] Let_def
      unfolding parseVloopStmt.simps(2) [of "Suc n"] Let_def
      by (rule Suc expr_monos var_decl_mono return_mono less_defined_control)+
  next
    case 9 show ?case
      unfolding parseMatchStmt.simps(2) [of n] Let_def
      unfolding parseMatchStmt.simps(2) [of "Suc n"] Let_def
      by (rule Suc expr_monos var_decl_mono return_mono less_defined_control)+
  next
    case 10 show ?case
      unfolding armsLoop.simps(2) [of n] Let_def
      unfolding armsLoop.simps(2) [of "Suc n"] Let_def
      by (rule Suc expr_monos var_decl_mono return_mono less_defined_control)+
  next
    case 11 show ?case
      unfolding parseForStmt.simps(2) [of n] Let_def
      unfolding parseForStmt.simps(2) [of "Suc n"] Let_def
      by (rule Suc expr_monos var_decl_mono return_mono less_defined_control)+
  }
qed

lemmas stmt_monos = expr_monos var_decl_mono return_mono stmt_mono

lemma import_mono: "less_defined (parseImportDecl n p) (parseImportDecl (Suc n) p)"
  unfolding parseImportDecl_def Let_def
  by (rule stmt_monos less_defined_control)+

lemma param_mono: "less_defined (parseParam n p) (parseParam (Suc n) p)"
  unfolding parseParam_def Let_def
  by (rule stmt_monos less_defined_control)+

lemma param_loop_mono: "less_defined (paramLoop n p) (paramLoop (Suc n) p)"
proof (induction n arbitrary: p)
  case 0
  then show ?case by (simp add: paramLoop.simps(1) less_defined_NoFuel)
next
  case (Suc n)
  show ?case
    unfolding paramLoop.simps(2) [of n] Let_def
    unfolding paramLoop.simps(2) [of "Suc n"] Let_def
    by (rule Suc param_mono less_defined_control)+
qed

lemma param_list_mono: "less_defined (parseParamList n p) (parseParamList (Suc n) p)"
  unfolding parseParamList_def Let_def
  by (rule param_loop_mono less_defined_control)+

lemma braceless_mono: "less_defined (bracelessLoop n p) (bracelessLoop (Suc n) p)"
proof (induction n arbitrary: p)
  case 0
  then show ?case by (simp add: bracelessLoop.simps(1) less_defined_NoFuel)
next
  case (Suc n)
  show ?case
    unfolding bracelessLoop.simps(2) [of n] Let_def
    unfolding bracelessLoop.simps(2) [of "Suc n"] Let_def
    by (rule Suc stmt_monos less_defined_control)+
qed

lemma function_mono: "less_defined (parseFunctionDecl n isPub p) (parseFunctionDecl (Suc n) isPub p)"
  unfolding parseFunctionDecl_def Let_def
  by (rule stmt_monos param_list_mono braceless_mono less_defined_control)+

lemma struct_loop_mono: "less_defined (structLoop n p) (structLoop (Suc n) p)"
proof (induction n arbitrary: p)
  case 0
  then show ?case by (simp add: structLoop.simps(1) less_defined_NoFuel)
next
  case (Suc n)
  show ?case
    unfolding structLoop.simps(2) [of n] Let_def
    unfolding structLoop.simps(2) [of "Suc n"] Let_def
    by (rule Suc stmt_monos less_defined_control)+
qed

lemma struct_mono: "less_defined (parseStructDecl n isPub p) (parseStructDecl (Suc n) isPub p)"
  unfolding parseStructDecl_def Let_def
  by (rule struct_loop_mono less_defined_control)+

lemma enum_loop_mono: "less_defined (enumLoop n p) (enumLoop (Suc n) p)"
proof (induction n arbitrary: p)
  case 0
  then show ?case by (simp add: enumLoop.simps(1) less_defined_NoFuel)
next
  case (Suc n)
  show ?case
    unfolding enumLoop.simps(2) [of n] Let_def
    unfolding enumLoop.simps(2) [of "Suc n"] Let_def
    by (rule Suc stmt_monos less_defined_control)+
qed

lemma enum_mono: "less_defined (parseEnumDecl n isPub p) (parseEnumDecl (Suc n) isPub p)"
  unfolding parseEnumDecl_def Let_def
  by (rule enum_loop_mono less_defined_control)+

lemma alias_mono: "less_defined (parseTypeAliasDecl n isPub p) (parseTypeAliasDecl (Suc n) isPub p)"
  unfolding parseTypeAliasDecl_def Let_def
  by (rule stmt_monos less_defined_control)+

lemma top_level_mono: "less_defined (parseTopLevelDecl n p) (parseTopLevelDecl (Suc n) p)"
  unfolding parseTopLevelDecl_def Let_def
  by (rule stmt_monos import_mono function_mono struct_mono enum_mono alias_mono less_defined_control)+

lemma module_loop_mono: "less_defined (moduleLoop n name ds ss p) (moduleLoop (Suc n) name ds ss p)"
proof (induction n arbitrary: ds ss p)
  case 0
  then show ?case by (simp add: moduleLoop.simps(1) less_defined_NoFuel)
next
  case (Suc n)
  show ?case
    unfolding moduleLoop.simps(2) [of n] Let_def
    unfolding moduleLoop.simps(2) [of "Suc n"] Let_def
    by (rule Suc stmt_monos top_level_mono less_defined_control)+
qed

lemma parse_mono: "less_defined (parse n p) (parse (Suc n) p)"
  unfolding parse_def Let_def
  by (rule module_loop_mono less_defined_control)+

lemma mono_le:
  assumes "\<And>n. less_defined (g n) (g (Suc n))" "n \<le> m"
  shows "less_defined (g n) (g m)"
  using assms(2)
proof (induction m rule: dec_induct)
  case base
  show ?case by (rule less_defined_refl)
next
  case (step m)
  with assms(1) [of m] show ?case by (auto simp: less_defined_def)
qed



end
