(* ===== verification/Vcc_Symbols.thy ===== *)
theory Vcc_Symbols
  imports Vcc_Diagnostics
begin

text \<open>
  Symbols, scopes and the symbol table (\<open>include/vcc/semantic/SymbolTable.h\<close>,
  \<open>src/semantic/SymbolTable.cpp\<close>). A scope maps names to symbols; the vector of scopes is a list
  with the innermost scope (the back of the vector) first. \<open>leaveScope\<close> returns \<open>None\<close> where its
  assertion fails. What the semantic passes rely on is the locale \<open>scoped_table\<close>, interpreted on
  the table below.
\<close>

datatype SymbolKind = SkVariable | SkConstant | SkFunction | SkParameter | SkType | SkModule

fun symbolKindName :: "SymbolKind \<Rightarrow> string" where
  "symbolKindName SkVariable = ''variable''"
| "symbolKindName SkConstant = ''constant''"
| "symbolKindName SkFunction = ''function''"
| "symbolKindName SkParameter = ''parameter''"
| "symbolKindName SkType = ''type''"
| "symbolKindName SkModule = ''module''"

record Symbol =
  sym_name :: string
  sym_kind :: SymbolKind
  sym_isMut :: bool
  sym_isPub :: bool
  sym_typeName :: string
  sym_declarationSite :: string
  sym_declLoc :: SourceLocation
  sym_paramTypes :: "string list"
  sym_returnType :: string

text \<open>A default-initialised symbol with its name and kind set.\<close>

definition new_symbol :: "string \<Rightarrow> SymbolKind \<Rightarrow> Symbol" where
  "new_symbol name kind =
     \<lparr>sym_name = name, sym_kind = kind, sym_isMut = False, sym_isPub = False, sym_typeName = [],
      sym_declarationSite = [], sym_declLoc = location_invalid, sym_paramTypes = [],
      sym_returnType = []\<rparr>"

definition VariableSymbol :: "string \<Rightarrow> string \<Rightarrow> bool \<Rightarrow> bool \<Rightarrow> Symbol" where
  "VariableSymbol nm type mut pub =
     (new_symbol nm SkVariable)\<lparr>sym_typeName := type, sym_isMut := mut, sym_isPub := pub\<rparr>"

definition FunctionSymbol :: "string \<Rightarrow> string list \<Rightarrow> string \<Rightarrow> bool \<Rightarrow> Symbol" where
  "FunctionSymbol nm params ret pub =
     (new_symbol nm SkFunction)\<lparr>sym_paramTypes := params, sym_returnType := ret, sym_isPub := pub,
        sym_typeName := ret\<rparr>"

record Scope =
  scope_label :: string
  scope_symbols :: "string \<rightharpoonup> Symbol"

definition new_scope :: "string \<Rightarrow> Scope" where
  "new_scope label = \<lparr>scope_label = label, scope_symbols = Map.empty\<rparr>"

definition scope_define :: "Symbol \<Rightarrow> Scope \<Rightarrow> bool \<times> Scope" where
  "scope_define sm sc =
     (case scope_symbols sc (sym_name sm) of
        None \<Rightarrow> (True, sc\<lparr>scope_symbols := (scope_symbols sc)(sym_name sm \<mapsto> sm)\<rparr>)
      | Some _ \<Rightarrow> (False, sc))"

definition scope_lookup :: "string \<Rightarrow> Scope \<Rightarrow> Symbol option" where
  "scope_lookup name sc = scope_symbols sc name"

text \<open>The table always has the global scope: the list is not empty in any reachable state.\<close>

type_synonym SymbolTable = "Scope list"

definition new_table :: SymbolTable where
  "new_table = [new_scope ''global'']"

definition enterScope :: "string \<Rightarrow> SymbolTable \<Rightarrow> SymbolTable" where
  "enterScope label tbl = new_scope label # tbl"

definition leaveScope :: "SymbolTable \<Rightarrow> SymbolTable option" where
  "leaveScope tbl = (if length tbl > 1 then Some (tl tbl) else None)"

fun define_symbol :: "Symbol \<Rightarrow> SymbolTable \<Rightarrow> bool \<times> SymbolTable" where
  "define_symbol sm [] = (False, [])"
| "define_symbol sm (sc # scs) = (let (inserted, sc') = scope_define sm sc in (inserted, sc' # scs))"

fun lookup :: "string \<Rightarrow> SymbolTable \<Rightarrow> Symbol option" where
  "lookup name [] = None"
| "lookup name (sc # scs) =
     (case scope_lookup name sc of Some s \<Rightarrow> Some s | None \<Rightarrow> lookup name scs)"

fun lookupCurrent :: "string \<Rightarrow> SymbolTable \<Rightarrow> Symbol option" where
  "lookupCurrent name [] = None"
| "lookupCurrent name (sc # scs) = scope_lookup name sc"

definition depth :: "SymbolTable \<Rightarrow> nat" where
  "depth tbl = length tbl - 1"


section \<open>The contract of a scoped table\<close>

text \<open>
  \<open>usable\<close> is the invariant that there is a scope to define in. \<open>define\<close> answers whether the name
  was new in the current scope, and leaves the table unchanged when it was not.
\<close>

locale scoped_table =
  fixes enter :: "string \<Rightarrow> 't \<Rightarrow> 't"
    and leave :: "'t \<Rightarrow> 't option"
    and define_in :: "'v \<Rightarrow> 't \<Rightarrow> bool \<times> 't"
    and find :: "string \<Rightarrow> 't \<Rightarrow> 'v option"
    and find_here :: "string \<Rightarrow> 't \<Rightarrow> 'v option"
    and key :: "'v \<Rightarrow> string"
    and usable :: "'t \<Rightarrow> bool"
  assumes usable_enter: "usable (enter l t)"
    and leave_enter: "usable t \<Longrightarrow> leave (enter l t) = Some t"
    and find_enter: "find x (enter l t) = find x t"
    and find_here_enter: "find_here x (enter l t) = None"
    and define_usable: "usable t \<Longrightarrow> usable (snd (define_in v t))"
    and define_new: "usable t \<Longrightarrow> fst (define_in v t) \<longleftrightarrow> find_here (key v) t = None"
    and define_old: "usable t \<Longrightarrow> find_here (key v) t \<noteq> None \<Longrightarrow> snd (define_in v t) = t"
    and define_find_here: "usable t \<Longrightarrow> find_here (key v) t = None \<Longrightarrow>
      find_here x (snd (define_in v t)) = (if x = key v then Some v else find_here x t)"
    and define_find: "usable t \<Longrightarrow> find_here (key v) t = None \<Longrightarrow>
      find x (snd (define_in v t)) = (if x = key v then Some v else find x t)"
    and define_leave: "usable t \<Longrightarrow> leave (snd (define_in v t)) = leave t"
    and here_found: "find_here x t = Some v \<Longrightarrow> find x t = Some v"
begin

text \<open>What a phase does inside a scope: definitions and complete nested scopes.\<close>

inductive within :: "'t \<Rightarrow> 't \<Rightarrow> bool" where
  here: "within t t"
| define_one: "within t t1 \<Longrightarrow> within t (snd (define_in v t1))"
| nested: "within t t1 \<Longrightarrow> within (enter l t1) t2 \<Longrightarrow> leave t2 = Some t3 \<Longrightarrow> within t t3"

lemma within_sound: "within t t' \<Longrightarrow> usable t \<Longrightarrow> usable t' \<and> leave t' = leave t"
proof (induction rule: within.induct)
  case (nested t t1 l t2 t3)
  then have "leave t2 = Some t1" by (simp add: leave_enter usable_enter)
  with nested show ?case by simp
qed (auto intro: define_usable simp: define_leave)

lemma within_usable: "within t t' \<Longrightarrow> usable t \<Longrightarrow> usable t'"
  by (simp add: within_sound)

lemma within_leave: "within t t' \<Longrightarrow> usable t \<Longrightarrow> leave t' = leave t"
  by (simp add: within_sound)

lemma within_trans: "within t1 t2 \<Longrightarrow> within t0 t1 \<Longrightarrow> within t0 t2"
  by (induction rule: within.induct) (auto intro: within.define_one within.nested)

text \<open>Leaving the scope that was entered gives back the table as it was, whatever was defined.\<close>

lemma within_scope: "usable t \<Longrightarrow> within (enter l t) t' \<Longrightarrow> leave t' = Some t"
  using within_leave [of "enter l t" t'] by (simp add: leave_enter usable_enter)

lemma define_keeps_here:
  "usable t \<Longrightarrow> find_here x t = Some v \<Longrightarrow> find_here x (snd (define_in w t)) = Some v"
  by (cases "find_here (key w) t") (auto simp: define_find_here define_old)

text \<open>A name defined in the current scope keeps its first definition.\<close>

lemma within_keeps_here: "within t t' \<Longrightarrow> usable t \<Longrightarrow> find_here x t = Some v \<Longrightarrow> find_here x t' = Some v"
proof (induction rule: within.induct)
  case (nested t t1 l t2 t3)
  then have "t3 = t1" using within_scope [of t1 l t2] within_usable [of t t1] by simp
  with nested show ?case by simp
qed (auto intro: define_keeps_here within_usable)

lemma define_found: "usable t \<Longrightarrow> find (key v) (snd (define_in v t)) \<noteq> None"
  by (cases "find_here (key v) t") (auto simp: define_find define_old dest: here_found)

lemma define_dom:
  "usable t \<Longrightarrow> {x. find x (snd (define_in v t)) \<noteq> None} = insert (key v) {x. find x t \<noteq> None}"
  by (cases "find_here (key v) t") (auto simp: define_find define_old dest: here_found)

end

text \<open>The laws hold for the table of the code.\<close>

definition table_ok :: "SymbolTable \<Rightarrow> bool" where
  "table_ok tbl \<longleftrightarrow> tbl \<noteq> []"

lemma define_symbol_Cons:
  "define_symbol sm (sc # scs) =
     (if scope_symbols sc (sym_name sm) = None
      then (True, sc\<lparr>scope_symbols := (scope_symbols sc)(sym_name sm \<mapsto> sm)\<rparr> # scs)
      else (False, sc # scs))"
  by (simp add: scope_define_def split: option.split)

lemma lookup_here: "lookupCurrent x tbl = Some v \<Longrightarrow> lookup x tbl = Some v"
  by (cases tbl) auto

interpretation table: scoped_table enterScope leaveScope define_symbol lookup lookupCurrent sym_name table_ok
proof
  fix l x and t :: SymbolTable and v w
  show "table_ok (enterScope l t)" by (simp add: table_ok_def enterScope_def)
  show "lookup x (enterScope l t) = lookup x t"
    by (simp add: enterScope_def new_scope_def scope_lookup_def)
  show "lookupCurrent x (enterScope l t) = None"
    by (simp add: enterScope_def new_scope_def scope_lookup_def)
  show "lookupCurrent x t = Some v \<Longrightarrow> lookup x t = Some v" by (rule lookup_here)
  assume "table_ok t"
  then obtain sc scs where t: "t = sc # scs" by (cases t) (auto simp: table_ok_def)
  show "leaveScope (enterScope l t) = Some t" by (simp add: leaveScope_def enterScope_def t)
  show "table_ok (snd (define_symbol v t))" by (simp add: t table_ok_def define_symbol_Cons del: define_symbol.simps)
  show "fst (define_symbol v t) \<longleftrightarrow> lookupCurrent (sym_name v) t = None"
    by (simp add: t define_symbol_Cons scope_lookup_def del: define_symbol.simps)
  show "leaveScope (snd (define_symbol v t)) = leaveScope t"
    by (simp add: t define_symbol_Cons leaveScope_def del: define_symbol.simps)
  show "lookupCurrent (sym_name v) t \<noteq> None \<Longrightarrow> snd (define_symbol v t) = t"
    by (auto simp: t scope_define_def scope_lookup_def)
  assume "lookupCurrent (sym_name v) t = None"
  then have "scope_symbols sc (sym_name v) = None" by (simp add: t scope_lookup_def)
  then show "lookupCurrent x (snd (define_symbol v t)) = (if x = sym_name v then Some v else lookupCurrent x t)"
    and "lookup x (snd (define_symbol v t)) = (if x = sym_name v then Some v else lookup x t)"
    by (simp_all add: t define_symbol_Cons scope_lookup_def del: define_symbol.simps)
qed

lemmas table_simps [simp] = table.usable_enter table.leave_enter table.find_enter table.define_usable

lemma table_ok_new [simp]: "table_ok new_table"
  by (simp add: table_ok_def new_table_def)

text \<open>
  C23. Lexical scoping: whatever is defined between \<open>enterScope\<close> and the matching \<open>leaveScope\<close>,
  nested scopes included, the table afterwards is the table before, so every name means what it
  meant; and inside, the innermost definition is the one found.
\<close>

theorem scopes_restore:
  assumes "table_ok t" and "table.within (enterScope l t) t'"
  shows "leaveScope t' = Some t
    \<and> lookup x t' = (case lookupCurrent x t' of Some v \<Rightarrow> Some v | None \<Rightarrow> lookup x t)"
proof -
  have leave: "leaveScope t' = Some t" using assms by (rule table.within_scope)
  then obtain sc where "t' = sc # t" by (cases t') (auto simp: leaveScope_def split: if_splits)
  with leave show ?thesis by simp
qed

theorem scopes_restore_witness:
  "let t = new_table;
       inner = snd (define_symbol (new_symbol ''x'' SkConstant) (enterScope ''block'' t))
   in leaveScope inner = Some t \<and> lookup ''x'' inner = Some (new_symbol ''x'' SkConstant) \<and> lookup ''x'' t = None"
proof -
  let ?t = "new_table"
  let ?inner = "snd (define_symbol (new_symbol ''x'' SkConstant) (enterScope ''block'' ?t))"
  have w: "table.within (enterScope ''block'' ?t) ?inner" by (intro table.within.intros)
  have here: "lookupCurrent ''x'' ?inner = Some (new_symbol ''x'' SkConstant)" by code_simp
  have out: "lookup ''x'' ?t = None" by code_simp
  show ?thesis using scopes_restore [OF table_ok_new w, of "''x''"] here out by (simp add: Let_def)
qed

end
