(* ===== verification/Vcc_TypeChecker.thy ===== *)
theory Vcc_TypeChecker
  imports Vcc_Ast Vcc_Context Vcc_Symbols
begin

text \<open>
  The type checker (\<open>include/vcc/semantic/TypeChecker.h\<close>, \<open>src/semantic/TypeChecker.cpp\<close>), the third
  pass of the semantic analysis. The visitor's members are the record \<open>TypeChecker\<close>; the overloaded
  \<open>visit\<close> methods are the equations of \<open>tc_expr\<close>, \<open>tc_stmt\<close> and \<open>tc_decl\<close>, and a node class without
  an override does nothing, as in \<open>ASTVisitorBase\<close>. \<open>None\<close> is a failed assertion of \<open>leaveScope\<close>.
\<close>

fun typeNodeName :: "TypeNode \<Rightarrow> string" where
  "typeNodeName (NamedTypeNode name _) = name"
| "typeNodeName (PointerTypeNode inner isMut _) =
     (if isMut then ''*mut '' else ''*'') @ typeNodeName inner"
| "typeNodeName (ArrayTypeNode element _ _) = ''['' @ typeNodeName element @ '']''"
| "typeNodeName _ = ''<type>''"

definition typeNodeToString :: "TypeNode option \<Rightarrow> string" where
  "typeNodeToString t = (case t of None \<Rightarrow> [] | Some n \<Rightarrow> typeNodeName n)"

record TypeChecker =
  tc_ctx :: CompilerContext
  tc_symbols :: SymbolTable
  tc_currentReturnType :: string
  tc_lastExprType :: string
  tc_hasReturn :: bool
  tc_requiresReturn :: bool

definition new_type_checker :: "CompilerContext \<Rightarrow> SymbolTable \<Rightarrow> TypeChecker" where
  "new_type_checker ctx symbols =
     \<lparr>tc_ctx = ctx, tc_symbols = symbols, tc_currentReturnType = [], tc_lastExprType = [],
      tc_hasReturn = False, tc_requiresReturn = False\<rparr>"

definition exprType :: "TypeChecker \<Rightarrow> string" where
  "exprType tc = tc_lastExprType tc"

definition setExprType :: "string \<Rightarrow> TypeChecker \<Rightarrow> TypeChecker" where
  "setExprType t tc = tc\<lparr>tc_lastExprType := t\<rparr>"

definition isIntName :: "string \<Rightarrow> bool" where
  "isIntName s \<longleftrightarrow> s \<in> {''i8'', ''i16'', ''i32'', ''i64'', ''isize'', ''u8'', ''u16'', ''u32'', ''u64'', ''usize''}"

definition isFloatName :: "string \<Rightarrow> bool" where
  "isFloatName s \<longleftrightarrow> s \<in> {''f32'', ''f64''}"

definition typesCompatible :: "string \<Rightarrow> string \<Rightarrow> bool" where
  "typesCompatible a b \<longleftrightarrow>
     a = b \<or> (a = ''<any>'' \<or> b = ''<any>'') \<or> (a = [] \<or> b = [])
     \<or> (isIntName a \<and> isIntName b) \<or> (isFloatName a \<and> isFloatName b)"

definition tc_error :: "SourceLocation \<Rightarrow> string \<Rightarrow> TypeChecker \<Rightarrow> TypeChecker" where
  "tc_error loc msg tc = tc\<lparr>tc_ctx := ctx_error loc msg (tc_ctx tc)\<rparr>"

text \<open>\<open>symbols_.define(sym)\<close> with the result ignored, \<open>enterScope\<close> and \<open>leaveScope\<close>.\<close>

definition tc_define :: "Symbol \<Rightarrow> TypeChecker \<Rightarrow> TypeChecker" where
  "tc_define s tc = tc\<lparr>tc_symbols := snd (define_symbol s (tc_symbols tc))\<rparr>"

definition tc_enter :: "string \<Rightarrow> TypeChecker \<Rightarrow> TypeChecker" where
  "tc_enter label tc = tc\<lparr>tc_symbols := enterScope label (tc_symbols tc)\<rparr>"

definition tc_leave :: "TypeChecker \<Rightarrow> TypeChecker option" where
  "tc_leave tc = map_option (\<lambda>tbl. tc\<lparr>tc_symbols := tbl\<rparr>) (leaveScope (tc_symbols tc))"


section \<open>Expressions\<close>

definition loc_of :: "SourceRange \<Rightarrow> SourceLocation" where
  "loc_of r = range_begin r"

fun tc_expr :: "Expr \<Rightarrow> TypeChecker \<Rightarrow> TypeChecker"
  and tc_exprs :: "Expr list \<Rightarrow> TypeChecker \<Rightarrow> TypeChecker" where
  "tc_expr (IntLiteralExpr _ _) tc = setExprType ''i64'' tc"
| "tc_expr (FloatLiteralExpr _ _) tc = setExprType ''f64'' tc"
| "tc_expr (BoolLiteralExpr _ _) tc = setExprType ''bool'' tc"
| "tc_expr (StringLiteralExpr _ _) tc = setExprType ''str'' tc"
| "tc_expr (IdentExpr name _) tc =
     (case lookup name (tc_symbols tc) of
        None \<Rightarrow> setExprType ''<any>'' tc
      | Some s \<Rightarrow> setExprType (if sym_typeName s = [] then ''<any>'' else sym_typeName s) tc)"
| "tc_expr (BinaryExpr op lhs rhs r) tc =
     (let tc1 = tc_expr lhs tc;
          lhsType = exprType tc1;
          tc2 = tc_expr rhs tc1;
          rhsType = exprType tc2;
          tc3 = (if \<not> typesCompatible lhsType rhsType then
                   tc_error (loc_of r) (''type mismatch in binary expression: '' @ quoted lhsType
                     @ '' vs '' @ quoted rhsType) tc2
                 else tc2)
      in setExprType lhsType tc3)"
| "tc_expr (UnaryExpr op operand r) tc = tc_expr operand tc"
| "tc_expr (CallExpr callee args r) tc =
     (let tc1 = tc_expr callee tc;
          tc2 = tc_exprs args tc1;
          resultType = (case callee of
              IdentExpr name _ \<Rightarrow> (case lookup name (tc_symbols tc2) of
                  Some s \<Rightarrow> (if sym_returnType s = [] then ''<any>'' else sym_returnType s)
                | None \<Rightarrow> ''<any>'')
            | _ \<Rightarrow> ''<any>'')
      in setExprType resultType tc2)"
| "tc_expr (AssignExpr op target v r) tc =
     (let tc1 = tc_expr target tc;
          targetType = exprType tc1;
          tc2 = tc_expr v tc1;
          valueType = exprType tc2;
          tc3 = (if \<not> typesCompatible targetType valueType then
                   tc_error (loc_of r) (''type mismatch in assignment: cannot assign '' @ quoted valueType
                     @ '' to '' @ quoted targetType) tc2
                 else tc2)
      in setExprType targetType tc3)"
| "tc_expr (ArrayLiteralExpr elements r) tc = setExprType ''array'' (tc_exprs elements tc)"
| "tc_expr (IndexExpr _ _ _) tc = tc"
| "tc_expr (MemberExpr _ _ _) tc = tc"
| "tc_expr (CastExpr _ _ _) tc = tc"
| "tc_expr (CharLiteralExpr _ _) tc = tc"
| "tc_expr (NilLiteralExpr _) tc = tc"
| "tc_exprs [] tc = tc"
| "tc_exprs (e # es) tc = tc_exprs es (tc_expr e tc)"


section \<open>Statements and declarations\<close>

definition tc_param :: "ParameterDecl \<Rightarrow> TypeChecker \<Rightarrow> TypeChecker" where
  "tc_param p tc =
     tc_define ((new_symbol (param_name p) SkParameter)
       \<lparr>sym_isMut := param_isMut p, sym_typeName := typeNodeName (param_type p),
        sym_declLoc := loc_of (param_range p)\<rparr>) tc"

definition tc_var :: "VarKind \<Rightarrow> string \<Rightarrow> TypeNode option \<Rightarrow> Expr option \<Rightarrow> SourceRange
    \<Rightarrow> TypeChecker \<Rightarrow> TypeChecker" where
  "tc_var vk name type init r tc =
     (let declared = typeNodeToString type;
          (declaredType, tc1) =
            (case init of
               None \<Rightarrow> (declared, tc)
             | Some e \<Rightarrow>
                 (let tc1 = tc_expr e tc;
                      inferredType = exprType tc1;
                      tc2 = (if declared \<noteq> [] \<and> inferredType \<noteq> []
                                \<and> \<not> typesCompatible declared inferredType then
                               tc_error (loc_of r) (''type mismatch in initializer for '' @ quoted name
                                 @ '': declared '' @ quoted declared @ '', got '' @ quoted inferredType) tc1
                             else tc1)
                  in (if declared = [] then inferredType else declared, tc2)))
      in tc_define ((new_symbol name (if vk = VkConst then SkConstant else SkVariable))
           \<lparr>sym_isMut := (vk = VkVar), sym_typeName := declaredType, sym_declLoc := loc_of r\<rparr>) tc1)"

definition tc_return :: "Expr option \<Rightarrow> SourceRange \<Rightarrow> TypeChecker \<Rightarrow> TypeChecker" where
  "tc_return v r tc0 =
     (let tc = tc0\<lparr>tc_hasReturn := True\<rparr> in
      case v of
        Some e \<Rightarrow>
          (let tc1 = tc_expr e tc;
               retType = exprType tc1
           in if tc_currentReturnType tc1 \<noteq> [] \<and> retType \<noteq> []
                 \<and> \<not> typesCompatible retType (tc_currentReturnType tc1) then
                tc_error (loc_of r) (''return type mismatch: expected ''
                  @ quoted (tc_currentReturnType tc1) @ '', got '' @ quoted retType) tc1
              else tc1)
      | None \<Rightarrow>
          (if tc_currentReturnType tc \<noteq> [] then
             tc_error (loc_of r) (''missing return value: function returns ''
               @ quoted (tc_currentReturnType tc)) tc
           else tc))"

text \<open>\<open>visit(FunctionDecl)\<close> before the body, and after its scope has been left.\<close>

definition tc_function_start :: "string \<Rightarrow> ParameterDecl list \<Rightarrow> string \<Rightarrow> TypeChecker \<Rightarrow> TypeChecker" where
  "tc_function_start name params retType tc =
     fold tc_param params (tc_enter (''fn:'' @ name)
       (tc\<lparr>tc_currentReturnType := retType, tc_hasReturn := False, tc_requiresReturn := (retType \<noteq> [])\<rparr>))"

definition missing_return :: "string \<Rightarrow> string \<Rightarrow> string" where
  "missing_return name retType =
     ''function '' @ quoted name @ '' must return a value of type '' @ quoted retType
     @ '' but control reaches end without a return statement''"

definition tc_function_end :: "string \<Rightarrow> string \<Rightarrow> SourceRange \<Rightarrow> TypeChecker \<Rightarrow> TypeChecker \<Rightarrow> TypeChecker" where
  "tc_function_end name retType r saved tc =
     (let tc1 = (if tc_requiresReturn tc \<and> \<not> tc_hasReturn tc
                 then tc_error (loc_of r) (missing_return name retType) tc else tc)
      in tc1\<lparr>tc_currentReturnType := tc_currentReturnType saved, tc_hasReturn := tc_hasReturn saved,
             tc_requiresReturn := tc_requiresReturn saved\<rparr>)"

fun tc_stmt :: "Stmt \<Rightarrow> TypeChecker \<Rightarrow> TypeChecker option"
  and tc_stmts :: "Stmt list \<Rightarrow> TypeChecker \<Rightarrow> TypeChecker option"
  and tc_arms :: "MatchArm list \<Rightarrow> TypeChecker \<Rightarrow> TypeChecker option"
  and tc_decl :: "Decl \<Rightarrow> TypeChecker \<Rightarrow> TypeChecker option"
  and tc_decls :: "Decl list \<Rightarrow> TypeChecker \<Rightarrow> TypeChecker option" where
  "tc_stmt (BlockStmt ss _) tc = do { tc1 \<leftarrow> tc_stmts ss (tc_enter ''block'' tc); tc_leave tc1 }"
| "tc_stmt (ReturnStmt v r) tc = Some (tc_return v r tc)"
| "tc_stmt (IfStmt c t e _) tc =
     do { tc1 \<leftarrow> tc_stmt t (tc_expr c tc);
          (case e of None \<Rightarrow> Some tc1 | Some s \<Rightarrow> tc_stmt s tc1) }"
| "tc_stmt (WhileStmt c b _) tc = tc_stmt b (tc_expr c tc)"
| "tc_stmt (VloopStmt c b _) tc = tc_stmt b (tc_expr c tc)"
| "tc_stmt (MatchStmt subject arms _) tc = tc_arms arms (tc_expr subject tc)"
| "tc_stmt (ForStmt var iter body _) tc =
     (let tc1 = tc_enter ''for'' tc;
          tc2 = tc_define ((new_symbol var SkVariable)\<lparr>sym_typeName := ''<any>''\<rparr>) tc1
      in do { tc3 \<leftarrow> tc_stmt body (tc_expr iter tc2); tc_leave tc3 })"
| "tc_stmt (ExprStmt e _) tc = Some (tc_expr e tc)"
| "tc_stmt (DeclStmt d _) tc = tc_decl d tc"
| "tc_stmt (BreakStmt _) tc = Some tc"
| "tc_stmt (ContinueStmt _) tc = Some tc"
| "tc_stmts [] tc = Some tc"
| "tc_stmts (s # ss) tc = do { tc1 \<leftarrow> tc_stmt s tc; tc_stmts ss tc1 }"
| "tc_arms [] tc = Some tc"
| "tc_arms (MatchArm p b # arms) tc =
     do { tc1 \<leftarrow> tc_stmt b (case p of None \<Rightarrow> tc | Some e \<Rightarrow> tc_expr e tc); tc_arms arms tc1 }"
| "tc_decl (ModuleDecl _ decls _) tc = tc_decls decls tc"
| "tc_decl (FunctionDecl name params ret body isPub r) tc =
     (let tc2 = tc_function_start name params (typeNodeToString ret) tc
      in do { tc3 \<leftarrow> (case body of None \<Rightarrow> Some tc2 | Some b \<Rightarrow> tc_stmt b tc2);
              tc4 \<leftarrow> tc_leave tc3;
              Some (tc_function_end name (typeNodeToString ret) r tc tc4) })"
| "tc_decl (VarDecl vk name type init r) tc = Some (tc_var vk name type init r tc)"
| "tc_decl (StructDecl _ _ _ _) tc = Some tc"
| "tc_decl (ImportDecl _ _ _) tc = Some tc"
| "tc_decl (EnumDecl _ _ _ _) tc = Some tc"
| "tc_decl (TypeAliasDecl _ _ _ _) tc = Some tc"
| "tc_decls [] tc = Some tc"
| "tc_decls (d # ds) tc = do { tc1 \<leftarrow> tc_decl d tc; tc_decls ds tc1 }"

text \<open>\<open>TypeChecker::check\<close>.\<close>

definition tc_check :: "Decl \<Rightarrow> TypeChecker \<Rightarrow> TypeChecker option" where
  "tc_check m tc = tc_decl m tc"


section \<open>What the pass leaves alone\<close>

lemma tc_update_simps [frame_simps]:
  "tc_symbols (setExprType t tc) = tc_symbols tc"
  "tc_ctx (setExprType t tc) = tc_ctx tc"
  "tc_currentReturnType (setExprType t tc) = tc_currentReturnType tc"
  "tc_hasReturn (setExprType t tc) = tc_hasReturn tc"
  "tc_requiresReturn (setExprType t tc) = tc_requiresReturn tc"
  "tc_symbols (tc_error loc msg tc) = tc_symbols tc"
  "tc_ctx (tc_error loc msg tc) = ctx_error loc msg (tc_ctx tc)"
  "tc_currentReturnType (tc_error loc msg tc) = tc_currentReturnType tc"
  "tc_hasReturn (tc_error loc msg tc) = tc_hasReturn tc"
  "tc_requiresReturn (tc_error loc msg tc) = tc_requiresReturn tc"
  "tc_symbols (tc_define s tc) = snd (define_symbol s (tc_symbols tc))"
  "tc_ctx (tc_define s tc) = tc_ctx tc"
  "tc_currentReturnType (tc_define s tc) = tc_currentReturnType tc"
  "tc_hasReturn (tc_define s tc) = tc_hasReturn tc"
  "tc_requiresReturn (tc_define s tc) = tc_requiresReturn tc"
  "tc_symbols (tc_enter l tc) = enterScope l (tc_symbols tc)"
  "tc_ctx (tc_enter l tc) = tc_ctx tc"
  "tc_currentReturnType (tc_enter l tc) = tc_currentReturnType tc"
  "tc_hasReturn (tc_enter l tc) = tc_hasReturn tc"
  "tc_requiresReturn (tc_enter l tc) = tc_requiresReturn tc"
  by (simp_all add: setExprType_def tc_error_def tc_define_def tc_enter_def)

lemma tc_leave_Some:
  "tc_leave tc = Some tc' \<longleftrightarrow>
    (\<exists>tbl. leaveScope (tc_symbols tc) = Some tbl \<and> tc' = tc\<lparr>tc_symbols := tbl\<rparr>)"
  by (auto simp: tc_leave_def)

text \<open>Visiting an expression reports errors and sets the type, and does nothing else.\<close>

definition tc_frame :: "TypeChecker \<Rightarrow> TypeChecker \<Rightarrow> bool" where
  "tc_frame tc tc' \<longleftrightarrow> tc_symbols tc' = tc_symbols tc
     \<and> tc_currentReturnType tc' = tc_currentReturnType tc
     \<and> tc_hasReturn tc' = tc_hasReturn tc \<and> tc_requiresReturn tc' = tc_requiresReturn tc
     \<and> reported emit (ctx_diag (tc_ctx tc)) (ctx_diag (tc_ctx tc'))"

lemma tc_frame_refl: "tc_frame tc tc"
  by (simp add: tc_frame_def reported_refl)

lemma tc_frame_trans: "tc_frame tc tc1 \<Longrightarrow> tc_frame tc1 tc2 \<Longrightarrow> tc_frame tc tc2"
  by (auto simp: tc_frame_def intro: reported_trans)

lemma tc_frame_update:
  "tc_frame tc tc1 \<Longrightarrow> tc_frame tc (setExprType t tc1)"
  "tc_frame tc tc1 \<Longrightarrow> tc_frame tc (tc_error loc msg tc1)"
  by (auto simp: tc_frame_def frame_simps intro: mono_intros)

lemma tc_expr_frame: "tc_frame tc (tc_expr e tc)" and tc_exprs_frame: "tc_frame tc (tc_exprs es tc)"
proof (induction e tc and es tc rule: tc_expr_tc_exprs.induct)
  case (6 op lhs rhs r tc)
  then have "tc_frame tc (tc_expr rhs (tc_expr lhs tc))" using tc_frame_trans by blast
  then show ?case by (simp add: Let_def tc_frame_update)
next
  case (8 callee args r tc)
  then have "tc_frame tc (tc_exprs args (tc_expr callee tc))" using tc_frame_trans by blast
  then show ?case by (simp add: Let_def tc_frame_update)
next
  case (9 op target v r tc)
  then have "tc_frame tc (tc_expr v (tc_expr target tc))" using tc_frame_trans by blast
  then show ?case by (simp add: Let_def tc_frame_update)
next
  case (17 e es tc)
  then show ?case using tc_frame_trans by fastforce
qed (auto intro: tc_frame_refl tc_frame_update split: option.split)

text \<open>A statement may also define names and open and close scopes, and may note a return.\<close>

definition tc_moves :: "TypeChecker \<Rightarrow> TypeChecker \<Rightarrow> bool" where
  "tc_moves tc tc' \<longleftrightarrow> table.within (tc_symbols tc) (tc_symbols tc')
     \<and> tc_currentReturnType tc' = tc_currentReturnType tc
     \<and> tc_requiresReturn tc' = tc_requiresReturn tc
     \<and> reported emit (ctx_diag (tc_ctx tc)) (ctx_diag (tc_ctx tc'))"

lemma tc_moves_frame: "tc_frame tc tc' \<Longrightarrow> tc_moves tc tc'"
  by (simp add: tc_moves_def tc_frame_def table.within.here)

lemma tc_moves_trans: "tc_moves tc tc1 \<Longrightarrow> tc_moves tc1 tc2 \<Longrightarrow> tc_moves tc tc2"
  by (auto simp: tc_moves_def intro: reported_trans table.within_trans)

lemma tc_moves_define: "tc_moves tc tc1 \<Longrightarrow> tc_moves tc (tc_define s tc1)"
  by (auto simp: tc_moves_def frame_simps intro: table.within.define_one)

lemma tc_moves_usable: "tc_moves tc tc' \<Longrightarrow> table_ok (tc_symbols tc) \<Longrightarrow> table_ok (tc_symbols tc')"
  by (auto simp: tc_moves_def intro: table.within_usable)

lemma tc_moves_scope:
  assumes "tc_moves (tc_enter l tc) tc'" "table_ok (tc_symbols tc)"
  shows "tc_leave tc' = Some (tc'\<lparr>tc_symbols := tc_symbols tc\<rparr>)"
    and "tc_moves tc (tc'\<lparr>tc_symbols := tc_symbols tc\<rparr>)"
  using assms table.within_scope [of "tc_symbols tc" l "tc_symbols tc'"]
  by (auto simp: tc_moves_def tc_leave_def frame_simps intro: table.within.here)

lemma tc_params_moves: "tc_moves tc (fold tc_param ps tc)"
proof (induction ps arbitrary: tc)
  case Nil
  then show ?case by (simp add: tc_moves_frame tc_frame_refl)
next
  case (Cons p ps)
  have "tc_moves tc (tc_param p tc)"
    by (simp add: tc_param_def tc_moves_define tc_moves_frame tc_frame_refl)
  with Cons show ?case using tc_moves_trans by fastforce
qed

lemma tc_var_moves: "tc_moves tc (tc_var vk name type init r tc)"
  unfolding tc_var_def
  by (cases init) (simp_all add: Let_def tc_moves_define tc_moves_frame tc_frame_update
      tc_frame_refl tc_expr_frame)

lemma tc_return_moves: "tc_moves tc (tc_return v r tc)"
proof -
  have "tc_moves tc (tc\<lparr>tc_hasReturn := True\<rparr>)"
    by (simp add: tc_moves_def table.within.here reported_refl)
  moreover have "tc_frame (tc\<lparr>tc_hasReturn := True\<rparr>) (tc_return v r tc)"
    unfolding tc_return_def by (cases v) (auto simp: Let_def intro: tc_frame_refl tc_frame_update tc_expr_frame)
  ultimately show ?thesis using tc_moves_frame tc_moves_trans by blast
qed

definition tc_runs :: "TypeChecker \<Rightarrow> TypeChecker option \<Rightarrow> bool" where
  "tc_runs tc r \<longleftrightarrow> (\<exists>tc'. r = Some tc' \<and> tc_moves tc tc')"

lemma tc_runs_Some [simp]: "tc_runs tc (Some tc') \<longleftrightarrow> tc_moves tc tc'"
  by (simp add: tc_runs_def)

lemma tc_runs_bind:
  "tc_runs tc m \<Longrightarrow> (\<And>tc1. tc_moves tc tc1 \<Longrightarrow> tc_runs tc1 (f tc1)) \<Longrightarrow> tc_runs tc (Option.bind m f)"
  by (force simp: tc_runs_def intro: tc_moves_trans)

lemma tc_runs_after: "tc_moves tc tc1 \<Longrightarrow> tc_runs tc1 r \<Longrightarrow> tc_runs tc r"
  by (auto simp: tc_runs_def intro: tc_moves_trans)

lemma tc_runs_scope:
  assumes "tc_runs (tc_enter l tc) m" "table_ok (tc_symbols tc)"
  shows "tc_runs tc (do { tc1 \<leftarrow> m; tc_leave tc1 })"
  using assms tc_moves_scope [OF _ assms(2)] by (force simp: tc_runs_def)

lemma tc_enter_ok [simp]: "table_ok (tc_symbols (tc_enter l tc))"
  by (simp add: frame_simps)

lemma tc_function_start_moves:
  "tc_moves (tc_enter (''fn:'' @ name) (tc\<lparr>tc_currentReturnType := retType, tc_hasReturn := False,
      tc_requiresReturn := (retType \<noteq> [])\<rparr>)) (tc_function_start name params retType tc)"
  unfolding tc_function_start_def by (rule tc_params_moves)

lemma tc_function_start_ok [simp]: "table_ok (tc_symbols (tc_function_start name params retType tc))"
  by (rule tc_moves_usable [OF tc_function_start_moves]) simp

lemma tc_function_end_moves:
  assumes "table.within (tc_symbols saved) (tc_symbols tc)"
    and "reported emit (ctx_diag (tc_ctx saved)) (ctx_diag (tc_ctx tc))"
  shows "tc_moves saved (tc_function_end name retType r saved tc)"
  using assms by (auto simp: tc_moves_def tc_function_end_def Let_def frame_simps intro: mono_intros)

lemma tc_function_runs:
  assumes "tc_runs (tc_function_start name params (typeNodeToString ret) tc)
      (case body of None \<Rightarrow> Some (tc_function_start name params (typeNodeToString ret) tc)
       | Some b \<Rightarrow> tc_stmt b (tc_function_start name params (typeNodeToString ret) tc))"
    and "table_ok (tc_symbols tc)"
  shows "tc_runs tc (tc_decl (FunctionDecl name params ret body isPub r) tc)"
proof -
  let ?retType = "typeNodeToString ret"
  let ?tc1 = "tc\<lparr>tc_currentReturnType := ?retType, tc_hasReturn := False,
      tc_requiresReturn := (?retType \<noteq> [])\<rparr>"
  let ?tc2 = "tc_function_start name params ?retType tc"
  from assms(1) obtain tc3 where
    b: "(case body of None \<Rightarrow> Some ?tc2 | Some b \<Rightarrow> tc_stmt b ?tc2) = Some tc3"
    and m3: "tc_moves ?tc2 tc3" by (auto simp: tc_runs_def)
  have "table_ok (tc_symbols ?tc1)" using assms(2) by simp
  from tc_moves_scope [OF tc_moves_trans [OF tc_function_start_moves m3] this]
  have l: "tc_leave tc3 = Some (tc3\<lparr>tc_symbols := tc_symbols tc\<rparr>)"
    and m4: "tc_moves ?tc1 (tc3\<lparr>tc_symbols := tc_symbols tc\<rparr>)" by simp_all
  have "tc_decl (FunctionDecl name params ret body isPub r) tc
      = Some (tc_function_end name ?retType r tc (tc3\<lparr>tc_symbols := tc_symbols tc\<rparr>))"
    unfolding tc_decl.simps Let_def b by (simp add: l)
  moreover have "tc_moves tc (tc_function_end name ?retType r tc (tc3\<lparr>tc_symbols := tc_symbols tc\<rparr>))"
    using m4 by (intro tc_function_end_moves) (simp_all add: tc_moves_def)
  ultimately show ?thesis by simp
qed

lemma tc_expr_symbols [simp]: "tc_symbols (tc_expr e tc) = tc_symbols tc"
  using tc_expr_frame [of tc e] by (simp add: tc_frame_def)

lemma tc_runs_expr: "tc_runs (tc_expr e tc) r \<Longrightarrow> tc_runs tc r"
  by (rule tc_runs_after [OF tc_moves_frame [OF tc_expr_frame]])

lemma tc_runs_seq:
  assumes "tc_runs tc m" "table_ok (tc_symbols tc)"
    and "\<And>a. m = Some a \<Longrightarrow> table_ok (tc_symbols a) \<Longrightarrow> tc_runs a (f a)"
  shows "tc_runs tc (Option.bind m f)"
  using assms by (force simp: tc_runs_def intro: tc_moves_trans tc_moves_usable)

lemma tc_stmt_runs: "table_ok (tc_symbols tc) \<Longrightarrow> tc_runs tc (tc_stmt st tc)"
  and tc_stmts_runs: "table_ok (tc_symbols tc) \<Longrightarrow> tc_runs tc (tc_stmts sts tc)"
  and tc_arms_runs: "table_ok (tc_symbols tc) \<Longrightarrow> tc_runs tc (tc_arms arms tc)"
  and tc_decl_runs: "table_ok (tc_symbols tc) \<Longrightarrow> tc_runs tc (tc_decl d tc)"
  and tc_decls_runs: "table_ok (tc_symbols tc) \<Longrightarrow> tc_runs tc (tc_decls ds tc)"
proof (induction st tc and sts tc and arms tc and d tc and ds tc
    rule: tc_stmt_tc_stmts_tc_arms_tc_decl_tc_decls.induct)
  case (1 ss r tc)
  then show ?case by (simp add: tc_runs_scope)
next
  case (3 c t e r tc)
  then have ok: "table_ok (tc_symbols (tc_expr c tc))" by simp
  have "tc_runs (tc_expr c tc)
      (do { tc1 \<leftarrow> tc_stmt t (tc_expr c tc); (case e of None \<Rightarrow> Some tc1 | Some s \<Rightarrow> tc_stmt s tc1) })"
    by (rule tc_runs_seq [OF 3(1) [OF ok] ok])
      (auto simp: 3(2) tc_moves_frame tc_frame_refl split: option.split)
  then show ?case by (simp add: tc_runs_expr)
next
  case (4 c b r tc)
  then show ?case by (auto intro: tc_runs_expr)
next
  case (5 c b r tc)
  then show ?case by (auto intro: tc_runs_expr)
next
  case (6 subject arms r tc)
  then show ?case by (auto intro: tc_runs_expr)
next
  case (7 var iter body r tc)
  let ?tc2 = "tc_define ((new_symbol var SkVariable)\<lparr>sym_typeName := ''<any>''\<rparr>) (tc_enter ''for'' tc)"
  have ok: "table_ok (tc_symbols ?tc2)" by (simp add: frame_simps)
  with 7 have "tc_runs (tc_expr iter ?tc2) (tc_stmt body (tc_expr iter ?tc2))" by simp
  then have "tc_runs ?tc2 (tc_stmt body (tc_expr iter ?tc2))" by (rule tc_runs_expr)
  then have "tc_runs (tc_enter ''for'' tc) (tc_stmt body (tc_expr iter ?tc2))"
    by (rule tc_runs_after [rotated]) (simp add: tc_moves_define tc_moves_frame tc_frame_refl)
  from tc_runs_scope [OF this 7(2)] show ?case by (simp add: Let_def)
next
  case (8 e r tc)
  then show ?case by (simp add: tc_moves_frame tc_expr_frame)
next
  case (13 s ss tc)
  then show ?case by (auto intro!: tc_runs_seq)
next
  case (15 p b arms tc)
  let ?tc1 = "case p of None \<Rightarrow> tc | Some e \<Rightarrow> tc_expr e tc"
  have m: "tc_moves tc ?tc1" by (auto simp: tc_moves_frame tc_frame_refl tc_expr_frame split: option.split)
  have ok: "table_ok (tc_symbols ?tc1)" using tc_moves_usable [OF m 15(3)] .
  have "tc_runs ?tc1 (do { tc1 \<leftarrow> tc_stmt b ?tc1; tc_arms arms tc1 })"
    by (rule tc_runs_seq [OF 15(1) [OF ok] ok]) (rule 15(2))
  then show ?case by (simp add: tc_runs_after [OF m])
next
  case (17 name params ret body isPub r tc)
  then show ?case
    by (intro tc_function_runs) (auto simp: tc_moves_frame tc_frame_refl split: option.split)
next
  case (24 d ds tc)
  then show ?case by (auto intro!: tc_runs_seq)
qed (simp_all add: tc_return_moves tc_var_moves tc_moves_frame tc_frame_refl)

text \<open>
  Type checking cannot abort: on a table with its global scope, \<open>check\<close> never pops that scope
  (the assertion of \<open>leaveScope\<close> holds at every call), every scope it opens is closed again, and all
  it does to the diagnostics is to report more.
\<close>

theorem tc_check_runs:
  assumes "table_ok symbols"
  shows "\<exists>tc'. tc_check m (new_type_checker ctx symbols) = Some tc'
    \<and> table.within symbols (tc_symbols tc') \<and> depth (tc_symbols tc') = depth symbols
    \<and> reported emit (ctx_diag ctx) (ctx_diag (tc_ctx tc'))"
proof -
  from tc_decl_runs [of "new_type_checker ctx symbols" m] assms obtain tc' where
    r: "tc_check m (new_type_checker ctx symbols) = Some tc'" "tc_moves (new_type_checker ctx symbols) tc'"
    by (auto simp: tc_runs_def tc_check_def new_type_checker_def)
  then have w: "table.within symbols (tc_symbols tc')"
    and "reported emit (ctx_diag ctx) (ctx_diag (tc_ctx tc'))"
    by (simp_all add: tc_moves_def new_type_checker_def)
  moreover have "depth (tc_symbols tc') = depth symbols"
    using table.within_leave [OF w assms] table.within_usable [OF w assms] assms
    by (cases symbols; cases "tc_symbols tc'") (auto simp: depth_def leaveScope_def table_ok_def split: if_splits)
  ultimately show ?thesis using r by blast
qed

theorem tc_check_runs_witness:
  "\<exists>tc'. tc_check (ModuleDecl ''m'' [FunctionDecl ''f'' [] None (Some (BlockStmt [] range_default)) True range_default]
      range_default) (new_type_checker (new_context default_options) new_table) = Some tc'
    \<and> depth (tc_symbols tc') = 0"
  using tc_check_runs [OF table_ok_new, of "ModuleDecl ''m'' [FunctionDecl ''f'' [] None
      (Some (BlockStmt [] range_default)) True range_default] range_default" "new_context default_options"]
  by (auto simp: depth_def new_table_def)


section \<open>Compatibility of type names\<close>

text \<open>
  \<open>typesCompatible\<close> is reflexive and symmetric, and identifies exactly the integer names with each
  other and the float names with each other; but it is not transitive, because an unannotated or
  unresolved type is compatible with everything.
\<close>

theorem typesCompatible_laws:
  "typesCompatible a a \<and> typesCompatible a b = typesCompatible b a
   \<and> (a \<noteq> [] \<longrightarrow> b \<noteq> [] \<longrightarrow> a \<noteq> ''<any>'' \<longrightarrow> b \<noteq> ''<any>'' \<longrightarrow>
        (typesCompatible a b \<longleftrightarrow> a = b \<or> (isIntName a \<and> isIntName b) \<or> (isFloatName a \<and> isFloatName b)))
   \<and> (typesCompatible ''i64'' ''<any>'' \<and> typesCompatible ''<any>'' ''str'' \<and> \<not> typesCompatible ''i64'' ''str'')"
proof -
  have "\<not> typesCompatible ''i64'' ''str''" by code_simp
  then show ?thesis by (auto simp: typesCompatible_def)
qed

theorem typesCompatible_laws_witness:
  "typesCompatible ''i64'' ''u8'' \<longleftrightarrow> isIntName ''i64'' \<and> isIntName ''u8'' \<or> isFloatName ''i64'' \<and> isFloatName ''u8''"
  using typesCompatible_laws [of "''i64''" "''u8''"] by (elim conjE) simp


section \<open>The documented type names\<close>

definition initializer_error :: "string \<Rightarrow> string \<Rightarrow> string \<Rightarrow> string" where
  "initializer_error x declared got =
     ''type mismatch in initializer for '' @ quoted x @ '': declared '' @ quoted declared @ '', got '' @ quoted got"

lemma documented_names:
  "\<not> typesCompatible ''int'' ''i64''" "\<not> typesCompatible ''float'' ''f64''" "\<not> typesCompatible ''string'' ''str''"
  "typesCompatible ''bool'' ''bool''"
  by code_simp+

lemma literal_initializer:
  assumes "tc_expr e tc = setExprType t tc" "t \<noteq> []" "declared \<noteq> []"
  shows "map_option tc_ctx (tc_decl (VarDecl vk x (Some (NamedTypeNode declared rt)) (Some e) r) tc)
    = Some (if typesCompatible declared t then tc_ctx tc else ctx_error (range_begin r) (initializer_error x declared t) (tc_ctx tc))"
  using assms
  by (simp add: tc_var_def typeNodeToString_def exprType_def setExprType_def initializer_error_def loc_of_def tc_error_def
      tc_define_def Let_def)

text \<open>
  C19. The built-in type names that the language reference gives to literals are not the names the checker gives them:
  \<open>int\<close>, \<open>float\<close> and \<open>string\<close> are rejected as the declared type of an integer, a float
  and a string literal, with exactly one error each (\<open>let age: int = 30\<close> does not compile), \<open>bool\<close> is
  accepted; and an operator between a variable of type \<open>int\<close> and an integer literal is an error, whatever the operator.
\<close>

theorem documented_types_rejected:
  assumes "lookup n (tc_symbols tc) = Some s" "sym_typeName s = ''int''"
  shows "(let checked = (\<lambda>name e. map_option tc_ctx (tc_decl (VarDecl vk x (Some (NamedTypeNode name rt)) (Some e) r) tc));
            rejected = (\<lambda>name got. Some (ctx_error (range_begin r) (initializer_error x name got) (tc_ctx tc)))
        in checked ''int'' (IntLiteralExpr i re) = rejected ''int'' ''i64''
         \<and> checked ''float'' (FloatLiteralExpr f re) = rejected ''float'' ''f64''
         \<and> checked ''string'' (StringLiteralExpr str re) = rejected ''string'' ''str''
         \<and> checked ''bool'' (BoolLiteralExpr b re) = Some (tc_ctx tc))
    \<and> tc_ctx (tc_expr (BinaryExpr op (IdentExpr n rn) (IntLiteralExpr i re) r) tc)
        = ctx_error (range_begin r) (''type mismatch in binary expression: '' @ quoted ''int'' @ '' vs '' @ quoted ''i64'') (tc_ctx tc)"
proof -
  have "tc_ctx (tc_expr (BinaryExpr op (IdentExpr n rn) (IntLiteralExpr i re) r) tc)
        = ctx_error (range_begin r) (''type mismatch in binary expression: '' @ quoted ''int'' @ '' vs '' @ quoted ''i64'') (tc_ctx tc)"
    using assms documented_names(1) by (simp add: exprType_def setExprType_def tc_error_def loc_of_def Let_def)
  then show ?thesis
    by (simp add: literal_initializer [where t = "''i64''"] literal_initializer [where t = "''f64''"]
        literal_initializer [where t = "''str''"] literal_initializer [where t = "''bool''"] documented_names Let_def del: tc_decl.simps)
qed

theorem documented_types_rejected_witness:
  "\<exists>tc'. tc_decl (VarDecl VkLet ''age'' (Some (NamedTypeNode ''int'' range_default)) (Some (IntLiteralExpr 30 range_default)) range_default)
      (tc_param \<lparr>param_name = ''n'', param_type = NamedTypeNode ''int'' range_default, param_isMut = False, param_range = range_default\<rparr>
        (new_type_checker (new_context default_options) new_table)) = Some tc'
    \<and> tc_ctx tc' = ctx_error (range_begin range_default) (initializer_error ''age'' ''int'' ''i64'') (new_context default_options)"
proof -
  let ?tc = "tc_param \<lparr>param_name = ''n'', param_type = NamedTypeNode ''int'' range_default, param_isMut = False, param_range = range_default\<rparr>
    (new_type_checker (new_context default_options) new_table)"
  have "map_option sym_typeName (lookup ''n'' (tc_symbols ?tc)) = Some ''int''" by code_simp
  then obtain s where "lookup ''n'' (tc_symbols ?tc) = Some s" "sym_typeName s = ''int''" by auto
  from documented_types_rejected [OF this, of VkLet "''age''" range_default range_default 30 range_default]
  show ?thesis by (auto simp: Let_def tc_param_def frame_simps new_type_checker_def simp del: tc_decl.simps)
qed


section \<open>The check for a missing return\<close>

text \<open>
  Whether a statement contains a \<open>return\<close> of the function it stands in: the returns of a function
  declared inside it do not count.
\<close>

fun has_return :: "Stmt \<Rightarrow> bool"
  and has_return_list :: "Stmt list \<Rightarrow> bool"
  and has_return_arms :: "MatchArm list \<Rightarrow> bool" where
  "has_return (ReturnStmt _ _) = True"
| "has_return (BlockStmt ss _) = has_return_list ss"
| "has_return (IfStmt _ t e _) = (has_return t \<or> (case e of None \<Rightarrow> False | Some s \<Rightarrow> has_return s))"
| "has_return (WhileStmt _ b _) = has_return b"
| "has_return (VloopStmt _ b _) = has_return b"
| "has_return (ForStmt _ _ b _) = has_return b"
| "has_return (MatchStmt _ arms _) = has_return_arms arms"
| "has_return _ = False"
| "has_return_list [] = False"
| "has_return_list (s # ss) = (has_return s \<or> has_return_list ss)"
| "has_return_arms [] = False"
| "has_return_arms (MatchArm _ b # arms) = (has_return b \<or> has_return_arms arms)"

lemma tc_expr_hasReturn [simp]: "tc_hasReturn (tc_expr e tc) = tc_hasReturn tc"
  using tc_expr_frame [of tc e] by (simp add: tc_frame_def)

lemma tc_leave_hasReturn: "tc_leave tc = Some tc' \<Longrightarrow> tc_hasReturn tc' = tc_hasReturn tc"
  by (auto simp: tc_leave_Some)

lemma tc_var_hasReturn: "tc_hasReturn (tc_var vk name type init r tc) = tc_hasReturn tc"
  by (cases init) (simp_all add: tc_var_def Let_def frame_simps)

lemma tc_return_hasReturn: "tc_hasReturn (tc_return v r tc) = True"
  by (cases v) (simp_all add: tc_return_def Let_def frame_simps)

lemma tc_stmt_hasReturn:
    "tc_stmt st tc = Some tc' \<Longrightarrow> tc_hasReturn tc' = (tc_hasReturn tc \<or> has_return st)"
  and tc_stmts_hasReturn:
    "tc_stmts sts tc = Some tc' \<Longrightarrow> tc_hasReturn tc' = (tc_hasReturn tc \<or> has_return_list sts)"
  and tc_arms_hasReturn:
    "tc_arms arms tc = Some tc' \<Longrightarrow> tc_hasReturn tc' = (tc_hasReturn tc \<or> has_return_arms arms)"
  and tc_decl_hasReturn: "tc_decl d tc = Some tc' \<Longrightarrow> tc_hasReturn tc' = tc_hasReturn tc"
  and tc_decls_hasReturn: "tc_decls ds tc = Some tc' \<Longrightarrow> tc_hasReturn tc' = tc_hasReturn tc"
proof (induction st tc and sts tc and arms tc and d tc and ds tc arbitrary: tc' and tc' and tc' and tc' and tc'
    rule: tc_stmt_tc_stmts_tc_arms_tc_decl_tc_decls.induct)
  case (1 ss r tc)
  then show ?case by (auto simp: bind_eq_Some_conv frame_simps dest: tc_leave_hasReturn)
next
  case (3 c t e r tc)
  from 3(3) obtain tc1 where t: "tc_stmt t (tc_expr c tc) = Some tc1"
    and e: "(case e of None \<Rightarrow> Some tc1 | Some s \<Rightarrow> tc_stmt s tc1) = Some tc'"
    by (auto simp: bind_eq_Some_conv)
  show ?case
  proof (cases e)
    case None
    with e 3(1) [OF t] show ?thesis by simp
  next
    case (Some s)
    with e 3(1) [OF t] 3(2) [OF t Some] show ?thesis by simp
  qed
next
  case (7 var iter body r tc)
  then show ?case by (auto simp: bind_eq_Some_conv Let_def frame_simps dest: tc_leave_hasReturn)
next
  case (13 s ss tc)
  from 13(3) obtain a where b: "tc_stmt s tc = Some a" "tc_stmts ss a = Some tc'"
    by (auto simp: bind_eq_Some_conv)
  from 13(1) [OF b(1)] 13(2) [OF b] show ?case by simp
next
  case (24 d ds tc)
  from 24(3) obtain a where b: "tc_decl d tc = Some a" "tc_decls ds a = Some tc'"
    by (auto simp: bind_eq_Some_conv)
  from 24(1) [OF b(1)] 24(2) [OF b] show ?case by simp
next
  case (15 p b arms tc)
  let ?tc1 = "case p of None \<Rightarrow> tc | Some e \<Rightarrow> tc_expr e tc"
  from 15(3) obtain a where b: "tc_stmt b ?tc1 = Some a" "tc_arms arms a = Some tc'"
    by (auto simp: bind_eq_Some_conv)
  have "tc_hasReturn ?tc1 = tc_hasReturn tc" by (cases p) simp_all
  with 15(1) [OF b(1)] 15(2) [OF b] show ?case by simp
next
  case (17 name params ret body isPub r tc)
  from 17(2) obtain tc4 where "tc' = tc_function_end name (typeNodeToString ret) r tc tc4"
    by (auto simp: bind_eq_Some_conv Let_def)
  then show ?case by (simp add: tc_function_end_def Let_def)
qed (auto simp: tc_return_hasReturn tc_var_hasReturn)

text \<open>
  C18. The missing-return check, exactly: after the body of a function has been checked, the error
  "must return a value" is added if the function declares a return type and its body contains no
  \<open>return\<close> at all, and nothing is added otherwise. A single \<open>return\<close> on some path, inside an \<open>if\<close> or
  a loop, is enough to silence it.
\<close>

theorem missing_return_exact:
  assumes "tc_decl (FunctionDecl name params ret (Some body) isPub r) tc = Some tc'"
    and "tc_stmt body (tc_function_start name params (typeNodeToString ret) tc) = Some tc3"
    and "table_ok (tc_symbols tc)"
  shows "eng_diagnostics (ctx_diag (tc_ctx tc')) = eng_diagnostics (ctx_diag (tc_ctx tc3))
    @ (if typeNodeToString ret \<noteq> [] \<and> \<not> has_return body
       then [make_diagnostic LevelError (range_begin r) (missing_return name (typeNodeToString ret))] else [])"
proof -
  let ?start = "tc_function_start name params (typeNodeToString ret) tc"
  from assms(1,2) obtain tc4 where l: "tc_leave tc3 = Some tc4"
    and tc': "tc' = tc_function_end name (typeNodeToString ret) r tc tc4"
    by (auto simp: bind_eq_Some_conv Let_def)
  have moves: "tc_moves (tc_enter (''fn:'' @ name) (tc\<lparr>tc_currentReturnType := typeNodeToString ret,
      tc_hasReturn := False, tc_requiresReturn := (typeNodeToString ret \<noteq> [])\<rparr>)) ?start"
    by (rule tc_function_start_moves)
  have params: "tc_hasReturn (fold tc_param ps t) = tc_hasReturn t" for ps t
    by (induction ps arbitrary: t) (simp_all add: tc_param_def frame_simps)
  have "tc_hasReturn ?start = False" by (simp add: tc_function_start_def params frame_simps)
  with tc_stmt_hasReturn [OF assms(2)] l have "tc_hasReturn tc4 = has_return body"
    by (simp add: tc_leave_hasReturn)
  moreover have "tc_requiresReturn tc4 = (typeNodeToString ret \<noteq> [])"
    using tc_stmt_runs [of ?start body] assms(2) moves l
    by (auto simp: tc_runs_def tc_moves_def frame_simps tc_leave_Some)
  moreover have "tc_ctx tc4 = tc_ctx tc3" using l by (auto simp: tc_leave_Some)
  ultimately show ?thesis
    by (simp add: tc' tc_function_end_def Let_def frame_simps report_error_def loc_of_def)
qed

theorem missing_return_exact_witness:
  "\<exists>tc'. tc_decl (FunctionDecl ''f'' [] (Some (NamedTypeNode ''i64'' range_default))
      (Some (IfStmt (BoolLiteralExpr True range_default)
        (ReturnStmt (Some (IntLiteralExpr 1 range_default)) range_default) None range_default)) True range_default)
      (new_type_checker (new_context default_options) new_table) = Some tc'
    \<and> eng_diagnostics (ctx_diag (tc_ctx tc')) = []"
proof -
  let ?tc = "new_type_checker (new_context default_options) new_table"
  let ?ret = "Some (NamedTypeNode ''i64'' range_default)"
  let ?body = "IfStmt (BoolLiteralExpr True range_default)
    (ReturnStmt (Some (IntLiteralExpr 1 range_default)) range_default) None range_default"
  have ok: "table_ok (tc_symbols ?tc)" by (simp add: new_type_checker_def)
  from tc_decl_runs [OF ok] obtain tc' where
    d: "tc_decl (FunctionDecl ''f'' [] ?ret (Some ?body) True range_default) ?tc = Some tc'"
    unfolding tc_runs_def by blast
  have "map_option (eng_diagnostics \<circ> ctx_diag \<circ> tc_ctx)
      (tc_stmt ?body (tc_function_start ''f'' [] (typeNodeToString ?ret) ?tc)) = Some []" by code_simp
  then obtain tc3 where b: "tc_stmt ?body (tc_function_start ''f'' [] (typeNodeToString ?ret) ?tc) = Some tc3"
    and e: "eng_diagnostics (ctx_diag (tc_ctx tc3)) = []" by auto
  from missing_return_exact [OF d b ok] e d show ?thesis by simp
qed

end
