(* ===== verification/Vcc_Semantic.thy ===== *)
theory Vcc_Semantic
  imports Vcc_TypeChecker
begin

text \<open>
  The semantic analyser (\<open>include/vcc/semantic/SemanticAnalyzer.h\<close>,
  \<open>src/semantic/SemanticAnalyzer.cpp\<close>): hoisting of the top-level declarations, name resolution, and
  the call of the type checker. The \<open>visit\<close> methods are the equations of \<open>sa_expr\<close>, \<open>sa_stmt\<close> and
  \<open>sa_decl\<close>; a class without an override (\<open>IndexExpr\<close> and \<open>CastExpr\<close> among the expressions) is not
  visited. \<open>None\<close> is a failed assertion of \<open>leaveScope\<close>. The static semantics
  of names that it refines is in Vcc_Semantic_Props.
\<close>

record SemanticAnalyzer =
  sa_ctx :: CompilerContext
  sa_symbols :: SymbolTable
  sa_currentFunction :: string

definition new_analyzer :: "CompilerContext \<Rightarrow> SemanticAnalyzer" where
  "new_analyzer ctx = \<lparr>sa_ctx = ctx, sa_symbols = new_table, sa_currentFunction = []\<rparr>"

definition sa_error :: "SourceLocation \<Rightarrow> string \<Rightarrow> SemanticAnalyzer \<Rightarrow> SemanticAnalyzer" where
  "sa_error loc msg sa = sa\<lparr>sa_ctx := ctx_error loc msg (sa_ctx sa)\<rparr>"

definition sa_warning :: "SourceLocation \<Rightarrow> string \<Rightarrow> SemanticAnalyzer \<Rightarrow> SemanticAnalyzer" where
  "sa_warning loc msg sa = sa\<lparr>sa_ctx := ctx_warning loc msg (sa_ctx sa)\<rparr>"

definition sa_note :: "SourceLocation \<Rightarrow> string \<Rightarrow> SemanticAnalyzer \<Rightarrow> SemanticAnalyzer" where
  "sa_note loc msg sa = sa\<lparr>sa_ctx := (sa_ctx sa)\<lparr>ctx_diag := report_note loc msg (ctx_diag (sa_ctx sa))\<rparr>\<rparr>"

definition sa_define :: "Symbol \<Rightarrow> SemanticAnalyzer \<Rightarrow> bool \<times> SemanticAnalyzer" where
  "sa_define s sa =
     (let (inserted, tbl) = define_symbol s (sa_symbols sa) in (inserted, sa\<lparr>sa_symbols := tbl\<rparr>))"

definition sa_enter :: "string \<Rightarrow> SemanticAnalyzer \<Rightarrow> SemanticAnalyzer" where
  "sa_enter label sa = sa\<lparr>sa_symbols := enterScope label (sa_symbols sa)\<rparr>"

definition sa_leave :: "SemanticAnalyzer \<Rightarrow> SemanticAnalyzer option" where
  "sa_leave sa = map_option (\<lambda>tbl. sa\<lparr>sa_symbols := tbl\<rparr>) (leaveScope (sa_symbols sa))"

text \<open>
  The pattern of the redefinition checks: define, and if the name is taken report an error and a
  note at the earlier declaration when that has a valid location.
\<close>

definition sa_define_or_report ::
    "Symbol \<Rightarrow> SourceLocation \<Rightarrow> string \<Rightarrow> string \<Rightarrow> SemanticAnalyzer \<Rightarrow> SemanticAnalyzer" where
  "sa_define_or_report s loc msg note_msg sa =
     (let (inserted, sa1) = sa_define s sa in
      if inserted then sa1
      else (let prev = lookupCurrent (sym_name s) (sa_symbols sa1);
                sa2 = sa_error loc msg sa1
            in case prev of
                 Some p \<Rightarrow> if location_isValid (sym_declLoc p) then sa_note (sym_declLoc p) note_msg sa2 else sa2
               | None \<Rightarrow> sa2))"


section \<open>Expressions\<close>

text \<open>\<open>visit(CallExpr)\<close> for a callee that is an identifier.\<close>

definition sa_check_callee :: "string \<Rightarrow> SourceRange \<Rightarrow> SourceRange \<Rightarrow> nat \<Rightarrow> SemanticAnalyzer \<Rightarrow> SemanticAnalyzer" where
  "sa_check_callee name callee_range r nargs sa =
     (case lookup name (sa_symbols sa) of
        None \<Rightarrow> sa_error (range_begin callee_range) (''call to undeclared function '' @ quoted name) sa
      | Some s \<Rightarrow>
          if sym_kind s \<noteq> SkFunction then
            sa_error (range_begin callee_range) (quoted name @ '' is not a function'') sa
          else if sym_typeName s \<noteq> ''<any>'' \<and> sym_paramTypes s \<noteq> [] \<and> length (sym_paramTypes s) \<noteq> nargs then
            sa_error (range_begin r) (''wrong number of arguments to '' @ quoted name @ '': expected ''
              @ nat_to_string (length (sym_paramTypes s)) @ '', got '' @ nat_to_string nargs) sa
          else sa)"

text \<open>\<open>visit(AssignExpr)\<close> for a target that is an identifier, before the operands are visited.\<close>

definition sa_check_assign :: "string \<Rightarrow> SourceRange \<Rightarrow> SemanticAnalyzer \<Rightarrow> SemanticAnalyzer" where
  "sa_check_assign name r sa =
     (case lookup name (sa_symbols sa) of
        None \<Rightarrow> snd (sa_define ((new_symbol name SkVariable)
            \<lparr>sym_isMut := True, sym_declLoc := range_begin r, sym_typeName := ''<inferred>''\<rparr>) sa)
      | Some s \<Rightarrow>
          if sym_kind s = SkConstant then
            (let sa1 = sa_error (range_begin r)
                  (''cannot assign to '' @ quoted name @ '': declared as '' @ quoted ''const'') sa
             in if location_isValid (sym_declLoc s)
                then sa_note (sym_declLoc s) (quoted name @ '' declared const here'') sa1 else sa1)
          else if sym_kind s = SkVariable \<and> \<not> sym_isMut s then
            (let sa1 = sa_error (range_begin r)
                  (''cannot assign to '' @ quoted name @ '': declared as immutable '' @ quoted ''let''
                   @ ''; use '' @ quoted ''var'' @ '' for a mutable binding'') sa
             in if location_isValid (sym_declLoc s)
                then sa_note (sym_declLoc s) (quoted name @ '' declared here'') sa1 else sa1)
          else if sym_kind s = SkFunction then
            sa_error (range_begin r) (''cannot assign to function '' @ quoted name) sa
          else sa)"

fun sa_expr :: "Expr \<Rightarrow> SemanticAnalyzer \<Rightarrow> SemanticAnalyzer"
  and sa_exprs :: "Expr list \<Rightarrow> SemanticAnalyzer \<Rightarrow> SemanticAnalyzer" where
  "sa_expr (IdentExpr name r) sa =
     (if lookup name (sa_symbols sa) = None then
        sa_error (range_begin r) (''use of undeclared identifier '' @ quoted name) sa
      else sa)"
| "sa_expr (CallExpr callee args r) sa =
     (let sa1 = (case callee of
             IdentExpr name cr \<Rightarrow> sa_check_callee name cr r (length args) sa
           | _ \<Rightarrow> sa_expr callee sa)
      in sa_exprs args sa1)"
| "sa_expr (BinaryExpr op lhs rhs r) sa = sa_expr rhs (sa_expr lhs sa)"
| "sa_expr (UnaryExpr op operand r) sa = sa_expr operand sa"
| "sa_expr (AssignExpr op target v r) sa =
     (let sa1 = (case target of
             IdentExpr name _ \<Rightarrow> sa_check_assign name r sa
           | _ \<Rightarrow> sa)
      in sa_expr v (sa_expr target sa1))"
| "sa_expr (MemberExpr obj member r) sa = sa_expr obj sa"
| "sa_expr (ArrayLiteralExpr elements r) sa = sa_exprs elements sa"
| "sa_expr (IndexExpr _ _ _) sa = sa"
| "sa_expr (CastExpr _ _ _) sa = sa"
| "sa_expr (IntLiteralExpr _ _) sa = sa"
| "sa_expr (FloatLiteralExpr _ _) sa = sa"
| "sa_expr (StringLiteralExpr _ _) sa = sa"
| "sa_expr (CharLiteralExpr _ _) sa = sa"
| "sa_expr (BoolLiteralExpr _ _) sa = sa"
| "sa_expr (NilLiteralExpr _) sa = sa"
| "sa_exprs [] sa = sa"
| "sa_exprs (e # es) sa = sa_exprs es (sa_expr e sa)"


section \<open>Statements and declarations\<close>

definition sa_param :: "ParameterDecl \<Rightarrow> SemanticAnalyzer \<Rightarrow> SemanticAnalyzer" where
  "sa_param p sa =
     sa_define_or_report
       ((new_symbol (param_name p) SkParameter)\<lparr>sym_isMut := param_isMut p,
          sym_typeName := typeNodeName (param_type p), sym_declLoc := range_begin (param_range p)\<rparr>)
       (range_begin (param_range p)) (''duplicate parameter '' @ quoted (param_name p))
       (quoted (param_name p) @ '' previously declared here'') sa"

definition sa_var :: "VarKind \<Rightarrow> string \<Rightarrow> TypeNode option \<Rightarrow> Expr option \<Rightarrow> SourceRange
    \<Rightarrow> SemanticAnalyzer \<Rightarrow> SemanticAnalyzer" where
  "sa_var vk name type init r sa =
     (let sa1 = (case init of Some e \<Rightarrow> sa_expr e sa | None \<Rightarrow> sa)
      in sa_define_or_report
           ((new_symbol name (if vk = VkConst then SkConstant else SkVariable))
              \<lparr>sym_isMut := (vk = VkVar), sym_typeName := typeNodeToString type, sym_declLoc := range_begin r\<rparr>)
           (range_begin r) (''redefinition of '' @ quoted name)
           (quoted name @ '' previously declared here'') sa1)"

definition sa_import :: "string \<Rightarrow> string option \<Rightarrow> SourceRange \<Rightarrow> SemanticAnalyzer \<Rightarrow> SemanticAnalyzer" where
  "sa_import path alias r sa =
     (let name = (case alias of Some a \<Rightarrow> a | None \<Rightarrow> path);
          (inserted, sa1) = sa_define ((new_symbol name SkModule)\<lparr>sym_declLoc := range_begin r\<rparr>) sa
      in if inserted then sa1
         else sa_warning (range_begin r) (''duplicate import '' @ quoted path) sa1)"

definition sa_return :: "Expr option \<Rightarrow> SourceRange \<Rightarrow> SemanticAnalyzer \<Rightarrow> SemanticAnalyzer" where
  "sa_return v r sa =
     (if sa_currentFunction sa = [] then
        sa_error (range_begin r) (quoted ''return'' @ '' outside of a function'') sa
      else (case v of Some e \<Rightarrow> sa_expr e sa | None \<Rightarrow> sa))"

fun sa_stmt :: "Stmt \<Rightarrow> SemanticAnalyzer \<Rightarrow> SemanticAnalyzer option"
  and sa_stmts :: "Stmt list \<Rightarrow> SemanticAnalyzer \<Rightarrow> SemanticAnalyzer option"
  and sa_arms :: "MatchArm list \<Rightarrow> SemanticAnalyzer \<Rightarrow> SemanticAnalyzer option"
  and sa_decl :: "Decl \<Rightarrow> SemanticAnalyzer \<Rightarrow> SemanticAnalyzer option"
  and sa_decls :: "Decl list \<Rightarrow> SemanticAnalyzer \<Rightarrow> SemanticAnalyzer option" where
  "sa_stmt (BlockStmt ss _) sa = do { sa1 \<leftarrow> sa_stmts ss (sa_enter ''block'' sa); sa_leave sa1 }"
| "sa_stmt (IfStmt c t e _) sa =
     do { sa1 \<leftarrow> sa_stmt t (sa_expr c sa);
          (case e of None \<Rightarrow> Some sa1 | Some s \<Rightarrow> sa_stmt s sa1) }"
| "sa_stmt (WhileStmt c b _) sa = sa_stmt b (sa_expr c sa)"
| "sa_stmt (VloopStmt c b _) sa = sa_stmt b (sa_expr c sa)"
| "sa_stmt (MatchStmt subject arms _) sa = sa_arms arms (sa_expr subject sa)"
| "sa_stmt (ForStmt var iter body r) sa =
     (let sa1 = snd (sa_define ((new_symbol var SkVariable)\<lparr>sym_declLoc := range_begin r\<rparr>) (sa_enter ''for'' sa))
      in do { sa2 \<leftarrow> sa_stmt body (sa_expr iter sa1); sa_leave sa2 })"
| "sa_stmt (ReturnStmt v r) sa = Some (sa_return v r sa)"
| "sa_stmt (ExprStmt e _) sa = Some (sa_expr e sa)"
| "sa_stmt (DeclStmt d _) sa = sa_decl d sa"
| "sa_stmt (BreakStmt _) sa = Some sa"
| "sa_stmt (ContinueStmt _) sa = Some sa"
| "sa_stmts [] sa = Some sa"
| "sa_stmts (s # ss) sa = do { sa1 \<leftarrow> sa_stmt s sa; sa_stmts ss sa1 }"
| "sa_arms [] sa = Some sa"
| "sa_arms (MatchArm p b # arms) sa =
     do { sa1 \<leftarrow> sa_stmt b (case p of None \<Rightarrow> sa | Some e \<Rightarrow> sa_expr e sa); sa_arms arms sa1 }"
| "sa_decl (ModuleDecl _ decls _) sa = sa_decls decls sa"
| "sa_decl (ImportDecl path alias r) sa = Some (sa_import path alias r sa)"
| "sa_decl (FunctionDecl name params ret body isPub r) sa =
     (let sa1 = fold sa_param params (sa_enter (''fn:'' @ name) (sa\<lparr>sa_currentFunction := name\<rparr>))
      in do { sa2 \<leftarrow> (case body of None \<Rightarrow> Some sa1 | Some b \<Rightarrow> sa_stmt b sa1);
              sa3 \<leftarrow> sa_leave sa2;
              Some (sa3\<lparr>sa_currentFunction := sa_currentFunction sa\<rparr>) })"
| "sa_decl (StructDecl _ _ _ _) sa = Some sa"
| "sa_decl (EnumDecl _ _ _ _) sa = Some sa"
| "sa_decl (TypeAliasDecl _ _ _ _) sa = Some sa"
| "sa_decl (VarDecl vk name type init r) sa = Some (sa_var vk name type init r sa)"
| "sa_decls [] sa = Some sa"
| "sa_decls (d # ds) sa = do { sa1 \<leftarrow> sa_decl d sa; sa_decls ds sa1 }"


section \<open>The passes\<close>

definition declareBuiltin :: "string \<Rightarrow> SemanticAnalyzer \<Rightarrow> SemanticAnalyzer" where
  "declareBuiltin name sa =
     snd (sa_define ((new_symbol name SkFunction)\<lparr>sym_returnType := ''<any>'', sym_typeName := ''<any>''\<rparr>) sa)"

definition builtin_names :: "string list" where
  "builtin_names = [''print'', ''println'', ''eprint'', ''eprintln'', ''len'', ''sizeof'', ''exit'', ''escape'', ''wait'']"

text \<open>Pass 1 for one top-level declaration.\<close>

fun sa_hoist :: "Decl \<Rightarrow> SemanticAnalyzer \<Rightarrow> SemanticAnalyzer" where
  "sa_hoist (FunctionDecl name params ret body isPub r) sa =
     sa_define_or_report
       ((new_symbol name SkFunction)\<lparr>sym_isPub := isPub, sym_returnType := typeNodeToString ret,
          sym_typeName := typeNodeToString ret, sym_declLoc := range_begin r,
          sym_paramTypes := map (typeNodeName \<circ> param_type) params\<rparr>)
       (range_begin r) (''redefinition of function '' @ quoted name)
       (quoted name @ '' first defined here'') sa"
| "sa_hoist (StructDecl name flds isPub r) sa =
     (let (inserted, sa1) = sa_define ((new_symbol name SkType)\<lparr>sym_isPub := isPub, sym_declLoc := range_begin r\<rparr>) sa
      in if inserted then sa1 else sa_error (range_begin r) (''redefinition of type '' @ quoted name) sa1)"
| "sa_hoist (EnumDecl name vars isPub r) sa =
     (let (inserted, sa1) = sa_define ((new_symbol name SkType)\<lparr>sym_isPub := isPub, sym_declLoc := range_begin r\<rparr>) sa
      in if inserted then sa1 else sa_error (range_begin r) (''redefinition of type '' @ quoted name) sa1)"
| "sa_hoist _ sa = sa"

fun module_decls :: "Decl \<Rightarrow> Decl list" where
  "module_decls (ModuleDecl _ decls _) = decls"
| "module_decls _ = []"

definition analyze :: "Decl \<Rightarrow> SemanticAnalyzer \<Rightarrow> (bool \<times> SemanticAnalyzer) option" where
  "analyze m sa =
     (let errsBefore = errorCount (ctx_diag (sa_ctx sa));
          sa1 = fold declareBuiltin builtin_names sa;
          sa2 = fold sa_hoist (module_decls m) sa1
      in do { sa3 \<leftarrow> sa_decl m sa2;
              tc \<leftarrow> tc_check m (new_type_checker (sa_ctx sa3) (sa_symbols sa3));
              (let sa4 = sa3\<lparr>sa_ctx := tc_ctx tc, sa_symbols := tc_symbols tc\<rparr>
               in Some (errorCount (ctx_diag (sa_ctx sa4)) = errsBefore, sa4)) })"

end
