(* ===== verification/Vcc_Semantic_Props.thy ===== *)
theory Vcc_Semantic_Props
  imports Vcc_Semantic "HOL-Library.Sublist"
begin

text \<open>
  Name resolution against a static semantics of names. An environment says what each visible name
  stands for (its kind, and whether it may be assigned) and which names the current scope already
  declares. \<open>scoped_expr\<close>, \<open>scoped_stmt\<close> and \<open>scoped_decl\<close> thread it through the syntax tree and are
  undefined when a name is used before it is declared or a constant, an immutable binding or a
  function is assigned. The analyser refines them: it goes on after a fault, so it relates to the
  judgement through the number of scoping faults it has reported.
\<close>

type_synonym names = "(string \<rightharpoonup> SymbolKind \<times> bool) \<times> string set"

definition declare_name :: "string \<Rightarrow> SymbolKind \<times> bool \<Rightarrow> names \<Rightarrow> names" where
  "declare_name x k E = (if x \<in> snd E then E else ((fst E)(x \<mapsto> k), insert x (snd E)))"

definition open_scope :: "names \<Rightarrow> names" where
  "open_scope E = (fst E, {})"

definition assignable :: "SymbolKind \<times> bool \<Rightarrow> bool" where
  "assignable k \<longleftrightarrow> fst k \<noteq> SkConstant \<and> fst k \<noteq> SkFunction \<and> (fst k = SkVariable \<longrightarrow> snd k)"

definition use_name :: "string \<Rightarrow> names \<Rightarrow> names option" where
  "use_name x E = (if fst E x = None then None else Some E)"

definition assign_name :: "string \<Rightarrow> names \<Rightarrow> names option" where
  "assign_name x E =
     (case fst E x of
        None \<Rightarrow> Some (declare_name x (SkVariable, True) E)
      | Some k \<Rightarrow> if assignable k then Some E else None)"

text \<open>The operands of an index or a cast are not looked at, as in the code.\<close>

fun scoped_expr :: "Expr \<Rightarrow> names \<Rightarrow> names option"
  and scoped_exprs :: "Expr list \<Rightarrow> names \<Rightarrow> names option" where
  "scoped_expr (IdentExpr x _) E = use_name x E"
| "scoped_expr (CallExpr callee args _) E =
     do { E1 \<leftarrow> scoped_expr callee E; scoped_exprs args E1 }"
| "scoped_expr (BinaryExpr _ lhs rhs _) E = do { E1 \<leftarrow> scoped_expr lhs E; scoped_expr rhs E1 }"
| "scoped_expr (UnaryExpr _ operand _) E = scoped_expr operand E"
| "scoped_expr (AssignExpr _ target v _) E =
     do { E1 \<leftarrow> (case target of IdentExpr x _ \<Rightarrow> assign_name x E | _ \<Rightarrow> scoped_expr target E);
          scoped_expr v E1 }"
| "scoped_expr (MemberExpr obj _ _) E = scoped_expr obj E"
| "scoped_expr (ArrayLiteralExpr elements _) E = scoped_exprs elements E"
| "scoped_expr _ E = Some E"
| "scoped_exprs [] E = Some E"
| "scoped_exprs (e # es) E = do { E1 \<leftarrow> scoped_expr e E; scoped_exprs es E1 }"

definition scoped_opt :: "Expr option \<Rightarrow> names \<Rightarrow> names option" where
  "scoped_opt e E = (case e of None \<Rightarrow> Some E | Some e \<Rightarrow> scoped_expr e E)"

definition var_kind :: "VarKind \<Rightarrow> SymbolKind \<times> bool" where
  "var_kind vk = (if vk = VkConst then SkConstant else SkVariable, vk = VkVar)"

definition declare_params :: "ParameterDecl list \<Rightarrow> names \<Rightarrow> names" where
  "declare_params ps = fold (\<lambda>p. declare_name (param_name p) (SkParameter, param_isMut p)) ps"

text \<open>
  The flag tells whether the statement stands in a function (with a name that is not empty): outside
  of one the value of a \<open>return\<close> is not looked at.
\<close>

fun scoped_stmt :: "bool \<Rightarrow> Stmt \<Rightarrow> names \<Rightarrow> names option"
  and scoped_stmts :: "bool \<Rightarrow> Stmt list \<Rightarrow> names \<Rightarrow> names option"
  and scoped_arms :: "bool \<Rightarrow> MatchArm list \<Rightarrow> names \<Rightarrow> names option"
  and scoped_decl :: "bool \<Rightarrow> Decl \<Rightarrow> names \<Rightarrow> names option"
  and scoped_decls :: "bool \<Rightarrow> Decl list \<Rightarrow> names \<Rightarrow> names option" where
  "scoped_stmt f (BlockStmt ss _) E = do { E1 \<leftarrow> scoped_stmts f ss (open_scope E); Some E }"
| "scoped_stmt f (IfStmt c t e _) E =
     do { E1 \<leftarrow> scoped_expr c E;
          E2 \<leftarrow> scoped_stmt f t E1;
          (case e of None \<Rightarrow> Some E2 | Some s \<Rightarrow> scoped_stmt f s E2) }"
| "scoped_stmt f (WhileStmt c b _) E = do { E1 \<leftarrow> scoped_expr c E; scoped_stmt f b E1 }"
| "scoped_stmt f (VloopStmt c b _) E = do { E1 \<leftarrow> scoped_expr c E; scoped_stmt f b E1 }"
| "scoped_stmt f (MatchStmt subject arms _) E = do { E1 \<leftarrow> scoped_expr subject E; scoped_arms f arms E1 }"
| "scoped_stmt f (ForStmt x iter body _) E =
     do { E1 \<leftarrow> scoped_expr iter (declare_name x (SkVariable, False) (open_scope E));
          E2 \<leftarrow> scoped_stmt f body E1; Some E }"
| "scoped_stmt f (ReturnStmt v _) E = (if f then scoped_opt v E else Some E)"
| "scoped_stmt f (ExprStmt e _) E = scoped_expr e E"
| "scoped_stmt f (DeclStmt d _) E = scoped_decl f d E"
| "scoped_stmt f (BreakStmt _) E = Some E"
| "scoped_stmt f (ContinueStmt _) E = Some E"
| "scoped_stmts f [] E = Some E"
| "scoped_stmts f (s # ss) E = do { E1 \<leftarrow> scoped_stmt f s E; scoped_stmts f ss E1 }"
| "scoped_arms f [] E = Some E"
| "scoped_arms f (MatchArm p b # arms) E =
     do { E1 \<leftarrow> scoped_opt p E; E2 \<leftarrow> scoped_stmt f b E1; scoped_arms f arms E2 }"
| "scoped_decl f (ModuleDecl _ decls _) E = scoped_decls f decls E"
| "scoped_decl f (ImportDecl path alias _) E =
     Some (declare_name (case alias of Some a \<Rightarrow> a | None \<Rightarrow> path) (SkModule, False) E)"
| "scoped_decl f (FunctionDecl name params _ body _ _) E =
     (case body of
        None \<Rightarrow> Some E
      | Some b \<Rightarrow> do { E1 \<leftarrow> scoped_stmt (name \<noteq> []) b (declare_params params (open_scope E)); Some E })"
| "scoped_decl f (VarDecl vk name _ init _) E =
     do { E1 \<leftarrow> scoped_opt init E; Some (declare_name name (var_kind vk) E1) }"
| "scoped_decl f (StructDecl _ _ _ _) E = Some E"
| "scoped_decl f (EnumDecl _ _ _ _) E = Some E"
| "scoped_decl f (TypeAliasDecl _ _ _ _) E = Some E"
| "scoped_decls f [] E = Some E"
| "scoped_decls f (d # ds) E = do { E1 \<leftarrow> scoped_decl f d E; scoped_decls f ds E1 }"


section \<open>The faults the analyser reports\<close>

definition scoping_message :: "string \<Rightarrow> bool" where
  "scoping_message msg \<longleftrightarrow> prefix ''use of undeclared identifier '' msg
     \<or> prefix ''call to undeclared function '' msg \<or> prefix ''cannot assign to '' msg"

definition scoping_fault :: "Diagnostic \<Rightarrow> bool" where
  "scoping_fault d \<longleftrightarrow> diag_level d = LevelError \<and> scoping_message (diag_message d)"

definition faults :: "SemanticAnalyzer \<Rightarrow> nat" where
  "faults sa = length (filter scoping_fault (eng_diagnostics (ctx_diag (sa_ctx sa))))"

text \<open>What the symbol table says about the visible names.\<close>

definition names_of :: "SemanticAnalyzer \<Rightarrow> names" where
  "names_of sa =
     (\<lambda>x. map_option (\<lambda>s. (sym_kind s, sym_isMut s)) (lookup x (sa_symbols sa)),
      {x. lookupCurrent x (sa_symbols sa) \<noteq> None})"

lemma sa_report_simps [frame_simps]:
  "sa_symbols (sa_error loc msg sa) = sa_symbols sa"
  "sa_symbols (sa_note loc msg sa) = sa_symbols sa"
  "sa_symbols (sa_warning loc msg sa) = sa_symbols sa"
  "sa_currentFunction (sa_error loc msg sa) = sa_currentFunction sa"
  "sa_currentFunction (sa_note loc msg sa) = sa_currentFunction sa"
  "sa_currentFunction (sa_warning loc msg sa) = sa_currentFunction sa"
  "faults (sa_error loc msg sa) = faults sa + (if scoping_message msg then 1 else 0)"
  "faults (sa_note loc msg sa) = faults sa"
  "faults (sa_warning loc msg sa) = faults sa"
  "names_of (sa_error loc msg sa) = names_of sa"
  "names_of (sa_note loc msg sa) = names_of sa"
  "names_of (sa_warning loc msg sa) = names_of sa"
  "ctx_diag (sa_ctx (sa_error loc msg sa)) = report_error loc msg (ctx_diag (sa_ctx sa))"
  "ctx_diag (sa_ctx (sa_warning loc msg sa)) = report_warning loc msg (ctx_diag (sa_ctx sa))"
  "ctx_diag (sa_ctx (sa_note loc msg sa)) = report_note loc msg (ctx_diag (sa_ctx sa))"
  by (simp_all add: sa_error_def sa_note_def sa_warning_def faults_def names_of_def scoping_fault_def
      report_error_def report_note_def report_warning_def make_diagnostic_def)

lemma sa_define_simps [frame_simps]:
  "fst (sa_define s sa) = fst (define_symbol s (sa_symbols sa))"
  "sa_symbols (snd (sa_define s sa)) = snd (define_symbol s (sa_symbols sa))"
  "sa_ctx (snd (sa_define s sa)) = sa_ctx sa"
  "sa_currentFunction (snd (sa_define s sa)) = sa_currentFunction sa"
  "faults (snd (sa_define s sa)) = faults sa"
  by (simp_all add: sa_define_def faults_def split_beta)

lemma sa_enter_simps [frame_simps]:
  "sa_symbols (sa_enter l sa) = enterScope l (sa_symbols sa)"
  "sa_ctx (sa_enter l sa) = sa_ctx sa"
  "sa_currentFunction (sa_enter l sa) = sa_currentFunction sa"
  "faults (sa_enter l sa) = faults sa"
  "names_of (sa_enter l sa) = open_scope (names_of sa)"
  by (simp_all add: sa_enter_def faults_def names_of_def open_scope_def enterScope_def new_scope_def scope_lookup_def)

definition sa_ok :: "SemanticAnalyzer \<Rightarrow> bool" where
  "sa_ok sa \<longleftrightarrow> table_ok (sa_symbols sa)"

lemma names_of_define:
  assumes "sa_ok sa"
  shows "names_of (snd (sa_define s sa)) = declare_name (sym_name s) (sym_kind s, sym_isMut s) (names_of sa)"
proof (cases "lookupCurrent (sym_name s) (sa_symbols sa)")
  case None
  note d = table.define_find [OF assms [unfolded sa_ok_def] None]
    table.define_find_here [OF assms [unfolded sa_ok_def] None]
  from None show ?thesis by (auto simp: names_of_def declare_name_def frame_simps d)
next
  case (Some v)
  then have "snd (define_symbol s (sa_symbols sa)) = sa_symbols sa"
    using table.define_old [OF assms [unfolded sa_ok_def]] by simp
  with Some show ?thesis by (simp add: names_of_def declare_name_def frame_simps)
qed


section \<open>The simulation\<close>

text \<open>
  A step of the analyser from \<open>sa\<close> to \<open>sa'\<close> against the result of the judgement: it defines names and
  opens and closes scopes, reports, and either the judgement is defined, no fault was added and the
  environments agree, or it is not and a fault was added.
\<close>

definition sa_moves :: "SemanticAnalyzer \<Rightarrow> SemanticAnalyzer \<Rightarrow> bool" where
  "sa_moves sa sa' \<longleftrightarrow> table.within (sa_symbols sa) (sa_symbols sa')
     \<and> sa_currentFunction sa' = sa_currentFunction sa
     \<and> reported emit (ctx_diag (sa_ctx sa)) (ctx_diag (sa_ctx sa'))"

definition follows :: "SemanticAnalyzer \<Rightarrow> SemanticAnalyzer \<Rightarrow> names option \<Rightarrow> bool" where
  "follows sa sa' r \<longleftrightarrow> sa_moves sa sa' \<and> faults sa \<le> faults sa'
     \<and> (case r of None \<Rightarrow> faults sa < faults sa' | Some E \<Rightarrow> faults sa' = faults sa \<and> names_of sa' = E)"

lemma sa_moves_refl: "sa_moves sa sa"
  by (simp add: sa_moves_def table.within.here reported_refl)

lemma sa_moves_trans: "sa_moves sa sa1 \<Longrightarrow> sa_moves sa1 sa2 \<Longrightarrow> sa_moves sa sa2"
  by (auto simp: sa_moves_def intro: reported_trans table.within_trans)

lemma sa_moves_ok: "sa_moves sa sa' \<Longrightarrow> sa_ok sa \<Longrightarrow> sa_ok sa'"
  by (auto simp: sa_moves_def sa_ok_def intro: table.within_usable)

lemma sa_moves_report:
  "sa_moves sa sa1 \<Longrightarrow> sa_moves sa (sa_error loc msg sa1)"
  "sa_moves sa sa1 \<Longrightarrow> sa_moves sa (sa_note loc msg sa1)"
  "sa_moves sa sa1 \<Longrightarrow> sa_moves sa (sa_warning loc msg sa1)"
  by (auto simp: sa_moves_def frame_simps intro: mono_intros)

lemma sa_moves_define: "sa_moves sa sa1 \<Longrightarrow> sa_moves sa (snd (sa_define s sa1))"
  by (auto simp: sa_moves_def frame_simps intro: table.within.define_one)

lemma follows_ok: "follows sa sa' r \<Longrightarrow> sa_ok sa \<Longrightarrow> sa_ok sa'"
  by (auto simp: follows_def intro: sa_moves_ok)

lemma follows_refl: "follows sa sa (Some (names_of sa))"
  by (simp add: follows_def sa_moves_refl)

lemma follows_seq:
  "follows sa sa1 r \<Longrightarrow> follows sa1 sa2 (f (names_of sa1)) \<Longrightarrow> follows sa sa2 (Option.bind r f)"
  by (cases r) (auto simp: follows_def intro: sa_moves_trans split: option.splits)

lemma follows_step:
  "follows sa sa1 (Some E) \<Longrightarrow> follows sa1 sa2 r \<Longrightarrow> follows sa sa2 r"
  by (cases r) (auto simp: follows_def intro: sa_moves_trans)

text \<open>The non-recursive handlers.\<close>

lemma use_follows:
  "follows sa (if lookup name (sa_symbols sa) = None
      then sa_error loc (''use of undeclared identifier '' @ quoted name) sa else sa) (use_name name (names_of sa))"
  by (simp add: follows_def use_name_def names_of_def frame_simps scoping_message_def sa_moves_refl sa_moves_report)

lemma sa_check_callee_follows:
  "follows sa (sa_check_callee name cr r n sa) (use_name name (names_of sa))"
  by (auto simp: follows_def use_name_def sa_check_callee_def frame_simps scoping_message_def quoted_def
      sa_moves_refl sa_moves_report names_of_def split: option.split)

lemma sa_check_assign_follows:
  "sa_ok sa \<Longrightarrow> follows sa (sa_check_assign name r sa) (assign_name name (names_of sa))"
  by (auto simp: follows_def assign_name_def sa_check_assign_def frame_simps scoping_message_def Let_def
      sa_moves_refl sa_moves_report sa_moves_define names_of_define assignable_def new_symbol_def
      split: option.split) (auto simp: names_of_def)

lemma sa_define_or_report_follows:
  assumes "sa_ok sa" "\<not> scoping_message msg"
  shows "follows sa (sa_define_or_report s loc msg nmsg sa)
    (Some (declare_name (sym_name s) (sym_kind s, sym_isMut s) (names_of sa)))"
proof -
  have *: "sa_define_or_report s loc msg nmsg sa \<in>
      {snd (sa_define s sa), sa_error loc msg (snd (sa_define s sa))}
      \<union> {sa_note l nmsg (sa_error loc msg (snd (sa_define s sa))) | l. True}"
    by (auto simp: sa_define_or_report_def split_beta Let_def split: option.split)
  then show ?thesis using assms
    by (auto simp: follows_def frame_simps names_of_define sa_moves_refl sa_moves_report sa_moves_define)
qed


lemma sa_check_assign_declared: "sa_ok sa \<Longrightarrow> lookup name (sa_symbols (sa_check_assign name r sa)) \<noteq> None"
proof -
  assume ok: "sa_ok sa"
  have "lookup (sym_name s) (snd (define_symbol s (sa_symbols sa))) \<noteq> None" for s
    using table.define_found ok unfolding sa_ok_def by blast
  from this [of "(new_symbol name SkVariable)\<lparr>sym_isMut := True, sym_declLoc := range_begin r,
      sym_typeName := ''<inferred>''\<rparr>"]
  show ?thesis
    by (auto simp: sa_check_assign_def frame_simps Let_def new_symbol_def split: option.split)
qed

lemma sa_expr_follows: "sa_ok sa \<Longrightarrow> follows sa (sa_expr e sa) (scoped_expr e (names_of sa))"
  and sa_exprs_follows: "sa_ok sa \<Longrightarrow> follows sa (sa_exprs es sa) (scoped_exprs es (names_of sa))"
proof (induction e sa and es sa rule: sa_expr_sa_exprs.induct)
  case (1 name r sa)
  show ?case by (simp only: sa_expr.simps scoped_expr.simps use_follows)
next
  case (2 callee args r sa)
  let ?sa1 = "case callee of IdentExpr name cr \<Rightarrow> sa_check_callee name cr r (length args) sa
    | _ \<Rightarrow> sa_expr callee sa"
  have 1: "follows sa ?sa1 (scoped_expr callee (names_of sa))"
    using 2 by (cases callee) (simp_all add: sa_check_callee_follows)
  show ?case
    unfolding sa_expr.simps scoped_expr.simps Let_def
    by (rule follows_seq [OF 1], rule 2(15) [OF refl follows_ok [OF 1 2(16)]])
next
  case (3 op lhs rhs r sa)
  show ?case
    unfolding sa_expr.simps scoped_expr.simps
    by (rule follows_seq [OF 3(1) [OF 3(3)]], rule 3(2), rule follows_ok [OF 3(1) [OF 3(3)] 3(3)])
next
  case (5 op target v r sa)
  let ?sa1 = "case target of IdentExpr name _ \<Rightarrow> sa_check_assign name r sa | _ \<Rightarrow> sa"
  let ?sa2 = "sa_expr target ?sa1"
  have 1: "follows sa ?sa2 (case target of IdentExpr x _ \<Rightarrow> assign_name x (names_of sa)
      | _ \<Rightarrow> scoped_expr target (names_of sa))"
    using 5(1,3) by (cases target) (simp_all add: sa_check_assign_follows sa_check_assign_declared)
  show ?case
    unfolding sa_expr.simps scoped_expr.simps Let_def
    by (rule follows_seq [OF 1], rule 5(2) [OF refl follows_ok [OF 1 5(3)]])
next
  case (17 e es sa)
  show ?case
    unfolding sa_exprs.simps scoped_exprs.simps
    by (rule follows_seq [OF 17(1) [OF 17(3)]], rule 17(2), rule follows_ok [OF 17(1) [OF 17(3)] 17(3)])
qed (simp_all add: follows_refl)


section \<open>Statements\<close>

lemma sa_opt_follows:
  "sa_ok sa \<Longrightarrow> follows sa (case e of None \<Rightarrow> sa | Some e \<Rightarrow> sa_expr e sa) (scoped_opt e (names_of sa))"
  by (cases e) (simp_all add: scoped_opt_def follows_refl sa_expr_follows)

lemma sa_var_follows:
  assumes "sa_ok sa"
  shows "follows sa (sa_var vk name type init r sa)
    (do { E1 \<leftarrow> scoped_opt init (names_of sa); Some (declare_name name (var_kind vk) E1) })"
proof -
  let ?sa1 = "case init of Some e \<Rightarrow> sa_expr e sa | None \<Rightarrow> sa"
  have 1: "follows sa ?sa1 (scoped_opt init (names_of sa))" by (rule sa_opt_follows [OF assms])
  have msg: "\<not> scoping_message (''redefinition of '' @ quoted name)" by (simp add: scoping_message_def)
  have "follows ?sa1 (sa_var vk name type init r sa) (Some (declare_name name (var_kind vk) (names_of ?sa1)))"
    using sa_define_or_report_follows [OF follows_ok [OF 1 assms] msg, of "(new_symbol name (if vk = VkConst then SkConstant else SkVariable))
      \<lparr>sym_isMut := (vk = VkVar), sym_typeName := typeNodeToString type, sym_declLoc := range_begin r\<rparr>"]
    by (simp add: sa_var_def Let_def var_kind_def new_symbol_def)
  then show ?thesis by (rule follows_seq [OF 1])
qed

lemma sa_import_follows:
  assumes "sa_ok sa"
  shows "follows sa (sa_import path alias r sa)
    (Some (declare_name (case alias of Some a \<Rightarrow> a | None \<Rightarrow> path) (SkModule, False) (names_of sa)))"
  using assms
  by (auto simp: sa_import_def Let_def split_beta follows_def frame_simps names_of_define new_symbol_def
      intro: sa_moves_report sa_moves_define sa_moves_refl split: option.split)

lemma sa_return_follows:
  assumes "sa_ok sa"
  shows "follows sa (sa_return v r sa)
    (if sa_currentFunction sa \<noteq> [] then scoped_opt v (names_of sa) else Some (names_of sa))"
  using sa_opt_follows [OF assms, of v]
  by (auto simp: sa_return_def follows_def frame_simps scoping_message_def quoted_def sa_moves_refl sa_moves_report)

lemma sa_params_follows:
  assumes "sa_ok sa"
  shows "follows sa (fold sa_param ps sa) (Some (declare_params ps (names_of sa)))"
  using assms
proof (induction ps arbitrary: sa)
  case Nil
  then show ?case by (simp add: declare_params_def follows_refl)
next
  case (Cons p ps)
  have msg: "\<not> scoping_message (''duplicate parameter '' @ quoted (param_name p))"
    by (simp add: scoping_message_def)
  have 1: "follows sa (sa_param p sa)
      (Some (declare_name (param_name p) (SkParameter, param_isMut p) (names_of sa)))"
    using sa_define_or_report_follows [OF Cons.prems msg, of "(new_symbol (param_name p) SkParameter)
      \<lparr>sym_isMut := param_isMut p, sym_typeName := typeNodeName (param_type p), sym_declLoc := range_begin (param_range p)\<rparr>"]
    by (simp add: sa_param_def new_symbol_def)
  have 2: "follows (sa_param p sa) (fold sa_param ps (sa_param p sa))
      (Some (declare_params ps (names_of (sa_param p sa))))"
    by (rule Cons.IH [OF follows_ok [OF 1 Cons.prems]])
  have "names_of (sa_param p sa) = declare_name (param_name p) (SkParameter, param_isMut p) (names_of sa)"
    using 1 by (simp add: follows_def)
  with follows_step [OF 1 2] show ?case by (simp add: declare_params_def)
qed

text \<open>Results that exist: the analyser of a statement returns and its result follows the judgement.\<close>

definition runs_as :: "SemanticAnalyzer \<Rightarrow> SemanticAnalyzer option \<Rightarrow> names option \<Rightarrow> bool" where
  "runs_as sa m r \<longleftrightarrow> (\<exists>sa'. m = Some sa' \<and> follows sa sa' r)"

lemma runs_as_Some [simp]: "runs_as sa (Some sa') r \<longleftrightarrow> follows sa sa' r"
  by (simp add: runs_as_def)

lemma runs_as_after:
  "follows sa sa1 r \<Longrightarrow> runs_as sa1 m (f (names_of sa1)) \<Longrightarrow> runs_as sa m (Option.bind r f)"
  by (auto simp: runs_as_def intro: follows_seq)

lemma runs_as_seq:
  assumes "runs_as sa m r" "sa_ok sa"
    and "\<And>sa1. m = Some sa1 \<Longrightarrow> sa_ok sa1 \<Longrightarrow> sa_moves sa sa1 \<Longrightarrow> runs_as sa1 (g sa1) (f (names_of sa1))"
  shows "runs_as sa (Option.bind m g) (Option.bind r f)"
proof -
  from assms(1) obtain sa1 where m: "m = Some sa1" and fo: "follows sa sa1 r" by (auto simp: runs_as_def)
  have "sa_moves sa sa1" using fo by (simp add: follows_def)
  from assms(3) [OF m follows_ok [OF fo assms(2)] this] m show ?thesis by (simp add: runs_as_after [OF fo])
qed

text \<open>A scope that is opened and closed leaves the environment as it was.\<close>

lemma runs_as_scope:
  assumes "runs_as (sa_enter l sa1) m r" "sa_ok sa" "sa_symbols sa1 = sa_symbols sa"
    and "sa_ctx sa1 = sa_ctx sa"
  shows "runs_as sa (do { sa2 \<leftarrow> m; sa3 \<leftarrow> sa_leave sa2;
      Some (sa3\<lparr>sa_currentFunction := sa_currentFunction sa\<rparr>) }) (do { E1 \<leftarrow> r; Some (names_of sa) })"
proof -
  from assms(1) obtain sa2 where m: "m = Some sa2" and fo: "follows (sa_enter l sa1) sa2 r"
    by (auto simp: runs_as_def)
  then have w: "table.within (enterScope l (sa_symbols sa)) (sa_symbols sa2)"
    and rep: "reported emit (ctx_diag (sa_ctx sa)) (ctx_diag (sa_ctx sa2))"
    by (simp_all add: follows_def sa_moves_def frame_simps assms)
  have l: "leaveScope (sa_symbols sa2) = Some (sa_symbols sa)"
    using table.within_scope [OF _ w] assms(2) by (simp add: sa_ok_def)
  let ?sa3 = "sa2\<lparr>sa_symbols := sa_symbols sa, sa_currentFunction := sa_currentFunction sa\<rparr>"
  have "faults sa1 = faults sa" by (simp add: faults_def assms)
  moreover have "names_of ?sa3 = names_of sa" "faults ?sa3 = faults sa2" by (simp_all add: names_of_def faults_def)
  moreover have "sa_moves sa ?sa3" using rep by (simp add: sa_moves_def table.within.here)
  ultimately have "follows sa ?sa3 (do { E1 \<leftarrow> r; Some (names_of sa) })"
    using fo by (cases r) (simp_all add: follows_def frame_simps)
  then show ?thesis by (simp add: m sa_leave_def l)
qed

lemma runs_as_block:
  assumes "runs_as (sa_enter l sa) m r" "sa_ok sa"
  shows "runs_as sa (do { sa2 \<leftarrow> m; sa_leave sa2 }) (do { E1 \<leftarrow> r; Some (names_of sa) })"
proof -
  from assms(1) obtain sa2 where m: "m = Some sa2" and fo: "follows (sa_enter l sa) sa2 r"
    by (auto simp: runs_as_def)
  then have cf: "sa_currentFunction sa2 = sa_currentFunction sa" by (simp add: follows_def sa_moves_def frame_simps)
  have "runs_as sa (do { sa2 \<leftarrow> m; sa3 \<leftarrow> sa_leave sa2;
      Some (sa3\<lparr>sa_currentFunction := sa_currentFunction sa\<rparr>) }) (do { E1 \<leftarrow> r; Some (names_of sa) })"
    by (rule runs_as_scope [OF assms]) simp_all
  moreover have "(do { sa3 \<leftarrow> sa_leave sa2; Some (sa3\<lparr>sa_currentFunction := sa_currentFunction sa\<rparr>) }) = sa_leave sa2"
    using cf by (cases "leaveScope (sa_symbols sa2)") (simp_all add: sa_leave_def)
  ultimately show ?thesis by (simp add: m)
qed

lemma sa_ok_enter [simp]: "sa_ok (sa_enter l sa)"
  by (simp add: sa_ok_def frame_simps)

abbreviation in_function :: "SemanticAnalyzer \<Rightarrow> bool" where
  "in_function sa \<equiv> sa_currentFunction sa \<noteq> []"

lemma follows_in_function: "follows sa sa' r \<Longrightarrow> in_function sa' = in_function sa"
  by (simp add: follows_def sa_moves_def)

lemma sa_moves_in_function: "sa_moves sa sa' \<Longrightarrow> in_function sa' = in_function sa"
  by (simp add: sa_moves_def)

lemma runs_as_expr:
  assumes "sa_ok sa" "sa_ok (sa_expr c sa) \<Longrightarrow> runs_as (sa_expr c sa) m (f (in_function (sa_expr c sa)) (names_of (sa_expr c sa)))"
  shows "runs_as sa m (Option.bind (scoped_expr c (names_of sa)) (f (in_function sa)))"
proof -
  have 1: "follows sa (sa_expr c sa) (scoped_expr c (names_of sa))" by (rule sa_expr_follows [OF assms(1)])
  from assms(2) [OF follows_ok [OF 1 assms(1)]] show ?thesis
    by (intro runs_as_after [OF 1]) (simp add: follows_in_function [OF 1])
qed

lemma sa_stmt_follows: "sa_ok sa \<Longrightarrow> runs_as sa (sa_stmt st sa) (scoped_stmt (in_function sa) st (names_of sa))"
  and sa_stmts_follows: "sa_ok sa \<Longrightarrow> runs_as sa (sa_stmts ss sa) (scoped_stmts (in_function sa) ss (names_of sa))"
  and sa_arms_follows: "sa_ok sa \<Longrightarrow> runs_as sa (sa_arms arms sa) (scoped_arms (in_function sa) arms (names_of sa))"
  and sa_decl_follows: "sa_ok sa \<Longrightarrow> runs_as sa (sa_decl d sa) (scoped_decl (in_function sa) d (names_of sa))"
  and sa_decls_follows: "sa_ok sa \<Longrightarrow> runs_as sa (sa_decls ds sa) (scoped_decls (in_function sa) ds (names_of sa))"
proof (induction st sa and ss sa and arms sa and d sa and ds sa
    rule: sa_stmt_sa_stmts_sa_arms_sa_decl_sa_decls.induct)
  case (1 ss r sa)
  then have "runs_as (sa_enter ''block'' sa) (sa_stmts ss (sa_enter ''block'' sa))
      (scoped_stmts (in_function sa) ss (open_scope (names_of sa)))"
    by (simp add: frame_simps)
  from runs_as_block [OF this 1(2)] show ?case by simp
next
  case (2 c t e r sa)
  show ?case
    unfolding sa_stmt.simps scoped_stmt.simps
  proof (rule runs_as_expr [OF 2(3), where f = "\<lambda>f E1. do { E2 \<leftarrow> scoped_stmt f t E1;
          (case e of None \<Rightarrow> Some E2 | Some s \<Rightarrow> scoped_stmt f s E2) }"])
    assume ok: "sa_ok (sa_expr c sa)"
    show "runs_as (sa_expr c sa)
        (do { sa1 \<leftarrow> sa_stmt t (sa_expr c sa); (case e of None \<Rightarrow> Some sa1 | Some s \<Rightarrow> sa_stmt s sa1) })
        (do { E2 \<leftarrow> scoped_stmt (in_function (sa_expr c sa)) t (names_of (sa_expr c sa));
              (case e of None \<Rightarrow> Some E2 | Some s \<Rightarrow> scoped_stmt (in_function (sa_expr c sa)) s E2) })"
    proof (rule runs_as_seq [OF 2(1) [OF ok] ok])
      fix sa1
      assume a: "sa_stmt t (sa_expr c sa) = Some sa1" "sa_ok sa1" "sa_moves (sa_expr c sa) sa1"
      show "runs_as sa1 (case e of None \<Rightarrow> Some sa1 | Some s \<Rightarrow> sa_stmt s sa1)
          (case e of None \<Rightarrow> Some (names_of sa1)
           | Some s \<Rightarrow> scoped_stmt (in_function (sa_expr c sa)) s (names_of sa1))"
      proof (cases e)
        case None
        then show ?thesis by (simp add: follows_refl)
      next
        case (Some s)
        from 2(2) [OF a(1) Some a(2)] show ?thesis by (simp add: Some sa_moves_in_function [OF a(3)])
      qed
    qed
  qed
next
  case (3 c b r sa)
  show ?case
    unfolding sa_stmt.simps scoped_stmt.simps
    by (rule runs_as_expr [OF 3(2), where f = "\<lambda>f E1. scoped_stmt f b E1"]) (rule 3(1))
next
  case (4 c b r sa)
  show ?case
    unfolding sa_stmt.simps scoped_stmt.simps
    by (rule runs_as_expr [OF 4(2), where f = "\<lambda>f E1. scoped_stmt f b E1"]) (rule 4(1))
next
  case (5 c arms r sa)
  show ?case
    unfolding sa_stmt.simps scoped_stmt.simps
    by (rule runs_as_expr [OF 5(2), where f = "\<lambda>f E1. scoped_arms f arms E1"]) (rule 5(1))
next
  case (6 var iter body r sa)
  let ?sa0 = "sa_enter ''for'' sa"
  let ?sa1 = "snd (sa_define ((new_symbol var SkVariable)\<lparr>sym_declLoc := range_begin r\<rparr>) ?sa0)"
  have 0: "follows ?sa0 ?sa1 (Some (declare_name var (SkVariable, False) (names_of ?sa0)))"
    by (simp add: follows_def frame_simps sa_moves_define sa_moves_refl names_of_define new_symbol_def)
  have ok1: "sa_ok ?sa1" by (rule follows_ok [OF 0]) simp
  have "runs_as ?sa1 (sa_stmt body (sa_expr iter ?sa1))
      (do { E1 \<leftarrow> scoped_expr iter (names_of ?sa1); scoped_stmt (in_function ?sa1) body E1 })"
    by (rule runs_as_expr [OF ok1, where f = "\<lambda>f E1. scoped_stmt f body E1"]) (rule 6(1) [OF refl])
  then have "runs_as ?sa0 (sa_stmt body (sa_expr iter ?sa1))
      (do { E0 \<leftarrow> Some (declare_name var (SkVariable, False) (names_of ?sa0));
            do { E1 \<leftarrow> scoped_expr iter E0; scoped_stmt (in_function ?sa1) body E1 } })"
    by (rule runs_as_after [OF 0])
  from runs_as_block [OF this 6(2)] show ?case by (simp add: Let_def frame_simps Option.bind_assoc)
next
  case (7 v r sa)
  then show ?case by (simp add: sa_return_follows)
next
  case (8 e r sa)
  then show ?case by (simp add: sa_expr_follows)
next
  case (13 s ss sa)
  show ?case
    unfolding sa_stmts.simps scoped_stmts.simps
  proof (rule runs_as_seq [OF 13(1) [OF 13(3)] 13(3)])
    fix sa1
    assume a: "sa_stmt s sa = Some sa1" "sa_ok sa1" "sa_moves sa sa1"
    show "runs_as sa1 (sa_stmts ss sa1) (scoped_stmts (in_function sa) ss (names_of sa1))"
      using 13(2) [OF a(1,2)] by (simp add: sa_moves_in_function [OF a(3)])
  qed
next
  case (15 p b arms sa)
  let ?sa1 = "case p of None \<Rightarrow> sa | Some e \<Rightarrow> sa_expr e sa"
  have 1: "follows sa ?sa1 (scoped_opt p (names_of sa))" by (rule sa_opt_follows [OF 15(3)])
  have ok: "sa_ok ?sa1" by (rule follows_ok [OF 1 15(3)])
  have "runs_as ?sa1 (do { sa1 \<leftarrow> sa_stmt b ?sa1; sa_arms arms sa1 })
      (do { E2 \<leftarrow> scoped_stmt (in_function ?sa1) b (names_of ?sa1); scoped_arms (in_function ?sa1) arms E2 })"
  proof (rule runs_as_seq [OF 15(1) [OF ok] ok])
    fix sa1
    assume a: "sa_stmt b ?sa1 = Some sa1" "sa_ok sa1" "sa_moves ?sa1 sa1"
    show "runs_as sa1 (sa_arms arms sa1) (scoped_arms (in_function ?sa1) arms (names_of sa1))"
      using 15(2) [OF a(1,2)] by (simp add: sa_moves_in_function [OF a(3)])
  qed
  then show ?case
    unfolding sa_arms.simps scoped_arms.simps
    by (intro runs_as_after [OF 1]) (simp only: follows_in_function [OF 1])
next
  case (18 name params ret body isPub r sa)
  let ?sa0 = "sa\<lparr>sa_currentFunction := name\<rparr>"
  let ?sa1 = "fold sa_param params (sa_enter (''fn:'' @ name) ?sa0)"
  have 1: "follows (sa_enter (''fn:'' @ name) ?sa0) ?sa1
      (Some (declare_params params (names_of (sa_enter (''fn:'' @ name) ?sa0))))"
    by (rule sa_params_follows) simp
  have ok: "sa_ok ?sa1" by (rule follows_ok [OF 1]) simp
  have cf: "in_function ?sa1 = (name \<noteq> [])" using follows_in_function [OF 1] by (simp add: frame_simps)
  have E: "names_of (sa_enter (''fn:'' @ name) ?sa0) = open_scope (names_of sa)"
    by (simp only: frame_simps) (simp add: names_of_def)
  have "runs_as ?sa1 (case body of None \<Rightarrow> Some ?sa1 | Some b \<Rightarrow> sa_stmt b ?sa1)
      (case body of None \<Rightarrow> Some (names_of ?sa1) | Some b \<Rightarrow> scoped_stmt (name \<noteq> []) b (names_of ?sa1))"
  proof (cases body)
    case None
    then show ?thesis by (simp add: follows_refl)
  next
    case (Some b)
    from 18(1) [OF refl Some ok] show ?thesis by (simp only: Some option.case cf)
  qed
  from runs_as_after [OF 1, where f = "\<lambda>E. case body of None \<Rightarrow> Some E | Some b \<Rightarrow> scoped_stmt (name \<noteq> []) b E", OF this]
  have "runs_as (sa_enter (''fn:'' @ name) ?sa0) (case body of None \<Rightarrow> Some ?sa1 | Some b \<Rightarrow> sa_stmt b ?sa1)
      (case body of None \<Rightarrow> Some (declare_params params (open_scope (names_of sa)))
       | Some b \<Rightarrow> scoped_stmt (name \<noteq> []) b (declare_params params (open_scope (names_of sa))))"
    by (simp only: E Option.bind.simps)
  from runs_as_scope [OF this 18(2)] show ?case
    by (cases body) (simp_all add: Let_def)
next
  case (22 vk name ty init r sa)
  then show ?case by (simp add: sa_var_follows)
next
  case (17 path al r sa)
  then show ?case by (simp add: sa_import_follows)
next
  case (24 d ds sa)
  show ?case
    unfolding sa_decls.simps scoped_decls.simps
  proof (rule runs_as_seq [OF 24(1) [OF 24(3)] 24(3)])
    fix sa1
    assume a: "sa_decl d sa = Some sa1" "sa_ok sa1" "sa_moves sa sa1"
    show "runs_as sa1 (sa_decls ds sa1) (scoped_decls (in_function sa) ds (names_of sa1))"
      using 24(2) [OF a(1,2)] by (simp add: sa_moves_in_function [OF a(3)])
  qed
qed (simp_all add: follows_refl)

section \<open>The passes together\<close>

text \<open>
  C6. Name resolution is exact: on every declaration it returns (no assertion fails), closes every
  scope it opens, and reports a use of an undeclared name, a call of an undeclared function or an
  assignment to a constant, an immutable binding or a function exactly when the static semantics
  rejects the declaration; when it accepts, the names visible afterwards are those it predicts.
\<close>

theorem name_resolution_exact:
  assumes "table_ok (sa_symbols sa)"
  shows "\<exists>sa'. sa_decl d sa = Some sa' \<and> leaveScope (sa_symbols sa') = leaveScope (sa_symbols sa)
    \<and> (case scoped_decl (sa_currentFunction sa \<noteq> []) d (names_of sa) of
          Some E \<Rightarrow> faults sa' = faults sa \<and> names_of sa' = E
        | None \<Rightarrow> faults sa' > faults sa)"
proof -
  have ok: "sa_ok sa" using assms by (simp add: sa_ok_def)
  from sa_decl_follows [OF ok, of d] obtain sa' where
    "sa_decl d sa = Some sa'" "follows sa sa' (scoped_decl (in_function sa) d (names_of sa))"
    by (auto simp: runs_as_def)
  moreover from this(2) have "leaveScope (sa_symbols sa') = leaveScope (sa_symbols sa)"
    using assms by (auto simp: follows_def sa_moves_def intro: table.within_leave)
  ultimately show ?thesis by (auto simp: follows_def split: option.splits)
qed

theorem name_resolution_exact_witness:
  "\<exists>sa'. sa_decl (FunctionDecl ''f'' [] None (Some (ExprStmt (IdentExpr ''x'' range_default) range_default))
      True range_default) (new_analyzer (new_context default_options)) = Some sa'
    \<and> faults sa' > faults (new_analyzer (new_context default_options))"
proof -
  let ?d = "FunctionDecl ''f'' [] None (Some (ExprStmt (IdentExpr ''x'' range_default) range_default)) True range_default"
  let ?sa = "new_analyzer (new_context default_options)"
  have "scoped_decl False ?d (names_of ?sa) = None"
    by (simp add: use_name_def declare_params_def open_scope_def names_of_def new_analyzer_def new_table_def
        new_scope_def scope_lookup_def)
  moreover have "table_ok (sa_symbols ?sa)" "sa_currentFunction ?sa = []" by (simp_all add: new_analyzer_def)
  ultimately show ?thesis using name_resolution_exact [of ?sa ?d] by auto
qed

text \<open>The names a module starts with: the built-in functions, then its functions and types.\<close>

fun hoist_name :: "Decl \<Rightarrow> names \<Rightarrow> names" where
  "hoist_name (FunctionDecl name _ _ _ _ _) E = declare_name name (SkFunction, False) E"
| "hoist_name (StructDecl name _ _ _) E = declare_name name (SkType, False) E"
| "hoist_name (EnumDecl name _ _ _) E = declare_name name (SkType, False) E"
| "hoist_name _ E = E"

definition initial_names :: "Decl list \<Rightarrow> names" where
  "initial_names ds =
     fold hoist_name ds (fold (\<lambda>x. declare_name x (SkFunction, False)) builtin_names (Map.empty, {}))"

text \<open>The well-scoped modules.\<close>

definition well_scoped :: "Decl \<Rightarrow> bool" where
  "well_scoped m \<longleftrightarrow> scoped_decl False m (initial_names (module_decls m)) \<noteq> None"

lemma sa_define_follows:
  "sa_ok sa \<Longrightarrow> follows sa (snd (sa_define s sa)) (Some (declare_name (sym_name s) (sym_kind s, sym_isMut s) (names_of sa)))"
  by (simp add: follows_def frame_simps sa_moves_define sa_moves_refl names_of_define)

lemma sa_hoist_follows:
  assumes "sa_ok sa"
  shows "follows sa (sa_hoist d sa) (Some (hoist_name d (names_of sa)))"
proof (cases d)
  case (FunctionDecl name params ret body isPub r)
  have msg: "\<not> scoping_message (''redefinition of function '' @ quoted name)" by (simp add: scoping_message_def)
  from sa_define_or_report_follows [OF assms msg, of "(new_symbol name SkFunction)\<lparr>sym_isPub := isPub, sym_returnType := typeNodeToString ret,
          sym_typeName := typeNodeToString ret, sym_declLoc := range_begin r,
          sym_paramTypes := map (typeNodeName \<circ> param_type) params\<rparr>"]
  show ?thesis by (simp add: FunctionDecl new_symbol_def)
next
  case (StructDecl name flds isPub r)
  from sa_define_follows [OF assms, of "(new_symbol name SkType)\<lparr>sym_isPub := isPub, sym_declLoc := range_begin r\<rparr>"]
  show ?thesis
    by (auto simp: StructDecl new_symbol_def split_beta follows_def frame_simps scoping_message_def sa_moves_report)
next
  case (EnumDecl name vars isPub r)
  from sa_define_follows [OF assms, of "(new_symbol name SkType)\<lparr>sym_isPub := isPub, sym_declLoc := range_begin r\<rparr>"]
  show ?thesis
    by (auto simp: EnumDecl new_symbol_def split_beta follows_def frame_simps scoping_message_def sa_moves_report)
qed (simp_all add: follows_refl)

lemma fold_follows:
  assumes "\<And>x sa. sa_ok sa \<Longrightarrow> follows sa (g x sa) (Some (h x (names_of sa)))" "sa_ok sa"
  shows "follows sa (fold g xs sa) (Some (fold h xs (names_of sa)))"
  using assms(2)
proof (induction xs arbitrary: sa)
  case Nil
  then show ?case by (simp add: follows_refl)
next
  case (Cons x xs)
  have 1: "follows sa (g x sa) (Some (h x (names_of sa)))" by (rule assms(1) [OF Cons.prems])
  then have "names_of (g x sa) = h x (names_of sa)" by (simp add: follows_def)
  with follows_step [OF 1 Cons.IH [OF follows_ok [OF 1 Cons.prems]]] show ?case by simp
qed

lemma hoisting_follows:
  "follows (new_analyzer ctx) (fold sa_hoist ds (fold declareBuiltin builtin_names (new_analyzer ctx)))
    (Some (initial_names ds))"
proof -
  have ok: "sa_ok (new_analyzer ctx)" by (simp add: sa_ok_def new_analyzer_def)
  have names: "names_of (new_analyzer ctx) = (Map.empty, {})"
    by (simp add: names_of_def new_analyzer_def new_table_def new_scope_def scope_lookup_def)
  have b: "follows sa (declareBuiltin x sa) (Some (declare_name x (SkFunction, False) (names_of sa)))"
    if "sa_ok sa" for x sa
    using sa_define_follows [OF that, of "(new_symbol x SkFunction)\<lparr>sym_returnType := ''<any>'', sym_typeName := ''<any>''\<rparr>"]
    by (simp add: declareBuiltin_def new_symbol_def)
  have 1: "follows (new_analyzer ctx) (fold declareBuiltin builtin_names (new_analyzer ctx))
      (Some (fold (\<lambda>x. declare_name x (SkFunction, False)) builtin_names (Map.empty, {})))"
    using fold_follows [OF b ok] by (simp add: names)
  have ok1: "sa_ok (fold declareBuiltin builtin_names (new_analyzer ctx))" by (rule follows_ok [OF 1 ok])
  have "names_of (fold declareBuiltin builtin_names (new_analyzer ctx))
      = fold (\<lambda>x. declare_name x (SkFunction, False)) builtin_names (Map.empty, {})"
    using 1 by (simp add: follows_def)
  with follows_step [OF 1 fold_follows [OF sa_hoist_follows ok1]] show ?thesis
    by (simp add: initial_names_def)
qed

lemma analyze_steps:
  "\<exists>b sa2 sa3 sa'. analyze m (new_analyzer ctx) = Some (b, sa')
    \<and> follows (new_analyzer ctx) sa2 (Some (initial_names (module_decls m)))
    \<and> sa_decl m sa2 = Some sa3 \<and> follows sa2 sa3 (scoped_decl False m (names_of sa2))
    \<and> reported emit (ctx_diag (sa_ctx sa3)) (ctx_diag (sa_ctx sa'))
    \<and> b = (errorCount (ctx_diag (sa_ctx sa')) = errorCount (ctx_diag ctx))"
proof -
  let ?sa2 = "fold sa_hoist (module_decls m) (fold declareBuiltin builtin_names (new_analyzer ctx))"
  have ok0: "sa_ok (new_analyzer ctx)" by (simp add: sa_ok_def new_analyzer_def)
  have 2: "follows (new_analyzer ctx) ?sa2 (Some (initial_names (module_decls m)))" by (rule hoisting_follows)
  have ok2: "sa_ok ?sa2" by (rule follows_ok [OF 2 ok0])
  have cf: "\<not> in_function ?sa2" using follows_in_function [OF 2] by (simp add: new_analyzer_def)
  from sa_decl_follows [OF ok2, of m] obtain sa3 where
    3: "sa_decl m ?sa2 = Some sa3" "follows ?sa2 sa3 (scoped_decl False m (names_of ?sa2))"
    by (auto simp: runs_as_def cf)
  have "table_ok (sa_symbols sa3)" using follows_ok [OF 3(2) ok2] by (simp add: sa_ok_def)
  with tc_decl_runs [of "new_type_checker (sa_ctx sa3) (sa_symbols sa3)" m] obtain tc where
    4: "tc_check m (new_type_checker (sa_ctx sa3) (sa_symbols sa3)) = Some tc"
      "reported emit (ctx_diag (sa_ctx sa3)) (ctx_diag (tc_ctx tc))"
    by (auto simp: tc_runs_def tc_check_def tc_moves_def new_type_checker_def)
  let ?sa4 = "sa3\<lparr>sa_ctx := tc_ctx tc, sa_symbols := tc_symbols tc\<rparr>"
  have "analyze m (new_analyzer ctx)
      = Some (errorCount (ctx_diag (sa_ctx ?sa4)) = errorCount (ctx_diag ctx), ?sa4)"
    by (simp add: analyze_def Let_def 3(1) 4(1)) (simp add: new_analyzer_def)
  with 2 3 4(2) show ?thesis by (intro exI conjI) (assumption | simp)+
qed

lemma analyze_reported:
  assumes "analyze m (new_analyzer ctx) = Some (b, sa')"
  shows "reported emit (ctx_diag ctx) (ctx_diag (sa_ctx sa'))
    \<and> b = (errorCount (ctx_diag (sa_ctx sa')) = errorCount (ctx_diag ctx))"
proof -
  have "sa_ctx (new_analyzer ctx) = ctx" by (simp add: new_analyzer_def)
  with analyze_steps [of m ctx] assms show ?thesis
    by (auto simp: follows_def sa_moves_def intro: reported_trans)
qed

text \<open>
  C21. \<open>analyze\<close> always returns, and its result tells whether it reported an error: it only appends
  diagnostics, and answers \<open>true\<close> exactly when none of those it appended is an error (with fewer than
  \<open>2 ^ 32\<close> diagnostics in the context, whose error counter is a \<open>uint32_t\<close>).
\<close>

theorem analyze_result:
  "\<exists>b sa' ds. analyze m (new_analyzer ctx) = Some (b, sa')
    \<and> eng_diagnostics (ctx_diag (sa_ctx sa')) = eng_diagnostics (ctx_diag ctx) @ ds
    \<and> (length (eng_diagnostics (ctx_diag (sa_ctx sa'))) < 2 ^ 32 \<longrightarrow> (b \<longleftrightarrow> (\<forall>d \<in> set ds. \<not> is_error d)))"
proof -
  from analyze_steps [of m ctx] obtain b sa' where a: "analyze m (new_analyzer ctx) = Some (b, sa')" by blast
  from analyze_reported [OF a] have r: "reported emit (ctx_diag ctx) (ctx_diag (sa_ctx sa'))"
    and b: "b = (errorCount (ctx_diag (sa_ctx sa')) = errorCount (ctx_diag ctx))" by simp_all
  from engine.reported_suffix [OF r] obtain ds where
    ds: "eng_diagnostics (ctx_diag (sa_ctx sa')) = eng_diagnostics (ctx_diag ctx) @ ds" by blast
  have "b \<longleftrightarrow> (\<forall>d \<in> set ds. \<not> is_error d)" if "length (eng_diagnostics (ctx_diag (sa_ctx sa'))) < 2 ^ 32"
    using engine.same_count_no_error [OF r _ that] engine.no_error_same_count [OF r ds] ds b
    by (auto simp: errorCount_def)
  with a ds show ?thesis by blast
qed

theorem analyze_result_witness:
  "\<exists>b sa'. analyze (ModuleDecl ''m'' [] range_default) (new_analyzer (new_context default_options)) = Some (b, sa')
    \<and> (length (eng_diagnostics (ctx_diag (sa_ctx sa'))) < 2 ^ 32 \<longrightarrow>
        (b \<longleftrightarrow> (\<forall>d \<in> set (eng_diagnostics (ctx_diag (sa_ctx sa'))). \<not> is_error d)))"
  using analyze_result [of "ModuleDecl ''m'' [] range_default" "new_context default_options"]
  by (auto simp: new_context_def new_engine_def)

lemma accepted_scoped:
  assumes "analyze m (new_analyzer ctx) = Some (True, sa')"
    and "length (eng_diagnostics (ctx_diag (sa_ctx sa'))) < 2 ^ 32"
  shows "well_scoped m"
proof -
  from analyze_steps [of m ctx] assms(1) obtain sa2 sa3 where
    s: "follows (new_analyzer ctx) sa2 (Some (initial_names (module_decls m)))"
      "follows sa2 sa3 (scoped_decl False m (names_of sa2))"
      "reported emit (ctx_diag (sa_ctx sa3)) (ctx_diag (sa_ctx sa'))"
    by auto
  from analyze_reported [OF assms(1)] have r: "reported emit (ctx_diag ctx) (ctx_diag (sa_ctx sa'))"
    and c: "errorCount (ctx_diag (sa_ctx sa')) = errorCount (ctx_diag ctx)" by simp_all
  from engine.same_count_no_error [OF r _ assms(2)] c obtain ds where
    ds: "eng_diagnostics (ctx_diag (sa_ctx sa')) = eng_diagnostics (ctx_diag ctx) @ ds"
      "\<forall>x \<in> set ds. \<not> is_error x" by (auto simp: errorCount_def)
  have clean: "filter scoping_fault ds = []"
    using ds(2) by (auto simp: filter_empty_conv scoping_fault_def is_error_def level_is_error_def)
  from engine.reported_suffix [OF s(3)] obtain ds3 where
    "eng_diagnostics (ctx_diag (sa_ctx sa')) = eng_diagnostics (ctx_diag (sa_ctx sa3)) @ ds3" by blast
  with ds(1) have eq: "eng_diagnostics (ctx_diag (sa_ctx sa3)) @ ds3 = eng_diagnostics (ctx_diag ctx) @ ds" by simp
  have "faults sa3 + length (filter scoping_fault ds3) = faults (new_analyzer ctx) + length (filter scoping_fault ds)"
    using arg_cong [OF eq, of "\<lambda>xs. length (filter scoping_fault xs)"]
    by (simp only: filter_append length_append faults_def new_analyzer_def SemanticAnalyzer.select_convs)
  moreover have "length (filter scoping_fault ds) = 0" by (simp only: clean list.size)
  ultimately have le: "faults sa3 \<le> faults (new_analyzer ctx)" by linarith
  from s(1) have n: "names_of sa2 = initial_names (module_decls m)" "faults sa2 = faults (new_analyzer ctx)"
    by (simp_all add: follows_def)
  show ?thesis
  proof (rule ccontr)
    assume "\<not> well_scoped m"
    then have "scoped_decl False m (names_of sa2) = None"
      by (simp add: well_scoped_def n(1) del: not_None_eq)
    with s(2) have "faults sa3 > faults sa2" by (simp add: follows_def)
    with le n(2) show False by simp
  qed
qed

text \<open>
  C15. A module that \<open>analyze\<close> accepts is well scoped: every name its functions use is declared
  before the use in an enclosing scope, hoisted, or built in, and no constant, immutable binding or
  function is assigned. (Operands of index and cast expressions excepted, which the analyser does
  not visit.)
\<close>

theorem accepted_is_well_scoped:
  assumes "analyze m (new_analyzer ctx) = Some (True, sa')"
    and "length (eng_diagnostics (ctx_diag (sa_ctx sa'))) < 2 ^ 32"
  shows "well_scoped m"
  by (rule accepted_scoped [OF assms])

theorem accepted_is_well_scoped_witness:
  "well_scoped (ModuleDecl ''m'' [FunctionDecl ''f'' [] None
      (Some (BlockStmt [DeclStmt (VarDecl VkVar ''x'' None (Some (IntLiteralExpr 1 range_default)) range_default) range_default,
        ExprStmt (AssignExpr AoAssign (IdentExpr ''x'' range_default) (IntLiteralExpr 2 range_default) range_default) range_default]
      range_default)) True range_default] range_default)"
proof -
  let ?m = "ModuleDecl ''m'' [FunctionDecl ''f'' [] None
      (Some (BlockStmt [DeclStmt (VarDecl VkVar ''x'' None (Some (IntLiteralExpr 1 range_default)) range_default) range_default,
        ExprStmt (AssignExpr AoAssign (IdentExpr ''x'' range_default) (IntLiteralExpr 2 range_default) range_default) range_default]
      range_default)) True range_default] range_default"
  have "map_option (\<lambda>r. (fst r, eng_diagnostics (ctx_diag (sa_ctx (snd r)))))
      (analyze ?m (new_analyzer (new_context default_options))) = Some (True, [])" by code_simp
  then obtain sa' where "analyze ?m (new_analyzer (new_context default_options)) = Some (True, sa')"
    "eng_diagnostics (ctx_diag (sa_ctx sa')) = []" by auto
  then show ?thesis using accepted_is_well_scoped by fastforce
qed


end
