(* ===== verification/Vcc_Ir.thy ===== *)
theory Vcc_Ir
  imports Vcc_Prelude
begin

text \<open>
  The intermediate representation (\<open>include/vcc/ir/IRInstruction.h\<close>, \<open>IRModule.h\<close>,
  \<open>src/ir/IRInstruction.cpp\<close>, \<open>IRModule.cpp\<close>): operands, instructions, basic blocks, functions and
  modules. A register identifier is a 32-bit word and the register counter of a function wraps; the
  vectors of \<open>unique_ptr\<close> are lists, and a reference to a block or a function is its index. A
  \<open>double\<close> is its 64-bit pattern. The \<open>dump\<close> and \<open>print\<close> methods are in Vcc_IrPrinter.
\<close>

type_synonym RegID = u32

abbreviation NoReg :: RegID where "NoReg \<equiv> 0"

datatype OperandKind = OkReg | OkIntImm | OkFloatImm | OkStringRef | OkBoolImm

record Operand =
  op_kind :: OperandKind
  op_reg :: RegID
  op_intVal :: i64
  op_floatVal :: "64 word"
  op_strVal :: string

definition fromReg :: "RegID \<Rightarrow> Operand" where
  "fromReg r = \<lparr>op_kind = OkReg, op_reg = r, op_intVal = 0, op_floatVal = 0, op_strVal = []\<rparr>"

definition fromInt :: "i64 \<Rightarrow> Operand" where
  "fromInt v = \<lparr>op_kind = OkIntImm, op_reg = 0, op_intVal = v, op_floatVal = 0, op_strVal = []\<rparr>"

definition fromFloat :: "64 word \<Rightarrow> Operand" where
  "fromFloat v = \<lparr>op_kind = OkFloatImm, op_reg = 0, op_intVal = 0, op_floatVal = v, op_strVal = []\<rparr>"

definition fromString :: "string \<Rightarrow> Operand" where
  "fromString s = \<lparr>op_kind = OkStringRef, op_reg = 0, op_intVal = 0, op_floatVal = 0, op_strVal = s\<rparr>"

definition fromBool :: "bool \<Rightarrow> Operand" where
  "fromBool v = \<lparr>op_kind = OkBoolImm, op_reg = 0, op_intVal = (if v then 1 else 0), op_floatVal = 0, op_strVal = []\<rparr>"

datatype Opcode =
    OpAdd | OpSub | OpMul | OpDiv | OpMod | OpNeg
  | OpBitAnd | OpBitOr | OpBitXor | OpBitNot | OpShl | OpShr
  | OpCmpEq | OpCmpNe | OpCmpLt | OpCmpGt | OpCmpLe | OpCmpGe
  | OpLogAnd | OpLogOr | OpLogNot
  | OpAlloca | OpLoad | OpStore
  | OpRet | OpBranch | OpCondBranch
  | OpCall | OpParam
  | OpCopy | OpCast | OpPhi

fun opcodeName :: "Opcode \<Rightarrow> string" where
  "opcodeName OpAdd = ''add''"
| "opcodeName OpSub = ''sub''"
| "opcodeName OpMul = ''mul''"
| "opcodeName OpDiv = ''div''"
| "opcodeName OpMod = ''mod''"
| "opcodeName OpNeg = ''neg''"
| "opcodeName OpBitAnd = ''band''"
| "opcodeName OpBitOr = ''bor''"
| "opcodeName OpBitXor = ''bxor''"
| "opcodeName OpBitNot = ''bnot''"
| "opcodeName OpShl = ''shl''"
| "opcodeName OpShr = ''shr''"
| "opcodeName OpCmpEq = ''ceq''"
| "opcodeName OpCmpNe = ''cne''"
| "opcodeName OpCmpLt = ''clt''"
| "opcodeName OpCmpGt = ''cgt''"
| "opcodeName OpCmpLe = ''cle''"
| "opcodeName OpCmpGe = ''cge''"
| "opcodeName OpLogAnd = ''land''"
| "opcodeName OpLogOr = ''lor''"
| "opcodeName OpLogNot = ''lnot''"
| "opcodeName OpAlloca = ''alloca''"
| "opcodeName OpLoad = ''load''"
| "opcodeName OpStore = ''store''"
| "opcodeName OpRet = ''ret''"
| "opcodeName OpBranch = ''br''"
| "opcodeName OpCondBranch = ''cbr''"
| "opcodeName OpCall = ''call''"
| "opcodeName OpParam = ''param''"
| "opcodeName OpCopy = ''copy''"
| "opcodeName OpCast = ''cast''"
| "opcodeName OpPhi = ''phi''"

record IRInstruction =
  ir_opcode :: Opcode
  ir_dest :: RegID
  ir_operands :: "Operand list"
  ir_label :: string
  ir_type :: string

text \<open>The aggregate \<open>{opcode, dest, operands, label}\<close>; the type annotation stays empty.\<close>

definition instr :: "Opcode \<Rightarrow> RegID \<Rightarrow> Operand list \<Rightarrow> string \<Rightarrow> IRInstruction" where
  "instr opc d ops l = \<lparr>ir_opcode = opc, ir_dest = d, ir_operands = ops, ir_label = l, ir_type = []\<rparr>"

definition isTerminator :: "IRInstruction \<Rightarrow> bool" where
  "isTerminator i \<longleftrightarrow> ir_opcode i = OpRet \<or> ir_opcode i = OpBranch \<or> ir_opcode i = OpCondBranch"

record IRBasicBlock =
  bb_label :: string
  bb_instrs :: "IRInstruction list"

definition new_block :: "string \<Rightarrow> IRBasicBlock" where
  "new_block label = \<lparr>bb_label = label, bb_instrs = []\<rparr>"

definition bb_append :: "IRInstruction \<Rightarrow> IRBasicBlock \<Rightarrow> IRBasicBlock" where
  "bb_append i bb = bb\<lparr>bb_instrs := bb_instrs bb @ [i]\<rparr>"

definition bb_isTerminated :: "IRBasicBlock \<Rightarrow> bool" where
  "bb_isTerminated bb \<longleftrightarrow> bb_instrs bb \<noteq> [] \<and> isTerminator (last (bb_instrs bb))"

record IRFunction =
  fn_name :: string
  fn_blocks :: "IRBasicBlock list"
  fn_regCounter :: u32

definition new_function :: "string \<Rightarrow> IRFunction" where
  "new_function name = \<lparr>fn_name = name, fn_blocks = [], fn_regCounter = 0\<rparr>"

text \<open>The reference that \<open>addBlock\<close> returns is the index of the new block.\<close>

definition fn_addBlock :: "string \<Rightarrow> IRFunction \<Rightarrow> nat \<times> IRFunction" where
  "fn_addBlock label fn = (length (fn_blocks fn), fn\<lparr>fn_blocks := fn_blocks fn @ [new_block label]\<rparr>)"

definition entryBlock :: "IRFunction \<Rightarrow> nat option" where
  "entryBlock fn = (if fn_blocks fn = [] then None else Some 0)"

definition nextReg :: "IRFunction \<Rightarrow> RegID \<times> IRFunction" where
  "nextReg fn = (fn_regCounter fn + 1, fn\<lparr>fn_regCounter := fn_regCounter fn + 1\<rparr>)"

record IRModule =
  mod_name :: string
  mod_functions :: "IRFunction list"

definition new_module :: "string \<Rightarrow> IRModule" where
  "new_module name = \<lparr>mod_name = name, mod_functions = []\<rparr>"

definition addFunction :: "string \<Rightarrow> IRModule \<Rightarrow> nat \<times> IRModule" where
  "addFunction name m = (length (mod_functions m), m\<lparr>mod_functions := mod_functions m @ [new_function name]\<rparr>)"

end
