(* ===== verification/Vcc_IrBuilder.thy ===== *)
theory Vcc_IrBuilder
  imports Vcc_Ir
begin

text \<open>
  The IR builder (\<open>include/vcc/ir/IRBuilder.h\<close>, \<open>src/ir/IRBuilder.cpp\<close>): the insertion point and the
  \<open>build\<close> methods. \<open>b_fn\<close> and \<open>b_bb\<close> are the pointers \<open>fn_\<close> and \<open>bb_\<close>: a function index, and a
  function index with a block index; \<open>b_module\<close> is the module they point into, which the methods
  mutate. \<open>None\<close> is a failed assertion (\<open>no active function\<close>, \<open>no active basic block\<close>).
\<close>

record IRBuilder =
  b_module :: IRModule
  b_fn :: "nat option"
  b_bb :: "(nat \<times> nat) option"
  b_labelCounter :: u32

text \<open>Mutation of a function, and of a block, through its pointer.\<close>

definition update_function :: "nat \<Rightarrow> IRFunction \<Rightarrow> 'a IRBuilder_scheme \<Rightarrow> 'a IRBuilder_scheme" where
  "update_function i fn b =
     b\<lparr>b_module := (b_module b)\<lparr>mod_functions := (mod_functions (b_module b))[i := fn]\<rparr>\<rparr>"

definition pointed_function :: "nat \<Rightarrow> 'a IRBuilder_scheme \<Rightarrow> IRFunction" where
  "pointed_function i b = mod_functions (b_module b) ! i"

definition pointed_block :: "nat \<times> nat \<Rightarrow> 'a IRBuilder_scheme \<Rightarrow> IRBasicBlock" where
  "pointed_block p b = fn_blocks (pointed_function (fst p) b) ! snd p"

definition builder_attach :: "nat \<Rightarrow> nat \<times> nat \<Rightarrow> 'a IRBuilder_scheme \<Rightarrow> 'a IRBuilder_scheme" where
  "builder_attach fn entry b = b\<lparr>b_fn := Some fn, b_bb := Some entry, b_labelCounter := 0\<rparr>"

definition builder_detach :: "'a IRBuilder_scheme \<Rightarrow> 'a IRBuilder_scheme" where
  "builder_detach b = b\<lparr>b_fn := None, b_bb := None, b_labelCounter := 0\<rparr>"

definition setBlock :: "nat \<times> nat \<Rightarrow> 'a IRBuilder_scheme \<Rightarrow> 'a IRBuilder_scheme" where
  "setBlock bb b = b\<lparr>b_bb := Some bb\<rparr>"

definition builder_block :: "'a IRBuilder_scheme \<Rightarrow> (nat \<times> nat) option" where
  "builder_block b = b_bb b"

definition hasBlock :: "'a IRBuilder_scheme \<Rightarrow> bool" where
  "hasBlock b \<longleftrightarrow> b_bb b \<noteq> None"

definition isTerminated :: "'a IRBuilder_scheme \<Rightarrow> bool" where
  "isTerminated b = (case b_bb b of None \<Rightarrow> False | Some p \<Rightarrow> bb_isTerminated (pointed_block p b))"

definition addBlock :: "string \<Rightarrow> 'a IRBuilder_scheme \<Rightarrow> ((nat \<times> nat) \<times> 'a IRBuilder_scheme) option" where
  "addBlock label b =
     (case b_fn b of
        None \<Rightarrow> None
      | Some i \<Rightarrow> (let (j, fn) = fn_addBlock label (pointed_function i b) in Some ((i, j), update_function i fn b)))"

definition newLabel :: "string \<Rightarrow> 'a IRBuilder_scheme \<Rightarrow> string \<times> 'a IRBuilder_scheme" where
  "newLabel prefix b =
     (prefix @ ''_'' @ u32_to_string (b_labelCounter b), b\<lparr>b_labelCounter := b_labelCounter b + 1\<rparr>)"

definition newReg :: "'a IRBuilder_scheme \<Rightarrow> (RegID \<times> 'a IRBuilder_scheme) option" where
  "newReg b =
     (case b_fn b of
        None \<Rightarrow> None
      | Some i \<Rightarrow> (let (r, fn) = nextReg (pointed_function i b) in Some (r, update_function i fn b)))"

definition builder_append :: "IRInstruction \<Rightarrow> 'a IRBuilder_scheme \<Rightarrow> 'a IRBuilder_scheme option" where
  "builder_append ins b =
     (case b_bb b of
        None \<Rightarrow> None
      | Some (i, j) \<Rightarrow>
          (let fn = pointed_function i b
           in Some (update_function i (fn\<lparr>fn_blocks := (fn_blocks fn)[j := bb_append ins (fn_blocks fn ! j)]\<rparr>) b)))"


section \<open>Instructions with a result\<close>

definition buildAlloca :: "string \<Rightarrow> 'a IRBuilder_scheme \<Rightarrow> (RegID \<times> 'a IRBuilder_scheme) option" where
  "buildAlloca varName b =
     do { (r, b) \<leftarrow> newReg b; b \<leftarrow> builder_append (instr OpAlloca r [] varName) b; Some (r, b) }"

definition buildLoad :: "RegID \<Rightarrow> 'a IRBuilder_scheme \<Rightarrow> (RegID \<times> 'a IRBuilder_scheme) option" where
  "buildLoad ptrReg b =
     do { (r, b) \<leftarrow> newReg b; b \<leftarrow> builder_append (instr OpLoad r [fromReg ptrReg] []) b; Some (r, b) }"

definition buildLoadNamed :: "string \<Rightarrow> 'a IRBuilder_scheme \<Rightarrow> (RegID \<times> 'a IRBuilder_scheme) option" where
  "buildLoadNamed symbolName b =
     do { (r, b) \<leftarrow> newReg b; b \<leftarrow> builder_append (instr OpLoad r [] symbolName) b; Some (r, b) }"

definition buildInt :: "i64 \<Rightarrow> 'a IRBuilder_scheme \<Rightarrow> (RegID \<times> 'a IRBuilder_scheme) option" where
  "buildInt val b =
     do { (r, b) \<leftarrow> newReg b; b \<leftarrow> builder_append (instr OpCopy r [fromInt val] []) b; Some (r, b) }"

definition buildFloat :: "64 word \<Rightarrow> 'a IRBuilder_scheme \<Rightarrow> (RegID \<times> 'a IRBuilder_scheme) option" where
  "buildFloat val b =
     do { (r, b) \<leftarrow> newReg b; b \<leftarrow> builder_append (instr OpCopy r [fromFloat val] []) b; Some (r, b) }"

definition buildBool :: "bool \<Rightarrow> 'a IRBuilder_scheme \<Rightarrow> (RegID \<times> 'a IRBuilder_scheme) option" where
  "buildBool val b =
     do { (r, b) \<leftarrow> newReg b; b \<leftarrow> builder_append (instr OpCopy r [fromBool val] []) b; Some (r, b) }"

definition buildString :: "string \<Rightarrow> 'a IRBuilder_scheme \<Rightarrow> (RegID \<times> 'a IRBuilder_scheme) option" where
  "buildString val b =
     do { (r, b) \<leftarrow> newReg b; b \<leftarrow> builder_append (instr OpCopy r [fromString val] []) b; Some (r, b) }"

definition buildChar :: "32 word \<Rightarrow> 'a IRBuilder_scheme \<Rightarrow> (RegID \<times> 'a IRBuilder_scheme) option" where
  "buildChar val b =
     do { (r, b) \<leftarrow> newReg b; b \<leftarrow> builder_append (instr OpCopy r [fromInt (ucast val)] []) b; Some (r, b) }"

definition buildNil :: "'a IRBuilder_scheme \<Rightarrow> (RegID \<times> 'a IRBuilder_scheme) option" where
  "buildNil b =
     do { (r, b) \<leftarrow> newReg b; b \<leftarrow> builder_append (instr OpCopy r [fromInt 0] ''nil'') b; Some (r, b) }"

definition buildParam :: "u32 \<Rightarrow> 'a IRBuilder_scheme \<Rightarrow> (RegID \<times> 'a IRBuilder_scheme) option" where
  "buildParam index b =
     do { (r, b) \<leftarrow> newReg b; b \<leftarrow> builder_append (instr OpParam r [fromInt (ucast index)] []) b; Some (r, b) }"

definition buildBinOp :: "Opcode \<Rightarrow> RegID \<Rightarrow> RegID \<Rightarrow> 'a IRBuilder_scheme \<Rightarrow> (RegID \<times> 'a IRBuilder_scheme) option" where
  "buildBinOp opc lhs rhs b =
     do { (r, b) \<leftarrow> newReg b; b \<leftarrow> builder_append (instr opc r [fromReg lhs, fromReg rhs] []) b; Some (r, b) }"

definition buildUnOp :: "Opcode \<Rightarrow> RegID \<Rightarrow> 'a IRBuilder_scheme \<Rightarrow> (RegID \<times> 'a IRBuilder_scheme) option" where
  "buildUnOp opc operand b =
     do { (r, b) \<leftarrow> newReg b; b \<leftarrow> builder_append (instr opc r [fromReg operand] []) b; Some (r, b) }"

definition buildCast :: "RegID \<Rightarrow> string \<Rightarrow> 'a IRBuilder_scheme \<Rightarrow> (RegID \<times> 'a IRBuilder_scheme) option" where
  "buildCast v toType b =
     do { (r, b) \<leftarrow> newReg b; b \<leftarrow> builder_append (instr OpCast r [fromReg v] toType) b; Some (r, b) }"

definition buildCall :: "string \<Rightarrow> RegID list \<Rightarrow> 'a IRBuilder_scheme \<Rightarrow> (RegID \<times> 'a IRBuilder_scheme) option" where
  "buildCall callee args b =
     do { (r, b) \<leftarrow> newReg b; b \<leftarrow> builder_append (instr OpCall r (map fromReg args) callee) b; Some (r, b) }"


section \<open>Instructions without a result\<close>

definition buildStore :: "RegID \<Rightarrow> RegID \<Rightarrow> 'a IRBuilder_scheme \<Rightarrow> 'a IRBuilder_scheme option" where
  "buildStore valueReg ptrReg b = builder_append (instr OpStore NoReg [fromReg valueReg, fromReg ptrReg] []) b"

definition buildRet :: "RegID \<Rightarrow> 'a IRBuilder_scheme \<Rightarrow> 'a IRBuilder_scheme option" where
  "buildRet valueReg b =
     (if valueReg = NoReg then builder_append (instr OpRet NoReg [] []) b
      else builder_append (instr OpRet NoReg [fromReg valueReg] []) b)"

definition buildBranch :: "string \<Rightarrow> 'a IRBuilder_scheme \<Rightarrow> 'a IRBuilder_scheme option" where
  "buildBranch targetLabel b = builder_append (instr OpBranch NoReg [] targetLabel) b"

definition buildCondBranch :: "RegID \<Rightarrow> string \<Rightarrow> string \<Rightarrow> 'a IRBuilder_scheme \<Rightarrow> 'a IRBuilder_scheme option" where
  "buildCondBranch condReg trueLabel falseLabel b =
     builder_append (instr OpCondBranch NoReg [fromReg condReg] (trueLabel @ '','' @ falseLabel)) b"

end
