(* ===== verification/Vcc_IrGen.thy ===== *)
theory Vcc_IrGen
  imports Vcc_IrBuilder Vcc_Ast Vcc_Context
begin

text \<open>
  Lowering of the syntax tree to the IR (\<open>include/vcc/ir/IRGen.h\<close>, \<open>src/ir/IRGen.cpp\<close>). The state
  extends the builder's: \<open>module_\<close> is the module the builder points into. The \<open>visit\<close> methods are the
  equations of \<open>gen_expr\<close>, \<open>gen_stmt\<close> and \<open>gen_decl\<close>; the classes without an override (\<open>BreakStmt\<close>
  and \<open>ContinueStmt\<close> among them) do nothing. \<open>None\<close> is a failed assertion of the builder.
\<close>

record IRGen = IRBuilder +
  ig_ctx :: CompilerContext
  lastReg :: RegID
  varSlots :: "string \<rightharpoonup> RegID"

definition new_irgen :: "CompilerContext \<Rightarrow> IRGen" where
  "new_irgen ctx =
     \<lparr>b_module = new_module [], b_fn = None, b_bb = None, b_labelCounter = 0,
      ig_ctx = ctx, lastReg = NoReg, varSlots = Map.empty\<rparr>"

fun binaryOpToOpcode :: "BinaryOp \<Rightarrow> Opcode" where
  "binaryOpToOpcode BoAdd = OpAdd"
| "binaryOpToOpcode BoSub = OpSub"
| "binaryOpToOpcode BoMul = OpMul"
| "binaryOpToOpcode BoDiv = OpDiv"
| "binaryOpToOpcode BoMod = OpMod"
| "binaryOpToOpcode BoEq = OpCmpEq"
| "binaryOpToOpcode BoNotEq = OpCmpNe"
| "binaryOpToOpcode BoLt = OpCmpLt"
| "binaryOpToOpcode BoGt = OpCmpGt"
| "binaryOpToOpcode BoLtEq = OpCmpLe"
| "binaryOpToOpcode BoGtEq = OpCmpGe"
| "binaryOpToOpcode BoAnd = OpLogAnd"
| "binaryOpToOpcode BoOr = OpLogOr"
| "binaryOpToOpcode BoBitAnd = OpBitAnd"
| "binaryOpToOpcode BoBitOr = OpBitOr"
| "binaryOpToOpcode BoBitXor = OpBitXor"
| "binaryOpToOpcode BoShl = OpShl"
| "binaryOpToOpcode BoShr = OpShr"

fun unaryOpToOpcode :: "UnaryOp \<Rightarrow> Opcode" where
  "unaryOpToOpcode UoNeg = OpNeg"
| "unaryOpToOpcode UoNot = OpLogNot"
| "unaryOpToOpcode UoBitNot = OpBitNot"
| "unaryOpToOpcode _ = OpCopy"

text \<open>The switch of the compound assignments.\<close>

fun assignOpToOpcode :: "AssignOp \<Rightarrow> Opcode" where
  "assignOpToOpcode AoAddAssign = OpAdd"
| "assignOpToOpcode AoSubAssign = OpSub"
| "assignOpToOpcode AoMulAssign = OpMul"
| "assignOpToOpcode AoDivAssign = OpDiv"
| "assignOpToOpcode AoModAssign = OpMod"
| "assignOpToOpcode AoBitAndAssign = OpBitAnd"
| "assignOpToOpcode AoBitOrAssign = OpBitOr"
| "assignOpToOpcode AoBitXorAssign = OpBitXor"
| "assignOpToOpcode AoAssign = OpAdd"

text \<open>\<open>lastReg_ = builder_.build\<dots>\<close>\<close>

definition result_to_last :: "(RegID \<times> IRGen) option \<Rightarrow> IRGen option" where
  "result_to_last r = map_option (\<lambda>(d, s). s\<lparr>lastReg := d\<rparr>) r"


section \<open>Expressions\<close>

definition kZeroArgBuiltins :: "string list" where
  "kZeroArgBuiltins = [''exit'', ''escape'', ''wait'']"

definition gen_ident :: "string \<Rightarrow> IRGen \<Rightarrow> IRGen option" where
  "gen_ident name s =
     (if name \<in> set kZeroArgBuiltins then result_to_last (buildCall name [] s)
      else (case varSlots s name of
              None \<Rightarrow> result_to_last (buildLoadNamed name s)
            | Some slot \<Rightarrow> result_to_last (buildLoad slot s)))"

text \<open>The end of \<open>visit(AssignExpr)\<close>: the store to a variable that has a slot.\<close>

definition gen_assign_store :: "Expr \<Rightarrow> RegID \<Rightarrow> IRGen \<Rightarrow> IRGen option" where
  "gen_assign_store target val s =
     do { s \<leftarrow> (case target of
                 IdentExpr name _ \<Rightarrow>
                   (case varSlots s name of None \<Rightarrow> Some s | Some slot \<Rightarrow> buildStore val slot s)
               | _ \<Rightarrow> Some s);
          Some (s\<lparr>lastReg := val\<rparr>) }"

text \<open>
  \<open>gen_args\<close> is the loop over call arguments with the registers collected, \<open>gen_elements\<close> the loop
  over array elements from index \<open>i\<close> with the slot of the first one.
\<close>

fun gen_expr :: "Expr \<Rightarrow> IRGen \<Rightarrow> IRGen option"
  and gen_args :: "Expr list \<Rightarrow> IRGen \<Rightarrow> (RegID list \<times> IRGen) option"
  and gen_elements :: "nat \<Rightarrow> RegID \<Rightarrow> Expr list \<Rightarrow> IRGen \<Rightarrow> (RegID \<times> IRGen) option" where
  "gen_expr (IntLiteralExpr v _) s = result_to_last (buildInt v s)"
| "gen_expr (FloatLiteralExpr v _) s = result_to_last (buildFloat v s)"
| "gen_expr (BoolLiteralExpr v _) s = result_to_last (buildBool v s)"
| "gen_expr (StringLiteralExpr v _) s = result_to_last (buildString v s)"
| "gen_expr (CharLiteralExpr v _) s = result_to_last (buildChar v s)"
| "gen_expr (NilLiteralExpr _) s = result_to_last (buildNil s)"
| "gen_expr (IdentExpr name _) s = gen_ident name s"
| "gen_expr (BinaryExpr opr lhs rhs _) s =
     do { s1 \<leftarrow> gen_expr lhs s;
          s2 \<leftarrow> gen_expr rhs s1;
          result_to_last (buildBinOp (binaryOpToOpcode opr) (lastReg s1) (lastReg s2) s2) }"
| "gen_expr (UnaryExpr opr operand _) s =
     do { s1 \<leftarrow> gen_expr operand s;
          (case opr of
             UoDeref \<Rightarrow> result_to_last (buildLoad (lastReg s1) s1)
           | UoAddrOf \<Rightarrow> Some s1
           | _ \<Rightarrow> result_to_last (buildUnOp (unaryOpToOpcode opr) (lastReg s1) s1)) }"
| "gen_expr (AssignExpr opr target v _) s =
     (if opr = AoAssign then
        do { s1 \<leftarrow> gen_expr v s; gen_assign_store target (lastReg s1) s1 }
      else
        do { s1 \<leftarrow> gen_expr target s;
             s2 \<leftarrow> gen_expr v s1;
             (val, s3) \<leftarrow> buildBinOp (assignOpToOpcode opr) (lastReg s1) (lastReg s2) s2;
             gen_assign_store target val s3 })"
| "gen_expr (MemberExpr obj member _) s =
     do { s1 \<leftarrow> gen_expr obj s; result_to_last (buildLoadNamed member s1) }"
| "gen_expr (IndexExpr base idx _) s =
     do { s1 \<leftarrow> gen_expr base s;
          s2 \<leftarrow> gen_expr idx s1;
          result_to_last (buildBinOp OpAdd (lastReg s1) (lastReg s2) s2) }"
| "gen_expr (CastExpr e _ _) s =
     do { s1 \<leftarrow> gen_expr e s; result_to_last (buildCast (lastReg s1) ''?'' s1) }"
| "gen_expr (CallExpr callee args _) s =
     do { (calleeName, s1) \<leftarrow> (case callee of
             IdentExpr name _ \<Rightarrow> Some (name, s)
           | _ \<Rightarrow> do { s1 \<leftarrow> gen_expr callee s; Some (CHR ''%'' # u32_to_string (lastReg s1), s1) });
          (regs, s2) \<leftarrow> gen_args args s1;
          result_to_last (buildCall calleeName regs s2) }"
| "gen_expr (ArrayLiteralExpr elements _) s =
     do { (firstSlot, s1) \<leftarrow> gen_elements 0 0 elements s; Some (s1\<lparr>lastReg := firstSlot\<rparr>) }"
| "gen_args [] s = Some ([], s)"
| "gen_args (e # es) s =
     do { s1 \<leftarrow> gen_expr e s;
          (regs, s2) \<leftarrow> gen_args es s1;
          Some (lastReg s1 # regs, s2) }"
| "gen_elements i firstSlot [] s = Some (firstSlot, s)"
| "gen_elements i firstSlot (e # es) s =
     do { s1 \<leftarrow> gen_expr e s;
          (slot, s2) \<leftarrow> buildAlloca (''__arr_'' @ nat_to_string i) s1;
          s3 \<leftarrow> buildStore (lastReg s2) slot s2;
          gen_elements (Suc i) (if i = 0 then slot else firstSlot) es s3 }"


section \<open>Statements and declarations\<close>

text \<open>\<open>builder_.setBlock(builder_.addBlock(label))\<close>, and the jump of a block that is not terminated.\<close>

definition startBlock :: "string \<Rightarrow> IRGen \<Rightarrow> IRGen option" where
  "startBlock label s = do { (bb, s) \<leftarrow> addBlock label s; Some (setBlock bb s) }"

definition branchIfOpen :: "string \<Rightarrow> IRGen \<Rightarrow> IRGen option" where
  "branchIfOpen label s = (if isTerminated s then Some s else buildBranch label s)"

definition gen_var :: "string \<Rightarrow> Expr option \<Rightarrow> IRGen \<Rightarrow> IRGen option" where
  "gen_var name init s =
     do { (slot, s) \<leftarrow> buildAlloca name s;
          let s = s\<lparr>varSlots := (varSlots s)(name \<mapsto> slot)\<rparr>;
          (case init of
             None \<Rightarrow> Some s
           | Some e \<Rightarrow> do { s \<leftarrow> gen_expr e s; buildStore (lastReg s) slot s }) }"

definition gen_return :: "Expr option \<Rightarrow> IRGen \<Rightarrow> IRGen option" where
  "gen_return v s =
     do { s \<leftarrow> (case v of
                 None \<Rightarrow> buildRet NoReg s
               | Some e \<Rightarrow> do { s \<leftarrow> gen_expr e s; buildRet (lastReg s) s });
          let (label, s) = newLabel ''after_ret'' s;
          startBlock label s }"

text \<open>The parameters of a function from index \<open>i\<close> on.\<close>

fun gen_params :: "u32 \<Rightarrow> ParameterDecl list \<Rightarrow> IRGen \<Rightarrow> IRGen option" where
  "gen_params i [] s = Some s"
| "gen_params i (p # ps) s =
     do { (slot, s) \<leftarrow> buildAlloca (param_name p) s;
          (incoming, s) \<leftarrow> buildParam i s;
          s \<leftarrow> buildStore incoming slot s;
          gen_params (i + 1) ps (s\<lparr>varSlots := (varSlots s)(param_name p \<mapsto> slot)\<rparr>) }"

text \<open>The start of \<open>visit(FunctionDecl)\<close>: the new function with its entry block, and its parameters.\<close>

definition gen_function_start :: "string \<Rightarrow> ParameterDecl list \<Rightarrow> IRGen \<Rightarrow> IRGen option" where
  "gen_function_start name params s =
     (let (i, m) = addFunction name (b_module s);
          (j, fn) = fn_addBlock ''entry'' (mod_functions m ! i);
          s = builder_attach i (i, j) (s\<lparr>b_module := m\<lparr>mod_functions := (mod_functions m)[i := fn]\<rparr>\<rparr>)
      in gen_params 0 params (s\<lparr>varSlots := Map.empty\<rparr>))"

text \<open>The end of \<open>visit(FunctionDecl)\<close>.\<close>

definition gen_function_end :: "IRGen \<Rightarrow> IRGen option" where
  "gen_function_end s =
     do { s \<leftarrow> (if isTerminated s then Some s else buildRet NoReg s);
          Some (builder_detach s) }"

text \<open>
  \<open>gen_arms\<close> is the loop over the arms that are left; the wildcard arm ends it.
\<close>

fun gen_stmt :: "Stmt \<Rightarrow> IRGen \<Rightarrow> IRGen option"
  and gen_stmts :: "Stmt list \<Rightarrow> IRGen \<Rightarrow> IRGen option"
  and gen_arms :: "RegID \<Rightarrow> string \<Rightarrow> MatchArm list \<Rightarrow> IRGen \<Rightarrow> IRGen option"
  and gen_decl :: "Decl \<Rightarrow> IRGen \<Rightarrow> IRGen option"
  and gen_decls :: "Decl list \<Rightarrow> IRGen \<Rightarrow> IRGen option" where
  "gen_stmt (BlockStmt ss _) s = gen_stmts ss s"
| "gen_stmt (ExprStmt e _) s = gen_expr e s"
| "gen_stmt (DeclStmt d _) s = gen_decl d s"
| "gen_stmt (ReturnStmt v _) s = gen_return v s"
| "gen_stmt (IfStmt c t e _) s =
     do { s \<leftarrow> gen_expr c s;
          let cond = lastReg s;
          let (thenLabel, s) = newLabel ''then'' s;
          let (elseLabel, s) = (if e \<noteq> None then newLabel ''else'' s else ([], s));
          let (mergeLabel, s) = newLabel ''merge'' s;
          s \<leftarrow> buildCondBranch cond thenLabel (if e \<noteq> None then elseLabel else mergeLabel) s;
          s \<leftarrow> startBlock thenLabel s;
          s \<leftarrow> gen_stmt t s;
          s \<leftarrow> branchIfOpen mergeLabel s;
          s \<leftarrow> (case e of
                  None \<Rightarrow> Some s
                | Some els \<Rightarrow>
                    do { s \<leftarrow> startBlock elseLabel s;
                         s \<leftarrow> gen_stmt els s;
                         branchIfOpen mergeLabel s });
          startBlock mergeLabel s }"
| "gen_stmt (WhileStmt c body _) s =
     do { let (condLabel, s) = newLabel ''while_cond'' s;
          let (bodyLabel, s) = newLabel ''while_body'' s;
          let (exitLabel, s) = newLabel ''while_exit'' s;
          s \<leftarrow> buildBranch condLabel s;
          s \<leftarrow> startBlock condLabel s;
          s \<leftarrow> gen_expr c s;
          s \<leftarrow> buildCondBranch (lastReg s) bodyLabel exitLabel s;
          s \<leftarrow> startBlock bodyLabel s;
          s \<leftarrow> gen_stmt body s;
          s \<leftarrow> branchIfOpen condLabel s;
          startBlock exitLabel s }"
| "gen_stmt (VloopStmt c body _) s =
     (case c of
        IntLiteralExpr n _ \<Rightarrow>
          do { let (counterSlot, s) = newLabel ''vloop_counter'' s;
               let (condLabel, s) = newLabel ''vloop_cond'' s;
               let (bodyLabel, s) = newLabel ''vloop_body'' s;
               let (exitLabel, s) = newLabel ''vloop_exit'' s;
               (slot, s) \<leftarrow> buildAlloca counterSlot s;
               (zero, s) \<leftarrow> buildInt 0 s;
               s \<leftarrow> buildStore zero slot s;
               s \<leftarrow> buildBranch condLabel s;
               s \<leftarrow> startBlock condLabel s;
               (cur, s) \<leftarrow> buildLoad slot s;
               (limit, s) \<leftarrow> buildInt n s;
               (cmp, s) \<leftarrow> buildBinOp OpCmpLt cur limit s;
               s \<leftarrow> buildCondBranch cmp bodyLabel exitLabel s;
               s \<leftarrow> startBlock bodyLabel s;
               s \<leftarrow> gen_stmt body s;
               s \<leftarrow> (if isTerminated s then Some s
                     else do { (cur2, s) \<leftarrow> buildLoad slot s;
                               (one, s) \<leftarrow> buildInt 1 s;
                               (inc, s) \<leftarrow> buildBinOp OpAdd cur2 one s;
                               s \<leftarrow> buildStore inc slot s;
                               buildBranch condLabel s });
               startBlock exitLabel s }
      | _ \<Rightarrow>
          do { let (condLabel, s) = newLabel ''vloop_cond'' s;
               let (bodyLabel, s) = newLabel ''vloop_body'' s;
               let (exitLabel, s) = newLabel ''vloop_exit'' s;
               s \<leftarrow> buildBranch condLabel s;
               s \<leftarrow> startBlock condLabel s;
               s \<leftarrow> gen_expr c s;
               s \<leftarrow> buildCondBranch (lastReg s) bodyLabel exitLabel s;
               s \<leftarrow> startBlock bodyLabel s;
               s \<leftarrow> gen_stmt body s;
               s \<leftarrow> branchIfOpen condLabel s;
               startBlock exitLabel s })"
| "gen_stmt (MatchStmt subject arms _) s =
     do { s \<leftarrow> gen_expr subject s;
          let subj = lastReg s;
          let (exitLabel, s) = newLabel ''match_exit'' s;
          s \<leftarrow> gen_arms subj exitLabel arms s;
          s \<leftarrow> branchIfOpen exitLabel s;
          startBlock exitLabel s }"
| "gen_stmt (ForStmt var iter body _) s =
     do { (slot, s) \<leftarrow> buildAlloca var s;
          let s = s\<lparr>varSlots := (varSlots s)(var \<mapsto> slot)\<rparr>;
          s \<leftarrow> gen_expr iter s;
          (iterSlot, s) \<leftarrow> buildAlloca ''__iter'' s;
          s \<leftarrow> buildStore (lastReg s) iterSlot s;
          let (condLabel, s) = newLabel ''for_cond'' s;
          let (bodyLabel, s) = newLabel ''for_body'' s;
          let (exitLabel, s) = newLabel ''for_exit'' s;
          s \<leftarrow> buildBranch condLabel s;
          s \<leftarrow> startBlock condLabel s;
          (iterCur, s) \<leftarrow> buildLoad iterSlot s;
          s \<leftarrow> buildCondBranch iterCur bodyLabel exitLabel s;
          s \<leftarrow> startBlock bodyLabel s;
          s \<leftarrow> gen_stmt body s;
          s \<leftarrow> branchIfOpen condLabel s;
          startBlock exitLabel s }"
| "gen_stmt (BreakStmt _) s = Some s"
| "gen_stmt (ContinueStmt _) s = Some s"
| "gen_stmts [] s = Some s"
| "gen_stmts (st # ss) s = do { s \<leftarrow> gen_stmt st s; gen_stmts ss s }"
| "gen_arms subj exitLabel [] s = Some s"
| "gen_arms subj exitLabel (MatchArm pattern body # arms) s =
     do { let (bodyLabel, s) = newLabel ''match_arm'' s;
          let (nextLabel, s) = (if arms \<noteq> [] then newLabel ''match_next'' s else (exitLabel, s));
          s \<leftarrow> (case pattern of
                  None \<Rightarrow> buildBranch bodyLabel s
                | Some e \<Rightarrow>
                    do { s \<leftarrow> gen_expr e s;
                         (cmpReg, s) \<leftarrow> buildBinOp OpCmpEq subj (lastReg s) s;
                         buildCondBranch cmpReg bodyLabel nextLabel s });
          s \<leftarrow> startBlock bodyLabel s;
          s \<leftarrow> gen_stmt body s;
          s \<leftarrow> branchIfOpen exitLabel s;
          (if pattern = None then Some s
           else do { s \<leftarrow> startBlock nextLabel s; gen_arms subj exitLabel arms s }) }"
| "gen_decl (ModuleDecl _ decls _) s = gen_decls decls s"
| "gen_decl (FunctionDecl name params _ body _ _) s =
     do { s \<leftarrow> gen_function_start name params s;
          s \<leftarrow> (case body of None \<Rightarrow> Some s | Some b \<Rightarrow> gen_stmt b s);
          gen_function_end s }"
| "gen_decl (VarDecl _ name _ init _) s = gen_var name init s"
| "gen_decl (ImportDecl _ _ _) s = Some s"
| "gen_decl (StructDecl _ _ _ _) s = Some s"
| "gen_decl (EnumDecl _ _ _ _) s = Some s"
| "gen_decl (TypeAliasDecl _ _ _ _) s = Some s"
| "gen_decls [] s = Some s"
| "gen_decls (d # ds) s = do { s \<leftarrow> gen_decl d s; gen_decls ds s }"

text \<open>\<open>generate\<close>: a new module under the name of the syntax tree's, filled and handed out.\<close>

fun module_name_of :: "Decl \<Rightarrow> string" where
  "module_name_of (ModuleDecl name _ _) = name"
| "module_name_of _ = []"

definition generate :: "Decl \<Rightarrow> IRGen \<Rightarrow> (IRModule \<times> IRGen) option" where
  "generate m s = do { s \<leftarrow> gen_decl m (s\<lparr>b_module := new_module (module_name_of m)\<rparr>); Some (b_module s, s) }"

end
