(* ===== verification/Vcc_IrEmit.thy ===== *)
theory Vcc_IrEmit
  imports Vcc_IrGen
begin

text \<open>
  The abstract view of the builder inside a function. A \<open>Point\<close> is the code emitted so far: the
  finished blocks, the current block, and the two counters as unbounded naturals. \<open>cfg h p\<close> is the
  state of the generator that a point stands for; the home \<open>h\<close> holds what does not change while a
  function is filled. The builder refines the operations on points: each \<open>build\<close> method on \<open>cfg h p\<close>
  succeeds and gives the \<open>cfg\<close> of the updated point, with the counters taken modulo \<open>2 ^ 32\<close>.
\<close>

record home =
  h_module :: IRModule
  h_fname :: string
  h_ctx :: CompilerContext

record Point =
  p_done :: "IRBasicBlock list"
  p_label :: string
  p_instrs :: "IRInstruction list"
  p_reg :: nat
  p_lc :: nat
  p_last :: RegID
  p_slots :: "string \<rightharpoonup> RegID"

definition p_blocks :: "Point \<Rightarrow> IRBasicBlock list" where
  "p_blocks p = p_done p @ [\<lparr>bb_label = p_label p, bb_instrs = p_instrs p\<rparr>]"

definition cfg :: "home \<Rightarrow> Point \<Rightarrow> IRGen" where
  "cfg h p =
     (let fs = mod_functions (h_module h)
      in \<lparr>b_module = (h_module h)\<lparr>mod_functions :=
            fs @ [\<lparr>fn_name = h_fname h, fn_blocks = p_blocks p, fn_regCounter = of_nat (p_reg p)\<rparr>]\<rparr>,
          b_fn = Some (length fs), b_bb = Some (length fs, length (p_done p)),
          b_labelCounter = of_nat (p_lc p), ig_ctx = h_ctx h, lastReg = p_last p, varSlots = p_slots p\<rparr>)"

text \<open>The operations on points: an instruction with a result, one without, a label, a block.\<close>

definition next_reg :: "Point \<Rightarrow> RegID" where
  "next_reg p = of_nat (p_reg p) + 1"

definition emit_value :: "Opcode \<Rightarrow> Operand list \<Rightarrow> string \<Rightarrow> Point \<Rightarrow> Point" where
  "emit_value opc ops l p =
     p\<lparr>p_instrs := p_instrs p @ [instr opc (next_reg p) ops l], p_reg := Suc (p_reg p)\<rparr>"

definition emit_effect :: "Opcode \<Rightarrow> Operand list \<Rightarrow> string \<Rightarrow> Point \<Rightarrow> Point" where
  "emit_effect opc ops l p = p\<lparr>p_instrs := p_instrs p @ [instr opc NoReg ops l]\<rparr>"

definition lab :: "string \<Rightarrow> nat \<Rightarrow> string" where
  "lab prefix k = prefix @ ''_'' @ u32_to_string (of_nat k)"

definition fresh :: "Point \<Rightarrow> Point" where
  "fresh p = p\<lparr>p_lc := Suc (p_lc p)\<rparr>"

definition start :: "string \<Rightarrow> Point \<Rightarrow> Point" where
  "start l p = p\<lparr>p_done := p_blocks p, p_label := l, p_instrs := []\<rparr>"

definition set_last :: "RegID \<Rightarrow> Point \<Rightarrow> Point" where
  "set_last r p = p\<lparr>p_last := r\<rparr>"

definition bind_slot :: "string \<Rightarrow> RegID \<Rightarrow> Point \<Rightarrow> Point" where
  "bind_slot x r p = p\<lparr>p_slots := (p_slots p)(x \<mapsto> r)\<rparr>"

text \<open>The current block ends in a terminator.\<close>

definition p_closed :: "Point \<Rightarrow> bool" where
  "p_closed p \<longleftrightarrow> p_instrs p \<noteq> [] \<and> isTerminator (last (p_instrs p))"

lemmas point_defs = emit_value_def emit_effect_def fresh_def start_def set_last_def bind_slot_def


section \<open>The builder refines the operations on points\<close>

lemma pointed_cfg: "pointed_function (length (mod_functions (h_module h))) (cfg h p) =
    \<lparr>fn_name = h_fname h, fn_blocks = p_blocks p, fn_regCounter = of_nat (p_reg p)\<rparr>"
  by (simp add: pointed_function_def cfg_def Let_def)

lemma newReg_append_cfg:
  "do { (r, b) \<leftarrow> newReg (cfg h p); b \<leftarrow> builder_append (instr opc r ops l) b; Some (r, b) }
     = Some (next_reg p, cfg h (emit_value opc ops l p))"
  by (simp add: newReg_def builder_append_def nextReg_def cfg_def Let_def update_function_def pointed_function_def
      emit_value_def p_blocks_def bb_append_def next_reg_def)

lemma append_cfg: "builder_append (instr opc NoReg ops l) (cfg h p) = Some (cfg h (emit_effect opc ops l p))"
  by (simp add: builder_append_def cfg_def Let_def update_function_def pointed_function_def
      emit_effect_def p_blocks_def bb_append_def)

lemma value_ops_cfg [simp]:
  "buildAlloca x (cfg h p) = Some (next_reg p, cfg h (emit_value OpAlloca [] x p))"
  "buildLoad r (cfg h p) = Some (next_reg p, cfg h (emit_value OpLoad [fromReg r] [] p))"
  "buildLoadNamed x (cfg h p) = Some (next_reg p, cfg h (emit_value OpLoad [] x p))"
  "buildInt v (cfg h p) = Some (next_reg p, cfg h (emit_value OpCopy [fromInt v] [] p))"
  "buildFloat d (cfg h p) = Some (next_reg p, cfg h (emit_value OpCopy [fromFloat d] [] p))"
  "buildBool b (cfg h p) = Some (next_reg p, cfg h (emit_value OpCopy [fromBool b] [] p))"
  "buildString str (cfg h p) = Some (next_reg p, cfg h (emit_value OpCopy [fromString str] [] p))"
  "buildChar ch (cfg h p) = Some (next_reg p, cfg h (emit_value OpCopy [fromInt (ucast ch)] [] p))"
  "buildNil (cfg h p) = Some (next_reg p, cfg h (emit_value OpCopy [fromInt 0] ''nil'' p))"
  "buildParam i (cfg h p) = Some (next_reg p, cfg h (emit_value OpParam [fromInt (ucast i)] [] p))"
  "buildBinOp opc r1 r2 (cfg h p) = Some (next_reg p, cfg h (emit_value opc [fromReg r1, fromReg r2] [] p))"
  "buildUnOp opc r (cfg h p) = Some (next_reg p, cfg h (emit_value opc [fromReg r] [] p))"
  "buildCast r t (cfg h p) = Some (next_reg p, cfg h (emit_value OpCast [fromReg r] t p))"
  "buildCall f rs (cfg h p) = Some (next_reg p, cfg h (emit_value OpCall (map fromReg rs) f p))"
  by (simp_all only: buildAlloca_def buildLoad_def buildLoadNamed_def buildInt_def buildFloat_def buildBool_def
      buildString_def buildChar_def buildNil_def buildParam_def buildBinOp_def buildUnOp_def buildCast_def
      buildCall_def newReg_append_cfg)

lemma effect_ops_cfg [simp]:
  "buildStore v r (cfg h p) = Some (cfg h (emit_effect OpStore [fromReg v, fromReg r] [] p))"
  "buildRet v (cfg h p) = Some (cfg h (emit_effect OpRet (if v = NoReg then [] else [fromReg v]) [] p))"
  "buildBranch l (cfg h p) = Some (cfg h (emit_effect OpBranch [] l p))"
  "buildCondBranch c l1 l2 (cfg h p) = Some (cfg h (emit_effect OpCondBranch [fromReg c] (l1 @ '','' @ l2) p))"
  by (simp_all add: buildStore_def buildRet_def buildBranch_def buildCondBranch_def append_cfg)

lemma newLabel_cfg [simp]: "newLabel x (cfg h p) = (lab x (p_lc p), cfg h (fresh p))"
  by (simp add: newLabel_def lab_def fresh_def cfg_def Let_def p_blocks_def add.commute)

lemma startBlock_cfg [simp]: "startBlock l (cfg h p) = Some (cfg h (start l p))"
  by (simp add: startBlock_def addBlock_def setBlock_def pointed_function_def fn_addBlock_def cfg_def Let_def
      update_function_def start_def p_blocks_def new_block_def)

lemma isTerminated_cfg [simp]: "isTerminated (cfg h p) = p_closed p"
  by (simp add: isTerminated_def pointed_block_def cfg_def Let_def pointed_function_def p_blocks_def p_closed_def
      bb_isTerminated_def)

lemma branchIfOpen_cfg [simp]:
  "branchIfOpen l (cfg h p) = Some (cfg h (if p_closed p then p else emit_effect OpBranch [] l p))"
  by (simp add: branchIfOpen_def)

lemma cfg_fields [simp]:
  "lastReg (cfg h p) = p_last p"
  "varSlots (cfg h p) = p_slots p"
  "(cfg h p)\<lparr>lastReg := r\<rparr> = cfg h (set_last r p)"
  "(cfg h p)\<lparr>varSlots := (p_slots p)(x \<mapsto> r)\<rparr> = cfg h (bind_slot x r p)"
  by (simp_all add: cfg_def Let_def set_last_def bind_slot_def p_blocks_def)

lemma result_to_last_cfg [simp]: "result_to_last (Some (r, cfg h p)) = Some (cfg h (set_last r p))"
  by (simp add: result_to_last_def)


section \<open>What was emitted\<close>

text \<open>
  The instructions of a function in order, the results among them, the registers an instruction reads
  and the labels it jumps to (the two parts of the label of a conditional branch, as the code
  generator splits it).
\<close>

definition block_code :: "IRBasicBlock list \<Rightarrow> IRInstruction list" where
  "block_code bs = concat (map bb_instrs bs)"

definition code :: "IRFunction \<Rightarrow> IRInstruction list" where
  "code f = block_code (fn_blocks f)"

definition block_labels :: "IRFunction \<Rightarrow> string list" where
  "block_labels f = map bb_label (fn_blocks f)"

definition has_result :: "Opcode \<Rightarrow> bool" where
  "has_result opc \<longleftrightarrow> opc \<notin> {OpStore, OpRet, OpBranch, OpCondBranch}"

definition results :: "IRInstruction list \<Rightarrow> RegID list" where
  "results is = map ir_dest (filter (\<lambda>i. has_result (ir_opcode i)) is)"

definition reads :: "IRInstruction \<Rightarrow> RegID set" where
  "reads i = op_reg ` {x \<in> set (ir_operands i). op_kind x = OkReg}"

definition split_comma :: "string \<Rightarrow> string list" where
  "split_comma s = (case find_char CHR '','' s of None \<Rightarrow> [] | Some i \<Rightarrow> [take i s, drop (Suc i) s])"

definition targets :: "IRInstruction \<Rightarrow> string list" where
  "targets i =
     (case ir_opcode i of
        OpBranch \<Rightarrow> [ir_label i]
      | OpCondBranch \<Rightarrow> split_comma (ir_label i)
      | _ \<Rightarrow> [])"

definition jumps :: "IRInstruction list \<Rightarrow> string set" where
  "jumps is = (\<Union>i \<in> set is. set (targets i))"

text \<open>Every register read is \<open>NoReg\<close> or the result of an earlier instruction.\<close>

fun reads_known :: "RegID set \<Rightarrow> IRInstruction list \<Rightarrow> bool" where
  "reads_known known [] = True"
| "reads_known known (i # is) = (reads i \<subseteq> known \<and> reads_known (known \<union> set (results [i])) is)"

text \<open>A block is a straight line that ends in its only terminator.\<close>

definition block_ok :: "IRBasicBlock \<Rightarrow> bool" where
  "block_ok b \<longleftrightarrow> bb_instrs b \<noteq> [] \<and> isTerminator (last (bb_instrs b))
     \<and> (\<forall>i \<in> set (butlast (bb_instrs b)). \<not> isTerminator i)"

lemma results_simps [simp]:
  "results [] = []"
  "results (i # is) = (if has_result (ir_opcode i) then [ir_dest i] else []) @ results is"
  "results (xs @ ys) = results xs @ results ys"
  by (simp_all add: results_def)

lemma jumps_simps [simp]:
  "jumps [] = {}"
  "jumps (i # is) = set (targets i) \<union> jumps is"
  "jumps (xs @ ys) = jumps xs \<union> jumps ys"
  by (simp_all add: jumps_def)

lemma block_code_simps [simp]:
  "block_code [] = []"
  "block_code (b # bs) = bb_instrs b @ block_code bs"
  "block_code (bs @ cs) = block_code bs @ block_code cs"
  by (simp_all add: block_code_def)

lemma reads_known_append [simp]:
  "reads_known known (xs @ ys) = (reads_known known xs \<and> reads_known (known \<union> set (results xs)) ys)"
  by (induction xs arbitrary: known) (auto simp: Un_assoc)

lemma instr_simps [simp]:
  "ir_opcode (instr opc d ops l) = opc"
  "ir_dest (instr opc d ops l) = d"
  "ir_operands (instr opc d ops l) = ops"
  "ir_label (instr opc d ops l) = l"
  by (simp_all add: instr_def)

lemma reads_simps [simp]:
  "reads (instr opc d [] l) = {}"
  "reads (instr opc d (x # xs) l) = (if op_kind x = OkReg then {op_reg x} else {}) \<union> reads (instr opc d xs l)"
  by (auto simp: reads_def)

lemma operand_simps [simp]:
  "op_kind (fromReg r) = OkReg" "op_reg (fromReg r) = r"
  "op_kind (fromInt v) = OkIntImm" "op_kind (fromFloat d) = OkFloatImm"
  "op_kind (fromString str) = OkStringRef" "op_kind (fromBool b) = OkBoolImm"
  by (simp_all add: fromReg_def fromInt_def fromFloat_def fromString_def fromBool_def)

lemma reads_registers [simp]: "reads (instr opc d (map fromReg rs) l) = set rs"
proof -
  have "{x \<in> fromReg ` set rs. op_kind x = OkReg} = fromReg ` set rs" by auto
  then show ?thesis by (simp add: reads_def image_image)
qed

lemma has_result_simps [simp]:
  "\<not> has_result OpStore" "\<not> has_result OpRet" "\<not> has_result OpBranch" "\<not> has_result OpCondBranch"
  "has_result OpAlloca" "has_result OpLoad" "has_result OpCopy" "has_result OpParam" "has_result OpCast"
  "has_result OpCall" "has_result OpAdd" "has_result OpCmpLt" "has_result OpCmpEq"
  by (simp_all add: has_result_def)

lemma has_result_operators [simp]:
  "has_result (binaryOpToOpcode bop)" "has_result (unaryOpToOpcode uop)" "has_result (assignOpToOpcode aop)"
proof -
  show "has_result (binaryOpToOpcode bop)" by (cases bop) (simp_all add: has_result_def)
  show "has_result (unaryOpToOpcode uop)" by (cases uop) (simp_all add: has_result_def)
  show "has_result (assignOpToOpcode aop)" by (cases aop) (simp_all add: has_result_def)
qed

lemma terminator_simps [simp]:
  "isTerminator (instr OpRet d ops l)" "isTerminator (instr OpBranch d ops l)"
  "isTerminator (instr OpCondBranch d ops l)" "\<not> isTerminator (instr OpStore d ops l)"
  "has_result opc \<Longrightarrow> \<not> isTerminator (instr opc d ops l)"
  by (auto simp: isTerminator_def has_result_def)

lemma targets_simps [simp]:
  "targets (instr OpRet d ops l) = []"
  "targets (instr OpBranch d ops l) = [l]"
  "targets (instr OpCondBranch d ops l) = split_comma l"
  "targets (instr OpStore d ops l) = []"
  "has_result opc \<Longrightarrow> targets (instr opc d ops l) = []"
  by (auto simp: targets_def has_result_def split: Opcode.split)

lemma split_comma_join: "CHR '','' \<notin> set a \<Longrightarrow> split_comma (a @ '','' @ b) = [a, b]"
  by (simp add: split_comma_def find_char_append_notin)

lemma comma_not_in_lab [simp]: "CHR '','' \<in> set (lab x k) \<longleftrightarrow> CHR '','' \<in> set x"
proof -
  have "\<not> isdigit CHR '',''" by code_simp
  then have "CHR '','' \<notin> set (nat_to_string m)" for m
    using nat_to_string_digits [of m] by (auto simp: list_all_iff)
  then show ?thesis by (auto simp: lab_def u32_to_string_def)
qed

text \<open>Labels with different numbers differ, as long as the numbers fit the counter.\<close>

lemma digits_suffix:
  assumes "a @ ''_'' @ s = b @ ''_'' @ t" "CHR ''_'' \<notin> set s" "CHR ''_'' \<notin> set t"
  shows "s = t"
proof -
  have "takeWhile (\<lambda>c. c \<noteq> CHR ''_'') (rev (x @ ''_'' @ u)) = rev u" if "CHR ''_'' \<notin> set u" for x u
    using that by (simp add: takeWhile_append2 takeWhile_append1) (subst takeWhile_append2; auto)
  from this [OF assms(2), of a] this [OF assms(3), of b] assms(1) have "rev s = rev t" by metis
  then show ?thesis by simp
qed

lemma lab_inj:
  assumes "lab x k = lab y m" "k < 2 ^ 32" "m < 2 ^ 32"
  shows "k = m"
proof -
  have "\<not> isdigit CHR ''_''" by code_simp
  then have "CHR ''_'' \<notin> set (nat_to_string n)" for n
    using nat_to_string_digits [of n] by (auto simp: list_all_iff)
  with assms(1) have "nat_to_string (unat (of_nat k :: u32)) = nat_to_string (unat (of_nat m :: u32))"
    unfolding lab_def u32_to_string_def by (blast intro: digits_suffix)
  then have "unat (of_nat k :: u32) = unat (of_nat m :: u32)" by (rule nat_to_string_inj)
  with assms(2,3) show ?thesis by (simp add: unat_of_nat)
qed

lemma lab_not_entry: "lab x k \<noteq> ''entry''"
proof
  assume "lab x k = ''entry''"
  then have "CHR ''_'' \<in> set ''entry''" by (metis lab_def in_set_conv_decomp append_Cons append_Nil)
  then show False by simp
qed

end
