(* ===== verification/Vcc_IrGen_Props.thy ===== *)
theory Vcc_IrGen_Props
  imports Vcc_IrEmit
begin

text \<open>
  The code that lowering produces is well formed: registers are numbered in order and defined before
  they are read, every block is a straight line that ends in its only terminator, every jump goes to
  a block of the function, and labels are unique as far as the counters do not wrap and every
  \<open>match\<close> has a wildcard arm.
\<close>

section \<open>The invariant of a point\<close>

definition p_code :: "Point \<Rightarrow> IRInstruction list" where
  "p_code p = block_code (p_blocks p)"

definition p_labels :: "Point \<Rightarrow> string list" where
  "p_labels p = map bb_label (p_blocks p)"

definition known :: "Point \<Rightarrow> RegID set" where
  "known p = insert NoReg (set (results (p_code p)))"

text \<open>The registers of a function that has allocated \<open>n\<close>: 1, 2, 3, ... modulo the width.\<close>

definition first_regs :: "nat \<Rightarrow> RegID list" where
  "first_regs n = map of_nat [1..<Suc n]"

definition point_ok :: "Point \<Rightarrow> bool" where
  "point_ok p \<longleftrightarrow> results (p_code p) = first_regs (p_reg p) \<and> reads_known {NoReg} (p_code p)
     \<and> ran (p_slots p) \<subseteq> known p
     \<and> (\<forall>b \<in> set (p_done p). block_ok b) \<and> (\<forall>i \<in> set (p_instrs p). \<not> isTerminator i)"

lemma p_code_simps [simp]:
  "p_code (emit_value opc ops l p) = p_code p @ [instr opc (next_reg p) ops l]"
  "p_code (emit_effect opc ops l p) = p_code p @ [instr opc NoReg ops l]"
  "p_code (fresh p) = p_code p"
  "p_code (start l p) = p_code p"
  "p_code (set_last r p) = p_code p"
  "p_code (bind_slot x r p) = p_code p"
  by (simp_all add: p_code_def p_blocks_def point_defs)

lemma p_labels_simps [simp]:
  "p_labels (emit_value opc ops l p) = p_labels p"
  "p_labels (emit_effect opc ops l p) = p_labels p"
  "p_labels (fresh p) = p_labels p"
  "p_labels (start l p) = p_labels p @ [l]"
  "p_labels (set_last r p) = p_labels p"
  "p_labels (bind_slot x r p) = p_labels p"
  by (simp_all add: p_labels_def p_blocks_def point_defs)

lemma p_reg_simps [simp]:
  "p_reg (emit_value opc ops l p) = Suc (p_reg p)"
  "p_reg (emit_effect opc ops l p) = p_reg p"
  "p_reg (fresh p) = p_reg p"
  "p_reg (start l p) = p_reg p"
  "p_reg (set_last r p) = p_reg p"
  "p_reg (bind_slot x r p) = p_reg p"
  by (simp_all add: point_defs)

lemma p_block_simps [simp]:
  "p_done (emit_value opc ops l p) = p_done p"
  "p_done (emit_effect opc ops l p) = p_done p"
  "p_done (fresh p) = p_done p"
  "p_done (start l p) = p_blocks p"
  "p_done (set_last r p) = p_done p"
  "p_done (bind_slot x r p) = p_done p"
  "p_instrs (emit_value opc ops l p) = p_instrs p @ [instr opc (next_reg p) ops l]"
  "p_instrs (emit_effect opc ops l p) = p_instrs p @ [instr opc NoReg ops l]"
  "p_instrs (fresh p) = p_instrs p"
  "p_instrs (start l p) = []"
  "p_instrs (set_last r p) = p_instrs p"
  "p_instrs (bind_slot x r p) = p_instrs p"
  "p_label (emit_value opc ops l p) = p_label p"
  "p_label (emit_effect opc ops l p) = p_label p"
  "p_label (fresh p) = p_label p"
  "p_label (start l p) = l"
  "p_label (set_last r p) = p_label p"
  "p_label (bind_slot x r p) = p_label p"
  by (simp_all add: point_defs)

lemma p_lc_simps [simp]:
  "p_lc (emit_value opc ops l p) = p_lc p"
  "p_lc (emit_effect opc ops l p) = p_lc p"
  "p_lc (fresh p) = Suc (p_lc p)"
  "p_lc (start l p) = p_lc p"
  "p_lc (set_last r p) = p_lc p"
  "p_lc (bind_slot x r p) = p_lc p"
  by (simp_all add: point_defs)

lemma p_last_simps [simp]:
  "p_last (emit_value opc ops l p) = p_last p"
  "p_last (emit_effect opc ops l p) = p_last p"
  "p_last (fresh p) = p_last p"
  "p_last (start l p) = p_last p"
  "p_last (set_last r p) = r"
  "p_last (bind_slot x r p) = p_last p"
  by (simp_all add: point_defs)

lemma p_slots_simps [simp]:
  "p_slots (emit_value opc ops l p) = p_slots p"
  "p_slots (emit_effect opc ops l p) = p_slots p"
  "p_slots (fresh p) = p_slots p"
  "p_slots (start l p) = p_slots p"
  "p_slots (set_last r p) = p_slots p"
  "p_slots (bind_slot x r p) = (p_slots p)(x \<mapsto> r)"
  by (simp_all add: point_defs)

lemma known_simps [simp]:
  "has_result opc \<Longrightarrow> known (emit_value opc ops l p) = insert (next_reg p) (known p)"
  "\<not> has_result opc \<Longrightarrow> known (emit_effect opc ops l p) = known p"
  "known (fresh p) = known p"
  "known (start l p) = known p"
  "known (set_last r p) = known p"
  "known (bind_slot x r p) = known p"
  "NoReg \<in> known p"
  by (auto simp: known_def)

lemma point_ok_slot: "point_ok p \<Longrightarrow> p_slots p x = Some r \<Longrightarrow> r \<in> known p"
  by (auto simp: point_ok_def intro: ranI)

lemma point_ok_open: "point_ok p \<Longrightarrow> \<not> p_closed p"
  using last_in_set by (auto simp: point_ok_def p_closed_def)

lemma first_regs_Suc: "first_regs (Suc (p_reg p)) = first_regs (p_reg p) @ [next_reg p]"
  by (simp add: first_regs_def next_reg_def)

lemma reads_known_code: "reads_known {NoReg} (p_code p @ [i]) = (reads_known {NoReg} (p_code p) \<and> reads i \<subseteq> known p)"
  by (simp add: known_def)

lemma point_ok_value:
  "point_ok p \<Longrightarrow> has_result opc \<Longrightarrow> reads (instr opc (next_reg p) ops l) \<subseteq> known p
    \<Longrightarrow> point_ok (emit_value opc ops l p)"
  by (auto simp: point_ok_def first_regs_Suc reads_known_code simp del: reads_known_append)

lemma point_ok_store:
  "point_ok p \<Longrightarrow> v \<in> known p \<Longrightarrow> r \<in> known p \<Longrightarrow> point_ok (emit_effect OpStore [fromReg v, fromReg r] [] p)"
  by (auto simp: point_ok_def reads_known_code simp del: reads_known_append)

lemma block_ok_jump:
  "\<forall>i \<in> set (p_instrs p). \<not> isTerminator i \<Longrightarrow> isTerminator t
    \<Longrightarrow> block_ok \<lparr>bb_label = l, bb_instrs = p_instrs p @ [t]\<rparr>"
  by (simp add: block_ok_def)

lemma point_ok_jump:
  assumes "point_ok p" "opc \<in> {OpRet, OpBranch, OpCondBranch}" "reads (instr opc NoReg ops l) \<subseteq> known p"
  shows "point_ok (start L (emit_effect opc ops l p))"
proof -
  have t: "isTerminator (instr opc NoReg ops l)" "\<not> has_result opc" using assms(2) by auto
  have "p_blocks (emit_effect opc ops l p) =
      p_done p @ [\<lparr>bb_label = p_label p, bb_instrs = p_instrs p @ [instr opc NoReg ops l]\<rparr>]"
    by (simp add: p_blocks_def)
  with assms t block_ok_jump [of p _ "p_label p"] show ?thesis
    by (auto simp: point_ok_def reads_known_code simp del: reads_known_append)
qed

lemma point_ok_fresh [simp]: "point_ok (fresh p) = point_ok p"
  by (simp add: point_ok_def)

lemma point_ok_set_last [simp]: "point_ok (set_last r p) = point_ok p"
  by (simp add: point_ok_def)

lemma point_ok_bind: "point_ok p \<Longrightarrow> r \<in> known p \<Longrightarrow> point_ok (bind_slot x r p)"
  by (auto simp: point_ok_def ran_def)

lemma fresh_after_jump: "start l (fresh (emit_effect opc ops x p)) = start l (emit_effect opc ops x (fresh p))"
  by (simp add: point_defs p_blocks_def)


section \<open>Expressions are straight-line code\<close>

definition straight :: "Point \<Rightarrow> Point \<Rightarrow> bool" where
  "straight p p' \<longleftrightarrow> point_ok p' \<and> known p \<subseteq> known p' \<and> p_done p' = p_done p \<and> p_label p' = p_label p
     \<and> p_lc p' = p_lc p \<and> p_slots p' = p_slots p \<and> (\<exists>new. p_instrs p' = p_instrs p @ new)"

lemma straight_refl: "point_ok p \<Longrightarrow> straight p p"
  by (simp add: straight_def)

lemma straight_trans: "straight p p' \<Longrightarrow> straight p' p'' \<Longrightarrow> straight p p''"
  by (auto simp: straight_def)

lemma straight_ok: "straight p p' \<Longrightarrow> point_ok p'"
  by (simp add: straight_def)

lemma straight_known: "straight p p' \<Longrightarrow> r \<in> known p \<Longrightarrow> r \<in> known p'"
  by (auto simp: straight_def)

lemma straightD: "straight p p' \<Longrightarrow> point_ok p' \<and> known p \<subseteq> known p'"
  by (simp add: straight_def)

lemma straight_value:
  "point_ok p \<Longrightarrow> has_result opc \<Longrightarrow> reads (instr opc (next_reg p) ops l) \<subseteq> known p
    \<Longrightarrow> straight p (emit_value opc ops l p)"
  by (auto simp: straight_def intro: point_ok_value)

lemma straight_store:
  "point_ok p \<Longrightarrow> v \<in> known p \<Longrightarrow> r \<in> known p \<Longrightarrow> straight p (emit_effect OpStore [fromReg v, fromReg r] [] p)"
  by (simp add: straight_def point_ok_store)

lemma straight_set_last: "straight p p' \<Longrightarrow> straight p (set_last r p')"
  by (simp add: straight_def)

lemma straight_result:
  "straight p p' \<Longrightarrow> has_result opc \<Longrightarrow> reads (instr opc (next_reg p') ops l) \<subseteq> known p'
    \<Longrightarrow> straight p (set_last (next_reg p') (emit_value opc ops l p'))"
  by (rule straight_set_last) (auto intro: straight_trans straight_value straight_ok)

text \<open>
  \<open>lowers_to m h p\<close>: the computation succeeds with straight-line code from \<open>p\<close>, and its result
  register is defined.
\<close>

definition lowers_to :: "IRGen option \<Rightarrow> home \<Rightarrow> Point \<Rightarrow> bool" where
  "lowers_to m h p \<longleftrightarrow> (\<exists>p'. m = Some (cfg h p') \<and> straight p p' \<and> p_last p' \<in> known p')"

lemma lowers_to_Some: "straight p p' \<Longrightarrow> p_last p' \<in> known p' \<Longrightarrow> lowers_to (Some (cfg h p')) h p"
  by (auto simp: lowers_to_def)

lemma lowers_to_bind:
  "lowers_to m h p \<Longrightarrow> (\<And>p'. straight p p' \<Longrightarrow> p_last p' \<in> known p' \<Longrightarrow> lowers_to (f (cfg h p')) h p') \<Longrightarrow> lowers_to (Option.bind m f) h p"
  by (fastforce simp: lowers_to_def intro: straight_trans)

lemma lowers_to_weaken: "straight p p' \<Longrightarrow> lowers_to m h p' \<Longrightarrow> lowers_to m h p"
  by (auto simp: lowers_to_def intro: straight_trans)

lemma gen_ident_lowers: "point_ok p \<Longrightarrow> lowers_to (gen_ident x (cfg h p)) h p"
  by (auto simp: gen_ident_def point_ok_slot split: option.split
      intro!: lowers_to_Some straight_result straight_refl)

lemma gen_assign_store_lowers:
  assumes "straight p p'" "r \<in> known p'"
  shows "lowers_to (gen_assign_store e r (cfg h p')) h p"
proof -
  have ok: "point_ok p'" using assms(1) by (rule straight_ok)
  have "\<exists>q. gen_assign_store e r (cfg h p') = Some (cfg h (set_last r q)) \<and> straight p' q"
  proof (cases "\<exists>x s. e = IdentExpr x s \<and> p_slots p' x \<noteq> None")
    case True
    then obtain x s slot where "e = IdentExpr x s" "p_slots p' x = Some slot" by auto
    with ok assms(2) show ?thesis
      by (auto simp: gen_assign_store_def intro!: exI straight_store dest: point_ok_slot)
  next
    case False
    then have "gen_assign_store e r (cfg h p') = Some (cfg h (set_last r p'))"
      unfolding gen_assign_store_def by (cases e) auto
    with ok show ?thesis by (blast intro: straight_refl)
  qed
  then obtain q where q: "gen_assign_store e r (cfg h p') = Some (cfg h (set_last r q))" "straight p' q" by blast
  have "straight p q" "r \<in> known q"
    using assms q(2) by (blast intro: straight_trans straight_known)+
  with q(1) show ?thesis by (simp add: lowers_to_Some straight_set_last)
qed

lemma gen_args_lowers:
  assumes "\<And>e p. e \<in> set es \<Longrightarrow> point_ok p \<Longrightarrow> lowers_to (gen_expr e (cfg h p)) h p" "point_ok p"
  shows "\<exists>rs p'. gen_args es (cfg h p) = Some (rs, cfg h p') \<and> straight p p' \<and> set rs \<subseteq> known p'"
  using assms
proof (induction es arbitrary: p)
  case Nil
  then show ?case by (auto intro: straight_refl)
next
  case (Cons e es)
  from Cons.prems obtain p1 where p1: "gen_expr e (cfg h p) = Some (cfg h p1)" "straight p p1" "p_last p1 \<in> known p1"
    by (fastforce simp: lowers_to_def)
  have "\<exists>rs p'. gen_args es (cfg h p1) = Some (rs, cfg h p') \<and> straight p1 p' \<and> set rs \<subseteq> known p'"
    using Cons.prems p1 by (intro Cons.IH straight_ok) auto
  then obtain rs p' where p': "gen_args es (cfg h p1) = Some (rs, cfg h p')" "straight p1 p'" "set rs \<subseteq> known p'"
    by blast
  have "p_last p1 \<in> known p'" using p1(2,3) p'(2) by (auto dest!: straightD)
  with p1 p' show ?case
    by (intro exI [of _ "p_last p1 # rs"] exI [of _ p']) (auto intro: straight_trans)
qed

lemma gen_elements_lowers:
  assumes "\<And>e p. e \<in> set es \<Longrightarrow> point_ok p \<Longrightarrow> lowers_to (gen_expr e (cfg h p)) h p" "point_ok p" "r \<in> known p"
  shows "\<exists>r' p'. gen_elements i r es (cfg h p) = Some (r', cfg h p') \<and> straight p p' \<and> r' \<in> known p'"
  using assms
proof (induction es arbitrary: i r p)
  case Nil
  then show ?case by (auto intro: straight_refl)
next
  case (Cons e es)
  from Cons.prems obtain p1 where p1: "gen_expr e (cfg h p) = Some (cfg h p1)" "straight p p1" "p_last p1 \<in> known p1"
    by (fastforce simp: lowers_to_def)
  define p2 where "p2 = emit_value OpAlloca [] (''__arr_'' @ nat_to_string i) p1"
  define p3 where "p3 = emit_effect OpStore [fromReg (p_last p1), fromReg (next_reg p1)] [] p2"
  have p2: "straight p1 p2" unfolding p2_def using p1 by (intro straight_value) (auto dest!: straightD)
  then have p3: "straight p2 p3"
    unfolding p3_def using p1 by (intro straight_store) (auto dest!: straightD simp: p2_def)
  have p13: "straight p p3" using p1(2) p2 p3 by (metis straight_trans)
  have "\<exists>r' p'. gen_elements (Suc i) (if i = 0 then next_reg p1 else r) es (cfg h p3) = Some (r', cfg h p')
      \<and> straight p3 p' \<and> r' \<in> known p'"
  proof (rule Cons.IH)
    show "point_ok p3" using p3 by (rule straight_ok)
    have "next_reg p1 \<in> known p3" "r \<in> known p3"
      using p13 Cons.prems(3) by (auto dest!: straightD simp: p2_def p3_def)
    then show "(if i = 0 then next_reg p1 else r) \<in> known p3" by simp
  qed (use Cons.prems in auto)
  then obtain r' p' where "gen_elements (Suc i) (if i = 0 then next_reg p1 else r) es (cfg h p3) = Some (r', cfg h p')"
      "straight p3 p'" "r' \<in> known p'" by blast
  with p1 p13 show ?case
    by (intro exI [of _ r'] exI [of _ p']) (simp add: p2_def p3_def, blast intro: straight_trans)
qed

lemma gen_expr_call_other:
  "\<nexists>x r. callee = IdentExpr x r \<Longrightarrow> gen_expr (CallExpr callee args r) s =
    do { s1 \<leftarrow> gen_expr callee s;
         (regs, s2) \<leftarrow> gen_args args s1;
         result_to_last (buildCall (CHR ''%'' # u32_to_string (lastReg s1)) regs s2) }"
  by (cases callee) simp_all

lemma gen_expr_lowers:
  fixes t :: TypeNode
  shows "True" and "point_ok p \<Longrightarrow> lowers_to (gen_expr e (cfg h p)) h p"
proof (induction t and e arbitrary: and p)
  case (BinaryExpr opr a b r)
  show ?case unfolding gen_expr.simps
    by (rule lowers_to_bind [OF BinaryExpr(1) [OF BinaryExpr(3)]], rule lowers_to_bind [OF BinaryExpr(2)])
      (auto intro!: lowers_to_Some straight_result straight_refl dest!: straightD)
next
  case (IndexExpr a b r)
  show ?case unfolding gen_expr.simps
    by (rule lowers_to_bind [OF IndexExpr(1) [OF IndexExpr(3)]], rule lowers_to_bind [OF IndexExpr(2)])
      (auto intro!: lowers_to_Some straight_result straight_refl dest!: straightD)
next
  case (UnaryExpr opr a r)
  show ?case unfolding gen_expr.simps
    by (rule lowers_to_bind [OF UnaryExpr(1) [OF UnaryExpr(2)]], cases opr)
      (auto intro!: lowers_to_Some straight_result straight_refl dest!: straightD
        simp del: unaryOpToOpcode.simps)
next
  case (AssignExpr opr target v r)
  show ?case
  proof (cases "opr = AoAssign")
    case True
    then show ?thesis unfolding gen_expr.simps
      by simp (rule lowers_to_bind [OF AssignExpr(2) [OF AssignExpr(3)]],
        auto intro!: gen_assign_store_lowers straight_refl dest!: straightD)
  next
    case False
    then show ?thesis unfolding gen_expr.simps
      by simp (rule lowers_to_bind [OF AssignExpr(1) [OF AssignExpr(3)]], rule lowers_to_bind [OF AssignExpr(2)],
        auto intro!: gen_assign_store_lowers straight_value dest!: straightD)
  qed
next
  case (CallExpr callee args r)
  have args: "\<exists>rs p'. gen_args args (cfg h q) = Some (rs, cfg h p') \<and> straight q p' \<and> set rs \<subseteq> known p'"
    if "point_ok q" for q
    using CallExpr(2) that by (rule gen_args_lowers)
  have call: "lowers_to (do { (regs, s2) \<leftarrow> gen_args args (cfg h q); result_to_last (buildCall f regs s2) }) h q"
    if q: "point_ok q" for f q
  proof -
    obtain rs p' where "gen_args args (cfg h q) = Some (rs, cfg h p')" "straight q p'" "set rs \<subseteq> known p'"
      using args [OF q] by blast
    then show ?thesis by (simp add: lowers_to_Some straight_result)
  qed
  show ?case
  proof (cases "\<exists>x r. callee = IdentExpr x r")
    case True
    then show ?thesis using call [OF CallExpr(3)] by auto
  next
    case False
    then show ?thesis unfolding gen_expr_call_other [OF False]
      by (intro lowers_to_bind [OF CallExpr(1) [OF CallExpr(3)]] call) (auto dest!: straightD)
  qed
next
  case (ArrayLiteralExpr es r)
  have "\<exists>r' p'. gen_elements 0 0 es (cfg h p) = Some (r', cfg h p') \<and> straight p p' \<and> r' \<in> known p'"
    using ArrayLiteralExpr by (intro gen_elements_lowers) auto
  then show ?case by (auto intro!: lowers_to_Some straight_set_last)
next
  case (MemberExpr a x r)
  show ?case unfolding gen_expr.simps
    by (rule lowers_to_bind [OF MemberExpr(1) [OF MemberExpr(2)]])
      (auto intro!: lowers_to_Some straight_result straight_refl dest!: straightD)
next
  case (CastExpr a t r)
  show ?case unfolding gen_expr.simps
    by (rule lowers_to_bind [OF CastExpr(1) [OF CastExpr(3)]])
      (auto intro!: lowers_to_Some straight_result straight_refl dest!: straightD)
qed (auto intro!: lowers_to_Some straight_result straight_refl gen_ident_lowers)


section \<open>Statements\<close>

text \<open>
  Function bodies as the parser builds them: the only declarations inside are variables. And the
  condition that every \<open>match\<close> with arms has a wildcard arm.
\<close>

fun plain_local :: "Decl \<Rightarrow> bool" where
  "plain_local (ModuleDecl _ _ _) = False"
| "plain_local (FunctionDecl _ _ _ _ _ _) = False"
| "plain_local _ = True"

fun plain_stmt :: "Stmt \<Rightarrow> bool"
  and plain_arm :: "MatchArm \<Rightarrow> bool" where
  "plain_stmt (BlockStmt ss _) = list_all plain_stmt ss"
| "plain_stmt (DeclStmt d _) = plain_local d"
| "plain_stmt (IfStmt _ t e _) = (plain_stmt t \<and> (case e of None \<Rightarrow> True | Some s \<Rightarrow> plain_stmt s))"
| "plain_stmt (WhileStmt _ b _) = plain_stmt b"
| "plain_stmt (VloopStmt _ b _) = plain_stmt b"
| "plain_stmt (ForStmt _ _ b _) = plain_stmt b"
| "plain_stmt (MatchStmt _ arms _) = list_all plain_arm arms"
| "plain_stmt _ = True"
| "plain_arm (MatchArm _ b) = plain_stmt b"

fun wildcards :: "Stmt \<Rightarrow> bool"
  and wildcards_arm :: "MatchArm \<Rightarrow> bool" where
  "wildcards (BlockStmt ss _) = list_all wildcards ss"
| "wildcards (IfStmt _ t e _) = (wildcards t \<and> (case e of None \<Rightarrow> True | Some s \<Rightarrow> wildcards s))"
| "wildcards (WhileStmt _ b _) = wildcards b"
| "wildcards (VloopStmt _ b _) = wildcards b"
| "wildcards (ForStmt _ _ b _) = wildcards b"
| "wildcards (MatchStmt _ arms _) =
     (list_all wildcards_arm arms \<and> (arms = [] \<or> list_ex (\<lambda>a. arm_pattern a = None) arms))"
| "wildcards _ = True"
| "wildcards_arm (MatchArm _ b) = wildcards b"

text \<open>
  \<open>grows ls J n p p'\<close>: from \<open>p\<close> to \<open>p'\<close> the blocks \<open>ls\<close> were started, the new code jumps to labels in
  \<open>J\<close> only, and it has at least \<open>n\<close> instructions.
\<close>

definition grows :: "string list \<Rightarrow> string set \<Rightarrow> nat \<Rightarrow> Point \<Rightarrow> Point \<Rightarrow> bool" where
  "grows ls J n p p' \<longleftrightarrow> point_ok p' \<and> known p \<subseteq> known p' \<and> p_labels p' = p_labels p @ ls
     \<and> (\<exists>new. p_code p' = p_code p @ new \<and> jumps new \<subseteq> J \<and> n \<le> length new)"

lemma grows_refl: "point_ok p \<Longrightarrow> grows [] {} 0 p p"
  by (simp add: grows_def)

lemma grows_trans: "grows ls J n p p' \<Longrightarrow> grows ls' J' n' p' p'' \<Longrightarrow> grows (ls @ ls') (J \<union> J') (n + n') p p''"
  by (fastforce simp: grows_def)

lemma grows_weaken: "grows ls J n p p' \<Longrightarrow> ls = ls' \<Longrightarrow> J \<subseteq> J' \<Longrightarrow> n' \<le> n \<Longrightarrow> grows ls' J' n' p p'"
  by (fastforce simp: grows_def)

lemma growsD: "grows ls J n p p' \<Longrightarrow> point_ok p' \<and> known p \<subseteq> known p'"
  by (simp add: grows_def)

lemma no_jumps: "\<forall>i \<in> set is. \<not> isTerminator i \<Longrightarrow> jumps is = {}"
  by (auto simp: jumps_def targets_def isTerminator_def split: Opcode.splits)

lemma grows_straight: "straight p p' \<Longrightarrow> grows [] {} 0 p p'"
proof -
  assume s: "straight p p'"
  then obtain new where new: "p_instrs p' = p_instrs p @ new" by (auto simp: straight_def)
  with s have "jumps new = {}" by (intro no_jumps) (auto simp: straight_def point_ok_def)
  with s new show ?thesis
    by (auto simp: grows_def straight_def p_code_def p_labels_def p_blocks_def)
qed

lemma grows_fresh: "grows ls J n p q \<Longrightarrow> grows ls J n p (fresh q)"
  by (simp add: grows_def)

lemma grows_bind: "grows ls J n p q \<Longrightarrow> r \<in> known q \<Longrightarrow> grows ls J n p (bind_slot x r q)"
  by (simp add: grows_def point_ok_bind)

lemma grows_value:
  "grows ls J n p q \<Longrightarrow> has_result opc \<Longrightarrow> reads (instr opc (next_reg q) ops l) \<subseteq> known q
    \<Longrightarrow> grows ls J (n + 1) p (emit_value opc ops l q)"
  by (auto simp: grows_def point_ok_value)

lemma grows_store:
  "grows ls J n p q \<Longrightarrow> v \<in> known q \<Longrightarrow> r \<in> known q
    \<Longrightarrow> grows ls J (n + 1) p (emit_effect OpStore [fromReg v, fromReg r] [] q)"
  by (auto simp: grows_def point_ok_store)

lemma grows_branch:
  "grows ls J n p q \<Longrightarrow> grows (ls @ [l]) (insert x J) (n + 1) p (start l (emit_effect OpBranch [] x q))"
  by (auto simp: grows_def point_ok_jump)

lemma grows_cond:
  "grows ls J n p q \<Longrightarrow> c \<in> known q \<Longrightarrow> CHR '','' \<notin> set x \<Longrightarrow>
    grows (ls @ [l]) (insert x (insert y J)) (n + 1) p (start l (emit_effect OpCondBranch [fromReg c] (x @ '','' @ y) q))"
  unfolding grows_def by (auto simp: point_ok_jump split_comma_join [simplified])

lemma grows_ret:
  "grows ls J n p q \<Longrightarrow> set rs \<subseteq> known q \<Longrightarrow>
    grows (ls @ [l]) J (n + 1) p (start l (emit_effect OpRet (map fromReg rs) [] q))"
  by (auto simp: grows_def point_ok_jump)

lemmas grows_steps = grows_fresh grows_bind grows_value grows_store grows_branch grows_cond grows_ret

text \<open>What lowering a statement does; labels are given by prefix and number.\<close>

definition lab_of :: "string \<times> nat \<Rightarrow> string" where
  "lab_of k = lab (fst k) (snd k)"

definition lowered :: "bool \<Rightarrow> string set \<Rightarrow> Point \<Rightarrow> Point \<Rightarrow> bool" where
  "lowered w J p p' \<longleftrightarrow> p_lc p \<le> p_lc p' \<and>
     (\<exists>ks n. grows (map lab_of ks) (J \<union> lab_of ` set ks) n p p' \<and> p_lc p' \<le> p_lc p + 2 * n
       \<and> snd ` set ks \<subseteq> {p_lc p ..< p_lc p'} \<and> (w \<longrightarrow> distinct (map snd ks)))"

lemma loweredI:
  assumes "grows ls J' n p p'" "ls = map lab_of ks" "J' \<subseteq> J \<union> lab_of ` set ks" "p_lc p' \<le> p_lc p + 2 * n" "p_lc p \<le> p_lc p'"
    and "\<forall>k \<in> set ks. p_lc p \<le> snd k \<and> snd k < p_lc p'" "w \<Longrightarrow> distinct (map snd ks)"
  shows "lowered w J p p'"
  unfolding lowered_def using assms by (intro conjI exI [of _ ks] exI [of _ n]) (auto elim: grows_weaken)

lemma lowered_straight: "straight p p' \<Longrightarrow> lowered w J p p'"
  by (rule loweredI [OF grows_straight, of _ _ "[]"]) (auto simp: straight_def)

lemma lowered_ok: "lowered w J p p' \<Longrightarrow> point_ok p'"
  by (auto simp: lowered_def grows_def)

lemma lowered_trans:
  assumes "lowered w J p p'" "lowered w' J' p' p''" "v \<Longrightarrow> w \<and> w'"
  shows "lowered v (J \<union> J') p p''"
proof -
  from assms(1) obtain ks n where ks: "grows (map lab_of ks) (J \<union> lab_of ` set ks) n p p'" "p_lc p' \<le> p_lc p + 2 * n"
      "snd ` set ks \<subseteq> {p_lc p ..< p_lc p'}" "w \<longrightarrow> distinct (map snd ks)" "p_lc p \<le> p_lc p'"
    unfolding lowered_def by blast
  from assms(2) obtain ks' n' where ks': "grows (map lab_of ks') (J' \<union> lab_of ` set ks') n' p' p''" "p_lc p'' \<le> p_lc p' + 2 * n'"
      "snd ` set ks' \<subseteq> {p_lc p' ..< p_lc p''}" "w' \<longrightarrow> distinct (map snd ks')" "p_lc p' \<le> p_lc p''"
    unfolding lowered_def by blast
  show ?thesis
  proof (rule loweredI [OF grows_trans [OF ks(1) ks'(1)], of "ks @ ks'"])
    show "v \<Longrightarrow> distinct (map snd (ks @ ks'))"
      using assms(3) ks(3,4) ks'(3,4) by fastforce
  qed (use ks ks' in fastforce)+
qed

end
