(* ===== verification/Vcc_IrGen_Wellformed.thy ===== *)
theory Vcc_IrGen_Wellformed
  imports Vcc_IrGen_Props
begin

text \<open>
  Well-formedness of the generated functions: each statement form is a chain of the steps of
  Vcc_IrGen_Props, a function is such a chain from its entry point, and a module is generated function
  by function. The properties at the end are about \<open>generate\<close>.
\<close>

section \<open>Statements\<close>

text \<open>A part of the lowering that was obtained from a hypothesis, with its labels.\<close>

definition lowers_stmt :: "bool \<Rightarrow> (IRGen \<Rightarrow> IRGen option) \<Rightarrow> home \<Rightarrow> bool" where
  "lowers_stmt w f h \<longleftrightarrow> (\<forall>p. point_ok p \<longrightarrow> (\<exists>p'. f (cfg h p) = Some (cfg h p') \<and> lowered w {} p p'))"

lemma lowers_stmtE:
  assumes "lowers_stmt w f h" "point_ok p"
  obtains p' ks n where "f (cfg h p) = Some (cfg h p')" "p_lc p \<le> p_lc p'" "p_lc p' \<le> p_lc p + 2 * n"
    "grows (map lab_of ks) (lab_of ` set ks) n p p'"
    "\<forall>k \<in> set ks. p_lc p \<le> snd k \<and> snd k < p_lc p'" "w \<longrightarrow> distinct (map snd ks)"
  using assms unfolding lowers_stmt_def lowered_def by force

lemma grows_ok: "grows ls J n p p' \<Longrightarrow> point_ok p'"
  by (simp add: grows_def)

lemma exprE:
  assumes "point_ok p"
  obtains p' where "gen_expr e (cfg h p) = Some (cfg h p')" "straight p p'" "p_lc p' = p_lc p" "p_last p' \<in> known p'"
  using gen_expr_lowers(2) [OF assms, of e h] by (auto simp: lowers_to_def straight_def)

lemma cfg_slots: "(cfg h p)\<lparr>varSlots := m\<rparr> = cfg h (p\<lparr>p_slots := m\<rparr>)"
  by (simp add: cfg_def Let_def p_blocks_def)

lemma branch_open [simp]: "point_ok p \<Longrightarrow> p_closed p = False"
  by (simp add: point_ok_open)


text \<open>The loop with a condition that \<open>while\<close> and the general \<open>vloop\<close> share.\<close>

definition gen_loop :: "string \<Rightarrow> string \<Rightarrow> string \<Rightarrow> Expr \<Rightarrow> (IRGen \<Rightarrow> IRGen option) \<Rightarrow> IRGen \<Rightarrow> IRGen option" where
  "gen_loop cl bl el c body s =
     do { let (condLabel, s) = newLabel cl s;
          let (bodyLabel, s) = newLabel bl s;
          let (exitLabel, s) = newLabel el s;
          s \<leftarrow> buildBranch condLabel s;
          s \<leftarrow> startBlock condLabel s;
          s \<leftarrow> gen_expr c s;
          s \<leftarrow> buildCondBranch (lastReg s) bodyLabel exitLabel s;
          s \<leftarrow> startBlock bodyLabel s;
          s \<leftarrow> body s;
          s \<leftarrow> branchIfOpen condLabel s;
          startBlock exitLabel s }"

lemma gen_while: "gen_stmt (WhileStmt c body r) = gen_loop ''while_cond'' ''while_body'' ''while_exit'' c (gen_stmt body)"
  by (rule ext) (simp add: gen_loop_def)

lemma gen_vloop: "\<nexists>n r. c = IntLiteralExpr n r \<Longrightarrow>
    gen_stmt (VloopStmt c body r) = gen_loop ''vloop_cond'' ''vloop_body'' ''vloop_exit'' c (gen_stmt body)"
  by (rule ext) (cases c; simp add: gen_loop_def)

lemma loop_lowers:
  assumes body: "lowers_stmt w body h" and nc: "CHR '','' \<notin> set bl"
  shows "lowers_stmt w (gen_loop cl bl el c body) h"
  unfolding lowers_stmt_def
proof (intro allI impI)
  fix p assume p: "point_ok p"
  define c0 where "c0 = lab cl (p_lc p)"
  define b0 where "b0 = lab bl (Suc (p_lc p))"
  define e0 where "e0 = lab el (Suc (Suc (p_lc p)))"
  define p1 where "p1 = start c0 (emit_effect OpBranch [] c0 (fresh (fresh (fresh p))))"
  have g1: "grows [c0] {c0} 1 p p1"
    unfolding p1_def by (rule grows_weaken, (rule grows_steps grows_refl p)+) auto
  then obtain p2 where p2: "gen_expr c (cfg h p1) = Some (cfg h p2)" "straight p1 p2" "p_lc p2 = p_lc p1" "p_last p2 \<in> known p2"
    using exprE by (blast dest: growsD)
  define p3 where "p3 = start b0 (emit_effect OpCondBranch [fromReg (p_last p2)] (b0 @ '','' @ e0) p2)"
  have g3: "grows [c0, b0] {c0, b0, e0} 2 p p3"
    unfolding p3_def
    by (rule grows_weaken, (rule grows_cond grows_trans [OF g1 grows_straight [OF p2(2)]])+)
      (use p2 nc in \<open>auto simp: b0_def dest!: straightD\<close>)
  obtain p4 ks n where p4: "body (cfg h p3) = Some (cfg h p4)" "p_lc p3 \<le> p_lc p4" "p_lc p4 \<le> p_lc p3 + 2 * n"
      "grows (map lab_of ks) (lab_of ` set ks) n p3 p4"
      "\<forall>k \<in> set ks. p_lc p3 \<le> snd k \<and> snd k < p_lc p4" "w \<longrightarrow> distinct (map snd ks)"
    by (rule lowers_stmtE [OF body grows_ok [OF g3]])
  define p5 where "p5 = start e0 (emit_effect OpBranch [] c0 p4)"
  have g5: "grows ([c0, b0] @ map lab_of ks @ [e0]) ({c0, b0, e0} \<union> lab_of ` set ks) (3 + n) p p5"
    unfolding p5_def
    by (rule grows_weaken, rule grows_branch [OF grows_trans [OF g3 p4(4)]]) auto
  have lc: "p_lc p3 = p_lc p + 3" "p_lc p5 = p_lc p4" using p2(3) by (auto simp: p3_def p1_def p5_def)
  let ?ks = "[(cl, p_lc p), (bl, Suc (p_lc p))] @ ks @ [(el, Suc (Suc (p_lc p)))]"
  have "lowered w {} p p5"
  proof (rule loweredI [OF g5, of ?ks])
    show "p_lc p5 \<le> p_lc p + 2 * (3 + n)" "p_lc p \<le> p_lc p5"
      using p4(2,3) lc by simp_all
  qed (use p4(2,5,6) lc in \<open>auto simp: lab_of_def c0_def b0_def e0_def\<close>)
  moreover have "gen_loop cl bl el c body (cfg h p) = Some (cfg h p5)"
    using p2(1) p4(1) p4(4) by (auto simp: gen_loop_def p1_def p3_def p5_def c0_def b0_def e0_def dest!: growsD)
  ultimately show "\<exists>p'. gen_loop cl bl el c body (cfg h p) = Some (cfg h p') \<and> lowered w {} p p'" by blast
qed

lemma vloop_lowers:
  assumes "lowers_stmt w (gen_stmt body) h"
  shows "lowers_stmt w (gen_stmt (VloopStmt (IntLiteralExpr v r') body r)) h"
  unfolding lowers_stmt_def
proof (intro allI impI)
  fix p assume p: "point_ok p"
  define c0 where "c0 = lab ''vloop_cond'' (Suc (p_lc p))"
  define b0 where "b0 = lab ''vloop_body'' (Suc (Suc (p_lc p)))"
  define e0 where "e0 = lab ''vloop_exit'' (Suc (Suc (Suc (p_lc p))))"
  define p0 where "p0 = fresh (fresh (fresh (fresh p)))"
  define p1 where "p1 = emit_value OpCopy [fromInt 0] [] (emit_value OpAlloca [] (lab ''vloop_counter'' (p_lc p)) p0)"
  define p2 where "p2 = start c0 (emit_effect OpBranch [] c0 (emit_effect OpStore
      [fromReg (next_reg (emit_value OpAlloca [] (lab ''vloop_counter'' (p_lc p)) p0)), fromReg (next_reg p0)] [] p1))"
  have g2: "grows [c0] {c0} 2 p p2"
    unfolding p2_def p1_def p0_def by (rule grows_weaken, (rule grows_steps grows_refl p)+) auto
  have slot: "next_reg p0 \<in> known p2" by (simp add: p2_def p1_def)
  define p2a where "p2a = emit_value OpLoad [fromReg (next_reg p0)] [] p2"
  define p2b where "p2b = emit_value OpCopy [fromInt v] [] p2a"
  define p2c where "p2c = emit_value OpCmpLt [fromReg (next_reg p2), fromReg (next_reg p2a)] [] p2b"
  define p3 where "p3 = start b0 (emit_effect OpCondBranch [fromReg (next_reg p2b)] (b0 @ '','' @ e0) p2c)"
  have g3: "grows [c0, b0] {c0, b0, e0} 3 p p3"
    unfolding p3_def p2c_def p2b_def p2a_def
    by (rule grows_weaken, (rule grows_steps g2)+) (use slot in \<open>auto simp: b0_def\<close>)
  obtain p4 ks n where p4: "gen_stmt body (cfg h p3) = Some (cfg h p4)" "p_lc p3 \<le> p_lc p4" "p_lc p4 \<le> p_lc p3 + 2 * n"
      "grows (map lab_of ks) (lab_of ` set ks) n p3 p4"
      "\<forall>k \<in> set ks. p_lc p3 \<le> snd k \<and> snd k < p_lc p4" "w \<longrightarrow> distinct (map snd ks)"
    by (rule lowers_stmtE [OF assms grows_ok [OF g3]])
  define p4a where "p4a = emit_value OpLoad [fromReg (next_reg p0)] [] p4"
  define p4b where "p4b = emit_value OpCopy [fromInt 1] [] p4a"
  define p4c where "p4c = emit_value OpAdd [fromReg (next_reg p4), fromReg (next_reg p4a)] [] p4b"
  define p5 where "p5 = start e0 (emit_effect OpBranch [] c0
      (emit_effect OpStore [fromReg (next_reg p4b), fromReg (next_reg p0)] [] p4c))"
  have slot4: "next_reg p0 \<in> known p4" using p4(4) slot by (auto dest!: growsD simp: p3_def p2c_def p2b_def p2a_def)
  have g5: "grows ([c0, b0] @ map lab_of ks @ [e0]) ({c0, b0, e0} \<union> lab_of ` set ks) (4 + n) p p5"
    unfolding p5_def p4c_def p4b_def p4a_def
    by (rule grows_weaken, (rule grows_steps grows_trans [OF g3 p4(4)])+) (use slot4 in auto)
  have lc: "p_lc p3 = p_lc p + 4" "p_lc p5 = p_lc p4"
    by (auto simp: p3_def p2c_def p2b_def p2a_def p2_def p1_def p0_def p5_def p4c_def p4b_def p4a_def)
  let ?ks = "[(''vloop_cond'', Suc (p_lc p)), (''vloop_body'', Suc (Suc (p_lc p)))] @ ks
      @ [(''vloop_exit'', Suc (Suc (Suc (p_lc p))))]"
  have "lowered w {} p p5"
  proof (rule loweredI [OF g5, of ?ks])
    show "p_lc p5 \<le> p_lc p + 2 * (4 + n)" "p_lc p \<le> p_lc p5"
      using p4(2,3) lc by simp_all
  qed (use p4(2,5,6) lc in \<open>auto simp: lab_of_def c0_def b0_def e0_def\<close>)
  moreover have "gen_stmt (VloopStmt (IntLiteralExpr v r') body r) (cfg h p) = Some (cfg h p5)"
    using p4(1) p4(4) by (auto simp: p5_def p4c_def p4b_def p4a_def p3_def p2c_def p2b_def p2a_def p2_def p1_def p0_def
        c0_def b0_def e0_def dest!: growsD)
  ultimately show "\<exists>p'. gen_stmt (VloopStmt (IntLiteralExpr v r') body r) (cfg h p) = Some (cfg h p') \<and> lowered w {} p p'"
    by blast
qed


lemma if_lowers:
  assumes "lowers_stmt w (gen_stmt t) h"
  shows "lowers_stmt w (gen_stmt (IfStmt c t None r)) h"
  unfolding lowers_stmt_def
proof (intro allI impI)
  fix p assume p: "point_ok p"
  obtain p1 where p1: "gen_expr c (cfg h p) = Some (cfg h p1)" "straight p p1" "p_lc p1 = p_lc p" "p_last p1 \<in> known p1"
    using exprE [OF p] by blast
  define t0 where "t0 = lab ''then'' (p_lc p)"
  define m0 where "m0 = lab ''merge'' (Suc (p_lc p))"
  define p2 where "p2 = start t0 (emit_effect OpCondBranch [fromReg (p_last p1)] (t0 @ '','' @ m0) (fresh (fresh p1)))"
  have g2: "grows [t0] {t0, m0} 1 p p2"
    unfolding p2_def
    by (rule grows_weaken, (rule grows_steps grows_straight [OF p1(2)])+)
      (use p1 in \<open>auto simp: t0_def dest!: straightD\<close>)
  obtain p3 ks n where p3: "gen_stmt t (cfg h p2) = Some (cfg h p3)" "p_lc p2 \<le> p_lc p3" "p_lc p3 \<le> p_lc p2 + 2 * n"
      "grows (map lab_of ks) (lab_of ` set ks) n p2 p3"
      "\<forall>k \<in> set ks. p_lc p2 \<le> snd k \<and> snd k < p_lc p3" "w \<longrightarrow> distinct (map snd ks)"
    by (rule lowers_stmtE [OF assms grows_ok [OF g2]])
  define p4 where "p4 = start m0 (emit_effect OpBranch [] m0 p3)"
  have g4: "grows ([t0] @ map lab_of ks @ [m0]) ({t0, m0} \<union> lab_of ` set ks) (2 + n) p p4"
    unfolding p4_def by (rule grows_weaken, rule grows_branch [OF grows_trans [OF g2 p3(4)]]) auto
  have lc: "p_lc p2 = p_lc p + 2" "p_lc p4 = p_lc p3" using p1(3) by (auto simp: p2_def p4_def)
  have "lowered w {} p p4"
  proof (rule loweredI [OF g4, of "[(''then'', p_lc p)] @ ks @ [(''merge'', Suc (p_lc p))]"])
    show "p_lc p4 \<le> p_lc p + 2 * (2 + n)" "p_lc p \<le> p_lc p4"
      using p3(2,3) lc by simp_all
  qed (use p3(2,5,6) lc in \<open>auto simp: lab_of_def t0_def m0_def\<close>)
  moreover have "gen_stmt (IfStmt c t None r) (cfg h p) = Some (cfg h p4)"
    using p1 p3(1,4) by (auto simp: p2_def p4_def t0_def m0_def dest!: growsD)
  ultimately show "\<exists>p'. gen_stmt (IfStmt c t None r) (cfg h p) = Some (cfg h p') \<and> lowered w {} p p'" by blast
qed

lemma if_else_lowers:
  assumes "lowers_stmt w (gen_stmt t) h" "lowers_stmt w' (gen_stmt e) h"
  shows "lowers_stmt (w \<and> w') (gen_stmt (IfStmt c t (Some e) r)) h"
  unfolding lowers_stmt_def
proof (intro allI impI)
  fix p assume p: "point_ok p"
  obtain p1 where p1: "gen_expr c (cfg h p) = Some (cfg h p1)" "straight p p1" "p_lc p1 = p_lc p" "p_last p1 \<in> known p1"
    using exprE [OF p] by blast
  define t0 where "t0 = lab ''then'' (p_lc p)"
  define e0 where "e0 = lab ''else'' (Suc (p_lc p))"
  define m0 where "m0 = lab ''merge'' (Suc (Suc (p_lc p)))"
  define p2 where "p2 = start t0 (emit_effect OpCondBranch [fromReg (p_last p1)] (t0 @ '','' @ e0)
      (fresh (fresh (fresh p1))))"
  have g2: "grows [t0] {t0, e0} 1 p p2"
    unfolding p2_def
    by (rule grows_weaken, (rule grows_steps grows_straight [OF p1(2)])+)
      (use p1 in \<open>auto simp: t0_def dest!: straightD\<close>)
  obtain p3 ks n where p3: "gen_stmt t (cfg h p2) = Some (cfg h p3)" "p_lc p2 \<le> p_lc p3" "p_lc p3 \<le> p_lc p2 + 2 * n"
      "grows (map lab_of ks) (lab_of ` set ks) n p2 p3"
      "\<forall>k \<in> set ks. p_lc p2 \<le> snd k \<and> snd k < p_lc p3" "w \<longrightarrow> distinct (map snd ks)"
    by (rule lowers_stmtE [OF assms(1) grows_ok [OF g2]])
  define p4 where "p4 = start e0 (emit_effect OpBranch [] m0 p3)"
  have g4: "grows ([t0] @ map lab_of ks @ [e0]) ({t0, e0, m0} \<union> lab_of ` set ks) (2 + n) p p4"
    unfolding p4_def by (rule grows_weaken, rule grows_branch [OF grows_trans [OF g2 p3(4)]]) auto
  obtain p5 ks' n' where p5: "gen_stmt e (cfg h p4) = Some (cfg h p5)" "p_lc p4 \<le> p_lc p5" "p_lc p5 \<le> p_lc p4 + 2 * n'"
      "grows (map lab_of ks') (lab_of ` set ks') n' p4 p5"
      "\<forall>k \<in> set ks'. p_lc p4 \<le> snd k \<and> snd k < p_lc p5" "w' \<longrightarrow> distinct (map snd ks')"
    by (rule lowers_stmtE [OF assms(2) grows_ok [OF g4]])
  define p6 where "p6 = start m0 (emit_effect OpBranch [] m0 p5)"
  have g6: "grows ([t0] @ map lab_of ks @ [e0] @ map lab_of ks' @ [m0]) ({t0, e0, m0} \<union> lab_of ` set ks \<union> lab_of ` set ks')
      (3 + n + n') p p6"
    unfolding p6_def by (rule grows_weaken, rule grows_branch [OF grows_trans [OF g4 p5(4)]]) auto
  have lc: "p_lc p2 = p_lc p + 3" "p_lc p4 = p_lc p3" "p_lc p6 = p_lc p5"
    using p1(3) by (auto simp: p2_def p4_def p6_def)
  let ?ks = "[(''then'', p_lc p)] @ ks @ [(''else'', Suc (p_lc p))] @ ks' @ [(''merge'', Suc (Suc (p_lc p)))]"
  have "lowered (w \<and> w') {} p p6"
  proof (rule loweredI [OF g6, of ?ks])
    show "w \<and> w' \<Longrightarrow> distinct (map snd ?ks)" using p3(2,5,6) p5(2,5,6) lc by fastforce
    show "p_lc p6 \<le> p_lc p + 2 * (3 + n + n')" "p_lc p \<le> p_lc p6" using p3(2,3) p5(2,3) lc by simp_all
  qed (use p3(2,5,6) p5(2,5,6) lc in \<open>auto simp: lab_of_def t0_def e0_def m0_def\<close>)
  moreover have "gen_stmt (IfStmt c t (Some e) r) (cfg h p) = Some (cfg h p6)"
    using p1 p3(1,4) p5(1,4) by (auto simp: p2_def p4_def p6_def t0_def e0_def m0_def dest!: growsD)
  ultimately show "\<exists>p'. gen_stmt (IfStmt c t (Some e) r) (cfg h p) = Some (cfg h p') \<and> lowered (w \<and> w') {} p p'" by blast
qed

lemma for_lowers:
  assumes "lowers_stmt w (gen_stmt body) h"
  shows "lowers_stmt w (gen_stmt (ForStmt x iter body r)) h"
  unfolding lowers_stmt_def
proof (intro allI impI)
  fix p assume p: "point_ok p"
  define p0 where "p0 = bind_slot x (next_reg p) (emit_value OpAlloca [] x p)"
  have g0: "grows [] {} 0 p p0"
    unfolding p0_def by (rule grows_weaken, (rule grows_steps grows_refl p)+) auto
  then obtain p1 where p1: "gen_expr iter (cfg h p0) = Some (cfg h p1)" "straight p0 p1" "p_lc p1 = p_lc p0" "p_last p1 \<in> known p1"
    using exprE by (blast dest: growsD)
  define c0 where "c0 = lab ''for_cond'' (p_lc p)"
  define b0 where "b0 = lab ''for_body'' (Suc (p_lc p))"
  define e0 where "e0 = lab ''for_exit'' (Suc (Suc (p_lc p)))"
  define p2 where "p2 = emit_value OpAlloca [] ''__iter'' p1"
  define p3 where "p3 = start c0 (emit_effect OpBranch [] c0 (fresh (fresh (fresh
      (emit_effect OpStore [fromReg (p_last p2), fromReg (next_reg p1)] [] p2)))))"
  have g3: "grows [c0] {c0} 2 p p3"
    unfolding p3_def p2_def
    by (rule grows_weaken, (rule grows_steps grows_trans [OF g0 grows_straight [OF p1(2)]])+)
      (use p1 in \<open>auto dest!: straightD\<close>)
  have slot: "next_reg p1 \<in> known p3" by (simp add: p3_def p2_def)
  define p4 where "p4 = start b0 (emit_effect OpCondBranch [fromReg (next_reg p3)] (b0 @ '','' @ e0)
      (emit_value OpLoad [fromReg (next_reg p1)] [] p3))"
  have g4: "grows [c0, b0] {c0, b0, e0} 3 p p4"
    unfolding p4_def by (rule grows_weaken, (rule grows_steps g3)+) (use slot in \<open>auto simp: b0_def\<close>)
  obtain p5 ks n where p5: "gen_stmt body (cfg h p4) = Some (cfg h p5)" "p_lc p4 \<le> p_lc p5" "p_lc p5 \<le> p_lc p4 + 2 * n"
      "grows (map lab_of ks) (lab_of ` set ks) n p4 p5"
      "\<forall>k \<in> set ks. p_lc p4 \<le> snd k \<and> snd k < p_lc p5" "w \<longrightarrow> distinct (map snd ks)"
    by (rule lowers_stmtE [OF assms grows_ok [OF g4]])
  define p6 where "p6 = start e0 (emit_effect OpBranch [] c0 p5)"
  have g6: "grows ([c0, b0] @ map lab_of ks @ [e0]) ({c0, b0, e0} \<union> lab_of ` set ks) (3 + n) p p6"
    unfolding p6_def by (rule grows_weaken, rule grows_branch [OF grows_trans [OF g4 p5(4)]]) auto
  have lc: "p_lc p4 = p_lc p + 3" "p_lc p6 = p_lc p5" "p_lc p1 = p_lc p"
    using p1(3) by (auto simp: p6_def p4_def p3_def p2_def p0_def)
  let ?ks = "[(''for_cond'', p_lc p), (''for_body'', Suc (p_lc p))] @ ks @ [(''for_exit'', Suc (Suc (p_lc p)))]"
  have "lowered w {} p p6"
  proof (rule loweredI [OF g6, of ?ks])
    show "p_lc p6 \<le> p_lc p + 2 * (3 + n)" "p_lc p \<le> p_lc p6"
      using p5(2,3) lc by simp_all
  qed (use p5(2,5,6) lc in \<open>auto simp: lab_of_def c0_def b0_def e0_def\<close>)
  moreover have "gen_stmt (ForStmt x iter body r) (cfg h p) = Some (cfg h p6)"
    using p1(1) p5(1,4) lc by (auto simp: cfg_slots bind_slot_def p0_def p2_def p3_def p4_def p6_def c0_def b0_def e0_def dest!: growsD)
  ultimately show "\<exists>p'. gen_stmt (ForStmt x iter body r) (cfg h p) = Some (cfg h p') \<and> lowered w {} p p'" by blast
qed

lemma return_lowers: "lowers_stmt w (gen_stmt (ReturnStmt v r)) h"
  unfolding lowers_stmt_def
proof (intro allI impI)
  fix p assume p: "point_ok p"
  define l where "l = lab ''after_ret'' (p_lc p)"
  obtain p1 rs where p1: "straight p p1" "p_lc p1 = p_lc p" "set rs \<subseteq> known p1"
      "gen_stmt (ReturnStmt v r) (cfg h p) = Some (cfg h (start l (emit_effect OpRet (map fromReg rs) [] (fresh p1))))"
  proof (cases v)
    case None
    with p show ?thesis
      by (intro that [of p "[]"]) (auto simp: straight_refl gen_return_def l_def fresh_after_jump)
  next
    case (Some e)
    obtain p1 where "gen_expr e (cfg h p) = Some (cfg h p1)" "straight p p1" "p_lc p1 = p_lc p" "p_last p1 \<in> known p1"
      using exprE [OF p] by blast
    with Some show ?thesis
      by (intro that [of p1 "if p_last p1 = NoReg then [] else [p_last p1]"])
        (auto simp: gen_return_def l_def fresh_after_jump dest!: straightD)
  qed
  have g: "grows [l] {} 1 p (start l (emit_effect OpRet (map fromReg rs) [] (fresh p1)))"
    by (rule grows_weaken, (rule grows_steps grows_straight [OF p1(1)])+) (use p1(3) in auto)
  have "lowered w {} p (start l (emit_effect OpRet (map fromReg rs) [] (fresh p1)))"
    by (rule loweredI [OF g, of "[(''after_ret'', p_lc p)]"]) (use p1(2) in \<open>auto simp: lab_of_def l_def\<close>)
  with p1(4) show "\<exists>p'. gen_stmt (ReturnStmt v r) (cfg h p) = Some (cfg h p') \<and> lowered w {} p p'" by blast
qed

lemma var_lowers: "lowers_stmt w (gen_var x init) h"
  unfolding lowers_stmt_def
proof (intro allI impI)
  fix p assume p: "point_ok p"
  define p1 where "p1 = bind_slot x (next_reg p) (emit_value OpAlloca [] x p)"
  have g1: "grows [] {} 0 p p1"
    unfolding p1_def by (rule grows_weaken, (rule grows_steps grows_refl p)+) auto
  have lc1: "p_lc p1 = p_lc p" "next_reg p \<in> known p1" by (simp_all add: p1_def)
  show "\<exists>p'. gen_var x init (cfg h p) = Some (cfg h p') \<and> lowered w {} p p'"
  proof (cases init)
    case None
    have "lowered w {} p p1" by (rule loweredI [OF g1, of "[]"]) (auto simp: lc1)
    with None show ?thesis by (auto simp: gen_var_def p1_def cfg_slots bind_slot_def)
  next
    case (Some e)
    obtain p2 where p2: "gen_expr e (cfg h p1) = Some (cfg h p2)" "straight p1 p2" "p_lc p2 = p_lc p1" "p_last p2 \<in> known p2"
      using exprE g1 by (blast dest: growsD)
    define p3 where "p3 = emit_effect OpStore [fromReg (p_last p2), fromReg (next_reg p)] [] p2"
    have g3: "grows [] {} 0 p p3"
      unfolding p3_def by (rule grows_weaken, (rule grows_steps grows_trans [OF g1 grows_straight [OF p2(2)]])+)
        (use p2 lc1 in \<open>auto dest!: straightD\<close>)
    have "lowered w {} p p3" by (rule loweredI [OF g3, of "[]"]) (auto simp: p2 lc1 p3_def)
    with Some p2 show ?thesis by (auto simp: gen_var_def p1_def p3_def cfg_slots bind_slot_def)
  qed
qed


lemma branch_closed [simp]: "p_closed (emit_effect OpBranch ops l p)"
  by (simp add: p_closed_def)

text \<open>The block that a match without a wildcard arm starts a second time.\<close>

definition falls :: "string \<Rightarrow> MatchArm list \<Rightarrow> string list" where
  "falls x arms = (if arms = [] \<or> list_ex (\<lambda>a. arm_pattern a = None) arms then [] else [x])"

definition gen_pattern :: "Expr option \<Rightarrow> RegID \<Rightarrow> string \<Rightarrow> string \<Rightarrow> IRGen \<Rightarrow> IRGen option" where
  "gen_pattern pattern subj bodyLabel nextLabel s =
     (case pattern of
        None \<Rightarrow> buildBranch bodyLabel s
      | Some e \<Rightarrow>
          do { s \<leftarrow> gen_expr e s;
               (cmpReg, s) \<leftarrow> buildBinOp OpCmpEq subj (lastReg s) s;
               buildCondBranch cmpReg bodyLabel nextLabel s })"

lemma gen_arms_Cons:
  "gen_arms subj x (MatchArm pattern body # arms) s =
     do { let (bodyLabel, s) = newLabel ''match_arm'' s;
          let (nextLabel, s) = (if arms \<noteq> [] then newLabel ''match_next'' s else (x, s));
          s \<leftarrow> gen_pattern pattern subj bodyLabel nextLabel s;
          s \<leftarrow> startBlock bodyLabel s;
          s \<leftarrow> gen_stmt body s;
          s \<leftarrow> branchIfOpen x s;
          (if pattern = None then Some s
           else do { s \<leftarrow> startBlock nextLabel s; gen_arms subj x arms s }) }"
  by (simp add: gen_pattern_def)

lemma pattern_lowers:
  assumes "point_ok p" "subj \<in> known p" "CHR '','' \<notin> set bl"
  obtains p1 n where "gen_pattern pattern subj bl y (cfg h p) = Some (cfg h p1)"
    "grows [bl] ({bl} \<union> (if pattern = None then {} else {y})) (Suc n) p (start bl p1)" "p_lc p1 = p_lc p"
proof (cases pattern)
  case None
  have "grows [bl] {bl} (Suc 0) p (start bl (emit_effect OpBranch [] bl p))"
    by (rule grows_weaken, (rule grows_steps grows_refl assms(1))+) auto
  with None that show ?thesis by (simp add: gen_pattern_def)
next
  case (Some e)
  obtain p1 where p1: "gen_expr e (cfg h p) = Some (cfg h p1)" "straight p p1" "p_lc p1 = p_lc p" "p_last p1 \<in> known p1"
    using exprE [OF assms(1)] by blast
  let ?p2 = "emit_effect OpCondBranch [fromReg (next_reg p1)] (bl @ '','' @ y)
      (emit_value OpCmpEq [fromReg subj, fromReg (p_last p1)] [] p1)"
  have "grows [bl] ({bl} \<union> (if pattern = None then {} else {y})) (Suc 1) p (start bl ?p2)"
    by (rule grows_weaken, (rule grows_steps grows_straight [OF p1(2)])+)
      (use Some assms p1 in \<open>auto dest!: straightD\<close>)
  then show ?thesis by (rule that [rotated]) (simp_all add: Some p1 gen_pattern_def)
qed

lemma arms_lowers:
  assumes "\<And>a. a \<in> set arms \<Longrightarrow> lowers_stmt (wildcards_arm a) (gen_stmt (arm_body a)) h"
    and "point_ok p" "subj \<in> known p"
  shows "\<exists>q p' ks n. gen_arms subj x arms (cfg h p) = Some (cfg h q) \<and> (q = p' \<or> q = emit_effect OpBranch [] x p')
    \<and> grows (map lab_of ks @ falls x arms) (insert x (lab_of ` set ks)) n p p'
    \<and> p_lc p \<le> p_lc p' \<and> p_lc p' \<le> p_lc p + 2 * n
    \<and> (\<forall>k \<in> set ks. p_lc p \<le> snd k \<and> snd k < p_lc p')
    \<and> (list_all wildcards_arm arms \<longrightarrow> distinct (map snd ks))"
  using assms
proof (induction arms arbitrary: p)
  case Nil
  have "grows (map lab_of [] @ falls x []) (insert x (lab_of ` set [])) 0 p p"
    by (rule grows_weaken [OF grows_refl]) (use Nil in \<open>auto simp: falls_def\<close>)
  then show ?case by (intro exI [of _ p] exI [of _ "[]"] exI [of _ 0]) simp
next
  case (Cons a arms)
  obtain pattern body where a: "a = MatchArm pattern body" by (cases a)
  have body: "lowers_stmt (wildcards_arm a) (gen_stmt body) h" using Cons.prems(1) [of a] by (simp add: a)
  define b0 where "b0 = lab ''match_arm'' (p_lc p)"
  define y where "y = (if arms \<noteq> [] then lab ''match_next'' (Suc (p_lc p)) else x)"
  define p0 where "p0 = (if arms \<noteq> [] then fresh (fresh p) else fresh p)"
  have p0: "point_ok p0" "subj \<in> known p0" "p_lc p < p_lc p0" "p_lc p0 \<le> p_lc p + 2"
      "arms \<noteq> [] \<Longrightarrow> p_lc p0 = p_lc p + 2"
    using Cons.prems(2,3) by (auto simp: p0_def)
  have g0: "grows [] {} 0 p p0"
    unfolding p0_def using grows_fresh [OF grows_fresh [OF grows_refl [OF Cons.prems(2)]]]
      grows_fresh [OF grows_refl [OF Cons.prems(2)]] by simp
  obtain p1 m where p1: "gen_pattern pattern subj b0 y (cfg h p0) = Some (cfg h p1)"
      "grows [b0] ({b0} \<union> (if pattern = None then {} else {y})) (Suc m) p0 (start b0 p1)" "p_lc p1 = p_lc p0"
    by (rule pattern_lowers [OF p0(1,2), where bl = b0 and pattern = pattern and h = h and y = y]) (simp add: b0_def)
  obtain p2 ks n where p2: "gen_stmt body (cfg h (start b0 p1)) = Some (cfg h p2)" "p_lc (start b0 p1) \<le> p_lc p2"
      "p_lc p2 \<le> p_lc (start b0 p1) + 2 * n"
      "grows (map lab_of ks) (lab_of ` set ks) n (start b0 p1) p2"
      "\<forall>k \<in> set ks. p_lc (start b0 p1) \<le> snd k \<and> snd k < p_lc p2" "wildcards_arm a \<longrightarrow> distinct (map snd ks)"
    by (rule lowers_stmtE [OF body grows_ok [OF p1(2)]])
  have lc: "p_lc (start b0 p1) = p_lc p0" using p1(3) by simp
  have g2: "grows (b0 # map lab_of ks) ({b0} \<union> (if pattern = None then {} else {y}) \<union> lab_of ` set ks)
      (Suc m + n) p p2"
    by (rule grows_weaken [OF grows_trans [OF g0 grows_trans [OF p1(2) p2(4)]]]) auto
  have gen: "gen_arms subj x (a # arms) (cfg h p) =
      (if pattern = None then Some (cfg h (emit_effect OpBranch [] x p2))
       else gen_arms subj x arms (cfg h (start y (emit_effect OpBranch [] x p2))))"
    using p1(1) p2(1) grows_ok [OF p2(4)]
    by (cases "arms = []") (simp_all add: a gen_arms_Cons p0_def b0_def y_def del: gen_arms.simps)
  let ?ks = "[(''match_arm'', p_lc p)] @ ks"
  have "p_lc p \<le> p_lc p2" using p0(3) p2(2) lc by linarith
  moreover have "p_lc p2 \<le> p_lc p + 2 * (Suc m + n)" using p0(4) p2(3) lc by simp
  ultimately have lc2: "p_lc p \<le> p_lc p2" "p_lc p2 \<le> p_lc p + 2 * (Suc m + n)" by blast+
  have range: "\<forall>k \<in> set ?ks. p_lc p \<le> snd k \<and> snd k < p_lc p2" using p0(3) p2(2,5) lc by fastforce
  have dist: "wildcards_arm a \<longrightarrow> distinct (map snd ?ks)" using p0(3) p2(5,6) lc by fastforce
  show ?case
  proof (cases "pattern = None")
    case True
    have "grows (map lab_of ?ks @ falls x (a # arms)) (insert x (lab_of ` set ?ks)) (Suc m + n) p p2"
      by (rule grows_weaken [OF g2]) (use True in \<open>auto simp: falls_def a b0_def lab_of_def\<close>)
    with True gen lc2 range dist show ?thesis
      by (intro exI [of _ "emit_effect OpBranch [] x p2"] exI [of _ p2] exI [of _ ?ks] exI [of _ "Suc m + n"]) simp
  next
    case False
    define p3 where "p3 = start y (emit_effect OpBranch [] x p2)"
    have g3: "grows (b0 # map lab_of ks @ [y]) ({b0, x, y} \<union> lab_of ` set ks) (Suc m + n + 1) p p3"
      unfolding p3_def by (rule grows_weaken [OF grows_branch [OF g2]]) auto
    have lc3: "p_lc p3 = p_lc p2" by (simp add: p3_def)
    show ?thesis
    proof (cases "arms = []")
      case True
      have "grows (map lab_of ?ks @ falls x (a # arms)) (insert x (lab_of ` set ?ks)) (Suc m + n + 1) p p3"
        by (rule grows_weaken [OF g3]) (use True False in \<open>auto simp: falls_def a b0_def lab_of_def y_def\<close>)
      moreover have "p_lc p3 \<le> p_lc p + 2 * (Suc m + n + 1)" using lc2 lc3 by simp
      moreover have "gen_arms subj x (a # arms) (cfg h p) = Some (cfg h p3)"
        using gen True False by (simp add: p3_def)
      ultimately show ?thesis using lc2 lc3 range dist
        by (intro exI [of _ p3] exI [of _ ?ks] exI [of _ "Suc m + n + 1"]) simp
    next
      case rest: False
      have subj: "subj \<in> known p3" using Cons.prems(3) g3 by (auto dest!: growsD)
      obtain q p4 ks' n' where IH: "gen_arms subj x arms (cfg h p3) = Some (cfg h q)"
          "q = p4 \<or> q = emit_effect OpBranch [] x p4"
          "grows (map lab_of ks' @ falls x arms) (insert x (lab_of ` set ks')) n' p3 p4"
          "p_lc p3 \<le> p_lc p4" "p_lc p4 \<le> p_lc p3 + 2 * n'"
          "\<forall>k \<in> set ks'. p_lc p3 \<le> snd k \<and> snd k < p_lc p4"
          "list_all wildcards_arm arms \<longrightarrow> distinct (map snd ks')"
        using Cons.IH [OF Cons.prems(1) grows_ok [OF g3] subj] by auto
      let ?ks' = "?ks @ [(''match_next'', Suc (p_lc p))] @ ks'"
      have y: "y = lab_of (''match_next'', Suc (p_lc p))" using rest by (simp add: y_def lab_of_def)
      have g4: "grows (map lab_of ?ks' @ falls x (a # arms)) (insert x (lab_of ` set ?ks')) (Suc m + n + 1 + n') p p4"
        by (rule grows_weaken [OF grows_trans [OF g3 IH(3)]])
          (use False rest in \<open>auto simp: falls_def a b0_def lab_of_def y\<close>)
      have "p_lc p \<le> p_lc p4" using lc2(1) lc3 IH(4) by linarith
      moreover have "p_lc p4 \<le> p_lc p + 2 * (Suc m + n + 1 + n')" using lc2(2) lc3 IH(5) by simp
      ultimately have lc4: "p_lc p \<le> p_lc p4" "p_lc p4 \<le> p_lc p + 2 * (Suc m + n + 1 + n')" by blast+
      have range4: "\<forall>k \<in> set ?ks'. p_lc p \<le> snd k \<and> snd k < p_lc p4"
        using range lc2 lc3 p0(5) rest p2(2) lc IH(4,6) by fastforce
      have dist4: "distinct (map snd ?ks')" if "list_all wildcards_arm (a # arms)"
      proof -
        have "distinct (map snd ks)" "distinct (map snd ks')" using that p2(6) IH(7) by auto
        moreover have "\<forall>k \<in> set ks. p_lc p + 2 \<le> snd k \<and> snd k < p_lc p2" using p0(5) rest p2(5) lc by auto
        moreover have "\<forall>k \<in> set ks'. p_lc p2 \<le> snd k" using IH(6) lc3 by auto
        moreover have "p_lc p + 2 \<le> p_lc p2" using p0(5) rest p2(2) lc by simp
        ultimately show ?thesis by (auto simp: disjoint_iff) fastforce+
      qed
      have "gen_arms subj x (a # arms) (cfg h p) = Some (cfg h q)"
        using gen IH(1) False by (simp add: p3_def)
      with IH(2) g4 lc4 range4 dist4 show ?thesis
        by (intro exI [of _ q] exI [of _ p4] exI [of _ ?ks'] exI [of _ "Suc m + n + 1 + n'"]) blast
    qed
  qed
qed


lemma match_lowers:
  assumes "\<And>a. a \<in> set arms \<Longrightarrow> lowers_stmt (wildcards_arm a) (gen_stmt (arm_body a)) h"
  shows "lowers_stmt (wildcards (MatchStmt subject arms r)) (gen_stmt (MatchStmt subject arms r)) h"
  unfolding lowers_stmt_def
proof (intro allI impI)
  fix p assume p: "point_ok p"
  obtain p1 where p1: "gen_expr subject (cfg h p) = Some (cfg h p1)" "straight p p1" "p_lc p1 = p_lc p" "p_last p1 \<in> known p1"
    using exprE [OF p] by blast
  define x where "x = lab ''match_exit'' (p_lc p)"
  have g1: "grows [] {} 0 p (fresh p1)"
    by (rule grows_weaken, (rule grows_steps grows_straight [OF p1(2)])+) auto
  have subj: "p_last p1 \<in> known (fresh p1)" using p1(4) by simp
  obtain q p2 ks n where p2: "gen_arms (p_last p1) x arms (cfg h (fresh p1)) = Some (cfg h q)"
      "q = p2 \<or> q = emit_effect OpBranch [] x p2"
      "grows (map lab_of ks @ falls x arms) (insert x (lab_of ` set ks)) n (fresh p1) p2"
      "p_lc (fresh p1) \<le> p_lc p2" "p_lc p2 \<le> p_lc (fresh p1) + 2 * n"
      "\<forall>k \<in> set ks. p_lc (fresh p1) \<le> snd k \<and> snd k < p_lc p2"
      "list_all wildcards_arm arms \<longrightarrow> distinct (map snd ks)"
    using arms_lowers [OF assms grows_ok [OF g1] subj] by blast
  define p3 where "p3 = start x (emit_effect OpBranch [] x p2)"
  have g3: "grows (map lab_of ks @ falls x arms @ [x]) (insert x (lab_of ` set ks)) (n + 1) p p3"
    unfolding p3_def by (rule grows_weaken [OF grows_branch [OF grows_trans [OF g1 p2(3)]]]) auto
  have lc: "p_lc (fresh p1) = Suc (p_lc p)" "p_lc p3 = p_lc p2" using p1(3) by (auto simp: p3_def)
  let ?m = "(''match_exit'', p_lc p)"
  let ?ks = "ks @ (if falls x arms = [] then [] else [?m]) @ [?m]"
  have "lowered (wildcards (MatchStmt subject arms r)) {} p p3"
  proof (rule loweredI [OF g3, of ?ks])
    show "map lab_of ks @ falls x arms @ [x] = map lab_of ?ks" by (auto simp: falls_def lab_of_def x_def)
    show "insert x (lab_of ` set ks) \<subseteq> {} \<union> lab_of ` set ?ks" by (auto simp: lab_of_def x_def)
    show "p_lc p3 \<le> p_lc p + 2 * (n + 1)" using p2(5) lc by simp
    show "p_lc p \<le> p_lc p3" using p2(4) lc by simp
    show "\<forall>k \<in> set ?ks. p_lc p \<le> snd k \<and> snd k < p_lc p3" using p2(4,6) lc by auto
    show "distinct (map snd ?ks)" if "wildcards (MatchStmt subject arms r)"
    proof -
      have "falls x arms = []" using that by (auto simp: falls_def)
      moreover have "distinct (map snd ks)" using that p2(7) by simp
      ultimately show ?thesis using p2(6) lc by auto
    qed
  qed
  moreover have "gen_stmt (MatchStmt subject arms r) (cfg h p) = Some (cfg h p3)"
    using p1 p2(1,2) grows_ok [OF p2(3)] by (auto simp: p3_def x_def)
  ultimately show "\<exists>p'. gen_stmt (MatchStmt subject arms r) (cfg h p) = Some (cfg h p')
      \<and> lowered (wildcards (MatchStmt subject arms r)) {} p p'" by blast
qed

lemma skip_lowers: "(\<And>s. f s = Some s) \<Longrightarrow> lowers_stmt w f h"
  unfolding lowers_stmt_def by (auto intro: lowered_straight straight_refl)

lemma lowers_stmt_weaken: "lowers_stmt w f h \<Longrightarrow> (w' \<Longrightarrow> w) \<Longrightarrow> lowers_stmt w' f h"
  unfolding lowers_stmt_def lowered_def by blast

lemma stmts_lowers:
  assumes "\<And>st. st \<in> set ss \<Longrightarrow> lowers_stmt (wildcards st) (gen_stmt st) h"
  shows "lowers_stmt (list_all wildcards ss) (gen_stmts ss) h"
  using assms
proof (induction ss)
  case Nil
  then show ?case by (intro skip_lowers) simp
next
  case (Cons st ss)
  show ?case
    unfolding lowers_stmt_def
  proof (intro allI impI)
    fix p assume "point_ok p"
    with Cons.prems [of st] obtain p1 where p1: "gen_stmt st (cfg h p) = Some (cfg h p1)" "lowered (wildcards st) {} p p1"
      by (auto simp: lowers_stmt_def)
    with Cons obtain p2 where p2: "gen_stmts ss (cfg h p1) = Some (cfg h p2)" "lowered (list_all wildcards ss) {} p1 p2"
      by (auto simp: lowers_stmt_def dest: lowered_ok)
    have "lowered (list_all wildcards (st # ss)) ({} \<union> {}) p p2"
      by (rule lowered_trans [OF p1(2) p2(2)]) auto
    with p1 p2 show "\<exists>p'. gen_stmts (st # ss) (cfg h p) = Some (cfg h p') \<and> lowered (list_all wildcards (st # ss)) {} p p'"
      by auto
  qed
qed

lemma expr_lowers: "lowers_stmt w (gen_expr e) h"
  unfolding lowers_stmt_def by (blast elim: exprE intro: lowered_straight)

lemma gen_stmt_lowers:
  shows "plain_stmt st \<Longrightarrow> lowers_stmt (wildcards st) (gen_stmt st) h"
    and "plain_arm a \<Longrightarrow> lowers_stmt (wildcards_arm a) (gen_stmt (arm_body a)) h"
    and "plain_local d \<Longrightarrow> lowers_stmt True (gen_decl d) h"
proof (induction st and a and d)
  case (BlockStmt ss r)
  then show ?case using stmts_lowers [of ss h] by (simp add: list_all_iff lowers_stmt_def)
next
  case (VloopStmt c b r)
  show ?case
  proof (cases "\<exists>n r'. c = IntLiteralExpr n r'")
    case True
    then obtain n r' where c: "c = IntLiteralExpr n r'" by blast
    have "lowers_stmt (wildcards b) (gen_stmt (VloopStmt (IntLiteralExpr n r') b r)) h"
      using VloopStmt by (intro vloop_lowers) simp
    then show ?thesis by (simp only: c wildcards.simps)
  next
    case False
    then show ?thesis unfolding gen_vloop [OF False] using VloopStmt by (auto intro!: loop_lowers)
  qed
next
  case (WhileStmt c b r)
  then show ?case unfolding gen_while by (auto intro!: loop_lowers)
next
  case (IfStmt c t e r)
  then show ?case
    by (cases e) (auto intro: if_lowers if_else_lowers simp del: gen_stmt.simps)
next
  case (MatchStmt subject arms r)
  show ?case using MatchStmt by (intro match_lowers) (auto simp: list_all_iff)
next
  case (ForStmt x iter b r)
  then have "lowers_stmt (wildcards b) (gen_stmt (ForStmt x iter b r)) h" by (intro for_lowers) simp
  then show ?case by (simp only: wildcards.simps)
next
  case (DeclStmt d r)
  then show ?case by (simp add: lowers_stmt_def)
next
  case (VarDecl k x t init r)
  show ?case using var_lowers [of True x init h] by (simp add: lowers_stmt_def)
next
  case (ReturnStmt v r)
  show ?case by (rule return_lowers)
next
  case (ExprStmt e r)
  show ?case using expr_lowers [of _ e h] by (simp add: lowers_stmt_def)
qed (auto intro: skip_lowers)


section \<open>Functions and modules\<close>

definition entry_point :: "RegID \<Rightarrow> Point" where
  "entry_point r = \<lparr>p_done = [], p_label = ''entry'', p_instrs = [], p_reg = 0, p_lc = 0, p_last = r, p_slots = Map.empty\<rparr>"

lemma entry_point_simps [simp]:
  "point_ok (entry_point r)" "p_lc (entry_point r) = 0" "p_labels (entry_point r) = [''entry'']" "p_code (entry_point r) = []"
  by (simp_all add: entry_point_def point_ok_def p_code_def p_labels_def p_blocks_def first_regs_def known_def)

lemma gen_function_start_cfg:
  "gen_function_start name params s =
    gen_params 0 params (cfg \<lparr>h_module = b_module s, h_fname = name, h_ctx = ig_ctx s\<rparr> (entry_point (lastReg s)))"
  by (cases s) (simp add: gen_function_start_def addFunction_def fn_addBlock_def new_function_def new_block_def builder_attach_def
      cfg_def entry_point_def p_blocks_def Let_def)

lemma params_lower:
  "point_ok p \<Longrightarrow> \<exists>p'. gen_params i ps (cfg h p) = Some (cfg h p') \<and> grows [] {} 0 p p' \<and> p_lc p' = p_lc p"
proof (induction ps arbitrary: i p)
  case Nil
  then show ?case by (auto intro: grows_refl)
next
  case (Cons d ps)
  let ?p1 = "emit_value OpAlloca [] (param_name d) p"
  let ?p2 = "emit_value OpParam [fromInt (ucast i)] [] ?p1"
  let ?p3 = "emit_effect OpStore [fromReg (next_reg ?p1), fromReg (next_reg p)] [] ?p2"
  let ?p4 = "bind_slot (param_name d) (next_reg p) ?p3"
  have g: "grows [] {} 0 p ?p4"
    by (rule grows_weaken, (rule grows_steps grows_refl Cons.prems)+) auto
  then obtain p' where p': "gen_params (i + 1) ps (cfg h ?p4) = Some (cfg h p')" "grows [] {} 0 ?p4 p'" "p_lc p' = p_lc ?p4"
    using Cons.IH [OF grows_ok [OF g]] by blast
  have "grows [] {} 0 p p'" using grows_trans [OF g p'(2)] by simp
  moreover have "gen_params i (d # ps) (cfg h p) = Some (cfg h p')"
    using p'(1) by (simp add: cfg_slots bind_slot_def)
  ultimately show ?case using p'(3) by auto
qed

definition wf_function :: "IRFunction \<Rightarrow> bool" where
  "wf_function f \<longleftrightarrow> fn_blocks f \<noteq> [] \<and> hd (block_labels f) = ''entry'' \<and> list_all block_ok (fn_blocks f)
     \<and> results (code f) = first_regs (length (results (code f)))
     \<and> fn_regCounter f = of_nat (length (results (code f)))
     \<and> reads_known {NoReg} (code f) \<and> jumps (code f) \<subseteq> set (block_labels f)"

definition fresh_labels :: "IRFunction \<Rightarrow> bool" where
  "fresh_labels f \<longleftrightarrow> (\<exists>ks. block_labels f = ''entry'' # map lab_of ks \<and> distinct (map snd ks)
     \<and> (\<forall>k \<in> set ks. snd k < 2 * length (code f)))"

text \<open>The function that \<open>gen_function_end\<close> leaves behind.\<close>

definition finished :: "home \<Rightarrow> Point \<Rightarrow> IRFunction" where
  "finished h p = \<lparr>fn_name = h_fname h, fn_blocks = p_blocks (emit_effect OpRet [] [] p), fn_regCounter = of_nat (p_reg p)\<rparr>"

lemma function_end_cfg:
  "point_ok p \<Longrightarrow> \<exists>s'. gen_function_end (cfg h p) = Some s' \<and> b_module s' =
    (h_module h)\<lparr>mod_functions := mod_functions (h_module h) @ [finished h p]\<rparr> \<and> b_fn s' = None"
  by (simp add: gen_function_end_def) (simp add: builder_detach_def cfg_def Let_def finished_def)

lemma finished_code: "code (finished h p) = p_code p @ [instr OpRet NoReg [] []]"
  by (simp add: finished_def code_def flip: p_code_def)

lemma finished_labels: "block_labels (finished h p) = p_labels p"
  by (simp add: finished_def block_labels_def flip: p_labels_def)

lemma finished_wf:
  assumes "grows ls J n (entry_point r) p" "J \<subseteq> set ls"
  shows "wf_function (finished h p)"
proof -
  from assms(1) have ok: "point_ok p" and labels: "p_labels p = ''entry'' # ls" and jumps: "jumps (p_code p) \<subseteq> J"
    by (auto simp: grows_def)
  have blocks: "p_blocks (emit_effect OpRet [] [] p) =
      p_done p @ [\<lparr>bb_label = p_label p, bb_instrs = p_instrs p @ [instr OpRet NoReg [] []]\<rparr>]"
    by (simp add: p_blocks_def)
  have len: "length (results (p_code p)) = p_reg p" using ok by (simp add: point_ok_def first_regs_def)
  have "list_all block_ok (fn_blocks (finished h p))"
    using ok block_ok_jump [of p _ "p_label p"] by (auto simp: finished_def blocks point_ok_def list_all_iff)
  moreover have "fn_blocks (finished h p) \<noteq> []" by (simp add: finished_def blocks)
  moreover have "fn_regCounter (finished h p) = of_nat (p_reg p)" by (simp add: finished_def)
  moreover have "results (p_code p) = first_regs (p_reg p)" "reads_known {NoReg} (p_code p)"
    using ok by (auto simp: point_ok_def)
  ultimately show ?thesis
    using assms(2) jumps labels len by (auto simp: wf_function_def finished_code finished_labels)
qed

lemma function_lowers:
  assumes "case body of None \<Rightarrow> True | Some b \<Rightarrow> plain_stmt b"
  shows "\<exists>s' f. gen_decl (FunctionDecl name params ret body isPub r) s = Some s'
    \<and> b_module s' = (b_module s)\<lparr>mod_functions := mod_functions (b_module s) @ [f]\<rparr>
    \<and> b_fn s' = None \<and> fn_name f = name \<and> wf_function f
    \<and> ((case body of None \<Rightarrow> True | Some b \<Rightarrow> wildcards b) \<longrightarrow> fresh_labels f)"
proof -
  define h where "h = \<lparr>h_module = b_module s, h_fname = name, h_ctx = ig_ctx s\<rparr>"
  define w where "w \<longleftrightarrow> (case body of None \<Rightarrow> True | Some b \<Rightarrow> wildcards b)"
  let ?e = "entry_point (lastReg s)"
  obtain p1 where p1: "gen_params 0 params (cfg h ?e) = Some (cfg h p1)" "grows [] {} 0 ?e p1" "p_lc p1 = 0"
    using params_lower [of ?e 0 params h] by auto
  have "lowers_stmt w (\<lambda>s. case body of None \<Rightarrow> Some s | Some b \<Rightarrow> gen_stmt b s) h"
    using assms by (cases body) (auto simp: w_def intro: skip_lowers gen_stmt_lowers(1))
  then obtain p2 ks n where p2: "(case body of None \<Rightarrow> Some (cfg h p1) | Some b \<Rightarrow> gen_stmt b (cfg h p1)) = Some (cfg h p2)"
      "p_lc p1 \<le> p_lc p2" "p_lc p2 \<le> p_lc p1 + 2 * n" "grows (map lab_of ks) (lab_of ` set ks) n p1 p2"
      "\<forall>k \<in> set ks. p_lc p1 \<le> snd k \<and> snd k < p_lc p2" "w \<longrightarrow> distinct (map snd ks)"
    by (rule lowers_stmtE [OF _ grows_ok [OF p1(2)]])
  have g: "grows (map lab_of ks) (lab_of ` set ks) n ?e p2"
    by (rule grows_weaken [OF grows_trans [OF p1(2) p2(4)]]) auto
  obtain s' where s': "gen_function_end (cfg h p2) = Some s'"
      "b_module s' = (h_module h)\<lparr>mod_functions := mod_functions (h_module h) @ [finished h p2]\<rparr>" "b_fn s' = None"
    using function_end_cfg [OF grows_ok [OF g]] by blast
  have "n \<le> length (code (finished h p2))" "p_labels p2 = ''entry'' # map lab_of ks"
    using g by (auto simp: grows_def finished_code)
  then have "w \<longrightarrow> fresh_labels (finished h p2)"
    using p1(3) p2(3,5,6) unfolding fresh_labels_def finished_labels by (intro impI exI [of _ ks]) fastforce
  moreover have "wf_function (finished h p2)" by (rule finished_wf [OF g]) simp
  moreover have "gen_decl (FunctionDecl name params ret body isPub r) s = Some s'"
    using p1(1) p2(1) s'(1) by (simp add: gen_function_start_cfg flip: h_def)
  ultimately show ?thesis using s'(2,3) by (auto simp: h_def w_def finished_def)
qed


text \<open>Top-level declarations as the parser builds them, and what stands for a function.\<close>

fun plain_decl :: "Decl \<Rightarrow> bool" where
  "plain_decl (FunctionDecl _ _ _ body _ _) = (case body of None \<Rightarrow> True | Some b \<Rightarrow> plain_stmt b)"
| "plain_decl (ModuleDecl _ _ _) = False"
| "plain_decl _ = True"

fun is_var :: "Decl \<Rightarrow> bool" where
  "is_var (VarDecl _ _ _ _ _) = True"
| "is_var _ = False"

fun decl_function :: "Decl \<Rightarrow> string list" where
  "decl_function (FunctionDecl name _ _ _ _ _) = [name]"
| "decl_function _ = []"

fun wildcards_decl :: "Decl \<Rightarrow> bool" where
  "wildcards_decl (FunctionDecl _ _ _ body _ _) = (case body of None \<Rightarrow> True | Some b \<Rightarrow> wildcards b)"
| "wildcards_decl _ = True"

lemma gen_var_detached: "b_fn s = None \<Longrightarrow> gen_var x init s = None"
  by (simp add: gen_var_def buildAlloca_def newReg_def)

lemma decls_lower:
  assumes "list_all plain_decl ds" "b_fn s = None"
  shows "if list_ex is_var ds then gen_decls ds s = None
    else \<exists>s' fs. gen_decls ds s = Some s' \<and> b_module s' = (b_module s)\<lparr>mod_functions := mod_functions (b_module s) @ fs\<rparr>
      \<and> map fn_name fs = concat (map decl_function ds) \<and> list_all wf_function fs
      \<and> (list_all wildcards_decl ds \<longrightarrow> list_all fresh_labels fs)"
  using assms
proof (induction ds arbitrary: s)
  case Nil
  then show ?case by (auto intro!: exI [of _ "[]"])
next
  case (Cons d ds)
  show ?case
  proof (cases d)
    case (FunctionDecl name params ret body isPub r)
    obtain s1 f where 1: "gen_decl d s = Some s1" "b_module s1 = (b_module s)\<lparr>mod_functions := mod_functions (b_module s) @ [f]\<rparr>"
        "b_fn s1 = None" "fn_name f = name" "wf_function f" "wildcards_decl d \<longrightarrow> fresh_labels f"
      using function_lowers [of body name params ret isPub r s] Cons.prems(1)
      unfolding FunctionDecl by auto
    have IH: "if list_ex is_var ds then gen_decls ds s1 = None
      else \<exists>s' fs. gen_decls ds s1 = Some s' \<and> b_module s' = (b_module s1)\<lparr>mod_functions := mod_functions (b_module s1) @ fs\<rparr>
        \<and> map fn_name fs = concat (map decl_function ds) \<and> list_all wf_function fs
        \<and> (list_all wildcards_decl ds \<longrightarrow> list_all fresh_labels fs)"
      using Cons.IH [of s1] Cons.prems(1) 1(3) by simp
    show ?thesis
    proof (cases "list_ex is_var ds")
      case True
      with IH 1 show ?thesis by simp
    next
      case False
      with IH obtain s' fs where "gen_decls ds s1 = Some s'"
          "b_module s' = (b_module s1)\<lparr>mod_functions := mod_functions (b_module s1) @ fs\<rparr>"
          "map fn_name fs = concat (map decl_function ds)" "list_all wf_function fs"
          "list_all wildcards_decl ds \<longrightarrow> list_all fresh_labels fs" by auto
      with 1 False show ?thesis by (intro if_not_P [THEN iffD2] exI [of _ s'] exI [of _ "f # fs"]) (auto simp: FunctionDecl)
    qed
  qed (use Cons in \<open>auto simp: gen_var_detached\<close>)
qed


section \<open>The properties of generated modules\<close>

text \<open>
  C29. Lowering returns exactly when the module has no top-level variable: \<open>visit(VarDecl)\<close> outside a
  function runs into the assertion of the builder, which has no function to emit into, although the
  parser and the semantic analyser accept such a declaration.
\<close>

theorem generate_returns_iff:
  assumes "list_all plain_decl ds" "b_fn s = None"
  shows "generate (ModuleDecl name ds r) s = None \<longleftrightarrow> list_ex is_var ds"
  using decls_lower [OF assms(1), of "s\<lparr>b_module := new_module name\<rparr>"] assms(2)
  by (auto simp: generate_def split: if_splits)

theorem generate_returns_iff_witness:
  "generate (ModuleDecl ''m'' [FunctionDecl ''main'' [] None None False range_default] range_default)
     (new_irgen (new_context default_options)) \<noteq> None
   \<and> generate (ModuleDecl ''m'' [VarDecl VkLet ''x'' None (Some (IntLiteralExpr 1 range_default)) range_default] range_default)
     (new_irgen (new_context default_options)) = None"
  using generate_returns_iff [of "[FunctionDecl ''main'' [] None None False range_default]"
      "new_irgen (new_context default_options)" "''m''" range_default]
    generate_returns_iff [of "[VarDecl VkLet ''x'' None (Some (IntLiteralExpr 1 range_default)) range_default]"
      "new_irgen (new_context default_options)" "''m''" range_default]
  by (simp add: new_irgen_def del: not_None_eq)

text \<open>
  C9. What lowering produces for a module without top-level variables: one IR function for each
  function declaration, in order and under its name, and each is well formed. It starts with a block
  \<open>entry\<close>; every block is a straight line that ends in its only terminator; the registers are 1, 2,
  3, ... in the order of the instructions that define them and the register counter is the last; an
  instruction reads only results of earlier instructions (or \<open>NoReg\<close>, the value of an empty array
  literal); and every jump goes to a label of a block of the function.
\<close>

theorem generate_wellformed:
  assumes "list_all plain_decl ds" "\<not> list_ex is_var ds" "b_fn s = None"
  shows "\<exists>irm s'. generate (ModuleDecl name ds r) s = Some (irm, s') \<and> mod_name irm = name
    \<and> map fn_name (mod_functions irm) = concat (map decl_function ds)
    \<and> (\<forall>f \<in> set (mod_functions irm). wf_function f)"
  using decls_lower [OF assms(1), of "s\<lparr>b_module := new_module name\<rparr>"] assms(2,3)
  by (auto simp: generate_def new_module_def list_all_iff split: if_splits)

theorem generate_wellformed_witness:
  "\<exists>irm s'. generate (ModuleDecl ''m'' [FunctionDecl ''f'' [] None
        (Some (WhileStmt (IdentExpr ''x'' range_default) (ReturnStmt None range_default) range_default)) False range_default]
        range_default) (new_irgen (new_context default_options)) = Some (irm, s')
    \<and> map fn_name (mod_functions irm) = [''f''] \<and> (\<forall>f \<in> set (mod_functions irm). wf_function f)"
  using generate_wellformed [of "[FunctionDecl ''f'' [] None
        (Some (WhileStmt (IdentExpr ''x'' range_default) (ReturnStmt None range_default) range_default)) False range_default]"
      "new_irgen (new_context default_options)" "''m''" range_default]
  by (auto simp: new_irgen_def)

lemma first_regs_distinct: "n < 2 ^ 32 \<Longrightarrow> distinct (first_regs n) \<and> NoReg \<notin> set (first_regs n)"
proof -
  assume n: "n < 2 ^ 32"
  have "unat (of_nat k :: u32) = k" if "k < Suc n" for k
    using that n by (simp add: unat_of_nat)
  then have inj: "inj_on (of_nat :: nat \<Rightarrow> u32) {0..<Suc n}"
    by (intro inj_onI) (metis atLeastLessThan_iff)
  moreover have "of_nat k \<noteq> NoReg" if "k \<in> {1..<Suc n}" for k
    using inj_onD [OF inj, of k 0] that by auto
  ultimately show ?thesis
    by (auto simp: first_regs_def distinct_map intro: inj_on_subset)
qed

lemma fresh_labels_distinct:
  assumes "fresh_labels f" "length (code f) < 2 ^ 31"
  shows "distinct (block_labels f)"
proof -
  obtain ks where ks: "block_labels f = ''entry'' # map lab_of ks" "distinct (map snd ks)"
      "\<forall>k \<in> set ks. snd k < 2 * length (code f)"
    using assms(1) unfolding fresh_labels_def by blast
  have "inj_on lab_of (set ks)"
  proof (rule inj_onI)
    fix k k' assume k: "k \<in> set ks" "k' \<in> set ks" "lab_of k = lab_of k'"
    then have "snd k < 2 ^ 32" "snd k' < 2 ^ 32" using ks(3) assms(2) by fastforce+
    with k(3) have "snd k = snd k'" unfolding lab_of_def by (rule lab_inj)
    with k(1,2) ks(2) show "k = k'" by (auto simp: distinct_map dest: inj_onD)
  qed
  moreover have "distinct ks" using ks(2) by (simp add: distinct_map)
  moreover have "''entry'' \<notin> lab_of ` set ks" by (auto simp: lab_of_def lab_not_entry [symmetric])
  ultimately show ?thesis by (simp add: ks(1) distinct_map)
qed

lemma generate_functions:
  assumes "generate (ModuleDecl name ds r) s = Some (irm, s')" "list_all plain_decl ds" "b_fn s = None"
  shows "list_all wf_function (mod_functions irm) \<and> (list_all wildcards_decl ds \<longrightarrow> list_all fresh_labels (mod_functions irm))"
proof -
  let ?s = "s\<lparr>b_module := new_module name\<rparr>"
  have gen: "gen_decls ds ?s = Some s'" "irm = b_module s'"
    using assms(1) by (auto simp: generate_def split: bind_splits)
  with decls_lower [OF assms(2), of ?s] assms(3) obtain fs where
      "b_module s' = (b_module ?s)\<lparr>mod_functions := mod_functions (b_module ?s) @ fs\<rparr>"
      "list_all wf_function fs" "list_all wildcards_decl ds \<longrightarrow> list_all fresh_labels fs"
    by (auto split: if_splits)
  then show ?thesis by (simp add: gen(2) new_module_def)
qed

text \<open>
  C13. The counters are 32 bits wide and wrap. In a function of fewer than \<open>2 ^ 31\<close> instructions they
  do not: no two instructions define the same register, none defines \<open>NoReg\<close>, and if every \<open>match\<close>
  with arms has a wildcard arm no two blocks have the same label.
\<close>

theorem registers_and_labels_unique:
  assumes "generate (ModuleDecl name ds r) s = Some (irm, s')" "list_all plain_decl ds" "b_fn s = None"
    and "f \<in> set (mod_functions irm)" "length (code f) < 2 ^ 31"
  shows "distinct (results (code f)) \<and> NoReg \<notin> set (results (code f))
    \<and> (list_all wildcards_decl ds \<longrightarrow> distinct (block_labels f))"
proof -
  have wf: "wf_function f" using generate_functions [OF assms(1-3)] assms(4) by (simp add: list_all_iff)
  have "length (results (code f)) \<le> length (code f)" by (simp add: results_def)
  with assms(5) first_regs_distinct [of "length (results (code f))"] wf
  have "distinct (results (code f)) \<and> NoReg \<notin> set (results (code f))" by (simp add: wf_function_def)
  moreover have "distinct (block_labels f)" if "list_all wildcards_decl ds"
  proof (rule fresh_labels_distinct [OF _ assms(5)])
    show "fresh_labels f" using generate_functions [OF assms(1-3)] assms(4) that by (simp add: list_all_iff)
  qed
  ultimately show ?thesis by blast
qed

theorem registers_and_labels_unique_witness:
  "\<exists>irm s'. generate (ModuleDecl ''m'' [FunctionDecl ''f'' [] None
        (Some (WhileStmt (IdentExpr ''x'' range_default) (BlockStmt [] range_default) range_default)) False range_default]
        range_default) (new_irgen (new_context default_options)) = Some (irm, s')
    \<and> (\<exists>f \<in> set (mod_functions irm). distinct (results (code f)) \<and> distinct (block_labels f) \<and> results (code f) = [1])"
proof -
  let ?ds = "[FunctionDecl ''f'' [] None
        (Some (WhileStmt (IdentExpr ''x'' range_default) (BlockStmt [] range_default) range_default)) False range_default]"
  let ?s = "new_irgen (new_context default_options)"
  have "map_option (\<lambda>(m, s). map (\<lambda>f. (length (code f), results (code f))) (mod_functions m))
      (generate (ModuleDecl ''m'' ?ds range_default) ?s) = Some [(5, [1])]"
    by code_simp
  then obtain irm s' f where f: "generate (ModuleDecl ''m'' ?ds range_default) ?s = Some (irm, s')"
      "mod_functions irm = [f]" "length (code f) = 5" "results (code f) = [1]"
    by auto
  then have "distinct (results (code f)) \<and> distinct (block_labels f)"
    using registers_and_labels_unique [OF f(1), of f] by (simp add: new_irgen_def)
  with f show ?thesis by auto
qed

lemma arms_fall:
  assumes "\<And>a. a \<in> set arms \<Longrightarrow> lowers_stmt (wildcards_arm a) (gen_stmt (arm_body a)) h"
    and "point_ok p" "subj \<in> known p" "arms \<noteq> []" "\<forall>a \<in> set arms. arm_pattern a \<noteq> None"
  shows "\<exists>q. gen_arms subj x arms (cfg h p) = Some (cfg h (start x q))"
  using assms
proof (induction arms arbitrary: p)
  case (Cons a arms)
  obtain e body where a: "a = MatchArm (Some e) body" using Cons.prems(5) by (cases a) auto
  have body: "lowers_stmt (wildcards_arm a) (gen_stmt body) h" using Cons.prems(1) [of a] by (simp add: a)
  define b0 where "b0 = lab ''match_arm'' (p_lc p)"
  define y where "y = (if arms \<noteq> [] then lab ''match_next'' (Suc (p_lc p)) else x)"
  define p0 where "p0 = (if arms \<noteq> [] then fresh (fresh p) else fresh p)"
  have p0: "point_ok p0" "known p0 = known p" using Cons.prems(2) by (auto simp: p0_def)
  have subj: "subj \<in> known p0" using Cons.prems(3) p0 by simp
  obtain p1 m where p1: "gen_pattern (Some e) subj b0 y (cfg h p0) = Some (cfg h p1)"
      "grows [b0] ({b0} \<union> (if Some e = None then {} else {y})) (Suc m) p0 (start b0 p1)"
    by (rule pattern_lowers [OF p0(1) subj, where bl = b0 and pattern = "Some e" and h = h and y = y])
      (simp_all add: b0_def)
  obtain p2 J ls n where p2: "gen_stmt body (cfg h (start b0 p1)) = Some (cfg h p2)" "grows ls J n (start b0 p1) p2"
    by (rule lowers_stmtE [OF body grows_ok [OF p1(2)]]) blast
  have gen: "gen_arms subj x (a # arms) (cfg h p) = gen_arms subj x arms (cfg h (start y (emit_effect OpBranch [] x p2)))"
    using p1(1) p2(1) grows_ok [OF p2(2)]
    by (cases "arms = []") (simp_all add: a gen_arms_Cons p0_def b0_def y_def del: gen_arms.simps)
  show ?case
  proof (cases "arms = []")
    case True
    with gen show ?thesis by (auto simp: y_def)
  next
    case False
    have ok: "point_ok (start y (emit_effect OpBranch [] x p2))"
      by (rule grows_ok [OF grows_branch [OF grows_refl [OF grows_ok [OF p2(2)]]]])
    have "subj \<in> known (start y (emit_effect OpBranch [] x p2))"
      using subj growsD [OF p1(2)] growsD [OF p2(2)] by auto
    from Cons.IH [OF _ ok this False] Cons.prems(1,5) gen show ?thesis by simp
  qed
qed simp

text \<open>
  C35. A \<open>match\<close> without a wildcard arm does not end: after its last arm the block \<open>match_exit\<close> is
  started, closed with a jump to its own label, and started again under the same label, and the code
  that follows is emitted into the second one. An arm, and the failure of the last comparison, jump to
  that label, so execution reaches the block that only jumps to itself.
\<close>

theorem match_without_wildcard_exit_loops:
  assumes "plain_stmt (MatchStmt subject arms r)" "point_ok p" "arms \<noteq> []" "\<forall>a \<in> set arms. arm_pattern a \<noteq> None"
  shows "\<exists>q. gen_stmt (MatchStmt subject arms r) (cfg h p) = Some (cfg h q)
    \<and> p_label q = lab ''match_exit'' (p_lc p) \<and> p_instrs q = []
    \<and> last (p_done q) = \<lparr>bb_label = p_label q, bb_instrs = [instr OpBranch NoReg [] (p_label q)]\<rparr>"
proof -
  obtain p1 where p1: "gen_expr subject (cfg h p) = Some (cfg h p1)" "straight p p1" "p_lc p1 = p_lc p" "p_last p1 \<in> known p1"
    using exprE [OF assms(2)] by blast
  have arms: "lowers_stmt (wildcards_arm a) (gen_stmt (arm_body a)) h" if "a \<in> set arms" for a
    using assms(1) that by (auto simp: list_all_iff intro: gen_stmt_lowers)
  have "point_ok (fresh p1)" "p_last p1 \<in> known (fresh p1)" using p1 by (auto dest!: straightD)
  from arms_fall [OF arms this assms(3,4)] obtain q where
    "gen_arms (p_last p1) (lab ''match_exit'' (p_lc p)) arms (cfg h (fresh p1)) = Some (cfg h (start (lab ''match_exit'' (p_lc p)) q))"
    by blast
  with p1 have "gen_stmt (MatchStmt subject arms r) (cfg h p) = Some (cfg h (start (lab ''match_exit'' (p_lc p))
      (emit_effect OpBranch [] (lab ''match_exit'' (p_lc p)) (start (lab ''match_exit'' (p_lc p)) q))))"
    by (simp add: p_closed_def)
  then show ?thesis by (auto simp: p_blocks_def intro!: exI)
qed

theorem match_without_wildcard_exit_loops_witness:
  "\<exists>q. gen_stmt (MatchStmt (IdentExpr ''x'' range_default)
        [MatchArm (Some (IntLiteralExpr 1 range_default)) (BlockStmt [] range_default)] range_default)
        (cfg \<lparr>h_module = new_module ''m'', h_fname = ''f'', h_ctx = new_context default_options\<rparr> (entry_point 0))
      = Some (cfg \<lparr>h_module = new_module ''m'', h_fname = ''f'', h_ctx = new_context default_options\<rparr> q)
    \<and> last (p_done q) = \<lparr>bb_label = lab ''match_exit'' 0, bb_instrs = [instr OpBranch NoReg [] (lab ''match_exit'' 0)]\<rparr>
    \<and> p_label q = lab ''match_exit'' 0"
  using match_without_wildcard_exit_loops [of "IdentExpr ''x'' range_default"
      "[MatchArm (Some (IntLiteralExpr 1 range_default)) (BlockStmt [] range_default)]" range_default "entry_point 0"
      "\<lparr>h_module = new_module ''m'', h_fname = ''f'', h_ctx = new_context default_options\<rparr>"]
  by auto

end
