(* ===== verification/Vcc_Floats.thy ===== *)
theory Vcc_Floats
  imports Vcc_Numbers
begin

text \<open>
  The two renderings of a \<open>double\<close> that the program uses: inserting it in an output stream with the
  default format (\<open>%g\<close> with 6 significant digits), and \<open>std::to_string\<close> (\<open>%f\<close> with 6 decimals).
  A double is its IEEE 754 bit pattern: 1 sign bit, 11 exponent bits, 52 fraction bits. A finite one is
  the exact ratio \<open>dbl_num / dbl_den\<close>, and both renderings round that ratio to the nearest decimal,
  ties to even, the current rounding mode of a program that never changes it.
\<close>

definition dbl_sign :: "64 word \<Rightarrow> bool" where
  "dbl_sign w \<longleftrightarrow> 2 ^ 63 \<le> uint w"

definition dbl_exponent :: "64 word \<Rightarrow> int" where
  "dbl_exponent w = uint w div 2 ^ 52 mod 2 ^ 11"

definition dbl_fraction :: "64 word \<Rightarrow> int" where
  "dbl_fraction w = uint w mod 2 ^ 52"

text \<open>The integer significand and the power of two that it counts.\<close>

definition dbl_significand :: "64 word \<Rightarrow> int" where
  "dbl_significand w = (if dbl_exponent w = 0 then dbl_fraction w else 2 ^ 52 + dbl_fraction w)"

definition dbl_unit :: "64 word \<Rightarrow> int" where
  "dbl_unit w = (if dbl_exponent w = 0 then - 1074 else dbl_exponent w - 1075)"

definition dbl_num :: "64 word \<Rightarrow> int" where
  "dbl_num w = dbl_significand w * 2 ^ nat (dbl_unit w)"

definition dbl_den :: "64 word \<Rightarrow> int" where
  "dbl_den w = 2 ^ nat (- dbl_unit w)"

definition dbl_finite :: "64 word \<Rightarrow> bool" where
  "dbl_finite w \<longleftrightarrow> dbl_exponent w \<noteq> 2047"

text \<open>What both renderings print for an infinity or a NaN.\<close>

definition dbl_special :: "64 word \<Rightarrow> string" where
  "dbl_special w = (if dbl_fraction w = 0 then ''inf'' else ''nan'')"

definition dbl_signed :: "64 word \<Rightarrow> string \<Rightarrow> string" where
  "dbl_signed w s = (if dbl_sign w then CHR ''-'' # s else s)"

definition zero_fill :: "nat \<Rightarrow> string \<Rightarrow> string" where
  "zero_fill w s = replicate (w - length s) (CHR ''0'') @ s"

text \<open>\<open>std::to_string(double)\<close>.\<close>

definition dbl_to_string :: "64 word \<Rightarrow> string" where
  "dbl_to_string w =
     dbl_signed w
       (if dbl_finite w then
          (let n = nat (round_half_even (dbl_num w * 10 ^ 6) (dbl_den w))
           in nat_to_string (n div 10 ^ 6) @ ''.'' @ zero_fill 6 (nat_to_string (n mod 10 ^ 6)))
        else dbl_special w)"

text \<open>
  The decimal exponent of a positive ratio: the \<open>x\<close> with \<open>10 ^ x \<le> num / den < 10 ^ (x + 1)\<close>.
\<close>

function dec_length :: "int \<Rightarrow> nat" where
  "dec_length n = (if n < 10 then 0 else Suc (dec_length (n div 10)))"
  by pat_completeness simp
termination by (relation "measure nat") auto

declare dec_length.simps [simp del]

definition dec_exponent :: "int \<Rightarrow> int \<Rightarrow> int" where
  "dec_exponent num den =
     (if den \<le> num then int (dec_length (num div den))
      else (let k = dec_length (den div num)
            in if den = num * 10 ^ k then - int k else - int k - 1))"

text \<open>The six significant digits, as an integer, and the decimal exponent after rounding.\<close>

definition sig_digits :: "int \<Rightarrow> int \<Rightarrow> int \<times> int" where
  "sig_digits num den =
     (let x = dec_exponent num den;
          d = round_half_even (num * 10 ^ nat (5 - x)) (den * 10 ^ nat (x - 5))
      in if d = 10 ^ 6 then (10 ^ 5, x + 1) else (d, x))"

text \<open>The point and the zeros that \<open>%g\<close> removes at the end.\<close>

definition strip_fraction :: "string \<Rightarrow> string" where
  "strip_fraction s = rev (dropWhile (\<lambda>c. c = CHR ''0'') (rev s))"

definition with_fraction :: "string \<Rightarrow> string \<Rightarrow> string" where
  "with_fraction whole frac = (let f = strip_fraction frac in if f = [] then whole else whole @ ''.'' @ f)"

text \<open>\<open>out << d\<close> with the default format and precision.\<close>

definition show_double :: "64 word \<Rightarrow> string" where
  "show_double w =
     dbl_signed w
       (if \<not> dbl_finite w then dbl_special w
        else if dbl_num w = 0 then ''0''
        else
          (let (d, x) = sig_digits (dbl_num w) (dbl_den w); s = nat_to_string (nat d)
           in if - 4 \<le> x \<and> x < 6 then
                (if x < 0 then with_fraction ''0'' (replicate (nat (- x - 1)) (CHR ''0'') @ s)
                 else with_fraction (take (nat x + 1) s) (drop (nat x + 1) s))
              else with_fraction (take 1 s) (drop 1 s) @ ''e'' @ (if x < 0 then ''-'' else ''+'')
                   @ zero_fill 2 (nat_to_string (nat \<bar>x\<bar>))))"

end
