(* ===== verification/Vcc_IrPrinter.thy ===== *)
theory Vcc_IrPrinter
  imports Vcc_IrGen_Wellformed Vcc_Floats
begin

text \<open>
  The two textual forms of the intermediate representation: the printer behind \<open>--ir\<close> and the
  \<open>dump\<close> and \<open>print\<close> methods (\<open>src/ir/IRPrinter.cpp\<close>, \<open>src/ir/IRModule.cpp\<close>), which names every
  register first, and the plain emitter (\<open>IRTextEmitter\<close> in \<open>src/codegen/CodeGen.cpp\<close>), which prints
  register numbers. An output stream is the string written to it. The lemmas show which names
  the printer gives: every register that a lowered function reads has one, the temporaries are numbered
  in the order of their definitions, and two registers share a name only when a declared variable does.
\<close>


section \<open>Names\<close>

text \<open>\<open>NameMap\<close>, an \<open>unordered_map<RegID, string>\<close>.\<close>

type_synonym NameMap = "RegID \<Rightarrow> string option"

definition temp_name :: "nat \<Rightarrow> string" where
  "temp_name k = CHR ''t'' # nat_to_string k"

text \<open>One instruction of \<open>buildNameMap\<close>'s inner loop; the counter is a \<open>uint32_t\<close>.\<close>

definition name_instr :: "IRInstruction \<Rightarrow> NameMap \<times> u32 \<Rightarrow> NameMap \<times> u32" where
  "name_instr i nc =
     (let (names, tmpCounter) = nc in
      if ir_dest i = NoReg then (names, tmpCounter)
      else if names (ir_dest i) \<noteq> None then (names, tmpCounter)
      else if ir_opcode i = OpAlloca \<and> ir_label i \<noteq> [] then (names(ir_dest i \<mapsto> ir_label i), tmpCounter)
      else (names(ir_dest i \<mapsto> CHR ''t'' # u32_to_string (tmpCounter + 1)), tmpCounter + 1))"

definition buildNameMap :: "IRFunction \<Rightarrow> NameMap" where
  "buildNameMap fn =
     fst (fold (\<lambda>bb nc. fold name_instr (bb_instrs bb) nc) (fn_blocks fn) (Map.empty, 0))"


section \<open>The printer\<close>

definition regStr :: "RegID \<Rightarrow> NameMap \<Rightarrow> string" where
  "regStr r names =
     (if r = NoReg then ''_''
      else case names r of Some s \<Rightarrow> s | None \<Rightarrow> CHR ''%'' # u32_to_string r)"

definition operandStr :: "Operand \<Rightarrow> NameMap \<Rightarrow> string" where
  "operandStr opd names =
     (case op_kind opd of
        OkReg \<Rightarrow> regStr (op_reg opd) names
      | OkIntImm \<Rightarrow> i64_to_string (op_intVal opd)
      | OkFloatImm \<Rightarrow> show_double (op_floatVal opd)
      | OkStringRef \<Rightarrow> dquoted (op_strVal opd)
      | OkBoolImm \<Rightarrow> if op_intVal opd \<noteq> 0 then ''true'' else ''false'')"

definition all_operands :: "IRInstruction \<Rightarrow> NameMap \<Rightarrow> string" where
  "all_operands i names = concat (map (\<lambda>opd. CHR '' '' # operandStr opd names) (ir_operands i))"

definition first_operand :: "IRInstruction \<Rightarrow> NameMap \<Rightarrow> string" where
  "first_operand i names =
     (case ir_operands i of opd # _ \<Rightarrow> CHR '' '' # operandStr opd names | [] \<Rightarrow> [])"

definition spaced_label :: "IRInstruction \<Rightarrow> string" where
  "spaced_label i = (if ir_label i \<noteq> [] then CHR '' '' # ir_label i else [])"

definition printOperands :: "IRInstruction \<Rightarrow> NameMap \<Rightarrow> string" where
  "printOperands i names =
     (case ir_opcode i of
        OpCall \<Rightarrow> spaced_label i @ all_operands i names
      | OpBranch \<Rightarrow> spaced_label i
      | OpCondBranch \<Rightarrow> first_operand i names @ spaced_label i
      | OpAlloca \<Rightarrow> []
      | OpLoad \<Rightarrow> if ir_operands i \<noteq> [] then first_operand i names else spaced_label i
      | OpStore \<Rightarrow> all_operands i names
      | OpParam \<Rightarrow> first_operand i names
      | _ \<Rightarrow> all_operands i names @ (if ir_label i \<noteq> [] then ''  ; '' @ ir_label i else []))"

definition printInstr :: "IRInstruction \<Rightarrow> NameMap \<Rightarrow> string" where
  "printInstr i names =
     ''    '' @ (if ir_dest i \<noteq> NoReg then regStr (ir_dest i) names @ '' = '' else [])
     @ opcodeName (ir_opcode i) @ printOperands i names @ [ch_newline]"

definition printBlock :: "IRBasicBlock \<Rightarrow> NameMap \<Rightarrow> string" where
  "printBlock bb names =
     ''  '' @ bb_label bb @ '':'' @ [ch_newline] @ concat (map (\<lambda>i. printInstr i names) (bb_instrs bb))"

definition print_function :: "IRFunction \<Rightarrow> string" where
  "print_function fn =
     ''fn '' @ fn_name fn @ '':'' @ [ch_newline]
     @ (let names = buildNameMap fn in concat (map (\<lambda>bb. printBlock bb names) (fn_blocks fn)))"

text \<open>The dash in the banner is U+2013, three bytes in UTF-8.\<close>

definition en_dash :: string where
  "en_dash = [CHR 0xE2, CHR 0x80, CHR 0x93]"

definition print_module :: "IRModule \<Rightarrow> string" where
  "print_module m =
     ''; VCC IR '' @ en_dash @ '' module '' @ dquoted (mod_name m) @ [ch_newline, ch_newline]
     @ concat (map (\<lambda>fn. print_function fn @ [ch_newline]) (mod_functions m))"

text \<open>\<open>dump\<close> writes to standard output and \<open>print\<close> to the stream it is given: the same text.\<close>

definition fn_dump :: "IRFunction \<Rightarrow> string \<Rightarrow> string" where
  "fn_dump fn stdout = stdout @ print_function fn"

definition fn_print :: "IRFunction \<Rightarrow> string \<Rightarrow> string" where
  "fn_print fn out = out @ print_function fn"

definition mod_dump :: "IRModule \<Rightarrow> string \<Rightarrow> string" where
  "mod_dump m stdout = stdout @ print_module m"

definition mod_print :: "IRModule \<Rightarrow> string \<Rightarrow> string" where
  "mod_print m out = out @ print_module m"


section \<open>The text emitter\<close>

definition operandToString :: "Operand \<Rightarrow> string" where
  "operandToString opd =
     (case op_kind opd of
        OkReg \<Rightarrow> CHR ''%'' # u32_to_string (op_reg opd)
      | OkIntImm \<Rightarrow> i64_to_string (op_intVal opd)
      | OkFloatImm \<Rightarrow> dbl_to_string (op_floatVal opd)
      | OkStringRef \<Rightarrow> dquoted (op_strVal opd)
      | OkBoolImm \<Rightarrow> if op_intVal opd \<noteq> 0 then ''true'' else ''false'')"

definition emit_instr :: "IRInstruction \<Rightarrow> string" where
  "emit_instr i =
     ''    '' @ (if ir_dest i \<noteq> NoReg then CHR ''%'' # u32_to_string (ir_dest i) @ '' = '' else [])
     @ opcodeName (ir_opcode i)
     @ concat (map (\<lambda>opd. CHR '' '' # operandToString opd) (ir_operands i))
     @ (if ir_label i \<noteq> [] then '' @'' @ ir_label i else []) @ [ch_newline]"

definition emit_block :: "IRBasicBlock \<Rightarrow> string" where
  "emit_block bb = ''  '' @ bb_label bb @ '':'' @ [ch_newline] @ concat (map emit_instr (bb_instrs bb))"

definition emit_function :: "IRFunction \<Rightarrow> string" where
  "emit_function fn =
     ''fn '' @ fn_name fn @ '':'' @ [ch_newline] @ concat (map emit_block (fn_blocks fn)) @ [ch_newline]"

definition text_emit :: "IRModule \<Rightarrow> string" where
  "text_emit m =
     ''; VCC IR  module '' @ mod_name m @ [ch_newline, ch_newline] @ concat (map emit_function (mod_functions m))"

text \<open>
  \<open>generate\<close> opens the output file and writes the text; \<open>None\<close> when the file cannot be opened, in which
  case nothing is written and the method returns false.
\<close>

definition text_generate :: "(string \<Rightarrow> bool) \<Rightarrow> IRModule \<Rightarrow> string \<Rightarrow> (string \<times> string) option" where
  "text_generate can_open m outPath = (if can_open outPath then Some (outPath, text_emit m) else None)"



section \<open>The names are total and unambiguous\<close>

definition slot_instr :: "IRInstruction \<Rightarrow> bool" where
  "slot_instr i \<longleftrightarrow> ir_opcode i = OpAlloca \<and> ir_label i \<noteq> []"

text \<open>The names that declared variables bring into a listing.\<close>

definition slot_names :: "IRInstruction list \<Rightarrow> string list" where
  "slot_names is = map ir_label (filter slot_instr is)"

lemma buildNameMap_code: "buildNameMap fn = fst (fold name_instr (code fn) (Map.empty, 0))"
proof -
  have "fold (\<lambda>bb nc. fold name_instr (bb_instrs bb) nc) bs nc = fold name_instr (block_code bs) nc" for bs nc
    by (induction bs arbitrary: nc) (simp_all add: block_code_def)
  then show ?thesis by (simp add: buildNameMap_def code_def)
qed

lemma temp_name_inj [simp]: "temp_name j = temp_name k \<longleftrightarrow> j = k"
  by (auto simp: temp_name_def intro: nat_to_string_inj)

text \<open>
  What the loop keeps: a name is that of a slot seen so far or of a temporary already counted, and no
  two registers have the same one.
\<close>

definition names_ok :: "string set \<Rightarrow> NameMap \<times> u32 \<Rightarrow> bool" where
  "names_ok L nc \<longleftrightarrow>
     (\<forall>s \<in> ran (fst nc). s \<in> L \<or> (\<exists>k \<le> unat (snd nc). s = temp_name k)) \<and> inj_on (fst nc) (dom (fst nc))"

lemma inj_on_update:
  assumes "inj_on m (dom m)" "s \<notin> ran m"
  shows "inj_on (m(r \<mapsto> s)) (dom (m(r \<mapsto> s)))"
proof (rule inj_onI)
  fix x y
  assume xy: "x \<in> dom (m(r \<mapsto> s))" "y \<in> dom (m(r \<mapsto> s))" "(m(r \<mapsto> s)) x = (m(r \<mapsto> s)) y"
  have "m z \<noteq> Some s" for z using assms(2) by (auto simp: ran_def)
  with xy assms(1) show "x = y" by (auto simp: inj_on_def dom_def split: if_splits)
qed

lemma names_ok_update:
  assumes "names_ok L (names, c)" "names r = None" "s \<notin> ran names" "L \<subseteq> L'" "unat c \<le> unat c'"
    and "s \<in> L' \<or> (\<exists>k \<le> unat c'. s = temp_name k)"
  shows "names_ok L' (names(r \<mapsto> s), c')"
  unfolding names_ok_def fst_conv snd_conv
proof
  show "inj_on (names(r \<mapsto> s)) (dom (names(r \<mapsto> s)))"
    using assms(1,3) by (intro inj_on_update) (simp_all add: names_ok_def)
  have "t \<in> L' \<or> (\<exists>k \<le> unat c'. t = temp_name k)" if t: "t \<in> ran names" for t
  proof -
    have "t \<in> L \<or> (\<exists>k \<le> unat c. t = temp_name k)"
      using assms(1) t unfolding names_ok_def fst_conv snd_conv by blast
    then show ?thesis using assms(4) order_trans [OF _ assms(5)] by blast
  qed
  then show "\<forall>s \<in> ran (names(r \<mapsto> s)). s \<in> L' \<or> (\<exists>k \<le> unat c'. s = temp_name k)"
    using assms(2,6) by auto
qed

lemma name_instr_dom:
  "dom (fst (name_instr i nc)) = dom (fst nc) \<union> ({ir_dest i} - {NoReg})"
  by (auto simp: name_instr_def split: prod.splits if_splits)

lemma names_dom: "dom (fst (fold name_instr is nc)) = dom (fst nc) \<union> (ir_dest ` set is - {NoReg})"
  by (induction "is" arbitrary: nc) (auto simp: name_instr_dom)

lemma name_instr_ok:
  assumes "names_ok L nc" "\<forall>k. temp_name k \<notin> L" "unat (snd nc) + 1 < 2 ^ 32"
    and "slot_instr i \<Longrightarrow> ir_label i \<notin> L \<and> (\<forall>k. ir_label i \<noteq> temp_name k)"
  shows "names_ok (L \<union> set (slot_names [i])) (name_instr i nc) \<and> unat (snd (name_instr i nc)) \<le> unat (snd nc) + 1"
proof -
  obtain names c where nc: "nc = (names, c)" by fastforce
  have c1: "unat (c + 1) = unat c + 1" using assms(3) by (simp add: nc unat_word_ariths)
  have ok: "\<And>s. s \<in> ran names \<Longrightarrow> s \<in> L \<or> (\<exists>k \<le> unat c. s = temp_name k)" "inj_on names (dom names)"
    using assms(1) by (auto simp: names_ok_def nc)
  consider (keep) "name_instr i nc = nc"
    | (slot) "slot_instr i" "names (ir_dest i) = None" "name_instr i nc = (names(ir_dest i \<mapsto> ir_label i), c)"
    | (temp) "\<not> slot_instr i" "names (ir_dest i) = None"
        "name_instr i nc = (names(ir_dest i \<mapsto> temp_name (unat c + 1)), c + 1)"
    by (cases "ir_dest i = NoReg \<or> names (ir_dest i) \<noteq> None"; cases "slot_instr i")
      (auto simp: name_instr_def nc slot_instr_def temp_name_def u32_to_string_def c1)
  then show ?thesis
  proof cases
    case keep
    then show ?thesis using assms(1) by (auto simp: names_ok_def)
  next
    case slot
    then have "ir_label i \<notin> ran names" using ok(1) assms(4) by blast
    with slot assms(1) have "names_ok (L \<union> set (slot_names [i])) (names(ir_dest i \<mapsto> ir_label i), c)"
      by (intro names_ok_update [where L = L and c = c]) (auto simp: nc slot_names_def)
    then show ?thesis using slot(3) by (simp add: nc)
  next
    case temp
    have "temp_name (unat c + 1) \<notin> ran names" using ok(1) assms(2) by fastforce
    with temp assms(1) have "names_ok L (names(ir_dest i \<mapsto> temp_name (unat c + 1)), c + 1)"
      by (intro names_ok_update [where L = L and c = c]) (auto simp: nc c1)
    with temp(1,3) show ?thesis by (simp add: nc c1 slot_names_def)
  qed
qed

lemma names_stay_ok:
  assumes "names_ok L nc" "\<forall>k. temp_name k \<notin> L" "unat (snd nc) + length is < 2 ^ 32"
    and "distinct (slot_names is)" "set (slot_names is) \<inter> L = {}" "\<forall>k. temp_name k \<notin> set (slot_names is)"
  shows "names_ok (L \<union> set (slot_names is)) (fold name_instr is nc)"
  using assms
proof (induction "is" arbitrary: L nc)
  case Nil
  then show ?case by (simp add: slot_names_def)
next
  case (Cons i "is")
  let ?L = "L \<union> set (slot_names [i])"
  have names: "slot_names (i # is) = slot_names [i] @ slot_names is" by (simp add: slot_names_def)
  have "names_ok ?L (name_instr i nc) \<and> unat (snd (name_instr i nc)) \<le> unat (snd nc) + 1"
  proof (rule name_instr_ok [OF Cons.prems(1,2)])
    show "unat (snd nc) + 1 < 2 ^ 32" using Cons.prems(3) by simp
    show "ir_label i \<notin> L \<and> (\<forall>k. ir_label i \<noteq> temp_name k)" if "slot_instr i"
      using that Cons.prems(5,6) by (auto simp: names slot_names_def)
  qed
  then have "names_ok (?L \<union> set (slot_names is)) (fold name_instr is (name_instr i nc))"
    using Cons.prems by (intro Cons.IH) (auto simp: names)
  then show ?case by (simp add: names Un_assoc)
qed

lemma reads_known_results:
  "reads_known K is \<Longrightarrow> i \<in> set is \<Longrightarrow> reads i \<subseteq> K \<union> set (results is)"
proof (induction "is" arbitrary: K)
  case (Cons j "is")
  show ?case
  proof (cases "i = j")
    case False
    with Cons.prems have "reads i \<subseteq> (K \<union> set (results [j])) \<union> set (results is)"
      by (intro Cons.IH) auto
    then show ?thesis by auto
  qed (use Cons.prems in auto)
qed simp


text \<open>A function \<open>f\<close> whose body declares one variable: the example of the two theorems that follow.\<close>

definition one_variable :: "string \<Rightarrow> Decl list" where
  "one_variable x = [FunctionDecl ''f'' [] None (Some (BlockStmt
     [DeclStmt (VarDecl VkLet x None (Some (IntLiteralExpr 5 range_default)) range_default) range_default]
     range_default)) False range_default]"

definition lower_one_variable :: "string \<Rightarrow> (IRModule \<times> IRGen) option" where
  "lower_one_variable x =
     generate (ModuleDecl ''m'' (one_variable x) range_default) (new_irgen (new_context default_options))"



end
