(* ===== verification/Vcc_AstDumper.thy ===== *)
theory Vcc_AstDumper
  imports Vcc_Ast Vcc_Floats
begin

text \<open>
  The visitor behind \<open>--ast\<close> (\<open>include/vcc/ast/ASTDumper.h\<close>, \<open>src/ast/ASTDumper.cpp\<close>): its state is the
  output stream and the indentation that \<open>printChild\<close> extends and restores. Every \<open>visit\<close> writes one
  line and hands a list of children to \<open>printChildren\<close>; the model returns the two as a pair, and
  \<open>accept_node\<close> carries them out. The connectors are UTF-8. The lemmas show that the visitor draws the tree
  of the node, and that the drawing determines the tree.
\<close>

datatype Node =
    NDecl Decl
  | NParam ParameterDecl
  | NField FieldDecl
  | NVariant EnumVariantDecl
  | NStmt Stmt
  | NExpr Expr
  | NType TypeNode

definition opt_node :: "('a \<Rightarrow> Node) \<Rightarrow> 'a option \<Rightarrow> Node list" where
  "opt_node f opt = (case opt of None \<Rightarrow> [] | Some x \<Rightarrow> [f x])"

definition pub_mark :: "bool \<Rightarrow> string" where
  "pub_mark b = (if b then '' [pub]'' else [])"

definition mut_mark :: "bool \<Rightarrow> string" where
  "mut_mark b = (if b then '' [mut]'' else [])"

definition line :: "string \<Rightarrow> string" where
  "line s = s @ [ch_newline]"

fun var_keyword :: "VarKind \<Rightarrow> string" where
  "var_keyword VkLet = ''let''"
| "var_keyword VkVar = ''var''"
| "var_keyword VkConst = ''const''"


section \<open>The visit methods\<close>

fun visit_decl :: "Decl \<Rightarrow> string \<times> Node list" where
  "visit_decl (ModuleDecl name decls _) = (line (''Program '' @ quoted name), map NDecl decls)"
| "visit_decl (ImportDecl path al _) =
     (line (''ImportDecl '' @ quoted path @ (case al of Some a \<Rightarrow> '' as '' @ quoted a | None \<Rightarrow> [])), [])"
| "visit_decl (FunctionDecl name params ret body pub _) =
     (line (''FunctionDecl '' @ quoted name @ pub_mark pub),
      map NParam params @ opt_node NType ret @ opt_node NStmt body)"
| "visit_decl (VarDecl kind name ty init _) =
     (line (''VariableDecl ['' @ var_keyword kind @ ''] '' @ quoted name), opt_node NType ty @ opt_node NExpr init)"
| "visit_decl (StructDecl name flds pub _) =
     (line (''StructDecl '' @ quoted name @ pub_mark pub), map NField flds)"
| "visit_decl (EnumDecl name variants pub _) =
     (line (''EnumDecl '' @ quoted name @ pub_mark pub), map NVariant variants)"
| "visit_decl (TypeAliasDecl name aliased pub _) =
     (line (''TypeAliasDecl '' @ quoted name @ pub_mark pub), [NType aliased])"

definition visit_param :: "ParameterDecl \<Rightarrow> string \<times> Node list" where
  "visit_param p = (line (''ParameterDecl '' @ quoted (param_name p) @ mut_mark (param_isMut p)), [NType (param_type p)])"

definition visit_field :: "FieldDecl \<Rightarrow> string \<times> Node list" where
  "visit_field f = (line (''FieldDecl '' @ quoted (field_name f) @ pub_mark (field_isPub f)), [NType (field_type f)])"

definition visit_variant :: "EnumVariantDecl \<Rightarrow> string \<times> Node list" where
  "visit_variant v = (line (''EnumVariantDecl '' @ quoted (variant_name v)), map NType (variant_fields v))"

primrec arm_children :: "MatchArm \<Rightarrow> Node list" where
  "arm_children (MatchArm pat body) = opt_node NExpr pat @ [NStmt body]"

text \<open>\<open>DeclStmt::accept\<close> dispatches to the declaration it holds.\<close>

fun visit_stmt :: "Stmt \<Rightarrow> string \<times> Node list" where
  "visit_stmt (BlockStmt ss _) = (line ''Block'', map NStmt ss)"
| "visit_stmt (ExprStmt e _) = (line ''ExprStmt'', [NExpr e])"
| "visit_stmt (DeclStmt d _) = visit_decl d"
| "visit_stmt (ReturnStmt v _) = (line ''ReturnStmt'', opt_node NExpr v)"
| "visit_stmt (IfStmt c t e _) = (line ''IfStmt'', [NExpr c, NStmt t] @ opt_node NStmt e)"
| "visit_stmt (WhileStmt c b _) = (line ''WhileStmt'', [NExpr c, NStmt b])"
| "visit_stmt (VloopStmt c b _) = (line ''VloopStmt'', [NExpr c, NStmt b])"
| "visit_stmt (ForStmt x i b _) = (line (''ForStmt '' @ quoted x), [NExpr i, NStmt b])"
| "visit_stmt (BreakStmt _) = (line ''BreakStmt'', [])"
| "visit_stmt (ContinueStmt _) = (line ''ContinueStmt'', [])"
| "visit_stmt (MatchStmt subj arms _) = (line ''MatchStmt'', NExpr subj # concat (map arm_children arms))"

fun assign_op_name :: "AssignOp \<Rightarrow> string" where
  "assign_op_name AoAddAssign = ''+=''"
| "assign_op_name AoSubAssign = ''-=''"
| "assign_op_name AoMulAssign = ''*=''"
| "assign_op_name AoDivAssign = ''/=''"
| "assign_op_name AoModAssign = ''%=''"
| "assign_op_name AoBitAndAssign = ''&=''"
| "assign_op_name AoBitOrAssign = ''|=''"
| "assign_op_name AoBitXorAssign = ''^=''"
| "assign_op_name AoAssign = ''=''"

text \<open>\<open>static_cast<char>\<close> keeps the low byte of a \<open>char32_t\<close>.\<close>

fun visit_expr :: "Expr \<Rightarrow> string \<times> Node list" where
  "visit_expr (BinaryExpr opr l r _) = (line (''BinaryExpr('' @ binaryOpName opr @ '')''), [NExpr l, NExpr r])"
| "visit_expr (UnaryExpr opr e _) = (line (''UnaryExpr('' @ unaryOpName opr @ '')''), [NExpr e])"
| "visit_expr (AssignExpr opr t v _) = (line (''AssignExpr('' @ assign_op_name opr @ '')''), [NExpr t, NExpr v])"
| "visit_expr (CallExpr callee args _) = (line ''CallExpr'', NExpr callee # map NExpr args)"
| "visit_expr (IndexExpr b i _) = (line ''IndexExpr'', [NExpr b, NExpr i])"
| "visit_expr (MemberExpr obj m _) = (line (''MemberExpr(.'' @ m @ '')''), [NExpr obj])"
| "visit_expr (CastExpr e t _) = (line ''CastExpr'', [NExpr e, NType t])"
| "visit_expr (IdentExpr x _) = (line (''IdentifierExpr '' @ quoted x), [])"
| "visit_expr (IntLiteralExpr v _) = (line (''LiteralExpr(int) '' @ i64_to_string v), [])"
| "visit_expr (FloatLiteralExpr v _) = (line (''LiteralExpr(float) '' @ show_double v), [])"
| "visit_expr (StringLiteralExpr v _) = (line (''LiteralExpr(string) '' @ dquoted v), [])"
| "visit_expr (CharLiteralExpr v _) = (line (''LiteralExpr(char) '' @ [char_of (unat v)]), [])"
| "visit_expr (BoolLiteralExpr v _) = (line (''LiteralExpr(bool) '' @ (if v then ''true'' else ''false'')), [])"
| "visit_expr (NilLiteralExpr _) = (line ''LiteralExpr(nil)'', [])"
| "visit_expr (ArrayLiteralExpr es _) =
     (line (''ArrayLiteralExpr['' @ nat_to_string (length es) @ '']''), map NExpr es)"

fun visit_type :: "TypeNode \<Rightarrow> string \<times> Node list" where
  "visit_type (NamedTypeNode name _) = (line (''NamedType '' @ quoted name), [])"
| "visit_type (PointerTypeNode t m _) = (line (''PointerType'' @ mut_mark m), [NType t])"
| "visit_type (SliceTypeNode t _) = (line ''SliceType'', [NType t])"
| "visit_type (ArrayTypeNode t n _) = (line ''ArrayType'', [NType t, NExpr n])"
| "visit_type (FunctionTypeNode ps ret _) = (line ''FunctionType'', map NType ps @ opt_node NType ret)"

primrec visit :: "Node \<Rightarrow> string \<times> Node list" where
  "visit (NDecl d) = visit_decl d"
| "visit (NParam p) = visit_param p"
| "visit (NField f) = visit_field f"
| "visit (NVariant v) = visit_variant v"
| "visit (NStmt s) = visit_stmt s"
| "visit (NExpr e) = visit_expr e"
| "visit (NType t) = visit_type t"


text \<open>A measure that a node's children decrease: the calls that \<open>printChild\<close> makes end.\<close>

primrec stmt_weight :: "Stmt \<Rightarrow> nat" and arm_weight :: "MatchArm \<Rightarrow> nat" and decl_weight :: "Decl \<Rightarrow> nat" where
  "stmt_weight (BlockStmt ss _) = Suc (sum_list (map stmt_weight ss))"
| "stmt_weight (ExprStmt e _) = Suc (size e)"
| "stmt_weight (DeclStmt d _) = Suc (decl_weight d)"
| "stmt_weight (ReturnStmt v _) = Suc (size_option size v)"
| "stmt_weight (IfStmt c t e _) = Suc (size c + stmt_weight t + (case map_option stmt_weight e of None \<Rightarrow> 0 | Some n \<Rightarrow> n))"
| "stmt_weight (WhileStmt c b _) = Suc (size c + stmt_weight b)"
| "stmt_weight (VloopStmt c b _) = Suc (size c + stmt_weight b)"
| "stmt_weight (ForStmt x i b _) = Suc (size i + stmt_weight b)"
| "stmt_weight (BreakStmt _) = 1"
| "stmt_weight (ContinueStmt _) = 1"
| "stmt_weight (MatchStmt subj arms _) = Suc (size subj + sum_list (map arm_weight arms))"
| "arm_weight (MatchArm pat body) = Suc (size_option size pat + stmt_weight body)"
| "decl_weight (ModuleDecl _ ds _) = Suc (sum_list (map decl_weight ds))"
| "decl_weight (ImportDecl _ _ _) = 1"
| "decl_weight (FunctionDecl _ ps ret body _ _) =
     Suc (sum_list (map (\<lambda>p. Suc (size (param_type p))) ps) + size_option size ret
       + (case map_option stmt_weight body of None \<Rightarrow> 0 | Some n \<Rightarrow> n))"
| "decl_weight (StructDecl _ fs _ _) = Suc (sum_list (map (\<lambda>f. Suc (size (field_type f))) fs))"
| "decl_weight (EnumDecl _ vs _ _) = Suc (sum_list (map (\<lambda>v. Suc (size_list size (variant_fields v))) vs))"
| "decl_weight (VarDecl _ _ ty init _) = Suc (size_option size ty + size_option size init)"
| "decl_weight (TypeAliasDecl _ t _ _) = Suc (size t)"

primrec weight :: "Node \<Rightarrow> nat" where
  "weight (NDecl d) = decl_weight d"
| "weight (NParam p) = Suc (size (param_type p))"
| "weight (NField f) = Suc (size (field_type f))"
| "weight (NVariant v) = Suc (size_list size (variant_fields v))"
| "weight (NStmt s) = stmt_weight s"
| "weight (NExpr e) = size e"
| "weight (NType t) = size t"

lemma opt_node_set: "c \<in> set (opt_node f opt) \<longleftrightarrow> (\<exists>x. opt = Some x \<and> c = f x)"
  by (auto simp: opt_node_def split: option.splits)

lemma weight_sum_list: "x \<in> set xs \<Longrightarrow> f x \<le> sum_list (map f xs)" for f :: "'a \<Rightarrow> nat"
  by (rule member_le_sum_list) auto

lemma weight_size_list: "x \<in> set xs \<Longrightarrow> f x < Suc (size_list f xs)" for f :: "'a \<Rightarrow> nat"
  by (induction xs) auto

lemma decl_children: "c \<in> set (snd (visit_decl d)) \<Longrightarrow> weight c < decl_weight d"
proof (cases d)
  case (FunctionDecl name ps ret body pub r)
  moreover assume "c \<in> set (snd (visit_decl d))"
  moreover have "Suc (size (param_type p)) \<le> (\<Sum>p\<leftarrow>ps. Suc (size (param_type p))) + n" if "p \<in> set ps" for p n
    using weight_sum_list [OF that, of "\<lambda>p. Suc (size (param_type p))"] by simp
  ultimately show ?thesis
    by (auto simp: opt_node_set less_Suc_eq_le add.assoc)
qed (auto simp: opt_node_set less_Suc_eq_le intro: weight_sum_list)

lemma arm_child: "c \<in> set (arm_children a) \<Longrightarrow> weight c < arm_weight a"
  by (cases a) (auto simp: opt_node_set)

lemma stmt_children: "c \<in> set (snd (visit_stmt s)) \<Longrightarrow> weight c < stmt_weight s"
proof (cases s)
  case (DeclStmt d r)
  moreover assume "c \<in> set (snd (visit_stmt s))"
  ultimately show ?thesis using decl_children [of c d] by simp
next
  case (MatchStmt subj arms r)
  have "weight c \<le> sum_list (map arm_weight arms)" if "a \<in> set arms" "c \<in> set (arm_children a)" for a
    using arm_child [OF that(2)] weight_sum_list [OF that(1), of arm_weight] by simp
  moreover assume "c \<in> set (snd (visit_stmt s))"
  ultimately show ?thesis using MatchStmt by (auto simp: less_Suc_eq_le intro: trans_le_add2)
qed (auto simp: opt_node_set less_Suc_eq_le intro: weight_sum_list)

lemma expr_children: "c \<in> set (snd (visit_expr e)) \<Longrightarrow> weight c < size e"
  by (cases e) (auto simp: less_Suc_eq_le intro: trans_le_add2 dest: weight_size_list [where f = size])

lemma type_children: "c \<in> set (snd (visit_type t)) \<Longrightarrow> weight c < size t"
  by (cases t) (auto simp: opt_node_set less_Suc_eq_le intro: trans_le_add1 dest: weight_size_list [where f = size])

lemma visit_children: "c \<in> set (snd (visit nd)) \<Longrightarrow> weight c < weight nd"
  by (cases nd)
    (auto simp: visit_param_def visit_field_def visit_variant_def decl_children stmt_children expr_children
      type_children intro: weight_size_list)


section \<open>The dumper\<close>

record ASTDumper =
  dmp_out :: string
  dmp_prefix :: string

definition new_dumper :: "string \<Rightarrow> ASTDumper" where
  "new_dumper out = \<lparr>dmp_out = out, dmp_prefix = []\<rparr>"

text \<open>The four connectors, whose box characters are three bytes each.\<close>

definition box_tee :: string where
  "box_tee = [CHR 0xE2, CHR 0x94, CHR 0x9C, CHR 0xE2, CHR 0x94, CHR 0x80, CHR 0xE2, CHR 0x94, CHR 0x80, CHR '' '']"

definition box_corner :: string where
  "box_corner = [CHR 0xE2, CHR 0x94, CHR 0x94, CHR 0xE2, CHR 0x94, CHR 0x80, CHR 0xE2, CHR 0x94, CHR 0x80, CHR '' '']"

definition box_bar :: string where
  "box_bar = [CHR 0xE2, CHR 0x94, CHR 0x82] @ ''   ''"

definition box_blank :: string where
  "box_blank = ''    ''"

definition dmp_write :: "string \<Rightarrow> ASTDumper \<Rightarrow> ASTDumper" where
  "dmp_write s d = d\<lparr>dmp_out := dmp_out d @ s\<rparr>"

text \<open>The largest weight in a list of children, plus one.\<close>

definition children_weight :: "Node list \<Rightarrow> nat" where
  "children_weight cs = foldr (\<lambda>c n. max (Suc (weight c)) n) cs 0"

lemma children_weight_simps [simp]:
  "children_weight [] = 0"
  "children_weight (c # cs) = max (Suc (weight c)) (children_weight cs)"
  by (simp_all add: children_weight_def)

lemma children_weight_visit: "children_weight (snd (visit nd)) < Suc (weight nd)"
proof -
  have "children_weight cs \<le> n" if "\<And>c. c \<in> set cs \<Longrightarrow> weight c < n" for cs n
    using that by (induction cs) (auto simp: Suc_le_eq)
  then show ?thesis using visit_children by (simp add: less_Suc_eq_le)
qed

function (sequential)
  accept_node :: "Node \<Rightarrow> ASTDumper \<Rightarrow> ASTDumper" and
  printChild :: "Node \<Rightarrow> bool \<Rightarrow> ASTDumper \<Rightarrow> ASTDumper" and
  printChildren :: "Node list \<Rightarrow> ASTDumper \<Rightarrow> ASTDumper" where
  "accept_node nd d = printChildren (snd (visit nd)) (dmp_write (fst (visit nd)) d)"
| "printChild nd isLast d =
     (let d1 = dmp_write (dmp_prefix d @ (if isLast then box_corner else box_tee)) d;
          saved = dmp_prefix d1;
          d2 = d1\<lparr>dmp_prefix := dmp_prefix d1 @ (if isLast then box_blank else box_bar)\<rparr>;
          d3 = accept_node nd d2
      in d3\<lparr>dmp_prefix := saved\<rparr>)"
| "printChildren [] d = d"
| "printChildren (c # cs) d = printChildren cs (printChild c (cs = []) d)"
  by pat_completeness auto
termination
  by (relation "inv_image (less_than <*lex*> less_than <*lex*> less_than)
      (case_sum (\<lambda>(nd, d). (Suc (weight nd), 0, 0))
        (case_sum (\<lambda>(nd, l, d). (Suc (weight nd), 1, 0)) (\<lambda>(cs, d). (children_weight cs, 2, length cs))))")
    (auto simp: children_weight_visit le_less)

declare accept_node.simps [simp del] printChild.simps [simp del]

definition ast_dump :: "Node \<Rightarrow> ASTDumper \<Rightarrow> ASTDumper" where
  "ast_dump nd d = accept_node nd (d\<lparr>dmp_prefix := []\<rparr>)"


section \<open>The tree it draws\<close>

text \<open>The tree of a node: its line, and the trees of its children. A tree is drawn as a list of lines.\<close>

datatype Tree = Branch string "Tree list"

function tree_of :: "Node \<Rightarrow> Tree" where
  "tree_of nd = Branch (fst (visit nd)) (map tree_of (snd (visit nd)))"
  by pat_completeness simp
termination
  by (relation "measure weight") (auto simp: visit_children)

declare tree_of.simps [simp del]

text \<open>A child hangs by a connector on its first line and a continuation on the lines below it.\<close>

fun hang :: "bool \<Rightarrow> string list \<Rightarrow> string list" where
  "hang isLast [] = []"
| "hang isLast (l # ls) =
     ((if isLast then box_corner else box_tee) @ l) # map ((@) (if isLast then box_blank else box_bar)) ls"

fun draw :: "Tree \<Rightarrow> string list" and draw_all :: "Tree list \<Rightarrow> string list" where
  "draw (Branch h ts) = h # draw_all ts"
| "draw_all [] = []"
| "draw_all (t # ts) = hang (ts = []) (draw t) @ draw_all ts"

lemma draw_node: "draw (tree_of nd) = fst (visit nd) # draw_all (map tree_of (snd (visit nd)))"
  by (subst tree_of.simps) simp

text \<open>What each method writes, and that the indentation is as it was afterwards.\<close>

lemma dumper_writes:
  "accept_node nd d = dmp_write (fst (visit nd) @ concat (map ((@) (dmp_prefix d)) (tl (draw (tree_of nd))))) d"
  "printChild nd isLast d = dmp_write (concat (map ((@) (dmp_prefix d)) (hang isLast (draw (tree_of nd))))) d"
  "printChildren cs d = dmp_write (concat (map ((@) (dmp_prefix d)) (draw_all (map tree_of cs)))) d"
proof (induction nd d and nd isLast d and cs d rule: accept_node_printChild_printChildren.induct)
  case (1 nd d)
  then show ?case by (simp add: accept_node.simps draw_node dmp_write_def)
next
  case (2 nd isLast d)
  note IH = 2 [OF refl refl refl]
  show ?case
    by (simp add: printChild.simps Let_def IH draw_node) (simp add: dmp_write_def comp_def)
next
  case (3 d)
  then show ?case by (simp add: dmp_write_def)
next
  case (4 c cs d)
  then show ?case by (simp add: dmp_write_def)
qed


section \<open>The drawing determines the tree\<close>

lemmas box_defs = box_tee_def box_corner_def box_bar_def box_blank_def

text \<open>A line that continues a child other than the last one.\<close>

definition continues :: "string \<Rightarrow> bool" where
  "continues l \<longleftrightarrow> take 6 l = box_bar"

lemma continues_simps [simp]:
  "continues (box_bar @ l)" "\<not> continues (box_tee @ l)" "\<not> continues (box_corner @ l)"
  by (simp_all add: continues_def box_defs)

lemma connectors_differ [simp]:
  "box_tee @ l \<noteq> box_corner @ m" "box_corner @ l \<noteq> box_tee @ m"
  by (simp_all add: box_defs)

lemma draw_nonempty [simp]: "draw t \<noteq> []"
  by (cases t) simp

lemma draw_all_empty [simp]: "draw_all ts = [] \<longleftrightarrow> ts = []"
proof (cases ts)
  case (Cons t us)
  obtain l ls where "draw t = l # ls" by (cases "draw t") simp_all
  then show ?thesis using Cons by simp
qed simp

lemma takeWhile_prefix:
  "\<forall>x \<in> set xs. P x \<Longrightarrow> ys = [] \<or> \<not> P (hd ys) \<Longrightarrow> takeWhile P (xs @ ys) = xs \<and> dropWhile P (xs @ ys) = ys"
  by (cases ys) auto

lemma draw_all_starts: "ts = [] \<or> \<not> continues (hd (draw_all ts))"
proof (cases ts)
  case (Cons t us)
  obtain l ls where "draw t = l # ls" by (cases "draw t") simp_all
  then show ?thesis using Cons by simp
qed simp

lemma hang_split:
  assumes "hang (ts = []) (l # ls) @ draw_all ts = hang (us = []) (m # ms) @ draw_all us"
  shows "l # ls = m # ms \<and> draw_all ts = draw_all us"
proof (cases "ts = []")
  case True
  with assms have "us = []" by (cases us) (auto split: if_splits)
  with True assms show ?thesis by (auto dest: map_injective [OF _ injI])
next
  case False
  with assms have us: "us \<noteq> []" by (cases us) (auto split: if_splits)
  let ?f = "map ((@) box_bar)"
  have eq: "?f ls @ draw_all ts = ?f ms @ draw_all us" and lm: "l = m" using assms False us by auto
  have "takeWhile continues (?f xs @ draw_all vs) = ?f xs \<and> dropWhile continues (?f xs @ draw_all vs) = draw_all vs" for xs vs
    using draw_all_starts [of vs] by (intro takeWhile_prefix) auto
  with eq have "?f ls = ?f ms" "draw_all ts = draw_all us" by metis+
  with lm show ?thesis by (auto dest: map_injective [OF _ injI])
qed

lemma draw_inj:
  "draw s = draw t \<Longrightarrow> s = t"
  "draw_all ss = draw_all ts \<Longrightarrow> ss = ts"
proof (induction s and ss arbitrary: t and ts rule: draw_draw_all.induct)
  case (1 h ts')
  then show ?case by (cases t) auto
next
  case 2
  then show ?case using draw_all_empty [of ts] by simp
next
  case (3 s ss)
  then obtain t us where ts: "ts = t # us" by (metis draw_all_empty list.exhaust list.distinct(1))
  obtain l ls m ms where lm: "draw s = l # ls" "draw t = m # ms" by (cases "draw s"; cases "draw t") simp_all
  have "l # ls = m # ms \<and> draw_all ss = draw_all us"
    by (rule hang_split) (use 3(3) in \<open>simp add: ts lm del: hang.simps\<close>)
  with 3(1) [of t] 3(2) [of us] lm show ?case by (simp add: ts)
qed

text \<open>One line: its newline is the last character.\<close>

definition one_line :: "string \<Rightarrow> bool" where
  "one_line s \<longleftrightarrow> (\<exists>u. s = line u \<and> ch_newline \<notin> set u)"

fun labels :: "Tree \<Rightarrow> string list" where
  "labels (Branch h ts) = h # concat (map labels ts)"

lemma one_line_append: "ch_newline \<notin> set c \<Longrightarrow> one_line l \<Longrightarrow> one_line (c @ l)"
  by (auto simp: one_line_def line_def)

lemma no_newline_in_boxes [simp]:
  "ch_newline \<notin> set box_tee" "ch_newline \<notin> set box_corner" "ch_newline \<notin> set box_bar" "ch_newline \<notin> set box_blank"
  by (simp_all add: box_defs)

lemma hang_lines: "list_all one_line ls \<Longrightarrow> list_all one_line (hang b ls)"
  by (cases ls) (auto simp: list_all_iff one_line_append)

lemma draw_lines:
  "list_all one_line (labels t) \<Longrightarrow> list_all one_line (draw t)"
  "list_all one_line (concat (map labels ts)) \<Longrightarrow> list_all one_line (draw_all ts)"
  by (induction t and ts rule: draw_draw_all.induct) (auto simp: hang_lines)

lemma concat_lines_inj:
  "list_all one_line xs \<Longrightarrow> list_all one_line ys \<Longrightarrow> concat xs = concat ys \<Longrightarrow> xs = ys"
proof (induction xs arbitrary: ys)
  case Nil
  then show ?case by (cases ys) (auto simp: one_line_def line_def)
next
  case (Cons x xs)
  obtain u where u: "x = line u" "ch_newline \<notin> set u" using Cons.prems(1) by (auto simp: one_line_def)
  obtain y zs where ys: "ys = y # zs" using Cons.prems(3) u(1) by (cases ys) (auto simp: line_def)
  obtain v where v: "y = line v" "ch_newline \<notin> set v" using Cons.prems(2) by (auto simp: ys one_line_def)
  have "u @ ch_newline # concat xs = v @ ch_newline # concat zs"
    using Cons.prems(3) by (simp add: ys u v line_def)
  moreover have "takeWhile (\<lambda>c. c \<noteq> ch_newline) (w @ ch_newline # r) = w
      \<and> dropWhile (\<lambda>c. c \<noteq> ch_newline) (w @ ch_newline # r) = ch_newline # r" if "ch_newline \<notin> set w" for w r
    using that by (intro takeWhile_prefix) auto
  ultimately have "u = v \<and> concat xs = concat zs" using u(2) v(2) by (metis list.inject)
  with Cons show ?case by (simp add: ys u v)
qed


text \<open>A statement whose nodes have the range \<open>r\<close>.\<close>

definition example_node :: "SourceRange \<Rightarrow> Node" where
  "example_node r = NStmt (IfStmt (IdentExpr ''c'' r) (BreakStmt r) (Some (ReturnStmt (Some (IntLiteralExpr (- 1) r)) r)) r)"


end
