(* ===== verification/Vcc_Driver.thy ===== *)
theory Vcc_Driver
  imports Vcc_Lexer_Props Vcc_Semantic_Props Vcc_Parser_Module Vcc_IrPrinter Vcc_AstDumper
begin

text \<open>
  The compiler driver (\<open>include/vcc/driver/Compiler.h\<close>, \<open>src/driver/Compiler.cpp\<close>), the command line of
  the compiler (\<open>src/driver/main.cpp\<close>) and the tool \<open>vcc-dump-ast\<close> (\<open>tools/vcc-dump-ast/main.cpp\<close>).
  One file runs through the phases in order, all of them on the same context; what a run does to the
  outside world is what it prints and a list of events. The file system, \<open>isatty\<close>, \<open>std::system\<close> and
  the LLVM lowering that the program was built with are the fields of a record of type \<open>System\<close>; the first
  and the third may depend on the events so far. Vcc_Pipeline puts the lowering of Vcc_LlvmCodegen there. A run that trips an assertion or dereferences a null pointer is \<open>Aborted\<close>, one
  whose parser needs more fuel \<open>Unfinished\<close>.
\<close>

datatype Event =
    EmitIR IRModule string
  | RunCommand string
  | RemoveFile string

record System =
  sys_read :: "Event list \<Rightarrow> string \<Rightarrow> string option"
  sys_run :: "Event list \<Rightarrow> string \<Rightarrow> int"
  sys_isatty :: bool
  sys_emitIR :: "IRModule \<Rightarrow> string \<Rightarrow> (bool \<times> string) option"

record Driver =
  drv_ctx :: CompilerContext
  drv_out :: string
  drv_err :: string
  drv_events :: "Event list"

datatype 'a run = Finished 'a Driver | Aborted Driver | Unfinished

definition run_then :: "'a run \<Rightarrow> ('a \<Rightarrow> Driver \<Rightarrow> 'b run) \<Rightarrow> 'b run" where
  "run_then r f = (case r of Finished x d \<Rightarrow> f x d | Aborted d \<Rightarrow> Aborted d | Unfinished \<Rightarrow> Unfinished)"

definition new_driver :: "CompilerOptions \<Rightarrow> Driver" where
  "new_driver opts = \<lparr>drv_ctx = new_context opts, drv_out = [], drv_err = [], drv_events = []\<rparr>"

definition print_out :: "string \<Rightarrow> Driver \<Rightarrow> Driver" where
  "print_out s d = d\<lparr>drv_out := drv_out d @ s\<rparr>"

definition print_err :: "string \<Rightarrow> Driver \<Rightarrow> Driver" where
  "print_err s d = d\<lparr>drv_err := drv_err d @ s\<rparr>"

definition happens :: "Event \<Rightarrow> Driver \<Rightarrow> Driver" where
  "happens e d = d\<lparr>drv_events := drv_events d @ [e]\<rparr>"

definition with_ctx :: "CompilerContext \<Rightarrow> Driver \<Rightarrow> Driver" where
  "with_ctx c d = d\<lparr>drv_ctx := c\<rparr>"

definition drv_hasErrors :: "Driver \<Rightarrow> bool" where
  "drv_hasErrors d = hasErrors (ctx_diag (drv_ctx d))"

definition drv_report :: "DiagnosticLevel \<Rightarrow> string \<Rightarrow> Driver \<Rightarrow> Driver" where
  "drv_report level msg d =
     with_ctx ((drv_ctx d)\<lparr>ctx_diag := emit level location_invalid msg (ctx_diag (drv_ctx d))\<rparr>) d"

lemma driver_simps [simp]:
  "drv_ctx (print_out s d) = drv_ctx d" "drv_ctx (print_err s d) = drv_ctx d"
  "drv_ctx (happens e d) = drv_ctx d" "drv_ctx (with_ctx c d) = c"
  "drv_events (print_out s d) = drv_events d" "drv_events (print_err s d) = drv_events d"
  "drv_events (with_ctx c d) = drv_events d" "drv_events (happens e d) = drv_events d @ [e]"
  "drv_out (print_err s d) = drv_out d" "drv_out (with_ctx c d) = drv_out d"
  by (simp_all add: print_out_def print_err_def happens_def with_ctx_def)


section \<open>Paths\<close>

text \<open>\<open>filename\<close>, \<open>stem\<close>, \<open>extension\<close> and \<open>replace_extension\<close> of \<open>std::filesystem::path\<close> on POSIX.\<close>

definition path_filename :: "string \<Rightarrow> string" where
  "path_filename p = rev (takeWhile (\<lambda>c. c \<noteq> CHR ''/'') (rev p))"

definition path_extension :: "string \<Rightarrow> string" where
  "path_extension p =
     (let f = path_filename p; e = rev (takeWhile (\<lambda>c. c \<noteq> CHR ''.'') (rev f)); k = length f - length e
      in if f = ''..'' \<or> k \<le> 1 then [] else CHR ''.'' # e)"

definition path_stem :: "string \<Rightarrow> string" where
  "path_stem p = (let f = path_filename p in take (length f - length (path_extension p)) f)"

definition replace_extension :: "string \<Rightarrow> string \<Rightarrow> string" where
  "replace_extension p ext = take (length p - length (path_extension p)) p @ ext"


section \<open>Helpers of the pipeline\<close>

definition stage_count :: nat where "stage_count = 6"

definition logStage :: "CompilerOptions \<Rightarrow> nat \<Rightarrow> string \<Rightarrow> Driver \<Rightarrow> Driver" where
  "logStage opts n description d =
     (if opt_verbose opts
      then print_err (line (''vcc: ['' @ nat_to_string n @ ''/'' @ nat_to_string stage_count @ ''] '' @ description)) d
      else d)"

definition table_header :: string where
  "table_header = pad_right 20 ''TOKEN'' @ pad_right 28 ''VALUE'' @ line ''LOCATION'' @ line (replicate 58 (CHR ''-''))"

definition table_row :: "Token \<Rightarrow> string" where
  "table_row t =
     pad_right 20 (tokenTypeName (tok_kind t)) @ pad_right 28 (tok_lexeme t)
     @ line (u32_to_string (loc_line (tok_location t)) @ '':'' @ u32_to_string (loc_column (tok_location t)))"

definition printTokenTable :: "Token list \<Rightarrow> string" where
  "printTokenTable toks = table_header @ concat (map table_row (takeWhile (\<lambda>t. tok_kind t \<noteq> TkEof) toks))"

definition resolveBinaryPath :: "string \<Rightarrow> CompilerOptions \<Rightarrow> string" where
  "resolveBinaryPath src opts =
     (if opt_outputFile opts \<noteq> ''a.out'' then opt_outputFile opts else path_stem src)"

definition resolveOutputPath :: "CompilerOptions \<Rightarrow> string" where
  "resolveOutputPath opts =
     (if opt_outputFile opts \<noteq> ''a.out'' \<and> path_extension (opt_outputFile opts) = ''.ll''
      then opt_outputFile opts else ''output.ll'')"

definition llc_command :: "string \<Rightarrow> string \<Rightarrow> string" where
  "llc_command obj ll =
     ''/usr/lib/llvm-18/bin/llc --relocation-model=pic -filetype=obj -o '' @ obj @ '' '' @ ll"

definition gcc_command :: "string \<Rightarrow> string \<Rightarrow> string" where
  "gcc_command bin obj = ''gcc -pie -o '' @ bin @ '' '' @ obj @ '' -lm 2>&1''"


section \<open>Compiling a file\<close>

text \<open>
  \<open>opts\<close> is the reference that \<open>compileFile\<close> takes to the options of the context, which no phase writes.
  Stage 6: lowering to an LLVM file, or further to a binary.
\<close>

definition emit_ll :: "System \<Rightarrow> IRModule \<Rightarrow> string \<Rightarrow> Driver \<Rightarrow> bool run" where
  "emit_ll sys irm path d =
     (case sys_emitIR sys irm path of
        None \<Rightarrow> Aborted d
      | Some (ok, err) \<Rightarrow> Finished ok (print_err err (happens (EmitIR irm path) d)))"

definition run_command :: "System \<Rightarrow> string \<Rightarrow> Driver \<Rightarrow> int \<times> Driver" where
  "run_command sys cmd d = (sys_run sys (drv_events d) cmd, happens (RunCommand cmd) d)"

definition stage_llvm :: "System \<Rightarrow> CompilerOptions \<Rightarrow> IRModule \<Rightarrow> Driver \<Rightarrow> bool run" where
  "stage_llvm sys opts irm d =
     (let outPath = resolveOutputPath opts;
          d1 = logStage opts 6 (''LLVM lowering -> '' @ outPath) d
      in run_then (emit_ll sys irm outPath d1) (\<lambda>ok d2.
           Finished ok (if ok then print_out (line (''vcc: wrote '' @ quoted outPath)) d2 else d2)))"

definition stage_binary :: "System \<Rightarrow> CompilerOptions \<Rightarrow> string \<Rightarrow> IRModule \<Rightarrow> Driver \<Rightarrow> bool run" where
  "stage_binary sys opts path irm d =
     (let binPath = resolveBinaryPath path opts;
          llPath = replace_extension binPath ''.ll'';
          objPath = replace_extension binPath ''.o'';
          d1 = logStage opts 6 (''generating binary '' @ quoted binPath) d
      in run_then (emit_ll sys irm llPath d1) (\<lambda>ok d2.
         if \<not> ok then Finished False d2
         else (let (rc, d3) = run_command sys (llc_command objPath llPath) d2
               in if rc \<noteq> 0 then Finished False (drv_report LevelError ''vcc: llc failed'' d3)
                  else (let (rc, d4) = run_command sys (gcc_command binPath objPath) d3
                        in if rc \<noteq> 0 then Finished False (drv_report LevelError ''vcc: linker failed'' d4)
                           else Finished True
                                  (print_out (line (''vcc: built '' @ quoted binPath))
                                    (happens (RemoveFile objPath) (happens (RemoveFile llPath) d4)))))))"

text \<open>Stage 5: the intermediate representation. The generator keeps the context but never uses it.\<close>

definition stage_ir :: "System \<Rightarrow> CompilerOptions \<Rightarrow> string \<Rightarrow> Decl \<Rightarrow> Driver \<Rightarrow> bool run" where
  "stage_ir sys opts path m d =
     (let d1 = logStage opts 5 ''IR generation'' d
      in case generate m (new_irgen (drv_ctx d1)) of
           None \<Rightarrow> Aborted d1
         | Some (irm, ig) \<Rightarrow>
             (if opt_dumpIR opts then Finished True (print_out (print_module irm) d1)
              else if opt_emitLLVM opts then stage_llvm sys opts irm d1
              else stage_binary sys opts path irm d1))"

text \<open>Stage 4: semantic analysis, where \<open>--no-codegen\<close> stops.\<close>

definition stage_analysis :: "System \<Rightarrow> CompilerOptions \<Rightarrow> string \<Rightarrow> Decl \<Rightarrow> Driver \<Rightarrow> bool run" where
  "stage_analysis sys opts path m d =
     (let d1 = logStage opts 4 ''semantic analysis'' d
      in case analyze m (new_analyzer (drv_ctx d1)) of
           None \<Rightarrow> Aborted d1
         | Some (ok, sa) \<Rightarrow>
             (let d2 = with_ctx (sa_ctx sa) d1
              in if \<not> ok then Finished False d2
                 else if opt_noCodegen opts then
                   Finished True
                     (if opt_verbose opts
                      then print_err (line ''vcc: ok  (--no-codegen: stopped after analysis)'') d2 else d2)
                 else stage_ir sys opts path m d2))"

text \<open>Stage 3: parsing, where \<open>--ast\<close> stops. The parser never returns a null module.\<close>

definition stage_parse :: "System \<Rightarrow> CompilerOptions \<Rightarrow> nat \<Rightarrow> string \<Rightarrow> Token list \<Rightarrow> Driver \<Rightarrow> bool run" where
  "stage_parse sys opts n path toks d =
     (let d1 = logStage opts 3 ''parsing'' d
      in case new_parser (drv_ctx d1) toks of
           None \<Rightarrow> Aborted d1
         | Some p \<Rightarrow>
             (case parse n p of
                NoFuel \<Rightarrow> Unfinished
              | Throw p' \<Rightarrow> Aborted (with_ctx (ps_ctx p') d1)
              | Parsed m p' \<Rightarrow>
                  (let d2 = with_ctx (ps_ctx p') d1
                   in if drv_hasErrors d2 then Finished False d2
                      else if opt_dumpAST opts then
                        Finished True (print_out (dmp_out (ast_dump (NDecl m) (new_dumper []))) d2)
                      else stage_analysis sys opts path m d2)))"

text \<open>Stage 2: lexing, where \<open>--tokens\<close> stops.\<close>

definition stage_lex :: "System \<Rightarrow> CompilerOptions \<Rightarrow> nat \<Rightarrow> string \<Rightarrow> FileID \<Rightarrow> Driver \<Rightarrow> bool run" where
  "stage_lex sys opts n path fileId d =
     (let d1 = logStage opts 2 ''lexing'' d
      in case tokenize (new_lexer (drv_ctx d1) fileId) of
           None \<Rightarrow> Aborted d1
         | Some (toks, lx) \<Rightarrow>
             (let d2 = with_ctx (lx_ctx lx) d1
              in if opt_dumpTokens opts
                 then (let d3 = print_out (printTokenTable toks) d2 in Finished (\<not> drv_hasErrors d3) d3)
                 else if drv_hasErrors d2 then Finished False d2
                 else stage_parse sys opts n path toks d2))"

definition compileFile :: "System \<Rightarrow> nat \<Rightarrow> string \<Rightarrow> Driver \<Rightarrow> bool run" where
  "compileFile sys n path d =
     (let opts = ctx_opts (drv_ctx d); d1 = logStage opts 1 (''reading '' @ quoted path) d
      in case sys_read sys (drv_events d1) path of
           None \<Rightarrow> Finished False (drv_report LevelFatal (''cannot open input file '' @ quoted path) d1)
         | Some text \<Rightarrow>
             (let (fileId, c) = addSource path text (drv_ctx d1)
              in stage_lex sys opts n path fileId (with_ctx c d1)))"

text \<open>The loop of \<open>run\<close> over the input files, and the report at its end.\<close>

fun compile_all :: "System \<Rightarrow> nat \<Rightarrow> string list \<Rightarrow> bool \<Rightarrow> Driver \<Rightarrow> bool run" where
  "compile_all sys n [] ok d = Finished ok d"
| "compile_all sys n (path # paths) ok d =
     run_then (compileFile sys n path d) (\<lambda>r d'. compile_all sys n paths (ok \<and> r) d')"

definition source_lookup :: "CompilerContext \<Rightarrow> SourceLookup" where
  "source_lookup c = Some (\<lambda>i. (sourceText c i, sourcePath c i))"

definition run_compiler :: "System \<Rightarrow> nat \<Rightarrow> Driver \<Rightarrow> int run" where
  "run_compiler sys n d =
     run_then (compile_all sys n (opt_inputFiles (ctx_opts (drv_ctx d))) True d) (\<lambda>ok d'.
       (let useColor = (\<not> opt_noColor (ctx_opts (drv_ctx d')) \<and> sys_isatty sys)
        in Finished (if ok then 0 else 1)
             (print_err (printAllPretty (ctx_diag (drv_ctx d')) (source_lookup (drv_ctx d')) useColor) d')))"


section \<open>The command line\<close>

text \<open>The arrow of the usage text and the dash of the version are three bytes each.\<close>

definition right_arrow :: string where
  "right_arrow = [CHR 0xE2, CHR 0x86, CHR 0x92]"

definition usage_text :: "string \<Rightarrow> string" where
  "usage_text argv0 =
     ''Usage: '' @ line (argv0 @ '' [options] <file.v>'')
     @ line []
     @ line ''Compiler pipeline:''
     @ line (''  Source '' @ right_arrow @ '' Lexer '' @ right_arrow @ '' Parser '' @ right_arrow @ '' AST '' @ right_arrow @ '' Semantic Analysis '' @ right_arrow @ '' IR '' @ right_arrow @ '' LLVM IR'')
     @ line []
     @ line ''Pipeline inspection (stop early and print):''
     @ line ''  --tokens         Print the token stream and exit''
     @ line ''  --ast            Print the AST and exit''
     @ line ''  --ir             Print VCC IR and exit''
     @ line []
     @ line ''Code generation:''
     @ line ''  --emit-llvm      Emit LLVM IR to a .ll file  [default when no flag given]''
     @ line ''  -o <file>        Output file path            (default: output.ll)''
     @ line []
     @ line ''Other options:''
     @ line ''  --no-codegen     Run only through semantic analysis (error checking)''
     @ line ''  --no-color       Disable ANSI colour in diagnostic output''
     @ line ''  -O<0|1|2|3>      Optimisation level          (default: 0)''
     @ line ''  -v, --verbose    Show per-stage progress''
     @ line ''  --version        Print version and exit''
     @ line ''  -h, --help       Show this help''
     @ line []
     @ line ''Aliases (legacy):''
     @ line ''  --dump-tokens    Same as --tokens''
     @ line ''  --dump-ast       Same as --ast''
     @ line ''  --dump-ir        Same as --ir''"

definition version_text :: string where
  "version_text = line (''vcc 0.1.0  (V Compiler Collection '' @ en_dash @ '' LLVM 18 backend)'')"

datatype CommandLine = Exit int string string | Options CompilerOptions

definition starts_with :: "string \<Rightarrow> string \<Rightarrow> bool" where
  "starts_with p s \<longleftrightarrow> take (length p) s = p"

text \<open>The arguments that set an option by themselves.\<close>

definition flag_option :: "string \<Rightarrow> CompilerOptions \<Rightarrow> CompilerOptions option" where
  "flag_option arg opts =
     (if arg = ''--tokens'' \<or> arg = ''--dump-tokens'' then Some (opts\<lparr>opt_dumpTokens := True\<rparr>)
      else if arg = ''--ast'' \<or> arg = ''--dump-ast'' then Some (opts\<lparr>opt_dumpAST := True\<rparr>)
      else if arg = ''--ir'' \<or> arg = ''--dump-ir'' then Some (opts\<lparr>opt_dumpIR := True\<rparr>)
      else if arg = ''--emit-llvm'' then Some (opts\<lparr>opt_emitLLVM := True\<rparr>)
      else if arg = ''--no-codegen'' then Some (opts\<lparr>opt_noCodegen := True\<rparr>)
      else if arg = ''--no-color'' then Some (opts\<lparr>opt_noColor := True\<rparr>)
      else if arg = ''-v'' \<or> arg = ''--verbose'' then Some (opts\<lparr>opt_verbose := True\<rparr>)
      else None)"

definition level_option :: "string \<Rightarrow> CompilerOptions \<Rightarrow> CompilerOptions option" where
  "level_option arg opts =
     (if arg = ''-O0'' then Some (opts\<lparr>opt_optimizationLevel := 0\<rparr>)
      else if arg = ''-O1'' then Some (opts\<lparr>opt_optimizationLevel := 1\<rparr>)
      else if arg = ''-O2'' then Some (opts\<lparr>opt_optimizationLevel := 2\<rparr>)
      else if arg = ''-O3'' then Some (opts\<lparr>opt_optimizationLevel := 3\<rparr>)
      else None)"

fun parse_args :: "string \<Rightarrow> string list \<Rightarrow> CompilerOptions \<Rightarrow> CommandLine" where
  "parse_args argv0 [] opts = Options opts"
| "parse_args argv0 (arg # rest) opts =
     (if arg = ''-h'' \<or> arg = ''--help'' then Exit 0 (usage_text argv0) []
      else if arg = ''--version'' then Exit 0 version_text []
      else case flag_option arg opts of
        Some opts' \<Rightarrow> parse_args argv0 rest opts'
      | None \<Rightarrow>
          (if arg = ''-o'' then
             (case rest of
                [] \<Rightarrow> Exit 1 [] (line ''error: -o requires an argument'')
              | value # rest' \<Rightarrow> parse_args argv0 rest' (opts\<lparr>opt_outputFile := value\<rparr>))
           else if starts_with ''-o'' arg \<and> length arg > 2 then
             parse_args argv0 rest (opts\<lparr>opt_outputFile := drop 2 arg\<rparr>)
           else case level_option arg opts of
             Some opts' \<Rightarrow> parse_args argv0 rest opts'
           | None \<Rightarrow>
               (if starts_with ''-'' arg
                then Exit 1 (usage_text argv0) (line (''error: unknown option '' @ quoted arg))
                else parse_args argv0 rest (opts\<lparr>opt_inputFiles := opt_inputFiles opts @ [arg]\<rparr>))))"

definition command_line :: "string \<Rightarrow> string list \<Rightarrow> CommandLine" where
  "command_line argv0 args =
     (if args = [] then Exit 1 (usage_text argv0) []
      else case parse_args argv0 args default_options of
             Exit rc out err \<Rightarrow> Exit rc out err
           | Options opts \<Rightarrow> if opt_inputFiles opts = [] then Exit 1 [] (line ''error: no input files'') else Options opts)"

definition vcc_main :: "System \<Rightarrow> nat \<Rightarrow> string \<Rightarrow> string list \<Rightarrow> int run" where
  "vcc_main sys n argv0 args =
     (case command_line argv0 args of
        Exit rc out err \<Rightarrow> Finished rc (print_err err (print_out out (new_driver default_options)))
      | Options opts \<Rightarrow> run_compiler sys n (new_driver opts))"


section \<open>The tool that prints the tree of a file\<close>

definition dump_ast_main :: "System \<Rightarrow> nat \<Rightarrow> string list \<Rightarrow> int run" where
  "dump_ast_main sys n args =
     (case args of
        [] \<Rightarrow> Finished 1 (print_err (line ''usage: vcc-dump-ast <file.v>'') (new_driver default_options))
      | path # _ \<Rightarrow>
          (let d = new_driver default_options
           in case sys_read sys [] path of
                None \<Rightarrow> Finished 1 (print_err (line (''error: cannot open '' @ quoted path)) d)
              | Some text \<Rightarrow>
                  (let (fileId, c) = addSource path text (drv_ctx d)
                   in case tokenize (new_lexer c fileId) of
                        None \<Rightarrow> Aborted (with_ctx c d)
                      | Some (toks, lx) \<Rightarrow>
                          (let d1 = with_ctx (lx_ctx lx) d
                           in if drv_hasErrors d1
                              then Finished 1 (print_err (printAll (ctx_diag (drv_ctx d1)) path) d1)
                              else case new_parser (drv_ctx d1) toks of
                                     None \<Rightarrow> Aborted d1
                                   | Some p \<Rightarrow>
                                       (case parse n p of
                                          NoFuel \<Rightarrow> Unfinished
                                        | Throw p' \<Rightarrow> Aborted (with_ctx (ps_ctx p') d1)
                                        | Parsed m p' \<Rightarrow>
                                            (let d2 = with_ctx (ps_ctx p') d1;
                                                 d3 = print_err (printAll (ctx_diag (drv_ctx d2)) path) d2
                                             in if drv_hasErrors d3 then Finished 1 d3
                                                else Finished 0
                                                       (print_out (dmp_out (ast_dump (NDecl m) (new_dumper []))) d3)))))))"

end
