(* ===== verification/Vcc_Driver_Props.thy ===== *)
theory Vcc_Driver_Props
  imports Vcc_Driver
begin

text \<open>
  What the driver promises, over the promises of the phases: \<open>--no-codegen\<close> decides whether a file is
  free of errors, one file with errors ends the run for the files after it, a build runs the
  two tools in order and cleans up, and the command line is read as documented.
\<close>


section \<open>Diagnostics across the phases\<close>

definition drv_diags :: "Driver \<Rightarrow> Diagnostic list" where
  "drv_diags d = eng_diagnostics (ctx_diag (drv_ctx d))"

definition drv_ok :: "Driver \<Rightarrow> bool" where
  "drv_ok d \<longleftrightarrow> engine_ok (ctx_diag (drv_ctx d))"

text \<open>\<open>d'\<close> is \<open>d\<close> after some reports, with no event in between.\<close>

definition quiet :: "Driver \<Rightarrow> Driver \<Rightarrow> bool" where
  "quiet d d' \<longleftrightarrow>
     reported emit (ctx_diag (drv_ctx d)) (ctx_diag (drv_ctx d')) \<and> drv_events d' = drv_events d"

lemma quiet_refl [simp]: "quiet d d"
  by (simp add: quiet_def reported_refl)

lemma quiet_trans: "quiet d e \<Longrightarrow> quiet e f \<Longrightarrow> quiet d f"
  by (auto simp: quiet_def intro: reported_trans)

lemma logStage_simps [simp]:
  "drv_ctx (logStage opts n s d) = drv_ctx d" "drv_events (logStage opts n s d) = drv_events d"
  by (simp_all add: logStage_def)

lemma print_hasErrors [simp]:
  "drv_hasErrors (print_out s d) = drv_hasErrors d" "drv_hasErrors (print_err s d) = drv_hasErrors d"
  by (simp_all add: drv_hasErrors_def)

lemma quiet_print [simp]:
  "quiet d (print_out s e) = quiet d e" "quiet d (print_err s e) = quiet d e"
  "quiet d (logStage opts n s e) = quiet d e"
  by (simp_all add: quiet_def logStage_def)

lemma quiet_ctx: "quiet d e \<Longrightarrow> reported emit (ctx_diag (drv_ctx e)) (ctx_diag c) \<Longrightarrow> quiet d (with_ctx c e)"
  by (auto simp: quiet_def intro: reported_trans)

lemma quiet_report: "quiet d e \<Longrightarrow> quiet d (drv_report l msg e)"
  unfolding drv_report_def by (rule quiet_ctx) (simp_all add: reported_step reported_refl)

lemma quiet_ok: "quiet d d' \<Longrightarrow> drv_ok d \<Longrightarrow> drv_ok d'"
  by (auto simp: quiet_def drv_ok_def intro: engine_ok_reported)

lemma quiet_diags: "quiet d d' \<Longrightarrow> \<exists>ds. drv_diags d' = drv_diags d @ ds"
  unfolding quiet_def drv_diags_def using engine.reported_suffix by blast

lemma hasErrors_drv:
  "drv_ok d \<Longrightarrow> length (drv_diags d) < 2 ^ 32 \<Longrightarrow> drv_hasErrors d \<longleftrightarrow> (\<exists>x \<in> set (drv_diags d). is_error x)"
  by (simp add: drv_ok_def drv_hasErrors_def drv_diags_def hasErrors_iff)

lemma errors_stay:
  assumes "quiet d d'" "drv_ok d" "length (drv_diags d') < 2 ^ 32" "drv_hasErrors d"
  shows "drv_hasErrors d'"
proof -
  obtain ds where ds: "drv_diags d' = drv_diags d @ ds" using quiet_diags [OF assms(1)] by blast
  then have "length (drv_diags d) < 2 ^ 32" using assms(3) by simp
  with assms(2,4) have "\<exists>x \<in> set (drv_diags d). is_error x" by (simp add: hasErrors_drv)
  with ds hasErrors_drv [OF quiet_ok [OF assms(1,2)] assms(3)] show ?thesis by auto
qed

lemma lexing_quiet:
  assumes "tokenize (new_lexer c i) = Some (toks, lx)" "quiet d e" "drv_ctx e = c"
  shows "quiet d (with_ctx (lx_ctx lx) e)"
proof -
  obtain w n k where "scans w n (new_lexer c i) lx"
    using lexes_scans [OF tokenize_lexes [OF assms(1)]] by blast
  from scans_reported [OF this] assms(2,3) show ?thesis by (intro quiet_ctx) (simp_all add: new_lexer_def)
qed

lemma adding_quiet: "addSource p t (drv_ctx e) = (i, c) \<Longrightarrow> quiet d e \<Longrightarrow> quiet d (with_ctx c e)"
  by (auto simp: quiet_def addSource_def Let_def reported_refl)


text \<open>\<open>d'\<close> is \<open>d\<close> after some reports and some events.\<close>

definition reports :: "Driver \<Rightarrow> Driver \<Rightarrow> bool" where
  "reports d d' \<longleftrightarrow> reported emit (ctx_diag (drv_ctx d)) (ctx_diag (drv_ctx d'))"

lemma quiet_reports: "quiet d d' \<Longrightarrow> reports d d'"
  by (simp add: quiet_def reports_def)

lemma reports_trans: "reports d e \<Longrightarrow> reports e f \<Longrightarrow> reports d f"
  by (auto simp: reports_def intro: reported_trans)

lemma reports_simps [simp]:
  "reports d d" "reports d (print_out s e) = reports d e" "reports d (print_err s e) = reports d e"
  "reports d (happens v e) = reports d e" "reports d (logStage opts n s e) = reports d e"
  by (simp_all add: reports_def logStage_def reported_refl)

lemma reports_report: "reports d e \<Longrightarrow> reports d (drv_report l msg e)"
  by (simp add: reports_def drv_report_def reported_step)

lemma reports_length: "reports d d' \<Longrightarrow> length (drv_diags d) \<le> length (drv_diags d')"
  unfolding reports_def drv_diags_def using engine.reported_suffix [of "ctx_diag (drv_ctx d)" "ctx_diag (drv_ctx d')"] by auto

lemma stage_ir_reports: "stage_ir sys opts path m d = Finished r d' \<Longrightarrow> reports d d'"
  by (auto simp: stage_ir_def stage_llvm_def stage_binary_def emit_ll_def run_command_def run_then_def Let_def
      split: run.splits option.splits if_splits prod.splits intro: reports_report)

lemma analysis_quiet:
  "analyze m (new_analyzer (drv_ctx e)) = Some (ok, sa) \<Longrightarrow> quiet d e \<Longrightarrow> quiet d (with_ctx (sa_ctx sa) e)"
  by (intro quiet_ctx) (simp_all add: analyze_reported)

lemma parsing_quiet:
  assumes "new_parser (drv_ctx e) toks = Some p" "parse n p = Parsed m p'" "quiet d e"
  shows "quiet d (with_ctx (ps_ctx p') e)"
proof -
  have ok: "ps_ok p" and p: "ps_ctx p = drv_ctx e"
    using assms(1) by (auto simp: new_parser_def ps_ok_def split: if_splits)
  obtain name p1 where n: "parse_module_name p = (name, p1)" by fastforce
  have m1: "moved False p p1" by (rule module_name_moved [OF n ok])
  from assms(2) obtain x where "moduleLoop n name [] [] p1 = Parsed x p'"
    by (cases "moduleLoop n name [] [] p1") (auto simp: parse_def n split: prod.splits)
  then have "moved False p1 p'" using module_loop_outcome [OF moved_ok [OF m1], of n name "[]" "[]"] by simp
  then have "moved False p p'" by (rule moved_trans [OF m1]) simp
  then show ?thesis using assms(3) by (intro quiet_ctx) (simp_all add: moved_def p)
qed

lemma stage_analysis_reports:
  assumes "stage_analysis sys opts path m d = Finished r d'"
  shows "reports d d'"
proof (cases "analyze m (new_analyzer (drv_ctx d))")
  case None
  with assms show ?thesis by (simp add: stage_analysis_def Let_def)
next
  case (Some a)
  obtain ok sa where a: "analyze m (new_analyzer (drv_ctx d)) = Some (ok, sa)" using Some by (cases a) simp
  let ?e = "with_ctx (sa_ctx sa) (logStage opts 4 ''semantic analysis'' d)"
  have "reports d ?e" 
    using quiet_reports [OF analysis_quiet [of m "logStage opts 4 ''semantic analysis'' d" ok sa d]] a by simp
  then show ?thesis
    using assms a by (auto simp: stage_analysis_def Let_def split: if_splits intro: reports_trans dest: stage_ir_reports)
qed

lemma stage_parse_reports:
  assumes "stage_parse sys opts n path toks d = Finished r d'"
  shows "reports d d'"
proof -
  from assms obtain p m p' where p: "new_parser (drv_ctx d) toks = Some p" "parse n p = Parsed m p'"
    by (auto simp: stage_parse_def Let_def split: option.splits parse_result.splits)
  let ?e = "with_ctx (ps_ctx p') (logStage opts 3 ''parsing'' d)"
  have "reports d ?e" 
    using quiet_reports [OF parsing_quiet [of "logStage opts 3 ''parsing'' d" toks p n m p' d]] p by simp
  then show ?thesis
    using assms p by (auto simp: stage_parse_def Let_def split: if_splits intro: reports_trans dest: stage_analysis_reports)
qed


section \<open>A file with errors ends the run\<close>

text \<open>The tokens of a file, as the driver's lexer produces them.\<close>

definition file_tokens :: "string \<Rightarrow> string \<Rightarrow> CompilerContext \<Rightarrow> (Token list \<times> Lexer) option" where
  "file_tokens path src c = (let (i, c') = addSource path src c in tokenize (new_lexer c' i))"

text \<open>
  The front end as a whole: the module that the text of a file parses to, if the analyser accepts it, and the context after it.
\<close>

definition front_end :: "nat \<Rightarrow> string \<Rightarrow> string \<Rightarrow> CompilerContext \<Rightarrow> (Decl \<times> CompilerContext) option" where
  "front_end n path src c =
     do { (toks, lx) \<leftarrow> file_tokens path src c;
          p \<leftarrow> new_parser (lx_ctx lx) toks;
          (case parse n p of
             Parsed m p' \<Rightarrow> do { (ok, sa) \<leftarrow> analyze m (new_analyzer (ps_ctx p')); if ok then Some (m, sa_ctx sa) else None }
           | _ \<Rightarrow> None) }"

text \<open>What a file does before parsing: it stops, or the parser continues from \<open>e\<close>.\<close>

lemma compileFile_cases:
  assumes "compileFile sys n path d = Finished r d'"
  shows "\<exists>e. quiet d e \<and> (\<not> r \<and> d' = e
    \<or> opt_dumpTokens (ctx_opts (drv_ctx d)) \<and> r = (\<not> drv_hasErrors e) \<and> d' = e
    \<or> \<not> opt_dumpTokens (ctx_opts (drv_ctx d)) \<and> \<not> drv_hasErrors e
      \<and> (\<exists>src toks lx. sys_read sys (drv_events d) path = Some src \<and> file_tokens path src (drv_ctx d) = Some (toks, lx)
          \<and> drv_ctx e = lx_ctx lx \<and> stage_parse sys (ctx_opts (drv_ctx d)) n path toks e = Finished r d'))"
proof (cases "sys_read sys (drv_events d) path")
  case None
  let ?e = "drv_report LevelFatal (''cannot open input file '' @ quoted path)
      (logStage (ctx_opts (drv_ctx d)) 1 (''reading '' @ quoted path) d)"
  have "quiet d ?e" by (rule quiet_report) simp
  then show ?thesis using None assms by (auto simp: compileFile_def Let_def)
next
  case (Some src)
  let ?opts = "ctx_opts (drv_ctx d)"
  obtain i c where add: "addSource path src (drv_ctx d) = (i, c)" by fastforce
  define e where "e = logStage ?opts 2 ''lexing'' (with_ctx c (logStage ?opts 1 (''reading '' @ quoted path) d))"
  have ctx: "drv_ctx e = c" and e: "quiet d e"
    using adding_quiet [OF add, of d] by (auto simp: e_def quiet_def)
  have run: "compileFile sys n path d = (case tokenize (new_lexer c i) of None \<Rightarrow> Aborted e
      | Some (toks, lx) \<Rightarrow> (let d2 = with_ctx (lx_ctx lx) e in
          if opt_dumpTokens ?opts then Finished (\<not> drv_hasErrors d2) (print_out (printTokenTable toks) d2)
          else if drv_hasErrors d2 then Finished False d2 else stage_parse sys ?opts n path toks d2))"
    unfolding e_def using Some add
    by (simp add: compileFile_def stage_lex_def Let_def split: option.split prod.split)
  with assms obtain toks lx where tl: "tokenize (new_lexer c i) = Some (toks, lx)" by (auto split: option.splits)
  have q: "quiet d (with_ctx (lx_ctx lx) e)" by (rule lexing_quiet [OF tl e ctx])
  show ?thesis
    by (rule exI [where x = "if opt_dumpTokens ?opts then d' else with_ctx (lx_ctx lx) e"])
      (use assms q tl Some in \<open>auto simp: run Let_def drv_hasErrors_def file_tokens_def add split: if_splits\<close>)
qed

lemma compileFile_reports:
  assumes "compileFile sys n path d = Finished r d'"
  shows "reports d d'"
  using compileFile_cases [OF assms] by (auto dest: quiet_reports stage_parse_reports intro: reports_trans)

lemma compile_after_error:
  assumes "compileFile sys n path d = Finished r d'" "drv_ok d" "drv_hasErrors d"
    and "length (drv_diags d') < 2 ^ 32"
  shows "\<not> r \<and> quiet d d'"
proof -
  from compileFile_cases [OF assms(1)] obtain e where e: "quiet d e" "\<not> r \<and> d' = e
      \<or> r = (\<not> drv_hasErrors e) \<and> d' = e \<or> \<not> drv_hasErrors e \<and> reports e d'"
    using stage_parse_reports by blast
  then have "length (drv_diags e) < 2 ^ 32" using assms(4) reports_length [of e d'] by auto
  from errors_stay [OF e(1) assms(2) this assms(3)] e show ?thesis by auto
qed

lemma compile_all_reports: "compile_all sys n paths ok d = Finished r d' \<Longrightarrow> reports d d'"
proof (induction paths arbitrary: ok d)
  case (Cons path paths)
  then show ?case
    by (auto simp: run_then_def split: run.splits intro: reports_trans dest: compileFile_reports)
qed simp

text \<open>
  C24. The files of one invocation share a diagnostics engine that is never reset: once an error has been
  recorded, the run does not build anything for the remaining files, however correct they are, and ends with a failure.
\<close>

theorem errors_end_the_run:
  assumes "compile_all sys n paths ok d = Finished r d'"
    and "engine_ok (ctx_diag (drv_ctx d))" "drv_hasErrors d" "paths \<noteq> []"
    and "length (drv_diags d') < 2 ^ 32"
  shows "\<not> r \<and> drv_events d' = drv_events d"
proof -
  have "(paths \<noteq> [] \<longrightarrow> \<not> r) \<and> (\<not> ok \<longrightarrow> \<not> r) \<and> drv_events d' = drv_events d" if "drv_ok d"
    using assms(1,3,5) that
  proof (induction paths arbitrary: ok d)
    case (Cons path paths)
    from Cons.prems(1) obtain b e where b: "compileFile sys n path d = Finished b e"
      and rest: "compile_all sys n paths (ok \<and> b) e = Finished r d'"
      by (auto simp: run_then_def split: run.splits)
    have le: "length (drv_diags e) < 2 ^ 32"
      using reports_length [OF compile_all_reports [OF rest]] Cons.prems(3) by simp
    from compile_after_error [OF b Cons.prems(4,2) le] have q: "\<not> b" "quiet d e" by simp_all
    have "drv_hasErrors e" by (rule errors_stay [OF q(2) Cons.prems(4) le Cons.prems(2)])
    from Cons.IH [OF rest this Cons.prems(3) quiet_ok [OF q(2) Cons.prems(4)]] q
    show ?case by (auto simp: quiet_def)
  qed simp
  then show ?thesis using assms(2,4) by (simp add: drv_ok_def)
qed

text \<open>A system with one readable text and an LLVM backend and tools that succeed, and the file the examples compile.\<close>

definition example_system :: "string \<Rightarrow> System" where
  "example_system src =
     \<lparr>sys_read = (\<lambda>_ _. Some src), sys_run = (\<lambda>_ _. 0), sys_isatty = False, sys_emitIR = (\<lambda>_ _. Some (True, []))\<rparr>"

definition example_source :: string where
  "example_source = ''fn main() { return }''"

definition run_result :: "'a run \<Rightarrow> ('a \<times> nat \<times> Event list) option" where
  "run_result r = (case r of Finished x d \<Rightarrow> Some (x, length (drv_diags d), drv_events d) | _ \<Rightarrow> None)"

lemma run_result_Some: "run_result r = Some (x, k, es) \<Longrightarrow> \<exists>d. r = Finished x d \<and> length (drv_diags d) = k \<and> drv_events d = es"
  by (auto simp: run_result_def split: run.splits)

theorem errors_end_the_run_witness:
  "\<exists>d'. compile_all (example_system example_source) 100 [''b.v''] True
      (drv_report LevelError ''an error of the first file'' (new_driver default_options)) = Finished False d'
    \<and> drv_events d' = []"
proof -
  let ?d = "drv_report LevelError ''an error of the first file'' (new_driver default_options)"
  have "map_option (fst \<circ> snd) (run_result (compile_all (example_system example_source) 100 [''b.v''] True ?d)) = Some 1"
    by code_simp
  then obtain r d' where r: "compile_all (example_system example_source) 100 [''b.v''] True ?d = Finished r d'"
    "length (drv_diags d') = 1"
    by (auto simp: run_result_def split: run.splits)
  have "engine_ok (ctx_diag (drv_ctx ?d))"
    by (simp add: drv_report_def new_driver_def new_context_def engine_ok_emit)
  moreover have "drv_hasErrors ?d" "drv_events ?d = []"
    by (simp_all add: drv_report_def new_driver_def new_context_def drv_hasErrors_def hasErrors_def
        new_engine_def level_is_error_def with_ctx_def)
  ultimately show ?thesis using errors_end_the_run [OF r(1)] r by auto
qed


section \<open>The verdict of a check\<close>

text \<open>A readable file is lexed, and then stops or goes on with the parser.\<close>

lemma compileFile_run:
  assumes "sys_read sys (drv_events d) path = Some src" "src = [] \<or> last src \<noteq> CHR ''#''" "source_room (drv_ctx d) > 0"
  shows "\<exists>toks lx e. file_tokens path src (drv_ctx d) = Some (toks, lx) \<and> drv_ctx e = lx_ctx lx \<and> quiet d e
    \<and> toks \<noteq> [] \<and> token_isEof (last toks) \<and> length toks \<le> Suc (length src)
    \<and> compileFile sys n path d =
        (if opt_dumpTokens (ctx_opts (drv_ctx d)) then Finished (\<not> drv_hasErrors e) (print_out (printTokenTable toks) e)
         else if drv_hasErrors e then Finished False e else stage_parse sys (ctx_opts (drv_ctx d)) n path toks e)"
proof -
  let ?opts = "ctx_opts (drv_ctx d)"
  obtain i c where add: "addSource path src (drv_ctx d) = (i, c)" by fastforce
  define e where "e = logStage ?opts 2 ''lexing'' (with_ctx c (logStage ?opts 1 (''reading '' @ quoted path) d))"
  have ctx: "drv_ctx e = c" and e: "quiet d e"
    using adding_quiet [OF add, of d] by (auto simp: e_def quiet_def)
  have source: "lx_source (new_lexer c i) = src"
    using registry.add_text [OF assms(3) add] by (simp add: new_lexer_def)
  then obtain toks lx where tl: "tokenize (new_lexer c i) = Some (toks, lx)"
    using tokenize_loop_spec [of "[]" "new_lexer c i"] assms(2) by (auto simp: tokenize_def)
  have "compileFile sys n path d = (let d2 = with_ctx (lx_ctx lx) e in
      if opt_dumpTokens ?opts then Finished (\<not> drv_hasErrors d2) (print_out (printTokenTable toks) d2)
      else if drv_hasErrors d2 then Finished False d2 else stage_parse sys ?opts n path toks d2)"
    unfolding e_def using assms(1) add tl by (simp add: compileFile_def stage_lex_def Let_def)
  then show ?thesis
    using lexes_last_eof [OF tokenize_lexes [OF tl]] lexes_length [OF tokenize_lexes [OF tl]] lexing_quiet [OF tl e ctx]
    by (intro exI [of _ toks] exI [of _ lx] exI [of _ "with_ctx (lx_ctx lx) e"]) (auto simp: file_tokens_def add tl source)
qed

text \<open>What is printed when a check has succeeded.\<close>

definition checked_note :: "CompilerOptions \<Rightarrow> Driver \<Rightarrow> Driver" where
  "checked_note opts d =
     (if opt_verbose opts then print_err (line ''vcc: ok  (--no-codegen: stopped after analysis)'') d else d)"

text \<open>The parser and the analyser come to an answer, which decides how the file goes on.\<close>

lemma stage_parse_run:
  assumes "toks \<noteq> []" "token_isEof (last toks)"
    and "\<forall>t \<in> set toks. tok_kind t \<noteq> KwStruct \<and> tok_kind t \<noteq> KwEnum" "10 * length toks + 6 \<le> n"
  shows "\<exists>p m p' b sa e3 e4. new_parser (drv_ctx e) toks = Some p \<and> parse n p = Parsed m p'
    \<and> analyze m (new_analyzer (ps_ctx p')) = Some (b, sa) \<and> drv_ctx e3 = ps_ctx p' \<and> drv_ctx e4 = sa_ctx sa
    \<and> quiet e e3 \<and> quiet e e4
    \<and> stage_parse sys opts n path toks e =
        (if drv_hasErrors e3 then Finished False e3
         else if opt_dumpAST opts then Finished True (print_out (dmp_out (ast_dump (NDecl m) (new_dumper []))) e3)
         else if \<not> b then Finished False e4
         else if opt_noCodegen opts then Finished True (checked_note opts e4)
         else stage_ir sys opts path m e4)"
proof -
  obtain p where p: "new_parser (drv_ctx e) toks = Some p" using assms(1,2) by (simp add: new_parser_def)
  obtain m p' where m: "parse n p = Parsed m p'" using parse_outcome [OF p assms(3,4)] by blast
  obtain b sa where a: "analyze m (new_analyzer (ps_ctx p')) = Some (b, sa)" using analyze_steps [of m "ps_ctx p'"] by blast
  define e3 where "e3 = with_ctx (ps_ctx p') (logStage opts 3 ''parsing'' e)"
  define e4 where "e4 = with_ctx (sa_ctx sa) (logStage opts 4 ''semantic analysis'' e3)"
  have q3: "quiet e e3" unfolding e3_def by (rule parsing_quiet [OF _ m]) (use p in simp_all)
  have q4: "quiet e e4" unfolding e4_def by (rule analysis_quiet) (use a q3 in \<open>simp_all add: e3_def\<close>)
  have "stage_parse sys opts n path toks e = (if drv_hasErrors e3 then Finished False e3
         else if opt_dumpAST opts then Finished True (print_out (dmp_out (ast_dump (NDecl m) (new_dumper []))) e3)
         else stage_analysis sys opts path m e3)"
    using p m by (simp add: stage_parse_def e3_def Let_def)
  moreover have "stage_analysis sys opts path m e3 = (if \<not> b then Finished False e4
         else if opt_noCodegen opts then Finished True (checked_note opts e4) else stage_ir sys opts path m e4)"
    using a by (auto simp: stage_analysis_def e4_def e3_def checked_note_def Let_def)
  ultimately show ?thesis using p m a q3 q4
    by (intro exI [of _ p] exI [of _ m] exI [of _ p'] exI [of _ b] exI [of _ sa] exI [of _ e3] exI [of _ e4])
      (simp add: e3_def e4_def)
qed

text \<open>A check stops with errors after lexing or parsing, or it comes to the answer of the analyser.\<close>

lemma check_outcome:
  fixes d :: Driver
  assumes "opt_noCodegen (ctx_opts (drv_ctx d))" "\<not> opt_dumpTokens (ctx_opts (drv_ctx d))" "\<not> opt_dumpAST (ctx_opts (drv_ctx d))"
    and "sys_read sys (drv_events d) path = Some src" "src = [] \<or> last src \<noteq> CHR ''#''"
    and "source_room (drv_ctx d) > 0" "16 + 10 * length src \<le> n"
    and "\<forall>toks lx. file_tokens path src (drv_ctx d) = Some (toks, lx) \<longrightarrow> (\<forall>t \<in> set toks. tok_kind t \<noteq> KwStruct \<and> tok_kind t \<noteq> KwEnum)"
  shows "(\<exists>e. compileFile sys n path d = Finished False e \<and> quiet d e \<and> drv_hasErrors e)
    \<or> (\<exists>toks lx p m p' b sa e. file_tokens path src (drv_ctx d) = Some (toks, lx) \<and> new_parser (lx_ctx lx) toks = Some p
        \<and> parse n p = Parsed m p' \<and> errorCount (ctx_diag (ps_ctx p')) = 0 \<and> analyze m (new_analyzer (ps_ctx p')) = Some (b, sa)
        \<and> drv_ctx e = sa_ctx sa \<and> quiet d e
        \<and> compileFile sys n path d = Finished b (if b then checked_note (ctx_opts (drv_ctx d)) e else e))"
proof -
  let ?opts = "ctx_opts (drv_ctx d)"
  obtain toks lx e where e: "file_tokens path src (drv_ctx d) = Some (toks, lx)" "drv_ctx e = lx_ctx lx" "quiet d e"
      "toks \<noteq> []" "token_isEof (last toks)" "length toks \<le> Suc (length src)"
      "compileFile sys n path d = (if opt_dumpTokens ?opts then Finished (\<not> drv_hasErrors e) (print_out (printTokenTable toks) e)
        else if drv_hasErrors e then Finished False e else stage_parse sys ?opts n path toks e)"
    using compileFile_run [OF assms(4-6)] by metis
  have "\<forall>t \<in> set toks. tok_kind t \<noteq> KwStruct \<and> tok_kind t \<noteq> KwEnum" "10 * length toks + 6 \<le> n"
    using assms(7,8) e(1,6) by auto
  from stage_parse_run [OF e(4,5) this, of e sys ?opts path] obtain p m p' b sa e3 e4 where
    p: "new_parser (drv_ctx e) toks = Some p" "parse n p = Parsed m p'" "analyze m (new_analyzer (ps_ctx p')) = Some (b, sa)"
    and ctx: "drv_ctx e3 = ps_ctx p'" "drv_ctx e4 = sa_ctx sa" and q: "quiet e e3" "quiet e e4"
    and run: "stage_parse sys ?opts n path toks e =
      (if drv_hasErrors e3 then Finished False e3
       else if opt_dumpAST ?opts then Finished True (print_out (dmp_out (ast_dump (NDecl m) (new_dumper []))) e3)
       else if \<not> b then Finished False e4
       else if opt_noCodegen ?opts then Finished True (checked_note ?opts e4)
       else stage_ir sys ?opts path m e4)" by metis
  have quiet: "quiet d e3" "quiet d e4" using quiet_trans [OF e(3)] q by blast+
  consider "drv_hasErrors e" | "\<not> drv_hasErrors e" "drv_hasErrors e3" | "\<not> drv_hasErrors e" "\<not> drv_hasErrors e3" by blast
  then show ?thesis
  proof cases
    case 3
    have "errorCount (ctx_diag (ps_ctx p')) = 0"
      using 3(2) ctx(1) by (simp add: drv_hasErrors_def hasErrors_def errorCount_def word_gt_0)
    moreover have "compileFile sys n path d = Finished b (if b then checked_note ?opts e4 else e4)"
      using 3 run e(7) assms(1-3) by simp
    ultimately show ?thesis using e(1,2) p ctx(2) quiet(2) by metis
  qed (use e(3,7) run assms(2) quiet(1) in auto)
qed




section \<open>A build\<close>

lemma stage_binary_success:
  assumes "stage_binary sys opts path irm d = Finished True d'"
  defines "bin \<equiv> resolveBinaryPath path opts"
  defines "ll \<equiv> replace_extension bin ''.ll''" and "obj \<equiv> replace_extension bin ''.o''"
  shows "drv_hasErrors d' = drv_hasErrors d
    \<and> drv_events d' = drv_events d @ [EmitIR irm ll, RunCommand (llc_command obj ll), RunCommand (gcc_command bin obj), RemoveFile ll, RemoveFile obj]
    \<and> (\<exists>err. sys_emitIR sys irm ll = Some (True, err))
    \<and> sys_run sys (drv_events d @ [EmitIR irm ll]) (llc_command obj ll) = 0
    \<and> sys_run sys (drv_events d @ [EmitIR irm ll, RunCommand (llc_command obj ll)]) (gcc_command bin obj) = 0"
  using assms(1) unfolding bin_def ll_def obj_def
  by (auto simp: stage_binary_def emit_ll_def run_command_def run_then_def Let_def drv_hasErrors_def
      split: run.splits option.splits prod.splits if_splits)

lemma stage_ir_success:
  assumes "stage_ir sys opts path m d = Finished True d'" "\<not> opt_dumpIR opts" "\<not> opt_emitLLVM opts"
  shows "\<exists>irm ig e. generate m (new_irgen (drv_ctx d)) = Some (irm, ig) \<and> stage_binary sys opts path irm e = Finished True d'
    \<and> drv_hasErrors e = drv_hasErrors d \<and> drv_events e = drv_events d"
proof -
  let ?e = "logStage opts 5 ''IR generation'' d"
  have "drv_hasErrors ?e = drv_hasErrors d" "drv_events ?e = drv_events d" by (simp_all add: drv_hasErrors_def)
  moreover obtain irm ig where "generate m (new_irgen (drv_ctx d)) = Some (irm, ig)"
      "stage_binary sys opts path irm ?e = Finished True d'"
    using assms by (auto simp: stage_ir_def Let_def split: option.splits)
  ultimately show ?thesis by blast
qed

lemma stage_parse_success:
  assumes "stage_parse sys opts n path toks d = Finished True d'" "\<not> opt_dumpAST opts" "\<not> opt_noCodegen opts"
  shows "\<exists>p m p' sa e. new_parser (drv_ctx d) toks = Some p \<and> parse n p = Parsed m p'
    \<and> analyze m (new_analyzer (ps_ctx p')) = Some (True, sa)
    \<and> stage_ir sys opts path m e = Finished True d' \<and> drv_ctx e = sa_ctx sa \<and> \<not> drv_hasErrors e \<and> drv_events e = drv_events d"
proof -
  from assms(1) obtain p m p' where p: "new_parser (drv_ctx d) toks = Some p" "parse n p = Parsed m p'"
    by (auto simp: stage_parse_def Let_def split: option.splits parse_result.splits)
  let ?e = "with_ctx (ps_ctx p') (logStage opts 3 ''parsing'' d)"
  have e: "\<not> drv_hasErrors ?e" and run: "stage_analysis sys opts path m ?e = Finished True d'"
    using assms p by (auto simp: stage_parse_def Let_def split: if_splits)
  then obtain sa where sa: "analyze m (new_analyzer (ps_ctx p')) = Some (True, sa)"
    and ir: "stage_ir sys opts path m (with_ctx (sa_ctx sa) (logStage opts 4 ''semantic analysis'' ?e)) = Finished True d'"
    using assms(3) by (auto simp: stage_analysis_def Let_def split: option.splits if_splits)
  moreover have "\<not> drv_hasErrors (with_ctx (sa_ctx sa) (logStage opts 4 ''semantic analysis'' ?e))"
    using e analyze_reported [OF sa] by (simp add: drv_hasErrors_def hasErrors_def errorCount_def)
  ultimately show ?thesis using p by (intro exI conjI) (assumption | simp)+
qed

lemma compileFile_front:
  assumes "compileFile sys n path d = Finished True d'"
    and "\<not> opt_dumpTokens (ctx_opts (drv_ctx d))" "\<not> opt_dumpAST (ctx_opts (drv_ctx d))" "\<not> opt_noCodegen (ctx_opts (drv_ctx d))"
  shows "\<exists>src m e. sys_read sys (drv_events d) path = Some src \<and> front_end n path src (drv_ctx d) = Some (m, drv_ctx e)
    \<and> stage_ir sys (ctx_opts (drv_ctx d)) path m e = Finished True d' \<and> \<not> drv_hasErrors e \<and> drv_events e = drv_events d"
proof -
  obtain e src toks lx where e: "drv_events e = drv_events d" "sys_read sys (drv_events d) path = Some src"
      "file_tokens path src (drv_ctx d) = Some (toks, lx)" "drv_ctx e = lx_ctx lx"
      "stage_parse sys (ctx_opts (drv_ctx d)) n path toks e = Finished True d'"
    using compileFile_cases [OF assms(1)] assms(2) by (auto simp: quiet_def)
  obtain p m p' sa e' where "new_parser (drv_ctx e) toks = Some p" "parse n p = Parsed m p'"
      "analyze m (new_analyzer (ps_ctx p')) = Some (True, sa)" "drv_ctx e' = sa_ctx sa"
      "stage_ir sys (ctx_opts (drv_ctx d)) path m e' = Finished True d'" "\<not> drv_hasErrors e'" "drv_events e' = drv_events e"
    using stage_parse_success [OF e(5) assms(3,4)] by blast
  with e have "front_end n path src (drv_ctx d) = Some (m, drv_ctx e')" by (simp add: front_end_def)
  with e \<open>stage_ir _ _ _ _ _ = _\<close> \<open>\<not> drv_hasErrors e'\<close> \<open>drv_events e' = _\<close> show ?thesis by auto
qed

text \<open>
  C20. A default build that reports success has done all of it: the text of the file parses to a module that the analyser
  accepts, no error was reported, LLVM IR of the module generated from it was written next to the binary, \<open>llc\<close> and then the linker ran on it and returned 0, and
  the two intermediate files were removed last; nothing else was run or removed.
\<close>

theorem build_steps:
  fixes path :: string and d :: Driver
  defines "opts \<equiv> ctx_opts (drv_ctx d)"
  defines "bin \<equiv> resolveBinaryPath path opts"
  defines "ll \<equiv> replace_extension bin ''.ll''" and "obj \<equiv> replace_extension bin ''.o''"
  assumes "compileFile sys n path d = Finished True d'"
    and "\<not> opt_dumpTokens opts" "\<not> opt_dumpAST opts" "\<not> opt_noCodegen opts" "\<not> opt_dumpIR opts" "\<not> opt_emitLLVM opts"
  shows "\<exists>src m c irm ig err. sys_read sys (drv_events d) path = Some src \<and> front_end n path src (drv_ctx d) = Some (m, c)
    \<and> \<not> drv_hasErrors d' \<and> generate m (new_irgen c) = Some (irm, ig)
    \<and> drv_events d' = drv_events d @ [EmitIR irm ll, RunCommand (llc_command obj ll), RunCommand (gcc_command bin obj), RemoveFile ll, RemoveFile obj]
    \<and> sys_emitIR sys irm ll = Some (True, err)
    \<and> sys_run sys (drv_events d @ [EmitIR irm ll]) (llc_command obj ll) = 0
    \<and> sys_run sys (drv_events d @ [EmitIR irm ll, RunCommand (llc_command obj ll)]) (gcc_command bin obj) = 0"
proof -
  obtain src m e where e: "sys_read sys (drv_events d) path = Some src" "front_end n path src (drv_ctx d) = Some (m, drv_ctx e)"
      "stage_ir sys opts path m e = Finished True d'" "\<not> drv_hasErrors e" "drv_events e = drv_events d"
    using compileFile_front [OF assms(5)] assms(6-8) unfolding opts_def by blast
  obtain irm ig e2 where e2: "generate m (new_irgen (drv_ctx e)) = Some (irm, ig)" "stage_binary sys opts path irm e2 = Finished True d'"
      "drv_hasErrors e2 = drv_hasErrors e" "drv_events e2 = drv_events e"
    using stage_ir_success [OF e(3) assms(9,10)] by blast
  from stage_binary_success [OF e2(2)] obtain err where "sys_emitIR sys irm ll = Some (True, err)"
    unfolding bin_def ll_def by blast
  with stage_binary_success [OF e2(2)] e e2 show ?thesis unfolding bin_def ll_def obj_def by fastforce
qed

theorem build_steps_witness:
  "\<exists>irm d'. compileFile (example_system example_source) 300 ''src/a.v'' (new_driver default_options) = Finished True d'
    \<and> drv_events d' = [EmitIR irm ''a.ll'',
        RunCommand ''/usr/lib/llvm-18/bin/llc --relocation-model=pic -filetype=obj -o a.o a.ll'',
        RunCommand ''gcc -pie -o a a.o -lm 2>&1'', RemoveFile ''a.ll'', RemoveFile ''a.o'']"
proof -
  let ?d = "new_driver default_options"
  have "map_option fst (run_result (compileFile (example_system example_source) 300 ''src/a.v'' ?d)) = Some True" by code_simp
  then obtain d' where d': "compileFile (example_system example_source) 300 ''src/a.v'' ?d = Finished True d'"
    by (auto simp: run_result_def split: run.splits)
  have opts: "ctx_opts (drv_ctx ?d) = default_options" "drv_events ?d = []" by (simp_all add: new_driver_def new_context_def)
  have paths: "resolveBinaryPath ''src/a.v'' default_options = ''a''" "replace_extension ''a'' ''.ll'' = ''a.ll''"
    "replace_extension ''a'' ''.o'' = ''a.o''" by code_simp+
  from build_steps [OF d'] show ?thesis
    unfolding opts paths using d' by (auto simp: default_options_def llc_command_def gcc_command_def)
qed


section \<open>The command line\<close>

text \<open>The arguments that are options, without the values of \<open>-o\<close>, and the arguments that are files.\<close>

fun option_words :: "string list \<Rightarrow> string list" where
  "option_words [] = []"
| "option_words (a # as) =
     (if a = ''-o'' then a # option_words (tl as) else if starts_with ''-'' a then a # option_words as else option_words as)"

fun file_words :: "string list \<Rightarrow> string list" where
  "file_words [] = []"
| "file_words (a # as) =
     (if a = ''-o'' then file_words (tl as) else if starts_with ''-'' a then file_words as else a # file_words as)"

definition any_of :: "string list \<Rightarrow> string list \<Rightarrow> bool" where
  "any_of names ws \<longleftrightarrow> (\<exists>w \<in> set ws. w \<in> set names)"

lemma any_of_simps [simp]: "\<not> any_of ns []" "any_of ns (w # ws) \<longleftrightarrow> w \<in> set ns \<or> any_of ns ws"
  by (auto simp: any_of_def)

text \<open>The switches that \<open>ws\<close> turns on, beside those that \<open>opts\<close> has.\<close>

definition switches :: "string list \<Rightarrow> CompilerOptions \<Rightarrow> CompilerOptions \<Rightarrow> bool" where
  "switches ws opts opts' \<longleftrightarrow>
     opt_dumpTokens opts' = (opt_dumpTokens opts \<or> any_of [''--tokens'', ''--dump-tokens''] ws)
     \<and> opt_dumpAST opts' = (opt_dumpAST opts \<or> any_of [''--ast'', ''--dump-ast''] ws)
     \<and> opt_dumpIR opts' = (opt_dumpIR opts \<or> any_of [''--ir'', ''--dump-ir''] ws)
     \<and> opt_emitLLVM opts' = (opt_emitLLVM opts \<or> any_of [''--emit-llvm''] ws)
     \<and> opt_noCodegen opts' = (opt_noCodegen opts \<or> any_of [''--no-codegen''] ws)
     \<and> opt_noColor opts' = (opt_noColor opts \<or> any_of [''--no-color''] ws)
     \<and> opt_verbose opts' = (opt_verbose opts \<or> any_of [''-v'', ''--verbose''] ws)"

lemma switches_trans: "switches [w] o1 o2 \<Longrightarrow> switches ws o2 o3 \<Longrightarrow> switches (w # ws) o1 o3"
  by (auto simp: switches_def)

lemma first_some:
  "(if p1 then Some a1 else if p2 then Some a2 else if p3 then Some a3 else if p4 then Some a4
    else if p5 then Some a5 else if p6 then Some a6 else if p7 then Some a7 else None) = Some x \<Longrightarrow>
   p1 \<and> x = a1 \<or> p2 \<and> x = a2 \<or> p3 \<and> x = a3 \<or> p4 \<and> x = a4 \<or> p5 \<and> x = a5 \<or> p6 \<and> x = a6 \<or> p7 \<and> x = a7"
  by (simp split: if_splits)

lemma flag_option_Some:
  assumes "flag_option w o1 = Some o2"
  shows "switches [w] o1 o2 \<and> opt_inputFiles o2 = opt_inputFiles o1 \<and> starts_with ''-'' w \<and> w \<noteq> ''-o''"
  using first_some [OF assms [unfolded flag_option_def]]
  by (elim disjE conjE) (simp_all add: switches_def starts_with_def)

lemma flag_option_None:
  "flag_option w o1 = None \<Longrightarrow>
    w \<noteq> ''--tokens'' \<and> w \<noteq> ''--dump-tokens'' \<and> w \<noteq> ''--ast'' \<and> w \<noteq> ''--dump-ast'' \<and> w \<noteq> ''--ir'' \<and> w \<noteq> ''--dump-ir''
    \<and> w \<noteq> ''--emit-llvm'' \<and> w \<noteq> ''--no-codegen'' \<and> w \<noteq> ''--no-color'' \<and> w \<noteq> ''-v'' \<and> w \<noteq> ''--verbose''"
  unfolding flag_option_def by (intro conjI notI) (simp_all split: if_splits)

lemma switches_other: "flag_option w o1 = None \<Longrightarrow> switches (w # ws) o2 o3 = switches ws o2 o3"
  by (drule flag_option_None) (simp add: switches_def)

lemma level_option_Some:
  assumes "level_option w o1 = Some o2"
  shows "(\<exists>k. o2 = o1\<lparr>opt_optimizationLevel := k\<rparr>) \<and> starts_with ''-'' w \<and> w \<noteq> ''-o''"
proof -
  have "w = ''-O0'' \<or> w = ''-O1'' \<or> w = ''-O2'' \<or> w = ''-O3''" and "\<exists>k. o2 = o1\<lparr>opt_optimizationLevel := k\<rparr>"
    using assms unfolding level_option_def by (metis option.distinct(1), metis option.distinct(1) option.inject)
  then show ?thesis by (elim disjE) (simp_all add: starts_with_def)
qed

lemma parse_args_reads:
  "parse_args argv0 args o1 = Options o2 \<Longrightarrow>
    switches (option_words args) o1 o2 \<and> opt_inputFiles o2 = opt_inputFiles o1 @ file_words args"
proof (induction args arbitrary: o1 rule: length_induct)
  case (1 args)
  note IH = 1(1) [rule_format]
  show ?case
  proof (cases args)
    case Nil
    then show ?thesis using 1(2) by (simp add: switches_def)
  next
    case (Cons w ws)
    show ?thesis
    proof (cases "flag_option w o1")
      case (Some o')
      then have "parse_args argv0 ws o' = Options o2" using 1(2) by (simp add: Cons split: if_splits)
      from IH [OF _ this] flag_option_Some [OF Some] show ?thesis by (auto simp: Cons intro: switches_trans)
    next
      case None
      note step = 1(2) [unfolded Cons parse_args.simps None option.case]
      show ?thesis
      proof (cases "w = ''-o''")
        case True
        with step obtain v ws' where r: "ws = v # ws'" "parse_args argv0 ws' (o1\<lparr>opt_outputFile := v\<rparr>) = Options o2"
          by (auto split: list.splits)
        from IH [OF _ r(2)] show ?thesis
          using switches_other [OF None] by (simp add: Cons True r(1)) (simp add: switches_def)
      next
        case not_o: False
        show ?thesis
        proof (cases "starts_with ''-'' w")
          case True
          then obtain o' where o': "parse_args argv0 ws o' = Options o2" "switches (option_words ws) o' o2 = switches (option_words ws) o1 o2"
              "opt_inputFiles o' = opt_inputFiles o1"
            using step not_o
            by (auto simp: switches_def split: if_splits option.splits dest!: level_option_Some)
          from IH [OF _ o'(1)] show ?thesis
            using o'(2,3) switches_other [OF None] True not_o by (simp add: Cons)
        next
          case False
          then have "\<not> starts_with ''-o'' w" by (cases w) (auto simp: starts_with_def)
          then have "parse_args argv0 ws (o1\<lparr>opt_inputFiles := opt_inputFiles o1 @ [w]\<rparr>) = Options o2"
            using step not_o False by (auto split: if_splits option.splits dest: level_option_Some)
          from IH [OF _ this] show ?thesis
            using False not_o by (simp add: Cons) (simp add: switches_def)
        qed
      qed
    qed
  qed
qed

text \<open>
  C25. When the command line is accepted, the files compiled are the arguments that are neither options
  nor the value of a \<open>-o\<close>, in order, at least one, and a switch is on exactly if one of its spellings
  is among the options.
\<close>

theorem command_line_reads:
  assumes "command_line argv0 args = Options opts"
  shows "opt_inputFiles opts = file_words args \<and> opt_inputFiles opts \<noteq> []
    \<and> switches (option_words args) default_options opts"
proof -
  from assms have "parse_args argv0 args default_options = Options opts" "opt_inputFiles opts \<noteq> []"
    by (auto simp: command_line_def split: if_splits CommandLine.splits)
  with parse_args_reads show ?thesis by (fastforce simp: default_options_def)
qed

theorem command_line_reads_witness:
  "\<exists>opts. command_line ''vcc'' [''-v'', ''-o'', ''--ast'', ''a.v'', ''-O2''] = Options opts
    \<and> opt_inputFiles opts = [''a.v''] \<and> opt_verbose opts \<and> \<not> opt_dumpAST opts"
proof -
  let ?args = "[''-v'', ''-o'', ''--ast'', ''a.v'', ''-O2'']"
  obtain opts where o: "command_line ''vcc'' ?args = Options opts"
    by (simp add: command_line_def flag_option_def level_option_def starts_with_def default_options_def)
  from command_line_reads [OF o] o show ?thesis
    by (simp add: starts_with_def switches_def default_options_def)
qed

end
