(* ===== verification/Vcc_LlvmCodegen.thy ===== *)
theory Vcc_LlvmCodegen
  imports Vcc_IrGen_Wellformed
begin

text \<open>
  The LLVM lowering (\<open>include/vcc/codegen/LLVMCodeGenerator.h\<close>, \<open>src/codegen/LLVMCodeGenerator.cpp\<close>) and
  the backend stub (\<open>src/codegen/LLVMBackend.cpp\<close>). LLVM is a library: its values, blocks and module are type
  parameters, and the methods that the code calls are the fields of a record. \<open>llvm_laws\<close> states the
  documented behaviour that the theorems use: which calls insert a terminator, and where. \<open>None\<close> is an exception
  (\<open>blocks.at\<close> on a label that is not there) or an iterator moved past the arguments.
\<close>


section \<open>The library\<close>

datatype LType = TyI1 | TyI32 | TyI64 | TyDouble | TyPtr | TyVoid | TyOther

datatype FnType = FnType LType "LType list" bool

datatype BinKind = BkAdd | BkSub | BkMul | BkSDiv | BkSRem | BkAnd | BkOr | BkXor | BkShl | BkAShr

datatype CmpKind = CkEQ | CkNE | CkSLT | CkSGT | CkSLE | CkSGE

text \<open>The calls on the \<open>IRBuilder\<close> that insert an instruction at the insertion point.\<close>

datatype ('v, 'b) BuilderCall =
    CreateAlloca LType string
  | CreateLoad LType 'v string
  | CreateStore 'v 'v
  | CreateBin BinKind 'v 'v string
  | CreateNeg 'v string
  | CreateNot 'v string
  | CreateICmp CmpKind 'v 'v string
  | CreateZExt 'v LType string
  | CreateSExt 'v LType string
  | CreateTrunc 'v LType
  | CreateInBoundsGEP 'v string
  | CreateCall 'v "'v list" string
  | CreateBr 'b
  | CreateCondBr 'v 'b 'b
  | CreateRet 'v
  | CreateRetVoid
  | CreateUnreachable

fun is_terminator_call :: "('v, 'b) BuilderCall \<Rightarrow> bool" where
  "is_terminator_call (CreateBr _) = True"
| "is_terminator_call (CreateCondBr _ _ _) = True"
| "is_terminator_call (CreateRet _) = True"
| "is_terminator_call CreateRetVoid = True"
| "is_terminator_call CreateUnreachable = True"
| "is_terminator_call _ = False"

datatype Constant = ConstInt LType int | ConstDouble "64 word" | Undef LType

record ('v, 'b, 's) Llvm =
  ll_create :: "('v, 'b) BuilderCall \<Rightarrow> 's \<Rightarrow> 'v \<times> 's"
  ll_SetInsertPoint :: "'b \<Rightarrow> 's \<Rightarrow> 's"
  ll_new_block :: "string \<Rightarrow> 's \<Rightarrow> 'b \<times> 's"
  ll_new_function :: "FnType \<Rightarrow> string \<Rightarrow> string list \<Rightarrow> 's \<Rightarrow> 'v list \<times> 's"
  ll_getTerminator :: "'b \<Rightarrow> 's \<Rightarrow> bool"
  ll_type :: "'v \<Rightarrow> LType"
  ll_constant :: "Constant \<Rightarrow> 'v"
  ll_global_string :: "string \<Rightarrow> string \<Rightarrow> 's \<Rightarrow> 'v \<times> 's"
  ll_getFunction :: "string \<Rightarrow> 's \<Rightarrow> 'v option"
  ll_declare :: "FnType \<Rightarrow> string \<Rightarrow> 's \<Rightarrow> 'v \<times> 's"
  ll_getOrInsertFunction :: "string \<Rightarrow> FnType \<Rightarrow> 's \<Rightarrow> 'v \<times> 's"
  ll_returns_void :: "'v \<Rightarrow> bool"
  ll_new_module :: "string \<Rightarrow> 's"
  ll_verify :: "'s \<Rightarrow> string option"
  ll_print :: "'s \<Rightarrow> string"


section \<open>The state of a function's lowering\<close>

record ('v, 'b, 's) FunctionLowering =
  fl_state :: 's
  fl_args :: "'v list"
  fl_isVoid :: bool
  fl_regs :: "RegID \<Rightarrow> 'v option"
  fl_blocks :: "string \<Rightarrow> 'b option"

text \<open>One call on the builder, and \<open>regs[r] = v\<close>.\<close>

definition mk :: "('v, 'b, 's) Llvm \<Rightarrow> ('v, 'b) BuilderCall \<Rightarrow> ('v, 'b, 's) FunctionLowering \<Rightarrow> 'v \<times> ('v, 'b, 's) FunctionLowering" where
  "mk L c f = (let (v, s) = ll_create L c (fl_state f) in (v, f\<lparr>fl_state := s\<rparr>))"

definition set_ll_reg :: "RegID \<Rightarrow> 'v \<times> ('v, 'b, 's) FunctionLowering \<Rightarrow> ('v, 'b, 's) FunctionLowering" where
  "set_ll_reg r vf = (snd vf)\<lparr>fl_regs := (fl_regs (snd vf))(r \<mapsto> fst vf)\<rparr>"

definition zeroI64 :: "('v, 'b, 's) Llvm \<Rightarrow> 'v" where
  "zeroI64 L = ll_constant L (ConstInt TyI64 0)"

definition undef_i64 :: "('v, 'b, 's) Llvm \<Rightarrow> 'v" where
  "undef_i64 L = ll_constant L (Undef TyI64)"

definition widenToI64 :: "('v, 'b, 's) Llvm \<Rightarrow> 'v \<times> ('v, 'b, 's) FunctionLowering \<Rightarrow> 'v \<times> ('v, 'b, 's) FunctionLowering" where
  "widenToI64 L vf =
     (let (v, f) = vf in if ll_type L v = TyI1 then mk L (CreateZExt v TyI64 ''zext'') f else (v, f))"

definition toI1 :: "('v, 'b, 's) Llvm \<Rightarrow> 'v \<Rightarrow> ('v, 'b, 's) FunctionLowering \<Rightarrow> 'v \<times> ('v, 'b, 's) FunctionLowering" where
  "toI1 L v f = (if ll_type L v = TyI1 then (v, f) else mk L (CreateICmp CkNE v (zeroI64 L) ''tobool'') f)"

definition countParams :: "IRFunction \<Rightarrow> nat" where
  "countParams fn =
     (case fn_blocks fn of [] \<Rightarrow> 0 | entry # _ \<Rightarrow> length (filter (\<lambda>i. ir_opcode i = OpParam) (bb_instrs entry)))"

definition hasReturnValue :: "IRFunction \<Rightarrow> bool" where
  "hasReturnValue fn \<longleftrightarrow>
     (\<exists>bb \<in> set (fn_blocks fn). \<exists>i \<in> set (bb_instrs bb). ir_opcode i = OpRet \<and> ir_operands i \<noteq> [])"

definition createFunction :: "('v, 'b, 's) Llvm \<Rightarrow> IRFunction \<Rightarrow> 's \<Rightarrow> ('v, 'b, 's) FunctionLowering" where
  "createFunction L fn s =
     (let n = countParams fn;
          ret = (if hasReturnValue fn then TyI64 else TyVoid);
          (args, s') = ll_new_function L (FnType ret (replicate n TyI64) False) (fn_name fn)
            (map (\<lambda>k. ''arg'' @ nat_to_string k) [0..<n]) s
      in \<lparr>fl_state = s', fl_args = args, fl_isVoid = (ret = TyVoid), fl_regs = Map.empty, fl_blocks = Map.empty\<rparr>)"

fun createBlocks :: "('v, 'b, 's) Llvm \<Rightarrow> IRBasicBlock list \<Rightarrow> ('v, 'b, 's) FunctionLowering \<Rightarrow> ('v, 'b, 's) FunctionLowering" where
  "createBlocks L [] f = f"
| "createBlocks L (bb # bbs) f =
     (let (b, s) = ll_new_block L (bb_label bb) (fl_state f)
      in createBlocks L bbs (f\<lparr>fl_state := s, fl_blocks := (fl_blocks f)(bb_label bb \<mapsto> b)\<rparr>))"


section \<open>Operands\<close>

text \<open>A private constant for a string, and the address of its first character.\<close>

definition string_pointer :: "('v, 'b, 's) Llvm \<Rightarrow> string \<Rightarrow> string \<Rightarrow> string \<Rightarrow> ('v, 'b, 's) FunctionLowering \<Rightarrow> 'v \<times> ('v, 'b, 's) FunctionLowering" where
  "string_pointer L str global name f =
     (let (gv, s) = ll_global_string L str global (fl_state f) in mk L (CreateInBoundsGEP gv name) (f\<lparr>fl_state := s\<rparr>))"

definition resolve :: "('v, 'b, 's) Llvm \<Rightarrow> Operand \<Rightarrow> ('v, 'b, 's) FunctionLowering \<Rightarrow> 'v \<times> ('v, 'b, 's) FunctionLowering" where
  "resolve L opd f =
     (case op_kind opd of
        OkReg \<Rightarrow> (case fl_regs f (op_reg opd) of Some v \<Rightarrow> (v, f) | None \<Rightarrow> (undef_i64 L, f))
      | OkIntImm \<Rightarrow> (ll_constant L (ConstInt TyI64 (sint (op_intVal opd))), f)
      | OkFloatImm \<Rightarrow> (ll_constant L (ConstDouble (op_floatVal opd)), f)
      | OkBoolImm \<Rightarrow> (ll_constant L (ConstInt TyI64 (if op_intVal opd \<noteq> 0 then 1 else 0)), f)
      | OkStringRef \<Rightarrow> string_pointer L (op_strVal opd) ''.str'' ''strptr'' f)"

text \<open>\<open>one\<close> and \<open>two\<close>: a missing operand is undefined.\<close>

definition operand_at :: "('v, 'b, 's) Llvm \<Rightarrow> nat \<Rightarrow> IRInstruction \<Rightarrow> ('v, 'b, 's) FunctionLowering \<Rightarrow> 'v \<times> ('v, 'b, 's) FunctionLowering" where
  "operand_at L k i f = (if k < length (ir_operands i) then resolve L (ir_operands i ! k) f else (undef_i64 L, f))"

definition two :: "('v, 'b, 's) Llvm \<Rightarrow> IRInstruction \<Rightarrow> ('v, 'b, 's) FunctionLowering \<Rightarrow> ('v \<times> 'v) \<times> ('v, 'b, 's) FunctionLowering" where
  "two L i f = (let (l, f1) = operand_at L 0 i f; (r, f2) = operand_at L 1 i f1 in ((l, r), f2))"

definition one_operand :: "('v, 'b, 's) Llvm \<Rightarrow> IRInstruction \<Rightarrow> ('v, 'b, 's) FunctionLowering \<Rightarrow> 'v \<times> ('v, 'b, 's) FunctionLowering" where
  "one_operand L i f = operand_at L 0 i f"

fun resolve_all :: "('v, 'b, 's) Llvm \<Rightarrow> Operand list \<Rightarrow> ('v, 'b, 's) FunctionLowering \<Rightarrow> 'v list \<times> ('v, 'b, 's) FunctionLowering" where
  "resolve_all L [] f = ([], f)"
| "resolve_all L (opd # opds) f =
     (let (v, f1) = resolve L opd f; (vs, f2) = resolve_all L opds f1 in (v # vs, f2))"


section \<open>One instruction\<close>

text \<open>Memory: the slot of a variable, an incoming argument, loads, stores and literals.\<close>

definition emit_memory :: "('v, 'b, 's) Llvm \<Rightarrow> IRInstruction \<Rightarrow> ('v, 'b, 's) FunctionLowering \<Rightarrow> ('v, 'b, 's) FunctionLowering option" where
  "emit_memory L i f =
     (case ir_opcode i of
        OpAlloca \<Rightarrow> Some (set_ll_reg (ir_dest i) (mk L (CreateAlloca TyI64 (if ir_label i = [] then ''slot'' else ir_label i)) f))
      | OpParam \<Rightarrow>
          (case ir_operands i of
             [] \<Rightarrow> Some f
           | opd # _ \<Rightarrow>
               (let idx = unat (ucast (op_intVal opd) :: u32)
                in if idx < length (fl_args f) then Some (set_ll_reg (ir_dest i) (fl_args f ! idx, f)) else None))
      | OpLoad \<Rightarrow>
          (let (result, f1) =
             (case ir_operands i of
                [] \<Rightarrow> (undef_i64 L, f)
              | opd # _ \<Rightarrow>
                  (let (ptr, f1) = resolve L opd f
                   in mk L (CreateLoad TyI64 ptr (if ir_label i = [] then ''load'' else ir_label i)) f1))
           in Some (if ir_dest i \<noteq> NoReg then set_ll_reg (ir_dest i) (result, f1) else f1))
      | OpStore \<Rightarrow>
          (case ir_operands i of
             a # b # _ \<Rightarrow>
               (let (val, f1) = resolve L a f; (ptr, f2) = resolve L b f1 in Some (snd (mk L (CreateStore val ptr) f2)))
           | _ \<Rightarrow> Some f)
      | _ \<Rightarrow>
          (if ir_operands i \<noteq> [] \<and> ir_dest i \<noteq> NoReg
           then Some (set_ll_reg (ir_dest i) (resolve L (hd (ir_operands i)) f)) else Some f))"

text \<open>The binary operators and their names, and the comparisons.\<close>

fun arith_kind :: "Opcode \<Rightarrow> (BinKind \<times> string) option" where
  "arith_kind OpAdd = Some (BkAdd, ''add'')"
| "arith_kind OpSub = Some (BkSub, ''sub'')"
| "arith_kind OpMul = Some (BkMul, ''mul'')"
| "arith_kind OpDiv = Some (BkSDiv, ''div'')"
| "arith_kind OpMod = Some (BkSRem, ''mod'')"
| "arith_kind OpBitAnd = Some (BkAnd, ''band'')"
| "arith_kind OpBitOr = Some (BkOr, ''bor'')"
| "arith_kind OpBitXor = Some (BkXor, ''bxor'')"
| "arith_kind OpShl = Some (BkShl, ''shl'')"
| "arith_kind OpShr = Some (BkAShr, ''ashr'')"
| "arith_kind _ = None"

fun compare_kind :: "Opcode \<Rightarrow> (CmpKind \<times> string) option" where
  "compare_kind OpCmpEq = Some (CkEQ, ''eq'')"
| "compare_kind OpCmpNe = Some (CkNE, ''ne'')"
| "compare_kind OpCmpLt = Some (CkSLT, ''lt'')"
| "compare_kind OpCmpGt = Some (CkSGT, ''gt'')"
| "compare_kind OpCmpLe = Some (CkSLE, ''le'')"
| "compare_kind OpCmpGe = Some (CkSGE, ''ge'')"
| "compare_kind _ = None"

definition emit_arith :: "('v, 'b, 's) Llvm \<Rightarrow> BinKind \<times> string \<Rightarrow> IRInstruction \<Rightarrow> ('v, 'b, 's) FunctionLowering \<Rightarrow> ('v, 'b, 's) FunctionLowering" where
  "emit_arith L kn i f =
     (let ((l, r), f1) = two L i f in set_ll_reg (ir_dest i) (mk L (CreateBin (fst kn) l r (snd kn)) f1))"

definition emit_unary :: "('v, 'b, 's) Llvm \<Rightarrow> IRInstruction \<Rightarrow> ('v, 'b, 's) FunctionLowering \<Rightarrow> ('v, 'b, 's) FunctionLowering" where
  "emit_unary L i f =
     (let (v, f1) = one_operand L i f
      in set_ll_reg (ir_dest i) (mk L (if ir_opcode i = OpNeg then CreateNeg v ''neg'' else CreateNot v ''bnot'') f1))"

definition emit_compare :: "('v, 'b, 's) Llvm \<Rightarrow> CmpKind \<times> string \<Rightarrow> IRInstruction \<Rightarrow> ('v, 'b, 's) FunctionLowering \<Rightarrow> ('v, 'b, 's) FunctionLowering" where
  "emit_compare L kn i f =
     (let ((l, r), f1) = two L i f
      in set_ll_reg (ir_dest i) (widenToI64 L (mk L (CreateICmp (fst kn) l r (snd kn)) f1)))"

text \<open>The logical operators narrow both operands first; the model does so from left to right.\<close>

definition emit_logical :: "('v, 'b, 's) Llvm \<Rightarrow> IRInstruction \<Rightarrow> ('v, 'b, 's) FunctionLowering \<Rightarrow> ('v, 'b, 's) FunctionLowering" where
  "emit_logical L i f =
     (if ir_opcode i = OpLogNot then
        (let (v, f1) = one_operand L i f; (b, f2) = toI1 L v f1
         in set_ll_reg (ir_dest i) (widenToI64 L (mk L (CreateNot b ''lnot'') f2)))
      else
        (let ((l, r), f1) = two L i f; (a, f2) = toI1 L l f1; (b, f3) = toI1 L r f2
         in set_ll_reg (ir_dest i)
              (widenToI64 L (mk L (if ir_opcode i = OpLogAnd then CreateBin BkAnd a b ''land''
                                   else CreateBin BkOr a b ''lor'') f3))))"

text \<open>\<open>exit\<close> and \<open>escape\<close> call the C function and end the block.\<close>

definition get_callee :: "('v, 'b, 's) Llvm \<Rightarrow> string \<Rightarrow> FnType \<Rightarrow> ('v, 'b, 's) FunctionLowering \<Rightarrow> 'v \<times> ('v, 'b, 's) FunctionLowering" where
  "get_callee L name ty f = (let (v, s) = ll_getOrInsertFunction L name ty (fl_state f) in (v, f\<lparr>fl_state := s\<rparr>))"

definition emit_exit :: "('v, 'b, 's) Llvm \<Rightarrow> IRInstruction \<Rightarrow> ('v, 'b, 's) FunctionLowering \<Rightarrow> ('v, 'b, 's) FunctionLowering" where
  "emit_exit L i f =
     (let (exitFn, f1) = get_callee L ''exit'' (FnType TyVoid [TyI32] False) f;
          (code, f2) =
            (case ir_operands i of
               [] \<Rightarrow> (ll_constant L (ConstInt TyI32 (if ir_label i = ''escape'' then 1 else 0)), f1)
             | opd # _ \<Rightarrow>
                 (let (v, f2) = resolve L opd f1
                  in if ll_type L v \<noteq> TyI32 then mk L (CreateTrunc v TyI32) f2 else (v, f2)));
          (_, f3) = mk L (CreateCall exitFn [code] []) f2
      in snd (mk L CreateUnreachable f3))"

text \<open>\<open>wait(ms)\<close> calls \<open>usleep(ms * 1000)\<close>.\<close>

definition emit_wait :: "('v, 'b, 's) Llvm \<Rightarrow> IRInstruction \<Rightarrow> ('v, 'b, 's) FunctionLowering \<Rightarrow> ('v, 'b, 's) FunctionLowering" where
  "emit_wait L i f =
     (let (usleepFn, f1) = get_callee L ''usleep'' (FnType TyI32 [TyI32] False) f;
          (ms, f2) = (case ir_operands i of [] \<Rightarrow> (ll_constant L (ConstInt TyI64 0), f1) | opd # _ \<Rightarrow> resolve L opd f1);
          (t, f3) = mk L (CreateTrunc ms TyI32) f2;
          (us, f4) = mk L (CreateBin BkMul t (ll_constant L (ConstInt TyI32 1000)) ''us'') f3
      in snd (mk L (CreateCall usleepFn [us] []) f4))"

text \<open>\<open>print\<close> and \<open>println\<close> with one argument call \<open>printf\<close>; both add a newline.\<close>

definition emit_print :: "('v, 'b, 's) Llvm \<Rightarrow> Operand \<Rightarrow> ('v, 'b, 's) FunctionLowering \<Rightarrow> ('v, 'b, 's) FunctionLowering" where
  "emit_print L opd f =
     (let (printfFn, f1) = get_callee L ''printf'' (FnType TyI32 [TyPtr] True) f;
          (arg, f2) = resolve L opd f1;
          isStr = (ll_type L arg = TyPtr);
          (fmtPtr, f3) = string_pointer L ((if isStr then ''%s'' else ''%lld'') @ [ch_newline]) ''.fmt'' ''fmtptr'' f2;
          (val, f4) = (if \<not> isStr \<and> ll_type L arg \<noteq> TyI64 then mk L (CreateSExt arg TyI64 ''ext'') f3 else (arg, f3))
      in snd (mk L (CreateCall printfFn [fmtPtr, val] []) f4))"

text \<open>Any other call: the callee of that name in the module, declared at its first use.\<close>

definition emit_plain_call :: "('v, 'b, 's) Llvm \<Rightarrow> IRInstruction \<Rightarrow> ('v, 'b, 's) FunctionLowering \<Rightarrow> ('v, 'b, 's) FunctionLowering" where
  "emit_plain_call L i f =
     (let (callee, f1) =
        (case ll_getFunction L (ir_label i) (fl_state f) of
           Some v \<Rightarrow> (v, f)
         | None \<Rightarrow>
             (let (v, s) = ll_declare L (FnType (if ir_dest i \<noteq> NoReg then TyI64 else TyVoid)
                             (replicate (length (ir_operands i)) TyI64) False) (ir_label i) (fl_state f)
              in (v, f\<lparr>fl_state := s\<rparr>)));
          (args, f2) = resolve_all L (ir_operands i) f1;
          isVoid = ll_returns_void L callee;
          callName = (if \<not> isVoid \<and> ir_dest i \<noteq> NoReg then ''call'' else []);
          (ci, f3) = mk L (CreateCall callee args callName) f2
      in if \<not> isVoid \<and> ir_dest i \<noteq> NoReg then set_ll_reg (ir_dest i) (ci, f3) else f3)"

definition emit_call :: "('v, 'b, 's) Llvm \<Rightarrow> IRInstruction \<Rightarrow> ('v, 'b, 's) FunctionLowering \<Rightarrow> ('v, 'b, 's) FunctionLowering" where
  "emit_call L i f =
     (if ir_label i = ''exit'' \<or> ir_label i = ''escape'' then emit_exit L i f
      else if ir_label i = ''wait'' then emit_wait L i f
      else if (ir_label i = ''print'' \<or> ir_label i = ''println'') \<and> length (ir_operands i) = 1
      then emit_print L (hd (ir_operands i)) f
      else emit_plain_call L i f)"

text \<open>Returns and branches; \<open>blocks.at\<close> throws on an unknown label, \<open>blocks.find\<close> does not.\<close>

definition emit_ret :: "('v, 'b, 's) Llvm \<Rightarrow> IRInstruction \<Rightarrow> ('v, 'b, 's) FunctionLowering \<Rightarrow> ('v, 'b, 's) FunctionLowering" where
  "emit_ret L i f =
     (if fl_isVoid f then snd (mk L CreateRetVoid f)
      else case ir_operands i of
             [] \<Rightarrow> snd (mk L CreateUnreachable f)
           | opd # _ \<Rightarrow> (let (v, f1) = resolve L opd f in snd (mk L (CreateRet v) f1)))"

definition emit_branch :: "('v, 'b, 's) Llvm \<Rightarrow> IRInstruction \<Rightarrow> ('v, 'b, 's) FunctionLowering \<Rightarrow> ('v, 'b, 's) FunctionLowering" where
  "emit_branch L i f =
     (case fl_blocks f (ir_label i) of None \<Rightarrow> f | Some b \<Rightarrow> snd (mk L (CreateBr b) f))"

definition emit_cond_branch :: "('v, 'b, 's) Llvm \<Rightarrow> IRInstruction \<Rightarrow> ('v, 'b, 's) FunctionLowering \<Rightarrow> ('v, 'b, 's) FunctionLowering option" where
  "emit_cond_branch L i f =
     (case (find_char CHR '','' (ir_label i), ir_operands i) of
        (Some comma, opd # _) \<Rightarrow>
          (let (v, f1) = resolve L opd f;
               (cond, f2) = toI1 L v f1
           in case (fl_blocks f2 (take comma (ir_label i)), fl_blocks f2 (drop (Suc comma) (ir_label i))) of
                (Some t, Some e) \<Rightarrow> Some (snd (mk L (CreateCondBr cond t e) f2))
              | _ \<Rightarrow> None)
      | _ \<Rightarrow> Some f)"

definition emit_llvm :: "('v, 'b, 's) Llvm \<Rightarrow> IRInstruction \<Rightarrow> ('v, 'b, 's) FunctionLowering \<Rightarrow> ('v, 'b, 's) FunctionLowering option" where
  "emit_llvm L i f =
     (case arith_kind (ir_opcode i) of
        Some kn \<Rightarrow> Some (emit_arith L kn i f)
      | None \<Rightarrow>
          (case compare_kind (ir_opcode i) of
             Some kn \<Rightarrow> Some (emit_compare L kn i f)
           | None \<Rightarrow>
               (let opc = ir_opcode i in
                if opc \<in> {OpNeg, OpBitNot} then Some (emit_unary L i f)
                else if opc \<in> {OpLogAnd, OpLogOr, OpLogNot} then Some (emit_logical L i f)
                else if opc = OpCall then Some (emit_call L i f)
                else if opc = OpRet then Some (emit_ret L i f)
                else if opc = OpBranch then Some (emit_branch L i f)
                else if opc = OpCondBranch then emit_cond_branch L i f
                else if opc = OpPhi then Some f
                else emit_memory L i f)))"


section \<open>Functions and modules\<close>

text \<open>The instructions of a block up to the first that finds a terminator in \<open>llvmBB\<close>.\<close>

fun emit_instrs :: "('v, 'b, 's) Llvm \<Rightarrow> 'b \<Rightarrow> IRInstruction list \<Rightarrow> ('v, 'b, 's) FunctionLowering \<Rightarrow> ('v, 'b, 's) FunctionLowering option" where
  "emit_instrs L llvmBB [] f = Some f"
| "emit_instrs L llvmBB (i # is) f =
     (if ll_getTerminator L llvmBB (fl_state f) then Some f
      else do { f' \<leftarrow> emit_llvm L i f; emit_instrs L llvmBB is f' })"

definition lower_block :: "('v, 'b, 's) Llvm \<Rightarrow> IRBasicBlock \<Rightarrow> ('v, 'b, 's) FunctionLowering \<Rightarrow> ('v, 'b, 's) FunctionLowering option" where
  "lower_block L bb f =
     do { llvmBB \<leftarrow> fl_blocks f (bb_label bb);
          f1 \<leftarrow> emit_instrs L llvmBB (bb_instrs bb) (f\<lparr>fl_state := ll_SetInsertPoint L llvmBB (fl_state f)\<rparr>);
          Some (if ll_getTerminator L llvmBB (fl_state f1) then f1
                else snd (mk L (if fl_isVoid f1 then CreateRetVoid else CreateUnreachable) f1)) }"

fun lower_blocks :: "('v, 'b, 's) Llvm \<Rightarrow> IRBasicBlock list \<Rightarrow> ('v, 'b, 's) FunctionLowering \<Rightarrow> ('v, 'b, 's) FunctionLowering option" where
  "lower_blocks L [] f = Some f"
| "lower_blocks L (bb # bbs) f = do { f' \<leftarrow> lower_block L bb f; lower_blocks L bbs f' }"

definition lower_function :: "('v, 'b, 's) Llvm \<Rightarrow> IRFunction \<Rightarrow> 's \<Rightarrow> ('v, 'b, 's) FunctionLowering option" where
  "lower_function L fn s = lower_blocks L (fn_blocks fn) (createBlocks L (fn_blocks fn) (createFunction L fn s))"

fun lower_functions :: "('v, 'b, 's) Llvm \<Rightarrow> IRFunction list \<Rightarrow> 's \<Rightarrow> 's option" where
  "lower_functions L [] s = Some s"
| "lower_functions L (fn # fns) s = do { f \<leftarrow> lower_function L fn s; lower_functions L fns (fl_state f) }"

text \<open>\<open>lower\<close> verifies the module; the right value is the message it prints when that fails.\<close>

definition lower_module :: "('v, 'b, 's) Llvm \<Rightarrow> IRModule \<Rightarrow> ('s + string) option" where
  "lower_module L m =
     do { s \<leftarrow> lower_functions L (mod_functions m) (ll_new_module L (mod_name m));
          Some (case ll_verify L s of
                  None \<Rightarrow> Inl s
                | Some err \<Rightarrow> Inr (''[vcc] LLVM verification failed:'' @ [ch_newline] @ err @ [ch_newline])) }"

text \<open>
  \<open>emitIR\<close> with LLVM: whether it succeeds, what it prints as an error, and the text it writes. The
  argument \<open>open_error\<close> is what opening the output file reports.
\<close>

definition emitIR_llvm :: "('v, 'b, 's) Llvm \<Rightarrow> (string \<Rightarrow> string option) \<Rightarrow> IRModule \<Rightarrow> string \<Rightarrow> (bool \<times> string \<times> string option) option" where
  "emitIR_llvm L open_error m outputPath =
     do { r \<leftarrow> lower_module L m;
          Some (case r of
                  Inr err \<Rightarrow> (False, err, None)
                | Inl s \<Rightarrow>
                    (case open_error outputPath of
                       Some msg \<Rightarrow> (False, ''[vcc] cannot open '' @ quoted outputPath @ '': '' @ msg @ [ch_newline], None)
                     | None \<Rightarrow> (True, [], Some (ll_print L s)))) }"

text \<open>The stubs of a build without LLVM.\<close>

definition llvm_disabled_message :: string where
  "llvm_disabled_message = ''[vcc] LLVM backend not enabled (rebuild with -DVCC_ENABLE_LLVM=ON)'' @ [ch_newline]"

definition lower_disabled :: "IRModule \<Rightarrow> string" where
  "lower_disabled m = llvm_disabled_message"

definition emitIR_disabled :: "IRModule \<Rightarrow> string \<Rightarrow> bool \<times> string" where
  "emitIR_disabled m outputPath = (False, llvm_disabled_message)"

text \<open>\<open>LLVMBackend::generate\<close>: a note, and failure.\<close>

definition backend_generate :: "IRModule \<Rightarrow> string \<Rightarrow> CompilerContext \<Rightarrow> bool \<times> CompilerContext" where
  "backend_generate m outPath c =
     (False, c\<lparr>ctx_diag := report_note location_invalid
        (''LLVM backend is not yet implemented (Phase 3); '' @ ''use --dump-ir to inspect VCC IR output'') (ctx_diag c)\<rparr>)"

end
