(* ===== verification/Vcc_LlvmCodegen_Params.thy ===== *)
theory Vcc_LlvmCodegen_Params
  imports Vcc_LlvmCodegen
begin

text \<open>
  The \<open>param\<close> instructions of generated functions: they stand in the entry block only, one for each
  parameter of the declaration, with the indices 0, 1, 2, ... in order. The lowering to LLVM relies on it: it counts them
  to make the signature and moves an iterator over the arguments by their indices.
\<close>


section \<open>What lowering keeps\<close>

definition is_param :: "IRInstruction \<Rightarrow> bool" where
  "is_param i \<longleftrightarrow> ir_opcode i = OpParam"

text \<open>The \<open>param\<close> instructions of the entry block, and those of the other blocks.\<close>

definition block_params :: "IRBasicBlock list \<Rightarrow> IRInstruction list list" where
  "block_params bs = map (\<lambda>b. filter is_param (bb_instrs b)) bs"

definition param_view :: "IRFunction \<Rightarrow> IRInstruction list \<times> IRInstruction list" where
  "param_view f = (concat (take 1 (block_params (fn_blocks f))), concat (drop 1 (block_params (fn_blocks f))))"

definition views :: "IRGen \<Rightarrow> (IRInstruction list \<times> IRInstruction list) list" where
  "views s = map param_view (mod_functions (b_module s))"

lemma views_update: "param_view fn = param_view (pointed_function i s) \<Longrightarrow> views (update_function i fn s) = views s"
  by (cases "i < length (mod_functions (b_module s))")
    (simp_all add: views_def update_function_def pointed_function_def map_update list_update_same_conv list_update_beyond)

lemma block_params_append:
  "\<not> is_param i \<Longrightarrow> block_params (bs[j := bb_append i (bs ! j)]) = block_params bs"
  by (cases "j < length bs") (simp_all add: block_params_def map_update bb_append_def list_update_same_conv list_update_beyond)

lemma views_simps [simp]:
  "views (s\<lparr>lastReg := r\<rparr>) = views s" "views (s\<lparr>varSlots := m\<rparr>) = views s" "views (setBlock bb s) = views s"
  "views (builder_detach s) = views s"
  by (simp_all add: views_def setBlock_def builder_detach_def)

lemma views_newLabel: "newLabel p s = (l, s') \<Longrightarrow> views s' = views s"
  by (auto simp: newLabel_def views_def)

lemma views_append: "\<not> is_param i \<Longrightarrow> builder_append i s = Some s' \<Longrightarrow> views s' = views s"
  by (auto simp: builder_append_def Let_def param_view_def block_params_append split: option.splits intro!: views_update)

lemma views_newReg: "newReg s = Some (r, s') \<Longrightarrow> views s' = views s"
  by (auto simp: newReg_def nextReg_def param_view_def split: option.splits intro!: views_update)

lemma views_addBlock: "addBlock l s = Some (bb, s') \<Longrightarrow> views s' = views s"
proof -
  have "concat (take 1 (block_params (bs @ [new_block l]))) = concat (take 1 (block_params bs))"
    "concat (drop 1 (block_params (bs @ [new_block l]))) = concat (drop 1 (block_params bs))" for bs
    by (cases bs; simp add: block_params_def new_block_def)+
  then show "addBlock l s = Some (bb, s') \<Longrightarrow> views s' = views s"
    by (auto simp: addBlock_def fn_addBlock_def param_view_def split: option.splits intro!: views_update)
qed

text \<open>\<open>keeps V m\<close>: if the computation succeeds, its state has the views \<open>V\<close>; \<open>keeps_with\<close> is for one with a result.\<close>

definition keeps :: "(IRInstruction list \<times> IRInstruction list) list \<Rightarrow> IRGen option \<Rightarrow> bool" where
  "keeps V m \<longleftrightarrow> (\<forall>s. m = Some s \<longrightarrow> views s = V)"

definition keeps_with :: "(IRInstruction list \<times> IRInstruction list) list \<Rightarrow> ('a \<times> IRGen) option \<Rightarrow> bool" where
  "keeps_with V m \<longleftrightarrow> (\<forall>r s. m = Some (r, s) \<longrightarrow> views s = V)"

lemma keeps_Some: "views s = V \<Longrightarrow> keeps V (Some s)" "views s = V \<Longrightarrow> keeps_with V (Some (r, s))"
  by (simp_all add: keeps_def keeps_with_def)

lemma keeps_bind:
  "keeps V m \<Longrightarrow> (\<And>s. views s = V \<Longrightarrow> keeps V (f s)) \<Longrightarrow> keeps V (Option.bind m f)"
  "keeps V m \<Longrightarrow> (\<And>s. views s = V \<Longrightarrow> keeps_with V (g s)) \<Longrightarrow> keeps_with V (Option.bind m g)"
  by (auto simp: keeps_def keeps_with_def bind_eq_Some_conv)

lemma keeps_bind_with:
  "keeps_with V m' \<Longrightarrow> (\<And>r s. views s = V \<Longrightarrow> keeps V (f r s)) \<Longrightarrow> keeps V (Option.bind m' (\<lambda>(r, s). f r s))"
  "keeps_with V m' \<Longrightarrow> (\<And>r s. views s = V \<Longrightarrow> keeps_with V (g r s)) \<Longrightarrow> keeps_with V (Option.bind m' (\<lambda>(r, s). g r s))"
  by (auto simp: keeps_def keeps_with_def bind_eq_Some_conv)

lemma keeps_label:
  "views s = V \<Longrightarrow> (\<And>l s'. views s' = V \<Longrightarrow> keeps V (f l s')) \<Longrightarrow> keeps V (case newLabel p s of (l, s') \<Rightarrow> f l s')"
  "views s = V \<Longrightarrow> (\<And>l s'. views s' = V \<Longrightarrow> keeps V (f l s')) \<Longrightarrow>
    keeps V (case (if c then newLabel p s else (x, s)) of (l, s') \<Rightarrow> f l s')"
  by (auto split: prod.split dest: views_newLabel)

lemma keeps_append: "views s = V \<Longrightarrow> \<not> is_param i \<Longrightarrow> keeps V (builder_append i s)"
  by (auto simp: keeps_def dest: views_append)

lemma keeps_newReg: "views s = V \<Longrightarrow> keeps_with V (newReg s)"
  by (auto simp: keeps_with_def dest: views_newReg)

lemma is_param_instr [simp]: "is_param (instr opc r ops l) \<longleftrightarrow> opc = OpParam"
  by (simp add: is_param_def instr_def)

lemmas keeps_steps = keeps_bind keeps_bind_with keeps_label keeps_Some keeps_append keeps_newReg

lemma keeps_build:
  assumes "views s = V"
  shows "keeps_with V (buildAlloca x s)" "keeps_with V (buildLoad r s)" "keeps_with V (buildLoadNamed x s)"
    "keeps_with V (buildInt i s)" "keeps_with V (buildFloat d s)" "keeps_with V (buildBool b s)" "keeps_with V (buildString x s)"
    "keeps_with V (buildChar c s)" "keeps_with V (buildNil s)" "keeps_with V (buildCast r x s)" "keeps_with V (buildCall x rs s)"
    "opc \<noteq> OpParam \<Longrightarrow> keeps_with V (buildBinOp opc r r' s)" "opc \<noteq> OpParam \<Longrightarrow> keeps_with V (buildUnOp opc r s)"
  unfolding buildAlloca_def buildLoad_def buildLoadNamed_def buildInt_def buildFloat_def buildBool_def buildString_def
    buildChar_def buildNil_def buildCast_def buildCall_def buildBinOp_def buildUnOp_def
  by (intro keeps_steps; simp add: assms)+

lemma keeps_effect:
  assumes "views s = V"
  shows "keeps V (buildStore r r' s)" "keeps V (buildRet r s)" "keeps V (buildBranch l s)" "keeps V (buildCondBranch r l l' s)"
  using assms by (simp_all add: buildStore_def buildRet_def buildBranch_def buildCondBranch_def keeps_append)

lemma keeps_blocks:
  assumes "views s = V"
  shows "keeps V (startBlock l s)" "keeps V (branchIfOpen l s)"
  using assms views_addBlock by (auto simp: startBlock_def branchIfOpen_def keeps_effect keeps_Some)
    (auto simp: keeps_def bind_eq_Some_conv)

lemma keeps_last: "keeps_with V m \<Longrightarrow> keeps V (result_to_last m)"
  by (auto simp: keeps_def keeps_with_def result_to_last_def)

lemma no_param_opcodes [simp]:
  "binaryOpToOpcode opr \<noteq> OpParam \<and> unaryOpToOpcode uo \<noteq> OpParam \<and> assignOpToOpcode ao \<noteq> OpParam"
  by (cases opr; cases uo; cases ao; simp)

lemmas keeps_intros = keeps_steps keeps_build keeps_effect keeps_blocks keeps_last

lemma gen_ident_keeps: "views s = V \<Longrightarrow> keeps V (gen_ident x s)"
  by (auto simp: gen_ident_def intro!: keeps_intros split: option.split)

lemma gen_assign_store_keeps: "views s = V \<Longrightarrow> keeps V (gen_assign_store e r s)"
  unfolding gen_assign_store_def
  by (intro keeps_intros) (auto intro!: keeps_intros split: Expr.split option.split)

lemma gen_args_keeps:
  assumes "\<And>e s. e \<in> set es \<Longrightarrow> views s = V \<Longrightarrow> keeps V (gen_expr e s)" "views s = V"
  shows "keeps_with V (gen_args es s)"
  using assms by (induction es arbitrary: s) (auto intro!: keeps_intros)

lemma gen_elements_keeps:
  assumes "\<And>e s. e \<in> set es \<Longrightarrow> views s = V \<Longrightarrow> keeps V (gen_expr e s)" "views s = V"
  shows "keeps_with V (gen_elements i r es s)"
  using assms by (induction es arbitrary: i r s) (auto intro!: keeps_intros)

lemma gen_expr_keeps:
  fixes t :: TypeNode
  shows "True" and "views s = V \<Longrightarrow> keeps V (gen_expr e s)"
proof (induction t and e arbitrary: and s)
  case (UnaryExpr opr operand r)
  then show ?case by (cases opr) (auto intro!: keeps_intros simp del: unaryOpToOpcode.simps)
next
  case (CallExpr callee args r)
  show ?case
  proof (cases "\<exists>x r. callee = IdentExpr x r")
    case True
    then obtain x r' where "callee = IdentExpr x r'" by blast
    with CallExpr show ?thesis by (auto intro!: keeps_intros gen_args_keeps)
  next
    case False
    then show ?thesis unfolding gen_expr_call_other [OF False] using CallExpr by (auto intro!: keeps_intros gen_args_keeps)
  qed
next
  case (ArrayLiteralExpr es r)
  then show ?case by (auto intro!: keeps_bind_with(1) [where m' = "gen_elements 0 0 es s"] keeps_intros gen_elements_keeps)
qed (auto intro!: keeps_intros gen_ident_keeps gen_assign_store_keeps)


lemma gen_var_keeps: "views s = V \<Longrightarrow> keeps V (gen_var x init s)"
  unfolding gen_var_def Let_def by (auto intro!: keeps_intros gen_expr_keeps split: option.split)

lemma gen_return_keeps: "views s = V \<Longrightarrow> keeps V (gen_return v s)"
  unfolding gen_return_def Let_def
  by (rule keeps_bind) (auto intro!: keeps_intros gen_expr_keeps split: option.split)

lemma gen_stmts_keeps:
  assumes "\<And>st s. st \<in> set ss \<Longrightarrow> views s = V \<Longrightarrow> keeps V (gen_stmt st s)" "views s = V"
  shows "keeps V (gen_stmts ss s)"
  using assms by (induction ss arbitrary: s) (auto intro!: keeps_intros)

lemma gen_pattern_keeps: "views s = V \<Longrightarrow> keeps V (gen_pattern pattern subj l l' s)"
  unfolding gen_pattern_def by (auto intro!: keeps_intros gen_expr_keeps split: option.split)

lemma gen_arms_keeps:
  assumes "\<And>a s. a \<in> set arms \<Longrightarrow> views s = V \<Longrightarrow> keeps V (gen_stmt (arm_body a) s)" "views s = V"
  shows "keeps V (gen_arms subj x arms s)"
  using assms
proof (induction arms arbitrary: s)
  case (Cons a arms)
  obtain pattern body where a: "a = MatchArm pattern body" by (cases a)
  have body: "views s = V \<Longrightarrow> keeps V (gen_stmt body s)" for s using Cons.prems(1) [of a] by (simp add: a)
  show ?case unfolding a gen_arms_Cons Let_def
    using Cons body by (auto intro!: keeps_intros gen_pattern_keeps)
qed (simp add: keeps_Some)

lemma gen_loop_keeps:
  assumes "\<And>s. views s = V \<Longrightarrow> keeps V (body s)" "views s = V"
  shows "keeps V (gen_loop cl bl el c body s)"
  unfolding gen_loop_def Let_def
  by (rule keeps_label keeps_bind keeps_effect keeps_blocks gen_expr_keeps assms | assumption)+

lemma gen_stmt_keeps:
  shows "plain_stmt st \<Longrightarrow> views s = V \<Longrightarrow> keeps V (gen_stmt st s)"
    and "plain_arm a \<Longrightarrow> views s = V \<Longrightarrow> keeps V (gen_stmt (arm_body a) s)"
    and "plain_local d \<Longrightarrow> views s = V \<Longrightarrow> keeps V (gen_decl d s)"
proof (induction st and a and d arbitrary: s and s and s)
  case (BlockStmt ss r)
  then show ?case by (auto simp: list_all_iff intro!: gen_stmts_keeps)
next
  case (VloopStmt c b r)
  show ?case
  proof (cases "\<exists>n r'. c = IntLiteralExpr n r'")
    case True
    then obtain n r' where c: "c = IntLiteralExpr n r'" by blast
    show ?thesis unfolding c gen_stmt.simps Expr.case Let_def using VloopStmt by (auto intro!: keeps_intros)
  next
    case False
    then show ?thesis unfolding gen_vloop [OF False] using VloopStmt by (auto intro!: gen_loop_keeps)
  qed
next
  case (WhileStmt c b r)
  then show ?case unfolding gen_while by (auto intro!: gen_loop_keeps)
next
  case (IfStmt c t e r)
  then show ?case unfolding gen_stmt.simps Let_def
    by (cases e) (auto intro!: keeps_intros gen_expr_keeps)
next
  case (MatchStmt subject arms r)
  then show ?case unfolding gen_stmt.simps Let_def
    by (auto simp: list_all_iff intro!: keeps_intros gen_expr_keeps gen_arms_keeps)
next
  case (ForStmt x iter b r)
  then show ?case unfolding gen_stmt.simps Let_def by (auto intro!: keeps_intros gen_expr_keeps)
qed (auto intro!: keeps_intros gen_expr_keeps gen_var_keeps gen_return_keeps)


section \<open>What a function declaration adds\<close>

text \<open>\<open>n\<close> indices as the 32-bit counter of the loop over the parameters counts them.\<close>

definition param_indices :: "u32 \<Rightarrow> nat \<Rightarrow> nat list" where
  "param_indices i n = map (\<lambda>k. unat (i + of_nat k)) [0..<n]"

lemma param_indices_Suc: "param_indices i (Suc n) = unat i # param_indices (i + 1) n"
  by (simp add: param_indices_def upt_conv_Cons add.assoc flip: map_Suc_upt del: upt_Suc)

definition param_index :: "IRInstruction \<Rightarrow> nat" where
  "param_index i = (case ir_operands i of [] \<Rightarrow> 0 | opd # _ \<Rightarrow> unat (ucast (op_intVal opd) :: u32))"

lemma gen_params_view:
  "\<exists>p' qs. gen_params i ps (cfg h p) = Some (cfg h p') \<and> p_done p' = p_done p
    \<and> filter is_param (p_instrs p') = filter is_param (p_instrs p) @ qs \<and> map param_index qs = param_indices i (length ps)"
proof (induction ps arbitrary: i p)
  case Nil
  then show ?case by (auto simp: param_indices_def)
next
  case (Cons d ps)
  let ?p1 = "emit_value OpAlloca [] (param_name d) p"
  let ?p2 = "emit_value OpParam [fromInt (ucast i)] [] ?p1"
  let ?p4 = "bind_slot (param_name d) (next_reg p) (emit_effect OpStore [fromReg (next_reg ?p1), fromReg (next_reg p)] [] ?p2)"
  obtain p' qs where p': "gen_params (i + 1) ps (cfg h ?p4) = Some (cfg h p')" "p_done p' = p_done ?p4"
      "filter is_param (p_instrs p') = filter is_param (p_instrs ?p4) @ qs" "map param_index qs = param_indices (i + 1) (length ps)"
    using Cons.IH [of "i + 1" ?p4] by blast
  have "gen_params i (d # ps) (cfg h p) = Some (cfg h p')"
    using p'(1) by (simp add: cfg_slots bind_slot_def)
  moreover have "param_index (instr OpParam r [fromInt (ucast i)] []) = unat i" for r
    by (simp add: param_index_def instr_def fromInt_def ucast_up_ucast_id is_up)
  ultimately show ?case using p'(2-4)
    by (intro exI [of _ p'] exI [of _ "instr OpParam (next_reg ?p1) [fromInt (ucast i)] [] # qs"]) (simp add: param_indices_Suc)
qed

definition indexed :: "IRInstruction list \<times> IRInstruction list \<Rightarrow> nat \<Rightarrow> bool" where
  "indexed v n \<longleftrightarrow> map param_index (fst v) = param_indices 0 n \<and> snd v = []"

lemma function_view:
  assumes "case body of None \<Rightarrow> True | Some b \<Rightarrow> plain_stmt b"
    and "gen_decl (FunctionDecl name params ret body isPub r) s = Some s'"
  shows "\<exists>v. views s' = views s @ [v] \<and> indexed v (length params)"
proof -
  define h where "h = \<lparr>h_module = b_module s, h_fname = name, h_ctx = ig_ctx s\<rparr>"
  let ?e = "entry_point (lastReg s)"
  obtain p qs where p: "gen_params 0 params (cfg h ?e) = Some (cfg h p)" "p_done p = []"
      "filter is_param (p_instrs p) = qs" "map param_index qs = param_indices 0 (length params)"
    using gen_params_view [of 0 params h ?e] by (auto simp: entry_point_def)
  define V where "V = views s @ [(qs, [])]"
  have "views (cfg h p) = V"
    using p(2,3) by (simp add: V_def views_def cfg_def Let_def h_def param_view_def block_params_def p_blocks_def)
  then have "keeps V (case body of None \<Rightarrow> Some (cfg h p) | Some b \<Rightarrow> gen_stmt b (cfg h p))"
    using assms(1) by (auto intro: keeps_Some gen_stmt_keeps split: option.split)
  moreover have "keeps V (gen_function_end s1)" if "views s1 = V" for s1
    using that unfolding gen_function_end_def by (auto intro!: keeps_intros)
  ultimately have "keeps V (gen_decl (FunctionDecl name params ret body isPub r) s)"
    using p(1) by (simp add: gen_function_start_cfg keeps_bind flip: h_def)
  then show ?thesis using assms(2) p(4) by (auto simp: keeps_def V_def indexed_def)
qed

fun decl_params :: "Decl \<Rightarrow> nat list" where
  "decl_params (FunctionDecl _ params _ _ _ _) = [length params]"
| "decl_params _ = []"

lemma decls_view:
  assumes "list_all plain_decl ds" "gen_decls ds s = Some s'"
  shows "\<exists>vs. views s' = views s @ vs \<and> list_all2 indexed vs (concat (map decl_params ds))"
  using assms
proof (induction ds arbitrary: s)
  case (Cons d ds)
  from Cons.prems obtain s1 where s1: "gen_decl d s = Some s1" "gen_decls ds s1 = Some s'"
    by (auto split: bind_splits)
  have "\<exists>vs. views s1 = views s @ vs \<and> list_all2 indexed vs (decl_params d)"
  proof (cases d)
    case (FunctionDecl name params ret body isPub r)
    with Cons.prems(1) s1(1) function_view [of body name params ret isPub r s s1] show ?thesis by auto
  next
    case (VarDecl k x t init r)
    with s1(1) gen_var_keeps [of s "views s" x init] show ?thesis by (simp add: keeps_def)
  qed (use Cons.prems(1) s1(1) in auto)
  with Cons.IH [OF _ s1(2)] Cons.prems(1) show ?case
    by (fastforce intro: list_all2_appendI)
qed simp


section \<open>The signature of a generated function\<close>

text \<open>The \<open>param\<close> instructions ask for arguments that the function has.\<close>

definition params_in_range :: "IRFunction \<Rightarrow> bool" where
  "params_in_range fn \<longleftrightarrow>
     list_all (\<lambda>i. ir_opcode i = OpParam \<and> ir_operands i \<noteq> [] \<longrightarrow> param_index i < countParams fn) (code fn)"

lemma indexed_signature:
  assumes "indexed (param_view f) n"
  shows "countParams f = n \<and> params_in_range f"
proof -
  let ?qs = "fst (param_view f)"
  have qs: "filter is_param (code f) = ?qs" 
    using assms by (cases "fn_blocks f")
      (auto simp: indexed_def param_view_def block_params_def code_def block_code_def filter_concat comp_def)
  have n: "length ?qs = n" using assms by (auto simp: indexed_def param_indices_def dest: arg_cong [where f = length])
  moreover have "countParams f = length ?qs"
    by (auto simp: countParams_def param_view_def block_params_def is_param_def [abs_def] split: list.split)
  moreover have "param_index i < n" if "i \<in> set (code f)" "ir_opcode i = OpParam" for i
  proof -
    have "i \<in> set ?qs" using that by (simp flip: qs add: is_param_def)
    then have "param_index i \<in> set (param_indices 0 n)"
      using assms by (metis indexed_def image_eqI set_map)
    then show ?thesis by (auto simp: param_indices_def unat_of_nat intro: le_less_trans [OF mod_less_eq_dividend])
  qed
  ultimately show ?thesis by (auto simp: params_in_range_def list_all_iff)
qed

lemma generate_signatures:
  assumes "generate (ModuleDecl name ds r) s = Some (irm, s')" "list_all plain_decl ds"
  shows "map countParams (mod_functions irm) = concat (map decl_params ds) \<and> list_all params_in_range (mod_functions irm)"
proof -
  let ?s = "s\<lparr>b_module := new_module name\<rparr>"
  have gen: "gen_decls ds ?s = Some s'" "irm = b_module s'"
    using assms(1) by (auto simp: generate_def split: bind_splits)
  have "list_all2 indexed (map param_view (mod_functions irm)) (concat (map decl_params ds))"
    using decls_view [OF assms(2) gen(1)] by (simp add: views_def gen(2) new_module_def)
  then have "list_all2 (\<lambda>f n. countParams f = n \<and> params_in_range f) (mod_functions irm) (concat (map decl_params ds))"
    by (auto simp: list_all2_map1 elim!: list_all2_mono dest: indexed_signature)
  then show ?thesis by (simp add: list_all2_conv_all_nth list_all_length list_eq_iff_nth_eq)
qed

end
