(* ===== verification/Vcc_LlvmCodegen_Props.thy ===== *)
theory Vcc_LlvmCodegen_Props
  imports Vcc_LlvmCodegen_Params
begin

text \<open>
  What the lowering to LLVM produces, for every library that keeps \<open>llvm_laws\<close>: no exception on a function
  whose jumps have targets, and a terminator in every block exactly when the labels are distinct; with
  two blocks of the same label, which a \<open>match\<close> without wildcard produces, the verifier rejects the module.
\<close>


section \<open>What the library promises\<close>

text \<open>
  \<open>pt\<close> is the block of the insertion point and \<open>blks\<close> the set of the blocks created so far. An operation that is not
  a builder call leaves both, and the terminators, as they are.
\<close>

definition llvm_same :: "('v, 'b, 's) Llvm \<Rightarrow> ('s \<Rightarrow> 'b) \<Rightarrow> ('s \<Rightarrow> 'b set) \<Rightarrow> 's \<Rightarrow> 's \<Rightarrow> bool" where
  "llvm_same L pt blks s s' \<longleftrightarrow>
     pt s' = pt s \<and> blks s' = blks s \<and> (\<forall>b. ll_getTerminator L b s' = ll_getTerminator L b s)"

definition create_law :: "('v, 'b, 's) Llvm \<Rightarrow> ('s \<Rightarrow> 'b) \<Rightarrow> ('s \<Rightarrow> 'b set) \<Rightarrow> bool" where
  "create_law L pt blks \<longleftrightarrow>
     (\<forall>c s. pt (snd (ll_create L c s)) = pt s \<and> blks (snd (ll_create L c s)) = blks s
        \<and> (\<forall>b. ll_getTerminator L b (snd (ll_create L c s))
                 = (ll_getTerminator L b s \<or> b = pt s \<and> is_terminator_call c)))"

definition point_law :: "('v, 'b, 's) Llvm \<Rightarrow> ('s \<Rightarrow> 'b) \<Rightarrow> ('s \<Rightarrow> 'b set) \<Rightarrow> bool" where
  "point_law L pt blks \<longleftrightarrow>
     (\<forall>b s. pt (ll_SetInsertPoint L b s) = b \<and> blks (ll_SetInsertPoint L b s) = blks s
        \<and> (\<forall>c. ll_getTerminator L c (ll_SetInsertPoint L b s) = ll_getTerminator L c s))"

definition block_law :: "('v, 'b, 's) Llvm \<Rightarrow> ('s \<Rightarrow> 'b set) \<Rightarrow> bool" where
  "block_law L blks \<longleftrightarrow>
     (\<forall>l s. let (b, s') = ll_new_block L l s
        in b \<notin> blks s \<and> blks s' = insert b (blks s) \<and> \<not> ll_getTerminator L b s'
           \<and> (\<forall>c. c \<noteq> b \<longrightarrow> ll_getTerminator L c s' = ll_getTerminator L c s))"

definition neutral_law :: "('v, 'b, 's) Llvm \<Rightarrow> ('s \<Rightarrow> 'b) \<Rightarrow> ('s \<Rightarrow> 'b set) \<Rightarrow> bool" where
  "neutral_law L pt blks \<longleftrightarrow>
     (\<forall>x y s. llvm_same L pt blks s (snd (ll_global_string L x y s)))
     \<and> (\<forall>ty n s. llvm_same L pt blks s (snd (ll_declare L ty n s)))
     \<and> (\<forall>ty n s. llvm_same L pt blks s (snd (ll_getOrInsertFunction L n ty s)))
     \<and> (\<forall>ret args va n ns s. llvm_same L pt blks s (snd (ll_new_function L (FnType ret args va) n ns s))
          \<and> length (fst (ll_new_function L (FnType ret args va) n ns s)) = length args)"

definition llvm_laws :: "('v, 'b, 's) Llvm \<Rightarrow> ('s \<Rightarrow> 'b) \<Rightarrow> ('s \<Rightarrow> 'b set) \<Rightarrow> bool" where
  "llvm_laws L pt blks \<longleftrightarrow> create_law L pt blks \<and> point_law L pt blks \<and> block_law L blks \<and> neutral_law L pt blks"

text \<open>The library state of a lowering before and after some builder calls at the insertion point.\<close>

definition builds :: "('v, 'b, 's) Llvm \<Rightarrow> ('s \<Rightarrow> 'b) \<Rightarrow> ('s \<Rightarrow> 'b set) \<Rightarrow>
    ('v, 'b, 's) FunctionLowering \<Rightarrow> ('v, 'b, 's) FunctionLowering \<Rightarrow> bool" where
  "builds L pt blks f f' \<longleftrightarrow>
     pt (fl_state f') = pt (fl_state f) \<and> blks (fl_state f') = blks (fl_state f)
     \<and> fl_blocks f' = fl_blocks f \<and> fl_isVoid f' = fl_isVoid f \<and> fl_args f' = fl_args f
     \<and> (\<forall>b. b \<noteq> pt (fl_state f) \<longrightarrow> ll_getTerminator L b (fl_state f') = ll_getTerminator L b (fl_state f))"

lemma builds_refl [simp, intro!]: "builds L pt blks f f"
  by (simp add: builds_def)

lemma builds_trans: "builds L pt blks f g \<Longrightarrow> builds L pt blks g h \<Longrightarrow> builds L pt blks f h"
  by (auto simp: builds_def)

lemma llvm_create:
  assumes "llvm_laws L pt blks" "ll_create L c s = (v, s')"
  shows "pt s' = pt s \<and> blks s' = blks s
    \<and> (\<forall>b. ll_getTerminator L b s' = (ll_getTerminator L b s \<or> b = pt s \<and> is_terminator_call c))"
proof -
  have "create_law L pt blks" using assms(1) by (simp add: llvm_laws_def)
  from this [unfolded create_law_def, rule_format, of c s] assms(2) show ?thesis by simp
qed

lemma llvm_point:
  assumes "llvm_laws L pt blks"
  shows "pt (ll_SetInsertPoint L b s) = b" "blks (ll_SetInsertPoint L b s) = blks s"
    and "ll_getTerminator L c (ll_SetInsertPoint L b s) = ll_getTerminator L c s"
  using assms by (simp_all add: llvm_laws_def point_law_def)

lemma llvm_new_block:
  assumes "llvm_laws L pt blks" "ll_new_block L l s = (b, s')"
  shows "b \<notin> blks s \<and> blks s' = insert b (blks s) \<and> \<not> ll_getTerminator L b s'
    \<and> (\<forall>c. c \<noteq> b \<longrightarrow> ll_getTerminator L c s' = ll_getTerminator L c s)"
proof -
  have "block_law L blks" using assms(1) by (simp add: llvm_laws_def)
  from this [unfolded block_law_def, rule_format, of l s] assms(2) show ?thesis by simp
qed

lemma llvm_neutral:
  assumes "llvm_laws L pt blks"
  shows "llvm_same L pt blks s (snd (ll_global_string L x g s))"
    and "llvm_same L pt blks s (snd (ll_declare L ty n s))"
    and "llvm_same L pt blks s (snd (ll_getOrInsertFunction L n ty s))"
    and "llvm_same L pt blks s (snd (ll_new_function L (FnType ret args va) n ns s))"
    and "length (fst (ll_new_function L (FnType ret args va) n ns s)) = length args"
  using assms by (simp_all add: llvm_laws_def neutral_law_def)

text \<open>Every helper only builds: rules for a goal \<open>builds L pt blks f0 f'\<close> whose \<open>f'\<close> an equation defines.\<close>

lemma mk_builds:
  assumes "llvm_laws L pt blks" "mk L c f = (v, f')" "builds L pt blks f0 f"
  shows "builds L pt blks f0 f'"
proof -
  obtain s where c: "ll_create L c (fl_state f) = (v, s)" "f' = f\<lparr>fl_state := s\<rparr>"
    using assms(2) by (auto simp: mk_def split: prod.splits)
  with assms(3) llvm_create [OF assms(1) c(1)] show ?thesis by (simp add: builds_def)
qed

lemma same_builds:
  "builds L pt blks f0 f \<Longrightarrow> llvm_same L pt blks (fl_state f) s \<Longrightarrow> builds L pt blks f0 (f\<lparr>fl_state := s\<rparr>)"
  by (simp add: llvm_same_def builds_def)

lemma string_pointer_builds:
  assumes "llvm_laws L pt blks" "string_pointer L str g n f = (v, f')" "builds L pt blks f0 f"
  shows "builds L pt blks f0 f'"
proof -
  obtain gv s where g: "ll_global_string L str g (fl_state f) = (gv, s)" by fastforce
  then have "llvm_same L pt blks (fl_state f) s"
    using llvm_neutral(1) [OF assms(1), where x = str and g = g and s = "fl_state f"] by simp
  from mk_builds [OF assms(1) _ same_builds [OF assms(3) this]] assms(2) g show ?thesis
    by (simp add: string_pointer_def)
qed

lemma get_callee_builds:
  assumes "llvm_laws L pt blks" "get_callee L n ty f = (v, f')" "builds L pt blks f0 f"
  shows "builds L pt blks f0 f'"
proof -
  obtain s where g: "ll_getOrInsertFunction L n ty (fl_state f) = (v, s)" "f' = f\<lparr>fl_state := s\<rparr>"
    using assms(2) by (auto simp: get_callee_def split: prod.splits)
  then have "llvm_same L pt blks (fl_state f) s"
    using llvm_neutral(3) [OF assms(1), where ty = ty and n = n and s = "fl_state f"] by simp
  from same_builds [OF assms(3) this] g show ?thesis by simp
qed

lemma resolve_builds:
  assumes "llvm_laws L pt blks" "resolve L opd f = (v, f')" "builds L pt blks f0 f"
  shows "builds L pt blks f0 f'"
  using assms(2,3)
  by (auto simp: resolve_def split: OperandKind.splits option.splits intro: string_pointer_builds [OF assms(1)])

lemma operand_at_builds:
  assumes "llvm_laws L pt blks" "operand_at L k i f = (v, f')" "builds L pt blks f0 f"
  shows "builds L pt blks f0 f'"
  using assms(2,3) by (auto simp: operand_at_def split: if_splits intro: resolve_builds [OF assms(1)])

lemma two_builds:
  assumes "llvm_laws L pt blks" "two L i f = (v, f')" "builds L pt blks f0 f"
  shows "builds L pt blks f0 f'"
  using assms(2,3) by (auto simp: two_def Let_def split: prod.splits intro: operand_at_builds [OF assms(1)])

lemma resolve_all_builds:
  assumes "llvm_laws L pt blks"
  shows "resolve_all L opds f = (vs, f') \<Longrightarrow> builds L pt blks f0 f \<Longrightarrow> builds L pt blks f0 f'"
  by (induction opds arbitrary: f vs)
    (auto simp: Let_def split: prod.splits intro: resolve_builds [OF assms])

lemma toI1_builds:
  assumes "llvm_laws L pt blks" "toI1 L v f = (w, f')" "builds L pt blks f0 f"
  shows "builds L pt blks f0 f'"
  using assms(2,3) by (auto simp: toI1_def split: if_splits intro: mk_builds [OF assms(1)])

lemma widen_builds:
  assumes "llvm_laws L pt blks" "builds L pt blks f0 (snd vf)"
  shows "builds L pt blks f0 (snd (widenToI64 L vf))"
  using assms(2) by (cases "mk L (CreateZExt (fst vf) TyI64 ''zext'') (snd vf)")
    (auto simp: widenToI64_def split: prod.splits intro: mk_builds [OF assms(1)])

lemma mk_snd_builds:
  assumes "llvm_laws L pt blks" "builds L pt blks f0 f"
  shows "builds L pt blks f0 (snd (mk L c f))"
  using assms(2) by (cases "mk L c f") (auto intro: mk_builds [OF assms(1)])

lemma resolve_snd_builds:
  assumes "llvm_laws L pt blks" "builds L pt blks f0 f"
  shows "builds L pt blks f0 (snd (resolve L opd f))"
  using assms(2) by (cases "resolve L opd f") (auto intro: resolve_builds [OF assms(1)])

lemma set_reg_builds [simp]: "builds L pt blks f0 (set_ll_reg r vf) = builds L pt blks f0 (snd vf)"
  by (simp add: builds_def set_ll_reg_def)

text \<open>Backwards from the last state: a step by the equation that defines it, or by a \<open>snd\<close>.\<close>

lemmas builds_eqs =
  mk_builds resolve_builds two_builds operand_at_builds resolve_all_builds toI1_builds string_pointer_builds
  get_callee_builds

lemmas builds_snds = mk_snd_builds widen_builds resolve_snd_builds

lemma emit_memory_builds:
  assumes "llvm_laws L pt blks" "emit_memory L i f = Some f'"
  shows "builds L pt blks f f'"
  using assms(2)
  by (auto simp: emit_memory_def Let_def split: Opcode.splits list.splits prod.splits if_splits)
    (rule builds_refl builds_snds [OF assms(1)] | erule builds_eqs [OF assms(1)])+

lemma emit_arith_builds:
  assumes "llvm_laws L pt blks"
  shows "builds L pt blks f (emit_arith L kn i f)" "builds L pt blks f (emit_unary L i f)"
    and "builds L pt blks f (emit_compare L cn i f)"
  by (auto simp: emit_arith_def emit_unary_def one_operand_def emit_compare_def Let_def split: prod.splits)
    (rule builds_refl builds_snds [OF assms] | erule builds_eqs [OF assms])+

lemma emit_logical_builds:
  assumes "llvm_laws L pt blks"
  shows "builds L pt blks f (emit_logical L i f)"
  by (auto simp: emit_logical_def one_operand_def Let_def split: prod.splits if_splits)
    (rule builds_refl builds_snds [OF assms] | erule builds_eqs [OF assms])+

lemma emit_exit_builds:
  assumes "llvm_laws L pt blks"
  shows "builds L pt blks f (emit_exit L i f)"
  by (auto simp: emit_exit_def Let_def split: prod.splits if_splits list.splits)
    (rule builds_refl builds_snds [OF assms] | erule builds_eqs [OF assms])+

lemma emit_wait_builds:
  assumes "llvm_laws L pt blks"
  shows "builds L pt blks f (emit_wait L i f)"
  by (auto simp: emit_wait_def Let_def split: prod.splits list.splits)
    (rule builds_refl builds_snds [OF assms] | erule builds_eqs [OF assms])+

lemma emit_print_builds:
  assumes "llvm_laws L pt blks"
  shows "builds L pt blks f (emit_print L opd f)"
  by (auto simp: emit_print_def Let_def split: prod.splits if_splits)
    (rule builds_refl builds_snds [OF assms] | erule builds_eqs [OF assms])+

lemma emit_plain_call_builds:
  assumes "llvm_laws L pt blks"
  shows "builds L pt blks f (emit_plain_call L i f)"
proof -
  have declared: "builds L pt blks f (f\<lparr>fl_state := s\<rparr>)" if "ll_declare L ty n (fl_state f) = (v, s)" for ty n v s
    using same_builds [OF builds_refl, of L pt blks f s] llvm_neutral(2) [OF assms, where ty = ty and n = n and s = "fl_state f"] that
    by simp
  show ?thesis
    by (auto simp: emit_plain_call_def Let_def split: prod.splits if_splits option.splits)
      (rule builds_refl builds_snds [OF assms] | erule builds_eqs [OF assms] declared)+
qed

lemma emit_call_builds: "llvm_laws L pt blks \<Longrightarrow> builds L pt blks f (emit_call L i f)"
  by (simp add: emit_call_def emit_exit_builds emit_wait_builds emit_print_builds emit_plain_call_builds)

lemma emit_jump_builds:
  assumes "llvm_laws L pt blks"
  shows "builds L pt blks f (emit_ret L i f)" "builds L pt blks f (emit_branch L i f)"
    and "emit_cond_branch L i f = Some f' \<Longrightarrow> builds L pt blks f f'"
  by (auto simp: emit_ret_def emit_branch_def emit_cond_branch_def Let_def split: prod.splits if_splits option.splits list.splits)
    (rule builds_refl builds_snds [OF assms] | erule builds_eqs [OF assms])+

lemma emit_builds:
  assumes "llvm_laws L pt blks" "emit_llvm L i f = Some f'"
  shows "builds L pt blks f f'"
  using assms(2) emit_arith_builds [OF assms(1)] emit_logical_builds [OF assms(1)] emit_call_builds [OF assms(1)]
    emit_jump_builds [OF assms(1)] emit_memory_builds [OF assms(1)]
  by (auto simp: emit_llvm_def Let_def split: option.splits if_splits)


section \<open>No exception\<close>

definition emit_safe :: "('v, 'b, 's) FunctionLowering \<Rightarrow> IRInstruction \<Rightarrow> bool" where
  "emit_safe f i \<longleftrightarrow> (\<forall>l \<in> set (targets i). fl_blocks f l \<noteq> None)
     \<and> (ir_opcode i = OpParam \<and> ir_operands i \<noteq> [] \<longrightarrow> param_index i < length (fl_args f))"

lemma emit_safe_builds: "builds L pt blks f f' \<Longrightarrow> emit_safe f' i = emit_safe f i"
  by (simp add: emit_safe_def builds_def)

lemma emit_total:
  assumes "llvm_laws L pt blks" "emit_safe f i"
  shows "\<exists>f'. emit_llvm L i f = Some f' \<and> builds L pt blks f f'"
proof -
  have "\<exists>f'. emit_cond_branch L i f = Some f'" if c: "ir_opcode i = OpCondBranch"
  proof (cases "find_char CHR '','' (ir_label i)")
    case (Some k)
    show ?thesis
    proof (cases "ir_operands i")
      case (Cons opd os)
      obtain v f1 where 1: "resolve L opd f = (v, f1)" by fastforce
      obtain w f2 where 2: "toI1 L v f1 = (w, f2)" by fastforce
      have "builds L pt blks f f2"
        by (rule toI1_builds [OF assms(1) 2], rule resolve_builds [OF assms(1) 1]) simp
      then have "fl_blocks f2 = fl_blocks f" by (simp add: builds_def)
      then show ?thesis
        using assms(2) c Some Cons 1 2
        by (auto simp: emit_cond_branch_def emit_safe_def targets_def split_comma_def)
    qed (simp add: emit_cond_branch_def Some)
  qed (simp add: emit_cond_branch_def)
  moreover have "\<exists>f'. emit_memory L i f = Some f'"
    using assms(2)
    by (auto simp: emit_memory_def emit_safe_def param_index_def Let_def split: Opcode.splits list.splits prod.splits)
  ultimately have "\<exists>f'. emit_llvm L i f = Some f'"
    unfolding emit_llvm_def Let_def by (auto split: option.split)
  with emit_builds [OF assms(1)] show ?thesis by blast
qed

lemma emit_instrs_total:
  assumes "llvm_laws L pt blks"
  shows "list_all (emit_safe f) is \<Longrightarrow> \<exists>f'. emit_instrs L b is f = Some f' \<and> builds L pt blks f f'"
proof (induction "is" arbitrary: f)
  case (Cons i "is")
  show ?case
  proof (cases "ll_getTerminator L b (fl_state f)")
    case False
    from Cons.prems obtain g where g: "emit_llvm L i f = Some g" "builds L pt blks f g"
      using emit_total [OF assms] by auto
    have "list_all (emit_safe g) is" using Cons.prems emit_safe_builds [OF g(2)] by (simp add: list_all_iff)
    from Cons.IH [OF this] g False builds_trans show ?thesis by fastforce
  qed simp
qed simp


section \<open>Terminators\<close>

text \<open>The labels in scope and the arguments stay; terminators appear in \<open>T\<close> only.\<close>

definition closes :: "('v, 'b, 's) Llvm \<Rightarrow> ('s \<Rightarrow> 'b set) \<Rightarrow> 'b set \<Rightarrow>
    ('v, 'b, 's) FunctionLowering \<Rightarrow> ('v, 'b, 's) FunctionLowering \<Rightarrow> bool" where
  "closes L blks T f f' \<longleftrightarrow>
     blks (fl_state f') = blks (fl_state f) \<and> fl_blocks f' = fl_blocks f \<and> fl_args f' = fl_args f
     \<and> (\<forall>b. ll_getTerminator L b (fl_state f') = (ll_getTerminator L b (fl_state f) \<or> b \<in> T))"

lemma closes_trans: "closes L blks T f g \<Longrightarrow> closes L blks U g h \<Longrightarrow> closes L blks (T \<union> U) f h"
  by (auto simp: closes_def)

lemma lower_block_closes:
  assumes "llvm_laws L pt blks" "fl_blocks f (bb_label bb) = Some b" "list_all (emit_safe f) (bb_instrs bb)"
  shows "\<exists>f'. lower_block L bb f = Some f' \<and> closes L blks {b} f f'"
proof -
  let ?g = "f\<lparr>fl_state := ll_SetInsertPoint L b (fl_state f)\<rparr>"
  have "list_all (emit_safe ?g) (bb_instrs bb)" using assms(3) by (simp add: list_all_iff emit_safe_def)
  from emit_instrs_total [OF assms(1) this] obtain h where h: "emit_instrs L b (bb_instrs bb) ?g = Some h" "builds L pt blks ?g h"
    by blast
  obtain v s where m: "ll_create L (if fl_isVoid h then CreateRetVoid else CreateUnreachable) (fl_state h) = (v, s)" by fastforce
  have "lower_block L bb f = Some (if ll_getTerminator L b (fl_state h) then h else h\<lparr>fl_state := s\<rparr>)"
    using assms(2) h(1) m by (auto simp: lower_block_def mk_def)
  moreover have "closes L blks {b} f (if ll_getTerminator L b (fl_state h) then h else h\<lparr>fl_state := s\<rparr>)"
    using h(2) llvm_create [OF assms(1) m] llvm_point [OF assms(1)]
    by (auto simp: closes_def builds_def split: if_splits)
  ultimately show ?thesis by blast
qed

lemma lower_blocks_closes:
  assumes "llvm_laws L pt blks"
  shows "list_all (\<lambda>bb. fl_blocks f (bb_label bb) \<noteq> None \<and> list_all (emit_safe f) (bb_instrs bb)) bbs \<Longrightarrow>
    \<exists>f'. lower_blocks L bbs f = Some f' \<and> closes L blks {b. \<exists>bb \<in> set bbs. fl_blocks f (bb_label bb) = Some b} f f'"
proof (induction bbs arbitrary: f)
  case Nil
  then show ?case by (simp add: closes_def)
next
  case (Cons bb bbs)
  then obtain b where b: "fl_blocks f (bb_label bb) = Some b" by auto
  from lower_block_closes [OF assms b] Cons.prems obtain g where g: "lower_block L bb f = Some g" "closes L blks {b} f g" by auto
  have same: "fl_blocks g = fl_blocks f" "emit_safe g i = emit_safe f i" for i using g(2) by (simp_all add: closes_def emit_safe_def)
  from Cons.IH [of g] Cons.prems obtain h where h: "lower_blocks L bbs g = Some h"
      "closes L blks {b. \<exists>bb \<in> set bbs. fl_blocks g (bb_label bb) = Some b} g h"
    by (auto simp: same list_all_iff)
  have "{b} \<union> {b. \<exists>bb \<in> set bbs. fl_blocks g (bb_label bb) = Some b} = {c. \<exists>bb' \<in> set (bb # bbs). fl_blocks f (bb_label bb') = Some c}"
    using b by (auto simp: same)
  with closes_trans [OF g(2) h(2)] g(1) h(1) show ?case by simp
qed


section \<open>The blocks of a function\<close>

text \<open>\<open>bs\<close> are the new blocks, one for each label in \<open>ls\<close>; a label that occurs again takes the later one.\<close>

definition created :: "('v, 'b, 's) Llvm \<Rightarrow> ('s \<Rightarrow> 'b set) \<Rightarrow> string list \<Rightarrow> 'b list \<Rightarrow>
    ('v, 'b, 's) FunctionLowering \<Rightarrow> ('v, 'b, 's) FunctionLowering \<Rightarrow> bool" where
  "created L blks ls bs f f' \<longleftrightarrow>
     length bs = length ls \<and> distinct bs \<and> set bs \<inter> blks (fl_state f) = {}
     \<and> blks (fl_state f') = blks (fl_state f) \<union> set bs
     \<and> (\<forall>b. ll_getTerminator L b (fl_state f') = (b \<notin> set bs \<and> ll_getTerminator L b (fl_state f)))
     \<and> fl_blocks f' = fl_blocks f ++ map_of (rev (zip ls bs)) \<and> fl_args f' = fl_args f"

lemma createBlocks_created:
  assumes "llvm_laws L pt blks"
  shows "\<exists>bs. created L blks (map bb_label bbs) bs f (createBlocks L bbs f)"
proof (induction bbs arbitrary: f)
  case Nil
  then show ?case by (simp add: created_def)
next
  case (Cons bb bbs)
  obtain b s where b: "ll_new_block L (bb_label bb) (fl_state f) = (b, s)" by fastforce
  note new = llvm_new_block [OF assms b]
  let ?g = "f\<lparr>fl_state := s, fl_blocks := (fl_blocks f)(bb_label bb \<mapsto> b)\<rparr>"
  obtain bs where bs: "created L blks (map bb_label bbs) bs ?g (createBlocks L bbs ?g)" using Cons.IH [of ?g] by blast
  let ?h = "createBlocks L bbs ?g"
  have h: "length bs = length bbs" "distinct bs" "set bs \<inter> blks s = {}" "blks (fl_state ?h) = blks s \<union> set bs"
      "\<And>c. ll_getTerminator L c (fl_state ?h) = (c \<notin> set bs \<and> ll_getTerminator L c s)"
      "fl_blocks ?h = (fl_blocks f)(bb_label bb \<mapsto> b) ++ map_of (rev (zip (map bb_label bbs) bs))" "fl_args ?h = fl_args f"
    using bs by (simp_all add: created_def del: fun_upd_apply)
  have "created L blks (map bb_label (bb # bbs)) (b # bs) f ?h"
    unfolding created_def
  proof (intro conjI)
    show "distinct (b # bs)" "set (b # bs) \<inter> blks (fl_state f) = {}" using h(2,3) new by auto
    show "blks (fl_state ?h) = blks (fl_state f) \<union> set (b # bs)" using h(4) new by auto
    show "\<forall>c. ll_getTerminator L c (fl_state ?h) = (c \<notin> set (b # bs) \<and> ll_getTerminator L c (fl_state f))"
    proof
      fix c show "ll_getTerminator L c (fl_state ?h) = (c \<notin> set (b # bs) \<and> ll_getTerminator L c (fl_state f))"
        using h(5) [of c] new by (cases "c = b") auto
    qed
    show "fl_blocks ?h = fl_blocks f ++ map_of (rev (zip (map bb_label (bb # bbs)) (b # bs)))"
      by (simp add: h(6) fun_eq_iff map_add_def split: option.split)
  qed (simp_all add: h(1,7))
  then show ?case by (intro exI [where x = "b # bs"]) (simp add: b)
qed

lemma image_of_zip:
  assumes "length bs = length ls" "distinct bs"
  shows "set bs \<subseteq> {b. \<exists>l \<in> set ls. map_of (rev (zip ls bs)) l = Some b} \<longleftrightarrow> distinct ls"
proof
  let ?m = "map_of (rev (zip ls bs))"
  assume sub: "set bs \<subseteq> {b. \<exists>l \<in> set ls. ?m l = Some b}"
  then have "set bs \<subseteq> (\<lambda>l. the (?m l)) ` set ls" by force
  then have "card (set bs) \<le> card (set ls)"
    using card_mono [of "(\<lambda>l. the (?m l)) ` set ls" "set bs"] card_image_le [of "set ls" "\<lambda>l. the (?m l)"] by simp
  then show "distinct ls"
    using assms card_length [of ls] by (intro card_distinct) (simp add: distinct_card)
next
  assume d: "distinct ls"
  show "set bs \<subseteq> {b. \<exists>l \<in> set ls. map_of (rev (zip ls bs)) l = Some b}"
  proof
    fix b assume "b \<in> set bs"
    then obtain k where k: "k < length bs" "b = bs ! k" by (auto simp: in_set_conv_nth)
    then have "(ls ! k, b) \<in> set (rev (zip ls bs))" using assms(1) by (auto simp: in_set_zip)
    moreover have "distinct (map fst (rev (zip ls bs)))" using d assms(1) by (simp add: rev_map [symmetric])
    ultimately have "map_of (rev (zip ls bs)) (ls ! k) = Some b" by simp
    then show "b \<in> {b. \<exists>l \<in> set ls. map_of (rev (zip ls bs)) l = Some b}" using k assms(1) by auto
  qed
qed

lemma lowering_blocks:
  assumes laws: "llvm_laws L pt blks" and targets: "jumps (code fn) \<subseteq> set (block_labels fn)" and params: "params_in_range fn"
  shows "\<exists>f. lower_function L fn s = Some f \<and> blks s \<subseteq> blks (fl_state f)
    \<and> (\<forall>b \<in> blks s. ll_getTerminator L b (fl_state f) = ll_getTerminator L b s)
    \<and> ((\<forall>b \<in> blks (fl_state f) - blks s. ll_getTerminator L b (fl_state f)) \<longleftrightarrow> distinct (block_labels fn))"
proof -
  define f0 where "f0 = createFunction L fn s"
  have f0: "fl_blocks f0 = Map.empty" "length (fl_args f0) = countParams fn" "llvm_same L pt blks s (fl_state f0)"
  proof -
    let ?ret = "if hasReturnValue fn then TyI64 else TyVoid"
    let ?ps = "replicate (countParams fn) TyI64"
    obtain vs s1 where c: "ll_new_function L (FnType ?ret ?ps False) (fn_name fn)
        (map (\<lambda>k. ''arg'' @ nat_to_string k) [0..<countParams fn]) s = (vs, s1)" by fastforce
    have "length vs = countParams fn" "llvm_same L pt blks s s1"
      using llvm_neutral(4) [OF laws, of s ?ret ?ps False] llvm_neutral(5) [OF laws, of ?ret ?ps False] c
      by (metis fst_conv length_replicate, metis snd_conv)
    then show "fl_blocks f0 = Map.empty" "length (fl_args f0) = countParams fn" "llvm_same L pt blks s (fl_state f0)"
      unfolding f0_def createFunction_def Let_def c by simp_all
  qed
  define f1 where "f1 = createBlocks L (fn_blocks fn) f0"
  let ?ls = "block_labels fn"
  obtain bs where new: "created L blks ?ls bs f0 f1"
    using createBlocks_created [OF laws, of "fn_blocks fn" f0] unfolding f1_def block_labels_def by blast
  have bs: "length bs = length ?ls" "distinct bs" "set bs \<inter> blks s = {}" "blks (fl_state f1) = blks s \<union> set bs"
      "\<And>b. ll_getTerminator L b (fl_state f1) = (b \<notin> set bs \<and> ll_getTerminator L b (fl_state f0))"
      "fl_blocks f1 = map_of (rev (zip ?ls bs))" "fl_args f1 = fl_args f0"
    using new f0(1,3) by (simp_all add: created_def llvm_same_def)
  have known: "fl_blocks f1 l \<noteq> None" if "l \<in> set ?ls" for l
    using that bs(1) by (simp add: bs(6) map_of_eq_None_iff flip: set_map)
  have "emit_safe f1 i" if i: "i \<in> set (code fn)" for i
  proof -
    have "set (targets i) \<subseteq> set ?ls" using targets i by (auto simp: jumps_def)
    with known params i show ?thesis by (auto simp: emit_safe_def params_in_range_def list_all_iff bs(7) f0(2))
  qed
  moreover have "set (bb_instrs bb) \<subseteq> set (code fn)" if "bb \<in> set (fn_blocks fn)" for bb
    using that by (auto simp: code_def block_code_def)
  ultimately have "list_all (\<lambda>bb. fl_blocks f1 (bb_label bb) \<noteq> None \<and> list_all (emit_safe f1) (bb_instrs bb)) (fn_blocks fn)"
    using known by (auto simp: list_all_iff block_labels_def)
  from lower_blocks_closes [OF laws this] obtain f where f: "lower_blocks L (fn_blocks fn) f1 = Some f"
      "closes L blks {b. \<exists>bb \<in> set (fn_blocks fn). fl_blocks f1 (bb_label bb) = Some b} f1 f" by blast
  have "{b. \<exists>bb \<in> set (fn_blocks fn). fl_blocks f1 (bb_label bb) = Some b} = {b. \<exists>l \<in> set ?ls. map_of (rev (zip ?ls bs)) l = Some b}"
    by (auto simp: bs(6) block_labels_def)
  moreover have "b \<in> set bs" if "map_of (rev (zip ?ls bs)) l = Some b" for l b
    using map_of_SomeD [OF that] by (auto dest: set_zip_rightD)
  ultimately have "blks (fl_state f) = blks s \<union> set bs"
      "\<And>b. b \<in> blks s \<Longrightarrow> ll_getTerminator L b (fl_state f) = ll_getTerminator L b s"
      "\<And>b. b \<in> set bs \<Longrightarrow> ll_getTerminator L b (fl_state f) \<longleftrightarrow> b \<in> {b. \<exists>l \<in> set ?ls. map_of (rev (zip ?ls bs)) l = Some b}"
    using f(2) bs f0(3) by (auto simp: closes_def llvm_same_def)
  note final = this
  then have "(\<forall>b \<in> blks (fl_state f) - blks s. ll_getTerminator L b (fl_state f)) \<longleftrightarrow> distinct ?ls"
    using bs(3) image_of_zip [OF bs(1,2)] by blast
  moreover have "lower_function L fn s = Some f" using f(1) by (simp add: lower_function_def f1_def f0_def)
  ultimately show ?thesis using final(1,2) by blast
qed

section \<open>A library that keeps the laws\<close>

text \<open>
  A model of the library for the examples: a value is its type, a block a number, and the state holds the insertion point,
  the number of blocks and the blocks that have a terminator. Its verifier looks for blocks without one.
\<close>

type_synonym example_state = "nat \<times> nat \<times> nat list"

definition example_llvm :: "(LType, nat, example_state) Llvm" where
  "example_llvm =
     \<lparr>ll_create = (\<lambda>c (p, n, ts). (TyI64, (p, n, if is_terminator_call c then p # ts else ts))),
      ll_SetInsertPoint = (\<lambda>b (p, n, ts). (b, n, ts)),
      ll_new_block = (\<lambda>l (p, n, ts). (n, (p, Suc n, filter (\<lambda>b. b \<noteq> n) ts))),
      ll_new_function = (\<lambda>ty name names s. (case ty of FnType ret args va \<Rightarrow> args, s)),
      ll_getTerminator = (\<lambda>b (p, n, ts). b \<in> set ts),
      ll_type = (\<lambda>v. v),
      ll_constant = (\<lambda>c. case c of ConstInt t i \<Rightarrow> t | ConstDouble d \<Rightarrow> TyDouble | Undef t \<Rightarrow> t),
      ll_global_string = (\<lambda>str name s. (TyPtr, s)),
      ll_getFunction = (\<lambda>name s. None),
      ll_declare = (\<lambda>ty name s. (TyPtr, s)),
      ll_getOrInsertFunction = (\<lambda>name ty s. (TyPtr, s)),
      ll_returns_void = (\<lambda>v. False),
      ll_new_module = (\<lambda>name. (0, 0, [])),
      ll_verify = (\<lambda>(p, n, ts). if list_all (\<lambda>b. b \<in> set ts) [0..<n] then None
                    else Some ''Basic Block in function does not have terminator!''),
      ll_print = (\<lambda>s. [])\<rparr>"

definition example_blocks :: "example_state \<Rightarrow> nat set" where
  "example_blocks s = {..<fst (snd s)}"

lemma example_laws: "llvm_laws example_llvm fst example_blocks"
proof -
  have "create_law example_llvm fst example_blocks" "point_law example_llvm fst example_blocks"
    "neutral_law example_llvm fst example_blocks"
    by (auto simp: create_law_def point_law_def neutral_law_def llvm_same_def example_llvm_def example_blocks_def)
  moreover have "block_law example_llvm example_blocks"
    by (auto simp: block_law_def example_llvm_def example_blocks_def)
  ultimately show ?thesis by (simp add: llvm_laws_def)
qed

lemma example_verifier: "(\<exists>b \<in> example_blocks s. \<not> ll_getTerminator example_llvm b s) \<longrightarrow> ll_verify example_llvm s \<noteq> None"
  by (cases s) (auto simp: example_llvm_def example_blocks_def list_all_iff)

text \<open>A function with one parameter whose body is a \<open>match\<close> on it with one arm, a pattern.\<close>

definition match_program :: "Decl list" where
  "match_program = [FunctionDecl ''f'' [\<lparr>param_name = ''x'', param_type = NamedTypeNode ''int'' range_default, param_isMut = False,
       param_range = range_default\<rparr>] None
     (Some (MatchStmt (IdentExpr ''x'' range_default) [MatchArm (Some (IntLiteralExpr 1 range_default)) (BlockStmt [] range_default)]
       range_default)) False range_default]"

definition lower_match_program :: "(IRModule \<times> IRGen) option" where
  "lower_match_program = generate (ModuleDecl ''m'' match_program range_default) (new_irgen (new_context default_options))"


lemma lower_functions_total:
  assumes "llvm_laws L pt blks"
  shows "list_all (\<lambda>fn. jumps (code fn) \<subseteq> set (block_labels fn) \<and> params_in_range fn) fns \<Longrightarrow>
    \<exists>s'. lower_functions L fns s = Some s'
      \<and> ((\<exists>b \<in> blks s. \<not> ll_getTerminator L b s) \<or> (\<exists>fn \<in> set fns. \<not> distinct (block_labels fn)) \<longrightarrow>
          (\<exists>b \<in> blks s'. \<not> ll_getTerminator L b s'))"
proof (induction fns arbitrary: s)
  case (Cons fn fns)
  then obtain f where f: "lower_function L fn s = Some f" "blks s \<subseteq> blks (fl_state f)"
      "\<forall>b \<in> blks s. ll_getTerminator L b (fl_state f) = ll_getTerminator L b s"
      "(\<forall>b \<in> blks (fl_state f) - blks s. ll_getTerminator L b (fl_state f)) \<longleftrightarrow> distinct (block_labels fn)"
    using lowering_blocks [OF assms, of fn s] by auto
  from Cons.IH [of "fl_state f"] Cons.prems obtain s' where s': "lower_functions L fns (fl_state f) = Some s'"
      "(\<exists>b \<in> blks (fl_state f). \<not> ll_getTerminator L b (fl_state f)) \<or> (\<exists>fn \<in> set fns. \<not> distinct (block_labels fn)) \<longrightarrow>
        (\<exists>b \<in> blks s'. \<not> ll_getTerminator L b s')" by auto
  have "\<exists>b \<in> blks (fl_state f). \<not> ll_getTerminator L b (fl_state f)"
    if "(\<exists>b \<in> blks s. \<not> ll_getTerminator L b s) \<or> \<not> distinct (block_labels fn)"
    using that f(2-4) by blast
  then show ?case using f(1) s' by (auto simp del: not_None_eq)
qed simp

lemma generated_lowerable:
  assumes "generate (ModuleDecl name ds r) g = Some (irm, g')" "list_all plain_decl ds" "b_fn g = None"
  shows "list_all (\<lambda>fn. jumps (code fn) \<subseteq> set (block_labels fn) \<and> params_in_range fn) (mod_functions irm)"
  using generate_functions [OF assms] generate_signatures [OF assms(1,2)] by (auto simp: list_all_iff wf_function_def)

text \<open>\<open>emitIR\<close> comes to an answer on every generated module.\<close>

lemma emitIR_total:
  assumes "generate (ModuleDecl name ds r) g = Some (irm, g')" "list_all plain_decl ds" "b_fn g = None" "llvm_laws L pt blks"
  shows "\<exists>answer. emitIR_llvm L open_error irm path = Some answer"
proof -
  obtain s where "lower_functions L (mod_functions irm) (ll_new_module L (mod_name irm)) = Some s"
    using lower_functions_total [OF assms(4) generated_lowerable [OF assms(1-3)], of "ll_new_module L (mod_name irm)"] by blast
  then show ?thesis unfolding emitIR_llvm_def lower_module_def by (simp del: split_paired_Ex)
qed


lemma match_program_lowered:
  "\<exists>irm ig fn. lower_match_program = Some (irm, ig) \<and> mod_functions irm = [fn] \<and> \<not> distinct (block_labels fn)"
proof -
  have "map_option (\<lambda>(m, s). map (\<lambda>fn. distinct (block_labels fn)) (mod_functions m))
      lower_match_program = Some [False]"
    by code_simp
  then obtain irm ig where irm: "lower_match_program = Some (irm, ig)"
      "map (\<lambda>fn. distinct (block_labels fn)) (mod_functions irm) = [False]"
    by auto
  then obtain fn where "mod_functions irm = [fn]" by auto
  with irm show ?thesis by auto
qed

lemma match_program_plain: "list_all plain_decl match_program" "b_fn (new_irgen (new_context default_options)) = None"
  by (simp_all add: match_program_def new_irgen_def)



end
