(* ===== verification/Vcc_IrSemantics.thy ===== *)
theory Vcc_IrSemantics
  imports Vcc_Ir Vcc_Ast "HOL-Library.Signed_Division"
begin

unbundle bit_operations_syntax

text \<open>
  The abstract specification of lowering: a machine for the IR and a reference semantics of the
  source language. All values are 64-bit words, as the code generator treats them. What neither side
  defines is a parameter \<open>sem\<close>: the effect of a call on the outside world, and the value of a string
  or floating-point constant.

  The IR operations follow the documentation of the code generator (signed arithmetic that wraps;
  comparison and logical results 0 and 1). Undefined cases have no result: division by zero, the
  overflowing quotient, shifts by 64 or more, the load of an unknown symbol.
\<close>

record 'w sem =
  s_call :: "string \<Rightarrow> i64 list \<Rightarrow> 'w \<Rightarrow> (i64 \<times> 'w) option"
  s_const :: "Operand \<Rightarrow> i64"


section \<open>The IR machine\<close>

text \<open>Registers, memory, and the outside world. The slot of an \<open>alloca\<close> is at the address of its register number.\<close>

record 'w Machine =
  m_regs :: "RegID \<Rightarrow> i64"
  m_mem :: "i64 \<Rightarrow> i64"
  m_world :: 'w

definition divides_ok :: "i64 \<Rightarrow> i64 \<Rightarrow> bool" where
  "divides_ok a b \<longleftrightarrow> b \<noteq> 0 \<and> \<not> (sint a = - (2 ^ 63) \<and> b = - 1)"

fun eval_binary :: "Opcode \<Rightarrow> i64 \<Rightarrow> i64 \<Rightarrow> i64 option" where
  "eval_binary OpAdd a b = Some (a + b)"
| "eval_binary OpSub a b = Some (a - b)"
| "eval_binary OpMul a b = Some (a * b)"
| "eval_binary OpDiv a b = (if divides_ok a b then Some (word_of_int (sint a sdiv sint b)) else None)"
| "eval_binary OpMod a b = (if divides_ok a b then Some (word_of_int (sint a smod sint b)) else None)"
| "eval_binary OpBitAnd a b = Some (a AND b)"
| "eval_binary OpBitOr a b = Some (a OR b)"
| "eval_binary OpBitXor a b = Some (a XOR b)"
| "eval_binary OpShl a b = (if unat b < 64 then Some (push_bit (unat b) a) else None)"
| "eval_binary OpShr a b = (if unat b < 64 then Some (signed_drop_bit (unat b) a) else None)"
| "eval_binary OpCmpEq a b = Some (of_bool (a = b))"
| "eval_binary OpCmpNe a b = Some (of_bool (a \<noteq> b))"
| "eval_binary OpCmpLt a b = Some (of_bool (sint a < sint b))"
| "eval_binary OpCmpGt a b = Some (of_bool (sint a > sint b))"
| "eval_binary OpCmpLe a b = Some (of_bool (sint a \<le> sint b))"
| "eval_binary OpCmpGe a b = Some (of_bool (sint a \<ge> sint b))"
| "eval_binary OpLogAnd a b = Some (of_bool (a \<noteq> 0 \<and> b \<noteq> 0))"
| "eval_binary OpLogOr a b = Some (of_bool (a \<noteq> 0 \<or> b \<noteq> 0))"
| "eval_binary _ a b = None"

fun eval_unary :: "Opcode \<Rightarrow> i64 \<Rightarrow> i64 option" where
  "eval_unary OpNeg a = Some (- a)"
| "eval_unary OpBitNot a = Some (NOT a)"
| "eval_unary OpLogNot a = Some (of_bool (a = 0))"
| "eval_unary OpCopy a = Some a"
| "eval_unary OpCast a = Some a"
| "eval_unary _ a = None"

definition eval_op :: "Opcode \<Rightarrow> i64 list \<Rightarrow> i64 option" where
  "eval_op opc vs = (case vs of [a] \<Rightarrow> eval_unary opc a | [a, b] \<Rightarrow> eval_binary opc a b | _ \<Rightarrow> None)"

definition operand_value :: "'w sem \<Rightarrow> 'w Machine \<Rightarrow> Operand \<Rightarrow> i64" where
  "operand_value sem m x =
     (case op_kind x of
        OkReg \<Rightarrow> m_regs m (op_reg x)
      | OkIntImm \<Rightarrow> op_intVal x
      | OkBoolImm \<Rightarrow> op_intVal x
      | _ \<Rightarrow> s_const sem x)"

definition set_reg :: "RegID \<Rightarrow> i64 \<Rightarrow> 'w Machine \<Rightarrow> 'w Machine" where
  "set_reg r v m = m\<lparr>m_regs := (m_regs m)(r := v)\<rparr>"

definition set_mem :: "i64 \<Rightarrow> i64 \<Rightarrow> 'w Machine \<Rightarrow> 'w Machine" where
  "set_mem a v m = m\<lparr>m_mem := (m_mem m)(a := v)\<rparr>"

text \<open>One instruction that is not a terminator; \<open>args\<close> are the arguments of the function.\<close>

definition exec_instr :: "'w sem \<Rightarrow> i64 list \<Rightarrow> IRInstruction \<Rightarrow> 'w Machine \<Rightarrow> 'w Machine option" where
  "exec_instr sem args i m =
     (let vs = map (operand_value sem m) (ir_operands i); d = ir_dest i in
      case ir_opcode i of
        OpAlloca \<Rightarrow> Some (set_reg d (ucast d) m)
      | OpLoad \<Rightarrow> (case vs of [a] \<Rightarrow> Some (set_reg d (m_mem m a) m) | _ \<Rightarrow> None)
      | OpStore \<Rightarrow> (case vs of [v, a] \<Rightarrow> Some (set_mem a v m) | _ \<Rightarrow> None)
      | OpParam \<Rightarrow> (case vs of
            [k] \<Rightarrow> (if unat k < length args then Some (set_reg d (args ! unat k) m) else None)
          | _ \<Rightarrow> None)
      | OpCall \<Rightarrow> (case s_call sem (ir_label i) vs (m_world m) of
            Some (v, w) \<Rightarrow> Some (set_reg d v (m\<lparr>m_world := w\<rparr>))
          | None \<Rightarrow> None)
      | opc \<Rightarrow> map_option (\<lambda>v. set_reg d v m) (eval_op opc vs))"

fun exec_seq :: "'w sem \<Rightarrow> i64 list \<Rightarrow> IRInstruction list \<Rightarrow> 'w Machine \<Rightarrow> 'w Machine option" where
  "exec_seq sem args [] m = Some m"
| "exec_seq sem args (i # is) m = do { m \<leftarrow> exec_instr sem args i m; exec_seq sem args is m }"

text \<open>A function runs on what is left of its current block, until a \<open>ret\<close>.\<close>

datatype 'w config = Run "IRInstruction list" "'w Machine" | Halt "i64 option" 'w

definition block_at :: "IRFunction \<Rightarrow> string \<Rightarrow> IRInstruction list option" where
  "block_at f l = map_of (map (\<lambda>b. (bb_label b, bb_instrs b)) (fn_blocks f)) l"

inductive ir_step :: "'w sem \<Rightarrow> i64 list \<Rightarrow> IRFunction \<Rightarrow> 'w config \<Rightarrow> 'w config \<Rightarrow> bool"
  for sem args f where
  plain: "\<not> isTerminator i \<Longrightarrow> exec_instr sem args i m = Some m' \<Longrightarrow> ir_step sem args f (Run (i # is) m) (Run is m')"
| ret_void: "ir_opcode i = OpRet \<Longrightarrow> ir_operands i = [] \<Longrightarrow> ir_step sem args f (Run (i # is) m) (Halt None (m_world m))"
| ret_value: "ir_opcode i = OpRet \<Longrightarrow> ir_operands i = [x]
    \<Longrightarrow> ir_step sem args f (Run (i # is) m) (Halt (Some (operand_value sem m x)) (m_world m))"
| branch: "ir_opcode i = OpBranch \<Longrightarrow> block_at f (ir_label i) = Some is' \<Longrightarrow> ir_step sem args f (Run (i # is) m) (Run is' m)"
| cond_true: "ir_opcode i = OpCondBranch \<Longrightarrow> ir_operands i = [x] \<Longrightarrow> ir_label i = l1 @ '','' @ l2 \<Longrightarrow> CHR '','' \<notin> set l1
    \<Longrightarrow> operand_value sem m x \<noteq> 0 \<Longrightarrow> block_at f l1 = Some is' \<Longrightarrow> ir_step sem args f (Run (i # is) m) (Run is' m)"
| cond_false: "ir_opcode i = OpCondBranch \<Longrightarrow> ir_operands i = [x] \<Longrightarrow> ir_label i = l1 @ '','' @ l2 \<Longrightarrow> CHR '','' \<notin> set l1
    \<Longrightarrow> operand_value sem m x = 0 \<Longrightarrow> block_at f l2 = Some is' \<Longrightarrow> ir_step sem args f (Run (i # is) m) (Run is' m)"

abbreviation ir_steps :: "'w sem \<Rightarrow> i64 list \<Rightarrow> IRFunction \<Rightarrow> 'w config \<Rightarrow> 'w config \<Rightarrow> bool" where
  "ir_steps sem args f \<equiv> (ir_step sem args f)\<^sup>*\<^sup>*"

text \<open>A call of a function: from its first block with any registers and memory to its result.\<close>

definition ir_returns :: "'w sem \<Rightarrow> IRFunction \<Rightarrow> i64 list \<Rightarrow> 'w \<Rightarrow> i64 option \<Rightarrow> 'w \<Rightarrow> bool" where
  "ir_returns sem f args w v w' \<longleftrightarrow>
     (\<forall>regs mem. ir_steps sem args f
        (Run (bb_instrs (hd (fn_blocks f))) \<lparr>m_regs = regs, m_mem = mem, m_world = w\<rparr>) (Halt v w'))"


section \<open>The source language\<close>

text \<open>
  The state is a map from the variables in scope to their values, and the outside world. \<open>&&\<close> and
  \<open>||\<close> evaluate their right operand only if they need it (\<open>docs/syntax.md\<close>). The forms whose lowering
  is a placeholder or that involve addresses have no value here.
\<close>

type_synonym 'w source_state = "(string \<rightharpoonup> i64) \<times> 'w"

definition zero_arg_builtin :: "string \<Rightarrow> bool" where
  "zero_arg_builtin x \<longleftrightarrow> x = ''exit'' \<or> x = ''escape'' \<or> x = ''wait''"

fun binary_op :: "BinaryOp \<Rightarrow> i64 \<Rightarrow> i64 \<Rightarrow> i64 option" where
  "binary_op BoAdd a b = Some (a + b)"
| "binary_op BoSub a b = Some (a - b)"
| "binary_op BoMul a b = Some (a * b)"
| "binary_op BoDiv a b = (if divides_ok a b then Some (word_of_int (sint a sdiv sint b)) else None)"
| "binary_op BoMod a b = (if divides_ok a b then Some (word_of_int (sint a smod sint b)) else None)"
| "binary_op BoEq a b = Some (of_bool (a = b))"
| "binary_op BoNotEq a b = Some (of_bool (a \<noteq> b))"
| "binary_op BoLt a b = Some (of_bool (sint a < sint b))"
| "binary_op BoGt a b = Some (of_bool (sint a > sint b))"
| "binary_op BoLtEq a b = Some (of_bool (sint a \<le> sint b))"
| "binary_op BoGtEq a b = Some (of_bool (sint a \<ge> sint b))"
| "binary_op BoAnd a b = Some (of_bool (a \<noteq> 0 \<and> b \<noteq> 0))"
| "binary_op BoOr a b = Some (of_bool (a \<noteq> 0 \<or> b \<noteq> 0))"
| "binary_op BoBitAnd a b = Some (a AND b)"
| "binary_op BoBitOr a b = Some (a OR b)"
| "binary_op BoBitXor a b = Some (a XOR b)"
| "binary_op BoShl a b = (if unat b < 64 then Some (push_bit (unat b) a) else None)"
| "binary_op BoShr a b = (if unat b < 64 then Some (signed_drop_bit (unat b) a) else None)"

fun unary_op :: "UnaryOp \<Rightarrow> i64 \<Rightarrow> i64 option" where
  "unary_op UoNeg a = Some (- a)"
| "unary_op UoNot a = Some (of_bool (a = 0))"
| "unary_op UoBitNot a = Some (NOT a)"
| "unary_op _ a = None"

text \<open>The operator of a compound assignment.\<close>

fun compound_op :: "AssignOp \<Rightarrow> BinaryOp option" where
  "compound_op AoAssign = None"
| "compound_op AoAddAssign = Some BoAdd"
| "compound_op AoSubAssign = Some BoSub"
| "compound_op AoMulAssign = Some BoMul"
| "compound_op AoDivAssign = Some BoDiv"
| "compound_op AoModAssign = Some BoMod"
| "compound_op AoBitAndAssign = Some BoBitAnd"
| "compound_op AoBitOrAssign = Some BoBitOr"
| "compound_op AoBitXorAssign = Some BoBitXor"

definition call :: "'w sem \<Rightarrow> string \<Rightarrow> i64 list \<Rightarrow> 'w source_state \<Rightarrow> (i64 \<times> 'w source_state) option" where
  "call sem f vs s = map_option (\<lambda>(v, w). (v, fst s, w)) (s_call sem f vs (snd s))"

definition assign :: "string \<Rightarrow> i64 \<Rightarrow> 'w source_state \<Rightarrow> (i64 \<times> 'w source_state) option" where
  "assign x v s = (if x \<in> dom (fst s) then Some (v, (fst s)(x \<mapsto> v), snd s) else None)"

fun eval :: "'w sem \<Rightarrow> Expr \<Rightarrow> 'w source_state \<Rightarrow> (i64 \<times> 'w source_state) option"
  and eval_list :: "'w sem \<Rightarrow> Expr list \<Rightarrow> 'w source_state \<Rightarrow> (i64 list \<times> 'w source_state) option" where
  "eval sem (IntLiteralExpr v _) s = Some (v, s)"
| "eval sem (BoolLiteralExpr b _) s = Some (of_bool b, s)"
| "eval sem (CharLiteralExpr c _) s = Some (ucast c, s)"
| "eval sem (NilLiteralExpr _) s = Some (0, s)"
| "eval sem (FloatLiteralExpr d _) s = Some (s_const sem (fromFloat d), s)"
| "eval sem (StringLiteralExpr str _) s = Some (s_const sem (fromString str), s)"
| "eval sem (IdentExpr x _) s =
     (if zero_arg_builtin x then call sem x [] s else map_option (\<lambda>v. (v, s)) (fst s x))"
| "eval sem (BinaryExpr opr a b _) s =
     do { (x, s) \<leftarrow> eval sem a s;
          if opr = BoAnd \<and> x = 0 then Some (0, s)
          else if opr = BoOr \<and> x \<noteq> 0 then Some (1, s)
          else do { (y, s) \<leftarrow> eval sem b s; map_option (\<lambda>v. (v, s)) (binary_op opr x y) } }"
| "eval sem (UnaryExpr opr a _) s = do { (x, s) \<leftarrow> eval sem a s; map_option (\<lambda>v. (v, s)) (unary_op opr x) }"
| "eval sem (AssignExpr opr (IdentExpr x r) e _) s =
     (case compound_op opr of
        None \<Rightarrow> do { (v, s) \<leftarrow> eval sem e s; assign x v s }
      | Some bop \<Rightarrow>
          do { (l, s) \<leftarrow> eval sem (IdentExpr x r) s;
               (y, s) \<leftarrow> eval sem e s;
               v \<leftarrow> binary_op bop l y;
               assign x v s })"
| "eval sem (CallExpr (IdentExpr f _) args _) s = do { (vs, s) \<leftarrow> eval_list sem args s; call sem f vs s }"
| "eval sem _ s = None"
| "eval_list sem [] s = Some ([], s)"
| "eval_list sem (e # es) s =
     do { (v, s) \<leftarrow> eval sem e s; (vs, s) \<leftarrow> eval_list sem es s; Some (v # vs, s) }"

text \<open>How a statement ends.\<close>

datatype ending = Normal | Returned "i64 option"

text \<open>A block ends the scope of what it declared.\<close>

definition end_scope :: "'w source_state \<Rightarrow> 'w source_state \<Rightarrow> 'w source_state" where
  "end_scope s s' = (fst s' |` dom (fst s), snd s')"

text \<open>
  \<open>loop\<close> is a loop with a condition, \<open>repeat\<close> runs a body a number of times, \<open>arms\<close> tries the arms
  of a match for the value \<open>v\<close>. Variables need an initial value. A \<open>for\<close> loop, \<open>break\<close> and
  \<open>continue\<close> have no rule: their lowering is a placeholder.
\<close>

inductive exec :: "'w sem \<Rightarrow> Stmt \<Rightarrow> 'w source_state \<Rightarrow> ending \<Rightarrow> 'w source_state \<Rightarrow> bool"
  and execs :: "'w sem \<Rightarrow> Stmt list \<Rightarrow> 'w source_state \<Rightarrow> ending \<Rightarrow> 'w source_state \<Rightarrow> bool"
  and loop :: "'w sem \<Rightarrow> Expr \<Rightarrow> Stmt \<Rightarrow> 'w source_state \<Rightarrow> ending \<Rightarrow> 'w source_state \<Rightarrow> bool"
  and repeat :: "'w sem \<Rightarrow> Stmt \<Rightarrow> nat \<Rightarrow> 'w source_state \<Rightarrow> ending \<Rightarrow> 'w source_state \<Rightarrow> bool"
  and arms :: "'w sem \<Rightarrow> i64 \<Rightarrow> MatchArm list \<Rightarrow> 'w source_state \<Rightarrow> ending \<Rightarrow> 'w source_state \<Rightarrow> bool"
  for sem where
  exec_expr: "eval sem e s = Some (v, s') \<Longrightarrow> exec sem (ExprStmt e r) s Normal s'"
| exec_var: "eval sem e s = Some (v, s') \<Longrightarrow>
    exec sem (DeclStmt (VarDecl k x t (Some e) r) r') s Normal ((fst s')(x \<mapsto> v), snd s')"
| exec_return: "eval sem e s = Some (v, s') \<Longrightarrow> exec sem (ReturnStmt (Some e) r) s (Returned (Some v)) s'"
| exec_return_void: "exec sem (ReturnStmt None r) s (Returned None) s"
| exec_block: "execs sem ss s out s' \<Longrightarrow> exec sem (BlockStmt ss r) s out (end_scope s s')"
| exec_if_true: "eval sem c s = Some (v, s1) \<Longrightarrow> v \<noteq> 0 \<Longrightarrow> exec sem t s1 out s2
    \<Longrightarrow> exec sem (IfStmt c t e r) s out (end_scope s s2)"
| exec_if_false: "eval sem c s = Some (0, s1) \<Longrightarrow> exec sem e s1 out s2
    \<Longrightarrow> exec sem (IfStmt c t (Some e) r) s out (end_scope s s2)"
| exec_if_none: "eval sem c s = Some (0, s1) \<Longrightarrow> exec sem (IfStmt c t None r) s Normal s1"
| exec_while: "loop sem c b s out s' \<Longrightarrow> exec sem (WhileStmt c b r) s out s'"
| exec_vloop: "\<nexists>n r'. c = IntLiteralExpr n r' \<Longrightarrow> loop sem c b s out s' \<Longrightarrow> exec sem (VloopStmt c b r) s out s'"
| exec_vloop_count: "repeat sem b (nat (sint n)) s out s' \<Longrightarrow> exec sem (VloopStmt (IntLiteralExpr n r') b r) s out s'"
| exec_match: "eval sem e s = Some (v, s1) \<Longrightarrow> arms sem v as s1 out s' \<Longrightarrow> exec sem (MatchStmt e as r) s out s'"
| execs_end: "execs sem [] s Normal s"
| execs_next: "exec sem st s Normal s1 \<Longrightarrow> execs sem ss s1 out s2 \<Longrightarrow> execs sem (st # ss) s out s2"
| execs_return: "exec sem st s (Returned x) s1 \<Longrightarrow> execs sem (st # ss) s (Returned x) s1"
| loop_end: "eval sem c s = Some (0, s1) \<Longrightarrow> loop sem c b s Normal s1"
| loop_return: "eval sem c s = Some (v, s1) \<Longrightarrow> v \<noteq> 0 \<Longrightarrow> exec sem b s1 (Returned x) s2 \<Longrightarrow> loop sem c b s (Returned x) s2"
| loop_again: "eval sem c s = Some (v, s1) \<Longrightarrow> v \<noteq> 0 \<Longrightarrow> exec sem b s1 Normal s2
    \<Longrightarrow> loop sem c b (end_scope s s2) out s3 \<Longrightarrow> loop sem c b s out s3"
| repeat_end: "repeat sem b 0 s Normal s"
| repeat_return: "exec sem b s (Returned x) s1 \<Longrightarrow> repeat sem b (Suc n) s (Returned x) s1"
| repeat_again: "exec sem b s Normal s1 \<Longrightarrow> repeat sem b n (end_scope s s1) out s2 \<Longrightarrow> repeat sem b (Suc n) s out s2"
| arms_none: "arms sem v [] s Normal s"
| arms_wildcard: "exec sem b s out s' \<Longrightarrow> arms sem v (MatchArm None b # as) s out (end_scope s s')"
| arms_hit: "eval sem e s = Some (v, s1) \<Longrightarrow> exec sem b s1 out s2 \<Longrightarrow> arms sem v (MatchArm (Some e) b # as) s out (end_scope s s2)"
| arms_miss: "eval sem e s = Some (u, s1) \<Longrightarrow> u \<noteq> v \<Longrightarrow> arms sem v as s1 out s' \<Longrightarrow> arms sem v (MatchArm (Some e) b # as) s out s'"

inductive_cases exec_exprE: "exec sem (ExprStmt e r) s out s'"
inductive_cases exec_varE: "exec sem (DeclStmt d r) s out s'"
inductive_cases exec_returnE: "exec sem (ReturnStmt v r) s out s'"
inductive_cases exec_blockE: "exec sem (BlockStmt ss r) s out s'"
inductive_cases exec_ifE: "exec sem (IfStmt c t e r) s out s'"
inductive_cases exec_whileE: "exec sem (WhileStmt c b r) s out s'"
inductive_cases exec_vloopE: "exec sem (VloopStmt c b r) s out s'"
inductive_cases exec_matchE: "exec sem (MatchStmt e as r) s out s'"
inductive_cases execs_nilE: "execs sem [] s out s'"
inductive_cases execs_ConsE: "execs sem (st # ss) s out s'"
inductive_cases repeat_zeroE: "repeat sem b 0 s out s'"
inductive_cases repeat_SucE: "repeat sem b (Suc n) s out s'"
inductive_cases arms_nilE: "arms sem v [] s out s'"
inductive_cases arms_ConsE: "arms sem v (a # as) s out s'"

end
