(* ===== verification/Vcc_IrGen_Exprs.thy ===== *)
theory Vcc_IrGen_Exprs
  imports Vcc_IrGen_Wellformed Vcc_IrSemantics
begin

text \<open>
  The lowering of expressions refines the reference semantics: the straight-line code of an
  expression computes its value and its effects.
\<close>

section \<open>The simulation relation\<close>

text \<open>
  A variable in scope is in memory at the slot that the generator recorded for it. The registers that
  a point has allocated are those up to \<open>p_reg\<close>.
\<close>

definition allocated :: "Point \<Rightarrow> RegID \<Rightarrow> bool" where
  "allocated p r \<longleftrightarrow> 1 \<le> unat r \<and> unat r \<le> p_reg p"

definition related :: "Point \<Rightarrow> 'w source_state \<Rightarrow> 'w Machine \<Rightarrow> bool" where
  "related p s m \<longleftrightarrow> m_world m = snd s \<and> inj_on (p_slots p) (dom (fst s))
     \<and> (\<forall>x v. fst s x = Some v \<longrightarrow>
         (\<exists>r. p_slots p x = Some r \<and> allocated p r \<and> m_regs m r = ucast r \<and> m_mem m (ucast r) = v))"

text \<open>Execution from \<open>p\<close> on leaves its registers alone, and the slots that belong to no variable of \<open>V\<close>.\<close>

definition frame :: "string set \<Rightarrow> Point \<Rightarrow> 'w Machine \<Rightarrow> 'w Machine \<Rightarrow> bool" where
  "frame V p m m' \<longleftrightarrow> (\<forall>r. allocated p r \<longrightarrow> m_regs m' r = m_regs m r)
     \<and> (\<forall>r. allocated p r \<longrightarrow> (\<forall>x \<in> V. p_slots p x \<noteq> Some r) \<longrightarrow> m_mem m' (ucast r) = m_mem m (ucast r))"

lemma ucast_twice: "(ucast (ucast (r :: u32) :: i64) :: u32) = r"
  by (rule bit_word_eqI) (simp add: bit_simps)

lemma ucast_inj: "(ucast (r :: u32) :: i64) = ucast r' \<longleftrightarrow> r = r'"
  by (metis ucast_twice)

lemma allocated_mono: "allocated p r \<Longrightarrow> p_reg p \<le> p_reg p' \<Longrightarrow> allocated p' r"
  by (simp add: allocated_def)

text \<open>The register counter of the point has not wrapped.\<close>

definition fits :: "Point \<Rightarrow> bool" where
  "fits p \<longleftrightarrow> p_reg p < 2 ^ 32"

lemma fits_mono: "fits p' \<Longrightarrow> p_reg p \<le> p_reg p' \<Longrightarrow> fits p"
  by (simp add: fits_def)

lemma next_reg_unat: "fits p' \<Longrightarrow> p_reg p' = Suc (p_reg p) \<Longrightarrow> unat (next_reg p) = Suc (p_reg p)"
proof -
  assume "fits p'" "p_reg p' = Suc (p_reg p)"
  moreover have "next_reg p = of_nat (Suc (p_reg p))" by (simp add: next_reg_def)
  ultimately show ?thesis by (simp add: fits_def unat_of_nat del: of_nat_Suc)
qed

lemma next_reg_fresh: "fits p' \<Longrightarrow> p_reg p' = Suc (p_reg p) \<Longrightarrow> allocated p r \<Longrightarrow> r \<noteq> next_reg p"
  using next_reg_unat [of p' p] by (auto simp: allocated_def)

lemma next_reg_allocated: "fits p' \<Longrightarrow> p_reg p' = Suc (p_reg p) \<Longrightarrow> allocated p' (next_reg p)"
  using next_reg_unat [of p' p] by (simp add: allocated_def)

lemma frame_refl: "frame V p m m"
  by (simp add: frame_def)

lemma frame_trans:
  "frame V p m m' \<Longrightarrow> frame V p' m' m'' \<Longrightarrow> p_reg p \<le> p_reg p' \<Longrightarrow> (\<forall>x \<in> V. p_slots p' x = p_slots p x) \<Longrightarrow> frame V p m m''"
  by (auto simp: frame_def dest: allocated_mono)

lemma frame_regs: "frame V p m m' \<Longrightarrow> allocated p r \<Longrightarrow> m_regs m' r = m_regs m r"
  by (simp add: frame_def)

text \<open>The result of an instruction goes to the next register.\<close>

lemma related_set_reg:
  assumes "related p s m" "fits p'" "p_reg p' = Suc (p_reg p)" "p_slots p' = p_slots p"
  shows "related p' (fst s, w) (set_reg (next_reg p) v (m\<lparr>m_world := w\<rparr>))"
proof -
  have "allocated p' r \<and> r \<noteq> next_reg p" if "allocated p r" for r
    using that assms(3) next_reg_fresh [OF assms(2,3)] by (auto intro: allocated_mono)
  with assms(1,4) show ?thesis unfolding related_def by (fastforce simp: set_reg_def)
qed

lemma frame_set_reg:
  "fits p' \<Longrightarrow> p_reg p' = Suc (p_reg p) \<Longrightarrow> frame V p m (set_reg (next_reg p) v (m\<lparr>m_world := w\<rparr>))"
  by (auto simp: frame_def set_reg_def dest: next_reg_fresh)

text \<open>A store to the slot of a variable in scope.\<close>

lemma related_slot:
  "related p s m \<Longrightarrow> x \<in> dom (fst s) \<Longrightarrow> p_slots p x = Some r \<Longrightarrow>
    allocated p r \<and> m_regs m r = ucast r \<and> fst s x = Some (m_mem m (ucast r))"
  unfolding related_def by force

lemma related_no_slot: "related p s m \<Longrightarrow> p_slots p x = None \<Longrightarrow> fst s x = None"
  unfolding related_def by (metis not_None_eq)

lemma related_set_mem:
  assumes "related p s m" "x \<in> dom (fst s)" "p_slots p x = Some r"
  shows "related p ((fst s)(x \<mapsto> v), snd s) (set_mem (m_regs m r) v m)"
proof -
  have r: "m_regs m r = ucast r" "allocated p r" using related_slot [OF assms] by auto
  have dom: "dom ((fst s)(x \<mapsto> v)) = dom (fst s)" using assms(2) by auto
  have other: "r' \<noteq> r" if "fst s y = Some u" "y \<noteq> x" "p_slots p y = Some r'" for y r' u
    using assms that inj_onD [of "p_slots p" "dom (fst s)" x y] by (auto simp: related_def)
  have "\<exists>r'. p_slots p y = Some r' \<and> allocated p r' \<and> m_regs m r' = ucast r' \<and>
      m_mem (set_mem (ucast r) v m) (ucast r') = u" if "((fst s)(x \<mapsto> v)) y = Some u" for y u
  proof (cases "y = x")
    case True
    with that assms(3) r show ?thesis by (auto simp: set_mem_def)
  next
    case False
    with that assms(1) obtain r' where "p_slots p y = Some r'" "allocated p r'" "m_regs m r' = ucast r'" "m_mem m (ucast r') = u"
      by (auto simp: related_def)
    with other [of y u r'] that False show ?thesis by (auto simp: set_mem_def ucast_inj)
  qed
  moreover have "inj_on (p_slots p) (dom ((fst s)(x \<mapsto> v)))" "m_world m = snd s"
    using assms(1) unfolding dom by (auto simp: related_def)
  ultimately show ?thesis unfolding related_def r(1) by (simp add: set_mem_def)
qed

lemma frame_set_mem:
  assumes "related p s m" "x \<in> dom (fst s)" "p_slots p x = Some r"
  shows "frame (dom (fst s)) p m (set_mem (m_regs m r) v m)"
  using related_slot [OF assms] assms(2,3) by (auto simp: frame_def set_mem_def ucast_inj)

section \<open>Expressions\<close>

text \<open>Expressions whose evaluation has no effect and cannot fail, with the variables of \<open>V\<close> in scope.\<close>

fun harmless :: "string set \<Rightarrow> Expr \<Rightarrow> bool" where
  "harmless V (IdentExpr x _) = (x \<in> V \<and> \<not> zero_arg_builtin x)"
| "harmless V (BinaryExpr opr a b _) = (opr \<notin> {BoDiv, BoMod, BoShl, BoShr} \<and> harmless V a \<and> harmless V b)"
| "harmless V (UnaryExpr opr a _) = (opr \<in> {UoNeg, UoNot, UoBitNot} \<and> harmless V a)"
| "harmless V (IntLiteralExpr _ _) = True"
| "harmless V (BoolLiteralExpr _ _) = True"
| "harmless V (CharLiteralExpr _ _) = True"
| "harmless V (NilLiteralExpr _) = True"
| "harmless V (FloatLiteralExpr _ _) = True"
| "harmless V (StringLiteralExpr _ _) = True"
| "harmless V _ = False"

text \<open>
  The generated code always evaluates the right operand of \<open>&&\<close> and \<open>||\<close>: it is correct where that
  operand is harmless.
\<close>

fun safe :: "string set \<Rightarrow> Expr \<Rightarrow> bool" where
  "safe V (BinaryExpr opr a b _) = (safe V a \<and> safe V b \<and> (opr \<in> {BoAnd, BoOr} \<longrightarrow> harmless V b))"
| "safe V (UnaryExpr _ a _) = safe V a"
| "safe V (AssignExpr _ _ e _) = safe V e"
| "safe V (CallExpr _ args _) = list_all (safe V) args"
| "safe V _ = True"

lemma harmless_eval: "harmless (dom (fst s)) e \<Longrightarrow> \<exists>v. eval sem e s = Some (v, s)"
proof (induction "dom (fst s)" e rule: harmless.induct)
  case (2 opr a b r)
  then obtain x y where "eval sem a s = Some (x, s)" "eval sem b s = Some (y, s)" by auto
  with 2 show ?case by (cases opr) auto
next
  case (3 opr a r)
  then show ?case by (cases opr) auto
qed auto

text \<open>The value of an eager operand of a logical operator does not change the result.\<close>

lemma binary_eager:
  assumes "eval sem (BinaryExpr opr a b r) s = Some (v, s')" "safe (dom (fst s)) (BinaryExpr opr a b r)"
    and "eval sem a s = Some (x, s1)" "dom (fst s1) = dom (fst s)"
  shows "\<exists>y. eval sem b s1 = Some (y, s') \<and> binary_op opr x y = Some v"
proof (cases "opr \<in> {BoAnd, BoOr}")
  case True
  with assms(2,4) have "harmless (dom (fst s1)) b" by auto
  then obtain y where "eval sem b s1 = Some (y, s1)" using harmless_eval by blast
  with True assms(1,3) show ?thesis by (auto split: if_splits)
next
  case False
  with assms(1,3) show ?thesis by (auto split: bind_splits)
qed

lemma eval_binary_op: "eval_op (binaryOpToOpcode opr) [a, b] = binary_op opr a b"
  by (cases opr) (simp_all add: eval_op_def)

lemma eval_unary_op: "unary_op opr a = Some v \<Longrightarrow> eval_op (unaryOpToOpcode opr) [a] = Some v"
  by (cases opr) (simp_all add: eval_op_def)

lemma eval_compound_op: "compound_op opr = Some bop \<Longrightarrow> assignOpToOpcode opr = binaryOpToOpcode bop"
  by (cases opr) auto


text \<open>
  \<open>computes\<close>: the code from \<open>p\<close> to \<open>p'\<close> computes what \<open>F\<close> does on the source state, for states with
  the variables \<open>V\<close>; \<open>R\<close> says where the result is.
\<close>

definition computes :: "string set \<Rightarrow> ('w sem \<Rightarrow> 'w source_state \<Rightarrow> ('v \<times> 'w source_state) option)
    \<Rightarrow> ('w Machine \<Rightarrow> 'v \<Rightarrow> bool) \<Rightarrow> Point \<Rightarrow> Point \<Rightarrow> bool" where
  "computes V F R p p' \<longleftrightarrow> p_reg p \<le> p_reg p' \<and> p_slots p' = p_slots p \<and>
     (\<exists>new. p_instrs p' = p_instrs p @ new \<and> (fits p' \<longrightarrow>
       (\<forall>sem args s m v s'. related p s m \<longrightarrow> dom (fst s) = V \<longrightarrow> F sem s = Some (v, s') \<longrightarrow>
         (\<exists>m'. exec_seq sem args new m = Some m' \<and> related p' s' m' \<and> frame V p m m' \<and> dom (fst s') = V \<and> R m' v))))"

definition in_reg :: "Point \<Rightarrow> RegID \<Rightarrow> 'w Machine \<Rightarrow> i64 \<Rightarrow> bool" where
  "in_reg p r m v \<longleftrightarrow> allocated p r \<and> m_regs m r = v"

lemma exec_seq_append [simp]: "exec_seq sem args (xs @ ys) m = Option.bind (exec_seq sem args xs m) (exec_seq sem args ys)"
proof (induction xs arbitrary: m)
  case (Cons i xs)
  then show ?case by (cases "exec_instr sem args i m") simp_all
qed simp

text \<open>Sequencing: the second part may rely on the registers of the first.\<close>

lemma computes_bind:
  assumes "computes V F R p p1" "p_reg p1 \<le> p_reg p2" "p_slots p2 = p_slots p1" "p_instrs p2 = p_instrs p1 @ new"
    and "\<And>sem args s0 m0 s m x v s'. fits p2 \<Longrightarrow> related p1 s m \<Longrightarrow> dom (fst s) = V \<Longrightarrow> R m x
      \<Longrightarrow> F sem s0 = Some (x, s) \<Longrightarrow> dom (fst s0) = V \<Longrightarrow> G sem s0 = Some (v, s')
      \<Longrightarrow> \<exists>m'. exec_seq sem args new m = Some m' \<and> related p2 s' m' \<and> frame V p1 m m' \<and> dom (fst s') = V \<and> R' m' v"
    and "\<And>sem s0 v s'. dom (fst s0) = V \<Longrightarrow> G sem s0 = Some (v, s') \<Longrightarrow> \<exists>x s. F sem s0 = Some (x, s)"
  shows "computes V G R' p p2"
proof -
  from assms(1) obtain new1 where 1: "p_reg p \<le> p_reg p1" "p_slots p1 = p_slots p" "p_instrs p1 = p_instrs p @ new1"
    "\<And>sem args s m v s'. fits p1 \<Longrightarrow> related p s m \<Longrightarrow> dom (fst s) = V \<Longrightarrow> F sem s = Some (v, s') \<Longrightarrow>
         \<exists>m'. exec_seq sem args new1 m = Some m' \<and> related p1 s' m' \<and> frame V p m m' \<and> dom (fst s') = V \<and> R m' v"
    unfolding computes_def by blast
  have "\<exists>m'. exec_seq sem args (new1 @ new) m = Some m' \<and> related p2 s' m' \<and> frame V p m m' \<and> dom (fst s') = V \<and> R' m' v"
    if run: "fits p2" "related p s m" "dom (fst s) = V" "G sem s = Some (v, s')" for sem args s m v s'
  proof -
    from assms(6) [OF run(3,4)] obtain x s1 where x: "F sem s = Some (x, s1)" by blast
    obtain m1 where m1: "exec_seq sem args new1 m = Some m1" "related p1 s1 m1" "frame V p m m1" "dom (fst s1) = V" "R m1 x"
      using 1(4) [OF fits_mono [OF run(1) assms(2)] run(2,3) x] by blast
    obtain m2 where "exec_seq sem args new m1 = Some m2" "related p2 s' m2" "frame V p1 m1 m2" "dom (fst s') = V" "R' m2 v"
      using assms(5) [OF run(1) m1(2,4,5) x run(3,4)] by blast
    with m1 1(1,2) show ?thesis by (auto intro: frame_trans)
  qed
  with 1 assms(2,3,4) show ?thesis unfolding computes_def by (intro conjI exI [of _ "new1 @ new"]) auto
qed


lemma computesE:
  assumes "computes V F R p p'"
  obtains new where "p_reg p \<le> p_reg p'" "p_slots p' = p_slots p" "p_instrs p' = p_instrs p @ new"
    "\<And>sem args s m v s'. fits p' \<Longrightarrow> related p s m \<Longrightarrow> dom (fst s) = V \<Longrightarrow> F sem s = Some (v, s') \<Longrightarrow>
      \<exists>m'. exec_seq sem args new m = Some m' \<and> related p' s' m' \<and> frame V p m m' \<and> dom (fst s') = V \<and> R m' v"
  using assms unfolding computes_def by blast

lemma computesI:
  assumes "p_reg p \<le> p_reg p'" "p_slots p' = p_slots p" "p_instrs p' = p_instrs p @ new"
    and "\<And>sem args s m v s'. fits p' \<Longrightarrow> related p s m \<Longrightarrow> dom (fst s) = V \<Longrightarrow> F sem s = Some (v, s') \<Longrightarrow>
      \<exists>m'. exec_seq sem args new m = Some m' \<and> related p' s' m' \<and> frame V p m m' \<and> dom (fst s') = V \<and> R m' v"
  shows "computes V F R p p'"
  using assms unfolding computes_def by blast

definition result :: "Opcode \<Rightarrow> Operand list \<Rightarrow> string \<Rightarrow> Point \<Rightarrow> Point" where
  "result opc ops l p = set_last (next_reg p) (emit_value opc ops l p)"

lemma result_simps [simp]:
  "p_reg (result opc ops l p) = Suc (p_reg p)" "p_slots (result opc ops l p) = p_slots p"
  "p_last (result opc ops l p) = next_reg p" "p_lc (result opc ops l p) = p_lc p"
  "p_instrs (result opc ops l p) = p_instrs p @ [instr opc (next_reg p) ops l]"
  by (simp_all add: result_def)

text \<open>One instruction whose value goes to a new register.\<close>

lemma result_step:
  assumes "related p s m" "fits (result opc ops l p)"
    and "exec_instr sem args (instr opc (next_reg p) ops l) m = Some (set_reg (next_reg p) v (m\<lparr>m_world := w\<rparr>))"
  shows "\<exists>m'. exec_seq sem args [instr opc (next_reg p) ops l] m = Some m' \<and> related (result opc ops l p) (fst s, w) m'
    \<and> frame V p m m' \<and> in_reg (result opc ops l p) (next_reg p) m' v"
proof -
  have s: "p_reg (result opc ops l p) = Suc (p_reg p)" by simp
  show ?thesis
    using related_set_reg [OF assms(1,2) s result_simps(2)] frame_set_reg [OF assms(2) s] next_reg_allocated [OF assms(2) s]
    by (simp add: assms(3) in_reg_def) (simp add: set_reg_def)
qed

lemma set_reg_world: "set_reg r v (m\<lparr>m_world := m_world m\<rparr>) = set_reg r v m"
  by (simp add: set_reg_def)

lemma exec_operator:
  "exec_instr sem args (instr (binaryOpToOpcode opr) d [fromReg r1, fromReg r2] l) m =
     map_option (\<lambda>v. set_reg d v m) (binary_op opr (m_regs m r1) (m_regs m r2))"
  "unary_op uop (m_regs m r1) = Some v \<Longrightarrow>
     exec_instr sem args (instr (unaryOpToOpcode uop) d [fromReg r1] l) m = Some (set_reg d v m)"
  by (cases opr; simp add: exec_instr_def eval_op_def operand_value_def)
    (cases uop; simp add: exec_instr_def eval_op_def operand_value_def)

lemma exec_literals:
  "exec_instr sem args (instr OpCopy d [fromInt n] l) m = Some (set_reg d n m)"
  "exec_instr sem args (instr OpCopy d [fromBool b] l) m = Some (set_reg d (of_bool b) m)"
  "exec_instr sem args (instr OpCopy d [fromFloat x] l) m = Some (set_reg d (s_const sem (fromFloat x)) m)"
  "exec_instr sem args (instr OpCopy d [fromString str] l) m = Some (set_reg d (s_const sem (fromString str)) m)"
  by (simp_all add: exec_instr_def eval_op_def operand_value_def fromInt_def fromBool_def fromFloat_def fromString_def)

lemma exec_call:
  "s_call sem f (map (m_regs m) rs) (m_world m) = Some (v, w) \<Longrightarrow>
     exec_instr sem args (instr OpCall d (map fromReg rs) f) m = Some (set_reg d v (m\<lparr>m_world := w\<rparr>))"
  by (simp add: exec_instr_def operand_value_def comp_def)

lemma exec_load: "exec_instr sem args (instr OpLoad d [fromReg r] l) m = Some (set_reg d (m_mem m (m_regs m r)) m)"
  by (simp add: exec_instr_def operand_value_def)

lemma exec_store: "exec_instr sem args (instr OpStore d [fromReg r, fromReg a] l) m = Some (set_mem (m_regs m a) (m_regs m r) m)"
  by (simp add: exec_instr_def operand_value_def)

text \<open>A part that is a single instruction.\<close>

lemma computes_result:
  assumes "\<And>sem args s m v s'. related p s m \<Longrightarrow> dom (fst s) = V \<Longrightarrow> F sem s = Some (v, s') \<Longrightarrow>
    fst s' = fst s \<and> exec_instr sem args (instr opc (next_reg p) ops l) m = Some (set_reg (next_reg p) v (m\<lparr>m_world := snd s'\<rparr>))"
  shows "computes V F (in_reg (result opc ops l p) (next_reg p)) p (result opc ops l p)"
proof (rule computesI [where new = "[instr opc (next_reg p) ops l]"])
  fix sem args s m v s'
  assume *: "fits (result opc ops l p)" "related p s m" "dom (fst s) = V" "F sem s = Some (v, s')"
  from assms [OF *(2-4)] have "fst s' = fst s" and
    ex: "exec_instr sem args (instr opc (next_reg p) ops l) m = Some (set_reg (next_reg p) v (m\<lparr>m_world := snd s'\<rparr>))" by auto
  then have "s' = (fst s, snd s')" by (metis prod.collapse)
  with result_step [OF *(2,1) ex, of V] *(3)
  show "\<exists>m'. exec_seq sem args [instr opc (next_reg p) ops l] m = Some m' \<and> related (result opc ops l p) s' m'
      \<and> frame V p m m' \<and> dom (fst s') = V \<and> in_reg (result opc ops l p) (next_reg p) m' v"
    by (metis fst_conv)
qed simp_all


definition compiles :: "'w itself \<Rightarrow> string set \<Rightarrow> home \<Rightarrow> Expr \<Rightarrow> bool" where
  "compiles TYPE('w) V h e \<longleftrightarrow> (\<forall>p. point_ok p \<longrightarrow> (\<exists>p'. gen_expr e (cfg h p) = Some (cfg h p') \<and> straight p p'
     \<and> p_last p' \<in> known p'
     \<and> (safe V e \<longrightarrow> computes V (\<lambda>sem :: 'w sem. eval sem e) (in_reg p' (p_last p')) p p')))"

lemma compilesE:
  assumes "compiles TYPE('w) V h e" "point_ok p"
  obtains p' where "gen_expr e (cfg h p) = Some (cfg h p')" "straight p p'" "p_last p' \<in> known p'"
    "safe V e \<longrightarrow> computes V (\<lambda>sem :: 'w sem. eval sem e) (in_reg p' (p_last p')) p p'"
  using assms unfolding compiles_def by blast

lemma compilesI:
  assumes "\<And>p. point_ok p \<Longrightarrow> \<exists>p'. gen_expr e (cfg h p) = Some (cfg h p') \<and> straight p p' \<and> p_last p' \<in> known p'
     \<and> (safe V e \<longrightarrow> computes V (\<lambda>sem :: 'w sem. eval sem e) (in_reg p' (p_last p')) p p')"
  shows "compiles TYPE('w) V h e"
  using assms unfolding compiles_def by blast

lemma result_cfg: "result_to_last (Some (next_reg p, cfg h (emit_value opc ops l p))) = Some (cfg h (result opc ops l p))"
  by (simp add: result_def)

lemma straight_result':
  "straight p p' \<Longrightarrow> has_result opc \<Longrightarrow> reads (instr opc (next_reg p') ops l) \<subseteq> known p' \<Longrightarrow>
    straight p (result opc ops l p') \<and> next_reg p' \<in> known (result opc ops l p')"
  by (simp add: result_def straight_result)

lemma known_result [simp]: "has_result opc \<Longrightarrow> known (result opc ops l p) = insert (next_reg p) (known p)"
  by (simp add: result_def)

lemma length_first_regs [simp]: "length (first_regs n) = n"
  by (simp add: first_regs_def)

lemma straight_reg: "point_ok p \<Longrightarrow> straight p p' \<Longrightarrow> p_reg p \<le> p_reg p'"
proof -
  assume ok: "point_ok p" and s: "straight p p'"
  then obtain new where "p_code p' = p_code p @ new" by (auto simp: straight_def p_code_def p_blocks_def)
  then have "length (results (p_code p)) \<le> length (results (p_code p'))" by simp
  with ok straight_ok [OF s] show ?thesis by (simp add: point_ok_def)
qed

text \<open>The forms that the reference semantics leaves out are lowered, and nothing more is claimed.\<close>

lemma compiles_unspecified:
  assumes "\<And>sem s. eval (sem :: 'w sem) e s = None"
  shows "compiles TYPE('w) V h e"
proof (rule compilesI)
  fix p assume p: "point_ok p"
  obtain p' where p': "gen_expr e (cfg h p) = Some (cfg h p')" "straight p p'" "p_last p' \<in> known p'"
    using gen_expr_lowers(2) [OF p, of e h] by (auto simp: lowers_to_def)
  then obtain new where "p_instrs p' = p_instrs p @ new" by (auto simp: straight_def)
  with p' show "\<exists>p'. gen_expr e (cfg h p) = Some (cfg h p') \<and> straight p p' \<and> p_last p' \<in> known p'
     \<and> (safe V e \<longrightarrow> computes V (\<lambda>sem :: 'w sem. eval sem e) (in_reg p' (p_last p')) p p')"
    using assms straight_reg [OF p p'(2)] by (intro exI [of _ p']) (auto simp: computes_def straight_def)
qed

lemma compiles_instr:
  assumes "\<And>p. point_ok p \<Longrightarrow> gen_expr e (cfg h p) = Some (cfg h (result opc ops l p))" "has_result opc"
    and "\<And>p. point_ok p \<Longrightarrow> reads (instr opc (next_reg p) ops l) \<subseteq> known p"
    and "\<And>(sem :: 'w sem) args p s m v s'. related p s m \<Longrightarrow> dom (fst s) = V \<Longrightarrow> eval sem e s = Some (v, s') \<Longrightarrow>
    fst s' = fst s \<and> exec_instr sem args (instr opc (next_reg p) ops l) m = Some (set_reg (next_reg p) v (m\<lparr>m_world := snd s'\<rparr>))"
  shows "compiles TYPE('w) V h e"
proof (rule compilesI)
  fix p assume p: "point_ok p"
  have "computes V (\<lambda>sem :: 'w sem. eval sem e) (in_reg (result opc ops l p) (next_reg p)) p (result opc ops l p)"
    by (rule computes_result) (rule assms(4))
  with p assms(1,2,3) show "\<exists>p'. gen_expr e (cfg h p) = Some (cfg h p') \<and> straight p p' \<and> p_last p' \<in> known p'
     \<and> (safe V e \<longrightarrow> computes V (\<lambda>sem :: 'w sem. eval sem e) (in_reg p' (p_last p')) p p')"
    by (intro exI [of _ "result opc ops l p"]) (simp add: straight_result' straight_refl)
qed

lemma compiles_literals:
  "compiles TYPE('w) V h (IntLiteralExpr n r)"
  "compiles TYPE('w) V h (BoolLiteralExpr b r)"
  "compiles TYPE('w) V h (CharLiteralExpr c r)"
  "compiles TYPE('w) V h (NilLiteralExpr r)"
  "compiles TYPE('w) V h (FloatLiteralExpr d r)"
  "compiles TYPE('w) V h (StringLiteralExpr str r)"
  by ((rule compiles_instr, simp add: result_cfg [symmetric]); (simp; fail)?;
      (auto simp: exec_literals related_def set_reg_def; fail)?)+


lemma exI3: "P a b c \<Longrightarrow> \<exists>x y z. P x y z"
  by blast

lemma compiles_ident: "compiles TYPE('w) V h (IdentExpr x r)"
proof (rule compilesI)
  fix p assume p: "point_ok p"
  have "\<exists>opc ops l. gen_ident x (cfg h p) = Some (cfg h (result opc ops l p)) \<and> has_result opc
      \<and> reads (instr opc (next_reg p) ops l) \<subseteq> known p
      \<and> (\<forall>(sem :: 'w sem) args s m v s'. related p s m \<longrightarrow> eval sem (IdentExpr x r) s = Some (v, s') \<longrightarrow>
        fst s' = fst s \<and> exec_instr sem args (instr opc (next_reg p) ops l) m = Some (set_reg (next_reg p) v (m\<lparr>m_world := snd s'\<rparr>)))"
  proof (cases "zero_arg_builtin x")
    case True
    then have "gen_ident x (cfg h p) = Some (cfg h (result OpCall (map fromReg []) x p))"
      by (simp add: gen_ident_def zero_arg_builtin_def kZeroArgBuiltins_def result_def)
    moreover have "exec_instr sem args (instr OpCall (next_reg p) (map fromReg []) x) m =
        Some (set_reg (next_reg p) v (m\<lparr>m_world := w\<rparr>))"
      if "s_call sem x [] (m_world m) = Some (v, w)" for sem :: "'w sem" and args m v w
      using exec_call [where rs = "[]"] that by simp
    ultimately show ?thesis using True
      by (intro exI3 [of _ OpCall "map fromReg []" x]) (auto simp: call_def related_def)
  next
    case False
    then have b: "x \<notin> set kZeroArgBuiltins" by (auto simp: zero_arg_builtin_def kZeroArgBuiltins_def)
    show ?thesis
    proof (cases "p_slots p x")
      case None
      with b have "gen_ident x (cfg h p) = Some (cfg h (result OpLoad [] x p))" by (simp add: gen_ident_def result_def)
      moreover have "fst s x = None" if "related p s m" for s :: "'w source_state" and m
        using that None by (rule related_no_slot)
      ultimately show ?thesis using False by (intro exI3 [of _ OpLoad "[]" x]) auto
    next
      case (Some slot)
      with b have "gen_ident x (cfg h p) = Some (cfg h (result OpLoad [fromReg slot] [] p))"
        by (simp add: gen_ident_def result_def)
      moreover have "m_mem m (m_regs m slot) = v \<and> m_world m = snd s" if "related p s m" "fst s x = Some v" for s :: "'w source_state" and m v
      proof -
        have "x \<in> dom (fst s)" using that(2) by (rule domI)
        from related_slot [OF that(1) this Some] that show ?thesis by (simp add: related_def)
      qed
      ultimately show ?thesis using Some False point_ok_slot [OF p Some]
        by (intro exI3 [of _ OpLoad "[fromReg slot]" "[]"]) (auto simp: exec_load set_reg_def)
    qed
  qed
  then obtain opc ops l where q: "gen_ident x (cfg h p) = Some (cfg h (result opc ops l p))" "has_result opc"
      "reads (instr opc (next_reg p) ops l) \<subseteq> known p"
      "\<And>(sem :: 'w sem) args s m v s'. related p s m \<Longrightarrow> eval sem (IdentExpr x r) s = Some (v, s') \<Longrightarrow>
        fst s' = fst s \<and> exec_instr sem args (instr opc (next_reg p) ops l) m = Some (set_reg (next_reg p) v (m\<lparr>m_world := snd s'\<rparr>))"
    by blast
  have "computes V (\<lambda>sem :: 'w sem. eval sem (IdentExpr x r)) (in_reg (result opc ops l p) (next_reg p)) p (result opc ops l p)"
    by (rule computes_result) (rule q(4))
  with p q(1-3) show "\<exists>p'. gen_expr (IdentExpr x r) (cfg h p) = Some (cfg h p') \<and> straight p p' \<and> p_last p' \<in> known p'
     \<and> (safe V (IdentExpr x r) \<longrightarrow> computes V (\<lambda>sem :: 'w sem. eval sem (IdentExpr x r)) (in_reg p' (p_last p')) p p')"
    by (intro exI [of _ "result opc ops l p"]) (simp add: straight_result' straight_refl)
qed

lemma compiles_binary:
  assumes a: "compiles TYPE('w) V h a" and b: "compiles TYPE('w) V h b"
  shows "compiles TYPE('w) V h (BinaryExpr opr a b r)"
proof (rule compilesI)
  fix p assume p: "point_ok p"
  obtain p1 where p1: "gen_expr a (cfg h p) = Some (cfg h p1)" "straight p p1" "p_last p1 \<in> known p1"
    "safe V a \<longrightarrow> computes V (\<lambda>sem :: 'w sem. eval sem a) (in_reg p1 (p_last p1)) p p1"
    by (rule compilesE [OF a p])
  obtain p2 where p2: "gen_expr b (cfg h p1) = Some (cfg h p2)" "straight p1 p2" "p_last p2 \<in> known p2"
    "safe V b \<longrightarrow> computes V (\<lambda>sem :: 'w sem. eval sem b) (in_reg p2 (p_last p2)) p1 p2"
    by (rule compilesE [OF b straight_ok [OF p1(2)]])
  define q where "q = result (binaryOpToOpcode opr) [fromReg (p_last p1), fromReg (p_last p2)] [] p2"
  have gen: "gen_expr (BinaryExpr opr a b r) (cfg h p) = Some (cfg h q)"
    using p1(1) p2(1) by (simp add: q_def result_def)
  have st: "straight p q \<and> next_reg p2 \<in> known q"
    unfolding q_def by (rule straight_result' [OF straight_trans [OF p1(2) p2(2)]])
      (use p1(3) p2(3) straightD [OF p2(2)] in auto)
  have "computes V (\<lambda>sem :: 'w sem. eval sem (BinaryExpr opr a b r)) (in_reg q (next_reg p2)) p q"
    if safe: "safe V (BinaryExpr opr a b r)"
  proof -
    have "safe V b" "safe V a" using safe by auto
    from mp [OF p2(4) this(1)] obtain new where new: "p_reg p1 \<le> p_reg p2" "p_slots p2 = p_slots p1" "p_instrs p2 = p_instrs p1 @ new"
      "\<And>(sem :: 'w sem) args s m v s'. fits p2 \<Longrightarrow> related p1 s m \<Longrightarrow> dom (fst s) = V \<Longrightarrow> eval sem b s = Some (v, s') \<Longrightarrow>
        \<exists>m'. exec_seq sem args new m = Some m' \<and> related p2 s' m' \<and> frame V p1 m m' \<and> dom (fst s') = V
          \<and> in_reg p2 (p_last p2) m' v"
      by (rule computesE) blast
    let ?i = "instr (binaryOpToOpcode opr) (next_reg p2) [fromReg (p_last p1), fromReg (p_last p2)] []"
    show ?thesis
    proof (rule computes_bind [OF mp [OF p1(4) \<open>safe V a\<close>], where new = "new @ [?i]"])
      fix sem :: "'w sem" and args s0 s m x v s'
      assume fits: "fits q" and rel: "related p1 s m" and dom: "dom (fst s) = V" "dom (fst s0) = V"
        and x: "in_reg p1 (p_last p1) m x" and ev: "eval sem a s0 = Some (x, s)" "eval sem (BinaryExpr opr a b r) s0 = Some (v, s')"
      obtain y where y: "eval sem b s = Some (y, s')" "binary_op opr x y = Some v"
        using binary_eager [OF ev(2) _ ev(1)] safe dom by auto
      have fits2: "fits p2" by (rule fits_mono [OF fits]) (simp add: q_def)
      obtain m2 where m2: "exec_seq sem args new m = Some m2" "related p2 s' m2" "frame V p1 m m2" "dom (fst s') = V"
          "in_reg p2 (p_last p2) m2 y"
        using new(4) [OF fits2 rel dom(1) y(1)] by blast
      have "m_regs m2 (p_last p1) = x" using m2(3) x by (auto simp: in_reg_def dest: frame_regs)
      with m2(5) y(2) have i: "exec_instr sem args ?i m2 = Some (set_reg (next_reg p2) v (m2\<lparr>m_world := m_world m2\<rparr>))"
        by (simp add: exec_operator in_reg_def set_reg_world)
      have w: "s' = (fst s', m_world m2)" using m2(2) by (simp add: related_def)
      obtain m3 where "exec_seq sem args [?i] m2 = Some m3" "related q (fst s', m_world m2) m3" "frame V p2 m2 m3"
          "in_reg q (next_reg p2) m3 v"
        using result_step [OF m2(2) _ i, of V] fits by (auto simp: q_def)
      with m2 new(1,2) w show "\<exists>m'. exec_seq sem args (new @ [?i]) m = Some m' \<and> related q s' m' \<and> frame V p1 m m'
          \<and> dom (fst s') = V \<and> in_reg q (next_reg p2) m' v"
        by (auto intro: frame_trans)
    qed (use new in \<open>auto simp: q_def split: bind_splits\<close>)
  qed
  with gen st show "\<exists>p'. gen_expr (BinaryExpr opr a b r) (cfg h p) = Some (cfg h p') \<and> straight p p' \<and> p_last p' \<in> known p'
     \<and> (safe V (BinaryExpr opr a b r) \<longrightarrow>
        computes V (\<lambda>sem :: 'w sem. eval sem (BinaryExpr opr a b r)) (in_reg p' (p_last p')) p p')"
    by (intro exI [of _ q]) (simp add: q_def)
qed


lemma compiles_unary:
  assumes a: "compiles TYPE('w) V h a"
  shows "compiles TYPE('w) V h (UnaryExpr opr a r)"
proof (cases "opr \<in> {UoDeref, UoAddrOf}")
  case True
  then show ?thesis by (intro compiles_unspecified) (auto split: bind_splits)
next
  case False
  show ?thesis
  proof (rule compilesI)
    fix p assume p: "point_ok p"
    obtain p1 where p1: "gen_expr a (cfg h p) = Some (cfg h p1)" "straight p p1" "p_last p1 \<in> known p1"
      "safe V a \<longrightarrow> computes V (\<lambda>sem :: 'w sem. eval sem a) (in_reg p1 (p_last p1)) p p1"
      by (rule compilesE [OF a p])
    define q where "q = result (unaryOpToOpcode opr) [fromReg (p_last p1)] [] p1"
    have gen: "gen_expr (UnaryExpr opr a r) (cfg h p) = Some (cfg h q)"
      using p1(1) False by (cases opr) (simp_all add: q_def result_def)
    have st: "straight p q \<and> next_reg p1 \<in> known q"
      unfolding q_def by (rule straight_result' [OF p1(2)]) (use p1(3) in auto)
    let ?i = "instr (unaryOpToOpcode opr) (next_reg p1) [fromReg (p_last p1)] []"
    have "computes V (\<lambda>sem :: 'w sem. eval sem (UnaryExpr opr a r)) (in_reg q (next_reg p1)) p q" if "safe V a"
    proof (rule computes_bind [OF mp [OF p1(4) that], where new = "[?i]"])
      fix sem :: "'w sem" and args s0 s m x v s'
      assume fits: "fits q" and rel: "related p1 s m" and dom: "dom (fst s) = V" and x: "in_reg p1 (p_last p1) m x"
        and ev: "eval sem a s0 = Some (x, s)" "eval sem (UnaryExpr opr a r) s0 = Some (v, s')"
      then have v: "s' = s" "unary_op opr x = Some v" by auto
      with x have i: "exec_instr sem args ?i m = Some (set_reg (next_reg p1) v (m\<lparr>m_world := m_world m\<rparr>))"
        by (simp add: exec_operator in_reg_def set_reg_world)
      have "s = (fst s, m_world m)" using rel by (simp add: related_def)
      with result_step [OF rel _ i, of V] fits v dom
      show "\<exists>m'. exec_seq sem args [?i] m = Some m' \<and> related q s' m' \<and> frame V p1 m m' \<and> dom (fst s') = V
          \<and> in_reg q (next_reg p1) m' v"
        by (auto simp: q_def)
    qed (auto simp: q_def split: bind_splits)
    with gen st show "\<exists>p'. gen_expr (UnaryExpr opr a r) (cfg h p) = Some (cfg h p') \<and> straight p p' \<and> p_last p' \<in> known p'
       \<and> (safe V (UnaryExpr opr a r) \<longrightarrow>
          computes V (\<lambda>sem :: 'w sem. eval sem (UnaryExpr opr a r)) (in_reg p' (p_last p')) p p')"
      by (intro exI [of _ q]) (simp add: q_def)
  qed
qed

text \<open>The store at the end of an assignment to a variable.\<close>

lemma assign_store:
  assumes "point_ok p1" "r \<in> known p1"
  obtains q new where "gen_assign_store (IdentExpr x r0) r (cfg h p1) = Some (cfg h (set_last r q))" "straight p1 q"
    "r \<in> known q" "p_reg q = p_reg p1" "p_instrs q = p_instrs p1 @ new"
    "\<And>(sem :: 'w sem) args s m v u s'. related p1 s m \<Longrightarrow> in_reg p1 r m v \<Longrightarrow> assign x v s = Some (u, s') \<Longrightarrow>
      \<exists>m'. exec_seq sem args new m = Some m' \<and> related q s' m' \<and> frame (dom (fst s)) p1 m m'
        \<and> dom (fst s') = dom (fst s) \<and> in_reg q r m' u"
proof (cases "p_slots p1 x")
  case None
  show ?thesis
  proof (rule that [of p1 "[]"])
    fix sem :: "'w sem" and args s and m :: "'w Machine" and v u s'
    assume *: "related p1 s m" "assign x v s = Some (u, s')"
    from *(2) related_no_slot [OF *(1) None] have False by (auto simp: assign_def dom_def split: if_splits)
    then show "\<exists>m'. exec_seq sem args [] m = Some m' \<and> related p1 s' m' \<and> frame (dom (fst s)) p1 m m'
        \<and> dom (fst s') = dom (fst s) \<and> in_reg p1 r m' u" ..
  qed (use None assms in \<open>auto simp: gen_assign_store_def straight_refl\<close>)
next
  case (Some slot)
  let ?q = "emit_effect OpStore [fromReg r, fromReg slot] [] p1"
  have rel: "related ?q s m = related p1 s m" for s and m :: "'w Machine"
    by (simp add: related_def allocated_def)
  show ?thesis
  proof (rule that [of ?q "[instr OpStore NoReg [fromReg r, fromReg slot] []]"])
    show "straight p1 ?q" using assms Some by (intro straight_store) (auto dest: point_ok_slot)
    fix sem :: "'w sem" and args s and m :: "'w Machine" and v u s'
    assume *: "related p1 s m" "in_reg p1 r m v" "assign x v s = Some (u, s')"
    then have x: "x \<in> dom (fst s)" "u = v" "s' = ((fst s)(x \<mapsto> v), snd s)" by (auto simp: assign_def split: if_splits)
    then have "dom (fst s') = dom (fst s)" by auto
    with * x related_set_mem [OF *(1) x(1) Some, of v] frame_set_mem [OF *(1) x(1) Some, of v]
    show "\<exists>m'. exec_seq sem args [instr OpStore NoReg [fromReg r, fromReg slot] []] m = Some m' \<and> related ?q s' m'
        \<and> frame (dom (fst s)) p1 m m' \<and> dom (fst s') = dom (fst s) \<and> in_reg ?q r m' u"
      by (auto simp: exec_store rel in_reg_def allocated_def set_mem_def)
  qed (use Some assms in \<open>auto simp: gen_assign_store_def\<close>)
qed


lemma set_last_irrelevant [simp]:
  "related (set_last r p) = related p" "in_reg (set_last r p) = in_reg p" "fits (set_last r p) = fits p"
  "frame V (set_last r p) = frame V p"
  by (auto simp: related_def in_reg_def fits_def allocated_def frame_def fun_eq_iff)

lemma set_last_absorbs [simp]:
  "set_last r (set_last r' p) = set_last r p"
  "set_last r (emit_effect opc ops l (set_last r' p)) = set_last r (emit_effect opc ops l p)"
  by (simp_all add: point_defs)

lemma compiles_assign_simple:
  assumes e: "compiles TYPE('w) V h e"
  shows "compiles TYPE('w) V h (AssignExpr AoAssign (IdentExpr x r0) e r)"
proof (rule compilesI)
  fix p assume p: "point_ok p"
  obtain p1 where p1: "gen_expr e (cfg h p) = Some (cfg h p1)" "straight p p1" "p_last p1 \<in> known p1"
    "safe V e \<longrightarrow> computes V (\<lambda>sem :: 'w sem. eval sem e) (in_reg p1 (p_last p1)) p p1"
    by (rule compilesE [OF e p])
  obtain q new where q: "gen_assign_store (IdentExpr x r0) (p_last p1) (cfg h p1) = Some (cfg h (set_last (p_last p1) q))"
    "straight p1 q" "p_last p1 \<in> known q" "p_reg q = p_reg p1" "p_instrs q = p_instrs p1 @ new"
    "\<And>(sem :: 'w sem) args s m v u s'. related p1 s m \<Longrightarrow> in_reg p1 (p_last p1) m v \<Longrightarrow> assign x v s = Some (u, s') \<Longrightarrow>
      \<exists>m'. exec_seq sem args new m = Some m' \<and> related q s' m' \<and> frame (dom (fst s)) p1 m m'
        \<and> dom (fst s') = dom (fst s) \<and> in_reg q (p_last p1) m' u"
    by (rule assign_store [OF straight_ok [OF p1(2)] p1(3), where x = x and ?r0.0 = r0 and h = h]) blast
  let ?q = "set_last (p_last p1) q"
  have "computes V (\<lambda>sem :: 'w sem. eval sem (AssignExpr AoAssign (IdentExpr x r0) e r)) (in_reg ?q (p_last p1)) p ?q"
    if "safe V e"
  proof (rule computes_bind [OF mp [OF p1(4) that], where new = new])
    fix sem :: "'w sem" and args s0 s and m :: "'w Machine" and y v s'
    assume *: "related p1 s m" "dom (fst s) = V" "in_reg p1 (p_last p1) m y" "eval sem e s0 = Some (y, s)"
      "eval sem (AssignExpr AoAssign (IdentExpr x r0) e r) s0 = Some (v, s')"
    then have "assign x y s = Some (v, s')" by simp
    from q(6) [OF *(1,3) this] *(2)
    show "\<exists>m'. exec_seq sem args new m = Some m' \<and> related ?q s' m' \<and> frame V p1 m m' \<and> dom (fst s') = V
        \<and> in_reg ?q (p_last p1) m' v"
      by auto
  qed (use q(2,4,5) in \<open>auto simp: straight_def split: bind_splits\<close>)
  moreover have "straight p ?q" by (rule straight_set_last [OF straight_trans [OF p1(2) q(2)]])
  moreover have "gen_expr (AssignExpr AoAssign (IdentExpr x r0) e r) (cfg h p) = Some (cfg h ?q)"
    using p1(1) q(1) by simp
  ultimately show "\<exists>p'. gen_expr (AssignExpr AoAssign (IdentExpr x r0) e r) (cfg h p) = Some (cfg h p') \<and> straight p p'
     \<and> p_last p' \<in> known p' \<and> (safe V (AssignExpr AoAssign (IdentExpr x r0) e r) \<longrightarrow>
        computes V (\<lambda>sem :: 'w sem. eval sem (AssignExpr AoAssign (IdentExpr x r0) e r)) (in_reg p' (p_last p')) p p')"
    using q(3) by (intro exI [of _ ?q]) simp
qed

lemma compiles_assign_compound:
  assumes e: "compiles TYPE('w) V h e" and opr: "compound_op opr = Some bop"
  shows "compiles TYPE('w) V h (AssignExpr opr (IdentExpr x r0) e r)"
proof (rule compilesI)
  fix p assume p: "point_ok p"
  have neq: "opr \<noteq> AoAssign" using opr by auto
  have op: "assignOpToOpcode opr = binaryOpToOpcode bop" by (rule eval_compound_op [OF opr])
  obtain p1 where p1: "gen_expr (IdentExpr x r0) (cfg h p) = Some (cfg h p1)" "straight p p1" "p_last p1 \<in> known p1"
    "safe V (IdentExpr x r0) \<longrightarrow> computes V (\<lambda>sem :: 'w sem. eval sem (IdentExpr x r0)) (in_reg p1 (p_last p1)) p p1"
    by (rule compilesE [OF compiles_ident p])
  obtain p2 where p2: "gen_expr e (cfg h p1) = Some (cfg h p2)" "straight p1 p2" "p_last p2 \<in> known p2"
    "safe V e \<longrightarrow> computes V (\<lambda>sem :: 'w sem. eval sem e) (in_reg p2 (p_last p2)) p1 p2"
    by (rule compilesE [OF e straight_ok [OF p1(2)]])
  define p3 where "p3 = result (binaryOpToOpcode bop) [fromReg (p_last p1), fromReg (p_last p2)] [] p2"
  have st3: "straight p p3 \<and> next_reg p2 \<in> known p3"
    unfolding p3_def by (rule straight_result' [OF straight_trans [OF p1(2) p2(2)]])
      (use p1(3) p2(3) straightD [OF p2(2)] in auto)
  obtain q new3 where q: "gen_assign_store (IdentExpr x r0) (next_reg p2) (cfg h p3) = Some (cfg h (set_last (next_reg p2) q))"
    "straight p3 q" "next_reg p2 \<in> known q" "p_reg q = p_reg p3" "p_instrs q = p_instrs p3 @ new3"
    "\<And>(sem :: 'w sem) args s m v u s'. related p3 s m \<Longrightarrow> in_reg p3 (next_reg p2) m v \<Longrightarrow> assign x v s = Some (u, s') \<Longrightarrow>
      \<exists>m'. exec_seq sem args new3 m = Some m' \<and> related q s' m' \<and> frame (dom (fst s)) p3 m m'
        \<and> dom (fst s') = dom (fst s) \<and> in_reg q (next_reg p2) m' u"
    by (rule assign_store [OF straight_ok [OF conjunct1 [OF st3]] conjunct2 [OF st3], where x = x and ?r0.0 = r0 and h = h]) blast
  let ?q = "set_last (next_reg p2) q"
  have gen: "gen_expr (AssignExpr opr (IdentExpr x r0) e r) (cfg h p) = Some (cfg h ?q)"
  proof -
    have "gen_assign_store (IdentExpr x r0) (next_reg p2)
        (cfg h (emit_value (binaryOpToOpcode bop) [fromReg (p_last p1), fromReg (p_last p2)] [] p2)) = Some (cfg h ?q)"
      using q(1) by (simp add: p3_def result_def gen_assign_store_def split: option.splits)
    with p1(1) p2(1) neq op show ?thesis by simp
  qed
  have "computes V (\<lambda>sem :: 'w sem. eval sem (AssignExpr opr (IdentExpr x r0) e r)) (in_reg ?q (next_reg p2)) p ?q"
    if safe: "safe V e"
  proof -
    from mp [OF p2(4) safe] obtain new where new: "p_reg p1 \<le> p_reg p2" "p_slots p2 = p_slots p1" "p_instrs p2 = p_instrs p1 @ new"
      "\<And>(sem :: 'w sem) args s m v s'. fits p2 \<Longrightarrow> related p1 s m \<Longrightarrow> dom (fst s) = V \<Longrightarrow> eval sem e s = Some (v, s') \<Longrightarrow>
        \<exists>m'. exec_seq sem args new m = Some m' \<and> related p2 s' m' \<and> frame V p1 m m' \<and> dom (fst s') = V
          \<and> in_reg p2 (p_last p2) m' v"
      by (rule computesE) blast
    let ?i = "instr (binaryOpToOpcode bop) (next_reg p2) [fromReg (p_last p1), fromReg (p_last p2)] []"
    show ?thesis
    proof (rule computes_bind [OF mp [OF p1(4)], where new = "new @ [?i] @ new3"])
      fix sem :: "'w sem" and args s0 s and m :: "'w Machine" and l v s'
      assume fits: "fits ?q" and rel: "related p1 s m" and dom: "dom (fst s) = V" and l: "in_reg p1 (p_last p1) m l"
        and ev: "eval sem (IdentExpr x r0) s0 = Some (l, s)" "eval sem (AssignExpr opr (IdentExpr x r0) e r) s0 = Some (v, s')"
      from ev opr obtain y s2 u where y: "eval sem e s = Some (y, s2)" "binary_op bop l y = Some u" "assign x u s2 = Some (v, s')"
        by (auto simp del: eval.simps(7) split: bind_splits)
      have fits3: "fits p3" using fits q(4) by (simp add: fits_def)
      have fits2: "fits p2" by (rule fits_mono [OF fits3]) (simp add: p3_def)
      obtain m2 where m2: "exec_seq sem args new m = Some m2" "related p2 s2 m2" "frame V p1 m m2" "dom (fst s2) = V"
          "in_reg p2 (p_last p2) m2 y"
        using new(4) [OF fits2 rel dom y(1)] by blast
      have "m_regs m2 (p_last p1) = l" using m2(3) l by (auto simp: in_reg_def dest: frame_regs)
      with m2(5) y(2) have i: "exec_instr sem args ?i m2 = Some (set_reg (next_reg p2) u (m2\<lparr>m_world := m_world m2\<rparr>))"
        by (simp add: exec_operator in_reg_def set_reg_world)
      have w: "(fst s2, m_world m2) = s2" using m2(2) by (simp add: related_def)
      obtain m3 where m3: "exec_seq sem args [?i] m2 = Some m3" "related p3 s2 m3" "frame V p2 m2 m3" "in_reg p3 (next_reg p2) m3 u"
        using result_step [OF m2(2) _ i, of V] fits3 unfolding w p3_def by blast
      obtain m4 where m4: "exec_seq sem args new3 m3 = Some m4" "related q s' m4" "frame V p3 m3 m4" "dom (fst s') = V"
          "in_reg q (next_reg p2) m4 v"
        using q(6) [OF m3(2,4) y(3)] m2(4) by blast
      have "frame V p1 m m4"
        by (rule frame_trans [OF m2(3) frame_trans [OF m3(3) m4(3)]]) (use new(1,2) in \<open>simp_all add: p3_def\<close>)
      moreover have "exec_seq sem args (new @ [?i] @ new3) m = Some m4"
        by (simp only: exec_seq_append m2(1) m3(1) m4(1) Option.bind.simps)
      ultimately show "\<exists>m'. exec_seq sem args (new @ [?i] @ new3) m = Some m' \<and> related ?q s' m' \<and> frame V p1 m m'
          \<and> dom (fst s') = V \<and> in_reg ?q (next_reg p2) m' v"
        using m4(2,4,5) by (simp del: exec_seq_append)
    qed (use new(1-3) q(2,4,5) opr in \<open>auto simp: p3_def straight_def simp del: eval.simps(7) split: bind_splits\<close>)
  qed
  moreover have "straight p ?q" by (rule straight_set_last [OF straight_trans [OF conjunct1 [OF st3] q(2)]])
  ultimately show "\<exists>p'. gen_expr (AssignExpr opr (IdentExpr x r0) e r) (cfg h p) = Some (cfg h p') \<and> straight p p'
     \<and> p_last p' \<in> known p' \<and> (safe V (AssignExpr opr (IdentExpr x r0) e r) \<longrightarrow>
        computes V (\<lambda>sem :: 'w sem. eval sem (AssignExpr opr (IdentExpr x r0) e r)) (in_reg p' (p_last p')) p p')"
    using gen q(3) by (intro exI [of _ ?q]) simp
qed


lemma compiles_args:
  assumes "\<And>e. e \<in> set es \<Longrightarrow> compiles TYPE('w) V h e" "point_ok p"
  shows "\<exists>rs p'. gen_args es (cfg h p) = Some (rs, cfg h p') \<and> straight p p' \<and> set rs \<subseteq> known p'
    \<and> (list_all (safe V) es \<longrightarrow> computes V (\<lambda>sem :: 'w sem. eval_list sem es) (\<lambda>m vs. list_all2 (\<lambda>r. in_reg p' r m) rs vs) p p')"
  using assms
proof (induction es arbitrary: p)
  case Nil
  have "computes V (\<lambda>sem :: 'w sem. eval_list sem []) (\<lambda>m vs. list_all2 (\<lambda>r. in_reg p r m) [] vs) p p"
    by (rule computesI [where new = "[]"]) (auto simp: frame_refl)
  with Nil show ?case by (intro exI [of _ "[]"] exI [of _ p]) (simp add: straight_refl del: eval_list.simps)
next
  case (Cons e es)
  have e: "compiles TYPE('w) V h e" by (rule Cons.prems) simp
  obtain p1 where p1: "gen_expr e (cfg h p) = Some (cfg h p1)" "straight p p1" "p_last p1 \<in> known p1"
    "safe V e \<longrightarrow> computes V (\<lambda>sem :: 'w sem. eval sem e) (in_reg p1 (p_last p1)) p p1"
    by (rule compilesE [OF e Cons.prems(2)])
  have "\<exists>rs p'. gen_args es (cfg h p1) = Some (rs, cfg h p') \<and> straight p1 p' \<and> set rs \<subseteq> known p'
    \<and> (list_all (safe V) es \<longrightarrow> computes V (\<lambda>sem :: 'w sem. eval_list sem es) (\<lambda>m vs. list_all2 (\<lambda>r. in_reg p' r m) rs vs) p1 p')"
    using Cons.prems(1) by (intro Cons.IH straight_ok [OF p1(2)]) auto
  then obtain rs p2 where p2: "gen_args es (cfg h p1) = Some (rs, cfg h p2)" "straight p1 p2" "set rs \<subseteq> known p2"
    "list_all (safe V) es \<longrightarrow> computes V (\<lambda>sem :: 'w sem. eval_list sem es) (\<lambda>m vs. list_all2 (\<lambda>r. in_reg p2 r m) rs vs) p1 p2"
    by blast
  have "computes V (\<lambda>sem :: 'w sem. eval_list sem (e # es)) (\<lambda>m vs. list_all2 (\<lambda>r. in_reg p2 r m) (p_last p1 # rs) vs) p p2"
    if safe: "list_all (safe V) (e # es)"
  proof -
    have "safe V e" "list_all (safe V) es" using safe by auto
    from mp [OF p2(4) this(2)] obtain new where new: "p_reg p1 \<le> p_reg p2" "p_slots p2 = p_slots p1" "p_instrs p2 = p_instrs p1 @ new"
      "\<And>(sem :: 'w sem) args s m v s'. fits p2 \<Longrightarrow> related p1 s m \<Longrightarrow> dom (fst s) = V \<Longrightarrow> eval_list sem es s = Some (v, s') \<Longrightarrow>
        \<exists>m'. exec_seq sem args new m = Some m' \<and> related p2 s' m' \<and> frame V p1 m m' \<and> dom (fst s') = V
          \<and> list_all2 (\<lambda>r. in_reg p2 r m') rs v"
      by (rule computesE) blast
    show ?thesis
    proof (rule computes_bind [OF mp [OF p1(4) \<open>safe V e\<close>], where new = new])
      fix sem :: "'w sem" and args s0 s and m :: "'w Machine" and x vs s'
      assume fits: "fits p2" and rel: "related p1 s m" and dom: "dom (fst s) = V" and x: "in_reg p1 (p_last p1) m x"
        and ev: "eval sem e s0 = Some (x, s)" "eval_list sem (e # es) s0 = Some (vs, s')"
      then obtain ys where ys: "eval_list sem es s = Some (ys, s')" "vs = x # ys" by (auto split: bind_splits)
      obtain m2 where m2: "exec_seq sem args new m = Some m2" "related p2 s' m2" "frame V p1 m m2" "dom (fst s') = V"
          "list_all2 (\<lambda>r. in_reg p2 r m2) rs ys"
        using new(4) [OF fits rel dom ys(1)] by blast
      have "in_reg p2 (p_last p1) m2 x"
        using m2(3) x new(1) by (auto simp: in_reg_def dest: frame_regs intro: allocated_mono)
      with m2 ys(2) show "\<exists>m'. exec_seq sem args new m = Some m' \<and> related p2 s' m' \<and> frame V p1 m m'
          \<and> dom (fst s') = V \<and> list_all2 (\<lambda>r. in_reg p2 r m') (p_last p1 # rs) vs"
        by auto
    qed (use new(1-3) in \<open>auto split: bind_splits\<close>)
  qed
  moreover have "set (p_last p1 # rs) \<subseteq> known p2" using p1(3) p2(3) straightD [OF p2(2)] by auto
  ultimately show ?case using p1(1) p2(1) straight_trans [OF p1(2) p2(2)]
    by (intro exI [of _ "p_last p1 # rs"] exI [of _ p2]) (simp del: eval_list.simps)
qed

lemma compiles_call:
  assumes "\<And>e. e \<in> set es \<Longrightarrow> compiles TYPE('w) V h e"
  shows "compiles TYPE('w) V h (CallExpr (IdentExpr f r0) es r)"
proof (rule compilesI)
  fix p assume p: "point_ok p"
  obtain rs p1 where p1: "gen_args es (cfg h p) = Some (rs, cfg h p1)" "straight p p1" "set rs \<subseteq> known p1"
    "list_all (safe V) es \<longrightarrow> computes V (\<lambda>sem :: 'w sem. eval_list sem es) (\<lambda>m vs. list_all2 (\<lambda>r. in_reg p1 r m) rs vs) p p1"
    using compiles_args [OF assms p] by blast
  define q where "q = result OpCall (map fromReg rs) f p1"
  let ?i = "instr OpCall (next_reg p1) (map fromReg rs) f"
  have "computes V (\<lambda>sem :: 'w sem. eval sem (CallExpr (IdentExpr f r0) es r)) (in_reg q (next_reg p1)) p q"
    if "list_all (safe V) es"
  proof (rule computes_bind [OF mp [OF p1(4) that], where new = "[?i]"])
    fix sem :: "'w sem" and args s0 s and m :: "'w Machine" and vs v s'
    assume fits: "fits q" and rel: "related p1 s m" and dom: "dom (fst s) = V" and vs: "list_all2 (\<lambda>r. in_reg p1 r m) rs vs"
      and ev: "eval_list sem es s0 = Some (vs, s)" "eval sem (CallExpr (IdentExpr f r0) es r) s0 = Some (v, s')"
    then have c: "call sem f vs s = Some (v, s')" by simp
    have "map (m_regs m) rs = vs" using vs by (induction rs vs rule: list_all2_induct) (auto simp: in_reg_def)
    then have i: "exec_instr sem args ?i m = Some (set_reg (next_reg p1) v (m\<lparr>m_world := snd s'\<rparr>))"
      using c rel by (intro exec_call) (auto simp: call_def related_def)
    have "(fst s, snd s') = s'" "fst s' = fst s" using c by (auto simp: call_def)
    with result_step [OF rel _ i, of V] fits dom
    show "\<exists>m'. exec_seq sem args [?i] m = Some m' \<and> related q s' m' \<and> frame V p1 m m' \<and> dom (fst s') = V
        \<and> in_reg q (next_reg p1) m' v"
      by (auto simp: q_def)
  qed (auto simp: q_def split: bind_splits)
  moreover have "straight p q \<and> next_reg p1 \<in> known q"
    unfolding q_def by (rule straight_result' [OF p1(2)]) (use p1(3) in auto)
  moreover have "gen_expr (CallExpr (IdentExpr f r0) es r) (cfg h p) = Some (cfg h q)"
    using p1(1) by (simp add: q_def result_def)
  ultimately show "\<exists>p'. gen_expr (CallExpr (IdentExpr f r0) es r) (cfg h p) = Some (cfg h p') \<and> straight p p' \<and> p_last p' \<in> known p'
     \<and> (safe V (CallExpr (IdentExpr f r0) es r) \<longrightarrow>
        computes V (\<lambda>sem :: 'w sem. eval sem (CallExpr (IdentExpr f r0) es r)) (in_reg p' (p_last p')) p p')"
    by (intro exI [of _ q]) (simp add: q_def)
qed

lemma compiles_expr:
  fixes t :: TypeNode
  shows "True" and "compiles TYPE('w) V h e"
proof (induction t and e)
  case (AssignExpr opr target e r)
  show ?case
  proof (cases "\<exists>x r0. target = IdentExpr x r0")
    case True
    with AssignExpr show ?thesis
      by (cases "compound_op opr"; cases opr) (auto intro: compiles_assign_simple compiles_assign_compound)
  next
    case False
    then show ?thesis by (intro compiles_unspecified) (cases target; simp)
  qed
next
  case (CallExpr callee es r)
  show ?case
  proof (cases "\<exists>x r0. callee = IdentExpr x r0")
    case True
    with CallExpr show ?thesis by (auto intro: compiles_call)
  next
    case False
    then show ?thesis by (intro compiles_unspecified) (cases callee; simp)
  qed
qed (auto intro: compiles_literals compiles_ident compiles_binary compiles_unary compiles_unspecified)

end
