(* ===== verification/Vcc_IrGen_Points.thy ===== *)
theory Vcc_IrGen_Points
  imports Vcc_IrGen_Exprs
begin

text \<open>
  What correct lowering of a statement means: where in a finished function the code of a point is, how
  the scopes of the source and the slots of the generator evolve together, and how an execution that
  starts at one point ends at another. Expressions are restated in these terms.
\<close>

section \<open>Positions in a finished function\<close>

text \<open>The function \<open>f\<close> has the code of the point, and \<open>k\<close> is what follows in the current block.\<close>

definition at_point :: "IRFunction \<Rightarrow> Point \<Rightarrow> IRInstruction list \<Rightarrow> bool" where
  "at_point f p k \<longleftrightarrow> distinct (block_labels f) \<and>
     (\<exists>more. fn_blocks f = p_done p @ \<lparr>bb_label = p_label p, bb_instrs = p_instrs p @ k\<rparr> # more)"

lemma block_at_member:
  "distinct (block_labels f) \<Longrightarrow> b \<in> set (fn_blocks f) \<Longrightarrow> block_at f (bb_label b) = Some (bb_instrs b)"
  unfolding block_at_def block_labels_def by (rule map_of_is_SomeI) (auto simp: comp_def)

lemma at_point_block: "at_point f p k \<Longrightarrow> block_at f (p_label p) = Some (p_instrs p @ k)"
  using block_at_member [of f "\<lparr>bb_label = p_label p, bb_instrs = p_instrs p @ k\<rparr>"] by (auto simp: at_point_def)

lemma at_point_unique: "at_point f p k \<Longrightarrow> at_point f p k' \<Longrightarrow> k = k'"
  by (drule at_point_block)+ simp

lemma at_point_back:
  "at_point f p' k \<Longrightarrow> p_done p' = p_done p \<Longrightarrow> p_label p' = p_label p \<Longrightarrow> p_instrs p' = p_instrs p @ new
    \<Longrightarrow> at_point f p (new @ k)"
  by (simp add: at_point_def)

lemma at_point_start: "at_point f (start l p) k \<Longrightarrow> at_point f p []"
  by (auto simp: at_point_def p_blocks_def)

lemma at_point_effect: "at_point f (emit_effect opc ops l p) k \<Longrightarrow> at_point f p (instr opc NoReg ops l # k)"
  by (simp add: at_point_def)

lemma at_point_value: "at_point f (emit_value opc ops l p) k \<Longrightarrow> at_point f p (instr opc (next_reg p) ops l # k)"
  by (simp add: at_point_def)

lemma at_point_same [simp]:
  "at_point f (fresh p) k = at_point f p k" "at_point f (set_last r p) k = at_point f p k"
  "at_point f (bind_slot x r p) k = at_point f p k"
  by (simp_all add: at_point_def)

lemma at_point_jump: "at_point f (start l (emit_effect opc ops x p)) k \<Longrightarrow> at_point f p [instr opc NoReg ops x]"
  by (intro at_point_effect) (rule at_point_start)

lemma at_point_started: "at_point f (start l p) k \<Longrightarrow> block_at f l = Some k"
  using at_point_block [of f "start l p" k] by simp

text \<open>Steps.\<close>

lemma exec_steps:
  "exec_seq sem args new m = Some m' \<Longrightarrow> \<forall>i \<in> set new. \<not> isTerminator i \<Longrightarrow>
    ir_steps sem args f (Run (new @ k) m) (Run k m')"
proof (induction new arbitrary: m)
  case (Cons i new)
  then obtain m1 where "exec_instr sem args i m = Some m1" "exec_seq sem args new m1 = Some m'"
    by (auto split: bind_splits)
  with Cons show ?case by (auto intro: converse_rtranclp_into_rtranclp ir_step.plain)
qed simp

lemma goto_steps:
  assumes "at_point f p k" "at_point f (start l (emit_effect OpBranch [] x p)) k1" "block_at f x = Some kx"
  shows "ir_steps sem args f (Run k m) (Run kx m)"
proof -
  have "k = [instr OpBranch NoReg [] x]" using assms(1) at_point_jump [OF assms(2)] by (rule at_point_unique)
  then show ?thesis by (auto intro!: r_into_rtranclp ir_step.branch simp: assms(3))
qed

lemma cond_steps:
  assumes "at_point f p k" "at_point f (start l (emit_effect OpCondBranch [fromReg r] (l1 @ '','' @ l2) p)) kl"
    and "CHR '','' \<notin> set l1" "block_at f l1 = Some k1" "block_at f l2 = Some k2"
  shows "ir_steps sem args f (Run k m) (Run (if m_regs m r \<noteq> 0 then k1 else k2) m)"
proof -
  have k: "k = [instr OpCondBranch NoReg [fromReg r] (l1 @ '','' @ l2)]"
    using assms(1) at_point_jump [OF assms(2)] by (rule at_point_unique)
  have val: "operand_value sem m (fromReg r) = m_regs m r" by (simp add: operand_value_def)
  show ?thesis
  proof (cases "m_regs m r = 0")
    case True
    have "ir_step sem args f (Run k m) (Run k2 m)" unfolding k
      by (rule ir_step.cond_false [where x = "fromReg r", OF _ _ _ assms(3) _ assms(5)]) (simp_all add: True val)
    with True show ?thesis by auto
  next
    case False
    have "ir_step sem args f (Run k m) (Run k1 m)" unfolding k
      by (rule ir_step.cond_true [where x = "fromReg r", OF _ _ _ assms(3) _ assms(4)]) (simp_all add: False val)
    with False show ?thesis by auto
  qed
qed


section \<open>The scope of a statement\<close>

text \<open>
  \<open>binds st\<close> is what a statement adds to the scope it is in. \<open>clear V st\<close>: with the variables \<open>V\<close> in
  scope, no declaration in \<open>st\<close> shadows one (the generator keeps one slot per name), and the right
  operands of \<open>&&\<close> and \<open>||\<close> are harmless. A \<open>for\<close> loop is never clear.
\<close>

fun binds :: "Stmt \<Rightarrow> string set" where
  "binds (DeclStmt (VarDecl _ x _ _ _) _) = {x}"
| "binds _ = {}"

fun clear :: "string set \<Rightarrow> Stmt \<Rightarrow> bool"
  and clear_list :: "string set \<Rightarrow> Stmt list \<Rightarrow> bool"
  and clear_arms :: "string set \<Rightarrow> MatchArm list \<Rightarrow> bool" where
  "clear V (BlockStmt ss _) = clear_list V ss"
| "clear V (ExprStmt e _) = safe V e"
| "clear V (DeclStmt d _) =
     (case d of VarDecl _ x _ (Some e) _ \<Rightarrow> x \<notin> V \<and> safe V e | VarDecl _ x _ None _ \<Rightarrow> x \<notin> V | _ \<Rightarrow> True)"
| "clear V (ReturnStmt v _) = (case v of None \<Rightarrow> True | Some e \<Rightarrow> safe V e)"
| "clear V (IfStmt c t e _) = (safe V c \<and> clear V t \<and> (case e of None \<Rightarrow> True | Some s \<Rightarrow> clear V s))"
| "clear V (WhileStmt c b _) = (safe V c \<and> clear V b)"
| "clear V (VloopStmt c b _) = (safe V c \<and> clear V b)"
| "clear V (ForStmt _ _ _ _) = False"
| "clear V (BreakStmt _) = True"
| "clear V (ContinueStmt _) = True"
| "clear V (MatchStmt e as _) = (safe V e \<and> clear_arms V as)"
| "clear_list V [] = True"
| "clear_list V (st # ss) = (clear V st \<and> clear_list (V \<union> binds st) ss)"
| "clear_arms V [] = True"
| "clear_arms V (MatchArm p b # as) = ((case p of None \<Rightarrow> True | Some e \<Rightarrow> safe V e) \<and> clear V b \<and> clear_arms V as)"

text \<open>
  From \<open>p\<close> to \<open>p'\<close> the slots of \<open>V\<close> stay, those of the variables \<open>B\<close> are new, and a function that
  has the code of \<open>p'\<close> has that of \<open>p\<close>.
\<close>

definition kept :: "string set \<Rightarrow> string set \<Rightarrow> Point \<Rightarrow> Point \<Rightarrow> bool" where
  "kept V B p p' \<longleftrightarrow> point_ok p' \<and> known p \<subseteq> known p' \<and> p_reg p \<le> p_reg p' \<and> (\<forall>x \<in> V. p_slots p' x = p_slots p x)
     \<and> (fits p' \<longrightarrow> (\<forall>x \<in> B. \<forall>r. p_slots p' x = Some r \<longrightarrow> \<not> allocated p r))
     \<and> (\<forall>f k'. at_point f p' k' \<longrightarrow> (\<exists>k. at_point f p k))"

lemma keptD:
  assumes "kept V B p p'"
  shows "point_ok p'" "p_reg p \<le> p_reg p'" "x \<in> V \<Longrightarrow> p_slots p' x = p_slots p x"
    "fits p' \<Longrightarrow> x \<in> B \<Longrightarrow> p_slots p' x = Some r \<Longrightarrow> \<not> allocated p r"
    "at_point f p' k' \<Longrightarrow> \<exists>k. at_point f p k" "fits p' \<Longrightarrow> fits p" "r \<in> known p \<Longrightarrow> r \<in> known p'"
  using assms fits_mono [of p' p] unfolding kept_def by blast+

lemma kept_refl: "point_ok p \<Longrightarrow> kept V {} p p"
  by (auto simp: kept_def)

lemma kept_straight: "point_ok p \<Longrightarrow> straight p p' \<Longrightarrow> kept V {} p p'"
  unfolding kept_def using straight_reg [of p p'] straight_ok [of p p']
  by (auto simp: straight_def intro: at_point_back)

lemma kept_trans:
  assumes "kept V B p p1" "kept (V \<union> B) B' p1 p2"
  shows "kept V (B \<union> B') p p2"
proof -
  have "\<not> allocated p r" if "fits p2" "x \<in> B \<union> B'" "p_slots p2 x = Some r" for x r
  proof (cases "x \<in> B")
    case True
    then show ?thesis using keptD(3) [OF assms(2), of x] keptD(4) [OF assms(1), of x r] keptD(6) [OF assms(2)] that by auto
  next
    case False
    then show ?thesis using keptD(4) [OF assms(2), of x r] that keptD(2) [OF assms(1)] by (auto dest: allocated_mono)
  qed
  with assms show ?thesis unfolding kept_def by (metis UnCI le_trans subset_trans)
qed

lemma kept_weaken: "kept V B p p' \<Longrightarrow> V' \<subseteq> V \<Longrightarrow> B' \<subseteq> B \<Longrightarrow> kept V' B' p p'"
  unfolding kept_def by (metis subsetD)

lemma kept_local: "kept V B p p1 \<Longrightarrow> kept V B' p1 p2 \<Longrightarrow> kept V {} p p2"
  by (rule kept_weaken [OF kept_trans [of V "{}" p p1 B' p2]]) (auto elim: kept_weaken)

lemma kept_fresh: "kept V B p q \<Longrightarrow> kept V B p (fresh q)"
  by (simp add: kept_def fits_def)

lemma kept_jump:
  assumes "point_ok p" "opc \<in> {OpRet, OpBranch, OpCondBranch}" "reads (instr opc NoReg ops x) \<subseteq> known p"
  shows "kept V {} p (start l (emit_effect opc ops x p))"
  using point_ok_jump [OF assms] assms(2) by (auto simp: kept_def dest: at_point_jump)

lemma frame_earlier: "frame V p1 m m' \<Longrightarrow> kept V B p p1 \<Longrightarrow> frame V p m m'"
  unfolding frame_def kept_def by (metis allocated_mono)

lemma frame_kept:
  assumes "frame (V \<union> B) p1 m m'" "kept V B p p1" "fits p1"
  shows "frame V p m m'"
  unfolding frame_def
proof (intro conjI allI impI)
  fix r assume r: "allocated p r"
  then have r1: "allocated p1 r" using keptD(2) [OF assms(2)] by (rule allocated_mono)
  then show "m_regs m' r = m_regs m r" using assms(1) by (simp add: frame_def)
  assume "\<forall>x \<in> V. p_slots p x \<noteq> Some r"
  then have "\<forall>x \<in> V \<union> B. p_slots p1 x \<noteq> Some r"
    using keptD(3) [OF assms(2)] keptD(4) [OF assms(2,3)] r by (metis Un_iff)
  with r1 show "m_mem m' (ucast r) = m_mem m (ucast r)" using assms(1) by (simp add: frame_def)
qed

lemma frame_join: "frame V p m m1 \<Longrightarrow> frame V p m1 m2 \<Longrightarrow> frame V p m m2"
  by (rule frame_trans) auto

lemma end_scope_simps [simp]:
  "snd (end_scope s s') = snd s'" "fst (end_scope s s') = fst s' |` dom (fst s)"
  by (simp_all add: end_scope_def)

lemma related_later:
  assumes "related p s m" "kept (dom (fst s)) B p p'"
  shows "related p' s m"
proof -
  have slots: "p_slots p' x = p_slots p x" if "x \<in> dom (fst s)" for x using keptD(3) [OF assms(2) that] .
  then have "inj_on (p_slots p') (dom (fst s)) = inj_on (p_slots p) (dom (fst s))" by (rule inj_on_cong)
  with assms slots keptD(2) [OF assms(2)] show ?thesis
    unfolding related_def by (metis allocated_mono domI)
qed

lemma end_scope_same: "dom (fst s') = dom (fst s) \<Longrightarrow> end_scope s s' = s'"
  by (cases s') (auto simp: end_scope_def restrict_map_def fun_eq_iff dest: sym)

text \<open>At the end of a scope the variables that were there before are where they were.\<close>

lemma related_end_scope:
  assumes "related p' s' m'" "related p s m" "kept V B p p'" "frame V p m m'" "dom (fst s) = V" "V \<subseteq> dom (fst s')"
  shows "related p (end_scope s s') m'" "dom (fst (end_scope s s')) = V"
proof -
  show dom: "dom (fst (end_scope s s')) = V" using assms(5,6) by auto
  have "\<exists>r. p_slots p x = Some r \<and> allocated p r \<and> m_regs m' r = ucast r \<and> m_mem m' (ucast r) = v"
    if v: "fst (end_scope s s') x = Some v" for x v
  proof -
    have x: "x \<in> V" "fst s' x = Some v" using v assms(5) by (auto simp: restrict_map_def split: if_splits)
    then obtain r where r: "p_slots p x = Some r" "allocated p r" using assms(2,5) unfolding related_def by blast
    then have "p_slots p' x = Some r" using keptD(3) [OF assms(3) x(1)] by simp
    with assms(1) x(2) r show ?thesis unfolding related_def by fastforce
  qed
  moreover have "inj_on (p_slots p) (dom (fst (end_scope s s')))" "m_world m' = snd (end_scope s s')"
    using assms(1,2,5) dom by (auto simp: related_def)
  ultimately show "related p (end_scope s s') m'" unfolding related_def by blast
qed


section \<open>Correct lowering of a statement\<close>

text \<open>
  Execution from \<open>k\<close> ends as \<open>out\<close> says: it comes to \<open>k'\<close> in a state related to \<open>s'\<close>, at the slots of
  \<open>q\<close>, or it halts with the value that was returned.
\<close>

definition ends :: "'w sem \<Rightarrow> i64 list \<Rightarrow> IRFunction \<Rightarrow> string set \<Rightarrow> string set \<Rightarrow> Point \<Rightarrow> Point
    \<Rightarrow> IRInstruction list \<Rightarrow> IRInstruction list \<Rightarrow> 'w Machine \<Rightarrow> ending \<Rightarrow> 'w source_state \<Rightarrow> bool" where
  "ends sem args f V W p q k k' m out s' \<longleftrightarrow>
     (case out of
        Normal \<Rightarrow> \<exists>m'. ir_steps sem args f (Run k m) (Run k' m') \<and> related q s' m' \<and> frame V p m m' \<and> dom (fst s') = W
      | Returned v \<Rightarrow> ir_steps sem args f (Run k m) (Halt v (snd s')))"

lemma ends_NormalI:
  "ir_steps sem args f (Run k m) (Run k' m') \<Longrightarrow> related q s' m' \<Longrightarrow> frame V p m m' \<Longrightarrow> dom (fst s') = W
    \<Longrightarrow> ends sem args f V W p q k k' m Normal s'"
  by (auto simp: ends_def)

lemma ends_NormalE:
  assumes "ends sem args f V W p q k k' m Normal s'"
  obtains m' where "ir_steps sem args f (Run k m) (Run k' m')" "related q s' m'" "frame V p m m'" "dom (fst s') = W"
  using assms by (auto simp: ends_def)

lemma ends_Returned [simp]:
  "ends sem args f V W p q k k' m (Returned v) s' = ir_steps sem args f (Run k m) (Halt v (snd s'))"
  by (simp add: ends_def)

lemma ends_after:
  assumes "ir_steps sem args f (Run k0 m0) (Run k m)" "frame V p m0 m" "ends sem args f V W p q k k' m out s'"
  shows "ends sem args f V W p q k0 k' m0 out s'"
proof (cases out)
  case Normal
  with assms show ?thesis by (auto elim!: ends_NormalE intro!: ends_NormalI intro: frame_join rtranclp_trans)
next
  case (Returned v)
  with assms show ?thesis by (auto intro: rtranclp_trans)
qed

lemma ends_goto:
  assumes "ends sem args f V W p q k k' m out s'" "\<And>m. ir_steps sem args f (Run k' m) (Run k'' m)"
  shows "ends sem args f V W p q k k'' m out s'"
proof (cases out)
  case Normal
  with assms show ?thesis by (auto elim!: ends_NormalE intro!: ends_NormalI intro: rtranclp_trans)
next
  case (Returned v)
  with assms show ?thesis by simp
qed

lemma ends_earlier: "ends sem args f V W p1 q k k' m out s' \<Longrightarrow> kept V B p p1 \<Longrightarrow> ends sem args f V W p q k k' m out s'"
  by (cases out) (auto simp: ends_def intro: frame_earlier)

lemma ends_kept:
  "ends sem args f (V \<union> B) W p1 q k k' m out s' \<Longrightarrow> kept V B p p1 \<Longrightarrow> fits p1 \<Longrightarrow> ends sem args f V W p q k k' m out s'"
  by (cases out) (auto simp: ends_def intro: frame_kept)

lemma ends_later: "ends sem args f V W p q k k' m out s' \<Longrightarrow> kept W B q q' \<Longrightarrow> ends sem args f V W p q' k k' m out s'"
  by (cases out) (auto simp: ends_def intro: related_later)

lemma ends_scope:
  assumes "ends sem args f V W p q k k' m out s'" "related p s m" "dom (fst s) = V" "kept V B p q" "V \<subseteq> W"
  shows "ends sem args f V V p p k k' m out (end_scope s s')"
proof (cases out)
  case Normal
  with assms(1) obtain m' where m': "ir_steps sem args f (Run k m) (Run k' m')" "related q s' m'" "frame V p m m'" "dom (fst s') = W"
    by (auto elim: ends_NormalE)
  show ?thesis unfolding Normal
    by (rule ends_NormalI [OF m'(1) _ m'(3)]) (use related_end_scope [OF m'(2) assms(2,4) m'(3)] m'(4) assms(3,5) in auto)
qed (use assms in simp)

text \<open>
  \<open>runs\<close>: execution from \<open>p\<close> to \<open>p'\<close> does what \<open>X\<close> does on source states with the variables \<open>V\<close>,
  and adds the variables \<open>B\<close>. \<open>correct\<close>: so does the code that the generator step \<open>g\<close> emits.
\<close>

definition runs :: "string set \<Rightarrow> string set \<Rightarrow> ('w sem \<Rightarrow> 'w source_state \<Rightarrow> ending \<Rightarrow> 'w source_state \<Rightarrow> bool)
    \<Rightarrow> Point \<Rightarrow> Point \<Rightarrow> bool" where
  "runs V B X p p' \<longleftrightarrow> (\<forall>f k k' sem args s m out s'. at_point f p k \<longrightarrow> at_point f p' k' \<longrightarrow> fits p' \<longrightarrow>
     related p s m \<longrightarrow> dom (fst s) = V \<longrightarrow> X sem s out s' \<longrightarrow> ends sem args f V (V \<union> B) p p' k k' m out s')"

lemma runsI:
  assumes "\<And>f k k' sem args s m out s'. at_point f p k \<Longrightarrow> at_point f p' k' \<Longrightarrow> fits p' \<Longrightarrow>
     related p s m \<Longrightarrow> dom (fst s) = V \<Longrightarrow> X sem s out s' \<Longrightarrow> ends sem args f V (V \<union> B) p p' k k' m out s'"
  shows "runs V B X p p'"
  using assms unfolding runs_def by blast

lemma runsD:
  "runs V B X p p' \<Longrightarrow> at_point f p k \<Longrightarrow> at_point f p' k' \<Longrightarrow> fits p' \<Longrightarrow>
     related p s m \<Longrightarrow> dom (fst s) = V \<Longrightarrow> X sem s out s' \<Longrightarrow> ends sem args f V (V \<union> B) p p' k k' m out s'"
  unfolding runs_def by blast

definition correct :: "string set \<Rightarrow> string set \<Rightarrow> (IRGen \<Rightarrow> IRGen option)
    \<Rightarrow> ('w sem \<Rightarrow> 'w source_state \<Rightarrow> ending \<Rightarrow> 'w source_state \<Rightarrow> bool) \<Rightarrow> home \<Rightarrow> bool" where
  "correct V B g X h \<longleftrightarrow>
     (\<forall>p. point_ok p \<longrightarrow> (\<exists>p'. g (cfg h p) = Some (cfg h p') \<and> kept V B p p' \<and> runs V B X p p'))"

lemma correctE:
  assumes "correct V B g X h" "point_ok p"
  obtains p' where "g (cfg h p) = Some (cfg h p')" "kept V B p p'" "runs V B X p p'"
  using assms unfolding correct_def by blast

text \<open>Expressions, in these terms.\<close>

lemma expr_runs:
  fixes V :: "string set" and h :: home
  assumes "point_ok p" "safe V e"
  obtains p' where "gen_expr e (cfg h p) = Some (cfg h p')" "straight p p'" "kept V {} p p'" "p_last p' \<in> known p'"
    "\<And>f k k' (sem :: 'w sem) args s m v s'. at_point f p k \<Longrightarrow> at_point f p' k' \<Longrightarrow> fits p' \<Longrightarrow> related p s m \<Longrightarrow>
       dom (fst s) = V \<Longrightarrow> eval sem e s = Some (v, s') \<Longrightarrow>
       \<exists>m'. ir_steps sem args f (Run k m) (Run k' m') \<and> related p' s' m' \<and> frame V p m m' \<and> dom (fst s') = V
         \<and> in_reg p' (p_last p') m' v"
proof -
  obtain p' where p': "gen_expr e (cfg h p) = Some (cfg h p')" "straight p p'" "p_last p' \<in> known p'"
    "safe V e \<longrightarrow> computes V (\<lambda>sem :: 'w sem. eval sem e) (in_reg p' (p_last p')) p p'"
    using compiles_expr(2) assms(1) by (rule compilesE)
  from mp [OF p'(4) assms(2)] obtain new where new: "p_instrs p' = p_instrs p @ new"
      "\<And>(sem :: 'w sem) args s m v s'. fits p' \<Longrightarrow> related p s m \<Longrightarrow> dom (fst s) = V \<Longrightarrow> eval sem e s = Some (v, s') \<Longrightarrow>
        \<exists>m'. exec_seq sem args new m = Some m' \<and> related p' s' m' \<and> frame V p m m' \<and> dom (fst s') = V
          \<and> in_reg p' (p_last p') m' v"
    by (rule computesE) blast
  have nt: "\<forall>i \<in> set new. \<not> isTerminator i" using straight_ok [OF p'(2)] new(1) by (auto simp: point_ok_def)
  have before: "at_point f p (new @ k')" if "at_point f p' k'" for f k'
    by (rule at_point_back [OF that _ _ new(1)]) (use p'(2) in \<open>simp_all add: straight_def\<close>)
  show ?thesis
  proof (rule that [OF p'(1,2) kept_straight [OF assms(1) p'(2)] p'(3)])
    fix f k k' and sem :: "'w sem" and args s and m :: "'w Machine" and v s'
    assume *: "at_point f p k" "at_point f p' k'" "fits p'" "related p s m" "dom (fst s) = V" "eval sem e s = Some (v, s')"
    have k: "k = new @ k'" using *(1) before [OF *(2)] by (rule at_point_unique)
    from new(2) [OF *(3-6)] exec_steps [OF _ nt]
    show "\<exists>m'. ir_steps sem args f (Run k m) (Run k' m') \<and> related p' s' m' \<and> frame V p m m' \<and> dom (fst s') = V
         \<and> in_reg p' (p_last p') m' v"
      unfolding k by blast
  qed
qed

end
