(* ===== verification/Vcc_IrGen_Stmts.thy ===== *)
theory Vcc_IrGen_Stmts
  imports Vcc_IrGen_Points
begin

text \<open>
  Correct lowering of the statement forms without loops: sequences, blocks, expressions, returns and
  variable declarations.
\<close>

section \<open>Straight-line statements\<close>

lemma correctI:
  assumes "\<And>p. point_ok p \<Longrightarrow> \<exists>p'. g (cfg h p) = Some (cfg h p') \<and> kept V B p p' \<and> runs V B X p p'"
  shows "correct V B g X h"
  using assms unfolding correct_def by blast

lemma correct_Nil: "correct V {} (gen_stmts []) (\<lambda>sem :: 'w sem. execs sem []) h"
proof (rule correctI)
  fix p assume p: "point_ok p"
  have "runs V {} (\<lambda>sem :: 'w sem. execs sem []) p p"
    by (rule runsI) (auto elim!: execs_nilE intro!: ends_NormalI frame_refl dest: at_point_unique)
  with p show "\<exists>p'. gen_stmts [] (cfg h p) = Some (cfg h p') \<and> kept V {} p p' \<and> runs V {} (\<lambda>sem :: 'w sem. execs sem []) p p'"
    by (auto intro: kept_refl)
qed

lemma correct_Cons:
  assumes "correct V B (gen_stmt st) (\<lambda>sem :: 'w sem. exec sem st) h"
    and "correct (V \<union> B) B' (gen_stmts ss) (\<lambda>sem :: 'w sem. execs sem ss) h"
  shows "correct V (B \<union> B') (gen_stmts (st # ss)) (\<lambda>sem :: 'w sem. execs sem (st # ss)) h"
proof (rule correctI)
  fix p assume p: "point_ok p"
  obtain p1 where 1: "gen_stmt st (cfg h p) = Some (cfg h p1)" "kept V B p p1" "runs V B (\<lambda>sem :: 'w sem. exec sem st) p p1"
    using assms(1) p by (rule correctE)
  obtain p2 where 2: "gen_stmts ss (cfg h p1) = Some (cfg h p2)" "kept (V \<union> B) B' p1 p2"
      "runs (V \<union> B) B' (\<lambda>sem :: 'w sem. execs sem ss) p1 p2"
    using assms(2) keptD(1) [OF 1(2)] by (rule correctE)
  have "runs V (B \<union> B') (\<lambda>sem :: 'w sem. execs sem (st # ss)) p p2"
  proof (rule runsI)
    fix f k k2 and sem :: "'w sem" and args s and m :: "'w Machine" and out s'
    assume at: "at_point f p k" "at_point f p2 k2" and fits: "fits p2" and rel: "related p s m" "dom (fst s) = V"
      and ex: "execs sem (st # ss) s out s'"
    obtain k1 where k1: "at_point f p1 k1" using keptD(5) [OF 2(2) at(2)] by blast
    have fits1: "fits p1" by (rule keptD(6) [OF 2(2) fits])
    from ex show "ends sem args f V (V \<union> (B \<union> B')) p p2 k k2 m out s'"
    proof (rule execs_ConsE)
      fix s1 assume x: "exec sem st s Normal s1" "execs sem ss s1 out s'"
      obtain m1 where m1: "ir_steps sem args f (Run k m) (Run k1 m1)" "related p1 s1 m1" "frame V p m m1" "dom (fst s1) = V \<union> B"
        using runsD [OF 1(3) at(1) k1 fits1 rel x(1)] by (rule ends_NormalE)
      have "ends sem args f (V \<union> B) (V \<union> (B \<union> B')) p1 p2 k1 k2 m1 out s'"
        using runsD [OF 2(3) k1 at(2) fits m1(2,4) x(2)] by (simp add: Un_assoc)
      then show ?thesis by (intro ends_after [OF m1(1,3)] ends_kept [OF _ 1(2) fits1])
    next
      fix x assume x: "exec sem st s (Returned x) s'" "out = Returned x"
      from runsD [OF 1(3) at(1) k1 fits1 rel x(1)] show ?thesis by (simp add: x(2))
    qed
  qed
  with 1 2 kept_trans [OF 1(2) 2(2)]
  show "\<exists>p'. gen_stmts (st # ss) (cfg h p) = Some (cfg h p') \<and> kept V (B \<union> B') p p'
      \<and> runs V (B \<union> B') (\<lambda>sem :: 'w sem. execs sem (st # ss)) p p'"
    by auto
qed

lemma correct_block:
  assumes "correct V B (gen_stmts ss) (\<lambda>sem :: 'w sem. execs sem ss) h"
  shows "correct V {} (gen_stmt (BlockStmt ss r)) (\<lambda>sem :: 'w sem. exec sem (BlockStmt ss r)) h"
proof (rule correctI)
  fix p assume p: "point_ok p"
  obtain p1 where 1: "gen_stmts ss (cfg h p) = Some (cfg h p1)" "kept V B p p1" "runs V B (\<lambda>sem :: 'w sem. execs sem ss) p p1"
    using assms p by (rule correctE)
  have "runs V {} (\<lambda>sem :: 'w sem. exec sem (BlockStmt ss r)) p p1"
  proof (rule runsI)
    fix f k k1 and sem :: "'w sem" and args s and m :: "'w Machine" and out s'
    assume at: "at_point f p k" "at_point f p1 k1" and fits: "fits p1" and rel: "related p s m" "dom (fst s) = V"
      and ex: "exec sem (BlockStmt ss r) s out s'"
    then obtain s1 where s1: "s' = end_scope s s1" "execs sem ss s out s1" by (auto elim: exec_blockE)
    have "ends sem args f V V p p k k1 m out s'" unfolding s1(1)
      by (rule ends_scope [OF runsD [OF 1(3) at fits rel s1(2)] rel 1(2)]) simp
    then show "ends sem args f V (V \<union> {}) p p1 k k1 m out s'" unfolding Un_empty_right by (rule ends_later [OF _ 1(2)])
  qed
  with 1 show "\<exists>p'. gen_stmt (BlockStmt ss r) (cfg h p) = Some (cfg h p') \<and> kept V {} p p'
      \<and> runs V {} (\<lambda>sem :: 'w sem. exec sem (BlockStmt ss r)) p p'"
    by (auto intro: kept_weaken)
qed

lemma correct_expr:
  assumes "safe V e"
  shows "correct V {} (gen_stmt (ExprStmt e r)) (\<lambda>sem :: 'w sem. exec sem (ExprStmt e r)) h"
proof (rule correctI)
  fix p assume p: "point_ok p"
  obtain p1 where 1: "gen_expr e (cfg h p) = Some (cfg h p1)" "kept V {} p p1"
    "\<And>f k k' (sem :: 'w sem) args s m v s'. at_point f p k \<Longrightarrow> at_point f p1 k' \<Longrightarrow> fits p1 \<Longrightarrow> related p s m \<Longrightarrow>
       dom (fst s) = V \<Longrightarrow> eval sem e s = Some (v, s') \<Longrightarrow>
       \<exists>m'. ir_steps sem args f (Run k m) (Run k' m') \<and> related p1 s' m' \<and> frame V p m m' \<and> dom (fst s') = V
         \<and> in_reg p1 (p_last p1) m' v"
    by (rule expr_runs [OF p assms]) blast
  have "runs V {} (\<lambda>sem :: 'w sem. exec sem (ExprStmt e r)) p p1"
  proof (rule runsI)
    fix f k k1 and sem :: "'w sem" and args s and m :: "'w Machine" and out s'
    assume *: "at_point f p k" "at_point f p1 k1" "fits p1" "related p s m" "dom (fst s) = V"
      and "exec sem (ExprStmt e r) s out s'"
    then obtain v where v: "out = Normal" "eval sem e s = Some (v, s')" by (auto elim: exec_exprE)
    from 1(3) [OF * v(2)] show "ends sem args f V (V \<union> {}) p p1 k k1 m out s'"
      by (auto simp: v(1) intro: ends_NormalI)
  qed
  with 1 show "\<exists>p'. gen_stmt (ExprStmt e r) (cfg h p) = Some (cfg h p') \<and> kept V {} p p'
      \<and> runs V {} (\<lambda>sem :: 'w sem. exec sem (ExprStmt e r)) p p'"
    by auto
qed

lemma ret_steps:
  assumes "at_point f p k" "at_point f (start l (emit_effect OpRet (map fromReg rs) [] p)) k'"
  shows "rs = [] \<Longrightarrow> ir_steps sem args f (Run k m) (Halt None (m_world m))"
    "rs = [x] \<Longrightarrow> ir_steps sem args f (Run k m) (Halt (Some (m_regs m x)) (m_world m))"
proof -
  have k: "k = [instr OpRet NoReg (map fromReg rs) []]"
    using assms(1) at_point_jump [OF assms(2)] by (rule at_point_unique)
  have val: "operand_value sem m (fromReg x) = m_regs m x" by (simp add: operand_value_def)
  show "rs = [] \<Longrightarrow> ir_steps sem args f (Run k m) (Halt None (m_world m))"
    unfolding k by (auto intro!: r_into_rtranclp ir_step.ret_void)
  show "rs = [x] \<Longrightarrow> ir_steps sem args f (Run k m) (Halt (Some (m_regs m x)) (m_world m))"
    unfolding k val [symmetric] by (auto intro!: r_into_rtranclp ir_step.ret_value)
qed

lemma correct_return:
  assumes "case v of None \<Rightarrow> True | Some e \<Rightarrow> safe V e"
  shows "correct V {} (gen_stmt (ReturnStmt v r)) (\<lambda>sem :: 'w sem. exec sem (ReturnStmt v r)) h"
proof (cases v)
  case None
  show ?thesis
  proof (rule correctI)
    fix p assume p: "point_ok p"
    define l where "l = lab ''after_ret'' (p_lc p)"
    define p1 where "p1 = start l (emit_effect OpRet (map fromReg []) [] (fresh p))"
    have "runs V {} (\<lambda>sem :: 'w sem. exec sem (ReturnStmt v r)) p p1"
      by (rule runsI)
        (auto simp: None related_def p1_def elim!: exec_returnE dest!: ret_steps(1) [of _ "fresh p", simplified])
    moreover have "kept V {} p p1"
      unfolding p1_def using kept_trans [OF kept_fresh [OF kept_refl [OF p]] kept_jump [of "fresh p"]] p by simp
    ultimately show "\<exists>p'. gen_stmt (ReturnStmt v r) (cfg h p) = Some (cfg h p') \<and> kept V {} p p'
        \<and> runs V {} (\<lambda>sem :: 'w sem. exec sem (ReturnStmt v r)) p p'"
      by (intro exI [of _ p1]) (simp add: None gen_return_def p1_def l_def fresh_after_jump)
  qed
next
  case (Some e)
  show ?thesis
  proof (rule correctI)
    fix p assume p: "point_ok p"
    obtain p1 where 1: "gen_expr e (cfg h p) = Some (cfg h p1)" "straight p p1" "kept V {} p p1" "p_last p1 \<in> known p1"
      "\<And>f k k' (sem :: 'w sem) args s m v s'. at_point f p k \<Longrightarrow> at_point f p1 k' \<Longrightarrow> fits p1 \<Longrightarrow> related p s m \<Longrightarrow>
         dom (fst s) = V \<Longrightarrow> eval sem e s = Some (v, s') \<Longrightarrow>
         \<exists>m'. ir_steps sem args f (Run k m) (Run k' m') \<and> related p1 s' m' \<and> frame V p m m' \<and> dom (fst s') = V
           \<and> in_reg p1 (p_last p1) m' v"
      by (rule expr_runs [OF p, of V e h]) (use assms Some in auto)
    define l where "l = lab ''after_ret'' (p_lc p1)"
    define rs where "rs = (if p_last p1 = NoReg then [] else [p_last p1])"
    define p2 where "p2 = start l (emit_effect OpRet (map fromReg rs) [] (fresh p1))"
    have ok: "point_ok p1" by (rule keptD(1) [OF 1(3)])
    have "set rs \<subseteq> known p1" using 1(4) by (simp add: rs_def)
    then have kept: "kept V {} p1 p2"
      unfolding p2_def using kept_trans [OF kept_fresh [OF kept_refl [OF ok]] kept_jump [of "fresh p1"]] ok by simp
    have "runs V {} (\<lambda>sem :: 'w sem. exec sem (ReturnStmt v r)) p p2"
    proof (rule runsI)
      fix f k k2 and sem :: "'w sem" and args s and m :: "'w Machine" and out s'
      assume at: "at_point f p k" "at_point f p2 k2" and fits: "fits p2" and rel: "related p s m" "dom (fst s) = V"
        and "exec sem (ReturnStmt v r) s out s'"
      then obtain u where u: "out = Returned (Some u)" "eval sem e s = Some (u, s')" by (auto simp: Some elim: exec_returnE)
      obtain k1 where k1: "at_point f p1 k1" using keptD(5) [OF kept at(2)] by blast
      obtain m1 where m1: "ir_steps sem args f (Run k m) (Run k1 m1)" "related p1 s' m1" "in_reg p1 (p_last p1) m1 u"
        using 1(5) [OF at(1) k1 keptD(6) [OF kept fits] rel u(2)] by blast
      have "rs = [p_last p1]" using m1(3) by (auto simp: rs_def in_reg_def allocated_def)
      then have "ir_steps sem args f (Run k1 m1) (Halt (Some u) (snd s'))"
        using ret_steps(2) [of f "fresh p1" k1 l rs k2 "p_last p1" sem args m1] k1 at(2) m1(2,3) by (simp add: p2_def in_reg_def related_def)
      with m1(1) show "ends sem args f V (V \<union> {}) p p2 k k2 m out s'" by (simp add: u(1))
    qed
    moreover have "gen_stmt (ReturnStmt v r) (cfg h p) = Some (cfg h p2)"
      using 1(1) by (auto simp: Some gen_return_def p2_def l_def rs_def fresh_after_jump)
    ultimately show "\<exists>p'. gen_stmt (ReturnStmt v r) (cfg h p) = Some (cfg h p') \<and> kept V {} p p'
        \<and> runs V {} (\<lambda>sem :: 'w sem. exec sem (ReturnStmt v r)) p p'"
      using kept_local [OF 1(3) kept] by blast
  qed
qed


text \<open>A statement that no rule executes needs no code.\<close>

lemma correct_skip:
  assumes "gen_stmt st = Some" "\<And>(sem :: 'w sem) s out s'. \<not> exec sem st s out s'"
  shows "correct V {} (gen_stmt st) (\<lambda>sem :: 'w sem. exec sem st) h"
  by (rule correctI) (use assms in \<open>auto intro!: exI kept_refl runsI\<close>)

lemma value_steps:
  assumes "at_point f p k" "at_point f (emit_value opc ops l p) k1" "has_result opc"
    and "exec_instr sem args (instr opc (next_reg p) ops l) m = Some m1"
  shows "ir_steps sem args f (Run k m) (Run k1 m1)"
proof -
  have "k = instr opc (next_reg p) ops l # k1" using assms(1) at_point_value [OF assms(2)] by (rule at_point_unique)
  with assms(3,4) show ?thesis by (auto intro!: r_into_rtranclp ir_step.plain)
qed

lemma store_steps:
  assumes "at_point f p k" "at_point f (emit_effect OpStore [fromReg r, fromReg a] [] p) k1"
  shows "ir_steps sem args f (Run k m) (Run k1 (set_mem (m_regs m a) (m_regs m r) m))"
proof -
  have "k = instr OpStore NoReg [fromReg r, fromReg a] [] # k1" using assms(1) at_point_effect [OF assms(2)] by (rule at_point_unique)
  then show ?thesis by (auto intro!: r_into_rtranclp ir_step.plain simp: exec_store)
qed

text \<open>An instruction with a result.\<close>

lemma value_run:
  fixes V :: "string set"
  assumes "at_point f p k" "at_point f q k1" "q = emit_value opc ops l p" "has_result opc" "fits q" "related p s m"
    and "exec_instr sem args (instr opc (next_reg p) ops l) m = Some (set_reg (next_reg p) v m)"
  obtains m1 where "m1 = set_reg (next_reg p) v m" "ir_steps sem args f (Run k m) (Run k1 m1)" "related q s m1"
    "frame V p m m1" "m_regs m1 (next_reg p) = v" "m_mem m1 = m_mem m"
proof -
  let ?m = "set_reg (next_reg p) v m"
  have regs: "p_reg q = Suc (p_reg p)" "p_slots q = p_slots p" by (simp_all add: assms(3))
  have "related q s ?m"
    using related_set_reg [OF assms(6,5) regs, of "m_world m" v] assms(6) by (simp add: set_reg_world related_def)
  moreover have "frame V p m ?m" using frame_set_reg [OF assms(5) regs(1)] by (metis set_reg_world)
  moreover have "ir_steps sem args f (Run k m) (Run k1 ?m)"
    using value_steps [OF assms(1) assms(2) [unfolded assms(3)] assms(4,7)] .
  ultimately show thesis by (intro that [OF refl]) (simp_all add: set_reg_def)
qed

lemma exec_alloca: "exec_instr sem args (instr OpAlloca d [] l) m = Some (set_reg d (ucast d) m)"
  by (simp add: exec_instr_def)

lemma kept_bind:
  assumes "kept V B p q" "x \<notin> V" "r \<in> known q" "fits q \<Longrightarrow> \<not> allocated p r"
  shows "kept V (insert x B) p (bind_slot x r q)"
  using assms by (auto simp: kept_def fits_def point_ok_bind)

lemma related_bind: "related p s m \<Longrightarrow> x \<notin> dom (fst s) \<Longrightarrow> related (bind_slot x r p) s m"
  unfolding related_def by (auto simp: allocated_def inj_on_def domIff)

lemma related_new_var:
  assumes "related p s m" "p_slots p x = Some r" "allocated p r" "m_regs m r = ucast r"
    and "\<forall>y \<in> dom (fst s). p_slots p y \<noteq> Some r"
  shows "related p ((fst s)(x \<mapsto> v), snd s) (set_mem (ucast r) v m)"
proof -
  have "\<exists>r'. p_slots p y = Some r' \<and> allocated p r' \<and> m_regs m r' = ucast r' \<and> m_mem (set_mem (ucast r) v m) (ucast r') = u"
    if "((fst s)(x \<mapsto> v)) y = Some u" for y u
  proof (cases "y = x")
    case True
    with that assms(2-4) show ?thesis by (simp add: set_mem_def)
  next
    case False
    with that assms(1) obtain r' where "p_slots p y = Some r'" "allocated p r'" "m_regs m r' = ucast r'" "m_mem m (ucast r') = u"
      by (auto simp: related_def)
    with assms(5) that False show ?thesis by (auto simp: set_mem_def ucast_inj domIff)
  qed
  moreover have "inj_on (p_slots p) (insert x (dom (fst s)))"
    using assms(1,2,5) by (auto simp: related_def inj_on_insert intro: inj_on_subset)
  ultimately show ?thesis using assms(1) unfolding related_def by (simp add: set_mem_def)
qed

lemma related_slots_allocated: "related p s m \<Longrightarrow> y \<in> dom (fst s) \<Longrightarrow> p_slots p y = Some r \<Longrightarrow> allocated p r"
  using related_slot by blast

lemma frame_store_new: "\<not> allocated p r \<Longrightarrow> frame V p m (set_mem (ucast r) v m)"
  by (auto simp: frame_def set_mem_def ucast_inj)

lemma correct_var_uninit:
  assumes "x \<notin> V"
  shows "correct V {x} (gen_stmt (DeclStmt (VarDecl vk x t None r) r'))
    (\<lambda>sem :: 'w sem. exec sem (DeclStmt (VarDecl vk x t None r) r')) h"
proof (rule correctI)
  fix p assume p: "point_ok p"
  define p0 where "p0 = emit_value OpAlloca [] x p"
  have "fits p0 \<Longrightarrow> \<not> allocated p (next_reg p)" using next_reg_fresh [of p0 p] by (auto simp: p0_def)
  moreover have "kept V {} p p0" unfolding p0_def by (rule kept_straight [OF p straight_value [OF p]]) simp_all
  ultimately have "kept V {x} p (bind_slot x (next_reg p) p0)"
    by (intro kept_bind) (use assms in \<open>simp_all add: p0_def\<close>)
  then show "\<exists>p'. gen_stmt (DeclStmt (VarDecl vk x t None r) r') (cfg h p) = Some (cfg h p') \<and> kept V {x} p p'
      \<and> runs V {x} (\<lambda>sem :: 'w sem. exec sem (DeclStmt (VarDecl vk x t None r) r')) p p'"
    by (intro exI [of _ "bind_slot x (next_reg p) p0"])
      (auto simp: gen_var_def p0_def cfg_slots bind_slot_def intro!: runsI elim: exec_varE)
qed

lemma correct_var:
  assumes "x \<notin> V" "safe V e"
  shows "correct V {x} (gen_stmt (DeclStmt (VarDecl vk x t (Some e) r) r'))
    (\<lambda>sem :: 'w sem. exec sem (DeclStmt (VarDecl vk x t (Some e) r) r')) h"
proof (rule correctI)
  fix p assume p: "point_ok p"
  define p0 where "p0 = emit_value OpAlloca [] x p"
  define p1 where "p1 = bind_slot x (next_reg p) p0"
  have regs: "p_reg p0 = Suc (p_reg p)" "p_reg p1 = Suc (p_reg p)" "p_slots p0 = p_slots p" by (simp_all add: p0_def p1_def)
  have new: "fits p1 \<Longrightarrow> \<not> allocated p (next_reg p)" using next_reg_fresh [OF _ regs(2)] by blast
  have k0: "kept V {} p p0" unfolding p0_def by (rule kept_straight [OF p straight_value [OF p]]) simp_all
  have k1: "kept V {x} p p1" unfolding p1_def
    by (rule kept_bind [OF k0 assms(1)]) (use new in \<open>simp_all add: p0_def p1_def fits_def\<close>)
  have ok1: "point_ok p1" by (rule keptD(1) [OF k1])
  obtain p2 where 2: "gen_expr e (cfg h p1) = Some (cfg h p2)" "straight p1 p2" "kept V {} p1 p2" "p_last p2 \<in> known p2"
    "\<And>f k k' (sem :: 'w sem) args s m v s'. at_point f p1 k \<Longrightarrow> at_point f p2 k' \<Longrightarrow> fits p2 \<Longrightarrow> related p1 s m \<Longrightarrow>
       dom (fst s) = V \<Longrightarrow> eval sem e s = Some (v, s') \<Longrightarrow>
       \<exists>m'. ir_steps sem args f (Run k m) (Run k' m') \<and> related p2 s' m' \<and> frame V p1 m m' \<and> dom (fst s') = V
         \<and> in_reg p2 (p_last p2) m' v"
    by (rule expr_runs [OF ok1 assms(2), where h = h]) blast
  define p3 where "p3 = emit_effect OpStore [fromReg (p_last p2), fromReg (next_reg p)] [] p2"
  have slot: "p_slots p2 = p_slots p1" "p_slots p1 x = Some (next_reg p)" using 2(2) by (simp_all add: straight_def p1_def)
  have reg2: "p_reg p1 \<le> p_reg p2" by (rule keptD(2) [OF 2(3)])
  have st: "straight p2 p3" unfolding p3_def
    by (rule straight_store) (use 2(4) straightD [OF 2(2)] in \<open>auto simp: p1_def p0_def\<close>)
  have k3: "kept V {} p2 p3" by (rule kept_straight [OF keptD(1) [OF 2(3)] st])
  have "kept V ({x} \<union> {}) p p3"
  proof (rule kept_trans [OF k1 kept_straight [OF ok1]])
    show "straight p1 p3" by (rule straight_trans [OF 2(2) st])
  qed
  then have kept: "kept V {x} p p3" by simp
  have "runs V {x} (\<lambda>sem :: 'w sem. exec sem (DeclStmt (VarDecl vk x t (Some e) r) r')) p p3"
  proof (rule runsI)
    fix f k k3 and sem :: "'w sem" and args s and m :: "'w Machine" and out s'
    assume at: "at_point f p k" "at_point f p3 k3" and fits: "fits p3" and rel: "related p s m" "dom (fst s) = V"
      and "exec sem (DeclStmt (VarDecl vk x t (Some e) r) r') s out s'"
    then obtain v s2 where v: "out = Normal" "s' = ((fst s2)(x \<mapsto> v), snd s2)" "eval sem e s = Some (v, s2)"
      by (auto elim: exec_varE)
    obtain k2 where k2: "at_point f p2 k2" using keptD(5) [OF k3 at(2)] by blast
    obtain k1' where k1': "at_point f p1 k1'" using keptD(5) [OF 2(3) k2] by blast
    have fits2: "fits p2" by (rule keptD(6) [OF k3 fits])
    have fits1: "fits p1" "fits p0" by (rule keptD(6) [OF 2(3) fits2]) (use keptD(6) [OF 2(3) fits2] in \<open>simp add: fits_def regs\<close>)
    have at0: "at_point f p0 k1'" using k1' by (simp add: p1_def)
    obtain m1 where m1: "ir_steps sem args f (Run k m) (Run k1' m1)" "related p0 s m1" "frame V p m m1"
        "m_regs m1 (next_reg p) = ucast (next_reg p)"
      by (rule value_run [OF at(1) at0 p0_def _ fits1(2) rel(1) exec_alloca, where V = V]) simp_all
    have r1: "related p1 s m1" unfolding p1_def by (rule related_bind [OF m1(2)]) (use assms(1) rel(2) in simp)
    obtain m2 where m2: "ir_steps sem args f (Run k1' m1) (Run k2 m2)" "related p2 s2 m2" "frame V p1 m1 m2" "dom (fst s2) = V"
        "in_reg p2 (p_last p2) m2 v"
      using 2(5) [OF k1' k2 fits2 r1 rel(2) v(3)] by blast
    have a1: "allocated p1 (next_reg p)" by (rule next_reg_allocated [OF fits1(1) regs(2)])
    have slot2: "m_regs m2 (next_reg p) = ucast (next_reg p)"
      using frame_regs [OF m2(3) a1] m1(4) by simp
    define m3 where "m3 = set_mem (ucast (next_reg p)) v m2"
    have 3: "ir_steps sem args f (Run k2 m2) (Run k3 m3)"
      using store_steps [OF k2, of "p_last p2" "next_reg p" k3 sem args m2] at(2) m2(5) slot2
      by (simp add: p3_def m3_def in_reg_def)
    have other: "\<forall>y \<in> dom (fst s2). p_slots p2 y \<noteq> Some (next_reg p)"
    proof
      fix y assume y: "y \<in> dom (fst s2)"
      then have "p_slots p2 y = p_slots p y" using m2(4) assms(1) slot(1) by (auto simp: p1_def regs)
      with y m2(4) rel new [OF fits1(1)] show "p_slots p2 y \<noteq> Some (next_reg p)"
        using related_slots_allocated [OF rel(1)] by (metis)
    qed
    have "related p2 s' m3" unfolding v(2) m3_def
      by (rule related_new_var [OF m2(2) _ allocated_mono [OF a1 reg2] slot2 other]) (use slot in simp)
    then have r3: "related p3 s' m3" by (simp add: p3_def related_def allocated_def)
    have "frame V p m m3"
      unfolding m3_def using m1(3) frame_earlier [OF m2(3) k1] frame_store_new [OF new [OF fits1(1)]] by (blast intro: frame_join)
    moreover have "dom (fst s') = V \<union> {x}" using m2(4) by (auto simp: v(2))
    ultimately show "ends sem args f V (V \<union> {x}) p p3 k k3 m out s'"
      unfolding v(1) using m1(1) m2(1) 3 r3 by (intro ends_NormalI [where m' = m3]) (auto intro: rtranclp_trans)
  qed
  moreover have "gen_stmt (DeclStmt (VarDecl vk x t (Some e) r) r') (cfg h p) = Some (cfg h p3)"
    using 2(1) by (simp add: gen_var_def p1_def p0_def p3_def cfg_slots bind_slot_def)
  ultimately show "\<exists>p'. gen_stmt (DeclStmt (VarDecl vk x t (Some e) r) r') (cfg h p) = Some (cfg h p') \<and> kept V {x} p p'
      \<and> runs V {x} (\<lambda>sem :: 'w sem. exec sem (DeclStmt (VarDecl vk x t (Some e) r) r')) p p'"
    using kept by blast
qed

end
