(* ===== verification/Vcc_IrGen_Control.thy ===== *)
theory Vcc_IrGen_Control
  imports Vcc_IrGen_Stmts
begin

text \<open>
  Correct lowering of branches and loops: both forms of \<open>if\<close>, loops with a condition (\<open>while\<close> and
  the general \<open>vloop\<close>), the counted \<open>vloop\<close>, and \<open>match\<close> with a wildcard arm.
\<close>

section \<open>Branches and loops\<close>

text \<open>The branches of an \<open>if\<close>: a statement of its own scope, from a later point on.\<close>

lemma scoped_run:
  assumes "runs V B X p1 p2" "kept V B p1 p2" "kept V B' p p1"
    and "at_point f p1 k1" "at_point f p2 k2" "fits p2" "related p s m" "dom (fst s) = V" "X sem s out s'"
  shows "ends sem args f V V p p k1 k2 m out (end_scope s s')"
proof -
  have r1: "related p1 s m" using related_later [OF assms(7)] assms(3,8) by simp
  have e: "ends sem args f V (V \<union> B) p1 p2 k1 k2 m out s'" by (rule runsD [OF assms(1,4-6) r1 assms(8,9)])
  have e1: "ends sem args f V V p1 p1 k1 k2 m out (end_scope s s')" by (rule ends_scope [OF e r1 assms(8,2)]) simp
  show ?thesis
  proof (cases out)
    case Normal
    with e obtain m' where m': "ir_steps sem args f (Run k1 m) (Run k2 m')" "related p2 s' m'" "frame V p1 m m'" "dom (fst s') = V \<union> B"
      by (auto elim: ends_NormalE)
    have fr: "frame V p m m'" by (rule frame_earlier [OF m'(3) assms(3)])
    have "kept V {} p p2" by (rule kept_local [OF assms(3,2)])
    from related_end_scope [OF m'(2) assms(7) this fr assms(8)] m'(1,4) fr show ?thesis
      unfolding Normal by (intro ends_NormalI) auto
  qed (use e in simp)
qed

lemma correct_if:
  assumes "safe V c" "correct V B (gen_stmt t) (\<lambda>sem :: 'w sem. exec sem t) h"
  shows "correct V {} (gen_stmt (IfStmt c t None r)) (\<lambda>sem :: 'w sem. exec sem (IfStmt c t None r)) h"
proof (rule correctI)
  fix p assume p: "point_ok p"
  obtain p1 where 1: "gen_expr c (cfg h p) = Some (cfg h p1)" "kept V {} p p1" "straight p p1" "p_last p1 \<in> known p1"
    "\<And>f k k' (sem :: 'w sem) args s m v s'. at_point f p k \<Longrightarrow> at_point f p1 k' \<Longrightarrow> fits p1 \<Longrightarrow> related p s m \<Longrightarrow>
       dom (fst s) = V \<Longrightarrow> eval sem c s = Some (v, s') \<Longrightarrow>
       \<exists>m'. ir_steps sem args f (Run k m) (Run k' m') \<and> related p1 s' m' \<and> frame V p m m' \<and> dom (fst s') = V
         \<and> in_reg p1 (p_last p1) m' v"
    by (rule expr_runs [OF p assms(1), where h = h]) blast
  have lc: "p_lc p1 = p_lc p" using 1(3) by (simp add: straight_def)
  define t0 where "t0 = lab ''then'' (p_lc p)"
  define m0 where "m0 = lab ''merge'' (Suc (p_lc p))"
  define p2 where "p2 = start t0 (emit_effect OpCondBranch [fromReg (p_last p1)] (t0 @ '','' @ m0) (fresh (fresh p1)))"
  have ok1: "point_ok p1" by (rule keptD(1) [OF 1(2)])
  have k2: "kept V {} p1 p2" unfolding p2_def
    by (rule kept_local [OF kept_fresh [OF kept_fresh [OF kept_refl]] kept_jump]) (use ok1 1(4) in auto)
  obtain p3 where 3: "gen_stmt t (cfg h p2) = Some (cfg h p3)" "kept V B p2 p3" "runs V B (\<lambda>sem :: 'w sem. exec sem t) p2 p3"
    using assms(2) keptD(1) [OF k2] by (rule correctE)
  define p4 where "p4 = start m0 (emit_effect OpBranch [] m0 p3)"
  have ok3: "point_ok p3" by (rule keptD(1) [OF 3(2)])
  have k4: "kept V {} p3 p4" unfolding p4_def by (rule kept_jump) (use ok3 in auto)
  have k14: "kept V {} p1 p4" by (rule kept_local [OF kept_local [OF k2 3(2)] k4])
  have "runs V {} (\<lambda>sem :: 'w sem. exec sem (IfStmt c t None r)) p p4"
  proof (rule runsI)
    fix f k k4' and sem :: "'w sem" and args s and m :: "'w Machine" and out s'
    assume at: "at_point f p k" "at_point f p4 k4'" and fits: "fits p4" and rel: "related p s m" "dom (fst s) = V"
      and ex: "exec sem (IfStmt c t None r) s out s'"
    obtain k3' where a3: "at_point f p3 k3'" using keptD(5) [OF k4 at(2)] by blast
    obtain k2' where a2: "at_point f p2 k2'" using keptD(5) [OF 3(2) a3] by blast
    obtain k1' where a1: "at_point f p1 k1'" using keptD(5) [OF k2 a2] by blast
    have fits3: "fits p3" and fits1: "fits p1" by (rule keptD(6) [OF k4 fits], rule keptD(6) [OF k14 fits])
    have m0: "block_at f m0 = Some k4'" using at_point_started at(2) unfolding p4_def by blast
    have t0: "block_at f t0 = Some k2'" using at_point_started a2 unfolding p2_def by blast
    have cond: "ir_steps sem args f (Run k1' m) (Run (if m_regs m (p_last p1) \<noteq> 0 then k2' else k4') m)" for m
      by (rule cond_steps [of f "fresh (fresh p1)", OF _ a2 [unfolded p2_def] _ t0 m0]) (simp_all add: a1 t0_def)
    have end3: "ir_steps sem args f (Run k3' m) (Run k4' m)" for m
      by (rule goto_steps [OF a3 at(2) [unfolded p4_def] m0])
    obtain v s1 where v: "eval sem c s = Some (v, s1)"
        "(v \<noteq> 0 \<and> (\<exists>s2. exec sem t s1 out s2 \<and> s' = end_scope s s2)) \<or> (v = 0 \<and> out = Normal \<and> s' = s1)"
      using ex by (rule exec_ifE) blast+
    obtain m1 where m1: "ir_steps sem args f (Run k m) (Run k1' m1)" "related p1 s1 m1" "frame V p m m1" "dom (fst s1) = V"
        "m_regs m1 (p_last p1) = v"
      using 1(5) [OF at(1) a1 fits1 rel v(1)] by (auto simp: in_reg_def)
    have "ends sem args f V V p1 p1 k1' k4' m1 out s'"
    proof (cases "v = 0")
      case True
      with v(2) cond [of m1] m1(2,4,5) show ?thesis by (auto intro: ends_NormalI frame_refl)
    next
      case False
      with v(2) obtain s2 where s2: "exec sem t s1 out s2" "s' = end_scope s1 s2"
        using rel(2) m1(4) by (auto simp: end_scope_def)
      have "ends sem args f V V p1 p1 k2' k3' m1 out s'" unfolding s2(2)
        by (rule scoped_run [OF 3(3,2) k2 a2 a3 fits3 m1(2,4) s2(1)])
      from ends_goto [OF this end3] have e: "ends sem args f V V p1 p1 k2' k4' m1 out s'" .
      have "ir_steps sem args f (Run k1' m1) (Run k2' m1)" using cond [of m1] m1(5) False by simp
      then show ?thesis by (rule ends_after [OF _ frame_refl e])
    qed
    then show "ends sem args f V (V \<union> {}) p p4 k k4' m out s'"
      unfolding Un_empty_right by (intro ends_later [OF ends_after [OF m1(1,3) ends_earlier [OF _ 1(2)]] k14])
  qed
  moreover have "gen_stmt (IfStmt c t None r) (cfg h p) = Some (cfg h p4)"
    using 1(1) 3(1) ok3 lc by (simp add: p2_def p4_def t0_def m0_def)
  ultimately show "\<exists>p'. gen_stmt (IfStmt c t None r) (cfg h p) = Some (cfg h p') \<and> kept V {} p p'
      \<and> runs V {} (\<lambda>sem :: 'w sem. exec sem (IfStmt c t None r)) p p'"
    using kept_local [OF 1(2) k14] by blast
qed


lemma correct_if_else:
  assumes "safe V c" "correct V B (gen_stmt t) (\<lambda>sem :: 'w sem. exec sem t) h"
    and "correct V B' (gen_stmt e) (\<lambda>sem :: 'w sem. exec sem e) h"
  shows "correct V {} (gen_stmt (IfStmt c t (Some e) r)) (\<lambda>sem :: 'w sem. exec sem (IfStmt c t (Some e) r)) h"
proof (rule correctI)
  fix p assume p: "point_ok p"
  obtain p1 where 1: "gen_expr c (cfg h p) = Some (cfg h p1)" "kept V {} p p1" "straight p p1" "p_last p1 \<in> known p1"
    "\<And>f k k' (sem :: 'w sem) args s m v s'. at_point f p k \<Longrightarrow> at_point f p1 k' \<Longrightarrow> fits p1 \<Longrightarrow> related p s m \<Longrightarrow>
       dom (fst s) = V \<Longrightarrow> eval sem c s = Some (v, s') \<Longrightarrow>
       \<exists>m'. ir_steps sem args f (Run k m) (Run k' m') \<and> related p1 s' m' \<and> frame V p m m' \<and> dom (fst s') = V
         \<and> in_reg p1 (p_last p1) m' v"
    by (rule expr_runs [OF p assms(1), where h = h]) blast
  have lc: "p_lc p1 = p_lc p" using 1(3) by (simp add: straight_def)
  define t0 where "t0 = lab ''then'' (p_lc p)"
  define e0 where "e0 = lab ''else'' (Suc (p_lc p))"
  define m0 where "m0 = lab ''merge'' (Suc (Suc (p_lc p)))"
  define p2 where "p2 = start t0 (emit_effect OpCondBranch [fromReg (p_last p1)] (t0 @ '','' @ e0) (fresh (fresh (fresh p1))))"
  have ok1: "point_ok p1" by (rule keptD(1) [OF 1(2)])
  have k2: "kept V {} p1 p2" unfolding p2_def
    by (rule kept_local [OF kept_fresh [OF kept_fresh [OF kept_fresh [OF kept_refl]]] kept_jump]) (use ok1 1(4) in auto)
  obtain p3 where 3: "gen_stmt t (cfg h p2) = Some (cfg h p3)" "kept V B p2 p3" "runs V B (\<lambda>sem :: 'w sem. exec sem t) p2 p3"
    using assms(2) keptD(1) [OF k2] by (rule correctE)
  define p4 where "p4 = start e0 (emit_effect OpBranch [] m0 p3)"
  have ok3: "point_ok p3" by (rule keptD(1) [OF 3(2)])
  have k4: "kept V {} p3 p4" unfolding p4_def by (rule kept_jump) (use ok3 in auto)
  have k14: "kept V {} p1 p4" by (rule kept_local [OF kept_local [OF k2 3(2)] k4])
  obtain p5 where 5: "gen_stmt e (cfg h p4) = Some (cfg h p5)" "kept V B' p4 p5" "runs V B' (\<lambda>sem :: 'w sem. exec sem e) p4 p5"
    using assms(3) keptD(1) [OF k4] by (rule correctE)
  define p6 where "p6 = start m0 (emit_effect OpBranch [] m0 p5)"
  have ok5: "point_ok p5" by (rule keptD(1) [OF 5(2)])
  have k6: "kept V {} p5 p6" unfolding p6_def by (rule kept_jump) (use ok5 in auto)
  have k36: "kept V {} p3 p6" and k16: "kept V {} p1 p6"
    by (rule kept_local [OF kept_local [OF k4 5(2)] k6], rule kept_local [OF kept_local [OF k14 5(2)] k6])
  have "runs V {} (\<lambda>sem :: 'w sem. exec sem (IfStmt c t (Some e) r)) p p6"
  proof (rule runsI)
    fix f k k6' and sem :: "'w sem" and args s and m :: "'w Machine" and out s'
    assume at: "at_point f p k" "at_point f p6 k6'" and fits: "fits p6" and rel: "related p s m" "dom (fst s) = V"
      and ex: "exec sem (IfStmt c t (Some e) r) s out s'"
    obtain k5' where a5: "at_point f p5 k5'" using keptD(5) [OF k6 at(2)] by blast
    obtain k4' where a4: "at_point f p4 k4'" using keptD(5) [OF 5(2) a5] by blast
    obtain k3' where a3: "at_point f p3 k3'" using keptD(5) [OF k4 a4] by blast
    obtain k2' where a2: "at_point f p2 k2'" using keptD(5) [OF 3(2) a3] by blast
    obtain k1' where a1: "at_point f p1 k1'" using keptD(5) [OF k2 a2] by blast
    note fit = keptD(6) [OF k16 fits] keptD(6) [OF k36 fits] keptD(6) [OF k6 fits]
    have m0: "block_at f m0 = Some k6'" using at_point_started at(2) unfolding p6_def by blast
    have e0: "block_at f e0 = Some k4'" using at_point_started a4 unfolding p4_def by blast
    have t0: "block_at f t0 = Some k2'" using at_point_started a2 unfolding p2_def by blast
    have cond: "ir_steps sem args f (Run k1' m) (Run (if m_regs m (p_last p1) \<noteq> 0 then k2' else k4') m)" for m
      by (rule cond_steps [of f "fresh (fresh (fresh p1))", OF _ a2 [unfolded p2_def] _ t0 e0]) (simp_all add: a1 t0_def)
    have end3: "ir_steps sem args f (Run k3' m) (Run k6' m)" for m
      by (rule goto_steps [OF a3 a4 [unfolded p4_def] m0])
    have end5: "ir_steps sem args f (Run k5' m) (Run k6' m)" for m
      by (rule goto_steps [OF a5 at(2) [unfolded p6_def] m0])
    obtain v s1 s2 where v: "eval sem c s = Some (v, s1)" "s' = end_scope s s2"
        "(v \<noteq> 0 \<and> exec sem t s1 out s2) \<or> (v = 0 \<and> exec sem e s1 out s2)"
      using ex by (rule exec_ifE) blast+
    obtain m1 where m1: "ir_steps sem args f (Run k m) (Run k1' m1)" "related p1 s1 m1" "frame V p m m1" "dom (fst s1) = V"
        "m_regs m1 (p_last p1) = v"
      using 1(5) [OF at(1) a1 fit(1) rel v(1)] by (auto simp: in_reg_def)
    have s': "s' = end_scope s1 s2" using v(2) rel(2) m1(4) by (simp add: end_scope_def)
    have "ends sem args f V V p1 p1 k1' k6' m1 out s'"
    proof (cases "v = 0")
      case True
      then have x: "exec sem e s1 out s2" using v(3) by simp
      have "ends sem args f V V p1 p1 k4' k5' m1 out s'" unfolding s'
        by (rule scoped_run [OF 5(3,2) k14 a4 a5 fit(3) m1(2,4) x])
      from ends_goto [OF this end5] have e: "ends sem args f V V p1 p1 k4' k6' m1 out s'" .
      have "ir_steps sem args f (Run k1' m1) (Run k4' m1)" using cond [of m1] m1(5) True by simp
      then show ?thesis by (rule ends_after [OF _ frame_refl e])
    next
      case False
      then have x: "exec sem t s1 out s2" using v(3) by simp
      have "ends sem args f V V p1 p1 k2' k3' m1 out s'" unfolding s'
        by (rule scoped_run [OF 3(3,2) k2 a2 a3 fit(2) m1(2,4) x])
      from ends_goto [OF this end3] have e: "ends sem args f V V p1 p1 k2' k6' m1 out s'" .
      have "ir_steps sem args f (Run k1' m1) (Run k2' m1)" using cond [of m1] m1(5) False by simp
      then show ?thesis by (rule ends_after [OF _ frame_refl e])
    qed
    then show "ends sem args f V (V \<union> {}) p p6 k k6' m out s'"
      unfolding Un_empty_right by (intro ends_later [OF ends_after [OF m1(1,3) ends_earlier [OF _ 1(2)]] k16])
  qed
  moreover have "gen_stmt (IfStmt c t (Some e) r) (cfg h p) = Some (cfg h p6)"
    using 1(1) 3(1) 5(1) ok3 ok5 lc by (simp add: p2_def p4_def p6_def t0_def m0_def e0_def)
  ultimately show "\<exists>p'. gen_stmt (IfStmt c t (Some e) r) (cfg h p) = Some (cfg h p') \<and> kept V {} p p'
      \<and> runs V {} (\<lambda>sem :: 'w sem. exec sem (IfStmt c t (Some e) r)) p p'"
    using kept_local [OF 1(2) k16] by blast
qed

text \<open>Loops with a condition.\<close>

lemma loop_induct [consumes 1]:
  assumes "loop sem c b s out s'"
    and "\<And>s s1. eval sem c s = Some (0, s1) \<Longrightarrow> P s Normal s1"
    and "\<And>s v s1 x s2. eval sem c s = Some (v, s1) \<Longrightarrow> v \<noteq> 0 \<Longrightarrow> exec sem b s1 (Returned x) s2 \<Longrightarrow> P s (Returned x) s2"
    and "\<And>s v s1 s2 out s3. eval sem c s = Some (v, s1) \<Longrightarrow> v \<noteq> 0 \<Longrightarrow> exec sem b s1 Normal s2 \<Longrightarrow>
      P (end_scope s s2) out s3 \<Longrightarrow> P s out s3"
  shows "P s out s'"
proof -
  have "(exec sem st0 s0 out0 s0' \<longrightarrow> True) \<and> (execs sem ss0 s0 out0 s0' \<longrightarrow> True)
    \<and> (loop sem c0 b0 s out s' \<longrightarrow> c0 = c \<longrightarrow> b0 = b \<longrightarrow> P s out s')
    \<and> (repeat sem b0 n0 s0 out0 s0' \<longrightarrow> True) \<and> (arms sem v0 as0 s0 out0 s0' \<longrightarrow> True)"
    for st0 ss0 c0 b0 n0 v0 as0 s0 out0 s0' s out s'
    by (induction rule: exec_execs_loop_repeat_arms.induct) (use assms(2-) in blast)+
  with assms(1) show ?thesis by blast
qed

lemma correct_loop:
  assumes "safe V c" "CHR '','' \<notin> set bl" "correct V B (gen_stmt b) (\<lambda>sem :: 'w sem. exec sem b) h"
  shows "correct V {} (gen_loop cl bl el c (gen_stmt b)) (\<lambda>sem :: 'w sem. loop sem c b) h"
proof (rule correctI)
  fix p assume p: "point_ok p"
  define c0 where "c0 = lab cl (p_lc p)"
  define b0 where "b0 = lab bl (Suc (p_lc p))"
  define e0 where "e0 = lab el (Suc (Suc (p_lc p)))"
  define p1 where "p1 = start c0 (emit_effect OpBranch [] c0 (fresh (fresh (fresh p))))"
  have k1: "kept V {} p p1" unfolding p1_def
    by (rule kept_local [OF kept_fresh [OF kept_fresh [OF kept_fresh [OF kept_refl]]] kept_jump]) (use p in auto)
  have ok1: "point_ok p1" by (rule keptD(1) [OF k1])
  obtain p2 where 2: "gen_expr c (cfg h p1) = Some (cfg h p2)" "kept V {} p1 p2" "straight p1 p2" "p_last p2 \<in> known p2"
    "\<And>f k k' (sem :: 'w sem) args s m v s'. at_point f p1 k \<Longrightarrow> at_point f p2 k' \<Longrightarrow> fits p2 \<Longrightarrow> related p1 s m \<Longrightarrow>
       dom (fst s) = V \<Longrightarrow> eval sem c s = Some (v, s') \<Longrightarrow>
       \<exists>m'. ir_steps sem args f (Run k m) (Run k' m') \<and> related p2 s' m' \<and> frame V p1 m m' \<and> dom (fst s') = V
         \<and> in_reg p2 (p_last p2) m' v"
    by (rule expr_runs [OF ok1 assms(1), where h = h]) blast
  define p3 where "p3 = start b0 (emit_effect OpCondBranch [fromReg (p_last p2)] (b0 @ '','' @ e0) p2)"
  have ok2: "point_ok p2" by (rule keptD(1) [OF 2(2)])
  have k3: "kept V {} p2 p3" unfolding p3_def by (rule kept_jump) (use ok2 2(4) in auto)
  have k13: "kept V {} p1 p3" by (rule kept_local [OF 2(2) k3])
  obtain p4 where 4: "gen_stmt b (cfg h p3) = Some (cfg h p4)" "kept V B p3 p4" "runs V B (\<lambda>sem :: 'w sem. exec sem b) p3 p4"
    using assms(3) keptD(1) [OF k3] by (rule correctE)
  define p5 where "p5 = start e0 (emit_effect OpBranch [] c0 p4)"
  have ok4: "point_ok p4" by (rule keptD(1) [OF 4(2)])
  have k5: "kept V {} p4 p5" unfolding p5_def by (rule kept_jump) (use ok4 in auto)
  have k35: "kept V {} p3 p5" by (rule kept_local [OF 4(2) k5])
  have k25: "kept V {} p2 p5" and k15: "kept V {} p1 p5"
    by (rule kept_local [OF k3 k35], rule kept_local [OF k13 k35])
  have "runs V {} (\<lambda>sem :: 'w sem. loop sem c b) p p5"
  proof (rule runsI)
    fix f k k5' and sem :: "'w sem" and args s and m :: "'w Machine" and out s'
    assume at: "at_point f p k" "at_point f p5 k5'" and fits: "fits p5" and rel: "related p s m" "dom (fst s) = V"
      and lp: "loop sem c b s out s'"
    obtain k4' where a4: "at_point f p4 k4'" using keptD(5) [OF k5 at(2)] by blast
    obtain k3' where a3: "at_point f p3 k3'" using keptD(5) [OF 4(2) a4] by blast
    obtain k2' where a2: "at_point f p2 k2'" using keptD(5) [OF k3 a3] by blast
    obtain k1' where a1: "at_point f p1 k1'" using keptD(5) [OF 2(2) a2] by blast
    note fit = keptD(6) [OF k25 fits] keptD(6) [OF k5 fits]
    have c0: "block_at f c0 = Some k1'" using at_point_started a1 unfolding p1_def by blast
    have b0: "block_at f b0 = Some k3'" using at_point_started a3 unfolding p3_def by blast
    have e0: "block_at f e0 = Some k5'" using at_point_started at(2) unfolding p5_def by blast
    have enter: "ir_steps sem args f (Run k m) (Run k1' m)"
      by (rule goto_steps [of f "fresh (fresh (fresh p))", OF _ a1 [unfolded p1_def] c0]) (simp add: at(1))
    have cond: "ir_steps sem args f (Run k2' m) (Run (if m_regs m (p_last p2) \<noteq> 0 then k3' else k5') m)" for m
      by (rule cond_steps [OF a2 a3 [unfolded p3_def] _ b0 e0]) (simp add: b0_def assms(2))
    have again: "ir_steps sem args f (Run k4' m) (Run k1' m)" for m
      by (rule goto_steps [OF a4 at(2) [unfolded p5_def] c0])
    have eval_c: "\<exists>m1. ir_steps sem args f (Run k1' m) (Run (if v \<noteq> 0 then k3' else k5') m1) \<and> related p1 s1 m1 \<and> frame V p1 m m1
        \<and> dom (fst s1) = V" if q: "related p1 s m" "dom (fst s) = V" "eval sem c s = Some (v, s1)" for s m v s1
    proof -
      obtain m1 where m1: "ir_steps sem args f (Run k1' m) (Run k2' m1)" "related p2 s1 m1" "frame V p1 m m1" "dom (fst s1) = V"
          "m_regs m1 (p_last p2) = v"
        using 2(5) [OF a1 a2 fit(1) q] by (auto simp: in_reg_def)
      have "end_scope s s1 = s1" using m1(4) q(2) by (simp add: end_scope_same)
      with related_end_scope [OF m1(2) q(1) 2(2) m1(3) q(2)] m1(4) have "related p1 s1 m1" by simp
      with m1 cond [of m1] show ?thesis by (intro exI [of _ m1]) (auto intro: rtranclp_trans)
    qed
    have body: "ends sem args f V V p1 p1 k3' k4' m1 out (end_scope s s2)"
      if "related p1 s1 m1" "dom (fst s1) = V" "dom (fst s) = V" "exec sem b s1 out s2" for s s1 m1 out s2
      using scoped_run [OF 4(3,2) k13 a3 a4 fit(2) that(1,2,4)] that(2,3) by (simp add: end_scope_def)
    have "related p1 s m \<Longrightarrow> dom (fst s) = V \<Longrightarrow> ends sem args f V V p1 p1 k1' k5' m out s'" for m
      using lp
    proof (induction arbitrary: m rule: loop_induct)
      case (1 s s1)
      then show ?case using eval_c [of s m 0 s1] by (auto intro: ends_NormalI)
    next
      case (2 s v s1 x s2)
      obtain m1 where m1: "ir_steps sem args f (Run k1' m) (Run k3' m1)" "related p1 s1 m1" "frame V p1 m m1" "dom (fst s1) = V"
        using eval_c [OF 2(4,5,1)] 2(2) by auto
      show ?case by (rule ends_after [OF m1(1,3)]) (use body [OF m1(2,4) 2(5,3)] in simp)
    next
      case (3 s v s1 s2 out s3)
      obtain m1 where m1: "ir_steps sem args f (Run k1' m) (Run k3' m1)" "related p1 s1 m1" "frame V p1 m m1" "dom (fst s1) = V"
        using eval_c [OF 3(5,6,1)] 3(2) by auto
      obtain m2 where m2: "ir_steps sem args f (Run k3' m1) (Run k4' m2)" "related p1 (end_scope s s2) m2" "frame V p1 m1 m2"
          "dom (fst (end_scope s s2)) = V"
        using body [OF m1(2,4) 3(6,3)] by (rule ends_NormalE)
      have "ends sem args f V V p1 p1 k4' k5' m2 out s3"
        by (rule ends_after [OF again frame_refl 3(4) [OF m2(2,4)]])
      then show ?case by (intro ends_after [OF m1(1,3)] ends_after [OF m2(1,3)])
    qed
    from this [OF related_later [OF rel(1)] rel(2)] k1 rel(2)
    show "ends sem args f V (V \<union> {}) p p5 k k5' m out s'"
      unfolding Un_empty_right
      by (intro ends_later [OF _ k15] ends_after [OF enter frame_refl] ends_earlier [OF _ k1]) simp
  qed
  moreover have "gen_loop cl bl el c (gen_stmt b) (cfg h p) = Some (cfg h p5)"
    using 2(1) 4(1) ok4 by (auto simp: gen_loop_def p1_def p3_def p5_def c0_def b0_def e0_def)
  ultimately show "\<exists>p'. gen_loop cl bl el c (gen_stmt b) (cfg h p) = Some (cfg h p') \<and> kept V {} p p'
      \<and> runs V {} (\<lambda>sem :: 'w sem. loop sem c b) p p'"
    using kept_local [OF k1 k15] by blast
qed


section \<open>The counted loop\<close>

lemma related_earlier:
  assumes "related p' s m'" "related p s m" "kept (dom (fst s)) B p p'"
  shows "related p s m'"
  using assms keptD(3) [OF assms(3)] unfolding related_def by (metis domI option.inject)

lemma related_store_other:
  "related p s m \<Longrightarrow> \<forall>y \<in> dom (fst s). p_slots p y \<noteq> Some r \<Longrightarrow> related p s (set_mem (ucast r) v m)"
  unfolding related_def by (fastforce simp: set_mem_def ucast_inj)

lemma exec_cmp_lt:
  "exec_instr sem args (instr OpCmpLt d [fromReg a, fromReg b] l) m =
    Some (set_reg d (of_bool (sint (m_regs m a) < sint (m_regs m b))) m)"
  by (simp add: exec_instr_def operand_value_def eval_op_def)

lemma exec_add:
  "exec_instr sem args (instr OpAdd d [fromReg a, fromReg b] l) m = Some (set_reg d (m_regs m a + m_regs m b) m)"
  by (simp add: exec_instr_def operand_value_def eval_op_def)

lemma counter_test:
  fixes V :: "string set"
  assumes q: "q1 = emit_value OpLoad [fromReg slot] [] q" "q2 = emit_value OpCopy [fromInt n] [] q1"
      "q3 = emit_value OpCmpLt [fromReg (next_reg q), fromReg (next_reg q1)] [] q2"
    and at: "at_point f q k" "at_point f q3 k3" and fits: "fits q3"
    and m: "related q s m" "allocated q slot" "m_regs m slot = ucast slot"
  obtains m' where "ir_steps sem args f (Run k m) (Run k3 m')" "related q3 s m'" "frame V q m m'"
    "m_regs m' (next_reg q2) = of_bool (sint (m_mem m (ucast slot)) < sint n)" "m_mem m' = m_mem m"
proof -
  have regs: "p_reg q1 = Suc (p_reg q)" "p_reg q2 = Suc (p_reg q1)" "p_reg q3 = Suc (p_reg q2)" by (simp_all add: q)
  have f2: "fits q2" by (rule fits_mono [OF fits]) (simp add: regs)
  have f1: "fits q1" by (rule fits_mono [OF f2]) (simp add: regs)
  obtain k2 where a2: "at_point f q2 k2" using at_point_value at(2) unfolding q(3) by blast
  obtain k1 where a1: "at_point f q1 k1" using at_point_value a2 unfolding q(2) by blast
  obtain m1 where m1: "ir_steps sem args f (Run k m) (Run k1 m1)" "related q1 s m1" "frame V q m m1"
      "m_regs m1 (next_reg q) = m_mem m (ucast slot)" "m_mem m1 = m_mem m"
    by (rule value_run [OF at(1) a1 q(1) _ f1 m(1) exec_load, where V = V]) (simp_all add: m(3))
  obtain m2 where m2: "ir_steps sem args f (Run k1 m1) (Run k2 m2)" "related q2 s m2" "frame V q1 m1 m2"
      "m_regs m2 (next_reg q1) = n" "m_mem m2 = m_mem m1"
    by (rule value_run [OF a1 a2 q(2) _ f2 m1(2) exec_literals(1), where V = V]) simp_all
  obtain m3 where m3: "ir_steps sem args f (Run k2 m2) (Run k3 m3)" "related q3 s m3" "frame V q2 m2 m3"
      "m_regs m3 (next_reg q2) = of_bool (sint (m_regs m2 (next_reg q)) < sint (m_regs m2 (next_reg q1)))" "m_mem m3 = m_mem m2"
    by (rule value_run [OF a2 at(2) q(3) _ fits m2(2) exec_cmp_lt, where V = V]) simp_all
  have "m_regs m2 (next_reg q) = m_regs m1 (next_reg q)"
    by (rule frame_regs [OF m2(3) next_reg_allocated [OF f1 regs(1)]])
  moreover have "frame V q m m3"
    by (rule frame_trans [OF m1(3) frame_trans [OF m2(3) m3(3)]]) (simp_all add: q)
  ultimately show thesis using m1 m2 m3 by (intro that [of m3]) (auto intro: rtranclp_trans)
qed

lemma counter_step:
  assumes q: "q1 = emit_value OpLoad [fromReg slot] [] q" "q2 = emit_value OpCopy [fromInt 1] [] q1"
      "q3 = emit_value OpAdd [fromReg (next_reg q), fromReg (next_reg q1)] [] q2"
      "q4 = emit_effect OpStore [fromReg (next_reg q2), fromReg slot] [] q3"
    and at: "at_point f q k" "at_point f q4 k4" and fits: "fits q4"
    and m: "related q s m" "allocated q slot" "m_regs m slot = ucast slot" "\<forall>y \<in> dom (fst s). p_slots q y \<noteq> Some slot"
    and p: "kept V B p q" "\<not> allocated p slot"
  obtains m' where "ir_steps sem args f (Run k m) (Run k4 m')" "related q4 s m'" "frame V p m m'"
    "m_regs m' slot = ucast slot" "m_mem m' (ucast slot) = m_mem m (ucast slot) + 1"
proof -
  have regs: "p_reg q1 = Suc (p_reg q)" "p_reg q2 = Suc (p_reg q1)" "p_reg q3 = Suc (p_reg q2)" "p_reg q4 = p_reg q3"
    by (simp_all add: q)
  have f3: "fits q3" by (rule fits_mono [OF fits]) (simp add: regs)
  have f2: "fits q2" by (rule fits_mono [OF f3]) (simp add: regs)
  have f1: "fits q1" by (rule fits_mono [OF f2]) (simp add: regs)
  obtain k3 where a3: "at_point f q3 k3" using at_point_effect at(2) unfolding q(4) by blast
  obtain k2 where a2: "at_point f q2 k2" using at_point_value a3 unfolding q(3) by blast
  obtain k1 where a1: "at_point f q1 k1" using at_point_value a2 unfolding q(2) by blast
  obtain m1 where m1: "ir_steps sem args f (Run k m) (Run k1 m1)" "related q1 s m1" "frame V q m m1"
      "m_regs m1 (next_reg q) = m_mem m (ucast slot)" "m_mem m1 = m_mem m"
    by (rule value_run [OF at(1) a1 q(1) _ f1 m(1) exec_load, where V = V]) (simp_all add: m(3))
  obtain m2 where m2: "ir_steps sem args f (Run k1 m1) (Run k2 m2)" "related q2 s m2" "frame V q1 m1 m2"
      "m_regs m2 (next_reg q1) = 1" "m_mem m2 = m_mem m1"
    by (rule value_run [OF a1 a2 q(2) _ f2 m1(2) exec_literals(1), where V = V]) simp_all
  obtain m3 where m3: "ir_steps sem args f (Run k2 m2) (Run k3 m3)" "related q3 s m3" "frame V q2 m2 m3"
      "m_regs m3 (next_reg q2) = m_regs m2 (next_reg q) + m_regs m2 (next_reg q1)" "m_mem m3 = m_mem m2"
    by (rule value_run [OF a2 a3 q(3) _ f3 m2(2) exec_add, where V = V]) simp_all
  have "m_regs m2 (next_reg q) = m_regs m1 (next_reg q)"
    by (rule frame_regs [OF m2(3) next_reg_allocated [OF f1 regs(1)]])
  then have inc: "m_regs m3 (next_reg q2) = m_mem m (ucast slot) + 1" using m1(4) m2(4) m3(4) by simp
  have fr: "frame V q m m3"
    by (rule frame_trans [OF m1(3) frame_trans [OF m2(3) m3(3)]]) (simp_all add: q)
  have slot: "m_regs m3 slot = ucast slot" using frame_regs [OF fr m(2)] m(3) by simp
  define m4 where "m4 = set_mem (ucast slot) (m_mem m (ucast slot) + 1) m3"
  have "ir_steps sem args f (Run k3 m3) (Run k4 m4)"
    using store_steps [OF a3 at(2) [unfolded q(4)], of sem args m3] by (simp add: slot inc m4_def)
  moreover have "related q4 s m4"
    using related_store_other [OF m3(2), of slot] m(4) unfolding m4_def by (simp add: q related_def allocated_def)
  moreover have "frame V p m m4"
    unfolding m4_def by (rule frame_join [OF frame_earlier [OF fr p(1)] frame_store_new [OF p(2)]])
  ultimately show thesis using m1(1) m2(1) m3(1) slot
    by (intro that [of m4]) (auto simp: m4_def set_mem_def intro: rtranclp_trans)
qed

lemma sint_counter: "j \<le> nat (sint (n :: i64)) \<Longrightarrow> sint (of_nat j :: i64) = int j"
proof -
  assume "j \<le> nat (sint n)"
  then have "int j \<le> max 0 (sint n)" by linarith
  moreover have "sint n < 2 ^ 63" using sint_lt [of n] by simp
  ultimately have "signed_take_bit 63 (int j) = int j" by (intro signed_take_bit_int_eq_self) simp_all
  with sint_sbintrunc' [where 'a = 64, of "int j"] show ?thesis by simp
qed


lemma counter_init:
  fixes V :: "string set"
  assumes q: "qa = emit_value OpAlloca [] x q" "qb = emit_value OpCopy [fromInt 0] [] qa"
      "qc = emit_effect OpStore [fromReg (next_reg qa), fromReg (next_reg q)] [] qb"
    and at: "at_point f q k" "at_point f qc kc" and fits: "fits qc" and m: "related q s m"
  obtains m' where "ir_steps sem args f (Run k m) (Run kc m')" "related qc s m'" "frame V q m m'"
    "m_regs m' (next_reg q) = ucast (next_reg q)" "m_mem m' (ucast (next_reg q)) = 0"
proof -
  have regs: "p_reg qa = Suc (p_reg q)" "p_reg qb = Suc (p_reg qa)" "p_reg qc = p_reg qb" by (simp_all add: q)
  have fb: "fits qb" by (rule fits_mono [OF fits]) (simp add: regs)
  have fa: "fits qa" by (rule fits_mono [OF fb]) (simp add: regs)
  have new: "\<not> allocated q (next_reg q)" using next_reg_fresh [OF fa regs(1)] by blast
  obtain kb where ab: "at_point f qb kb" using at_point_effect at(2) unfolding q(3) by blast
  obtain ka where aa: "at_point f qa ka" using at_point_value ab unfolding q(2) by blast
  obtain m1 where m1: "ir_steps sem args f (Run k m) (Run ka m1)" "related qa s m1" "frame V q m m1"
      "m_regs m1 (next_reg q) = ucast (next_reg q)"
    by (rule value_run [OF at(1) aa q(1) _ fa m exec_alloca, where V = V]) simp_all
  obtain m2 where m2: "ir_steps sem args f (Run ka m1) (Run kb m2)" "related qb s m2" "frame V qa m1 m2"
      "m_regs m2 (next_reg qa) = 0"
    by (rule value_run [OF aa ab q(2) _ fb m1(2) exec_literals(1), where V = V]) simp_all
  have slot: "m_regs m2 (next_reg q) = ucast (next_reg q)"
    using frame_regs [OF m2(3) next_reg_allocated [OF fa regs(1)]] m1(4) by simp
  define m3 where "m3 = set_mem (ucast (next_reg q)) 0 m2"
  have "ir_steps sem args f (Run kb m2) (Run kc m3)"
    using store_steps [OF ab at(2) [unfolded q(3)], of sem args m2] by (simp add: slot m2(4) m3_def)
  moreover have "\<forall>y \<in> dom (fst s). p_slots qb y \<noteq> Some (next_reg q)"
    using new related_slots_allocated [OF m] by (auto simp: q)
  then have "related qb s m3" unfolding m3_def by (rule related_store_other [OF m2(2)])
  then have "related qc s m3" by (simp add: q related_def allocated_def)
  moreover have "frame V q m2 m3" unfolding m3_def by (rule frame_store_new [OF new])
  moreover have "frame V q m m2" by (rule frame_trans [OF m1(3) m2(3)]) (simp_all add: q)
  ultimately show thesis using m1(1) m2(1) slot
    by (intro that [of m3]) (auto simp: m3_def set_mem_def intro: rtranclp_trans frame_join)
qed

definition counts :: "RegID \<Rightarrow> 'w Machine \<Rightarrow> nat \<Rightarrow> bool" where
  "counts slot m j \<longleftrightarrow> m_regs m slot = ucast slot \<and> m_mem m (ucast slot) = of_nat j"

lemma counts_frame:
  "counts slot m j \<Longrightarrow> frame V q m m' \<Longrightarrow> allocated q slot \<Longrightarrow> \<forall>y \<in> V. p_slots q y \<noteq> Some slot \<Longrightarrow> counts slot m' j"
  by (auto simp: counts_def frame_def)

lemma counter_loop:
  fixes n :: i64
  assumes kept: "kept V {} p q"
    and test: "\<And>s m j. related q s m \<Longrightarrow> dom (fst s) = V \<Longrightarrow> counts slot m j \<Longrightarrow> \<exists>m1. related q s m1 \<and> frame V q m m1 \<and>
      counts slot m1 j \<and> ir_steps sem args f (Run k m) (Run (if sint (of_nat j :: i64) < sint n then kb else ke) m1)"
    and body: "\<And>s m out s2. related q s m \<Longrightarrow> dom (fst s) = V \<Longrightarrow> exec sem b s out s2 \<Longrightarrow>
      ends sem args f V V q q kb kb' m out (end_scope s s2)"
    and step: "\<And>s m j. related q s m \<Longrightarrow> dom (fst s) = V \<Longrightarrow> counts slot m j \<Longrightarrow> \<exists>m1. related q s m1 \<and> frame V p m m1 \<and>
      counts slot m1 (Suc j) \<and> ir_steps sem args f (Run kb' m) (Run k m1)"
    and slot: "allocated q slot" "\<forall>y \<in> V. p_slots q y \<noteq> Some slot"
  shows "repeat sem b i s out s' \<Longrightarrow> j + i = nat (sint n) \<Longrightarrow> related q s m \<Longrightarrow> dom (fst s) = V \<Longrightarrow> counts slot m j
    \<Longrightarrow> ends sem args f V V p q k ke m out s'"
proof (induction i arbitrary: j s m)
  case 0
  obtain m1 where "related q s m1" "frame V q m m1"
      "ir_steps sem args f (Run k m) (Run (if sint (of_nat j :: i64) < sint n then kb else ke) m1)"
    using test [OF 0(3-5)] by blast
  moreover have "\<not> sint (of_nat j :: i64) < sint n" using 0(2) sint_counter [of j n] by simp
  ultimately show ?case using 0(1,4) frame_earlier [OF _ kept] by (auto elim!: repeat_zeroE intro: ends_NormalI)
next
  case (Suc i)
  obtain m1 where m1: "related q s m1" "frame V q m m1" "counts slot m1 j"
      "ir_steps sem args f (Run k m) (Run (if sint (of_nat j :: i64) < sint n then kb else ke) m1)"
    using test [OF Suc.prems(3-5)] by blast
  have "sint (of_nat j :: i64) < sint n" using Suc.prems(2) sint_counter [of j n] by simp
  with m1(4) have to_body: "ir_steps sem args f (Run k m) (Run kb m1)" by simp
  have fr: "frame V p m m1" by (rule frame_earlier [OF m1(2) kept])
  from Suc.prems(1) show ?case
  proof (rule repeat_SucE)
    fix x assume x: "exec sem b s (Returned x) s'" "out = Returned x"
    from body [OF m1(1) Suc.prems(4) x(1)] show ?thesis
      unfolding x(2) by (intro ends_after [OF to_body fr]) simp
  next
    fix s1 assume x: "exec sem b s Normal s1" "repeat sem b i (end_scope s s1) out s'"
    obtain m2 where m2: "ir_steps sem args f (Run kb m1) (Run kb' m2)" "related q (end_scope s s1) m2" "frame V q m1 m2"
        "dom (fst (end_scope s s1)) = V"
      using body [OF m1(1) Suc.prems(4) x(1)] by (rule ends_NormalE)
    obtain m3 where m3: "related q (end_scope s s1) m3" "frame V p m2 m3" "counts slot m3 (Suc j)"
        "ir_steps sem args f (Run kb' m2) (Run k m3)"
      using step [OF m2(2,4) counts_frame [OF m1(3) m2(3) slot]] by blast
    have "ends sem args f V V p q k ke m3 out s'"
      by (rule Suc.IH [OF x(2) _ m3(1) m2(4) m3(3)]) (use Suc.prems(2) in simp)
    then show ?thesis
      by (intro ends_after [OF to_body fr] ends_after [OF m2(1) frame_earlier [OF m2(3) kept]] ends_after [OF m3(4,2)])
  qed
qed

lemma correct_vloop_count:
  assumes "correct V B (gen_stmt b) (\<lambda>sem :: 'w sem. exec sem b) h"
  shows "correct V {} (gen_stmt (VloopStmt (IntLiteralExpr n r') b r)) (\<lambda>sem :: 'w sem. repeat sem b (nat (sint n))) h"
proof (rule correctI)
  fix p assume p: "point_ok p"
  define x where "x = lab ''vloop_counter'' (p_lc p)"
  define c0 where "c0 = lab ''vloop_cond'' (Suc (p_lc p))"
  define b0 where "b0 = lab ''vloop_body'' (Suc (Suc (p_lc p)))"
  define e0 where "e0 = lab ''vloop_exit'' (Suc (Suc (Suc (p_lc p))))"
  define p0 where "p0 = fresh (fresh (fresh (fresh p)))"
  define slot where "slot = next_reg p0"
  define pa where "pa = emit_value OpAlloca [] x p0"
  define pb where "pb = emit_value OpCopy [fromInt 0] [] pa"
  define pc where "pc = emit_effect OpStore [fromReg (next_reg pa), fromReg slot] [] pb"
  define p1 where "p1 = start c0 (emit_effect OpBranch [] c0 pc)"
  define q1 where "q1 = emit_value OpLoad [fromReg slot] [] p1"
  define q2 where "q2 = emit_value OpCopy [fromInt n] [] q1"
  define q3 where "q3 = emit_value OpCmpLt [fromReg (next_reg p1), fromReg (next_reg q1)] [] q2"
  define p3 where "p3 = start b0 (emit_effect OpCondBranch [fromReg (next_reg q2)] (b0 @ '','' @ e0) q3)"
  note head = p0_def pa_def pb_def pc_def slot_def
  have ok0: "point_ok p0" "kept V {} p p0" using p by (simp_all add: p0_def kept_fresh kept_refl)
  have sa: "straight p0 pa" unfolding pa_def by (rule straight_value [OF ok0(1)]) simp_all
  have sb: "straight pa pb" unfolding pb_def by (rule straight_value [OF straight_ok [OF sa]]) simp_all
  have sc: "straight pb pc" unfolding pc_def
    by (rule straight_store [OF straight_ok [OF sb]]) (simp_all add: pb_def pa_def slot_def)
  have sabc: "straight p0 pc" by (rule straight_trans [OF sa straight_trans [OF sb sc]])
  have k1: "kept V {} pc p1" unfolding p1_def by (rule kept_jump [OF straight_ok [OF sabc]]) simp_all
  have kp1: "kept V {} p p1" by (rule kept_local [OF kept_local [OF ok0(2) kept_straight [OF ok0(1) sabc]] k1])
  have known1: "slot \<in> known p1" by (simp add: p1_def pc_def pb_def pa_def slot_def)
  have s1: "straight p1 q1" unfolding q1_def by (rule straight_value [OF keptD(1) [OF kp1]]) (simp_all add: known1)
  have s2: "straight q1 q2" unfolding q2_def by (rule straight_value [OF straight_ok [OF s1]]) simp_all
  have s3: "straight q2 q3" unfolding q3_def
    by (rule straight_value [OF straight_ok [OF s2]]) (simp_all add: q2_def q1_def)
  have s123: "straight p1 q3" by (rule straight_trans [OF s1 straight_trans [OF s2 s3]])
  have kq: "kept V {} p1 q3" by (rule kept_straight [OF keptD(1) [OF kp1] s123])
  have k3: "kept V {} q3 p3" unfolding p3_def by (rule kept_jump [OF straight_ok [OF s123]]) (simp_all add: q3_def q2_def)
  have k13: "kept V {} p1 p3" by (rule kept_local [OF kq k3])
  obtain p4 where 4: "gen_stmt b (cfg h p3) = Some (cfg h p4)" "kept V B p3 p4" "runs V B (\<lambda>sem :: 'w sem. exec sem b) p3 p4"
    using assms keptD(1) [OF k3] by (rule correctE)
  define t1 where "t1 = emit_value OpLoad [fromReg slot] [] p4"
  define t2 where "t2 = emit_value OpCopy [fromInt 1] [] t1"
  define t3 where "t3 = emit_value OpAdd [fromReg (next_reg p4), fromReg (next_reg t1)] [] t2"
  define t4 where "t4 = emit_effect OpStore [fromReg (next_reg t2), fromReg slot] [] t3"
  define p5 where "p5 = start e0 (emit_effect OpBranch [] c0 t4)"
  have ok4: "point_ok p4" and slot4: "slot \<in> known p4"
    by (rule keptD(1) [OF 4(2)], rule keptD(7) [OF 4(2) keptD(7) [OF k13 known1]])
  have l1: "straight p4 t1" unfolding t1_def by (rule straight_value [OF ok4]) (simp_all add: slot4)
  have l2: "straight t1 t2" unfolding t2_def by (rule straight_value [OF straight_ok [OF l1]]) simp_all
  have l3: "straight t2 t3" unfolding t3_def
    by (rule straight_value [OF straight_ok [OF l2]]) (simp_all add: t2_def t1_def)
  have l4: "straight t3 t4" unfolding t4_def
    by (rule straight_store [OF straight_ok [OF l3]]) (simp_all add: t3_def t2_def t1_def slot4)
  have loc: "straight p4 t4" by (rule straight_trans [OF l1 straight_trans [OF l2 straight_trans [OF l3 l4]]])
  have k4: "kept V {} p4 t4" by (rule kept_straight [OF keptD(1) [OF 4(2)] loc])
  have k5: "kept V {} t4 p5" unfolding p5_def by (rule kept_jump [OF straight_ok [OF loc]]) simp_all
  have k15: "kept V {} p1 p5" by (rule kept_local [OF kept_local [OF k13 4(2)] kept_local [OF k4 k5]])
  have "runs V {} (\<lambda>sem :: 'w sem. repeat sem b (nat (sint n))) p p5"
  proof (rule runsI)
    fix f k k5' and sem :: "'w sem" and args s and m :: "'w Machine" and out s'
    assume at: "at_point f p k" "at_point f p5 k5'" and fits: "fits p5" and rel: "related p s m" "dom (fst s) = V"
      and rep: "repeat sem b (nat (sint n)) s out s'"
    obtain kt where at4: "at_point f t4 kt" using keptD(5) [OF k5 at(2)] by blast
    obtain k4' where a4: "at_point f p4 k4'" using keptD(5) [OF k4 at4] by blast
    obtain k3' where a3: "at_point f p3 k3'" using keptD(5) [OF 4(2) a4] by blast
    obtain kq' where aq: "at_point f q3 kq'" using keptD(5) [OF k3 a3] by blast
    obtain k1' where a1: "at_point f p1 k1'" using keptD(5) [OF kq aq] by blast
    obtain kc where ac: "at_point f pc kc" using keptD(5) [OF k1 a1] by blast
    have ft: "fits t4" by (rule keptD(6) [OF k5 fits])
    have f4: "fits p4" by (rule keptD(6) [OF k4 ft])
    have f3: "fits p3" by (rule keptD(6) [OF 4(2) f4])
    have fq: "fits q3" by (rule keptD(6) [OF k3 f3])
    have f1: "fits p1" by (rule keptD(6) [OF kq fq])
    have fc: "fits pc" by (rule keptD(6) [OF k1 f1])
    have at0: "at_point f p0 k" "related p0 s m" using at(1) rel(1) by (simp_all add: p0_def related_def allocated_def)
    have regs: "p_reg p0 = p_reg p" "p_reg p1 = Suc (Suc (p_reg p0))" by (simp_all add: p0_def p1_def pc_def pb_def pa_def)
    have fa: "fits pa" by (rule fits_mono [OF fc]) (simp add: pc_def pb_def)
    have new: "\<not> allocated p slot"
      using next_reg_fresh [OF fa, of p0 slot] by (auto simp: slot_def pa_def allocated_def p0_def)
    have slot1: "allocated p1 slot"
      using next_reg_allocated [OF fa, of p0] by (auto simp: slot_def pa_def p1_def pc_def pb_def intro: allocated_mono)
    have other: "\<forall>y \<in> V. p_slots p1 y \<noteq> Some slot"
      using new related_slots_allocated [OF rel(1)] keptD(3) [OF kp1] rel(2) by metis
    have c0: "block_at f c0 = Some k1'" using at_point_started a1 unfolding p1_def by blast
    have b0: "block_at f b0 = Some k3'" using at_point_started a3 unfolding p3_def by blast
    have e0: "block_at f e0 = Some k5'" using at_point_started at(2) unfolding p5_def by blast
    obtain m0 where m0: "ir_steps sem args f (Run k m) (Run kc m0)" "related pc s m0" "frame V p0 m m0"
        "m_regs m0 slot = ucast slot" "m_mem m0 (ucast slot) = 0"
      by (rule counter_init [OF pa_def pb_def pc_def [unfolded slot_def] at0(1) ac fc at0(2), where V = V])
        (auto simp: slot_def)
    have enter: "ir_steps sem args f (Run kc m0) (Run k1' m0)" by (rule goto_steps [OF ac a1 [unfolded p1_def] c0])
    have r1: "related p1 s m0" by (rule related_later [OF m0(2)]) (use k1 rel(2) in simp)
    have fr0: "frame V p m m0" using m0(3) by (simp add: p0_def frame_def allocated_def)
    have "ends sem args f V V p p1 k1' k5' m0 out s'"
    proof (rule counter_loop [OF kp1 _ _ _ slot1 other rep _ r1 rel(2), where j = 0])
      fix s and m :: "'w Machine" and j
      assume r: "related p1 s m" "dom (fst s) = V" and c: "counts slot m j"
      obtain m1 where m1: "ir_steps sem args f (Run k1' m) (Run kq' m1)" "related q3 s m1" "frame V p1 m m1"
          "m_regs m1 (next_reg q2) = of_bool (sint (m_mem m (ucast slot)) < sint n)"
        by (rule counter_test [OF q1_def q2_def q3_def a1 aq fq r(1) slot1, where V = V]) (use c in \<open>auto simp: counts_def\<close>)
      have "ir_steps sem args f (Run kq' m1) (Run (if sint (of_nat j :: i64) < sint n then k3' else k5') m1)"
        using cond_steps [OF aq a3 [unfolded p3_def] _ b0 e0, of sem args m1] m1(4) c by (simp add: b0_def counts_def)
      moreover have "related p1 s m1" by (rule related_earlier [OF m1(2) r(1)]) (use kq r(2) in simp)
      ultimately show "\<exists>m1. related p1 s m1 \<and> frame V p1 m m1 \<and> counts slot m1 j
          \<and> ir_steps sem args f (Run k1' m) (Run (if sint (of_nat j :: i64) < sint n then k3' else k5') m1)"
        using m1(1,3) counts_frame [OF c m1(3) slot1 other] by (intro exI [of _ m1]) (auto intro: rtranclp_trans)
    next
      fix s and m :: "'w Machine" and out s2
      assume "related p1 s m" "dom (fst s) = V" "exec sem b s out s2"
      then show "ends sem args f V V p1 p1 k3' k4' m out (end_scope s s2)"
        by (rule scoped_run [OF 4(3,2) k13 a3 a4 f4])
    next
      fix s and m :: "'w Machine" and j
      assume r: "related p1 s m" "dom (fst s) = V" and c: "counts slot m j"
      have kp4: "kept V {} p1 p4" by (rule kept_local [OF k13 4(2)])
      have r4: "related p4 s m" by (rule related_later [OF r(1)]) (use kp4 r(2) in simp)
      have other4: "\<forall>y \<in> dom (fst s). p_slots p4 y \<noteq> Some slot" using other keptD(3) [OF kp4] r(2) by simp
      obtain m1 where m1: "ir_steps sem args f (Run k4' m) (Run kt m1)" "related t4 s m1" "frame V p m m1"
          "m_regs m1 slot = ucast slot" "m_mem m1 (ucast slot) = m_mem m (ucast slot) + 1"
        by (rule counter_step [OF t1_def t2_def t3_def t4_def a4 at4 ft r4 allocated_mono [OF slot1 keptD(2) [OF kp4]] _ other4
            kept_local [OF kp1 kp4] new]) (use c in \<open>auto simp: counts_def\<close>)
      have "ir_steps sem args f (Run kt m1) (Run k1' m1)" by (rule goto_steps [OF at4 at(2) [unfolded p5_def] c0])
      moreover have "related p1 s m1" by (rule related_earlier [OF m1(2) r(1)]) (use kept_local [OF kp4 k4] r(2) in simp)
      moreover have "counts slot m1 (Suc j)" using m1(4,5) c by (simp add: counts_def)
      ultimately show "\<exists>m1. related p1 s m1 \<and> frame V p m m1 \<and> counts slot m1 (Suc j)
          \<and> ir_steps sem args f (Run k4' m) (Run k1' m1)"
        using m1(1,3) by (intro exI [of _ m1]) (auto intro: rtranclp_trans)
    qed (use m0(4,5) in \<open>simp_all add: counts_def\<close>)
    then have "ends sem args f V V p p1 k k5' m out s'"
      by (intro ends_after [OF m0(1) fr0] ends_after [OF enter frame_refl])
    then show "ends sem args f V (V \<union> {}) p p5 k k5' m out s'" unfolding Un_empty_right by (rule ends_later [OF _ k15])
  qed
  moreover have "gen_stmt (VloopStmt (IntLiteralExpr n r') b r) (cfg h p) = Some (cfg h p5)"
    using 4(1) keptD(1) [OF 4(2)] by (simp add: p5_def t4_def t3_def t2_def t1_def p3_def q3_def q2_def q1_def p1_def pc_def pb_def
        pa_def slot_def p0_def x_def c0_def b0_def e0_def)
  ultimately show "\<exists>p'. gen_stmt (VloopStmt (IntLiteralExpr n r') b r) (cfg h p) = Some (cfg h p') \<and> kept V {} p p'
      \<and> runs V {} (\<lambda>sem :: 'w sem. repeat sem b (nat (sint n))) p p'"
    using kept_local [OF kp1 k15] by blast
qed


section \<open>Match\<close>

text \<open>
  Arms with a wildcard among them: the last point is closed with the jump to the exit block, and every
  execution comes out there.
\<close>

definition runs_arms :: "string set \<Rightarrow> RegID \<Rightarrow> ('w sem \<Rightarrow> i64 \<Rightarrow> 'w source_state \<Rightarrow> ending \<Rightarrow> 'w source_state \<Rightarrow> bool)
    \<Rightarrow> Point \<Rightarrow> Point \<Rightarrow> bool" where
  "runs_arms V subj X p p' \<longleftrightarrow> (\<forall>f k k' sem args s m out s'. at_point f p k \<longrightarrow> at_point f p' k' \<longrightarrow> fits p' \<longrightarrow>
     related p s m \<longrightarrow> dom (fst s) = V \<longrightarrow> allocated p subj \<longrightarrow> X sem (m_regs m subj) s out s'
       \<longrightarrow> ends sem args f V V p p' k k' m out s')"

lemma runs_armsI:
  assumes "\<And>f k k' sem args s m out s'. at_point f p k \<Longrightarrow> at_point f p' k' \<Longrightarrow> fits p' \<Longrightarrow>
     related p s m \<Longrightarrow> dom (fst s) = V \<Longrightarrow> allocated p subj \<Longrightarrow> X sem (m_regs m subj) s out s'
     \<Longrightarrow> ends sem args f V V p p' k k' m out s'"
  shows "runs_arms V subj X p p'"
  using assms unfolding runs_arms_def by blast

lemma runs_armsD:
  "runs_arms V subj X p p' \<Longrightarrow> at_point f p k \<Longrightarrow> at_point f p' k' \<Longrightarrow> fits p' \<Longrightarrow>
     related p s m \<Longrightarrow> dom (fst s) = V \<Longrightarrow> allocated p subj \<Longrightarrow> X sem (m_regs m subj) s out s'
     \<Longrightarrow> ends sem args f V V p p' k k' m out s'"
  unfolding runs_arms_def by blast

lemma wildcard_arm_run:
  assumes body: "correct V B (gen_stmt body) (\<lambda>sem :: 'w sem. exec sem body) h" and p: "point_ok p"
  shows "\<exists>q. gen_arms subj x (MatchArm None body # as) (cfg h p) = Some (cfg h (emit_effect OpBranch [] x q))
    \<and> kept V {} p (start x (emit_effect OpBranch [] x q))
    \<and> runs_arms V subj (\<lambda>sem :: 'w sem. \<lambda>v. arms sem v (MatchArm None body # as)) p (start x (emit_effect OpBranch [] x q))"
proof -
  define b0 where "b0 = lab ''match_arm'' (p_lc p)"
  define p0 where "p0 = (if as \<noteq> [] then fresh (fresh p) else fresh p)"
  have k0: "kept V {} p p0" using p by (simp add: p0_def kept_fresh kept_refl)
  define p2 where "p2 = start b0 (emit_effect OpBranch [] b0 p0)"
  have k2: "kept V {} p0 p2" unfolding p2_def by (rule kept_jump [OF keptD(1) [OF k0]]) simp_all
  have kp2: "kept V {} p p2" by (rule kept_local [OF k0 k2])
  obtain p3 where 3: "gen_stmt body (cfg h p2) = Some (cfg h p3)" "kept V B p2 p3" "runs V B (\<lambda>sem :: 'w sem. exec sem body) p2 p3"
    using body keptD(1) [OF k2] by (rule correctE)
  define p4 where "p4 = start x (emit_effect OpBranch [] x p3)"
  have k4: "kept V {} p3 p4" unfolding p4_def by (rule kept_jump [OF keptD(1) [OF 3(2)]]) simp_all
  have kp4: "kept V {} p p4" by (rule kept_local [OF kept_local [OF kp2 3(2)] k4])
  have "runs_arms V subj (\<lambda>sem :: 'w sem. \<lambda>v. arms sem v (MatchArm None body # as)) p p4"
  proof (rule runs_armsI)
    fix f k k4' and sem :: "'w sem" and args s and m :: "'w Machine" and out s'
    assume at: "at_point f p k" "at_point f p4 k4'" and fits: "fits p4" and rel: "related p s m" "dom (fst s) = V"
      and ex: "arms sem (m_regs m subj) (MatchArm None body # as) s out s'"
    obtain k3' where a3: "at_point f p3 k3'" using keptD(5) [OF k4 at(2)] by blast
    obtain k2' where a2: "at_point f p2 k2'" using keptD(5) [OF 3(2) a3] by blast
    have x: "block_at f x = Some k4'" using at_point_started at(2) unfolding p4_def by blast
    have b0: "block_at f b0 = Some k2'" using at_point_started a2 unfolding p2_def by blast
    have "at_point f p0 k" using at(1) by (simp add: p0_def)
    then have enter: "ir_steps sem args f (Run k m) (Run k2' m)" by (rule goto_steps [OF _ a2 [unfolded p2_def] b0])
    obtain s2 where s2: "exec sem body s out s2" "s' = end_scope s s2" using ex by (auto elim: arms_ConsE)
    have "ends sem args f V V p p k2' k3' m out s'" unfolding s2(2)
      by (rule scoped_run [OF 3(3,2) kp2 a2 a3 keptD(6) [OF k4 fits] rel s2(1)])
    then have "ends sem args f V V p p k k4' m out s'"
      by (rule ends_after [OF enter frame_refl ends_goto [OF _ goto_steps [OF a3 at(2) [unfolded p4_def] x]]])
    then show "ends sem args f V V p p4 k k4' m out s'" by (rule ends_later [OF _ kp4])
  qed
  moreover have "gen_arms subj x (MatchArm None body # as) (cfg h p) = Some (cfg h (emit_effect OpBranch [] x p3))"
    using 3(1) keptD(1) [OF 3(2)] by (cases "as = []") (simp_all add: gen_arms_Cons gen_pattern_def p0_def p2_def b0_def del: gen_arms.simps)
  ultimately show ?thesis using kp4 unfolding p4_def by blast
qed

lemma exec_cmp_eq:
  "exec_instr sem args (instr OpCmpEq d [fromReg a, fromReg b] l) m =
    Some (set_reg d (of_bool (m_regs m a = m_regs m b)) m)"
  by (simp add: exec_instr_def operand_value_def eval_op_def)

lemma pattern_arm_run:
  assumes e: "safe V e" and body: "correct V B (gen_stmt body) (\<lambda>sem :: 'w sem. exec sem body) h"
    and as: "as \<noteq> []" and p: "point_ok p" "subj \<in> known p"
    and rest: "\<And>p. point_ok p \<Longrightarrow> subj \<in> known p \<Longrightarrow> \<exists>q. gen_arms subj x as (cfg h p) = Some (cfg h (emit_effect OpBranch [] x q))
      \<and> kept V {} p (start x (emit_effect OpBranch [] x q))
      \<and> runs_arms V subj (\<lambda>sem :: 'w sem. \<lambda>v. arms sem v as) p (start x (emit_effect OpBranch [] x q))"
  shows "\<exists>q. gen_arms subj x (MatchArm (Some e) body # as) (cfg h p) = Some (cfg h (emit_effect OpBranch [] x q))
    \<and> kept V {} p (start x (emit_effect OpBranch [] x q))
    \<and> runs_arms V subj (\<lambda>sem :: 'w sem. \<lambda>v. arms sem v (MatchArm (Some e) body # as)) p (start x (emit_effect OpBranch [] x q))"
proof -
  define b0 where "b0 = lab ''match_arm'' (p_lc p)"
  define y where "y = lab ''match_next'' (Suc (p_lc p))"
  define p0 where "p0 = fresh (fresh p)"
  have k0: "kept V {} p p0" using p by (simp add: p0_def kept_fresh kept_refl)
  obtain p1 where 1: "gen_expr e (cfg h p0) = Some (cfg h p1)" "kept V {} p0 p1" "straight p0 p1" "p_last p1 \<in> known p1"
    "\<And>f k k' (sem :: 'w sem) args s m v s'. at_point f p0 k \<Longrightarrow> at_point f p1 k' \<Longrightarrow> fits p1 \<Longrightarrow> related p0 s m \<Longrightarrow>
       dom (fst s) = V \<Longrightarrow> eval sem e s = Some (v, s') \<Longrightarrow>
       \<exists>m'. ir_steps sem args f (Run k m) (Run k' m') \<and> related p1 s' m' \<and> frame V p0 m m' \<and> dom (fst s') = V
         \<and> in_reg p1 (p_last p1) m' v"
    by (rule expr_runs [OF keptD(1) [OF k0] e, where h = h]) blast
  define q1 where "q1 = emit_value OpCmpEq [fromReg subj, fromReg (p_last p1)] [] p1"
  define p2 where "p2 = start b0 (emit_effect OpCondBranch [fromReg (next_reg p1)] (b0 @ '','' @ y) q1)"
  have kp1: "kept V {} p p1" by (rule kept_local [OF k0 1(2)])
  have sq: "straight p1 q1" unfolding q1_def
    by (rule straight_value [OF keptD(1) [OF kp1]]) (use 1(4) keptD(7) [OF kp1 p(2)] in auto)
  have kq: "kept V {} p1 q1" by (rule kept_straight [OF keptD(1) [OF kp1] sq])
  have kpq: "kept V {} p q1" by (rule kept_local [OF kp1 kq])
  have k2: "kept V {} q1 p2" unfolding p2_def by (rule kept_jump [OF keptD(1) [OF kq]]) (simp_all add: q1_def)
  obtain p3 where 3: "gen_stmt body (cfg h p2) = Some (cfg h p3)" "kept V B p2 p3" "runs V B (\<lambda>sem :: 'w sem. exec sem body) p2 p3"
    using body keptD(1) [OF k2] by (rule correctE)
  define p4 where "p4 = start y (emit_effect OpBranch [] x p3)"
  have k4: "kept V {} p3 p4" unfolding p4_def by (rule kept_jump [OF keptD(1) [OF 3(2)]]) simp_all
  have kq4: "kept V {} q1 p4" by (rule kept_local [OF kept_local [OF k2 3(2)] k4])
  have kp4: "kept V {} p p4" by (rule kept_local [OF kpq kq4])
  obtain q where "gen_arms subj x as (cfg h p4) = Some (cfg h (emit_effect OpBranch [] x q))"
      "kept V {} p4 (start x (emit_effect OpBranch [] x q))"
      "runs_arms V subj (\<lambda>sem :: 'w sem. \<lambda>v. arms sem v as) p4 (start x (emit_effect OpBranch [] x q))"
    using rest [OF keptD(1) [OF k4] keptD(7) [OF kp4 p(2)]] by blast
  then obtain pf where f: "gen_arms subj x as (cfg h p4) = Some (cfg h (emit_effect OpBranch [] x q))"
      "pf = start x (emit_effect OpBranch [] x q)" "kept V {} p4 pf" "runs_arms V subj (\<lambda>sem :: 'w sem. \<lambda>v. arms sem v as) p4 pf"
    by blast
  have k3f: "kept V {} p3 pf" and kqf: "kept V {} q1 pf" and kpf: "kept V {} p pf"
    by (rule kept_local [OF k4 f(3)], rule kept_local [OF kq4 f(3)], rule kept_local [OF kp4 f(3)])
  have "runs_arms V subj (\<lambda>sem :: 'w sem. \<lambda>v. arms sem v (MatchArm (Some e) body # as)) p pf"
  proof (rule runs_armsI)
    fix f k kf and sem :: "'w sem" and args s and m :: "'w Machine" and out s'
    assume at: "at_point f p k" "at_point f pf kf" and fits: "fits pf" and rel: "related p s m" "dom (fst s) = V"
      and subj: "allocated p subj" and ex: "arms sem (m_regs m subj) (MatchArm (Some e) body # as) s out s'"
    obtain k4' where a4: "at_point f p4 k4'" using keptD(5) [OF f(3) at(2)] by blast
    obtain k3' where a3: "at_point f p3 k3'" using keptD(5) [OF k4 a4] by blast
    obtain k2' where a2: "at_point f p2 k2'" using keptD(5) [OF 3(2) a3] by blast
    obtain kq' where aq: "at_point f q1 kq'" using keptD(5) [OF k2 a2] by blast
    obtain k1' where a1: "at_point f p1 k1'" using keptD(5) [OF kq aq] by blast
    note fit = keptD(6) [OF k3f fits] keptD(6) [OF kqf fits]
    have at0: "at_point f p0 k" "related p0 s m" using at(1) rel(1) by (simp_all add: p0_def related_def allocated_def)
    have x: "block_at f x = Some kf" using at_point_started at(2) unfolding f(2) by blast
    have y: "block_at f y = Some k4'" using at_point_started a4 unfolding p4_def by blast
    have b0: "block_at f b0 = Some k2'" using at_point_started a2 unfolding p2_def by blast
    obtain v s1 where v: "eval sem e s = Some (v, s1)"
        "(v = m_regs m subj \<and> (\<exists>s2. exec sem body s1 out s2 \<and> s' = end_scope s s2)) \<or> (v \<noteq> m_regs m subj \<and> arms sem (m_regs m subj) as s1 out s')"
      using ex by (rule arms_ConsE) blast+
    obtain m1 where m1: "ir_steps sem args f (Run k m) (Run k1' m1)" "related p1 s1 m1" "frame V p0 m m1" "dom (fst s1) = V"
        "m_regs m1 (p_last p1) = v"
      using 1(5) [OF at0(1) a1 keptD(6) [OF kq fit(2)] at0(2) rel(2) v(1)] by (auto simp: in_reg_def)
    have fr1: "frame V p m m1" by (rule frame_earlier [OF m1(3) k0])
    obtain m2 where m2: "ir_steps sem args f (Run k1' m1) (Run kq' m2)" "related q1 s1 m2" "frame V p1 m1 m2"
        "m_regs m2 (next_reg p1) = of_bool (m_regs m1 subj = m_regs m1 (p_last p1))"
      by (rule value_run [OF a1 aq q1_def _ fit(2) m1(2) exec_cmp_eq, where V = V]) simp_all
    have fr2: "frame V p m1 m2" by (rule frame_earlier [OF m2(3) kp1])
    have s1: "m_regs m1 subj = m_regs m subj" and s2: "m_regs m2 subj = m_regs m subj"
      using frame_regs [OF fr1 subj] frame_regs [OF fr2 subj] by simp_all
    have "ir_steps sem args f (Run kq' m2) (Run (if v = m_regs m subj then k2' else k4') m2)"
      using cond_steps [OF aq a2 [unfolded p2_def] _ b0 y, of sem args m2] m2(4) m1(5) s1 by (auto simp: b0_def)
    with m1(1) m2(1) have to: "ir_steps sem args f (Run k m) (Run (if v = m_regs m subj then k2' else k4') m2)"
      by (meson rtranclp_trans)
    have fr: "frame V p m m2" by (rule frame_join [OF fr1 fr2])
    show "ends sem args f V V p pf k kf m out s'"
    proof (cases "v = m_regs m subj")
      case True
      with v(2) obtain t where t: "exec sem body s1 out t" "s' = end_scope s1 t"
        using rel(2) m1(4) by (auto simp: end_scope_def)
      have "ends sem args f V V q1 q1 k2' k3' m2 out s'" unfolding t(2)
        by (rule scoped_run [OF 3(3,2) k2 a2 a3 fit(1) m2(2) m1(4) t(1)])
      then have "ends sem args f V V q1 pf k2' kf m2 out s'"
        by (rule ends_later [OF ends_goto [OF _ goto_steps [OF a3 a4 [unfolded p4_def] x]] kqf])
      then have "ends sem args f V V p pf k2' kf m2 out s'" by (rule ends_earlier [OF _ kpq])
      with to fr True show ?thesis by (auto intro: ends_after)
    next
      case False
      have "related p4 s1 m2" by (rule related_later [OF m2(2)]) (use kq4 m1(4) in simp)
      then have "ends sem args f V V p4 pf k4' kf m2 out s'"
        by (rule runs_armsD [OF f(4) a4 at(2) fits _ m1(4) allocated_mono [OF subj keptD(2) [OF kp4]]])
          (use v(2) False s2 in simp)
      then have "ends sem args f V V p pf k4' kf m2 out s'" by (rule ends_earlier [OF _ kp4])
      with to fr False show ?thesis by (auto intro: ends_after)
    qed
  qed
  moreover have "gen_arms subj x (MatchArm (Some e) body # as) (cfg h p) = Some (cfg h (emit_effect OpBranch [] x q))"
    using 1(1) 3(1) f(1) keptD(1) [OF 3(2)] as
    by (simp add: gen_arms_Cons gen_pattern_def p0_def p2_def b0_def y_def q1_def p4_def del: gen_arms.simps)
  ultimately show ?thesis using kpf unfolding f(2) by blast
qed


lemma correct_arms:
  assumes "\<And>a. a \<in> set as \<Longrightarrow> \<exists>B. correct V B (gen_stmt (arm_body a)) (\<lambda>sem :: 'w sem. exec sem (arm_body a)) h"
    and "clear_arms V as" "list_ex (\<lambda>a. arm_pattern a = None) as" "point_ok p" "subj \<in> known p"
  shows "\<exists>q. gen_arms subj x as (cfg h p) = Some (cfg h (emit_effect OpBranch [] x q))
    \<and> kept V {} p (start x (emit_effect OpBranch [] x q))
    \<and> runs_arms V subj (\<lambda>sem :: 'w sem. \<lambda>v. arms sem v as) p (start x (emit_effect OpBranch [] x q))"
  using assms
proof (induction as arbitrary: p)
  case (Cons a as)
  obtain pattern body where a: "a = MatchArm pattern body" by (cases a)
  obtain B where body: "correct V B (gen_stmt body) (\<lambda>sem :: 'w sem. exec sem body) h"
    using Cons.prems(1) [of a] by (auto simp: a)
  show ?case
  proof (cases pattern)
    case None
    then show ?thesis unfolding a None by (intro wildcard_arm_run [OF body Cons.prems(4)])
  next
    case (Some e)
    have e: "safe V e" "clear_arms V as" "list_ex (\<lambda>a. arm_pattern a = None) as" "as \<noteq> []"
      using Cons.prems(2,3) by (auto simp: a Some)
    show ?thesis unfolding a Some
      by (rule pattern_arm_run [OF e(1) body e(4) Cons.prems(4,5) Cons.IH [OF Cons.prems(1) e(2,3)]]) auto
  qed
qed simp

lemma correct_match:
  assumes "safe V e" "clear_arms V as" "as = [] \<or> list_ex (\<lambda>a. arm_pattern a = None) as"
    and "\<And>a. a \<in> set as \<Longrightarrow> \<exists>B. correct V B (gen_stmt (arm_body a)) (\<lambda>sem :: 'w sem. exec sem (arm_body a)) h"
  shows "correct V {} (gen_stmt (MatchStmt e as r)) (\<lambda>sem :: 'w sem. exec sem (MatchStmt e as r)) h"
proof (rule correctI)
  fix p assume p: "point_ok p"
  obtain p1 where 1: "gen_expr e (cfg h p) = Some (cfg h p1)" "kept V {} p p1" "straight p p1" "p_last p1 \<in> known p1"
    "\<And>f k k' (sem :: 'w sem) args s m v s'. at_point f p k \<Longrightarrow> at_point f p1 k' \<Longrightarrow> fits p1 \<Longrightarrow> related p s m \<Longrightarrow>
       dom (fst s) = V \<Longrightarrow> eval sem e s = Some (v, s') \<Longrightarrow>
       \<exists>m'. ir_steps sem args f (Run k m) (Run k' m') \<and> related p1 s' m' \<and> frame V p m m' \<and> dom (fst s') = V
         \<and> in_reg p1 (p_last p1) m' v"
    by (rule expr_runs [OF p assms(1), where h = h]) blast
  define x where "x = lab ''match_exit'' (p_lc p1)"
  let ?p2 = "fresh p1"
  have k2: "kept V {} p1 ?p2" using keptD(1) [OF 1(2)] by (simp add: kept_fresh kept_refl)
  have "\<exists>q q0. gen_arms (p_last p1) x as (cfg h ?p2) = Some (cfg h q0) \<and> (q0 = q \<and> point_ok q \<or> q0 = emit_effect OpBranch [] x q)
    \<and> kept V {} ?p2 (start x (emit_effect OpBranch [] x q))
    \<and> runs_arms V (p_last p1) (\<lambda>sem :: 'w sem. \<lambda>v. arms sem v as) ?p2 (start x (emit_effect OpBranch [] x q))"
  proof (cases "as = []")
    case True
    have "kept V {} ?p2 (start x (emit_effect OpBranch [] x ?p2))" by (rule kept_jump [OF keptD(1) [OF k2]]) simp_all
    moreover have "runs_arms V (p_last p1) (\<lambda>sem :: 'w sem. \<lambda>v. arms sem v as) ?p2 (start x (emit_effect OpBranch [] x ?p2))"
    proof (rule runs_armsI)
      fix f k k' and sem :: "'w sem" and args s and m :: "'w Machine" and out s'
      assume at: "at_point f ?p2 k" "at_point f (start x (emit_effect OpBranch [] x ?p2)) k'" and rel: "related ?p2 s m" "dom (fst s) = V"
        and "arms sem (m_regs m (p_last p1)) as s out s'"
      then have "out = Normal" "s' = s" by (auto simp: True elim: arms_nilE)
      with goto_steps [OF at at_point_started [OF at(2)]] rel
      show "ends sem args f V V ?p2 (start x (emit_effect OpBranch [] x ?p2)) k k' m out s'"
        by (auto intro!: ends_NormalI frame_refl simp: related_def allocated_def)
    qed
    ultimately show ?thesis using keptD(1) [OF k2] by (intro exI [of _ ?p2]) (simp add: True)
  next
    case False
    have "list_ex (\<lambda>a. arm_pattern a = None) as" using False assms(3) by simp
    from correct_arms [OF assms(4,2) this keptD(1) [OF k2] keptD(7) [OF k2 1(4)]] show ?thesis by blast
  qed
  then obtain q q0 where q: "gen_arms (p_last p1) x as (cfg h ?p2) = Some (cfg h q0)"
      "q0 = q \<and> point_ok q \<or> q0 = emit_effect OpBranch [] x q"
      "kept V {} ?p2 (start x (emit_effect OpBranch [] x q))"
      "runs_arms V (p_last p1) (\<lambda>sem :: 'w sem. \<lambda>v. arms sem v as) ?p2 (start x (emit_effect OpBranch [] x q))"
    by blast
  define p3 where "p3 = start x (emit_effect OpBranch [] x q)"
  note q = q(1,2) q(3,4) [folded p3_def]
  have k13: "kept V {} p1 p3" by (rule kept_local [OF k2 q(3)])
  have "runs V {} (\<lambda>sem :: 'w sem. exec sem (MatchStmt e as r)) p p3"
  proof (rule runsI)
    fix f k k3 and sem :: "'w sem" and args s and m :: "'w Machine" and out s'
    assume at: "at_point f p k" "at_point f p3 k3" and fits: "fits p3" and rel: "related p s m" "dom (fst s) = V"
      and "exec sem (MatchStmt e as r) s out s'"
    then obtain v s1 where v: "eval sem e s = Some (v, s1)" "arms sem v as s1 out s'" by (auto elim: exec_matchE)
    obtain k1 where a1: "at_point f p1 k1" using keptD(5) [OF k13 at(2)] by blast
    obtain m1 where m1: "ir_steps sem args f (Run k m) (Run k1 m1)" "related p1 s1 m1" "frame V p m m1" "dom (fst s1) = V"
        "allocated p1 (p_last p1)" "m_regs m1 (p_last p1) = v"
      using 1(5) [OF at(1) a1 keptD(6) [OF k13 fits] rel v(1)] by (auto simp: in_reg_def)
    have "ends sem args f V V ?p2 p3 k1 k3 m1 out s'"
      by (rule runs_armsD [OF q(4) _ at(2) fits _ m1(4)])
        (use a1 m1(2,5,6) v(2) in \<open>simp_all add: related_def allocated_def\<close>)
    then have "ends sem args f V V p p3 k1 k3 m1 out s'" by (rule ends_earlier [OF _ kept_local [OF 1(2) k2]])
    then show "ends sem args f V (V \<union> {}) p p3 k k3 m out s'"
      unfolding Un_empty_right by (rule ends_after [OF m1(1,3)])
  qed
  moreover have "gen_stmt (MatchStmt e as r) (cfg h p) = Some (cfg h p3)"
    using 1(1) q(1,2) by (auto simp: x_def p3_def)
  ultimately show "\<exists>p'. gen_stmt (MatchStmt e as r) (cfg h p) = Some (cfg h p') \<and> kept V {} p p'
      \<and> runs V {} (\<lambda>sem :: 'w sem. exec sem (MatchStmt e as r)) p p'"
    using kept_local [OF 1(2) k13] by blast
qed

end
