(* ===== verification/Vcc_IrGen_Correct.thy ===== *)
theory Vcc_IrGen_Correct
  imports Vcc_IrGen_Control
begin

text \<open>
  Lowering is correct: the IR function of a declaration returns what the reference semantics of its body
  returns. The statement forms are put together by induction, parameters and the end of a function are
  added, and the machine is deterministic.
\<close>

section \<open>All statements\<close>

lemma correct_weaken:
  "correct V B g X h \<Longrightarrow> (\<And>sem s out s'. X' sem s out s' \<Longrightarrow> X sem s out s') \<Longrightarrow> correct V B g X' h"
  unfolding correct_def runs_def by meson

lemma correct_stmts:
  assumes "\<And>st V. st \<in> set ss \<Longrightarrow> clear V st \<Longrightarrow> correct V (binds st) (gen_stmt st) (\<lambda>sem :: 'w sem. exec sem st) h"
    and "clear_list V ss"
  shows "\<exists>B. correct V B (gen_stmts ss) (\<lambda>sem :: 'w sem. execs sem ss) h"
  using assms
proof (induction ss arbitrary: V)
  case Nil
  show ?case using correct_Nil by blast
next
  case (Cons st ss)
  have "clear_list (V \<union> binds st) ss" using Cons.prems(2) by simp
  then obtain B where "correct (V \<union> binds st) B (gen_stmts ss) (\<lambda>sem :: 'w sem. execs sem ss) h"
    using Cons.IH Cons.prems(1) by (metis list.set_intros(2))
  moreover have "correct V (binds st) (gen_stmt st) (\<lambda>sem :: 'w sem. exec sem st) h"
    using Cons.prems by simp
  ultimately show ?case using correct_Cons by blast
qed

lemma clear_arms_bodies: "clear_arms V as \<Longrightarrow> a \<in> set as \<Longrightarrow> clear V (arm_body a)"
proof (induction as)
  case (Cons b as)
  then show ?case by (cases b) auto
qed simp


lemma gen_stmt_correct:
  shows "plain_stmt st \<Longrightarrow> wildcards st \<Longrightarrow> clear V st \<Longrightarrow> correct V (binds st) (gen_stmt st) (\<lambda>sem :: 'w sem. exec sem st) h"
    and "plain_arm a \<Longrightarrow> wildcards_arm a \<Longrightarrow> clear V (arm_body a)
      \<Longrightarrow> correct V (binds (arm_body a)) (gen_stmt (arm_body a)) (\<lambda>sem :: 'w sem. exec sem (arm_body a)) h"
    and "plain_local d \<Longrightarrow> clear V (DeclStmt d r)
      \<Longrightarrow> correct V (binds (DeclStmt d r)) (gen_stmt (DeclStmt d r)) (\<lambda>sem :: 'w sem. exec sem (DeclStmt d r)) h"
proof (induction st and a and d arbitrary: V and V and V r)
  case (BlockStmt ss r)
  have "\<exists>B. correct V B (gen_stmts ss) (\<lambda>sem :: 'w sem. execs sem ss) h"
    by (rule correct_stmts) (use BlockStmt in \<open>auto simp: list_all_iff\<close>)
  then show ?case unfolding binds.simps using correct_block by blast
next
  case (VloopStmt c b r)
  then have b: "correct V (binds b) (gen_stmt b) (\<lambda>sem :: 'w sem. exec sem b) h" by simp
  show ?case
  proof (cases "\<exists>n r'. c = IntLiteralExpr n r'")
    case True
    then obtain n r' where c: "c = IntLiteralExpr n r'" by blast
    show ?thesis unfolding c binds.simps
      by (rule correct_weaken [OF correct_vloop_count [OF b]]) (auto elim: exec_vloopE)
  next
    case False
    have "correct V {} (gen_stmt (VloopStmt c b r)) (\<lambda>sem :: 'w sem. loop sem c b) h"
      unfolding gen_vloop [OF False] by (rule correct_loop [OF _ _ b]) (use VloopStmt in auto)
    then show ?thesis unfolding binds.simps by (rule correct_weaken) (use False in \<open>auto elim: exec_vloopE\<close>)
  qed
next
  case (WhileStmt c b r)
  then have b: "correct V (binds b) (gen_stmt b) (\<lambda>sem :: 'w sem. exec sem b) h" by simp
  have "correct V {} (gen_stmt (WhileStmt c b r)) (\<lambda>sem :: 'w sem. loop sem c b) h"
    unfolding gen_while by (rule correct_loop [OF _ _ b]) (use WhileStmt in auto)
  then show ?case unfolding binds.simps by (rule correct_weaken) (auto elim: exec_whileE)
next
  case (IfStmt c t e r)
  have c: "safe V c" using IfStmt by simp
  have t: "correct V (binds t) (gen_stmt t) (\<lambda>sem :: 'w sem. exec sem t) h" using IfStmt by simp
  show ?case
  proof (cases e)
    case None
    then show ?thesis unfolding binds.simps by (simp only: correct_if [OF c t])
  next
    case (Some st)
    have "correct V (binds st) (gen_stmt st) (\<lambda>sem :: 'w sem. exec sem st) h" using IfStmt by (simp add: Some)
    then show ?thesis unfolding Some binds.simps by (rule correct_if_else [OF c t])
  qed
next
  case (MatchStmt e as r)
  have as: "correct V (binds (arm_body a)) (gen_stmt (arm_body a)) (\<lambda>sem :: 'w sem. exec sem (arm_body a)) h" if "a \<in> set as" for a
    using MatchStmt that clear_arms_bodies [of V as a] by (auto simp: list_all_iff)
  show ?case unfolding binds.simps
    by (rule correct_match) (use MatchStmt as in auto)
next
  case (ForStmt x iter b r)
  then show ?case by simp
next
  case (DeclStmt d r)
  then show ?case by simp
next
  case (ReturnStmt v r)
  then show ?case unfolding binds.simps by (intro correct_return) simp
next
  case (ExprStmt e r)
  then show ?case unfolding binds.simps by (intro correct_expr) simp
next
  case (BreakStmt r)
  show ?case unfolding binds.simps by (rule correct_skip) (auto elim: exec.cases)
next
  case (ContinueStmt r)
  show ?case unfolding binds.simps by (rule correct_skip) (auto elim: exec.cases)
next
  case (VarDecl k x t init r)
  then show ?case unfolding binds.simps by (cases init) (auto intro: correct_var correct_var_uninit simp del: gen_stmt.simps)
next
  case (ImportDecl x y r)
  show ?case unfolding binds.simps by (rule correct_skip) (auto elim: exec_varE)
next
  case (StructDecl x y z r)
  show ?case unfolding binds.simps by (rule correct_skip) (auto elim: exec_varE)
next
  case (EnumDecl x y z r)
  show ?case unfolding binds.simps by (rule correct_skip) (auto elim: exec_varE)
next
  case (TypeAliasDecl x y z r)
  show ?case unfolding binds.simps by (rule correct_skip) (auto elim: exec_varE)
qed auto


section \<open>Functions\<close>

lemma unat_ucast_u32: "unat (ucast (i :: u32) :: i64) = unat i"
proof -
  have "unat i < 2 ^ LENGTH(32)" by (rule unsigned_less)
  then have "unat i < 2 ^ LENGTH(64)" by simp
  then show ?thesis by (simp add: unsigned_ucast_eq take_bit_nat_eq_self)
qed

lemma exec_param:
  "unat i < length args \<Longrightarrow> exec_instr sem args (instr OpParam d [fromInt (ucast (i :: u32))] l) m = Some (set_reg d (args ! unat i) m)"
  by (simp add: exec_instr_def operand_value_def fromInt_def unat_ucast_u32)

text \<open>The prologue puts the arguments into the slots of the parameters.\<close>

lemma params_run:
  assumes "point_ok p" "distinct (map param_name ps)" "set (map param_name ps) \<inter> V = {}"
  shows "\<exists>p'. gen_params i ps (cfg h p) = Some (cfg h p') \<and> kept V (set (map param_name ps)) p p' \<and> p_reg p' = p_reg p + 2 * length ps
    \<and> (\<forall>f k k' (sem :: 'w sem) args s m. at_point f p k \<longrightarrow> at_point f p' k' \<longrightarrow> fits p' \<longrightarrow> related p s m \<longrightarrow> dom (fst s) = V \<longrightarrow>
        unat i + length ps = length args \<longrightarrow> length args < 2 ^ 32 \<longrightarrow>
        (\<exists>m'. ir_steps sem args f (Run k m) (Run k' m')
           \<and> related p' (fst s ++ map_of (zip (map param_name ps) (drop (unat i) args)), snd s) m'))"
  using assms
proof (induction ps arbitrary: i p V)
  case Nil
  then show ?case by (intro exI [of _ p]) (auto simp: kept_refl dest: at_point_unique)
next
  case (Cons d ps)
  let ?x = "param_name d"
  define p1 where "p1 = emit_value OpAlloca [] ?x p"
  define p2 where "p2 = emit_value OpParam [fromInt (ucast i)] [] p1"
  define p3 where "p3 = emit_effect OpStore [fromReg (next_reg p1), fromReg (next_reg p)] [] p2"
  define p4 where "p4 = bind_slot ?x (next_reg p) p3"
  have s1: "straight p p1" unfolding p1_def by (rule straight_value [OF Cons.prems(1)]) simp_all
  have s2: "straight p1 p2" unfolding p2_def by (rule straight_value [OF straight_ok [OF s1]]) simp_all
  have s3: "straight p2 p3" unfolding p3_def by (rule straight_store [OF straight_ok [OF s2]]) (simp_all add: p2_def p1_def)
  have s13: "straight p p3" by (rule straight_trans [OF s1 straight_trans [OF s2 s3]])
  have regs: "p_reg p1 = Suc (p_reg p)" "p_reg p4 = p_reg p + 2" by (simp_all add: p1_def p2_def p3_def p4_def)
  have new: "fits p1 \<Longrightarrow> \<not> allocated p (next_reg p)" using next_reg_fresh [OF _ regs(1)] by blast
  have x: "?x \<notin> V" using Cons.prems(3) by auto
  have k4: "kept V {?x} p p4" unfolding p4_def
  proof (rule kept_bind [OF kept_straight [OF Cons.prems(1) s13] x])
    show "next_reg p \<in> known p3" by (simp add: p3_def p2_def p1_def)
    show "fits p3 \<Longrightarrow> \<not> allocated p (next_reg p)" using new by (auto simp: p3_def p2_def fits_def p1_def)
  qed
  have "\<exists>p'. gen_params (i + 1) ps (cfg h p4) = Some (cfg h p') \<and> kept (V \<union> {?x}) (set (map param_name ps)) p4 p'
      \<and> p_reg p' = p_reg p4 + 2 * length ps
    \<and> (\<forall>f k k' (sem :: 'w sem) args s m. at_point f p4 k \<longrightarrow> at_point f p' k' \<longrightarrow> fits p' \<longrightarrow> related p4 s m \<longrightarrow> dom (fst s) = V \<union> {?x} \<longrightarrow>
        unat (i + 1) + length ps = length args \<longrightarrow> length args < 2 ^ 32 \<longrightarrow>
        (\<exists>m'. ir_steps sem args f (Run k m) (Run k' m')
           \<and> related p' (fst s ++ map_of (zip (map param_name ps) (drop (unat (i + 1)) args)), snd s) m'))"
    by (rule Cons.IH [OF keptD(1) [OF k4]]) (use Cons.prems in auto)
  then obtain p' where p': "gen_params (i + 1) ps (cfg h p4) = Some (cfg h p')" "kept (V \<union> {?x}) (set (map param_name ps)) p4 p'"
      "p_reg p' = p_reg p4 + 2 * length ps"
      "\<And>f k k' (sem :: 'w sem) args s m. at_point f p4 k \<Longrightarrow> at_point f p' k' \<Longrightarrow> fits p' \<Longrightarrow> related p4 s m \<Longrightarrow> dom (fst s) = V \<union> {?x} \<Longrightarrow>
        unat (i + 1) + length ps = length args \<Longrightarrow> length args < 2 ^ 32 \<Longrightarrow>
        \<exists>m'. ir_steps sem args f (Run k m) (Run k' m')
           \<and> related p' (fst s ++ map_of (zip (map param_name ps) (drop (unat (i + 1)) args)), snd s) m'"
    by blast
  have "\<exists>m'. ir_steps sem args f (Run k m) (Run k' m')
      \<and> related p' (fst s ++ map_of (zip (map param_name (d # ps)) (drop (unat i) args)), snd s) m'"
    if at: "at_point f p k" "at_point f p' k'" and fits: "fits p'" and rel: "related p s m" "dom (fst s) = V"
      and len: "unat i + length (d # ps) = length args" "length args < 2 ^ 32"
    for f k k' and sem :: "'w sem" and args s m
  proof -
    obtain k4' where a4: "at_point f p4 k4'" using keptD(5) [OF p'(2) at(2)] by blast
    have a3: "at_point f p3 k4'" using a4 by (simp add: p4_def)
    obtain k2 where a2: "at_point f p2 k2" using at_point_effect a3 unfolding p3_def by blast
    obtain k1 where a1: "at_point f p1 k1" using at_point_value a2 unfolding p2_def by blast
    have f4: "fits p4" by (rule keptD(6) [OF p'(2) fits])
    have f2: "fits p2" using f4 by (simp add: p4_def p3_def fits_def)
    have f1: "fits p1" by (rule fits_mono [OF f2]) (simp add: p2_def)
    have i: "unat i < length args" "unat (i + 1) = Suc (unat i)"
    proof -
      show "unat i < length args" using len(1) by simp
      then have "Suc (unat i) < 2 ^ LENGTH(32)" using len by simp
      then show "unat (i + 1) = Suc (unat i)" by (simp add: unat_word_ariths)
    qed
    obtain m1 where m1: "ir_steps sem args f (Run k m) (Run k1 m1)" "related p1 s m1"
        "m_regs m1 (next_reg p) = ucast (next_reg p)"
      by (rule value_run [OF at(1) a1 p1_def _ f1 rel(1) exec_alloca, where V = V]) simp_all
    obtain m2 where m2: "ir_steps sem args f (Run k1 m1) (Run k2 m2)" "related p2 s m2" "frame V p1 m1 m2"
        "m_regs m2 (next_reg p1) = args ! unat i"
      by (rule value_run [OF a1 a2 p2_def _ f2 m1(2) exec_param [OF i(1)], where V = V]) simp_all
    have a: "allocated p1 (next_reg p)" by (rule next_reg_allocated [OF f1 regs(1)])
    have slot: "m_regs m2 (next_reg p) = ucast (next_reg p)" using frame_regs [OF m2(3) a] m1(3) by simp
    define m3 where "m3 = set_mem (ucast (next_reg p)) (args ! unat i) m2"
    have 3: "ir_steps sem args f (Run k2 m2) (Run k4' m3)"
      using store_steps [OF a2 a3 [unfolded p3_def], of sem args m2] by (simp add: slot m2(4) m3_def)
    have "related p3 s m2" using m2(2) by (simp add: p3_def related_def allocated_def)
    then have r4: "related p4 s m2" unfolding p4_def by (rule related_bind) (use x rel(2) in simp)
    have "\<forall>y \<in> dom (fst s). p_slots p4 y \<noteq> Some (next_reg p)"
      using new [OF f1] related_slots_allocated [OF rel(1)] x rel(2) by (auto simp: p4_def p3_def p2_def p1_def)
    moreover have "allocated p4 (next_reg p)" by (rule allocated_mono [OF a]) (simp add: regs)
    ultimately have "related p4 ((fst s)(?x \<mapsto> args ! unat i), snd s) m3"
      unfolding m3_def by (intro related_new_var [OF r4 _ _ slot]) (simp_all add: p4_def)
    from p'(4) [OF a4 at(2) fits this] rel(2) len i(2) obtain m' where m': "ir_steps sem args f (Run k4' m3) (Run k' m')"
        "related p' ((fst s)(?x \<mapsto> args ! unat i) ++ map_of (zip (map param_name ps) (drop (Suc (unat i)) args)), snd s) m'"
      by auto
    have "?x \<notin> dom (map_of (zip (map param_name ps) (drop (Suc (unat i)) args)))"
      using Cons.prems(2) by (auto dest!: map_of_SomeD set_zip_leftD)
    then have "(fst s)(?x \<mapsto> args ! unat i) ++ map_of (zip (map param_name ps) (drop (Suc (unat i)) args))
        = fst s ++ map_of (zip (map param_name (d # ps)) (drop (unat i) args))"
      using Cons_nth_drop_Suc [OF i(1), symmetric] by (simp add: map_add_upd_left)
    with m' m1(1) m2(1) 3 show ?thesis by (metis rtranclp_trans)
  qed
  moreover have "kept V (set (map param_name (d # ps))) p p'" using kept_trans [OF k4 p'(2)] by simp
  moreover have "gen_params i (d # ps) (cfg h p) = Some (cfg h p')"
    using p'(1) by (simp add: p4_def p3_def p2_def p1_def cfg_slots bind_slot_def)
  moreover have "p_reg p' = p_reg p + 2 * length (d # ps)" using p'(3) regs by simp
  ultimately show ?case by blast
qed


lemma entry_point_at: "at_point f (entry_point r) k \<Longrightarrow> fn_blocks f \<noteq> [] \<and> bb_instrs (hd (fn_blocks f)) = k"
  by (auto simp: at_point_def entry_point_def)

lemma finished_at: "distinct (block_labels (finished h p)) \<Longrightarrow> at_point (finished h p) p [instr OpRet NoReg [] []]"
  by (simp add: at_point_def finished_def p_blocks_def)

text \<open>The machine is deterministic, so the result of a call is unique.\<close>

lemma comma_split_unique:
  assumes "a @ CHR '','' # b = c @ CHR '','' # d" "CHR '','' \<notin> set a" "CHR '','' \<notin> set c"
  shows "a = c \<and> b = d"
  using split_comma_join [OF assms(2), of b] split_comma_join [OF assms(3), of d] assms(1) by auto

lemma ir_step_deterministic: "ir_step sem args f c c1 \<Longrightarrow> ir_step sem args f c c2 \<Longrightarrow> c1 = c2"
  by (induction rule: ir_step.induct) (auto elim!: ir_step.cases simp: isTerminator_def dest!: comma_split_unique)

lemma halt_final: "\<not> ir_step sem args f (Halt v w) c"
  by (auto elim: ir_step.cases)

lemma ir_steps_deterministic:
  "ir_steps sem args f c (Halt v w) \<Longrightarrow> ir_steps sem args f c (Halt v' w') \<Longrightarrow> v' = v \<and> w' = w"
proof (induction c rule: converse_rtranclp_induct)
  case base
  then show ?case by (auto elim: converse_rtranclpE simp: halt_final)
next
  case (step c c1)
  from step.prems show ?case
  proof (cases rule: converse_rtranclpE)
    case base
    with step.hyps(1) show ?thesis by (simp add: halt_final)
  next
    case (step c2)
    with step.hyps(1) ir_step_deterministic have "c2 = c1" by blast
    with step step.IH show ?thesis by blast
  qed
qed


lemma ir_returns_unique: "ir_returns sem f args w v w1 \<Longrightarrow> ir_returns sem f args w v' w2 \<Longrightarrow> v' = v \<and> w2 = w1"
  unfolding ir_returns_def by (blast dest: ir_steps_deterministic)

lemma function_correct:
  fixes sem :: "'w sem"
  assumes gen: "gen_decl (FunctionDecl name params ret (Some body) isPub r) g = Some g'"
    and f: "f = last (mod_functions (b_module g'))" "length (code f) < 2 ^ 31"
    and body: "plain_stmt body" "wildcards body" "clear (set (map param_name params)) body"
    and params: "distinct (map param_name params)" "length args = length params"
    and ex: "exec sem body (map_of (zip (map param_name params) args), w) out s'"
  shows "ir_returns sem f args w (case out of Normal \<Rightarrow> None | Returned v \<Rightarrow> v) (snd s')"
proof -
  define h where "h = \<lparr>h_module = b_module g, h_fname = name, h_ctx = ig_ctx g\<rparr>"
  let ?e = "entry_point (lastReg g)" and ?V = "set (map param_name params)"
  obtain p1 where 1: "gen_params 0 params (cfg h ?e) = Some (cfg h p1)" "kept {} ?V ?e p1" "p_reg p1 = p_reg ?e + 2 * length params"
    "\<And>f k k' (sem :: 'w sem) args s m. at_point f ?e k \<Longrightarrow> at_point f p1 k' \<Longrightarrow> fits p1 \<Longrightarrow> related ?e s m \<Longrightarrow> dom (fst s) = {} \<Longrightarrow>
        unat (0 :: u32) + length params = length args \<Longrightarrow> length args < 2 ^ 32 \<Longrightarrow>
        \<exists>m'. ir_steps sem args f (Run k m) (Run k' m')
           \<and> related p1 (fst s ++ map_of (zip (map param_name params) (drop (unat (0 :: u32)) args)), snd s) m'"
    using params_run [where 'w = 'w, OF entry_point_simps(1) [of "lastReg g"] params(1) Int_empty_right, of 0 h] by blast
  obtain p2 where 2: "gen_stmt body (cfg h p1) = Some (cfg h p2)" "kept ?V (binds body) p1 p2"
      "runs ?V (binds body) (\<lambda>sem :: 'w sem. exec sem body) p1 p2"
    using gen_stmt_correct(1) [OF body] keptD(1) [OF 1(2)] by (rule correctE)
  have ok2: "point_ok p2" by (rule keptD(1) [OF 2(2)])
  have "\<exists>s'. gen_function_end (cfg h p2) = Some s' \<and> b_module s' =
      (h_module h)\<lparr>mod_functions := mod_functions (h_module h) @ [finished h p2]\<rparr>"
    using function_end_cfg [OF ok2] by blast
  then have ff: "f = finished h p2"
    using gen 1(1) 2(1) by (auto simp: f(1) gen_function_start_cfg simp flip: h_def)
  have "wf_function f \<and> fresh_labels f"
    using function_lowers [of "Some body" name params ret isPub r g] gen body(1,2) by (auto simp: f(1))
  then have dist: "distinct (block_labels f)" using fresh_labels_distinct f(2) by blast
  have "p_reg p2 = length (results (p_code p2))" using ok2 by (simp add: point_ok_def first_regs_def)
  also have "\<dots> \<le> length (code f)" 
    using length_filter_le [of _ "p_code p2"] by (simp add: ff finished_code results_def le_SucI)
  finally have fits2: "fits p2" using f(2) by (simp add: fits_def)
  have at2: "at_point f p2 [instr OpRet NoReg [] []]" using finished_at dist unfolding ff .
  obtain k1 where at1: "at_point f p1 k1" using keptD(5) [OF 2(2) at2] by blast
  obtain k0 where at0: "at_point f ?e k0" using keptD(5) [OF 1(2) at1] by blast
  have fits1: "fits p1" by (rule keptD(6) [OF 2(2) fits2])
  have len: "unat (0 :: u32) + length params = length args" "length args < 2 ^ 32"
    using fits1 1(3) params(2) by (simp_all add: fits_def)
  have "ir_steps sem args f (Run (bb_instrs (hd (fn_blocks f))) m) (Halt (case out of Normal \<Rightarrow> None | Returned v \<Rightarrow> v) (snd s'))"
    if "m_world m = w" for m
  proof -
    have "related ?e (Map.empty, w) m" using that by (simp add: related_def)
    from 1(4) [OF at0 at1 fits1 this _ len] obtain m1 where m1: "ir_steps sem args f (Run k0 m) (Run k1 m1)"
        "related p1 (map_of (zip (map param_name params) args), w) m1"
      by auto
    have "dom (fst (map_of (zip (map param_name params) args), w)) = ?V" using params(2) by simp
    from runsD [OF 2(3) at1 at2 fits2 m1(2) this ex]
    have e: "ends sem args f ?V (?V \<union> binds body) p1 p2 k1 [instr OpRet NoReg [] []] m1 out s'" .
    then have "ir_steps sem args f (Run k1 m1) (Halt (case out of Normal \<Rightarrow> None | Returned v \<Rightarrow> v) (snd s'))"
    proof (cases out)
      case Normal
      then obtain m2 where m2: "ir_steps sem args f (Run k1 m1) (Run [instr OpRet NoReg [] []] m2)" "related p2 s' m2"
        using e by (auto elim: ends_NormalE)
      have "ir_step sem args f (Run [instr OpRet NoReg [] []] m2) (Halt None (m_world m2))"
        by (rule ir_step.ret_void) simp_all
      with m2 Normal show ?thesis by (auto simp: related_def)
    qed simp
    with m1(1) entry_point_at [OF at0] show ?thesis by (auto intro: rtranclp_trans)
  qed
  then show ?thesis by (simp add: ir_returns_def)
qed



text \<open>The function \<open>fun count(n) { var i = 0; while (i < n) { i += 1 } return i }\<close>, called with 1.\<close>

definition counting_body :: Stmt where
  "counting_body =
     (let r = range_default; i = IdentExpr ''i'' r
      in BlockStmt
        [DeclStmt (VarDecl VkVar ''i'' None (Some (IntLiteralExpr 0 r)) r) r,
         WhileStmt (BinaryExpr BoLt i (IdentExpr ''n'' r) r)
           (ExprStmt (AssignExpr AoAddAssign i (IntLiteralExpr 1 r) r) r) r,
         ReturnStmt (Some i) r] r)"

definition counting_function :: Decl where
  "counting_function = FunctionDecl ''count''
     [\<lparr>param_name = ''n'', param_type = NamedTypeNode ''int'' range_default, param_isMut = False, param_range = range_default\<rparr>]
     None (Some counting_body) False range_default"

definition no_world :: "unit sem" where
  "no_world = \<lparr>s_call = \<lambda>_ _ _. None, s_const = \<lambda>_. 0\<rparr>"

lemma counting_exec:
  "exec no_world counting_body ([''n'' \<mapsto> 1], ()) (Returned (Some 1)) ([''n'' \<mapsto> 1], ())"
proof -
  let ?r = range_default
  let ?c = "BinaryExpr BoLt (IdentExpr ''i'' ?r) (IdentExpr ''n'' ?r) ?r"
  let ?b = "ExprStmt (AssignExpr AoAddAssign (IdentExpr ''i'' ?r) (IntLiteralExpr 1 ?r) ?r) ?r"
  let ?s = "\<lambda>k :: i64. ([''n'' \<mapsto> 1, ''i'' \<mapsto> k], ())"
  have body: "exec no_world ?b (?s 0) Normal (?s 1)"
    by (rule exec_expr [where v = 1]) (simp add: zero_arg_builtin_def assign_def fun_upd_twist)
  have same: "end_scope (?s 0) (?s 1) = ?s 1" by (rule end_scope_same) auto
  have test: "eval no_world ?c (?s 0) = Some (1, ?s 0)" "eval no_world ?c (?s 1) = Some (0, ?s 1)"
    by (simp_all add: zero_arg_builtin_def)
  have "loop no_world ?c ?b (end_scope (?s 0) (?s 1)) Normal (?s 1)" unfolding same by (rule loop_end [OF test(2)])
  then have loop: "loop no_world ?c ?b (?s 0) Normal (?s 1)" by (rule loop_again [OF test(1) _ body, rotated]) simp
  have var: "exec no_world (DeclStmt (VarDecl VkVar ''i'' None (Some (IntLiteralExpr 0 ?r)) ?r) ?r) ([''n'' \<mapsto> 1], ()) Normal (?s 0)"
    using exec_var [of no_world "IntLiteralExpr 0 ?r" "([''n'' \<mapsto> 1], ())" 0 "([''n'' \<mapsto> 1], ())" VkVar "''i''" None ?r ?r] by simp
  have ret: "exec no_world (ReturnStmt (Some (IdentExpr ''i'' ?r)) ?r) (?s 1) (Returned (Some 1)) (?s 1)"
    by (rule exec_return) (simp add: zero_arg_builtin_def)
  have "exec no_world counting_body ([''n'' \<mapsto> 1], ()) (Returned (Some 1)) (end_scope ([''n'' \<mapsto> 1], ()) (?s 1))"
    unfolding counting_body_def Let_def
    by (intro exec_block execs_next [OF var] execs_next [OF exec_while [OF loop]] execs_return ret)
  moreover have "end_scope ([''n'' \<mapsto> 1], ()) (?s 1) = ([''n'' \<mapsto> 1 :: i64], ())"
    by (auto simp: end_scope_def restrict_map_def fun_eq_iff)
  ultimately show ?thesis by simp
qed


end
