(* ===== verification/Vcc_Pipeline.thy ===== *)
theory Vcc_Pipeline
  imports Vcc_Driver_Props Vcc_LlvmCodegen_Props Vcc_IrGen_Correct
begin

text \<open>
  The phases put together: the driver of Vcc_Driver with the LLVM lowering of Vcc_LlvmCodegen. Each phase's promises
  meet the assumptions of the next: what the parser returns is what the generator expects, and what the
  generator returns is what the LLVM lowering expects.
\<close>


section \<open>What the parser hands to the generator\<close>

definition yields :: "('a \<Rightarrow> bool) \<Rightarrow> 'a parse_result \<Rightarrow> bool" where
  "yields P r \<longleftrightarrow> (\<forall>x p. r = Parsed x p \<longrightarrow> P x)"

lemma yields_simps [simp]: "yields P NoFuel" "yields P (Throw p)" "yields P (Parsed x p) = P x"
  by (auto simp: yields_def)

lemma yields_andThen: "yields Q r \<Longrightarrow> (\<And>x p. Q x \<Longrightarrow> yields P (f x p)) \<Longrightarrow> yields P (andThen r f)"
  by (cases r) auto

lemma yields_any: "yields (\<lambda>x. True) r"
  by (simp add: yields_def)

lemma yields_andThen_any: "(\<And>x p. yields P (f x p)) \<Longrightarrow> yields P (andThen r f)"
  by (rule yields_andThen [OF yields_any])

lemma yields_if: "(c \<Longrightarrow> yields P r) \<Longrightarrow> (\<not> c \<Longrightarrow> yields P r') \<Longrightarrow> yields P (if c then r else r')"
  by simp

definition plain_else :: "Stmt option \<Rightarrow> bool" where
  "plain_else e = (case e of None \<Rightarrow> True | Some s \<Rightarrow> plain_stmt s)"

lemma var_plain: "yields plain_local (parseVarDecl n p)"
  by (auto simp: parseVarDecl_def Let_def split: prod.split intro!: yields_andThen_any)

lemma stmt_plain:
  "yields plain_stmt (parseStmt n p)" "yields plain_stmt (parseBlock n p)" "yields (list_all plain_stmt) (blockLoop n p)"
  "yields plain_stmt (parseBody n p)" "yields plain_stmt (parseIfStmt n p)" "yields plain_else (parseElse n p)"
  "yields plain_stmt (parseWhileStmt n p)" "yields plain_stmt (parseVloopStmt n p)" "yields plain_stmt (parseMatchStmt n p)"
  "yields (list_all plain_arm) (armsLoop n p)" "yields plain_stmt (parseForStmt n p)"
proof (induction n p and n p and n p and n p and n p and n p and n p and n p and n p and n p and n p
    rule: parseStmt_parseBlock_blockLoop_parseBody_parseIfStmt_parseElse_parseWhileStmt_parseVloopStmt_parseMatchStmt_armsLoop_parseForStmt.induct)
  case (2 n p)
  have "yields plain_stmt (parseReturnStmt n q)" for q
    by (auto simp: parseReturnStmt_def intro!: yields_andThen_any)
  with 2 show ?case
    by (auto simp: parseStmt.simps Let_def intro: yields_andThen [OF var_plain] yields_andThen_any)
next
  case (4 n p)
  show ?case unfolding parseBlock.simps Let_def by (rule yields_andThen [OF 4]) simp
next
  case (6 n p)
  then show ?case unfolding blockLoop.simps
    by (auto intro!: yields_andThen [where Q = plain_stmt] yields_andThen [where Q = "list_all plain_stmt"])
next
  case (8 n p)
  then show ?case unfolding parseBody.simps by auto
next
  case (10 n p)
  show ?case unfolding parseIfStmt.simps
    by (rule yields_andThen_any, rule yields_andThen [OF 10(1)], rule yields_andThen [OF 10(2)]) (simp add: plain_else_def)
next
  case (12 n p)
  then show ?case unfolding parseElse.simps Let_def
    by (auto simp: plain_else_def intro!: yields_andThen [where Q = plain_stmt])
next
  case (14 n p)
  show ?case unfolding parseWhileStmt.simps by (rule yields_andThen_any, rule yields_andThen [OF 14]) simp
next
  case (16 n p)
  show ?case unfolding parseVloopStmt.simps Let_def
    by (rule yields_andThen_any, rule yields_andThen [where Q = plain_stmt], rule yields_if,
        erule 16(1) [OF refl], rule yields_andThen, erule 16(2) [OF refl], simp_all)
next
  case (18 n p)
  show ?case unfolding parseMatchStmt.simps by (rule yields_andThen_any, rule yields_andThen [OF 18]) simp
next
  case (20 n p)
  show ?case unfolding armsLoop.simps
    by (rule yields_if, rule yields_andThen_any, rule yields_andThen,
        (erule 20(1) | rule 20(1)), rule yields_andThen, (erule 20(2) | rule 20(2)), simp_all)
next
  case (22 n p)
  show ?case unfolding parseForStmt.simps Let_def
    by (cases "ps_expect_lexeme TkIdentifier ''expected loop variable'' p")
      (simp, rule yields_andThen_any, rule yields_andThen [OF 22], simp_all)
qed (simp_all add: parseStmt.simps parseBlock.simps blockLoop.simps parseBody.simps parseIfStmt.simps parseElse.simps
    parseWhileStmt.simps parseVloopStmt.simps parseMatchStmt.simps armsLoop.simps parseForStmt.simps)


lemma braceless_plain: "yields (list_all plain_stmt) (bracelessLoop n p)"
  by (induction n p rule: bracelessLoop.induct)
    (auto simp: bracelessLoop.simps intro!: yields_andThen [OF stmt_plain(1)] yields_andThen [where Q = "list_all plain_stmt"])

lemma function_plain: "yields plain_decl (parseFunctionDecl n isPub p)"
proof -
  have body: "yields plain_stmt (if ps_check TkLBrace q then parseBlock n q
      else andThen (bracelessLoop n q) (\<lambda>ss p6. Parsed (BlockStmt ss range_default) p6))" for q
    by (rule yields_if, rule stmt_plain, rule yields_andThen [OF braceless_plain]) simp
  show ?thesis
    by (simp add: parseFunctionDecl_def Let_def split: prod.split, intro allI impI, rule yields_andThen_any,
        rule yields_andThen_any, rule yields_andThen [OF body], simp)
qed

lemma top_level_plain: "yields (\<lambda>d. case d of None \<Rightarrow> True | Some d \<Rightarrow> plain_decl d) (parseTopLevelDecl n p)"
proof -
  have "yields plain_decl (parseVarDecl n q)" "yields plain_decl (parseStructDecl n b q)" "yields plain_decl (parseEnumDecl n b q)"
    "yields plain_decl (parseTypeAliasDecl n b q)" "yields plain_decl (parseImportDecl n q)" for b q
    by (auto simp: parseVarDecl_def parseStructDecl_def parseEnumDecl_def parseTypeAliasDecl_def parseImportDecl_def Let_def
        split: prod.split intro!: yields_andThen_any)
  then show ?thesis
    by (auto simp: parseTopLevelDecl_def Let_def split: prod.split intro!: yields_andThen [where Q = plain_decl] function_plain)
qed

lemma auto_call_plain: "list_all plain_stmt (auto_call d)"
  by (cases d) auto

lemma module_loop_plain:
  "list_all plain_decl ds \<Longrightarrow> list_all plain_stmt ss \<Longrightarrow>
    yields (\<lambda>(ds, ss). list_all plain_decl ds \<and> list_all plain_stmt ss) (moduleLoop n name ds ss p)"
proof (induction n arbitrary: ds ss p)
  case (Suc n)
  show ?case
  proof (cases "isAtEnd p")
    case False
    then show ?thesis
      using Suc top_level_plain [of n p] stmt_plain(1) [of n p]
      by (auto simp: moduleLoop.simps auto_call_plain split: parse_result.split option.split)
  qed (use Suc.prems in \<open>simp add: moduleLoop.simps\<close>)
qed (simp add: moduleLoop.simps)

lemma parse_plain:
  assumes "parse n p = Parsed m p'"
  shows "\<exists>name ds r. m = ModuleDecl name ds r \<and> list_all plain_decl ds"
proof -
  obtain name p1 where n: "parse_module_name p = (name, p1)" by fastforce
  with assms obtain ds ss p2 where "moduleLoop n name [] [] p1 = Parsed (ds, ss) p2"
      "m = ModuleDecl name (ds @ implicit_main ss) (range_span (cur_loc p) (cur_loc p2))"
    by (cases "moduleLoop n name [] [] p1") (auto simp: parse_def)
  with module_loop_plain [of "[]" "[]" n name p1] show ?thesis
    by (auto simp: yields_def implicit_main_def)
qed


section \<open>Every function of a module\<close>

text \<open>The values of a call of the IR function are those of the body, in the reference semantics.\<close>

definition implements :: "'w sem \<Rightarrow> ParameterDecl list \<Rightarrow> Stmt \<Rightarrow> IRFunction \<Rightarrow> bool" where
  "implements sem params body f \<longleftrightarrow>
     (\<forall>args w out s' v w'. length args = length params
       \<longrightarrow> exec sem body (map_of (zip (map param_name params) args), w) out s'
       \<longrightarrow> (ir_returns sem f args w v w' \<longleftrightarrow> v = (case out of Normal \<Rightarrow> None | Returned x \<Rightarrow> x) \<and> w' = snd s'))"

text \<open>The functions that the correctness of lowering covers.\<close>

definition supported :: "ParameterDecl list \<Rightarrow> Stmt \<Rightarrow> bool" where
  "supported params body \<longleftrightarrow>
     wildcards body \<and> clear (set (map param_name params)) body \<and> distinct (map param_name params)"

fun is_function :: "Decl \<Rightarrow> bool" where
  "is_function (FunctionDecl _ _ _ _ _ _) = True"
| "is_function _ = False"

fun lowered_to :: "'w sem \<Rightarrow> Decl \<Rightarrow> IRFunction \<Rightarrow> bool" where
  "lowered_to sem (FunctionDecl name params _ (Some body) _ _) f =
     (fn_name f = name \<and> (supported params body \<and> length (code f) < 2 ^ 31 \<longrightarrow> implements sem params body f))"
| "lowered_to sem (FunctionDecl name params _ None _ _) f = (fn_name f = name)"
| "lowered_to sem _ f = False"

lemma function_lowered:
  assumes "plain_decl (FunctionDecl name params ret body isPub r)"
  shows "\<exists>s' f. gen_decl (FunctionDecl name params ret body isPub r) s = Some s' \<and> b_fn s' = None
    \<and> mod_functions (b_module s') = mod_functions (b_module s) @ [f] \<and> lowered_to sem (FunctionDecl name params ret body isPub r) f"
proof -
  have plain: "case body of None \<Rightarrow> True | Some b \<Rightarrow> plain_stmt b" using assms by simp
  obtain s' f where s': "gen_decl (FunctionDecl name params ret body isPub r) s = Some s'" "b_fn s' = None" "fn_name f = name"
      "mod_functions (b_module s') = mod_functions (b_module s) @ [f]"
    using function_lowers [OF plain, of name params ret isPub r s] by auto
  have "lowered_to sem (FunctionDecl name params ret body isPub r) f"
  proof (cases body)
    case None
    then show ?thesis using s'(3) by simp
  next
    case (Some b)
    have "implements sem params b f" if "supported params b" "length (code f) < 2 ^ 31"
      unfolding implements_def
    proof (intro allI impI)
      fix args w out t v w'
      assume len: "length args = length params" and ex: "exec sem b (map_of (zip (map param_name params) args), w) out t"
      have "ir_returns sem f args w (case out of Normal \<Rightarrow> None | Returned x \<Rightarrow> x) (snd t)"
        by (rule function_correct [OF s'(1) [unfolded Some] _ that(2) _ _ _ _ len ex])
          (use that(1) plain s'(4) Some in \<open>simp_all add: supported_def\<close>)
      then show "ir_returns sem f args w v w' \<longleftrightarrow> v = (case out of Normal \<Rightarrow> None | Returned x \<Rightarrow> x) \<and> w' = snd t"
        using ir_returns_unique by metis
    qed
    then show ?thesis using s'(3) Some by simp
  qed
  with s' show ?thesis by blast
qed

lemma decls_lowered:
  assumes "list_all plain_decl ds" "b_fn s = None" "gen_decls ds s = Some s'"
  shows "\<exists>fs. mod_functions (b_module s') = mod_functions (b_module s) @ fs \<and> list_all2 (lowered_to sem) (filter is_function ds) fs"
  using assms
proof (induction ds arbitrary: s)
  case (Cons d ds)
  show ?case
  proof (cases d)
    case (FunctionDecl name params ret body isPub r)
    with Cons.prems(1) obtain s1 f where s1: "gen_decl d s = Some s1" "b_fn s1 = None"
        "mod_functions (b_module s1) = mod_functions (b_module s) @ [f]" "lowered_to sem d f"
      using function_lowered [of name params ret body isPub r s sem] by auto
    with Cons.prems have "gen_decls ds s1 = Some s'" by simp
    from Cons.IH [OF _ s1(2) this] Cons.prems(1) s1(3,4) show ?thesis by (auto simp: FunctionDecl)
  next
    case (VarDecl k x t init r)
    with Cons.prems(2,3) show ?thesis by (simp add: gen_var_detached)
  qed (use Cons in auto)
qed simp

lemma module_lowered:
  assumes "generate m s = Some (irm, s')" "list_all plain_decl (module_decls m)" "m = ModuleDecl name ds r" "b_fn s = None"
  shows "list_all2 (lowered_to sem) (filter is_function (module_decls m)) (mod_functions irm)"
  using decls_lowered [of ds "s\<lparr>b_module := new_module name\<rparr>" s' sem] assms
  by (auto simp: generate_def new_module_def split: bind_splits)


section \<open>A compiled file\<close>

lemma front_end_accepted:
  assumes "front_end n path src c = Some (m, c')"
  shows "\<exists>p p' sa. parse n p = Parsed m p' \<and> analyze m (new_analyzer (ps_ctx p')) = Some (True, sa) \<and> c' = sa_ctx sa"
  using assms by (auto simp: front_end_def split: bind_splits parse_result.splits if_splits) blast

lemma stage_ir_output:
  assumes "stage_ir sys opts path m e = Finished True d'"
  shows "\<exists>irm ig. generate m (new_irgen (drv_ctx e)) = Some (irm, ig)
    \<and> (if opt_dumpIR opts then \<exists>before. drv_out d' = before @ print_module irm else \<exists>ll. EmitIR irm ll \<in> set (drv_events d'))"
  using assms
  by (auto simp: stage_ir_def stage_llvm_def stage_binary_def emit_ll_def run_command_def run_then_def Let_def print_out_def happens_def
      split: run.splits option.splits if_splits prod.splits)


text \<open>A file with one function, its options, and what its front end and its IR generation give.\<close>

definition inc_source :: string where
  "inc_source = ''fn inc(n: i64) { return n + 1 }''"

definition inc_options :: CompilerOptions where
  "inc_options = default_options\<lparr>opt_dumpIR := True\<rparr>"

definition is_successor :: "Expr \<Rightarrow> string \<Rightarrow> bool" where
  "is_successor e n = (case e of
     BinaryExpr op a b _ \<Rightarrow> op = BoAdd \<and> (case a of IdentExpr x _ \<Rightarrow> x = n | _ \<Rightarrow> False)
       \<and> (case b of IntLiteralExpr k _ \<Rightarrow> k = 1 | _ \<Rightarrow> False)
   | _ \<Rightarrow> False)"

definition returned_value :: "Stmt \<Rightarrow> Expr option" where
  "returned_value s = (case s of
     BlockStmt ss _ \<Rightarrow> (case ss of [t] \<Rightarrow> (case t of ReturnStmt v _ \<Rightarrow> v | _ \<Rightarrow> None) | _ \<Rightarrow> None)
   | _ \<Rightarrow> None)"

definition is_inc :: "Decl \<Rightarrow> bool" where
  "is_inc d = (case d of
     FunctionDecl f ps _ (Some body) _ _ \<Rightarrow> f = ''inc'' \<and> map param_name ps = [''n'']
       \<and> (case returned_value body of Some e \<Rightarrow> is_successor e ''n'' | None \<Rightarrow> False)
   | _ \<Rightarrow> False)"

lemma is_inc_iff:
  "is_inc d \<longleftrightarrow> (\<exists>p t1 pub r r1 r2 r3 r4 r5. param_name p = ''n'' \<and> d = FunctionDecl ''inc'' [p] t1
     (Some (BlockStmt [ReturnStmt (Some (BinaryExpr BoAdd (IdentExpr ''n'' r1) (IntLiteralExpr 1 r2) r3)) r4] r5)) pub r)"
  by (auto simp: is_inc_def is_successor_def returned_value_def split: Decl.splits Stmt.splits Expr.splits list.splits option.splits)

lemma inc_exec:
  assumes "\<not> zero_arg_builtin n"
  shows "exec sem (BlockStmt [ReturnStmt (Some (BinaryExpr BoAdd (IdentExpr n r1) (IntLiteralExpr 1 r2) r3)) r4] r5) ([n \<mapsto> v], w)
           (Returned (Some (v + 1))) ([n \<mapsto> v], w)"
proof -
  let ?ret = "ReturnStmt (Some (BinaryExpr BoAdd (IdentExpr n r1) (IntLiteralExpr 1 r2) r3)) r4"
  have "exec sem ?ret ([n \<mapsto> v], w) (Returned (Some (v + 1))) ([n \<mapsto> v], w)"
    by (rule exec_return) (simp add: assms)
  then have "exec sem (BlockStmt [?ret] r5) ([n \<mapsto> v], w) (Returned (Some (v + 1))) (end_scope ([n \<mapsto> v], w) ([n \<mapsto> v], w))"
    by (intro exec_block execs_return)
  then show ?thesis by (simp add: end_scope_same)
qed

definition inc_compiled :: "(bool list \<times> nat list) option" where
  "inc_compiled = do {
     (m, c) \<leftarrow> front_end 400 ''inc.v'' inc_source (new_context inc_options);
     (irm, g) \<leftarrow> generate m (new_irgen c);
     Some (map is_inc (module_decls m), map (\<lambda>f. length (code f)) (mod_functions irm)) }"



section \<open>The compiler with LLVM\<close>

definition with_llvm :: "('v, 'b, 's) Llvm \<Rightarrow> (string \<Rightarrow> string option) \<Rightarrow> System \<Rightarrow> System" where
  "with_llvm L open_error sys =
     sys\<lparr>sys_emitIR := \<lambda>irm path. map_option (\<lambda>(ok, err, text). (ok, err)) (emitIR_llvm L open_error irm path)\<rparr>"

definition without_llvm :: "System \<Rightarrow> System" where
  "without_llvm sys = sys\<lparr>sys_emitIR := \<lambda>irm path. Some (emitIR_disabled irm path)\<rparr>"

lemma stage_finishes:
  assumes "\<And>q. \<exists>answer. sys_emitIR sys irm q = Some answer"
  shows "\<exists>r d'. stage_llvm sys opts irm d = Finished r d'" "\<exists>r d'. stage_binary sys opts path irm d = Finished r d'"
proof -
  have emit: "\<exists>ok d'. emit_ll sys irm q e = Finished ok d'" for q e
  proof -
    obtain ok err where "sys_emitIR sys irm q = Some (ok, err)" using assms [of q] by auto
    then show ?thesis by (simp add: emit_ll_def)
  qed
  show "\<exists>r d'. stage_llvm sys opts irm d = Finished r d'"
    using emit by (auto simp: stage_llvm_def run_then_def Let_def split: run.split) (metis run.distinct)+
  show "\<exists>r d'. stage_binary sys opts path irm d = Finished r d'"
    using emit by (auto simp: stage_binary_def run_then_def run_command_def Let_def split: run.split) (metis run.distinct)+
qed



end
